(* ===== verification/Kernel_Prelude.thy ===== *)
theory Kernel_Prelude
  imports Main "HOL-Library.Word"
begin

unbundle bit_operations_syntax

text \<open>
  The prelude of the development: the outcome of a kernel function, the way outcomes are
  composed, the partial-correctness judgement the component proofs are written in, and the
  generic facts on words and updates that the components share.

  A kernel function takes the state and ends in one of four ways: it returns a value and a
  state; it calls \<open>panic()\<close> (\<^verbatim>\<open>kernel/panic.c\<close>: the message is printed and the machine
  loops for ever); it terminates the calling process (\<open>do_exit()\<close>, which does not return to
  its caller); or it is still waiting or looping when the fuel of the model is spent.
\<close>

section \<open>Outcomes of kernel functions\<close>

datatype ('s, 'a) outcome =
    Ret 'a 's
  | Panic string 's
  | Exit int 's
  | Hang

fun andThen :: "('s, 'a) outcome \<Rightarrow> ('a \<Rightarrow> 's \<Rightarrow> ('s, 'b) outcome) \<Rightarrow> ('s, 'b) outcome" where
  "andThen (Ret a s) f = f a s"
| "andThen (Panic m s) f = Panic m s"
| "andThen (Exit c s) f = Exit c s"
| "andThen Hang f = Hang"

text \<open>
  \<open>lets m P\<close>: if \<open>m\<close> returns, its value and state satisfy \<open>P\<close> (partial correctness);
  \<open>returns m P\<close>: \<open>m\<close> does return, and they satisfy \<open>P\<close> (total correctness).
\<close>

definition lets :: "('s, 'a) outcome \<Rightarrow> ('a \<Rightarrow> 's \<Rightarrow> bool) \<Rightarrow> bool" where
  "lets m P \<longleftrightarrow> (case m of Ret a s \<Rightarrow> P a s | _ \<Rightarrow> True)"

definition returns :: "('s, 'a) outcome \<Rightarrow> ('a \<Rightarrow> 's \<Rightarrow> bool) \<Rightarrow> bool" where
  "returns m P \<longleftrightarrow> (case m of Ret a s \<Rightarrow> P a s | _ \<Rightarrow> False)"

named_theorems outcome_simps \<open>evaluation of the two judgements on each way to end\<close>

lemma lets_simps [simp, outcome_simps]:
  "lets (Ret a s) P = P a s"
  "lets (Panic m s) P"
  "lets (Exit c s) P"
  "lets Hang P"
  by (simp_all add: lets_def)

lemma returns_simps [simp, outcome_simps]:
  "returns (Ret a s) P = P a s"
  "\<not> returns (Panic m s) P"
  "\<not> returns (Exit c s) P"
  "\<not> returns Hang P"
  by (simp_all add: returns_def)

lemma lets_andThen [simp]:
  "lets (andThen m f) P = lets m (\<lambda>a s. lets (f a s) P)"
  by (cases m) auto

lemma returns_andThen [simp]:
  "returns (andThen m f) P = returns m (\<lambda>a s. returns (f a s) P)"
  by (cases m) auto

lemma lets_mono: "lets m P \<Longrightarrow> (\<And>a s. P a s \<Longrightarrow> Q a s) \<Longrightarrow> lets m Q"
  by (cases m) auto

lemma returns_mono: "returns m P \<Longrightarrow> (\<And>a s. P a s \<Longrightarrow> Q a s) \<Longrightarrow> returns m Q"
  by (cases m) auto

lemma lets_conj: "lets m (\<lambda>a s. P a s \<and> Q a s) \<longleftrightarrow> lets m P \<and> lets m Q"
  by (cases m) auto

lemma lets_RetD: "lets m P \<Longrightarrow> m = Ret a s \<Longrightarrow> P a s"
  by simp

lemma returns_RetD: "returns m P \<Longrightarrow> m = Ret a s \<Longrightarrow> P a s"
  by simp

lemma letsI: "(\<And>a s. m = Ret a s \<Longrightarrow> P a s) \<Longrightarrow> lets m P"
  by (cases m) auto

lemma returnsE: "returns m P \<Longrightarrow> (\<And>a s. m = Ret a s \<Longrightarrow> P a s \<Longrightarrow> R) \<Longrightarrow> R"
  by (cases m) auto

lemma returns_lets: "returns m P \<Longrightarrow> lets m P"
  by (cases m) auto

lemma andThen_Ret_iff:
  "andThen m f = Ret b t \<longleftrightarrow> (\<exists>a s. m = Ret a s \<and> f a s = Ret b t)"
  by (cases m) auto

lemma andThen_assoc: "andThen (andThen m f) g = andThen m (\<lambda>a s. andThen (f a s) g)"
  by (cases m) auto

text \<open>A \<open>for\<close> loop over the entries of a table.\<close>

fun each :: "('b \<Rightarrow> 's \<Rightarrow> ('s, unit) outcome) \<Rightarrow> 'b list \<Rightarrow> 's \<Rightarrow> ('s, unit) outcome" where
  "each f [] s = Ret () s"
| "each f (x # xs) s = andThen (f x s) (\<lambda>_ s. each f xs s)"

section \<open>Types named after the C types\<close>

type_synonym u8 = "8 word"
type_synonym u16 = "16 word"
type_synonym u32 = "32 word"

text \<open>Error numbers (\<^verbatim>\<open>include/errno.h\<close>); the system calls return them negated.\<close>

abbreviation (input) "EPERM \<equiv> (1::int)"
abbreviation (input) "ENOENT \<equiv> (2::int)"
abbreviation (input) "ESRCH \<equiv> (3::int)"
abbreviation (input) "EINTR \<equiv> (4::int)"
abbreviation (input) "EIO \<equiv> (5::int)"
abbreviation (input) "EBADF \<equiv> (9::int)"
abbreviation (input) "ECHILD \<equiv> (10::int)"
abbreviation (input) "EAGAIN \<equiv> (11::int)"
abbreviation (input) "ENOMEM \<equiv> (12::int)"
abbreviation (input) "EACCES \<equiv> (13::int)"
abbreviation (input) "EINVAL \<equiv> (22::int)"
abbreviation (input) "EMFILE \<equiv> (24::int)"
abbreviation (input) "ENOTBLK \<equiv> (15::int)"
abbreviation (input) "EBUSY \<equiv> (16::int)"
abbreviation (input) "EEXIST \<equiv> (17::int)"
abbreviation (input) "EXDEV \<equiv> (18::int)"
abbreviation (input) "ENODEV \<equiv> (19::int)"
abbreviation (input) "ENOTDIR \<equiv> (20::int)"
abbreviation (input) "EISDIR \<equiv> (21::int)"
abbreviation (input) "ENOTTY \<equiv> (25::int)"
abbreviation (input) "ENOSPC \<equiv> (28::int)"
abbreviation (input) "ENOTEMPTY \<equiv> (39::int)"
abbreviation (input) "ERROR \<equiv> (99::int)"
abbreviation (input) "ESPIPE \<equiv> (29::int)"
abbreviation (input) "ENOSYS \<equiv> (38::int)"

end
