(* ===== verification/Memory.thy ===== *)
theory Memory
  imports Kernel_Prelude
begin

text \<open>
  \<^verbatim>\<open>mm/memory.c\<close>: the page frame allocator, the two-level page tables and copy on write.

  Physical memory is the function \<open>pmem\<close> from the address of a 4-byte long to its value; the
  page directory is at address 0, as the code assumes (\<open>_pg_dir = 0\<close>). The byte array
  \<open>mem_map\<close> holds one use count per frame of main memory, as an \<open>unsigned char\<close> that wraps.
  \<open>invalidate()\<close> reloads cr3 and changes nothing that the model keeps.
\<close>

section \<open>State\<close>

record mm_state =
  mem_map :: "nat \<Rightarrow> u8"
  high_memory :: u32
  pmem :: "u32 \<Rightarrow> u32"

abbreviation LOW_MEM :: u32 where "LOW_MEM \<equiv> 0x100000"

definition PAGING_PAGES :: nat where
  "PAGING_PAGES = 3840"

abbreviation PAGE_SIZE :: u32 where "PAGE_SIZE \<equiv> 4096"

abbreviation USED :: u8 where "USED \<equiv> 100"

definition MAP_NR :: "u32 \<Rightarrow> nat" where
  "MAP_NR addr = unat (drop_bit 12 (addr - LOW_MEM))"

text \<open>
  \<open>rep ; stosl\<close> over the 1024 longs of a page, and \<open>copy_page\<close>: an address lies in the page at
  \<open>page\<close> when its distance from \<open>page\<close> is below 4096.
\<close>

definition clear_page :: "u32 \<Rightarrow> (u32 \<Rightarrow> u32) \<Rightarrow> u32 \<Rightarrow> u32" where
  "clear_page page m = (\<lambda>a. if a - page < PAGE_SIZE then 0 else m a)"

definition copy_page :: "u32 \<Rightarrow> u32 \<Rightarrow> (u32 \<Rightarrow> u32) \<Rightarrow> u32 \<Rightarrow> u32" where
  "copy_page from to m = (\<lambda>a. if a - to < PAGE_SIZE then m (from + (a - to)) else m a)"

section \<open>Page frames\<close>

text \<open>\<open>std ; repne ; scasb\<close>: the byte map is scanned from its last entry down.\<close>

fun scan_free :: "(nat \<Rightarrow> u8) \<Rightarrow> nat \<Rightarrow> nat option" where
  "scan_free mm 0 = None"
| "scan_free mm (Suc n) = (if mm n = 0 then Some n else scan_free mm n)"

definition get_free_page :: "'a mm_state_scheme \<Rightarrow> u32 \<times> 'a mm_state_scheme" where
  "get_free_page s = (case scan_free (mem_map s) PAGING_PAGES of
     None \<Rightarrow> (0, s)
   | Some i \<Rightarrow>
       (let page = push_bit 12 (of_nat i) + LOW_MEM in
        (page, s\<lparr>mem_map := (mem_map s)(i := 1), pmem := clear_page page (pmem s)\<rparr>)))"

definition free_page :: "u32 \<Rightarrow> 'a mm_state_scheme \<Rightarrow> ('a mm_state_scheme, unit) outcome" where
  "free_page addr s =
     (if addr < LOW_MEM then Ret () s
      else if high_memory s \<le> addr then Panic ''trying to free nonexistent page'' s
      else let i = MAP_NR addr in
        if mem_map s i \<noteq> 0 then Ret () (s\<lparr>mem_map := (mem_map s)(i := mem_map s i - 1)\<rparr>)
        else Panic ''trying to free free page'' (s\<lparr>mem_map := (mem_map s)(i := 0)\<rparr>))"

section \<open>Page tables\<close>

definition page_of :: "u32 \<Rightarrow> u32" where
  "page_of e = 0xfffff000 AND e"

definition present :: "u32 \<Rightarrow> bool" where
  "present e \<longleftrightarrow> 1 AND e \<noteq> 0"

text \<open>The address of the directory entry of a linear address (\<open>(address>>20) & 0xffc\<close>), and the
  offset of its entry in the page table (\<open>(address>>10) & 0xffc\<close>).\<close>

definition dir_entry_addr :: "u32 \<Rightarrow> u32" where
  "dir_entry_addr a = drop_bit 20 a AND 0xffc"

definition table_offset :: "u32 \<Rightarrow> u32" where
  "table_offset a = drop_bit 10 a AND 0xffc"

abbreviation set_pmem :: "u32 \<Rightarrow> u32 \<Rightarrow> 'a mm_state_scheme \<Rightarrow> 'a mm_state_scheme" where
  "set_pmem a v s \<equiv> s\<lparr>pmem := (pmem s)(a := v)\<rparr>"

text \<open>The inner loop of \<open>free_page_tables\<close>: \<open>n\<close> entries from address \<open>p\<close>.\<close>

fun free_ptes :: "nat \<Rightarrow> u32 \<Rightarrow> 'a mm_state_scheme \<Rightarrow> ('a mm_state_scheme, unit) outcome" where
  "free_ptes 0 p s = Ret () s"
| "free_ptes (Suc n) p s =
     andThen (if present (pmem s p) then free_page (page_of (pmem s p)) s else Ret () s)
       (\<lambda>_ s. free_ptes n (p + 4) (set_pmem p 0 s))"

fun free_dirs :: "nat \<Rightarrow> u32 \<Rightarrow> 'a mm_state_scheme \<Rightarrow> ('a mm_state_scheme, unit) outcome" where
  "free_dirs 0 dir s = Ret () s"
| "free_dirs (Suc n) dir s =
     (if \<not> present (pmem s dir) then free_dirs n (dir + 4) s
      else andThen (free_ptes 1024 (page_of (pmem s dir)) s) (\<lambda>_ s.
           andThen (free_page (page_of (pmem s dir)) s) (\<lambda>_ s.
           free_dirs n (dir + 4) (set_pmem dir 0 s))))"

definition free_page_tables ::
  "u32 \<Rightarrow> u32 \<Rightarrow> 'a mm_state_scheme \<Rightarrow> ('a mm_state_scheme, int) outcome" where
  "free_page_tables from sz s =
     (if from AND 0x3fffff \<noteq> 0 then Panic ''free_page_tables called with wrong alignment'' s
      else if from = 0 then Panic ''Trying to free up swapper memory space'' s
      else andThen (free_dirs (unat (drop_bit 22 (sz + 0x3fffff))) (dir_entry_addr from) s)
             (\<lambda>_ s. Ret 0 s))"

text \<open>The inner loop of \<open>copy_page_tables\<close>: \<open>n\<close> entries from \<open>fp\<close> to \<open>tp\<close>, made read-only on both
  sides, each page of main memory counted once more.\<close>

fun copy_ptes :: "nat \<Rightarrow> u32 \<Rightarrow> u32 \<Rightarrow> 'a mm_state_scheme \<Rightarrow> 'a mm_state_scheme" where
  "copy_ptes 0 fp tp s = s"
| "copy_ptes (Suc n) fp tp s =
     copy_ptes n (fp + 4) (tp + 4)
       (let this_page = pmem s fp in
        if \<not> present this_page then s
        else let this_page = this_page AND NOT 2; s = set_pmem tp this_page s in
          if LOW_MEM < this_page then
            let s = set_pmem fp this_page s; i = MAP_NR this_page in
            s\<lparr>mem_map := (mem_map s)(i := mem_map s i + 1)\<rparr>
          else s)"

fun copy_dirs :: "nat \<Rightarrow> nat \<Rightarrow> u32 \<Rightarrow> u32 \<Rightarrow> 'a mm_state_scheme \<Rightarrow> ('a mm_state_scheme, int) outcome" where
  "copy_dirs nr 0 from_dir to_dir s = Ret 0 s"
| "copy_dirs nr (Suc n) from_dir to_dir s =
     (if present (pmem s to_dir) then Panic ''copy_page_tables: already exist'' s
      else if \<not> present (pmem s from_dir) then copy_dirs nr n (from_dir + 4) (to_dir + 4) s
      else let from_page_table = page_of (pmem s from_dir); (to_page_table, s) = get_free_page s in
        if to_page_table = 0 then Ret (-1) s
        else copy_dirs nr n (from_dir + 4) (to_dir + 4)
               (copy_ptes nr from_page_table to_page_table (set_pmem to_dir (to_page_table OR 7) s)))"

definition copy_page_tables ::
  "u32 \<Rightarrow> u32 \<Rightarrow> u32 \<Rightarrow> 'a mm_state_scheme \<Rightarrow> ('a mm_state_scheme, int) outcome" where
  "copy_page_tables from to sz s =
     (if from AND 0x3fffff \<noteq> 0 \<or> to AND 0x3fffff \<noteq> 0
      then Panic ''copy_page_tables called with wrong alignment'' s
      else copy_dirs (if from = 0 then 0xA0 else 1024) (unat (drop_bit 22 (sz + 0x3fffff)))
             (dir_entry_addr from) (dir_entry_addr to) s)"

text \<open>\<open>put_page\<close>; its two warnings only print.\<close>

definition put_page :: "u32 \<Rightarrow> u32 \<Rightarrow> 'a mm_state_scheme \<Rightarrow> u32 \<times> 'a mm_state_scheme" where
  "put_page page address s =
     (let dir = dir_entry_addr address in
      if present (pmem s dir)
      then (page, set_pmem (page_of (pmem s dir) + table_offset address) (page OR 7) s)
      else let (tmp, s) = get_free_page s in
        if tmp = 0 then (0, s)
        else (page, set_pmem (tmp + table_offset address) (page OR 7) (set_pmem dir (tmp OR 7) s)))"

section \<open>Copy on write and demand-zero pages\<close>

abbreviation (input) SIGSEGV :: int where "SIGSEGV \<equiv> 11"

text \<open>\<open>oom()\<close> ends the calling process: \<open>do_exit(SIGSEGV)\<close>.\<close>

definition oom :: "'a mm_state_scheme \<Rightarrow> ('a mm_state_scheme, 'b) outcome" where
  "oom s = Exit SIGSEGV s"

definition un_wp_page :: "u32 \<Rightarrow> 'a mm_state_scheme \<Rightarrow> ('a mm_state_scheme, unit) outcome" where
  "un_wp_page table_entry s =
     (let old_page = page_of (pmem s table_entry) in
      if LOW_MEM \<le> old_page \<and> mem_map s (MAP_NR old_page) = 1
      then Ret () (set_pmem table_entry (pmem s table_entry OR 2) s)
      else let (new_page, s) = get_free_page s in
        if new_page = 0 then oom s
        else let s = (if LOW_MEM \<le> old_page
                      then s\<lparr>mem_map := (mem_map s)
                               (MAP_NR old_page := mem_map s (MAP_NR old_page) - 1)\<rparr>
                      else s);
                 s = set_pmem table_entry (new_page OR 7) s
             in Ret () (s\<lparr>pmem := copy_page old_page new_page (pmem s)\<rparr>))"

definition pte_addr :: "u32 \<Rightarrow> 'a mm_state_scheme \<Rightarrow> u32" where
  "pte_addr address s = table_offset address + page_of (pmem s (dir_entry_addr address))"

definition do_wp_page :: "u32 \<Rightarrow> u32 \<Rightarrow> 'a mm_state_scheme \<Rightarrow> ('a mm_state_scheme, unit) outcome" where
  "do_wp_page error_code address s = un_wp_page (pte_addr address s) s"

definition write_verify :: "u32 \<Rightarrow> 'a mm_state_scheme \<Rightarrow> ('a mm_state_scheme, unit) outcome" where
  "write_verify address s =
     (if \<not> present (pmem s (dir_entry_addr address)) then Ret () s
      else let page = page_of (pmem s (dir_entry_addr address)) + table_offset address in
        if 3 AND pmem s page = 1 then un_wp_page page s else Ret () s)"

definition get_empty_page :: "u32 \<Rightarrow> 'a mm_state_scheme \<Rightarrow> ('a mm_state_scheme, unit) outcome" where
  "get_empty_page address s =
     (let (tmp, s) = get_free_page s in
      if tmp = 0 then andThen (free_page tmp s) (\<lambda>_ s. oom s)
      else let (r, s) = put_page tmp address s in
        if r = 0 then andThen (free_page tmp s) (\<lambda>_ s. oom s)
        else Ret () s)"

text \<open>\<open>try_to_share\<close>: the process \<open>p\<close> enters through its \<open>start_code\<close>, the current process
  through \<open>cur_start\<close>.\<close>

definition try_to_share ::
  "u32 \<Rightarrow> u32 \<Rightarrow> u32 \<Rightarrow> 'a mm_state_scheme \<Rightarrow> ('a mm_state_scheme, int) outcome" where
  "try_to_share address p_start cur_start s =
     (let from_page = dir_entry_addr address + dir_entry_addr p_start;
          to_page = dir_entry_addr address + dir_entry_addr cur_start;
          from = pmem s from_page in
      if \<not> present from then Ret 0 s
      else let from_page = page_of from + table_offset address; phys_addr = pmem s from_page in
      if phys_addr AND 0x41 \<noteq> 1 then Ret 0 s
      else let phys_addr = page_of phys_addr in
      if high_memory s \<le> phys_addr \<or> phys_addr < LOW_MEM then Ret 0 s
      else let to = pmem s to_page in
      andThen (if present to then Ret to s
               else let (to, s) = get_free_page s in
                 if to = 0 then oom s else Ret to (set_pmem to_page (to OR 7) s))
        (\<lambda>to s. let to_page = page_of to + table_offset address in
          if present (pmem s to_page) then Panic ''try_to_share: to_page already exists'' s
          else let s = set_pmem from_page (pmem s from_page AND NOT 2) s;
                   s = set_pmem to_page (pmem s from_page) s;
                   i = MAP_NR phys_addr
               in Ret 1 (s\<lparr>mem_map := (mem_map s)(i := mem_map s i + 1)\<rparr>)))"

section \<open>Initialisation and statistics\<close>

fun mark_used :: "nat \<Rightarrow> (nat \<Rightarrow> u8) \<Rightarrow> nat \<Rightarrow> u8" where
  "mark_used 0 m = m"
| "mark_used (Suc n) m = (mark_used n m)(n := USED)"

text \<open>\<open>while (end_mem-->0) mem_map[i++]=0\<close>\<close>

fun mark_free :: "nat \<Rightarrow> nat \<Rightarrow> (nat \<Rightarrow> u8) \<Rightarrow> nat \<Rightarrow> u8" where
  "mark_free 0 i m = m"
| "mark_free (Suc n) i m = mark_free n (Suc i) (m(i := 0))"

definition mem_init :: "int \<Rightarrow> int \<Rightarrow> 'a mm_state_scheme \<Rightarrow> 'a mm_state_scheme" where
  "mem_init start_mem end_mem s =
     s\<lparr>high_memory := word_of_int end_mem,
       mem_map := mark_free (nat ((end_mem - start_mem) div 4096))
                    (nat ((start_mem - 0x100000) div 4096))
                    (mark_used PAGING_PAGES (mem_map s))\<rparr>"

text \<open>\<open>calc_mem\<close>: the number of free pages, and for each present directory entry from the third
  on, its index and the number of present entries of its table.\<close>

fun count_free :: "(nat \<Rightarrow> u8) \<Rightarrow> nat \<Rightarrow> nat" where
  "count_free mm 0 = 0"
| "count_free mm (Suc n) = count_free mm n + (if mm n = 0 then 1 else 0)"

definition calc_mem :: "'a mm_state_scheme \<Rightarrow> nat \<times> (nat \<times> nat) list" where
  "calc_mem s =
     (count_free (mem_map s) PAGING_PAGES,
      [(i, length (filter (\<lambda>j. present (pmem s (page_of (pmem s (4 * of_nat i)) + 4 * of_nat j))) [0..<1024])).
         i \<leftarrow> [2..<1024], present (pmem s (4 * of_nat i))])"

end
