(* ===== verification/Words.thy ===== *)
theory Words
  imports Kernel_Prelude
begin

text \<open>
  Facts on machine words that several components use: masks as remainders, widening, and the offset
  of an address in a buffer.
\<close>

lemma word_and_mask: "(x::'a::len word) AND mask n = take_bit n x"
  by (simp add: take_bit_eq_mask)

lemma unat_and_mask:
  assumes "n \<le> LENGTH('a)"
  shows "unat ((x::'a::len word) AND mask n) = unat x mod 2 ^ n"
  by (simp add: word_and_mask unsigned_take_bit_eq take_bit_nat_def)

lemma and_fff: "unat ((x::u32) AND 0xfff) = unat x mod 4096" "unat ((y::u16) AND 0xfff) = unat y mod 4096"
  using unat_and_mask [of 12 x] unat_and_mask [of 12 y] by (simp_all add: mask_eq_exp_minus_1)

lemma unat_ucast_u16 [simp]: "unat (ucast (x::u16) :: u32) = unat x"
  using unsigned_less [of x, where 'a = nat] by (simp add: unsigned_ucast_eq take_bit_nat_def)

lemma unat_ucast_u8 [simp]: "unat (ucast (x::u8) :: u32) = unat x"
  using unsigned_less [of x, where 'a = nat] by (simp add: unsigned_ucast_eq take_bit_nat_def)

lemma sub_word_nat:
  fixes a b :: "'a::len word"
  shows "unat (a - b) = (if unat b \<le> unat a then unat a - unat b else unat a + 2 ^ LENGTH('a) - unat b)"
  using unat_sub_if' [of a b] by (simp add: word_le_nat_alt)

lemma unat_ring_diff:
  fixes a b :: u32
  assumes "unat a < 4096" and "unat b < 4096"
  shows "unat ((a - b) AND 0xfff) = (unat a + 4096 - unat b) mod 4096"
proof (cases "unat b \<le> unat a")
  case True
  then have "unat (a - b) = unat a - unat b" by (simp add: sub_word_nat)
  moreover have "unat a + 4096 - unat b = (unat a - unat b) + 4096" using True by simp
  ultimately show ?thesis by (simp only: and_fff mod_add_self2)
next
  case False
  then have "unat (a - b) = unat a + 4294967296 - unat b" by (simp only: sub_word_nat) simp
  moreover have "unat a + 4294967296 - unat b = (unat a + 4096 - unat b) + 1048575 * 4096" using assms by linarith
  ultimately show ?thesis by (simp only: and_fff mod_mult_self2 mod_mult_self1)
qed

lemma unat_minus_1_u32: "(d::u32) \<noteq> 0 \<Longrightarrow> Suc (unat (d - 1)) = unat d"
  by (metis Suc_pred' unat_gt_0 unat_minus_one One_nat_def)

lemma unat_of_nat_u32: "n < 4294967296 \<Longrightarrow> unat (of_nat n :: u32) = n"
  by (simp add: unat_of_nat)

text \<open>The position of an address relative to the start of a buffer.\<close>

lemma offset_Suc:
  fixes x buf :: u32
  shows "x \<noteq> buf \<Longrightarrow> unat (x - buf) = Suc (unat (x - (buf + 1)))"
  using unat_minus_1_u32 [of "x - buf"] by (simp add: diff_diff_eq)

lemma offset_wrap: "unat (x - ((x::u32) + 1)) = 4294967295"
proof -
  have "x - (x + 1) = -1" by simp
  then show ?thesis by (simp add: unsigned_minus_1_eq_mask mask_eq_exp_minus_1)
qed

lemma offset_add:
  fixes x buf c :: u32
  shows "unat (x - (buf + c)) =
    (if unat c \<le> unat (x - buf) then unat (x - buf) - unat c else unat (x - buf) + 4294967296 - unat c)"
  using sub_word_nat [of "x - buf" c] by (simp add: diff_diff_eq)

section \<open>Signed longs\<close>

lemma sint_cases:
  "sint (x::u32) = (if unat x < 2147483648 then int (unat x) else int (unat x) - 4294967296)"
proof -
  have u: "int (unat x) = sint x mod 4294967296"
    by (simp add: uint_sint take_bit_eq_mod)
  have b: "- 2147483648 \<le> sint x" "sint x < 2147483648"
    using sint_greater_eq [of x] sint_less [of x] by simp_all
  show ?thesis
  proof (cases "0 \<le> sint x")
    case True
    then show ?thesis using u b by (simp del: of_nat_unat)
  next
    case False
    have "sint x mod 4294967296 = (sint x + 4294967296) mod 4294967296" by simp
    also have "\<dots> = sint x + 4294967296" using False b by (intro mod_pos_pos_trivial) linarith+
    finally show ?thesis using u b False by (simp del: of_nat_unat)
  qed
qed

lemma sint_small: "unat (x::u32) < 2147483648 \<Longrightarrow> sint x = int (unat x)"
  by (simp only: sint_cases if_True)

lemma pos_sint: "(0::u32) <s c \<longleftrightarrow> 0 < unat c \<and> unat c < 2147483648"
proof -
  have "unat c < 4294967296" using unsigned_less [of c, where ?'a = nat] by simp
  moreover have "sint (0::u32) = 0" by simp
  ultimately show ?thesis by (simp only: word_sless_alt sint_cases [of c]) (auto simp del: of_nat_unat)
qed

lemma unat_min:
  "unat (a::u32) < 2147483648 \<Longrightarrow> unat b < 2147483648 \<Longrightarrow> unat (if b <s a then b else a) = min (unat a) (unat b)"
  by (simp only: word_sless_alt sint_cases if_True) (auto simp del: of_nat_unat)

section \<open>Counting round a buffer of 4096 cells\<close>

lemma mod4096_ge: "4096 \<le> (n::nat) \<Longrightarrow> n < 8192 \<Longrightarrow> n mod 4096 = n - 4096"
  by (simp add: le_mod_geq)

lemma ring_drop:
  fixes h t m :: nat
  assumes "h < 4096" and "t < 4096" and "m \<le> (h + 4096 - t) mod 4096"
  shows "(h + 4096 - (t + m) mod 4096) mod 4096 = (h + 4096 - t) mod 4096 - m"
proof (cases "t \<le> h")
  case True
  then have l: "(h + 4096 - t) mod 4096 = h - t" using assms(1) mod4096_ge [of "h + 4096 - t"] by simp
  then have "t + m \<le> h" using assms True by simp
  then show ?thesis using l assms mod4096_ge [of "h + 4096 - (t + m)"] by simp
next
  case False
  then have l: "(h + 4096 - t) mod 4096 = h + 4096 - t" using assms(2) by simp
  show ?thesis
  proof (cases "t + m < 4096")
    case True
    then show ?thesis using l False assms by simp
  next
    case ge: False
    then have "(t + m) mod 4096 = t + m - 4096" using assms l False by (intro mod4096_ge) linarith+
    moreover have "(h + 4096 - (t + m - 4096)) mod 4096 = h + 4096 - (t + m - 4096) - 4096"
      using assms l False ge by (intro mod4096_ge) linarith+
    ultimately have "(h + 4096 - (t + m) mod 4096) mod 4096 = h + 4096 - (t + m - 4096) - 4096" by (simp only:)
    also have "\<dots> = h + 4096 - t - m" using ge by arith
    finally show ?thesis by (simp only: l)
  qed
qed

lemma ring_add:
  fixes h t m :: nat
  assumes "h < 4096" and "t < 4096" and "(h + 4096 - t) mod 4096 + m < 4096"
  shows "((h + m) mod 4096 + 4096 - t) mod 4096 = (h + 4096 - t) mod 4096 + m"
proof (cases "t \<le> h")
  case True
  then have l: "(h + 4096 - t) mod 4096 = h - t" using assms(1) mod4096_ge [of "h + 4096 - t"] by simp
  show ?thesis
  proof (cases "h + m < 4096")
    case lt: True
    then show ?thesis using l True mod4096_ge [of "h + m + 4096 - t"] assms by simp
  next
    case ge: False
    then have "(h + m) mod 4096 = h + m - 4096" using assms l True by (intro mod4096_ge) linarith+
    then show ?thesis using l True ge assms by simp
  qed
next
  case False
  then have "(h + 4096 - t) mod 4096 = h + 4096 - t" using assms(2) by simp
  then show ?thesis using assms False by simp
qed

lemma ring_shift:
  fixes h t j :: nat
  assumes "t < 4096"
  shows "(t + ((h + 4096 - t) mod 4096 + j)) mod 4096 = (h + j) mod 4096"
proof -
  have "(t + ((h + 4096 - t) mod 4096 + j)) mod 4096 = (t + (h + 4096 - t) + j) mod 4096"
    by (simp only: add.assoc mod_add_right_eq mod_add_left_eq add.left_commute [of t])
  also have "t + (h + 4096 - t) + j = (h + j) + 4096" using assms by simp
  finally show ?thesis by simp
qed

lemma ring_inj:
  assumes "(t + k) mod 4096 = (t + l) mod 4096" and "k < 4096" and "l < 4096"
  shows "k = (l::nat)"
proof -
  have *: "a = b" if "(t + a) mod 4096 = (t + b) mod 4096" "a < 4096" "b \<le> a" for a b :: nat
  proof -
    have "4096 dvd (t + a) - (t + b)" using that mod_eq_dvd_iff_nat [of "t + b" "t + a" 4096] by simp
    then have "4096 dvd a - b" by simp
    then show ?thesis using that(2,3) by (auto dest: dvd_imp_le)
  qed
  show ?thesis using *[of k l] *[of l k] assms by (cases "l \<le> k") auto
qed

end
