(* ===== verification/Memory_Tables.thy ===== *)
theory Memory_Tables
  imports Memory Words
begin

text \<open>
  Facts on the page tables of \<^verbatim>\<open>mm/memory.c\<close>: the bit tricks of the code in terms of \<open>div\<close> and
  \<open>mod\<close>, the disjointness of the directory, the tables and the frames, and the number of
  references the tables hold to a frame (\<open>refs\<close>), with its change under each kind of write.
\<close>

section \<open>Bits of entries and addresses\<close>

lemma unat_lt32: "unat (x::u32) < 4294967296"
  using unsigned_less [of x, where ?'a = nat] by simp

lemma page_mask_eq: "(0xfffff000::u32) = NOT (mask 12)"
  by (simp add: mask_eq_exp_minus_1)
lemma bit_page_mask: "bit (0xfffff000::u32) n \<longleftrightarrow> 12 \<le> n \<and> n < 32"
  unfolding page_mask_eq bit_not_iff bit_mask_iff by auto
lemma dir_mask_eq: "(0xffc::u32) = push_bit 2 (mask 10)"
  by (simp add: mask_eq_exp_minus_1 push_bit_eq_mult)
lemma bit_dir_mask: "bit (0xffc::u32) n \<longleftrightarrow> 2 \<le> n \<and> n < 12"
  unfolding dir_mask_eq bit_push_bit_iff bit_mask_iff by auto
lemma bit_7: "bit (7::u32) n \<longleftrightarrow> n < 3"
proof -
  have "(7::u32) = mask 3" by (simp add: mask_eq_exp_minus_1)
  then show ?thesis by (simp only: bit_mask_iff) auto
qed
lemma bit_2: "bit (2::u32) n \<longleftrightarrow> n = 1"
proof -
  have "(2::u32) = push_bit 1 1" by simp
  then show ?thesis by (simp only: bit_push_bit_iff bit_1_iff) auto
qed
lemmas mm_bits = bit_page_mask bit_dir_mask bit_7 bit_2 bit_and_iff bit_or_iff bit_not_iff bit_push_bit_iff bit_drop_bit_eq bit_take_bit_iff

lemma present_bit: "present e = bit e 0"
  by (simp add: present_def and.commute[of 1] and_one_eq even_iff_mod_2_eq_zero[symmetric] bit_0)

lemma page_of_or_7 [simp]: "page_of (x OR 7) = page_of x"
  unfolding page_of_def by (rule bit_word_eqI) (auto simp only: mm_bits)
lemma page_of_or_2 [simp]: "page_of (x OR 2) = page_of x"
  unfolding page_of_def by (rule bit_word_eqI) (auto simp only: mm_bits)
lemma page_of_and_not_2 [simp]: "page_of (x AND NOT 2) = page_of x"
  unfolding page_of_def by (rule bit_word_eqI) (auto simp only: mm_bits len_of_numeral_defs; simp)
lemma present_or_7 [simp]: "present (x OR 7)"
  unfolding present_bit by (simp only: mm_bits) simp
lemma present_or_2 [simp]: "present (x OR 2) = present x"
  unfolding present_bit by (simp only: mm_bits) simp
lemma present_and_not_2 [simp]: "present (x AND NOT 2) = present x"
  unfolding present_bit by (simp only: mm_bits) simp
lemma not_2_simps [simp]: "page_of (x AND - 3) = page_of x" "present (x AND - 3) = present x"
  using page_of_and_not_2 [of x] present_and_not_2 [of x] by simp_all
lemma page_of_page_of [simp]: "page_of (page_of x) = page_of x"
  unfolding page_of_def by (rule bit_word_eqI) (auto simp only: mm_bits)
lemma page_of_alt: "page_of a = push_bit 12 (drop_bit 12 a)"
  unfolding page_of_def by (rule bit_word_eqI) (auto simp only: mm_bits; simp)
lemma dir_entry_addr_alt: "dir_entry_addr a = push_bit 2 (drop_bit 22 a)"
  unfolding dir_entry_addr_def by (rule bit_word_eqI) (auto simp only: mm_bits; auto dest: bit_imp_le_length)
lemma table_offset_alt: "table_offset a = push_bit 2 (take_bit 10 (drop_bit 12 a))"
  unfolding table_offset_def by (rule bit_word_eqI) (auto simp only: mm_bits; auto dest: bit_imp_le_length)

lemma unat_page_of: "unat (page_of a) = unat a div 4096 * 4096"
  using unat_lt32[of a]
  by (simp add: page_of_alt unat_drop_bit_eq drop_bit_eq_div push_bit_eq_mult unat_word_ariths)
lemma unat_dir_entry_addr: "unat (dir_entry_addr a) = unat a div 4194304 * 4"
  using unat_lt32[of a]
  by (simp add: dir_entry_addr_alt unat_drop_bit_eq drop_bit_eq_div push_bit_eq_mult unat_word_ariths)
lemma unat_table_offset: "unat (table_offset a) = unat a div 4096 mod 1024 * 4"
  using unat_lt32[of a]
  by (simp add: table_offset_alt unat_drop_bit_eq drop_bit_eq_div push_bit_eq_mult unat_word_ariths unsigned_take_bit_eq take_bit_eq_mod)
lemma MAP_NR_alt: "MAP_NR a = unat (a - LOW_MEM) div 4096"
  by (simp add: MAP_NR_def unat_drop_bit_eq drop_bit_eq_div unat_div)

section \<open>Frames\<close>

definition frame_addr :: "nat \<Rightarrow> u32" where
  "frame_addr i = push_bit 12 (of_nat i) + LOW_MEM"

abbreviation pde :: "nat \<Rightarrow> u32" where "pde d \<equiv> 4 * of_nat d"

lemma frame_addr_of_nat: "frame_addr i = of_nat (i * 4096 + 1048576)"
  by (simp add: frame_addr_def push_bit_eq_mult)

lemma unat_frame_addr: "i < PAGING_PAGES \<Longrightarrow> unat (frame_addr i) = i * 4096 + 1048576"
  unfolding frame_addr_of_nat by (rule unat_of_nat_u32) (simp add: PAGING_PAGES_def)

lemma unat_pde: "d < 1024 \<Longrightarrow> unat (pde d) = 4 * d"
proof -
  assume "d < 1024"
  then have "unat (of_nat (4 * d) :: u32) = 4 * d" by (intro unat_of_nat_u32) simp
  then show ?thesis by simp
qed

lemma pde_inj: "d < 1024 \<Longrightarrow> d' < 1024 \<Longrightarrow> pde d = pde d' \<longleftrightarrow> d = d'"
  by (metis unat_pde mult_left_cancel zero_neq_numeral)

text \<open>A page-aligned address as a multiple of 4096.\<close>

lemma page_of_iff: "page_of p = p \<longleftrightarrow> (\<exists>q. unat p = q * 4096)"
proof
  assume "page_of p = p"
  then have "unat p = unat p div 4096 * 4096" by (metis unat_page_of)
  then show "\<exists>q. unat p = q * 4096" ..
next
  assume "\<exists>q. unat p = q * 4096"
  then have "unat (page_of p) = unat p" by (auto simp: unat_page_of)
  then show "page_of p = p" by (simp add: word_unat_eq_iff)
qed

lemma page_ofE:
  assumes "page_of p = p"
  obtains q where "unat p = q * 4096" "q < 1048576"
proof -
  from assms obtain q where q: "unat p = q * 4096" by (auto simp: page_of_iff)
  moreover have "q < 1048576" using unat_lt32[of p] q by simp
  ultimately show thesis by (rule that)
qed

lemma frame_addr_simps [simp]:
  assumes "i < PAGING_PAGES"
  shows "page_of (frame_addr i) = frame_addr i" and "LOW_MEM \<le> frame_addr i"
    and "frame_addr i \<noteq> 0" and "MAP_NR (frame_addr i) = i"
proof -
  note u = unat_frame_addr [OF assms]
  have "i * 4096 + 1048576 = (i + 256) * 4096" by simp
  then show "page_of (frame_addr i) = frame_addr i" unfolding page_of_iff u by blast
  show le: "LOW_MEM \<le> frame_addr i" by (simp add: word_le_nat_alt u)
  show "frame_addr i \<noteq> 0" using u by (metis add_is_0 unat_0 zero_neq_numeral)
  show "MAP_NR (frame_addr i) = i"
    using le by (simp add: MAP_NR_alt unat_sub u)
qed

lemma MAP_NR_ge: "LOW_MEM \<le> a \<Longrightarrow> MAP_NR a = (unat a - 1048576) div 4096"
  by (simp add: MAP_NR_alt unat_sub)

lemma frame_addr_MAP_NR:
  assumes "LOW_MEM \<le> p" "page_of p = p" "MAP_NR p < PAGING_PAGES"
  shows "frame_addr (MAP_NR p) = p"
proof -
  from assms(2) obtain q where q: "unat p = q * 4096" by (rule page_ofE)
  have "256 \<le> q" using assms(1) q by (simp add: word_le_nat_alt)
  then have "MAP_NR p = q - 256"
    using assms(1) q by (simp add: MAP_NR_ge diff_mult_distrib [of q 256 4096, simplified, symmetric])
  then have "unat (frame_addr (MAP_NR p)) = unat p"
    using unat_frame_addr [OF assms(3)] q \<open>256 \<le> q\<close> by simp
  then show ?thesis by (simp add: word_unat_eq_iff)
qed

lemma unat_pte_addr:
  assumes "page_of p = p" "k < 1024"
  shows "unat (p + 4 * of_nat k) = unat p + 4 * k"
proof -
  from assms(1) obtain q where q: "unat p = q * 4096" "q < 1048576" by (rule page_ofE)
  have "p + 4 * of_nat k = of_nat (unat p + 4 * k)" by simp
  moreover have "unat p + 4 * k < 4294967296" using q assms(2) by simp
  ultimately show ?thesis by (metis unat_of_nat_u32)
qed

lemma page_of_pte_addr [simp]:
  assumes "page_of p = p" "k < 1024"
  shows "page_of (p + 4 * of_nat k) = p"
proof -
  from assms(1) obtain q where q: "unat p = q * 4096" by (rule page_ofE)
  have "unat (page_of (p + 4 * of_nat k)) = unat p"
    unfolding unat_page_of unat_pte_addr [OF assms] q using assms(2) by simp
  then show ?thesis by (simp add: word_unat_eq_iff)
qed

lemma pte_addr_inj:
  assumes "page_of p = p" "page_of q = q" "k < 1024" "j < 1024"
  shows "p + 4 * of_nat k = q + 4 * of_nat j \<longleftrightarrow> p = q \<and> k = j"
proof
  assume eq: "p + 4 * of_nat k = q + 4 * of_nat j"
  then have "p = q" using page_of_pte_addr assms by metis
  moreover from this eq have "unat p + 4 * k = unat p + 4 * j" using unat_pte_addr assms by metis
  ultimately show "p = q \<and> k = j" by simp
qed simp

lemma page_of_pde [simp]: "d < 1024 \<Longrightarrow> page_of (pde d) = 0"
proof -
  assume "d < 1024"
  then have "unat (page_of (pde d)) = 0" by (simp only: unat_page_of unat_pde) simp
  then show ?thesis by (simp add: unat_eq_0)
qed

text \<open>An address lies in the page at \<open>p\<close> exactly when its page is \<open>p\<close>.\<close>

lemma in_page_iff:
  assumes "page_of p = p"
  shows "a - p < PAGE_SIZE \<longleftrightarrow> page_of a = p"
proof -
  from assms obtain q where q: "unat p = q * 4096" "q < 1048576" by (rule page_ofE)
  have 1: "page_of a = p \<longleftrightarrow> unat a div 4096 = q"
    by (simp add: word_unat_eq_iff unat_page_of q)
  have 2: "unat a div 4096 = q \<longleftrightarrow> unat p \<le> unat a \<and> unat a < unat p + 4096"
    unfolding q by (auto simp: div_nat_eqI)
  have 3: "unat (a - p) = (if unat p \<le> unat a then unat a - unat p
                           else unat a + 4294967296 - unat p)"
    by (simp add: unat_sub_if')
  have "a - p < PAGE_SIZE \<longleftrightarrow> unat (a - p) < 4096" by (simp add: word_less_nat_alt)
  also have "\<dots> \<longleftrightarrow> unat p \<le> unat a \<and> unat a < unat p + 4096"
    unfolding 3 using q by auto
  finally show ?thesis using 1 2 by simp
qed

lemma clear_page_alt: "page_of p = p \<Longrightarrow> clear_page p m a = (if page_of a = p then 0 else m a)"
  by (simp add: clear_page_def in_page_iff)

section \<open>References to frames\<close>

text \<open>The directory entries of the user tasks: task \<open>nr\<close> owns the 16 entries from \<open>16 * nr\<close>; those of
  task 0 are the kernel's own identity map, whose references are not counted.\<close>

abbreviation udirs :: "nat set" where "udirs \<equiv> {16..<1024}"

definition names_frame :: "u32 \<Rightarrow> nat \<Rightarrow> bool" where
  "names_frame e i \<longleftrightarrow> present e \<and> LOW_MEM \<le> page_of e \<and> MAP_NR (page_of e) = i"

definition pt_refs :: "(u32 \<Rightarrow> u32) \<Rightarrow> u32 \<Rightarrow> nat \<Rightarrow> nat" where
  "pt_refs m t i = (\<Sum>k<1024. of_bool (names_frame (m (t + 4 * of_nat k)) i))"

definition dir_refs :: "(u32 \<Rightarrow> u32) \<Rightarrow> nat \<Rightarrow> nat \<Rightarrow> nat" where
  "dir_refs m d i =
     (if present (m (pde d))
      then of_bool (names_frame (m (pde d)) i) + pt_refs m (page_of (m (pde d))) i else 0)"

definition refs :: "(u32 \<Rightarrow> u32) \<Rightarrow> nat \<Rightarrow> nat" where
  "refs m i = (\<Sum>d\<in>udirs. dir_refs m d i)"

lemma present_0 [simp]: "\<not> present 0"
  by (simp add: present_def)

lemma names_frame_0 [simp]: "\<not> names_frame 0 i"
  by (simp add: names_frame_def)

lemma names_frame_and_not_2 [simp]: "names_frame (e AND NOT 2) i = names_frame e i"
  by (simp only: names_frame_def page_of_and_not_2 present_and_not_2)

lemma names_frame_m3 [simp]: "names_frame (e AND - 3) i = names_frame e i"
  by (simp add: names_frame_def)

lemma names_frame_or_2 [simp]: "names_frame (e OR 2) i = names_frame e i"
  by (simp add: names_frame_def)

lemma names_frame_or_7:
  "page_of p = p \<Longrightarrow> names_frame (p OR 7) i \<longleftrightarrow> LOW_MEM \<le> p \<and> MAP_NR p = i"
  by (simp add: names_frame_def)

lemma sum_upd1:
  fixes f g :: "nat \<Rightarrow> nat"
  assumes "finite A" "x \<in> A" "\<And>y. y \<in> A \<Longrightarrow> y \<noteq> x \<Longrightarrow> g y = f y"
  shows "sum g A + f x = sum f A + g x"
proof -
  have "sum g A = g x + sum g (A - {x})" "sum f A = f x + sum f (A - {x})"
    using assms(1,2) by (auto simp: sum.remove)
  moreover have "sum g (A - {x}) = sum f (A - {x})" using assms(3) by (intro sum.cong) auto
  ultimately show ?thesis by simp
qed

lemma pt_refs_cong:
  "(\<And>k. k < 1024 \<Longrightarrow> m' (t + 4 * of_nat k) = m (t + 4 * of_nat k)) \<Longrightarrow> pt_refs m' t i = pt_refs m t i"
  unfolding pt_refs_def by (intro sum.cong) auto

lemma pt_refs_zero: "(\<And>k. k < 1024 \<Longrightarrow> m (t + 4 * of_nat k) = 0) \<Longrightarrow> pt_refs m t i = 0"
  unfolding pt_refs_def by (intro sum.neutral) auto

lemma pt_refs_upd:
  assumes "page_of t = t" "k < 1024"
  shows "pt_refs (m(t + 4 * of_nat k := v)) t i + of_bool (names_frame (m (t + 4 * of_nat k)) i)
       = pt_refs m t i + of_bool (names_frame v i)"
proof -
  let ?g = "\<lambda>j. of_bool (names_frame ((m(t + 4 * of_nat k := v)) (t + 4 * of_nat j)) i) :: nat"
  have "sum ?g {..<1024} + of_bool (names_frame (m (t + 4 * of_nat k)) i)
      = (\<Sum>j<1024. of_bool (names_frame (m (t + 4 * of_nat j)) i)) + ?g k"
    using assms pte_addr_inj [OF assms(1) assms(1)]
    by (intro sum_upd1) auto
  then show ?thesis by (simp add: pt_refs_def)
qed

lemma pt_refs_upd_other:
  assumes "page_of t = t" "page_of a \<noteq> t"
  shows "pt_refs (m(a := v)) t i = pt_refs m t i"
  using assms by (intro pt_refs_cong) auto

lemma pt_refs_ge:
  assumes "k < 1024" "names_frame (m (t + 4 * of_nat k)) i"
  shows "1 \<le> pt_refs m t i"
proof -
  have "of_bool (names_frame (m (t + 4 * of_nat k)) i) \<le> pt_refs m t i"
    unfolding pt_refs_def using assms(1) by (intro member_le_sum) auto
  then show ?thesis using assms(2) by simp
qed

lemma dir_refs_le: "d \<in> udirs \<Longrightarrow> dir_refs m d i \<le> refs m i"
  unfolding refs_def by (intro member_le_sum) auto

lemma dir_refs_le2: "d \<in> udirs \<Longrightarrow> d' \<in> udirs \<Longrightarrow> d \<noteq> d' \<Longrightarrow> dir_refs m d i + dir_refs m d' i \<le> refs m i"
proof -
  assume *: "d \<in> udirs" "d' \<in> udirs" "d \<noteq> d'"
  have "refs m i = dir_refs m d i + (\<Sum>d\<in>udirs - {d}. dir_refs m d i)"
    unfolding refs_def using * by (simp add: sum.remove)
  moreover have "dir_refs m d' i \<le> (\<Sum>d\<in>udirs - {d}. dir_refs m d i)"
    using * by (intro member_le_sum) auto
  ultimately show ?thesis by simp
qed

lemma refs_upd_dir:
  assumes "d \<in> udirs" "\<And>d'. d' \<in> udirs \<Longrightarrow> d' \<noteq> d \<Longrightarrow> dir_refs m' d' i = dir_refs m d' i"
  shows "refs m' i + dir_refs m d i = refs m i + dir_refs m' d i"
  unfolding refs_def using assms by (intro sum_upd1) auto

lemma sub_div_4096: "((n::nat) - 1048576) div 4096 = n div 4096 - 256"
proof (cases "n \<le> 1048576")
  case True
  then have "n div 4096 \<le> 1048576 div 4096" by (rule div_le_mono)
  then show ?thesis using True by simp
next
  case False
  then obtain r where "n = r + 256 * 4096" using that [of "n - 256 * 4096"] by simp
  then show ?thesis by simp
qed

lemma entry_bounds:
  assumes "present e"
  shows "LOW_MEM < e \<longleftrightarrow> LOW_MEM \<le> page_of e"
    and "LOW_MEM \<le> e \<Longrightarrow> MAP_NR e = MAP_NR (page_of e)"
proof -
  have "bit (unat e) 0" using assms unfolding present_bit by (simp only: bit_unsigned_iff) simp
  then have odd: "odd (unat e)" unfolding bit_0 .
  then have ne: "unat e \<noteq> 1048576" by auto
  have *: "1048576 \<le> unat e \<longleftrightarrow> 1048576 \<le> unat e div 4096 * 4096" by auto
  show "LOW_MEM < e \<longleftrightarrow> LOW_MEM \<le> page_of e"
    using ne * by (auto simp: word_less_nat_alt word_le_nat_alt unat_page_of)
  assume "LOW_MEM \<le> e"
  moreover from this have "LOW_MEM \<le> page_of e"
    using * by (simp add: word_le_nat_alt unat_page_of)
  ultimately show "MAP_NR e = MAP_NR (page_of e)"
    by (simp add: MAP_NR_ge unat_page_of sub_div_4096)
qed

end
