(* ===== verification/Memory_Accounting.thy ===== *)
theory Memory_Accounting
  imports Memory_Tables
begin

text \<open>
  The accounting invariant of \<^verbatim>\<open>mm/memory.c\<close> (\<open>mm_inv\<close>): the byte map counts the references
  that the page tables of the user tasks hold to each frame, and every page table has a frame to
  itself. The lemmas say how one write to a table or to the directory changes the counts, and
  that taking a page, freeing a page and \<open>free_page_tables\<close> keep the invariant.
\<close>

section \<open>The accounting invariant\<close>

text \<open>
  Every frame's use count is the number of references from the user tables plus the number
  \<open>ext\<close> of references held elsewhere (pages just taken, task structures, pipe buffers, the
  reserved frames); each user page table lies in a frame of its own; and every entry names
  memory that exists.
\<close>

definition user_table :: "'a mm_state_scheme \<Rightarrow> u32 \<Rightarrow> bool" where
  "user_table s t \<longleftrightarrow> (\<exists>d\<in>udirs. present (pmem s (pde d)) \<and> page_of (pmem s (pde d)) = t)"

definition mm_inv :: "(nat \<Rightarrow> nat) \<Rightarrow> 'a mm_state_scheme \<Rightarrow> bool" where
  "mm_inv ext s \<longleftrightarrow>
     high_memory s \<le> 0x1000000 \<and>
     (\<forall>i<PAGING_PAGES. unat (mem_map s i) = refs (pmem s) i + ext i) \<and>
     (\<forall>i<PAGING_PAGES. high_memory s \<le> frame_addr i \<longrightarrow> 0 < ext i) \<and>
     (\<forall>t. user_table s t \<longrightarrow>
        LOW_MEM \<le> t \<and> t < high_memory s \<and> refs (pmem s) (MAP_NR t) = 1 \<and> ext (MAP_NR t) = 0 \<and>
        (\<forall>k<1024. present (pmem s (t + pde k)) \<longrightarrow> page_of (pmem s (t + pde k)) < high_memory s))"

lemma MAP_NR_less:
  assumes "LOW_MEM \<le> p" "p < h" "h \<le> 0x1000000"
  shows "MAP_NR p < PAGING_PAGES"
proof -
  have "unat p < unat h" "unat h \<le> 16777216" "1048576 \<le> unat p"
    using assms by (simp_all add: word_less_nat_alt word_le_nat_alt)
  then have "unat p - 1048576 < 3840 * 4096" by simp
  then show ?thesis using assms(1)
    by (simp only: MAP_NR_ge PAGING_PAGES_def less_mult_imp_div_less)
qed

lemma user_tableI: "d \<in> udirs \<Longrightarrow> present (pmem s (pde d)) \<Longrightarrow> user_table s (page_of (pmem s (pde d)))"
  by (auto simp: user_table_def)

lemma user_tableE:
  assumes "user_table s t"
  obtains d where "d \<in> udirs" "present (pmem s (pde d))" "page_of (pmem s (pde d)) = t"
  using assms by (auto simp: user_table_def)

lemma user_table_page [simp]: "user_table s t \<Longrightarrow> page_of t = t"
  by (auto simp: user_table_def)

lemma mm_inv_table:
  assumes "mm_inv ext s" "user_table s t"
  shows "LOW_MEM \<le> t" "t < high_memory s" "MAP_NR t < PAGING_PAGES" "refs (pmem s) (MAP_NR t) = 1"
    "ext (MAP_NR t) = 0"
    "\<And>k. k < 1024 \<Longrightarrow> present (pmem s (t + pde k)) \<Longrightarrow> page_of (pmem s (t + pde k)) < high_memory s"
proof -
  show "LOW_MEM \<le> t" "t < high_memory s" "refs (pmem s) (MAP_NR t) = 1" "ext (MAP_NR t) = 0"
    "\<And>k. k < 1024 \<Longrightarrow> present (pmem s (t + pde k)) \<Longrightarrow> page_of (pmem s (t + pde k)) < high_memory s"
    using assms by (auto simp: mm_inv_def)
  then show "MAP_NR t < PAGING_PAGES"
    using assms(1) by (intro MAP_NR_less) (auto simp: mm_inv_def)
qed

lemma mm_inv_count: "mm_inv ext s \<Longrightarrow> i < PAGING_PAGES \<Longrightarrow> unat (mem_map s i) = refs (pmem s) i + ext i"
  by (simp add: mm_inv_def)

text \<open>Two directory entries never share a table, and no entry of a table names a table.\<close>

lemma mm_inv_dirs_disjoint:
  assumes inv: "mm_inv ext s" and d: "d \<in> udirs" "d' \<in> udirs" "d \<noteq> d'"
    and p: "present (pmem s (pde d))" "present (pmem s (pde d'))"
  shows "page_of (pmem s (pde d)) \<noteq> page_of (pmem s (pde d'))"
proof
  assume eq: "page_of (pmem s (pde d)) = page_of (pmem s (pde d'))"
  let ?i = "MAP_NR (page_of (pmem s (pde d)))"
  have ut: "user_table s (page_of (pmem s (pde d)))" using d p by (auto simp: user_table_def)
  have "names_frame (pmem s (pde d)) ?i" "names_frame (pmem s (pde d')) ?i"
    using p eq mm_inv_table(1) [OF inv ut] by (auto simp: names_frame_def)
  then have "2 \<le> dir_refs (pmem s) d ?i + dir_refs (pmem s) d' ?i"
    using p by (simp add: dir_refs_def)
  then show False
    using dir_refs_le2 [OF d, of "pmem s" ?i] mm_inv_table(4) [OF inv ut] by simp
qed

lemma mm_inv_pte_not_table:
  assumes inv: "mm_inv ext s" and t: "user_table s t" "k < 1024" and t': "user_table s t'"
  shows "\<not> names_frame (pmem s (t + pde k)) (MAP_NR t')"
proof
  assume n: "names_frame (pmem s (t + pde k)) (MAP_NR t')"
  from t(1) obtain d where d: "d \<in> udirs" "present (pmem s (pde d))" "page_of (pmem s (pde d)) = t"
    by (rule user_tableE)
  from t' obtain d' where d': "d' \<in> udirs" "present (pmem s (pde d'))" "page_of (pmem s (pde d')) = t'"
    by (rule user_tableE)
  have one: "1 \<le> pt_refs (pmem s) t (MAP_NR t')" using t(2) n by (rule pt_refs_ge)
  have nf: "names_frame (pmem s (pde d')) (MAP_NR t')"
    using d' mm_inv_table(1) [OF inv t'] by (auto simp: names_frame_def)
  have "2 \<le> refs (pmem s) (MAP_NR t')"
  proof (cases "d = d'")
    case True
    then have "2 \<le> dir_refs (pmem s) d (MAP_NR t')" using d one nf by (simp add: dir_refs_def)
    then show ?thesis using dir_refs_le [OF d(1), of "pmem s" "MAP_NR t'"] by simp
  next
    case False
    have "2 \<le> dir_refs (pmem s) d (MAP_NR t') + dir_refs (pmem s) d' (MAP_NR t')"
      using d d' one nf by (simp add: dir_refs_def)
    then show ?thesis using dir_refs_le2 [OF d(1) d'(1) False, of "pmem s" "MAP_NR t'"] by simp
  qed
  then show False using mm_inv_table(4) [OF inv t'] by simp
qed

text \<open>A write to an entry of a user table changes no directory entry and no other table.\<close>

lemma user_table_upd_pte:
  assumes inv: "mm_inv ext s" and t: "user_table s t" "k < 1024"
  shows "d < 1024 \<Longrightarrow> ((pmem s)(t + pde k := v)) (pde d) = pmem s (pde d)"
    and "user_table (s\<lparr>mem_map := mm', pmem := (pmem s)(t + pde k := v)\<rparr>) t' \<longleftrightarrow> user_table s t'"
proof -
  have ne: "pde d \<noteq> t + pde k" if "d < 1024" for d
  proof
    assume "pde d = t + pde k"
    then have "page_of (t + pde k) = page_of (pde d)" by simp
    then have "t = 0" using t that by simp
    then show False using mm_inv_table(1) [OF inv t(1)] by simp
  qed
  then show "d < 1024 \<Longrightarrow> ((pmem s)(t + pde k := v)) (pde d) = pmem s (pde d)" by auto
  from ne show "user_table (s\<lparr>mem_map := mm', pmem := (pmem s)(t + pde k := v)\<rparr>) t' \<longleftrightarrow> user_table s t'"
    unfolding user_table_def by (intro bex_cong) auto
qed

lemma refs_upd_pte:
  assumes inv: "mm_inv ext s" and t: "user_table s t" "k < 1024"
  shows "refs ((pmem s)(t + pde k := v)) i + of_bool (names_frame (pmem s (t + pde k)) i)
       = refs (pmem s) i + of_bool (names_frame v i)"
proof -
  let ?m = "pmem s" and ?m' = "(pmem s)(t + pde k := v)"
  from t(1) obtain d where d: "d \<in> udirs" "present (?m (pde d))" "page_of (?m (pde d)) = t"
    by (rule user_tableE)
  have dirs: "?m' (pde d') = ?m (pde d')" if "d' \<in> udirs" for d'
    using user_table_upd_pte(1) [OF inv t] that by auto
  have "refs ?m' i + dir_refs ?m d i = refs ?m i + dir_refs ?m' d i"
  proof (rule refs_upd_dir [OF d(1)])
    fix d' assume d': "d' \<in> udirs" "d' \<noteq> d"
    show "dir_refs ?m' d' i = dir_refs ?m d' i"
    proof (cases "present (?m (pde d'))")
      case True
      have "page_of (?m (pde d')) \<noteq> t"
        using mm_inv_dirs_disjoint [OF inv d'(1) d(1) d'(2) True d(2)] d(3) by simp
      then show ?thesis using t by (simp only: dir_refs_def dirs [OF d'(1)])
         (simp add: pt_refs_upd_other)
    qed (simp only: dir_refs_def dirs [OF d'(1)] if_False)
  qed
  moreover have "pt_refs ?m' t i + of_bool (names_frame (?m (t + pde k)) i)
      = pt_refs ?m t i + of_bool (names_frame v i)"
    using t by (intro pt_refs_upd) simp_all
  ultimately show ?thesis using d by (simp only: dir_refs_def dirs [OF d(1)]) simp
qed

lemma mm_inv_upd_pte:
  assumes inv: "mm_inv ext s" and t: "user_table s t" "k < 1024"
    and v: "present v \<Longrightarrow> page_of v < high_memory s"
    and nt: "\<And>t'. user_table s t' \<Longrightarrow> \<not> names_frame v (MAP_NR t') \<and> ext' (MAP_NR t') = 0"
    and hi: "\<And>i. i < PAGING_PAGES \<Longrightarrow> high_memory s \<le> frame_addr i \<Longrightarrow> 0 < ext' i"
    and cnt: "\<And>i. i < PAGING_PAGES \<Longrightarrow>
        unat (mm' i) + ext i + of_bool (names_frame (pmem s (t + pde k)) i)
      = unat (mem_map s i) + ext' i + of_bool (names_frame v i)"
  shows "mm_inv ext' (s\<lparr>mem_map := mm', pmem := (pmem s)(t + pde k := v)\<rparr>)"
proof -
  let ?m = "pmem s" and ?m' = "(pmem s)(t + pde k := v)"
  note dirs = user_table_upd_pte(1) [OF inv t, of _ v]
  have c: "unat (mm' i) = refs ?m' i + ext' i" if "i < PAGING_PAGES" for i
    using cnt [OF that] mm_inv_count [OF inv that] refs_upd_pte [OF inv t, of v i] by simp
  have tab: "LOW_MEM \<le> t' \<and> t' < high_memory s \<and> refs ?m' (MAP_NR t') = 1 \<and> ext' (MAP_NR t') = 0 \<and>
      (\<forall>j<1024. present (?m' (t' + pde j)) \<longrightarrow> page_of (?m' (t' + pde j)) < high_memory s)"
    if t': "user_table s t'" for t'
  proof -
    note old = mm_inv_table [OF inv t']
    have "refs ?m' (MAP_NR t') = 1"
      using refs_upd_pte [OF inv t, of v "MAP_NR t'"] old(4) nt [OF t']
        mm_inv_pte_not_table [OF inv t t'] by simp
    moreover have "present (?m' (t' + pde j)) \<longrightarrow> page_of (?m' (t' + pde j)) < high_memory s"
      if "j < 1024" for j using v old(6) [OF that] by auto
    ultimately show ?thesis using old nt [OF t'] by blast
  qed
  show ?thesis unfolding mm_inv_def user_table_upd_pte(2) [OF inv t]
    using c hi tab inv by (auto simp: mm_inv_def simp del: fun_upd_apply)
qed

lemma scan_free_Some:
  "scan_free mm n = Some i \<Longrightarrow> i < n \<and> mm i = 0 \<and> (\<forall>j. i < j \<and> j < n \<longrightarrow> mm j \<noteq> 0)"
  by (induction n) (auto split: if_splits simp: less_Suc_eq)

lemma scan_free_None: "scan_free mm n = None \<longleftrightarrow> (\<forall>j<n. mm j \<noteq> 0)"
  by (induction n) (auto simp: less_Suc_eq)

lemma get_free_page_cases:
  obtains (none) "get_free_page s = (0, s)" "\<forall>j<PAGING_PAGES. mem_map s j \<noteq> 0"
  | (page) i where "i < PAGING_PAGES" "mem_map s i = 0"
      "\<forall>j. i < j \<and> j < PAGING_PAGES \<longrightarrow> mem_map s j \<noteq> 0"
      "get_free_page s = (frame_addr i,
         s\<lparr>mem_map := (mem_map s)(i := 1), pmem := clear_page (frame_addr i) (pmem s)\<rparr>)"
proof (cases "scan_free (mem_map s) PAGING_PAGES")
  case None
  then show thesis using scan_free_None [of "mem_map s" PAGING_PAGES]
    by (intro none) (auto simp: get_free_page_def)
next
  case (Some i)
  from scan_free_Some [OF Some] Some show thesis
    by (intro page [of i]) (auto simp: get_free_page_def frame_addr_def Let_def)
qed

text \<open>The invariant only looks at the user directory entries and the user tables.\<close>

lemma refs_cong:
  assumes "\<And>d. d \<in> udirs \<Longrightarrow> m' (pde d) = pmem s (pde d)"
    and "\<And>t k. user_table s t \<Longrightarrow> k < 1024 \<Longrightarrow> m' (t + pde k) = pmem s (t + pde k)"
  shows "refs m' i = refs (pmem s) i"
  unfolding refs_def
proof (rule sum.cong [OF refl])
  fix d assume d: "d \<in> udirs"
  have "pt_refs m' (page_of (pmem s (pde d))) i = pt_refs (pmem s) (page_of (pmem s (pde d))) i"
    if "present (pmem s (pde d))"
    using assms(2) [OF user_tableI [OF d that]] by (intro pt_refs_cong)
  then show "dir_refs m' d i = dir_refs (pmem s) d i"
    by (simp add: dir_refs_def assms(1) [OF d])
qed

lemma user_table_cong:
  assumes "\<And>d. d \<in> udirs \<Longrightarrow> m' (pde d) = pmem s (pde d)"
  shows "user_table (s\<lparr>mem_map := mm', pmem := m'\<rparr>) t \<longleftrightarrow> user_table s t"
  unfolding user_table_def using assms by (intro bex_cong) auto

lemma mm_inv_cong:
  assumes inv: "mm_inv ext s"
    and d: "\<And>d. d \<in> udirs \<Longrightarrow> m' (pde d) = pmem s (pde d)"
    and t: "\<And>t k. user_table s t \<Longrightarrow> k < 1024 \<Longrightarrow> m' (t + pde k) = pmem s (t + pde k)"
    and nt: "\<And>t'. user_table s t' \<Longrightarrow> ext' (MAP_NR t') = 0"
    and hi: "\<And>i. i < PAGING_PAGES \<Longrightarrow> high_memory s \<le> frame_addr i \<Longrightarrow> 0 < ext' i"
    and cnt: "\<And>i. i < PAGING_PAGES \<Longrightarrow> unat (mm' i) + ext i = unat (mem_map s i) + ext' i"
  shows "mm_inv ext' (s\<lparr>mem_map := mm', pmem := m'\<rparr>)"
proof -
  have "unat (mm' i) = refs (pmem s) i + ext' i" if "i < PAGING_PAGES" for i
    using cnt [OF that] mm_inv_count [OF inv that] by simp
  moreover have "high_memory s \<le> 0x1000000" using inv by (simp add: mm_inv_def)
  moreover have ut: "user_table (s\<lparr>mem_map := mm', pmem := m'\<rparr>) t \<longleftrightarrow> user_table s t" for t
    by (rule user_table_cong) (rule d)
  moreover have "refs m' i = refs (pmem s) i" for i
    by (rule refs_cong) (auto intro: d t)
  ultimately show ?thesis
    using mm_inv_table [OF inv] t nt hi
    by (auto simp: mm_inv_def)
qed

lemma unat_eq_Suc0: "unat (w::8 word) = 1 \<Longrightarrow> w = 1" by (simp add: word_unat_eq_iff)

lemma mm_inv_free_frame:
  assumes inv: "mm_inv ext s" and i: "i < PAGING_PAGES" "mem_map s i = 0"
  shows "refs (pmem s) i = 0" "ext i = 0" "frame_addr i < high_memory s" "\<not> user_table s (frame_addr i)"
proof -
  show r: "refs (pmem s) i = 0" "ext i = 0" using mm_inv_count [OF inv i(1)] i(2) by simp_all
  then show "frame_addr i < high_memory s" using inv i(1) by (force simp: mm_inv_def)
  show "\<not> user_table s (frame_addr i)"
    using mm_inv_table(4) [OF inv, of "frame_addr i"] r(1) i(1) by auto
qed

lemma clear_page_other:
  "page_of p = p \<Longrightarrow> page_of a \<noteq> p \<Longrightarrow> clear_page p m a = m a"
  by (simp add: clear_page_alt)

lemma mm_inv_get_free_page:
  assumes inv: "mm_inv ext s" and i: "i < PAGING_PAGES" "mem_map s i = 0"
  shows "mm_inv (ext(i := 1)) (s\<lparr>mem_map := (mem_map s)(i := 1), pmem := clear_page (frame_addr i) (pmem s)\<rparr>)"
proof (rule mm_inv_cong [OF inv])
  note free = mm_inv_free_frame [OF inv i]
  show "clear_page (frame_addr i) (pmem s) (pde d) = pmem s (pde d)" if "d \<in> udirs" for d
    using that i by (intro clear_page_other) auto
  show "clear_page (frame_addr i) (pmem s) (t + pde k) = pmem s (t + pde k)"
    if "user_table s t" "k < 1024" for t k
    using that i free(4) by (intro clear_page_other) auto
  show "(ext(i := 1)) (MAP_NR t) = 0" if t: "user_table s t" for t
    using mm_inv_table(4,5) [OF inv t] free(1) by auto
  show "0 < (ext(i := 1)) j" if "j < PAGING_PAGES" "high_memory s \<le> frame_addr j" for j
    using inv that by (simp add: mm_inv_def)
  show "unat (((mem_map s)(i := 1)) j) + ext j = unat (mem_map s j) + (ext(i := 1)) j" if "j < PAGING_PAGES" for j
    using that i free(2) by simp
qed

section \<open>Writes to the directory\<close>

lemma page_0_not_table: "mm_inv ext s \<Longrightarrow> user_table s t \<Longrightarrow> d < 1024 \<Longrightarrow> k < 1024 \<Longrightarrow> t + pde k \<noteq> pde d"
proof
  assume inv: "mm_inv ext s" and t: "user_table s t" "d < 1024" "k < 1024" and eq: "t + pde k = pde d"
  from eq have "page_of (t + pde k) = page_of (pde d)" by simp
  then have "t = 0" using t by simp
  then show False using mm_inv_table(1) [OF inv t(1)] by simp
qed

lemma refs_upd_pde:
  assumes inv: "mm_inv ext s" and d: "d \<in> udirs"
  shows "refs ((pmem s)(pde d := v)) i + dir_refs (pmem s) d i
       = refs (pmem s) i + dir_refs ((pmem s)(pde d := v)) d i"
proof (rule refs_upd_dir [OF d])
  fix d' assume d': "d' \<in> udirs" "d' \<noteq> d"
  have e: "((pmem s)(pde d := v)) (pde d') = pmem s (pde d')"
    using d d' pde_inj [of d d'] by simp
  have "pt_refs ((pmem s)(pde d := v)) (page_of (pmem s (pde d'))) i = pt_refs (pmem s) (page_of (pmem s (pde d'))) i"
    if p: "present (pmem s (pde d'))"
  proof (rule pt_refs_cong)
    fix k :: nat assume "k < 1024"
    then have "page_of (pmem s (pde d')) + pde k \<noteq> pde d"
      using d page_0_not_table [OF inv user_tableI [OF d'(1) p]] by auto
    then show "((pmem s)(pde d := v)) (page_of (pmem s (pde d')) + pde k) = pmem s (page_of (pmem s (pde d')) + pde k)"
      by simp
  qed
  then show "dir_refs ((pmem s)(pde d := v)) d' i = dir_refs (pmem s) d' i"
    by (simp only: dir_refs_def e cong: if_cong)
qed

lemma mm_inv_attach:
  assumes inv: "mm_inv ext s" and d: "d \<in> udirs" "\<not> present (pmem s (pde d))"
    and i: "i < PAGING_PAGES" "frame_addr i < high_memory s" "refs (pmem s) i = 0" "ext i = 1"
    and z: "\<And>k. k < 1024 \<Longrightarrow> \<not> present (pmem s (frame_addr i + pde k))"
  shows "mm_inv (ext(i := 0)) (set_pmem (pde d) (frame_addr i OR 7) s)"
    and "user_table (set_pmem (pde d) (frame_addr i OR 7) s) t \<longleftrightarrow> user_table s t \<or> t = frame_addr i"
proof -
  let ?m' = "(pmem s)(pde d := frame_addr i OR 7)"
  have ut: "user_table (set_pmem (pde d) (frame_addr i OR 7) s) t \<longleftrightarrow> user_table s t \<or> t = frame_addr i" for t
  proof -
    have e: "?m' (pde d') = pmem s (pde d')" if "d' \<in> udirs" "d' \<noteq> d" for d'
      using d that pde_inj [of d d'] by simp
    show ?thesis
    proof
      assume "user_table (set_pmem (pde d) (frame_addr i OR 7) s) t"
      then obtain d' where "d' \<in> udirs" "present (?m' (pde d'))" "page_of (?m' (pde d')) = t"
        by (auto elim!: user_tableE)
      then show "user_table s t \<or> t = frame_addr i"
        using e [of d'] i(1) by (cases "d' = d") (auto simp: user_table_def)
    next
      assume "user_table s t \<or> t = frame_addr i"
      then show "user_table (set_pmem (pde d) (frame_addr i OR 7) s) t"
      proof
        assume "user_table s t"
        then obtain d' where d': "d' \<in> udirs" "present (pmem s (pde d'))" "page_of (pmem s (pde d')) = t"
          by (rule user_tableE)
        then have "?m' (pde d') = pmem s (pde d')" using d(2) e [of d'] by (cases "d' = d") auto
        then show ?thesis using d' user_tableI [of d' "set_pmem (pde d) (frame_addr i OR 7) s"] by simp
      next
        assume "t = frame_addr i"
        then show ?thesis using d i(1) by (auto simp: user_table_def)
      qed
    qed
  qed
  then show "user_table (set_pmem (pde d) (frame_addr i OR 7) s) t \<longleftrightarrow> user_table s t \<or> t = frame_addr i" .
  have ne: "frame_addr i + pde k \<noteq> pde d" if "k < 1024" for k
  proof
    assume "frame_addr i + pde k = pde d"
    then have "page_of (frame_addr i + pde k) = page_of (pde d)" by simp
    then show False using i(1) that d(1) by simp
  qed
  have "pt_refs ?m' (frame_addr i) j = 0" for j
    using ne z unfolding pt_refs_def by (intro sum.neutral) (auto simp: names_frame_def)
  then have r: "refs ?m' j = refs (pmem s) j + of_bool (j = i)" for j
    using refs_upd_pde [OF inv d(1), of "frame_addr i OR 7" j] d i(1)
    by (auto simp: dir_refs_def names_frame_or_7)
  have old: "LOW_MEM \<le> t \<and> t < high_memory s \<and> refs ?m' (MAP_NR t) = 1 \<and> (ext(i := 0)) (MAP_NR t) = 0 \<and>
      (\<forall>k<1024. present (?m' (t + pde k)) \<longrightarrow> page_of (?m' (t + pde k)) < high_memory s)" if t: "user_table s t" for t
  proof -
    note o = mm_inv_table [OF inv t]
    have "MAP_NR t \<noteq> i" using o(5) i(4) by auto
    then show ?thesis using o r page_0_not_table [OF inv t, of d] d(1) by auto
  qed
  have new: "LOW_MEM \<le> frame_addr i \<and> frame_addr i < high_memory s \<and> refs ?m' i = 1 \<and> (ext(i := 0)) i = 0 \<and>
      (\<forall>k<1024. \<not> present (?m' (frame_addr i + pde k)))" using i z ne r by auto
  have "unat (mem_map s j) = refs ?m' j + (ext(i := 0)) j" if "j < PAGING_PAGES" for j
    using mm_inv_count [OF inv that] i r by simp
  moreover have "0 < (ext(i := 0)) j" if "j < PAGING_PAGES" "high_memory s \<le> frame_addr j" for j
    using inv that i(2) by (auto simp: mm_inv_def)
  ultimately show "mm_inv (ext(i := 0)) (set_pmem (pde d) (frame_addr i OR 7) s)"
    using inv old new i(1) by (auto simp: mm_inv_def ut simp del: fun_upd_apply)
qed

section \<open>Freeing the tables\<close>

lemma free_page_ok:
  assumes "LOW_MEM \<le> p" "p < high_memory s" "mem_map s (MAP_NR p) \<noteq> 0"
  shows "free_page p s = Ret () (s\<lparr>mem_map := (mem_map s)(MAP_NR p := mem_map s (MAP_NR p) - 1)\<rparr>)"
  using assms by (simp add: free_page_def Let_def not_less not_le)

lemma unat_minus_1: "(w::'a::len word) \<noteq> 0 \<Longrightarrow> unat (w - 1) = unat w - 1"
  by (simp add: unat_minus_one)

lemma mm_inv_named:
  assumes inv: "mm_inv ext s" and t: "user_table s t" "k < 1024"
    and n: "present (pmem s (t + pde k))" "LOW_MEM \<le> page_of (pmem s (t + pde k))"
  shows "MAP_NR (page_of (pmem s (t + pde k))) < PAGING_PAGES"
    and "1 + ext (MAP_NR (page_of (pmem s (t + pde k)))) \<le> unat (mem_map s (MAP_NR (page_of (pmem s (t + pde k)))))"
    and "mem_map s (MAP_NR (page_of (pmem s (t + pde k)))) \<noteq> 0"
proof -
  let ?e = "pmem s (t + pde k)" and ?i = "MAP_NR (page_of (pmem s (t + pde k)))"
  show i: "?i < PAGING_PAGES"
    using inv n mm_inv_table(6) [OF inv t n(1)] by (intro MAP_NR_less) (auto simp: mm_inv_def)
  have "names_frame ?e ?i" using n by (simp add: names_frame_def)
  then have "1 \<le> refs (pmem s) ?i"
    using refs_upd_pte [OF inv t, of 0 ?i] by simp
  then show "1 + ext ?i \<le> unat (mem_map s ?i)" using mm_inv_count [OF inv i] by simp
  then show "mem_map s ?i \<noteq> 0" by auto
qed

lemma free_pte_step:
  assumes inv: "mm_inv ext s" and t: "user_table s t" "k < 1024"
  shows "\<exists>mm'. (if present (pmem s (t + pde k)) then free_page (page_of (pmem s (t + pde k))) s else Ret () s)
           = Ret () (s\<lparr>mem_map := mm'\<rparr>) \<and>
         mm_inv ext (s\<lparr>mem_map := mm', pmem := (pmem s)(t + pde k := 0)\<rparr>)"
proof -
  let ?e = "pmem s (t + pde k)" and ?i = "MAP_NR (page_of (pmem s (t + pde k)))"
  have *: "mm_inv ext (s\<lparr>mem_map := mm', pmem := (pmem s)(t + pde k := 0)\<rparr>)"
    if "\<And>i. i < PAGING_PAGES \<Longrightarrow> unat (mm' i) + of_bool (names_frame ?e i) = unat (mem_map s i)" for mm'
    using that inv mm_inv_table(5) [OF inv] by (intro mm_inv_upd_pte [OF inv t]) (auto simp: mm_inv_def)
  show ?thesis
  proof (cases "present ?e \<and> LOW_MEM \<le> page_of ?e")
    case True
    note named = mm_inv_named [OF inv t] and lt = mm_inv_table(6) [OF inv t]
    have "mm_inv ext (s\<lparr>mem_map := (mem_map s)(?i := mem_map s ?i - 1), pmem := (pmem s)(t + pde k := 0)\<rparr>)"
      using True named by (intro *) (auto simp: names_frame_def unat_minus_1)
    then show ?thesis using True named lt by (auto simp: free_page_ok)
  next
    case False
    then have "(if present ?e then free_page (page_of ?e) s else Ret () s) = Ret () (s\<lparr>mem_map := mem_map s\<rparr>)"
      by (auto simp: free_page_def not_le)
    moreover have "mm_inv ext (s\<lparr>mem_map := mem_map s, pmem := (pmem s)(t + pde k := 0)\<rparr>)"
      using False by (intro *) (auto simp: names_frame_def)
    ultimately show ?thesis by blast
  qed
qed

fun zero_longs :: "nat \<Rightarrow> u32 \<Rightarrow> (u32 \<Rightarrow> u32) \<Rightarrow> u32 \<Rightarrow> u32" where
  "zero_longs 0 p m = m"
| "zero_longs (Suc n) p m = zero_longs n (p + 4) (m(p := 0))"

lemma pde_Suc: "pde (Suc j) = pde j + 4"
  by (simp add: algebra_simps)

lemma zero_longs_other:
  "(\<And>k. j \<le> k \<Longrightarrow> k < j + n \<Longrightarrow> a \<noteq> t + pde k) \<Longrightarrow> zero_longs n (t + pde j) m a = m a"
proof (induction n arbitrary: j m)
  case (Suc n)
  have "zero_longs n (t + pde (Suc j)) (m(t + pde j := 0)) a = (m(t + pde j := 0)) a"
    using Suc.prems by (intro Suc.IH) auto
  then show ?case using Suc.prems [of j] by (simp add: algebra_simps)
qed simp

lemma zero_longs_in:
  assumes t: "page_of t = t"
  shows "j \<le> k \<Longrightarrow> k < j + n \<Longrightarrow> j + n \<le> 1024 \<Longrightarrow> zero_longs n (t + pde j) m (t + pde k) = 0"
proof (induction n arbitrary: j m)
  case (Suc n)
  have e: "zero_longs (Suc n) (t + pde j) m = zero_longs n (t + pde (Suc j)) (m(t + pde j := 0))"
    by (simp add: algebra_simps)
  show ?case
  proof (cases "k = j")
    case True
    have "zero_longs n (t + pde (Suc j)) (m(t + pde j := 0)) (t + pde j) = (m(t + pde j := 0)) (t + pde j)"
    proof (rule zero_longs_other)
      fix ka assume "Suc j \<le> ka" "ka < Suc j + n"
      then show "t + pde j \<noteq> t + pde ka" using Suc.prems pte_addr_inj [OF t t, of j ka] by simp
    qed
    then show ?thesis unfolding e using True by simp
  next
    case False
    then show ?thesis unfolding e using Suc.prems by (intro Suc.IH) auto
  qed
qed simp

lemma free_ptes_ok:
  assumes "mm_inv ext s" "user_table s t" "j + n \<le> 1024"
  shows "\<exists>mm'. free_ptes n (t + pde j) s = Ret () (s\<lparr>mem_map := mm', pmem := zero_longs n (t + pde j) (pmem s)\<rparr>) \<and>
          mm_inv ext (s\<lparr>mem_map := mm', pmem := zero_longs n (t + pde j) (pmem s)\<rparr>)"
  using assms
proof (induction n arbitrary: j s)
  case 0
  then show ?case by (intro exI [of _ "mem_map s"]) simp
next
  case (Suc n)
  obtain mm' where 1: "(if present (pmem s (t + pde j)) then free_page (page_of (pmem s (t + pde j))) s else Ret () s)
      = Ret () (s\<lparr>mem_map := mm'\<rparr>)"
    and 2: "mm_inv ext (s\<lparr>mem_map := mm', pmem := (pmem s)(t + pde j := 0)\<rparr>)"
    using free_pte_step [OF Suc.prems(1,2), of j] Suc.prems(3) by auto
  let ?s = "s\<lparr>mem_map := mm', pmem := (pmem s)(t + pde j := 0)\<rparr>"
  have ut: "user_table ?s t"
    using user_table_upd_pte(2) [OF Suc.prems(1,2), where v = 0 and k = j] Suc.prems by simp
  have Sj: "Suc j + n \<le> 1024" using Suc.prems by simp
  obtain mm'' where 3: "free_ptes n (t + pde (Suc j)) ?s
      = Ret () (?s\<lparr>mem_map := mm'', pmem := zero_longs n (t + pde (Suc j)) (pmem ?s)\<rparr>)"
    and 4: "mm_inv ext (?s\<lparr>mem_map := mm'', pmem := zero_longs n (t + pde (Suc j)) (pmem ?s)\<rparr>)"
    using Suc.IH [OF 2 ut Sj] by blast
  have z: "zero_longs n (t + pde (Suc j)) (pmem ?s) = zero_longs (Suc n) (t + pde j) (pmem s)"
    by (simp add: algebra_simps)
  have "free_ptes (Suc n) (t + pde j) s = free_ptes n (t + pde (Suc j)) ?s"
    by (simp only: free_ptes.simps 1 andThen.simps) (simp add: algebra_simps)
  then show ?case using 3 4 unfolding z by (intro exI [of _ mm'']) simp
qed

text \<open>Dropping a table that names nothing: its own frame is freed with its directory entry.\<close>

lemma mm_inv_detach:
  assumes inv: "mm_inv ext s" and d: "d \<in> udirs" "present (pmem s (pde d))"
    and t: "t = page_of (pmem s (pde d))" and z: "\<And>k. k < 1024 \<Longrightarrow> pmem s (t + pde k) = 0"
  shows "free_page t s = Ret () (s\<lparr>mem_map := (mem_map s)(MAP_NR t := 0)\<rparr>)"
    and "mm_inv ext (s\<lparr>mem_map := (mem_map s)(MAP_NR t := 0), pmem := (pmem s)(pde d := 0)\<rparr>)"
    and "user_table (s\<lparr>mem_map := (mem_map s)(MAP_NR t := 0), pmem := (pmem s)(pde d := 0)\<rparr>) t'
           \<longleftrightarrow> user_table s t' \<and> t' \<noteq> t"
proof -
  let ?s = "s\<lparr>mem_map := (mem_map s)(MAP_NR t := 0), pmem := (pmem s)(pde d := 0)\<rparr>"
  have ut: "user_table s t" using user_tableI [OF d] t by simp
  note o = mm_inv_table [OF inv ut]
  have one: "mem_map s (MAP_NR t) = 1"
    using mm_inv_count [OF inv o(3)] o(4,5) by (intro unat_eq_Suc0) simp
  then show "free_page t s = Ret () (s\<lparr>mem_map := (mem_map s)(MAP_NR t := 0)\<rparr>)"
    using o by (simp add: free_page_ok)
  have e: "((pmem s)(pde d := 0)) (pde d') = pmem s (pde d')" if "d' \<in> udirs" "d' \<noteq> d" for d'
    using d that pde_inj [of d d'] by simp
  have ut': "user_table ?s t' \<longleftrightarrow> user_table s t' \<and> t' \<noteq> t" for t'
  proof
    assume "user_table ?s t'"
    then obtain d' where d': "d' \<in> udirs" "present (pmem ?s (pde d'))" "page_of (pmem ?s (pde d')) = t'"
      by (rule user_tableE)
    then have ne: "d' \<noteq> d" by auto
    then have p: "present (pmem s (pde d'))" "page_of (pmem s (pde d')) = t'" using d' e [OF d'(1) ne] by auto
    then show "user_table s t' \<and> t' \<noteq> t"
      using user_tableI [OF d'(1) p(1)] mm_inv_dirs_disjoint [OF inv d'(1) d(1) ne p(1) d(2)] t by simp
  next
    assume *: "user_table s t' \<and> t' \<noteq> t"
    then obtain d' where d': "d' \<in> udirs" "present (pmem s (pde d'))" "page_of (pmem s (pde d')) = t'"
      by (auto elim: user_tableE)
    then have "d' \<noteq> d" using * t by auto
    then have "pmem ?s (pde d') = pmem s (pde d')" using e [OF d'(1)] by simp
    then show "user_table ?s t'" using d' user_tableI [of d' ?s] by simp
  qed
  then show "user_table ?s t' \<longleftrightarrow> user_table s t' \<and> t' \<noteq> t" .
  have zr: "pt_refs (pmem s) t i = 0" for i using z by (rule pt_refs_zero)
  have nf: "names_frame (pmem s (pde d)) i \<longleftrightarrow> i = MAP_NR t" for i
    using d t o(1) by (auto simp: names_frame_def)
  have r: "refs ((pmem s)(pde d := 0)) i + of_bool (i = MAP_NR t) = refs (pmem s) i" for i
    using refs_upd_pde [OF inv d(1), of 0 i] d(2) zr [of i]
    by (simp add: dir_refs_def nf flip: t)
  have cnt: "unat (((mem_map s)(MAP_NR t := 0)) i) = refs ((pmem s)(pde d := 0)) i + ext i" if "i < PAGING_PAGES" for i
    using mm_inv_count [OF inv that] r [of i] one o(5) by auto
  have tab: "LOW_MEM \<le> t' \<and> t' < high_memory s \<and> refs ((pmem s)(pde d := 0)) (MAP_NR t') = 1 \<and> ext (MAP_NR t') = 0 \<and>
      (\<forall>k<1024. present (((pmem s)(pde d := 0)) (t' + pde k)) \<longrightarrow> page_of (((pmem s)(pde d := 0)) (t' + pde k)) < high_memory s)"
    if t': "user_table s t'" "t' \<noteq> t" for t'
  proof -
    note o' = mm_inv_table [OF inv t'(1)]
    have "MAP_NR t' \<noteq> MAP_NR t"
      using frame_addr_MAP_NR [OF o(1) user_table_page [OF ut] o(3)]
        frame_addr_MAP_NR [OF o'(1) user_table_page [OF t'(1)] o'(3)] t'(2) by auto
    then show ?thesis using o' r [of "MAP_NR t'"] page_0_not_table [OF inv t'(1), of d] d(1) by auto
  qed
  show "mm_inv ext ?s"
    using inv cnt tab by (auto simp: mm_inv_def ut' simp del: fun_upd_apply)
qed

text \<open>\<open>free_dirs\<close> over the entries \<open>d\<close> to \<open>d + n - 1\<close>: the invariant holds afterwards, those
  entries are empty, and every other directory entry and table is as it was.\<close>

definition frees_dirs :: "nat \<Rightarrow> nat \<Rightarrow> 'a mm_state_scheme \<Rightarrow> 'a mm_state_scheme \<Rightarrow> bool" where
  "frees_dirs d n s s' \<longleftrightarrow>
     high_memory s' = high_memory s \<and>
     (\<forall>j. d \<le> j \<and> j < d + n \<longrightarrow> \<not> present (pmem s' (pde j))) \<and>
     (\<forall>j<1024. \<not> (d \<le> j \<and> j < d + n) \<longrightarrow> pmem s' (pde j) = pmem s (pde j)) \<and>
     (\<forall>j\<in>udirs. \<not> (d \<le> j \<and> j < d + n) \<longrightarrow> present (pmem s (pde j)) \<longrightarrow>
        (\<forall>k<1024. pmem s' (page_of (pmem s (pde j)) + pde k) = pmem s (page_of (pmem s (pde j)) + pde k)))"

lemma frees_dirsD:
  assumes "frees_dirs d n s s'"
  shows "high_memory s' = high_memory s"
    and "d \<le> j \<Longrightarrow> j < d + n \<Longrightarrow> \<not> present (pmem s' (pde j))"
    and "j < 1024 \<Longrightarrow> \<not> (d \<le> j \<and> j < d + n) \<Longrightarrow> pmem s' (pde j) = pmem s (pde j)"
    and "j \<in> udirs \<Longrightarrow> \<not> (d \<le> j \<and> j < d + n) \<Longrightarrow> present (pmem s (pde j)) \<Longrightarrow> k < 1024 \<Longrightarrow>
         pmem s' (page_of (pmem s (pde j)) + pde k) = pmem s (page_of (pmem s (pde j)) + pde k)"
  using assms unfolding frees_dirs_def by blast+

lemma free_dir_step:
  assumes inv: "mm_inv ext s" and d: "d \<in> udirs" "present (pmem s (pde d))"
  shows "\<exists>s1 s2. free_ptes 1024 (page_of (pmem s (pde d))) s = Ret () s1 \<and>
           free_page (page_of (pmem s1 (pde d))) s1 = Ret () s2 \<and>
           mm_inv ext (set_pmem (pde d) 0 s2) \<and> frees_dirs d 1 s (set_pmem (pde d) 0 s2)"
proof -
  let ?t = "page_of (pmem s (pde d))"
  have ut: "user_table s ?t" using d by (rule user_tableI)
  obtain mm' where 1: "free_ptes 1024 ?t s = Ret () (s\<lparr>mem_map := mm', pmem := zero_longs 1024 ?t (pmem s)\<rparr>)"
    and 2: "mm_inv ext (s\<lparr>mem_map := mm', pmem := zero_longs 1024 ?t (pmem s)\<rparr>)"
    using free_ptes_ok [OF inv ut, of 0 1024] by auto
  let ?s1 = "s\<lparr>mem_map := mm', pmem := zero_longs 1024 ?t (pmem s)\<rparr>"
  have z: "zero_longs 1024 ?t (pmem s) a = pmem s a" if "\<And>k. k < 1024 \<Longrightarrow> a \<noteq> ?t + pde k" for a
    using that zero_longs_other [of 0 1024 a ?t "pmem s"] by simp
  have zd: "zero_longs 1024 ?t (pmem s) (pde j) = pmem s (pde j)" if "j < 1024" for j
    using page_0_not_table [OF inv ut that] by (intro z) metis
  have z0: "zero_longs 1024 ?t (pmem s) (?t + pde k) = 0" if "k < 1024" for k
    using that zero_longs_in [of ?t 0 k 1024 "pmem s"] by simp
  have d': "present (pmem ?s1 (pde d))" "page_of (pmem ?s1 (pde d)) = ?t"
    using d zd [of d] by simp_all
  note det = mm_inv_detach [OF 2 d(1) d'(1) d'(2) [symmetric]]
  let ?s2 = "?s1\<lparr>mem_map := mm'(MAP_NR ?t := 0)\<rparr>"
  have 3: "free_page (page_of (pmem ?s1 (pde d))) ?s1 = Ret () ?s2"
    using det(1) z0 unfolding d'(2) by simp
  have 4: "mm_inv ext (set_pmem (pde d) 0 ?s2)"
    using det(2) z0 by simp
  have ot: "zero_longs 1024 ?t (pmem s) (page_of (pmem s (pde j)) + pde k) = pmem s (page_of (pmem s (pde j)) + pde k)"
    if j: "j \<in> udirs" "j \<noteq> d" "present (pmem s (pde j))" and k: "k < 1024" for j k
  proof (rule z)
    fix k' :: nat assume "k' < 1024"
    then show "page_of (pmem s (pde j)) + pde k \<noteq> ?t + pde k'"
      using mm_inv_dirs_disjoint [OF inv j(1) d(1) j(2,3) d(2)] k by (simp add: pte_addr_inj)
  qed
  have np: "page_of (pmem s (pde j)) + pde k \<noteq> pde d"
    if "j \<in> udirs" "present (pmem s (pde j))" "k < 1024" for j k
    using page_0_not_table [OF inv user_tableI [OF that(1,2)], of d k] d(1) that(3) by simp
  have "frees_dirs d 1 s (set_pmem (pde d) 0 ?s2)"
    using zd ot np d(1) pde_inj [of _ d] by (auto simp: frees_dirs_def)
  then show ?thesis using 1 3 4 by blast
qed

lemma frees_dirs_trans:
  assumes 1: "frees_dirs d 1 s s1" and 2: "frees_dirs (Suc d) n s1 s2" and d: "d \<in> udirs"
  shows "frees_dirs d (Suc n) s s2"
proof -
  have pd: "pmem s1 (pde d) = pmem s2 (pde d)" using 2 d by (auto simp: frees_dirs_def)
  show ?thesis
  proof (unfold frees_dirs_def, intro conjI allI impI ballI)
    show "high_memory s2 = high_memory s" using 1 2 by (simp add: frees_dirs_def)
    show "\<not> present (pmem s2 (pde j))" if "d \<le> j \<and> j < d + Suc n" for j
      using frees_dirsD(2) [OF 1, of j] frees_dirsD(2) [OF 2, of j] pd that by (cases "j = d") auto
    show "pmem s2 (pde j) = pmem s (pde j)" if "j < 1024" "\<not> (d \<le> j \<and> j < d + Suc n)" for j
      using 1 2 that by (auto simp: frees_dirs_def)
    show "pmem s2 (page_of (pmem s (pde j)) + pde k) = pmem s (page_of (pmem s (pde j)) + pde k)"
      if j: "j \<in> udirs" "\<not> (d \<le> j \<and> j < d + Suc n)" "present (pmem s (pde j))" and k: "k < 1024" for j k
    proof -
      have o: "\<not> (d \<le> j \<and> j < d + 1)" "\<not> (Suc d \<le> j \<and> j < Suc d + n)" using j(2) by auto
      have e: "pmem s1 (pde j) = pmem s (pde j)"
        using frees_dirsD(3) [OF 1 _ o(1)] j(1) by simp
      show ?thesis
        using frees_dirsD(4) [OF 2 j(1) o(2) _ k, unfolded e] frees_dirsD(4) [OF 1 j(1) o(1) _ k] j(3) by simp
    qed
  qed
qed

lemma free_dirs_ok:
  "mm_inv ext s \<Longrightarrow> 16 \<le> d \<Longrightarrow> d + n \<le> 1024 \<Longrightarrow>
   returns (free_dirs n (pde d) s) (\<lambda>_ s'. mm_inv ext s' \<and> frees_dirs d n s s')"
proof (induction n arbitrary: d s)
  case 0
  then show ?case by (auto simp: frees_dirs_def)
next
  case (Suc n)
  have d: "d \<in> udirs" and Sd: "16 \<le> Suc d" "Suc d + n \<le> 1024" using Suc.prems by auto
  have p4: "pde d + 4 = pde (Suc d)" by (rule pde_Suc [symmetric])
  show ?case
  proof (cases "present (pmem s (pde d))")
    case False
    then have f1: "frees_dirs d 1 s s" using le_less_Suc_eq by (auto simp: frees_dirs_def)
    have "free_dirs (Suc n) (pde d) s = free_dirs n (pde (Suc d)) s"
      by (simp only: free_dirs.simps p4 False not_False_eq_True if_True)
    then show ?thesis
      using Suc.IH [OF Suc.prems(1) Sd] frees_dirs_trans [OF f1 _ d] by (auto elim!: returns_mono)
  next
    case True
    obtain s1 s2 where 1: "free_ptes 1024 (page_of (pmem s (pde d))) s = Ret () s1"
      and 2: "free_page (page_of (pmem s1 (pde d))) s1 = Ret () s2"
      and 3: "mm_inv ext (set_pmem (pde d) 0 s2)" "frees_dirs d 1 s (set_pmem (pde d) 0 s2)"
      using free_dir_step [OF Suc.prems(1) d True] by blast
    have "free_dirs (Suc n) (pde d) s = free_dirs n (pde (Suc d)) (set_pmem (pde d) 0 s2)"
      by (simp only: free_dirs.simps p4 True 1 2 andThen.simps not_True_eq_False if_False)
    then show ?thesis
      using Suc.IH [OF 3(1) Sd] frees_dirs_trans [OF 3(2) _ d] by (auto elim!: returns_mono)
  qed
qed

lemma dir_entry_addr_pde: "dir_entry_addr a = pde (unat a div 4194304)"
proof -
  have "unat a div 4194304 < 1024" using unat_lt32 [of a] by (simp add: less_mult_imp_div_less)
  then have "unat (dir_entry_addr a) = unat (pde (unat a div 4194304))"
    by (simp only: unat_dir_entry_addr unat_pde mult.commute)
  then show ?thesis by (simp only: word_unat_eq_iff)
qed

lemma table_offset_pde: "table_offset a = pde (unat a div 4096 mod 1024)"
proof -
  have "unat (table_offset a) = unat (pde (unat a div 4096 mod 1024))"
    by (simp only: unat_table_offset unat_pde mod_less_divisor mult.commute)
  then show ?thesis by (simp only: word_unat_eq_iff)
qed

end
