(* ===== verification/Memory_Sharing.thy ===== *)
theory Memory_Sharing
  imports Memory_Accounting
begin

text \<open>
  Sharing of pages in \<^verbatim>\<open>mm/memory.c\<close>: \<open>copy_page_tables\<close> gives the child the parent's pages
  read-only, \<open>put_page\<close> and \<open>get_empty_page\<close> map new ones, and \<open>un_wp_page\<close> takes a private
  copy on the first write.
\<close>

section \<open>Sharing tables\<close>

lemma unat_plus_1: "unat (w::u8) + 1 < 256 \<Longrightarrow> unat (w + 1) = unat w + 1"
  by (simp add: unat_word_ariths)

definition copy_pte :: "u32 \<Rightarrow> u32 \<Rightarrow> 'a mm_state_scheme \<Rightarrow> 'a mm_state_scheme" where
  "copy_pte fp tp s =
     (let this_page = pmem s fp in
        if \<not> present this_page then s
        else let this_page = this_page AND NOT 2; s = set_pmem tp this_page s in
          if LOW_MEM < this_page then
            let s = set_pmem fp this_page s; i = MAP_NR this_page in
            s\<lparr>mem_map := (mem_map s)(i := mem_map s i + 1)\<rparr>
          else s)"

lemma copy_ptes_step: "copy_ptes (Suc n) fp tp s = copy_ptes n (fp + 4) (tp + 4) (copy_pte fp tp s)"
  by (simp only: copy_ptes.simps copy_pte_def)

lemma copy_pte_eq:
  "copy_pte fp tp s =
     (let e = pmem s fp; i = MAP_NR (page_of e) in
      if \<not> present e then s
      else if LOW_MEM \<le> page_of e
        then s\<lparr>mem_map := (mem_map s)(i := mem_map s i + 1), pmem := (pmem s)(tp := e AND NOT 2, fp := e AND NOT 2)\<rparr>
        else s\<lparr>pmem := (pmem s)(tp := e AND NOT 2)\<rparr>)"
  using entry_bounds [of "pmem s fp AND NOT 2"] by (auto simp: copy_pte_def Let_def)

text \<open>One entry copied: the frame it names is counted once more.\<close>

lemma mm_inv_copy_pte:
  assumes inv: "mm_inv ext s" and f: "user_table s f" and t: "user_table s t" "f \<noteq> t" and k: "k < 1024"
    and new: "\<not> present (pmem s (t + pde k))"
    and lt: "\<And>i. i < PAGING_PAGES \<Longrightarrow> unat (mem_map s i) + of_bool (names_frame (pmem s (f + pde k)) i) < 256"
  defines "s' \<equiv> copy_pte (f + pde k) (t + pde k) s"
  shows "mm_inv ext s'" and "user_table s' t' \<longleftrightarrow> user_table s t'"
    and "i < PAGING_PAGES \<Longrightarrow> unat (mem_map s' i) = unat (mem_map s i) + of_bool (names_frame (pmem s (f + pde k)) i)"
proof -
  let ?e = "pmem s (f + pde k)" and ?i = "MAP_NR (page_of (pmem s (f + pde k)))"
  have nt: "\<not> names_frame ?e (MAP_NR t') \<and> ext (MAP_NR t') = 0" if "user_table s t'" for t'
    using mm_inv_pte_not_table [OF inv f k that] mm_inv_table(5) [OF inv that] by simp
  have hi: "0 < ext i" if "i < PAGING_PAGES" "high_memory s \<le> frame_addr i" for i
    using inv that by (simp add: mm_inv_def)
  have nn: "\<not> names_frame (pmem s (t + pde k)) i" for i using new by (simp add: names_frame_def)
  have ne: "f + pde k \<noteq> t + pde k" using t(2) by simp
  consider (absent) "\<not> present ?e" | (low) "present ?e" "\<not> LOW_MEM \<le> page_of ?e"
    | (main) "present ?e" "LOW_MEM \<le> page_of ?e" by blast
  then have "mm_inv ext s' \<and> (\<forall>t'. user_table s' t' \<longleftrightarrow> user_table s t') \<and>
    (\<forall>i<PAGING_PAGES. unat (mem_map s' i) = unat (mem_map s i) + of_bool (names_frame ?e i))"
  proof cases
    case absent
    then show ?thesis using inv by (simp add: s'_def copy_pte_eq names_frame_def)
  next
    case low
    have s': "s' = s\<lparr>mem_map := mem_map s, pmem := (pmem s)(t + pde k := ?e AND NOT 2)\<rparr>"
      using low by (simp add: s'_def copy_pte_eq)
    have "mm_inv ext s'" unfolding s'
      using low mm_inv_table(6) [OF inv f k] nn hi mm_inv_table(5) [OF inv]
      by (intro mm_inv_upd_pte [OF inv t(1) k]) (auto simp: names_frame_def)
    moreover have "user_table s' t' = user_table s t'" for t'
      unfolding s' by (rule user_table_upd_pte(2) [OF inv t(1) k])
    ultimately show ?thesis using low by (auto simp: s' names_frame_def)
  next
    case main
    let ?s1 = "s\<lparr>mem_map := mem_map s, pmem := (pmem s)(f + pde k := ?e AND NOT 2)\<rparr>"
    have inv1: "mm_inv ext ?s1"
      using mm_inv_table(6) [OF inv f k] nt hi
      by (intro mm_inv_upd_pte [OF inv f k]) auto
    have ut1: "user_table ?s1 t' = user_table s t'" for t'
      by (rule user_table_upd_pte(2) [OF inv f k])
    let ?mm = "(mem_map s)(?i := mem_map s ?i + 1)"
    have i: "?i < PAGING_PAGES" using mm_inv_named(1) [OF inv f k main] .
    have "names_frame ?e ?i" using main by (simp add: names_frame_def)
    then have u: "unat (?mm j) = unat (mem_map s j) + of_bool (names_frame ?e j)" if "j < PAGING_PAGES" for j
      using lt [OF i] that main by (auto simp: unat_plus_1 names_frame_def)
    have s': "s' = ?s1\<lparr>mem_map := ?mm, pmem := (pmem ?s1)(t + pde k := ?e AND NOT 2)\<rparr>"
      using main ne by (simp add: s'_def copy_pte_eq Let_def fun_upd_twist)
    have "mm_inv ext s'" unfolding s'
      using mm_inv_table(6) [OF inv f k] nt hi ut1 ne nn u t
      by (intro mm_inv_upd_pte [OF inv1 _ k]) auto
    moreover have "user_table s' t' = user_table s t'" for t'
      unfolding s' using user_table_upd_pte(2) [OF inv1 _ k] t ut1 by blast
    ultimately show ?thesis using u by (auto simp: s')
  qed
  then show "mm_inv ext s'" and "user_table s' t' \<longleftrightarrow> user_table s t'"
    and "i < PAGING_PAGES \<Longrightarrow> unat (mem_map s' i) = unat (mem_map s i) + of_bool (names_frame ?e i)"
    by blast+
qed

definition copied :: "u32 \<Rightarrow> u32 \<Rightarrow> nat \<Rightarrow> nat \<Rightarrow> 'a mm_state_scheme \<Rightarrow> 'a mm_state_scheme \<Rightarrow> bool" where
  "copied f t j n s s' \<longleftrightarrow>
     high_memory s' = high_memory s \<and>
     (\<forall>k. j \<le> k \<and> k < j + n \<longrightarrow> pmem s' (t + pde k) =
        (if present (pmem s (f + pde k)) then pmem s (f + pde k) AND NOT 2 else pmem s (t + pde k))) \<and>
     (\<forall>k. j \<le> k \<and> k < j + n \<longrightarrow> pmem s' (f + pde k) =
        (if present (pmem s (f + pde k)) \<and> LOW_MEM \<le> page_of (pmem s (f + pde k))
         then pmem s (f + pde k) AND NOT 2 else pmem s (f + pde k))) \<and>
     (\<forall>a. (\<forall>k. j \<le> k \<and> k < j + n \<longrightarrow> a \<noteq> f + pde k \<and> a \<noteq> t + pde k) \<longrightarrow> pmem s' a = pmem s a)"

lemma copiedD:
  assumes "copied f t j n s s'"
  shows "high_memory s' = high_memory s"
    and "j \<le> k \<Longrightarrow> k < j + n \<Longrightarrow> pmem s' (t + pde k) =
        (if present (pmem s (f + pde k)) then pmem s (f + pde k) AND NOT 2 else pmem s (t + pde k))"
    and "j \<le> k \<Longrightarrow> k < j + n \<Longrightarrow> pmem s' (f + pde k) =
        (if present (pmem s (f + pde k)) \<and> LOW_MEM \<le> page_of (pmem s (f + pde k))
         then pmem s (f + pde k) AND NOT 2 else pmem s (f + pde k))"
    and "(\<And>k. j \<le> k \<Longrightarrow> k < j + n \<Longrightarrow> a \<noteq> f + pde k \<and> a \<noteq> t + pde k) \<Longrightarrow> pmem s' a = pmem s a"
  using assms unfolding copied_def by blast+

lemma copied_pte:
  assumes "page_of f = f" "page_of t = t" "f \<noteq> t" "j < 1024"
  shows "copied f t j 1 s (copy_pte (f + pde j) (t + pde j) s)"
proof -
  have 1: "j \<le> k \<and> k < j + 1 \<longleftrightarrow> k = j" for k by auto
  show ?thesis unfolding copied_def 1 using assms by (simp add: copy_pte_eq Let_def)
qed

lemma copied_trans:
  assumes 1: "copied f t j 1 s s1" and 2: "copied f t (Suc j) n s1 s2"
    and p: "page_of f = f" "page_of t = t" "f \<noteq> t" "j + Suc n \<le> 1024"
  shows "copied f t j (Suc n) s s2"
proof -
  have same2: "pmem s2 (x + pde j) = pmem s1 (x + pde j)" if x: "x = f \<or> x = t" for x
    using p x by (intro copiedD(4) [OF 2]) (auto simp: pte_addr_inj pde_inj)
  have same1: "pmem s1 (x + pde k) = pmem s (x + pde k)" if x: "x = f \<or> x = t" and k: "Suc j \<le> k" "k < Suc j + n" for x k
    using p x k by (intro copiedD(4) [OF 1]) (auto simp: pte_addr_inj pde_inj)
  show ?thesis
  proof (unfold copied_def, intro conjI allI impI)
    show "high_memory s2 = high_memory s" using copiedD(1) [OF 1] copiedD(1) [OF 2] by simp
    fix k assume k: "j \<le> k \<and> k < j + Suc n"
    show "pmem s2 (t + pde k) = (if present (pmem s (f + pde k)) then pmem s (f + pde k) AND NOT 2 else pmem s (t + pde k))"
      using copiedD(2) [OF 1, of k] copiedD(2) [OF 2, of k] same1 same2 k by (cases "k = j") auto
    show "pmem s2 (f + pde k) =
        (if present (pmem s (f + pde k)) \<and> LOW_MEM \<le> page_of (pmem s (f + pde k))
         then pmem s (f + pde k) AND NOT 2 else pmem s (f + pde k))"
      using copiedD(3) [OF 1, of k] copiedD(3) [OF 2, of k] same1 same2 k by (cases "k = j") auto
  next
    fix a assume "\<forall>k. j \<le> k \<and> k < j + Suc n \<longrightarrow> a \<noteq> f + pde k \<and> a \<noteq> t + pde k"
    then show "pmem s2 a = pmem s a" using copiedD(4) [OF 1, of a] copiedD(4) [OF 2, of a] by simp
  qed
qed

definition named_in :: "(u32 \<Rightarrow> u32) \<Rightarrow> u32 \<Rightarrow> nat \<Rightarrow> nat \<Rightarrow> nat \<Rightarrow> nat" where
  "named_in m f j n i = (\<Sum>k\<in>{j..<j + n}. of_bool (names_frame (m (f + pde k)) i))"

lemma named_in_Suc:
  "named_in m f j (Suc n) i = of_bool (names_frame (m (f + pde j)) i) + named_in m f (Suc j) n i"
proof -
  have "{j..<j + Suc n} = insert j {Suc j..<Suc j + n}" by auto
  then show ?thesis unfolding named_in_def by (simp only:) (subst sum.insert, simp_all)
qed

lemma named_in_all: "named_in m f 0 1024 i = pt_refs m f i"
  by (simp add: named_in_def pt_refs_def lessThan_atLeast0)

lemma copy_ptes_ok:
  assumes "mm_inv ext s" "user_table s f" "user_table s t" "f \<noteq> t" "j + n \<le> 1024"
    "\<And>k. j \<le> k \<Longrightarrow> k < j + n \<Longrightarrow> \<not> present (pmem s (t + pde k))"
    "\<And>i. i < PAGING_PAGES \<Longrightarrow> unat (mem_map s i) + named_in (pmem s) f j n i < 256"
  shows "mm_inv ext (copy_ptes n (f + pde j) (t + pde j) s) \<and>
    copied f t j n s (copy_ptes n (f + pde j) (t + pde j) s) \<and>
    (\<forall>i<PAGING_PAGES. unat (mem_map (copy_ptes n (f + pde j) (t + pde j) s) i)
       = unat (mem_map s i) + named_in (pmem s) f j n i)"
  using assms
proof (induction n arbitrary: j s)
  case 0
  then show ?case by (auto simp: copied_def named_in_def)
next
  case (Suc n)
  let ?s = "copy_pte (f + pde j) (t + pde j) s"
  have j: "j < 1024" using Suc.prems(5) by simp
  have pf: "page_of f = f" "page_of t = t" using Suc.prems(2,3) by simp_all
  have lt: "unat (mem_map s i) + of_bool (names_frame (pmem s (f + pde j)) i) < 256" if "i < PAGING_PAGES" for i
    using Suc.prems(7) [OF that] by (simp add: named_in_Suc)
  have new: "\<not> present (pmem s (t + pde j))" using Suc.prems(6) by simp
  have step: "mm_inv ext ?s" "user_table ?s t' \<longleftrightarrow> user_table s t'"
    "i < PAGING_PAGES \<Longrightarrow> unat (mem_map ?s i) = unat (mem_map s i) + of_bool (names_frame (pmem s (f + pde j)) i)" for t' i
    using mm_inv_copy_pte [OF Suc.prems(1-4) j new] lt by blast+
  have c1: "copied f t j 1 s ?s" using pf Suc.prems(4) j by (rule copied_pte)
  have ptes: "pmem ?s (x + pde k) = pmem s (x + pde k)" if "x = f \<or> x = t" "Suc j \<le> k" "k < Suc j + n" for x k
    using that pf Suc.prems(4,5) by (intro copiedD(4) [OF c1]) (auto simp: pte_addr_inj pde_inj)
  have ni: "named_in (pmem ?s) f (Suc j) n i = named_in (pmem s) f (Suc j) n i" for i
    unfolding named_in_def by (intro sum.cong) (auto simp: ptes)
  have eq: "copy_ptes (Suc n) (f + pde j) (t + pde j) s = copy_ptes n (f + pde (Suc j)) (t + pde (Suc j)) ?s"
    unfolding copy_ptes_step by (simp add: algebra_simps)
  have ih: "mm_inv ext (copy_ptes n (f + pde (Suc j)) (t + pde (Suc j)) ?s) \<and>
    copied f t (Suc j) n ?s (copy_ptes n (f + pde (Suc j)) (t + pde (Suc j)) ?s) \<and>
    (\<forall>i<PAGING_PAGES. unat (mem_map (copy_ptes n (f + pde (Suc j)) (t + pde (Suc j)) ?s) i)
       = unat (mem_map ?s i) + named_in (pmem ?s) f (Suc j) n i)"
  proof (rule Suc.IH)
    show "mm_inv ext ?s" by (rule step(1))
    show "user_table ?s f" "user_table ?s t" using step(2) Suc.prems(2,3,5) by simp_all
    show "f \<noteq> t" "Suc j + n \<le> 1024" using Suc.prems(4,5) by simp_all
    show "\<not> present (pmem ?s (t + pde k))" if "Suc j \<le> k" "k < Suc j + n" for k
      using ptes [of t k] Suc.prems(6) [of k] that by simp
    show "unat (mem_map ?s i) + named_in (pmem ?s) f (Suc j) n i < 256" if "i < PAGING_PAGES" for i
      using step(3) [OF that] Suc.prems(7) [OF that] ni by (simp add: named_in_Suc)
  qed
  then have "copied f t j (Suc n) s (copy_ptes (Suc n) (f + pde j) (t + pde j) s)"
    unfolding eq using copied_trans [OF c1 _ pf Suc.prems(4,5)] by blast
  moreover have "unat (mem_map (copy_ptes (Suc n) (f + pde j) (t + pde j) s) i)
       = unat (mem_map s i) + named_in (pmem s) f j (Suc n) i" if "i < PAGING_PAGES" for i
    using ih that step(3) [OF that] unfolding eq ni by (simp add: named_in_Suc)
  ultimately show ?case using ih unfolding eq by blast
qed

section \<open>Entries of the linear address space\<close>

text \<open>The page table entry that maps page \<open>k\<close> of the 4 MB region \<open>d\<close>, if there is one.\<close>

definition entry_at :: "(u32 \<Rightarrow> u32) \<Rightarrow> nat \<Rightarrow> nat \<Rightarrow> u32 option" where
  "entry_at m d k =
     (if present (m (pde d)) \<and> present (m (page_of (m (pde d)) + pde k))
      then Some (m (page_of (m (pde d)) + pde k)) else None)"

definition read_only :: "u32 \<Rightarrow> u32" where
  "read_only e = e AND NOT 2"

definition read_only_main :: "u32 \<Rightarrow> u32" where
  "read_only_main e = (if LOW_MEM \<le> page_of e then e AND NOT 2 else e)"

definition same_dir :: "(u32 \<Rightarrow> u32) \<Rightarrow> (u32 \<Rightarrow> u32) \<Rightarrow> nat \<Rightarrow> bool" where
  "same_dir m m' d \<longleftrightarrow> m' (pde d) = m (pde d) \<and>
     (present (m (pde d)) \<longrightarrow> (\<forall>k<1024. m' (page_of (m (pde d)) + pde k) = m (page_of (m (pde d)) + pde k)))"

lemma same_dir_refl [simp]: "same_dir m m d"
  by (simp add: same_dir_def)

lemma same_dir_trans: "same_dir m m' d \<Longrightarrow> same_dir m' m'' d \<Longrightarrow> same_dir m m'' d"
  by (simp add: same_dir_def)

lemma same_dir_entry: "same_dir m m' d \<Longrightarrow> k < 1024 \<Longrightarrow> entry_at m' d k = entry_at m d k"
  by (auto simp: same_dir_def entry_at_def)

lemma same_dir_pt_refs:
  "same_dir m m' d \<Longrightarrow> present (m (pde d)) \<Longrightarrow> pt_refs m' (page_of (m (pde d))) i = pt_refs m (page_of (m (pde d))) i"
  by (intro pt_refs_cong) (auto simp: same_dir_def)

definition dirs_copied :: "nat \<Rightarrow> nat \<Rightarrow> nat \<Rightarrow> 'a mm_state_scheme \<Rightarrow> 'a mm_state_scheme \<Rightarrow> bool" where
  "dirs_copied df dt n s s' \<longleftrightarrow>
     high_memory s' = high_memory s \<and>
     (\<forall>j<n. \<forall>k<1024. entry_at (pmem s') (dt + j) k = map_option read_only (entry_at (pmem s) (df + j) k)) \<and>
     (\<forall>j<n. \<forall>k<1024. entry_at (pmem s') (df + j) k = map_option read_only_main (entry_at (pmem s) (df + j) k)) \<and>
     (\<forall>d\<in>udirs. \<not> (df \<le> d \<and> d < df + n) \<longrightarrow> \<not> (dt \<le> d \<and> d < dt + n) \<longrightarrow> same_dir (pmem s) (pmem s') d)"

lemma dirs_copiedD:
  assumes "dirs_copied df dt n s s'"
  shows "high_memory s' = high_memory s"
    and "j < n \<Longrightarrow> k < 1024 \<Longrightarrow> entry_at (pmem s') (dt + j) k = map_option read_only (entry_at (pmem s) (df + j) k)"
    and "j < n \<Longrightarrow> k < 1024 \<Longrightarrow> entry_at (pmem s') (df + j) k = map_option read_only_main (entry_at (pmem s) (df + j) k)"
    and "d \<in> udirs \<Longrightarrow> \<not> (df \<le> d \<and> d < df + n) \<Longrightarrow> \<not> (dt \<le> d \<and> d < dt + n) \<Longrightarrow> same_dir (pmem s) (pmem s') d"
  using assms unfolding dirs_copied_def by blast+

lemma dirs_copied_trans:
  assumes 1: "dirs_copied df dt 1 s s1" and 2: "dirs_copied (Suc df) (Suc dt) n s1 s2"
    and r: "16 \<le> df" "df + Suc n \<le> 1024" "16 \<le> dt" "dt + Suc n \<le> 1024" "df + Suc n \<le> dt \<or> dt + Suc n \<le> df"
  shows "dirs_copied df dt (Suc n) s s2"
proof -
  have e2: "entry_at (pmem s2) d k = entry_at (pmem s1) d k" if "d = df \<or> d = dt" "k < 1024" for d k
    using that r by (intro same_dir_entry dirs_copiedD(4) [OF 2]) auto
  have e1: "entry_at (pmem s1) (d + j) k = entry_at (pmem s) (d + j) k" if "d = df \<or> d = dt" "0 < j" "j < Suc n" "k < 1024" for d j k
    using that r by (intro same_dir_entry dirs_copiedD(4) [OF 1]) auto
  show ?thesis
  proof (unfold dirs_copied_def, intro conjI allI impI ballI)
    show "high_memory s2 = high_memory s" using dirs_copiedD(1) [OF 1] dirs_copiedD(1) [OF 2] by simp
    fix j k :: nat assume j: "j < Suc n" and k: "k < 1024"
    show "entry_at (pmem s2) (dt + j) k = map_option read_only (entry_at (pmem s) (df + j) k)"
      using dirs_copiedD(2) [OF 1, of 0 k] dirs_copiedD(2) [OF 2, of "j - 1" k] e1 [of df j k] e2 [of dt k] j k
      by (cases j) auto
    show "entry_at (pmem s2) (df + j) k = map_option read_only_main (entry_at (pmem s) (df + j) k)"
      using dirs_copiedD(3) [OF 1, of 0 k] dirs_copiedD(3) [OF 2, of "j - 1" k] e1 [of df j k] e2 [of df k] j k
      by (cases j) auto
  next
    fix d assume "d \<in> udirs" "\<not> (df \<le> d \<and> d < df + Suc n)" "\<not> (dt \<le> d \<and> d < dt + Suc n)"
    then have "same_dir (pmem s) (pmem s1) d" "same_dir (pmem s1) (pmem s2) d"
      by (auto intro!: dirs_copiedD(4) [OF 1] dirs_copiedD(4) [OF 2])
    then show "same_dir (pmem s) (pmem s2) d" by (rule same_dir_trans)
  qed
qed

definition named_in_dirs :: "(u32 \<Rightarrow> u32) \<Rightarrow> nat \<Rightarrow> nat \<Rightarrow> nat \<Rightarrow> nat" where
  "named_in_dirs m d n i =
     (\<Sum>j\<in>{d..<d + n}. if present (m (pde j)) then pt_refs m (page_of (m (pde j))) i else 0)"

lemma named_in_dirs_Suc:
  "named_in_dirs m d (Suc n) i =
     (if present (m (pde d)) then pt_refs m (page_of (m (pde d))) i else 0) + named_in_dirs m (Suc d) n i"
proof -
  have "{d..<d + Suc n} = insert d {Suc d..<Suc d + n}" by auto
  then show ?thesis unfolding named_in_dirs_def by (simp only:) (subst sum.insert, simp_all)
qed

text \<open>A free frame taken as a new, empty page table.\<close>

definition with_new_table :: "nat \<Rightarrow> nat \<Rightarrow> 'a mm_state_scheme \<Rightarrow> 'a mm_state_scheme" where
  "with_new_table dt i s = set_pmem (pde dt) (frame_addr i OR 7)
       (s\<lparr>mem_map := (mem_map s)(i := 1), pmem := clear_page (frame_addr i) (pmem s)\<rparr>)"

lemma with_new_table_simps [simp]:
  "high_memory (with_new_table dt i s) = high_memory s"
  "mem_map (with_new_table dt i s) = (mem_map s)(i := 1)"
  by (simp_all add: with_new_table_def)

lemma with_new_table:
  assumes inv: "mm_inv ext s" and dt: "dt \<in> udirs" "\<not> present (pmem s (pde dt))"
    and i: "i < PAGING_PAGES" "mem_map s i = 0"
  defines "s2 \<equiv> with_new_table dt i s"
  shows "mm_inv ext s2" and "user_table s2 t \<longleftrightarrow> user_table s t \<or> t = frame_addr i"
    and "d < 1024 \<Longrightarrow> pmem s2 (pde d) = (if d = dt then frame_addr i OR 7 else pmem s (pde d))"
    and "k < 1024 \<Longrightarrow> pmem s2 (frame_addr i + pde k) = 0"
    and "page_of a \<noteq> frame_addr i \<Longrightarrow> page_of a \<noteq> 0 \<Longrightarrow> pmem s2 a = pmem s a"
proof -
  let ?t = "frame_addr i"
  let ?s1 = "s\<lparr>mem_map := (mem_map s)(i := 1), pmem := clear_page ?t (pmem s)\<rparr>"
  note free = mm_inv_free_frame [OF inv i]
  have inv1: "mm_inv (ext(i := 1)) ?s1" using inv i by (rule mm_inv_get_free_page)
  have m1: "clear_page ?t (pmem s) a = pmem s a" if "page_of a \<noteq> ?t" for a
    using that i(1) by (simp add: clear_page_other)
  have m1d: "clear_page ?t (pmem s) (pde d) = pmem s (pde d)" if "d < 1024" for d
    using that i(1) by (simp add: m1)
  have m1t: "clear_page ?t (pmem s) (t + pde k) = pmem s (t + pde k)" if "user_table s t" "k < 1024" for t k
    using that free(4) by (intro m1) auto
  have zero: "clear_page ?t (pmem s) (?t + pde k) = 0" if "k < 1024" for k
    using that i(1) by (simp add: clear_page_alt)
  have ut1: "user_table ?s1 t \<longleftrightarrow> user_table s t" for t
    by (rule user_table_cong) (simp add: m1d)
  have r1: "refs (pmem ?s1) i = 0"
    using refs_cong [of "pmem ?s1" s i] m1d m1t free(1) by simp
  have att: "mm_inv ((ext(i := 1))(i := 0)) s2" "user_table s2 t \<longleftrightarrow> user_table ?s1 t \<or> t = ?t" for t
    using mm_inv_attach [OF inv1 dt(1) _ i(1) _ r1] dt m1d free(3) zero by (auto simp: s2_def with_new_table_def)
  have "(ext(i := 1))(i := 0) = ext" using free(2) by auto
  then show "mm_inv ext s2" using att(1) by simp
  show "user_table s2 t \<longleftrightarrow> user_table s t \<or> t = frame_addr i" using att(2) ut1 by blast
  have ne: "a \<noteq> pde dt" if "page_of a \<noteq> 0" for a using that dt(1) by auto
  show "d < 1024 \<Longrightarrow> pmem s2 (pde d) = (if d = dt then ?t OR 7 else pmem s (pde d))"
    using dt(1) m1d pde_inj [of d dt] by (auto simp: s2_def with_new_table_def)
  show "k < 1024 \<Longrightarrow> pmem s2 (frame_addr i + pde k) = 0"
    using zero ne [of "?t + pde k"] i(1) by (simp add: s2_def with_new_table_def)
  show "page_of a \<noteq> frame_addr i \<Longrightarrow> page_of a \<noteq> 0 \<Longrightarrow> pmem s2 a = pmem s a"
    using m1 ne by (simp add: s2_def with_new_table_def)
qed

lemma user_table_neq_0: "mm_inv ext s \<Longrightarrow> user_table s t \<Longrightarrow> t \<noteq> 0"
  using mm_inv_table(1) by fastforce

text \<open>One directory entry copied, with a new table.\<close>

lemma copy_dir_step:
  assumes inv: "mm_inv ext s" and df: "df \<in> udirs" "present (pmem s (pde df))"
    and dt: "dt \<in> udirs" "\<not> present (pmem s (pde dt))"
    and i: "i < PAGING_PAGES" "mem_map s i = 0"
    and lt: "\<And>j. j < PAGING_PAGES \<Longrightarrow> unat (mem_map s j) + pt_refs (pmem s) (page_of (pmem s (pde df))) j < 256"
  defines "s3 \<equiv> copy_ptes 1024 (page_of (pmem s (pde df))) (frame_addr i) (with_new_table dt i s)"
  shows "mm_inv ext s3" and "dirs_copied df dt 1 s s3"
    and "j < PAGING_PAGES \<Longrightarrow>
      unat (mem_map s3 j) \<le> unat (mem_map s j) + pt_refs (pmem s) (page_of (pmem s (pde df))) j + of_bool (j = i)"
    and "frame_addr i \<noteq> 0"
proof -
  let ?f = "page_of (pmem s (pde df))" and ?t = "frame_addr i" and ?s2 = "with_new_table dt i s"
  note free = mm_inv_free_frame [OF inv i]
  note att = with_new_table [OF inv dt i]
  have ne: "df \<noteq> dt" using df dt by auto
  have utf: "user_table s ?f" using df by (rule user_tableI)
  have ft: "?f \<noteq> ?t" using free(4) utf by auto
  have m2d: "pmem ?s2 (pde d) = (if d = dt then ?t OR 7 else pmem s (pde d))" if "d < 1024" for d
    using that by (rule att(3))
  have m2t: "pmem ?s2 (t + pde k) = pmem s (t + pde k)" if "user_table s t" "k < 1024" for t k
    using that free(4) user_table_neq_0 [OF inv that(1)] by (intro att(5)) auto
  have m2n: "pmem ?s2 (?t + pde k) = 0" if "k < 1024" for k
    using that by (rule att(4))
  have nin: "named_in (pmem ?s2) ?f 0 1024 j = pt_refs (pmem s) ?f j" for j
    unfolding named_in_all by (rule pt_refs_cong) (rule m2t [OF utf])
  have ri: "pt_refs (pmem s) ?f i = 0"
    using dir_refs_le [OF df(1), of "pmem s" i] df(2) free(1) by (simp add: dir_refs_def)
  have lt2: "unat (mem_map ?s2 j) + named_in (pmem ?s2) ?f 0 1024 j < 256" if "j < PAGING_PAGES" for j
    unfolding nin using lt [OF that] ri by auto
  have utf2: "user_table ?s2 ?f" "user_table ?s2 ?t" using att(2) utf by blast+
  have np: "\<not> present (pmem ?s2 (?t + pde k))" if "k < 0 + 1024" for k
    using m2n [of k] that by simp
  have cp: "mm_inv ext s3" "copied ?f ?t 0 1024 ?s2 s3"
    "\<forall>j<PAGING_PAGES. unat (mem_map s3 j) = unat (mem_map ?s2 j) + named_in (pmem ?s2) ?f 0 1024 j"
    using copy_ptes_ok [OF att(1) utf2 ft, of 0 1024] np lt2 by (auto simp: s3_def)
  show "mm_inv ext s3" by (rule cp)
  show "j < PAGING_PAGES \<Longrightarrow>
      unat (mem_map s3 j) \<le> unat (mem_map s j) + pt_refs (pmem s) ?f j + of_bool (j = i)" for j
    using cp(3) [unfolded nin, rule_format, of j] by auto
  show "frame_addr i \<noteq> 0" using i(1) by simp
  have m3d: "pmem s3 (pde d) = (if d = dt then ?t OR 7 else pmem s (pde d))" if "d < 1024" for d
  proof -
    have "pmem s3 (pde d) = pmem ?s2 (pde d)"
      using page_0_not_table [OF att(1) utf2(1) that] page_0_not_table [OF att(1) utf2(2) that]
      by (intro copiedD(4) [OF cp(2)]) fastforce
    then show ?thesis using m2d [OF that] by simp
  qed
  have m3t: "pmem s3 (t + pde k) = pmem s (t + pde k)" if "user_table s t" "t \<noteq> ?f" "k < 1024" for t k
  proof -
    have "t \<noteq> ?t" using that(1) free(4) by auto
    then have "pmem s3 (t + pde k) = pmem ?s2 (t + pde k)"
      using that utf i(1) by (intro copiedD(4) [OF cp(2)]) (simp add: pte_addr_inj)
    then show ?thesis using m2t that by simp
  qed
  have tt: "page_of (?t OR 7) = ?t" using i(1) by simp
  show "dirs_copied df dt 1 s s3"
  proof (unfold dirs_copied_def, intro conjI allI impI ballI)
    show "high_memory s3 = high_memory s" using copiedD(1) [OF cp(2)] by simp
    fix j k :: nat assume j: "j < 1" and k: "k < 1024"
    have c2: "pmem s3 (?t + pde k) = (if present (pmem s (?f + pde k)) then pmem s (?f + pde k) AND NOT 2 else 0)"
      using copiedD(2) [OF cp(2), of k] m2t [OF utf k] m2n [OF k] k by simp
    have c3: "pmem s3 (?f + pde k) = (if present (pmem s (?f + pde k)) \<and> LOW_MEM \<le> page_of (pmem s (?f + pde k))
         then pmem s (?f + pde k) AND NOT 2 else pmem s (?f + pde k))"
      using copiedD(3) [OF cp(2), of k] m2t [OF utf k] k by simp
    show "entry_at (pmem s3) (dt + j) k = map_option read_only (entry_at (pmem s) (df + j) k)"
      using j dt(1) df m3d [of dt] c2 tt by (auto simp: entry_at_def read_only_def)
    show "entry_at (pmem s3) (df + j) k = map_option read_only_main (entry_at (pmem s) (df + j) k)"
      using j df ne m3d [of df] c3 by (auto simp: entry_at_def read_only_main_def)
  next
    fix d assume d: "d \<in> udirs" "\<not> (df \<le> d \<and> d < df + 1)" "\<not> (dt \<le> d \<and> d < dt + 1)"
    then have e: "pmem s3 (pde d) = pmem s (pde d)" using m3d [of d] by auto
    have "pmem s3 (page_of (pmem s (pde d)) + pde k) = pmem s (page_of (pmem s (pde d)) + pde k)"
      if p: "present (pmem s (pde d))" "k < 1024" for k
      using d p mm_inv_dirs_disjoint [OF inv d(1) df(1) _ p(1) df(2)]
      by (intro m3t user_tableI) auto
    then show "same_dir (pmem s) (pmem s3) d" using e by (simp add: same_dir_def)
  qed
qed

text \<open>The frames that are free, and the page tables that the directory has from entry \<open>d\<close> on.\<close>

definition free_frames :: "'a mm_state_scheme \<Rightarrow> nat" where
  "free_frames s = card {j. j < PAGING_PAGES \<and> mem_map s j = 0}"

definition tables_in :: "(u32 \<Rightarrow> u32) \<Rightarrow> nat \<Rightarrow> nat \<Rightarrow> nat" where
  "tables_in m d n = card {j \<in> {d..<d + n}. present (m (pde j))}"

lemma free_frames_zero: "\<forall>j<PAGING_PAGES. mem_map s j \<noteq> 0 \<Longrightarrow> free_frames s = 0"
  by (simp add: free_frames_def)

lemma free_frames_le:
  assumes "\<And>j. j < PAGING_PAGES \<Longrightarrow> mem_map s j = 0 \<Longrightarrow> j \<noteq> i \<Longrightarrow> mem_map t j = 0"
  shows "free_frames s \<le> free_frames t + 1"
proof -
  have "free_frames s \<le> card (insert i {j. j < PAGING_PAGES \<and> mem_map t j = 0})"
    unfolding free_frames_def using assms by (intro card_mono) auto
  also have "\<dots> \<le> free_frames t + 1" unfolding free_frames_def by (simp add: card_insert_if)
  finally show ?thesis .
qed

lemma tables_in_Suc: "tables_in m d (Suc n) = tables_in m (Suc d) n + of_bool (present (m (pde d)))"
proof -
  let ?A = "{j \<in> {Suc d..<Suc d + n}. present (m (pde j))}"
  have "{j \<in> {d..<d + Suc n}. present (m (pde j))} = (if present (m (pde d)) then insert d ?A else ?A)"
    by (auto simp: le_less Suc_le_eq)
  moreover have "finite ?A" "d \<notin> ?A" by auto
  ultimately show ?thesis unfolding tables_in_def by simp
qed

lemma tables_in_cong: "(\<And>j. d \<le> j \<Longrightarrow> j < d + n \<Longrightarrow> m' (pde j) = m (pde j)) \<Longrightarrow> tables_in m' d n = tables_in m d n"
  unfolding tables_in_def by (rule arg_cong [where f = card]) auto

text \<open>A copy that fails had fewer free frames than page tables to make.\<close>

definition copy_post :: "nat \<Rightarrow> nat \<Rightarrow> nat \<Rightarrow> 'a mm_state_scheme \<Rightarrow> int \<Rightarrow> 'a mm_state_scheme \<Rightarrow> bool" where
  "copy_post df dt n s r s' \<longleftrightarrow>
     (r = 0 \<and> dirs_copied df dt n s s') \<or> (r = -1 \<and> (\<forall>j<PAGING_PAGES. mem_map s' j \<noteq> 0) \<and> free_frames s < tables_in (pmem s) df n)"

lemma copy_dirs_Suc_absent:
  "\<not> present (pmem s (pde dt)) \<Longrightarrow> \<not> present (pmem s (pde df)) \<Longrightarrow>
   copy_dirs nr (Suc n) (pde df) (pde dt) s = copy_dirs nr n (pde (Suc df)) (pde (Suc dt)) s"
  by (simp only: copy_dirs.simps pde_Suc if_False if_True not_False_eq_True)

lemma copy_dirs_ok:
  "mm_inv ext s \<Longrightarrow> 16 \<le> df \<Longrightarrow> df + n \<le> 1024 \<Longrightarrow> 16 \<le> dt \<Longrightarrow> dt + n \<le> 1024 \<Longrightarrow>
   df + n \<le> dt \<or> dt + n \<le> df \<Longrightarrow>
   (\<And>j. j < n \<Longrightarrow> \<not> present (pmem s (pde (dt + j)))) \<Longrightarrow>
   (\<And>i. i < PAGING_PAGES \<Longrightarrow> unat (mem_map s i) + named_in_dirs (pmem s) df n i < 256) \<Longrightarrow>
   returns (copy_dirs 1024 n (pde df) (pde dt) s) (\<lambda>r s'. mm_inv ext s' \<and> copy_post df dt n s r s')"
proof (induction n arbitrary: df dt s)
  case 0
  then show ?case by (simp add: copy_post_def dirs_copied_def)
next
  case (Suc n)
  have df: "df \<in> udirs" and dt: "dt \<in> udirs" "\<not> present (pmem s (pde dt))"
    using Suc.prems(2-5) Suc.prems(7) [of 0] by auto
  have r: "16 \<le> Suc df" "Suc df + n \<le> 1024" "16 \<le> Suc dt" "Suc dt + n \<le> 1024"
    "Suc df + n \<le> Suc dt \<or> Suc dt + n \<le> Suc df" using Suc.prems(2-6) by auto
  have post: "copy_post df dt (Suc n) s v s'"
    if "dirs_copied df dt 1 s s1" "free_frames s \<le> free_frames s1 + of_bool (present (pmem s (pde df)))"
      "tables_in (pmem s1) (Suc df) n = tables_in (pmem s) (Suc df) n" "copy_post (Suc df) (Suc dt) n s1 v s'" for s1 v s'
    using that dirs_copied_trans [OF that(1) _ Suc.prems(2-6)] by (auto simp: copy_post_def tables_in_Suc)
  have next_tables: "tables_in (pmem s1) (Suc df) n = tables_in (pmem s) (Suc df) n" if c: "dirs_copied df dt 1 s s1" for s1
  proof (rule tables_in_cong)
    fix j assume "Suc df \<le> j" "j < Suc df + n"
    then have "same_dir (pmem s) (pmem s1) j" using Suc.prems(2-6) by (intro dirs_copiedD(4) [OF c]) auto
    then show "pmem s1 (pde j) = pmem s (pde j)" by (simp add: same_dir_def)
  qed
  have next_empty: "\<not> present (pmem s1 (pde (Suc dt + j)))"
    if "dirs_copied df dt 1 s s1" "j < n" for s1 j
    using dirs_copiedD(4) [OF that(1), of "Suc dt + j"] Suc.prems(2-6) Suc.prems(7) [of "Suc j"] that(2)
    by (auto simp: same_dir_def)
  have next_named: "named_in_dirs (pmem s1) (Suc df) n i = named_in_dirs (pmem s) (Suc df) n i"
    if c: "dirs_copied df dt 1 s s1" for s1 i
    unfolding named_in_dirs_def
  proof (rule sum.cong [OF refl])
    fix j assume j: "j \<in> {Suc df..<Suc df + n}"
    then have sd: "same_dir (pmem s) (pmem s1) j"
      using Suc.prems(2-6) by (intro dirs_copiedD(4) [OF c]) auto
    then have "pmem s1 (pde j) = pmem s (pde j)" by (simp add: same_dir_def)
    then show "(if present (pmem s1 (pde j)) then pt_refs (pmem s1) (page_of (pmem s1 (pde j))) i else 0)
        = (if present (pmem s (pde j)) then pt_refs (pmem s) (page_of (pmem s (pde j))) i else 0)"
      using same_dir_pt_refs [OF sd] by simp
  qed
  show ?case
  proof (cases "present (pmem s (pde df))")
    case False
    have c: "dirs_copied df dt 1 s s"
      using False dt by (simp add: dirs_copied_def entry_at_def)
    have "returns (copy_dirs 1024 n (pde (Suc df)) (pde (Suc dt)) s) (\<lambda>v s'. mm_inv ext s' \<and> copy_post (Suc df) (Suc dt) n s v s')"
      using Suc.prems(8) False by (intro Suc.IH Suc.prems(1) r next_empty [OF c]) (auto simp: named_in_dirs_Suc)
    then show ?thesis using post [OF c _ refl] copy_dirs_Suc_absent [OF dt(2) False] by (auto elim!: returns_mono)
  next
    case True
    let ?f = "page_of (pmem s (pde df))"
    show ?thesis
    proof (cases rule: get_free_page_cases [of s])
      case none
      then show ?thesis using True dt Suc.prems(1)
        by (simp only: copy_dirs.simps) (simp add: copy_post_def free_frames_zero tables_in_Suc)
    next
      case (page i)
      let ?s3 = "copy_ptes 1024 ?f (frame_addr i) (with_new_table dt i s)"
      have lt: "unat (mem_map s j) + pt_refs (pmem s) ?f j < 256" if "j < PAGING_PAGES" for j
        using Suc.prems(8) [OF that] True by (simp add: named_in_dirs_Suc)
      note step = copy_dir_step [OF Suc.prems(1) df True dt page(1,2) lt]
      have inv3: "mm_inv ext ?s3" and c: "dirs_copied df dt 1 s ?s3"
        and cnt: "\<And>j. j < PAGING_PAGES \<Longrightarrow> unat (mem_map ?s3 j) \<le> unat (mem_map s j) + pt_refs (pmem s) ?f j + of_bool (j = i)"
        using step by blast+
      have dz: "dir_refs (pmem s) j i = 0" if "j \<in> udirs" for j
        using dir_refs_le [OF that, of "pmem s" i] mm_inv_free_frame(1) [OF Suc.prems(1) page(1,2)] by simp
      have zf: "pt_refs (pmem s) ?f i = 0" using dz [OF df] True by (simp add: dir_refs_def)
      have zero: "named_in_dirs (pmem s) (Suc df) n i = 0"
        unfolding named_in_dirs_def using r dz
        by (intro sum.neutral) (force simp: dir_refs_def split: if_splits)
      have lt3: "unat (mem_map ?s3 j) + named_in_dirs (pmem ?s3) (Suc df) n j < 256" if "j < PAGING_PAGES" for j
        using cnt [OF that] Suc.prems(8) [OF that] True zero zf page(2) unfolding next_named [OF c]
        by (cases "j = i") (auto simp: named_in_dirs_Suc)
      have "copy_dirs 1024 (Suc n) (pde df) (pde dt) s = copy_dirs 1024 n (pde (Suc df)) (pde (Suc dt)) ?s3"
        using step(4) by (simp only: copy_dirs.simps pde_Suc dt(2) True page(4) Let_def prod.case if_False not_True_eq_False with_new_table_def)
      moreover have "returns (copy_dirs 1024 n (pde (Suc df)) (pde (Suc dt)) ?s3)
          (\<lambda>v s'. mm_inv ext s' \<and> copy_post (Suc df) (Suc dt) n ?s3 v s')"
        by (intro Suc.IH inv3 r next_empty [OF c] lt3)
      moreover have "free_frames s \<le> free_frames ?s3 + of_bool (present (pmem s (pde df)))"
      proof -
        have "mem_map ?s3 j = 0" if j: "j < PAGING_PAGES" "mem_map s j = 0" "j \<noteq> i" for j
        proof -
          have "dir_refs (pmem s) df j = 0"
            using dir_refs_le [OF df, of "pmem s" j] mm_inv_free_frame(1) [OF Suc.prems(1) j(1,2)] by simp
          then have "unat (mem_map ?s3 j) = 0" using cnt [OF j(1)] j(2,3) True by (simp add: dir_refs_def)
          then show ?thesis by (simp add: unat_eq_0)
        qed
        then show ?thesis using free_frames_le [of s i ?s3] True by simp
      qed
      ultimately show ?thesis using post [OF c _ next_tables [OF c]] by (auto elim!: returns_mono)
    qed
  qed
qed

section \<open>Mapping a page\<close>

lemma entry_upd_pte:
  assumes inv: "mm_inv ext s" and d: "d \<in> udirs" "present (pmem s (pde d))" and k: "k < 1024"
    and d': "d' \<in> udirs" "k' < 1024"
  shows "entry_at ((pmem s)(page_of (pmem s (pde d)) + pde k := v)) d' k'
       = (if d' = d \<and> k' = k then if present v then Some v else None else entry_at (pmem s) d' k')"
proof -
  let ?t = "page_of (pmem s (pde d))"
  note e = user_table_upd_pte(1) [OF inv user_tableI [OF d] k]
  show ?thesis
  proof (cases "present (pmem s (pde d'))")
    case True
    have "page_of (pmem s (pde d')) + pde k' = ?t + pde k \<longleftrightarrow> d' = d \<and> k' = k"
      using mm_inv_dirs_disjoint [OF inv d'(1) d(1) _ True d(2)] k d'
      by (cases "d' = d") (auto simp: pte_addr_inj pde_inj)
    then show ?thesis using True d e [of d' v] d' by (auto simp: entry_at_def)
  next
    case False
    then show ?thesis using d e [of d' v] d' by (auto simp: entry_at_def)
  qed
qed

lemma put_page_eq:
  "put_page page address s =
     (let d = unat address div 4194304; k = unat address div 4096 mod 1024 in
      if present (pmem s (pde d)) then (page, set_pmem (page_of (pmem s (pde d)) + pde k) (page OR 7) s)
      else case scan_free (mem_map s) PAGING_PAGES of None \<Rightarrow> (0, s)
        | Some i \<Rightarrow> (page, set_pmem (frame_addr i + pde k) (page OR 7) (with_new_table d i s)))"
proof -
  show ?thesis
  proof (cases rule: get_free_page_cases [of s])
    case none
    then have "scan_free (mem_map s) PAGING_PAGES = None" by (simp add: scan_free_None)
    then show ?thesis using none by (simp add: put_page_def Let_def dir_entry_addr_pde table_offset_pde)
  next
    case (page i)
    have "scan_free (mem_map s) PAGING_PAGES = Some i"
    proof (cases "scan_free (mem_map s) PAGING_PAGES")
      case None
      then show ?thesis using page(1,2) by (auto simp: scan_free_None)
    next
      case (Some j)
      then have "j = i" using scan_free_Some [OF Some] page(1-3) by (metis nat_neq_iff)
      then show ?thesis using Some by simp
    qed
    then show ?thesis using page
      by (simp add: put_page_def Let_def dir_entry_addr_pde table_offset_pde with_new_table_def)
  qed
qed

text \<open>It writes to the page table only, and to one that it makes.\<close>

lemma put_page_other:
  assumes "page_of a \<noteq> 0"
    and "present (pmem s (pde (unat address div 4194304))) \<Longrightarrow> page_of a \<noteq> page_of (pmem s (pde (unat address div 4194304)))"
    and "\<And>j. j < PAGING_PAGES \<Longrightarrow> mem_map s j = 0 \<Longrightarrow> page_of a \<noteq> frame_addr j"
  shows "pmem (snd (put_page page address s)) a = pmem s a"
proof -
  let ?d = "unat address div 4194304" and ?k = "unat address div 4096 mod 1024"
  have d: "?d < 1024" "?k < 1024" using unat_lt32 [of address] by auto
  show ?thesis
  proof (cases "present (pmem s (pde ?d))")
    case True
    have "a \<noteq> page_of (pmem s (pde ?d)) + pde ?k" using assms(2) [OF True] page_of_pte_addr [OF page_of_page_of d(2)] by metis
    then show ?thesis using True by (simp add: put_page_eq Let_def)
  next
    case False
    show ?thesis
    proof (cases "scan_free (mem_map s) PAGING_PAGES")
      case None
      then show ?thesis using False by (simp add: put_page_eq Let_def)
    next
      case (Some j)
      have j: "j < PAGING_PAGES" "mem_map s j = 0" using scan_free_Some [OF Some] by auto
      have "a \<noteq> frame_addr j + pde ?k" using assms(3) [OF j] page_of_pte_addr [OF frame_addr_simps(1) [OF j(1)] d(2)] by metis
      moreover have "a \<noteq> pde ?d" using assms(1) page_of_pde [OF d(1)] by metis
      ultimately show ?thesis
        using False Some assms(3) [OF j] j(1) by (simp add: put_page_eq Let_def with_new_table_def clear_page_other)
    qed
  qed
qed

text \<open>It fails when a page table is missing and no frame is free.\<close>

lemma put_page_fails:
  assumes "put_page page address s = (0, s')" "page \<noteq> 0"
  shows "\<not> present (pmem s (pde (unat address div 4194304)))" "free_frames s = 0"
  using assms by (auto simp: put_page_eq Let_def scan_free_None split: if_splits option.splits intro: free_frames_zero)

lemma mm_inv_put_pte:
  assumes inv: "mm_inv ext s" and d: "d \<in> udirs" "present (pmem s (pde d))" and k: "k < 1024"
    and i: "i < PAGING_PAGES" "frame_addr i < high_memory s" "0 < ext i"
    and e: "entry_at (pmem s) d k = None"
  shows "mm_inv (ext(i := ext i - 1)) (set_pmem (page_of (pmem s (pde d)) + pde k) (frame_addr i OR 7) s)"
proof -
  have "mm_inv (ext(i := ext i - 1)) (s\<lparr>mem_map := mem_map s,
      pmem := (pmem s)(page_of (pmem s (pde d)) + pde k := frame_addr i OR 7)\<rparr>)"
  proof (rule mm_inv_upd_pte [OF inv user_tableI [OF d] k])
    show "page_of (frame_addr i OR 7) < high_memory s" using i by simp
    show "\<not> names_frame (frame_addr i OR 7) (MAP_NR t') \<and> (ext(i := ext i - 1)) (MAP_NR t') = 0"
      if "user_table s t'" for t'
      using mm_inv_table(5) [OF inv that] i by (auto simp: names_frame_or_7)
    show "0 < (ext(i := ext i - 1)) j" if "j < PAGING_PAGES" "high_memory s \<le> frame_addr j" for j
      using that inv i(2) by (auto simp: mm_inv_def)
    show "unat (mem_map s j) + ext j + of_bool (names_frame (pmem s (page_of (pmem s (pde d)) + pde k)) j)
        = unat (mem_map s j) + (ext(i := ext i - 1)) j + of_bool (names_frame (frame_addr i OR 7) j)"
      if "j < PAGING_PAGES" for j
      using e d(2) i by (auto simp: entry_at_def names_frame_or_7 names_frame_def split: if_splits)
  qed
  then show ?thesis by simp
qed

lemma entry_with_new_table:
  assumes inv: "mm_inv ext s" and dt: "dt \<in> udirs" "\<not> present (pmem s (pde dt))"
    and i: "i < PAGING_PAGES" "mem_map s i = 0" and d: "d \<in> udirs" "k < 1024"
  shows "entry_at (pmem (with_new_table dt i s)) d k = entry_at (pmem s) d k"
proof -
  note n = with_new_table [OF inv dt i] and free = mm_inv_free_frame [OF inv i]
  show ?thesis
  proof (cases "d = dt")
    case True
    then show ?thesis using n(3) [of d] n(4) d dt i(1) by (simp add: entry_at_def)
  next
    case False
    have "pmem (with_new_table dt i s) (page_of (pmem s (pde d)) + pde k) = pmem s (page_of (pmem s (pde d)) + pde k)"
      if "present (pmem s (pde d))"
    proof (rule n(5))
      have ut: "user_table s (page_of (pmem s (pde d)))" using d(1) that by (rule user_tableI)
      show "page_of (page_of (pmem s (pde d)) + pde k) \<noteq> frame_addr i" using d ut free(4) by auto
      show "page_of (page_of (pmem s (pde d)) + pde k) \<noteq> 0" using d user_table_neq_0 [OF inv ut] by simp
    qed
    then show ?thesis using False d n(3) [of d]
      by (cases "present (pmem s (pde d))") (simp_all add: entry_at_def)
  qed
qed

text \<open>\<open>put_page\<close> on a user address: the page is mapped there and its outside reference is spent.\<close>

lemma put_page_spec:
  assumes inv: "mm_inv ext s" and d: "16 \<le> unat address div 4194304"
    and i: "i < PAGING_PAGES" "frame_addr i < high_memory s" "0 < ext i"
    and e: "entry_at (pmem s) (unat address div 4194304) (unat address div 4096 mod 1024) = None"
    and r: "put_page (frame_addr i) address s = (r, s')"
  shows "r = frame_addr i \<and> mm_inv (ext(i := ext i - 1)) s' \<and>
      (\<forall>d\<in>udirs. \<forall>k<1024. entry_at (pmem s') d k =
         (if d = unat address div 4194304 \<and> k = unat address div 4096 mod 1024
          then Some (frame_addr i OR 7) else entry_at (pmem s) d k)) \<or>
    r = 0 \<and> s' = s \<and> (\<forall>j<PAGING_PAGES. mem_map s j \<noteq> 0)"
proof -
  let ?d = "unat address div 4194304" and ?k = "unat address div 4096 mod 1024"
  have d': "?d \<in> udirs" using d unat_lt32 [of address] by (simp add: less_mult_imp_div_less)
  have k: "?k < 1024" by simp
  show ?thesis
  proof (cases "present (pmem s (pde ?d))")
    case True
    then have "r = frame_addr i" "s' = set_pmem (page_of (pmem s (pde ?d)) + pde ?k) (frame_addr i OR 7) s"
      using r by (auto simp: put_page_eq Let_def)
    then show ?thesis
      using mm_inv_put_pte [OF inv d' True k i e] entry_upd_pte [OF inv d' True k] by simp
  next
    case False
    show ?thesis
    proof (cases "scan_free (mem_map s) PAGING_PAGES")
      case None
      then have "r = 0" "s' = s" using r False by (auto simp: put_page_eq Let_def)
      then show ?thesis using None scan_free_None by blast
    next
      case (Some j)
      let ?s = "with_new_table ?d j s"
      from scan_free_Some [OF Some] have j: "j < PAGING_PAGES" "mem_map s j = 0" by auto
      note n = with_new_table [OF inv d' False j]
      have t: "pmem ?s (pde ?d) = frame_addr j OR 7" "present (pmem ?s (pde ?d))" "page_of (pmem ?s (pde ?d)) = frame_addr j"
        using n(3) [of ?d] d' j(1) by simp_all
      have rs: "r = frame_addr i" "s' = set_pmem (page_of (pmem ?s (pde ?d)) + pde ?k) (frame_addr i OR 7) ?s"
        using r False Some t(3) by (auto simp: put_page_eq Let_def)
      note ee = entry_with_new_table [OF inv d' False j]
      have "entry_at (pmem ?s) ?d ?k = None" using ee [OF d' k] e by simp
      then show ?thesis
        using rs mm_inv_put_pte [OF n(1) d' t(2) k i(1) _ i(3)] i(2)
          entry_upd_pte [OF n(1) d' t(2) k, of _ _ "frame_addr i OR 7"] ee by simp
    qed
  qed
qed

section \<open>Copy on write\<close>

definition writable :: "u32 \<Rightarrow> bool" where
  "writable e \<longleftrightarrow> 2 AND e \<noteq> 0"

lemma writable_bit: "writable e = bit e 1"
proof -
  have "2 AND e = (if bit e 1 then 2 else 0)"
    by (rule bit_word_eqI) (simp only: mm_bits if_distrib [of "\<lambda>w. bit w _"] bit_0_eq, auto)
  then show ?thesis by (simp add: writable_def)
qed

lemma writable_or [simp]: "writable (e OR 7)" "writable (e OR 2)"
  unfolding writable_bit by (simp_all only: mm_bits) simp_all

lemma copy_page_alt:
  "page_of n = n \<Longrightarrow> copy_page old n m a = (if page_of a = n then m (old + (a - n)) else m a)"
  by (simp add: copy_page_def in_page_iff)

lemma page_of_plus: "page_of p = p \<Longrightarrow> b < PAGE_SIZE \<Longrightarrow> page_of (p + b) = p"
  by (subst in_page_iff [symmetric]) simp_all

text \<open>The state after a write fault on the entry at \<open>p\<close>: the entry is writable, its frame is held
  by nobody else and has the contents the old page had, and nothing else changed.\<close>

definition unshared :: "u32 \<Rightarrow> 'a mm_state_scheme \<Rightarrow> 'a mm_state_scheme \<Rightarrow> bool" where
  "unshared p s s' \<longleftrightarrow>
     (let e = pmem s p; e' = pmem s' p in
      present e' \<and> writable e' \<and> LOW_MEM \<le> page_of e' \<and> mem_map s' (MAP_NR (page_of e')) = 1 \<and>
      (\<forall>b<PAGE_SIZE. pmem s' (page_of e' + b) = pmem s (page_of e + b)) \<and>
      (\<forall>a. a \<noteq> p \<longrightarrow> (page_of a = page_of e' \<longrightarrow> page_of e' = page_of e) \<longrightarrow> pmem s' a = pmem s a) \<and>
      (page_of e' = page_of e \<or> mem_map s (MAP_NR (page_of e')) = 0))"

lemma mm_inv_ext_unchanged:
  assumes "mm_inv ext s"
  shows "user_table s t \<Longrightarrow> ext (MAP_NR t) = 0"
    and "i < PAGING_PAGES \<Longrightarrow> high_memory s \<le> frame_addr i \<Longrightarrow> 0 < ext i"
  using assms mm_inv_table(5) by (auto simp: mm_inv_def)

lemma un_wp_page_spec:
  assumes inv: "mm_inv ext s" and t: "user_table s t" "k < 1024" and e: "present (pmem s (t + pde k))"
  shows "(un_wp_page (t + pde k) s = Exit SIGSEGV s \<and> (\<forall>j<PAGING_PAGES. mem_map s j \<noteq> 0)) \<or>
    (\<exists>s'. un_wp_page (t + pde k) s = Ret () s' \<and> mm_inv ext s' \<and> unshared (t + pde k) s s' \<and>
       (\<forall>t. user_table s' t \<longleftrightarrow> user_table s t))"
proof -
  let ?p = "t + pde k" and ?e = "pmem s (t + pde k)"
  let ?old = "page_of ?e" and ?i = "MAP_NR (page_of ?e)"
  have pp: "page_of ?p = t" "LOW_MEM \<le> t" using t mm_inv_table(1) [OF inv t(1)] by simp_all
  have ot: "?old \<noteq> t"
  proof
    assume "?old = t"
    then have "names_frame ?e (MAP_NR t)" using e pp(2) by (simp add: names_frame_def)
    then show False using mm_inv_pte_not_table [OF inv t t(1)] by simp
  qed
  note xt = mm_inv_ext_unchanged [OF inv]
  show ?thesis
  proof (cases "LOW_MEM \<le> ?old \<and> mem_map s ?i = 1")
    case True
    let ?s' = "s\<lparr>mem_map := mem_map s, pmem := (pmem s)(?p := ?e OR 2)\<rparr>"
    have r: "un_wp_page ?p s = Ret () ?s'" using True by (simp add: un_wp_page_def Let_def)
    have "mm_inv ext ?s'"
      using mm_inv_table(6) [OF inv t e] mm_inv_pte_not_table [OF inv t] xt
      by (intro mm_inv_upd_pte [OF inv t]) auto
    moreover have "unshared ?p s ?s'"
    proof -
      have "?old + b \<noteq> ?p" if "b < PAGE_SIZE" for b
        using page_of_plus [of ?old b] that pp(1) ot by auto
      then show ?thesis using True e by (simp add: unshared_def Let_def)
    qed
    moreover have "user_table ?s' t' \<longleftrightarrow> user_table s t'" for t' by (rule user_table_upd_pte(2) [OF inv t])
    ultimately show ?thesis using r by blast
  next
    case False
    show ?thesis
    proof (cases rule: get_free_page_cases [of s])
      case none
      then show ?thesis using False by (auto simp: un_wp_page_def Let_def oom_def)
    next
      case (page i)
      let ?new = "frame_addr i"
      let ?s1 = "s\<lparr>mem_map := (mem_map s)(i := 1), pmem := clear_page ?new (pmem s)\<rparr>"
      let ?mm = "if LOW_MEM \<le> ?old then (mem_map ?s1)(?i := mem_map ?s1 ?i - 1) else mem_map ?s1"
      let ?s2 = "?s1\<lparr>mem_map := ?mm, pmem := (pmem ?s1)(?p := ?new OR 7)\<rparr>"
      let ?s3 = "?s2\<lparr>mem_map := mem_map ?s2, pmem := copy_page ?old ?new (pmem ?s2)\<rparr>"
      note free = mm_inv_free_frame [OF inv page(1,2)]
      have inv1: "mm_inv (ext(i := 1)) ?s1" using inv page(1,2) by (rule mm_inv_get_free_page)
      have m1: "clear_page ?new (pmem s) a = pmem s a" if "page_of a \<noteq> ?new" for a
        using that page(1) by (simp add: clear_page_other)
      have ut1: "user_table ?s1 t' \<longleftrightarrow> user_table s t'" for t'
        by (rule user_table_cong) (simp add: m1 page(1))
      have tn: "t \<noteq> ?new" using t(1) free(4) by auto
      have e1: "pmem ?s1 ?p = ?e" using m1 [of ?p] tn pp by simp
      have on: "?old \<noteq> ?new"
      proof
        assume "?old = ?new"
        then have "names_frame ?e i" using e page(1) by (simp add: names_frame_def)
        then show False using refs_upd_pte [OF inv t, of 0 i] free(1) by simp
      qed
      have named: "LOW_MEM \<le> ?old \<Longrightarrow> ?i < PAGING_PAGES \<and> 1 + ext ?i \<le> unat (mem_map s ?i) \<and> mem_map s ?i \<noteq> 0"
        using mm_inv_named [OF inv t e] by simp
      have ni: "?i \<noteq> i" if "LOW_MEM \<le> ?old"
      proof
        assume "?i = i"
        then have "frame_addr i = ?old"
          using frame_addr_MAP_NR [of ?old] that page(1) by simp
        then show False using on by simp
      qed
      have inv2: "mm_inv ext ?s2"
      proof (rule mm_inv_upd_pte [OF inv1 _ t(2)])
        show "user_table ?s1 t" using ut1 t(1) by simp
        show "page_of (?new OR 7) < high_memory ?s1" using free(3) page(1) by simp
        show "\<not> names_frame (?new OR 7) (MAP_NR t') \<and> ext (MAP_NR t') = 0" if "user_table ?s1 t'" for t'
          using mm_inv_table(5) [OF inv1 that] ut1 that xt page(1) by (auto simp: names_frame_or_7 split: if_splits)
        show "0 < ext j" if "j < PAGING_PAGES" "high_memory ?s1 \<le> frame_addr j" for j
          using xt(2) that by simp
        show "unat (?mm j) + (ext(i := 1)) j + of_bool (names_frame (pmem ?s1 ?p) j)
            = unat (mem_map ?s1 j) + ext j + of_bool (names_frame (?new OR 7) j)" if "j < PAGING_PAGES" for j
          using named ni free(2) e page(1,2) unfolding e1
          by (auto simp: names_frame_def unat_minus_1)
      qed
      have ut2: "user_table ?s2 t' \<longleftrightarrow> user_table s t'" for t'
        using user_table_upd_pte(2) [OF inv1 _ t(2)] ut1 t(1) by blast
      have inv3: "mm_inv ext ?s3"
      proof (rule mm_inv_cong [OF inv2])
        show "copy_page ?old ?new (pmem ?s2) (pde d) = pmem ?s2 (pde d)" if "d \<in> udirs" for d
          using that page(1) by (simp add: copy_page_alt)
        show "copy_page ?old ?new (pmem ?s2) (t' + pde k') = pmem ?s2 (t' + pde k')"
          if "user_table ?s2 t'" "k' < 1024" for t' k'
        proof -
          have "user_table s t'" using ut2 that by simp
          then show ?thesis using that page(1) free(4) by (auto simp: copy_page_alt)
        qed
      qed (use ut2 xt in auto)
      have ut3: "user_table ?s3 t' \<longleftrightarrow> user_table s t'" for t'
        unfolding ut2 [symmetric] by (rule user_table_cong) (simp add: copy_page_alt page(1))
      have r: "un_wp_page ?p s = Ret () ?s3"
      proof (cases "LOW_MEM \<le> ?old")
        case True
        then have "mem_map s ?i \<noteq> 1" using False by simp
        then show ?thesis using True page e1 by (simp add: un_wp_page_def Let_def)
      next
        case False
        then show ?thesis using page e1 by (simp add: un_wp_page_def Let_def)
      qed
      have m2: "pmem ?s2 a = pmem s a" if "a \<noteq> ?p" "page_of a \<noteq> ?new" for a
        using that m1 by simp
      have "unshared ?p s ?s3"
      proof -
        have e3: "pmem ?s3 ?p = ?new OR 7" using page(1) tn pp by (simp add: copy_page_alt)
        have c: "pmem ?s3 (?new + b) = pmem s (?old + b)" if "b < PAGE_SIZE" for b
        proof -
          have "page_of (?old + b) = ?old" "page_of (?new + b) = ?new"
            using page_of_plus that page(1) by simp_all
          then show ?thesis using m2 [of "?old + b"] ot on pp page(1) by (auto simp: copy_page_alt)
        qed
        have o: "pmem ?s3 a = pmem s a" if "a \<noteq> ?p" "page_of a \<noteq> ?new" for a
          using m2 [OF that] that page(1) by (simp add: copy_page_alt)
        have "mem_map ?s3 i = 1" using ni by auto
        then show ?thesis using e3 c o page(1,2) on unfolding unshared_def Let_def e3
          by (simp del: select_convs update_convs)
      qed
      then show ?thesis using r inv3 ut3 by blast
    qed
  qed
qed

end
