(* ===== verification/Memory_Properties.thy ===== *)
theory Memory_Properties
  imports Memory_Sharing
begin

text \<open>
  The properties of \<^verbatim>\<open>mm/memory.c\<close>, stated over the entries of the linear address space
  (\<open>entry_at\<close>): sharing on fork, copy on write, release of a region, and demand-zero pages.
\<close>

lemma get_empty_page_aux:
  assumes inv: "mm_inv ext s" and i: "i < PAGING_PAGES" "mem_map s i = 0"
  shows "free_page (frame_addr i) (s\<lparr>mem_map := (mem_map s)(i := 1), pmem := clear_page (frame_addr i) (pmem s)\<rparr>)
       = Ret () (s\<lparr>mem_map := mem_map s, pmem := clear_page (frame_addr i) (pmem s)\<rparr>)"
    and "mm_inv ext (s\<lparr>mem_map := mem_map s, pmem := clear_page (frame_addr i) (pmem s)\<rparr>)"
proof -
  note free = mm_inv_free_frame [OF inv i] and xt = mm_inv_ext_unchanged [OF inv]
  have e: "(mem_map s)(i := 0) = mem_map s" using i(2) by auto
  show "free_page (frame_addr i) (s\<lparr>mem_map := (mem_map s)(i := 1), pmem := clear_page (frame_addr i) (pmem s)\<rparr>)
       = Ret () (s\<lparr>mem_map := mem_map s, pmem := clear_page (frame_addr i) (pmem s)\<rparr>)"
    using i free(3) e by (simp add: free_page_ok)
  show "mm_inv ext (s\<lparr>mem_map := mem_map s, pmem := clear_page (frame_addr i) (pmem s)\<rparr>)"
  proof (rule mm_inv_cong [OF inv])
    show "clear_page (frame_addr i) (pmem s) (pde d) = pmem s (pde d)" if "d \<in> udirs" for d
      using that i by (intro clear_page_other) auto
    show "clear_page (frame_addr i) (pmem s) (t + pde k) = pmem s (t + pde k)"
      if "user_table s t" "k < 1024" for t k
      using that i free(4) by (intro clear_page_other) auto
  qed (use xt in auto)
qed

text \<open>A state with one page mapped, for the concrete instances below: 16 MB of memory, one page at
  the first address of task 1.\<close>

definition boot_mm :: mm_state where
  "boot_mm = \<lparr>mem_map = (\<lambda>_. 0), high_memory = 0x1000000, pmem = (\<lambda>_. 0)\<rparr>"

definition one_page_mm :: mm_state where
  "one_page_mm = snd (put_page (frame_addr 3839) 0x4000000 (snd (get_free_page boot_mm)))"

lemma mm_inv_boot: "mm_inv (\<lambda>_. 0) boot_mm"
proof -
  have "\<not> user_table boot_mm t" for t by (simp add: user_table_def boot_mm_def)
  moreover have "refs (\<lambda>_. 0) i = 0" for i by (simp add: refs_def dir_refs_def)
  moreover have "frame_addr i < 0x1000000" if "i < PAGING_PAGES" for i
    using that by (simp add: word_less_nat_alt unat_frame_addr PAGING_PAGES_def)
  ultimately show ?thesis by (auto simp: mm_inv_def boot_mm_def not_le [symmetric])
qed

lemma PAGING_PAGES_Suc: "PAGING_PAGES = Suc (Suc 3838)"
  by (simp add: PAGING_PAGES_def)

lemma get_free_page_boot:
  "get_free_page boot_mm = (frame_addr 3839, boot_mm\<lparr>mem_map := (\<lambda>_. 0)(3839 := 1), pmem := clear_page (frame_addr 3839) (\<lambda>_. 0)\<rparr>)"
proof -
  have "scan_free (\<lambda>_. 0) PAGING_PAGES = Some 3839"
    unfolding PAGING_PAGES_Suc scan_free.simps by simp
  then show ?thesis by (simp add: get_free_page_def boot_mm_def frame_addr_def Let_def)
qed

lemma clear_zero [simp]: "clear_page p (\<lambda>_. 0) = (\<lambda>_. 0)"
  by (rule ext) (simp add: clear_page_def)

lemma mm_inv_one_page:
  "mm_inv (\<lambda>_. 0) one_page_mm"
  "\<forall>d\<in>udirs. \<forall>k<1024. entry_at (pmem one_page_mm) d k =
     (if d = 16 \<and> k = 0 then Some (frame_addr 3839 OR 7) else None)"
proof -
  let ?s = "snd (get_free_page boot_mm)"
  have i: "3839 < PAGING_PAGES" by (simp add: PAGING_PAGES_def)
  have inv: "mm_inv ((\<lambda>_. 0)(3839 := 1)) ?s"
    using mm_inv_get_free_page [OF mm_inv_boot i] by (simp add: get_free_page_boot) (simp add: boot_mm_def)
  have en: "entry_at (pmem ?s) d k = None" for d k
    by (simp add: get_free_page_boot entry_at_def)
  have fr: "mem_map ?s 3838 = 0" by (simp add: get_free_page_boot)
  have lt: "frame_addr 3839 < high_memory ?s" by (simp add: get_free_page_boot) (simp add: boot_mm_def frame_addr_def)
  obtain r s' where p: "put_page (frame_addr 3839) 0x4000000 ?s = (r, s')" by (cases "put_page (frame_addr 3839) 0x4000000 ?s")
  have i8: "3838 < PAGING_PAGES" by (simp add: PAGING_PAGES_def)
  have ex: "((\<lambda>_. 0)(3839 := 1))(3839 := ((\<lambda>_. 0)(3839 := 1)) 3839 - 1) = (\<lambda>_. 0::nat)" by auto
  from put_page_spec [OF inv _ i lt _ en p] fr i8
  have *: "mm_inv (\<lambda>_. 0) s' \<and> (\<forall>d\<in>udirs. \<forall>k<1024. entry_at (pmem s') d k =
     (if d = 16 \<and> k = 0 then Some (frame_addr 3839 OR 7) else None))"
    unfolding ex en by auto
  have "one_page_mm = s'" by (simp add: one_page_mm_def p)
  with * show "mm_inv (\<lambda>_. 0) one_page_mm"
    "\<forall>d\<in>udirs. \<forall>k<1024. entry_at (pmem one_page_mm) d k =
     (if d = 16 \<and> k = 0 then Some (frame_addr 3839 OR 7) else None)" by simp_all
qed

lemma one_page_mm_eq:
  "one_page_mm = \<lparr>mem_map = (\<lambda>_. 0)(3839 := 1, 3838 := 1), high_memory = 0x1000000,
     pmem = (\<lambda>_. 0)(64 := frame_addr 3838 OR 7, frame_addr 3838 := frame_addr 3839 OR 7)\<rparr>"
proof -
  have "scan_free ((\<lambda>_. 0)(3839 := 1)) PAGING_PAGES = Some 3838"
    unfolding PAGING_PAGES_Suc scan_free.simps by simp
  then show ?thesis
    by (simp add: one_page_mm_def get_free_page_boot put_page_eq Let_def with_new_table_def)
      (simp add: boot_mm_def)
qed

lemma named_in_dirs_le:
  assumes "16 \<le> d" "d + n \<le> 1024"
  shows "named_in_dirs m d n i \<le> refs m i"
proof -
  have "named_in_dirs m d n i \<le> (\<Sum>j\<in>{d..<d + n}. dir_refs m j i)"
    unfolding named_in_dirs_def by (intro sum_mono) (simp add: dir_refs_def)
  also have "\<dots> \<le> refs m i"
    unfolding refs_def using assms by (intro sum_mono2) auto
  finally show ?thesis .
qed

text \<open>The frame that \<open>get_empty_page\<close> maps stays clear, and what it lacked when it fails.\<close>

lemma get_empty_page_zero:
  assumes inv: "mm_inv (ext(i := 1)) (s\<lparr>mem_map := (mem_map s)(i := 1), pmem := clear_page (frame_addr i) (pmem s)\<rparr>)"
    and i: "i < PAGING_PAGES" and d: "unat address div 4194304 \<in> udirs" and a: "page_of a = frame_addr i"
  shows "pmem (snd (put_page p address (s\<lparr>mem_map := (mem_map s)(i := 1), pmem := clear_page (frame_addr i) (pmem s)\<rparr>))) a = 0"
proof -
  let ?s = "s\<lparr>mem_map := (mem_map s)(i := 1), pmem := clear_page (frame_addr i) (pmem s)\<rparr>"
  have "page_of a \<noteq> page_of (pmem ?s (pde (unat address div 4194304)))" if "present (pmem ?s (pde (unat address div 4194304)))"
    using mm_inv_ext_unchanged(1) [OF inv user_tableI [OF d that]] a i by auto
  moreover have "page_of a \<noteq> frame_addr j" if "j < PAGING_PAGES" "mem_map ?s j = 0" for j
    using that a frame_addr_simps(4) [OF i] frame_addr_simps(4) [OF that(1)] by (cases "j = i") auto
  ultimately have "pmem (snd (put_page p address ?s)) a = pmem ?s a" using a i by (intro put_page_other) simp_all
  then show ?thesis using a i by (simp add: clear_page_alt)
qed

lemma get_empty_page_room:
  assumes i: "i < PAGING_PAGES" and d: "unat address div 4194304 \<in> udirs"
    and p: "put_page (frame_addr i) address (s\<lparr>mem_map := (mem_map s)(i := 1), pmem := clear_page (frame_addr i) (pmem s)\<rparr>) = (0, s')"
  shows "free_frames s < (if present (pmem s (pde (unat address div 4194304))) then 1 else 2)"
proof -
  let ?s = "s\<lparr>mem_map := (mem_map s)(i := 1), pmem := clear_page (frame_addr i) (pmem s)\<rparr>"
  have "frame_addr i \<noteq> 0" using i by simp
  note f = put_page_fails [OF p this]
  have "\<not> present (pmem s (pde (unat address div 4194304)))" using f(1) d i by (simp add: clear_page_other)
  moreover have "free_frames s \<le> free_frames ?s + 1" by (rule free_frames_le) simp
  ultimately show ?thesis using f(2) by simp
qed

text \<open>C1: \<open>copy_page_tables\<close> between two user regions returns, keeps the accounting invariant, and on
  success the child has exactly the parent's pages, read-only, the parent's pages of main memory
  are read-only too, and no other mapping changes; -1 means that no frame is left.\<close>

theorem copy_page_tables_correct:
  assumes "mm_inv ext s" and "from AND 0x3fffff = 0" and "to AND 0x3fffff = 0"
    and "df = unat from div 4194304" and "dt = unat to div 4194304" and "n = unat (drop_bit 22 (sz + 0x3fffff))"
    and "16 \<le> df" and "df + n \<le> 1024" and "16 \<le> dt" and "dt + n \<le> 1024" and "df + n \<le> dt \<or> dt + n \<le> df"
    and "\<forall>j<n. \<not> present (pmem s (4 * of_nat (dt + j)))"
    and "\<forall>i<PAGING_PAGES. unat (mem_map s i) < 128"
  shows "returns (copy_page_tables from to sz s) (\<lambda>r s'.
     mm_inv ext s' \<and>
     (r = 0 \<and>
       (\<forall>j<n. \<forall>k<1024.
          entry_at (pmem s') (dt + j) k = map_option read_only (entry_at (pmem s) (df + j) k) \<and>
          entry_at (pmem s') (df + j) k = map_option read_only_main (entry_at (pmem s) (df + j) k)) \<and>
       (\<forall>d\<in>{16..<1024}. \<not> (df \<le> d \<and> d < df + n) \<longrightarrow> \<not> (dt \<le> d \<and> d < dt + n) \<longrightarrow>
          (\<forall>k<1024. entry_at (pmem s') d k = entry_at (pmem s) d k)) \<or>
      r = -1 \<and> (\<forall>i<PAGING_PAGES. mem_map s' i \<noteq> 0)))"
proof -
  have nz: "from \<noteq> 0" using assms(4,7) by auto
  have lt: "unat (mem_map s i) + named_in_dirs (pmem s) df n i < 256" if "i < PAGING_PAGES" for i
    using named_in_dirs_le [OF assms(7,8), of "pmem s" i] mm_inv_count [OF assms(1) that] assms(13) that
    by fastforce
  have "returns (copy_dirs 1024 n (pde df) (pde dt) s) (\<lambda>r s'. mm_inv ext s' \<and> copy_post df dt n s r s')"
    using assms(12) lt by (intro copy_dirs_ok assms(1) assms(7-11)) auto
  then have "returns (copy_page_tables from to sz s) (\<lambda>r s'. mm_inv ext s' \<and> copy_post df dt n s r s')"
    using assms(2-6) nz by (simp add: copy_page_tables_def dir_entry_addr_pde)
  then show ?thesis
    by (elim returns_mono) (auto simp: copy_post_def dest: dirs_copiedD same_dir_entry)
qed

lemma one_page_counts: "unat (mem_map one_page_mm i) < 128"
  by (simp add: one_page_mm_eq)

lemma one_page_child_empty: "\<not> present (pmem one_page_mm 128)"
  by (simp add: one_page_mm_eq frame_addr_def)

theorem copy_page_tables_correct_witness:
  "returns (copy_page_tables 0x4000000 0x8000000 0xa0000 one_page_mm) (\<lambda>r s'.
     mm_inv (\<lambda>_. 0) s' \<and>
     (r = 0 \<and>
       (\<forall>j<1. \<forall>k<1024.
          entry_at (pmem s') (32 + j) k = map_option read_only (entry_at (pmem one_page_mm) (16 + j) k) \<and>
          entry_at (pmem s') (16 + j) k = map_option read_only_main (entry_at (pmem one_page_mm) (16 + j) k)) \<and>
       (\<forall>d\<in>{16..<1024}. \<not> (16 \<le> d \<and> d < 16 + 1) \<longrightarrow> \<not> (32 \<le> d \<and> d < 32 + 1) \<longrightarrow>
          (\<forall>k<1024. entry_at (pmem s') d k = entry_at (pmem one_page_mm) d k)) \<or>
      r = -1 \<and> (\<forall>i<PAGING_PAGES. mem_map s' i \<noteq> 0)))"
  using one_page_child_empty one_page_counts
  by (intro copy_page_tables_correct [OF mm_inv_one_page(1)]) (auto simp: drop_bit_eq_div)

lemma unsharedD:
  assumes "unshared p s s'"
  shows "present (pmem s' p)" "writable (pmem s' p)" "LOW_MEM \<le> page_of (pmem s' p)"
    "mem_map s' (MAP_NR (page_of (pmem s' p))) = 1"
    "b < PAGE_SIZE \<Longrightarrow> pmem s' (page_of (pmem s' p) + b) = pmem s (page_of (pmem s p) + b)"
    "a \<noteq> p \<Longrightarrow> (page_of a = page_of (pmem s' p) \<Longrightarrow> page_of (pmem s' p) = page_of (pmem s p)) \<Longrightarrow> pmem s' a = pmem s a"
    "page_of (pmem s' p) = page_of (pmem s p) \<or> mem_map s (MAP_NR (page_of (pmem s' p))) = 0"
  using assms unfolding unshared_def Let_def by blast+

lemma unshared_other_entry:
  assumes inv: "mm_inv ext s" and t: "d \<in> udirs" "present (pmem s (pde d))" "k < 1024"
    and u: "unshared (page_of (pmem s (pde d)) + pde k) s s'"
    and pe: "present (pmem s (page_of (pmem s (pde d)) + pde k))"
    and d': "d' \<in> udirs" "k' < 1024" "(d', k') \<noteq> (d, k)"
  shows "entry_at (pmem s') d' k' = entry_at (pmem s) d' k'"
    and "entry_at (pmem s) d' k' = Some e \<Longrightarrow> b < PAGE_SIZE \<Longrightarrow> pmem s' (page_of e + b) = pmem s (page_of e + b)"
proof -
  let ?t = "page_of (pmem s (pde d))" and ?p = "page_of (pmem s (pde d)) + pde k"
  let ?new = "page_of (pmem s' ?p)"
  have ut: "user_table s ?t" using t by (intro user_tableI)
  have np: "?new = page_of (pmem s ?p) \<or> (LOW_MEM \<le> ?new \<and> mem_map s (MAP_NR ?new) = 0)"
    and keep: "\<And>a. a \<noteq> ?p \<Longrightarrow> (page_of a = ?new \<longrightarrow> ?new = page_of (pmem s ?p)) \<Longrightarrow> pmem s' a = pmem s a"
    using unsharedD(3,6,7) [OF u] by blast+
  have nt: "page_of a \<noteq> ?new \<or> ?new = page_of (pmem s ?p)" if a: "user_table s (page_of a) \<or> page_of a = 0" for a
    using np a mm_inv_table [OF inv, of "page_of a"] mm_inv_count [OF inv, of "MAP_NR (page_of a)"] by auto
  have md: "pmem s' (pde j) = pmem s (pde j)" if "j < 1024" for j
  proof (rule keep)
    show "pde j \<noteq> ?p" using page_0_not_table [OF inv ut that t(3)] by metis
  qed (use nt [of "pde j"] that in auto)
  have mt: "pmem s' (t' + pde j) = pmem s (t' + pde j)" if "user_table s t'" "j < 1024" "t' + pde j \<noteq> ?p" for t' j
    using that nt [of "t' + pde j"] by (intro keep) auto
  show "entry_at (pmem s') d' k' = entry_at (pmem s) d' k'"
  proof (cases "present (pmem s (pde d'))")
    case True
    have "page_of (pmem s (pde d')) + pde k' \<noteq> ?p"
      using mm_inv_dirs_disjoint [OF inv d'(1) t(1) _ True t(2)] d' t
      by (cases "d' = d") (auto simp: pte_addr_inj pde_inj)
    then have "pmem s' (page_of (pmem s (pde d')) + pde k') = pmem s (page_of (pmem s (pde d')) + pde k')"
      using d' True by (intro mt user_tableI) auto
    then show ?thesis using md [of d'] d'(1) by (simp add: entry_at_def)
  next
    case False
    then show ?thesis using md [of d'] d'(1) by (simp add: entry_at_def)
  qed
  assume e: "entry_at (pmem s) d' k' = Some e" and b: "b < PAGE_SIZE"
  then have p': "present (pmem s (pde d'))" and e': "e = pmem s (page_of (pmem s (pde d')) + pde k')" "present e"
    by (auto simp: entry_at_def split: if_splits)
  have ut': "user_table s (page_of (pmem s (pde d')))" using d' p' by (intro user_tableI)
  have pb: "page_of (page_of e + b) = page_of e" using b by (intro page_of_plus) simp_all
  have "page_of e \<noteq> ?t"
  proof
    assume "page_of e = ?t"
    then have "names_frame e (MAP_NR ?t)" using e' mm_inv_table(1) [OF inv ut] by (simp add: names_frame_def)
    then show False using mm_inv_pte_not_table [OF inv ut' d'(2) ut] e' by simp
  qed
  then have "page_of e + b \<noteq> ?p" using pb t(3) by auto
  moreover have "page_of e \<noteq> ?new \<or> ?new = page_of (pmem s ?p)"
    using np mm_inv_named(3) [OF inv ut' d'(2)] e' by auto
  ultimately show "pmem s' (page_of e + b) = pmem s (page_of e + b)"
    using pb by (intro keep) auto
qed

text \<open>C2: a write fault on a mapped user address either ends the process because no frame is left, or
  leaves the address mapped writable to a frame that only this entry names, with the contents the
  page had; every other mapping of every task, and what it reads there, is unchanged.\<close>

theorem do_wp_page_correct:
  assumes "mm_inv ext s" and "d = unat address div 4194304" and "k = unat address div 4096 mod 1024"
    and "16 \<le> d" and "entry_at (pmem s) d k = Some e"
  shows "(do_wp_page error_code address s = Exit SIGSEGV s \<and> (\<forall>i<PAGING_PAGES. mem_map s i \<noteq> 0)) \<or>
    (\<exists>s' e'. do_wp_page error_code address s = Ret () s' \<and> mm_inv ext s' \<and>
       entry_at (pmem s') d k = Some e' \<and> writable e' \<and> LOW_MEM \<le> page_of e' \<and>
       mem_map s' (MAP_NR (page_of e')) = 1 \<and>
       (\<forall>b<PAGE_SIZE. pmem s' (page_of e' + b) = pmem s (page_of e + b)) \<and>
       (\<forall>d'\<in>{16..<1024}. \<forall>k'<1024. (d', k') \<noteq> (d, k) \<longrightarrow>
          entry_at (pmem s') d' k' = entry_at (pmem s) d' k' \<and>
          (\<forall>e2. entry_at (pmem s) d' k' = Some e2 \<longrightarrow>
             (\<forall>b<PAGE_SIZE. pmem s' (page_of e2 + b) = pmem s (page_of e2 + b)))))"
proof -
  have d: "d \<in> udirs" using assms(2,4) unat_lt32 [of address] by (simp add: less_mult_imp_div_less)
  have k: "k < 1024" using assms(3) by simp
  let ?t = "page_of (pmem s (pde d))"
  from assms(5) have p: "present (pmem s (pde d))" and e: "e = pmem s (?t + pde k)" "present e"
    by (auto simp: entry_at_def split: if_splits)
  have ut: "user_table s ?t" using d p by (rule user_tableI)
  have eq: "do_wp_page error_code address s = un_wp_page (?t + pde k) s"
    by (simp add: do_wp_page_def pte_addr_def dir_entry_addr_pde table_offset_pde assms(2,3) add.commute)
  from un_wp_page_spec [OF assms(1) ut k] e
  consider (oom) "un_wp_page (?t + pde k) s = Exit SIGSEGV s" "\<forall>j<PAGING_PAGES. mem_map s j \<noteq> 0"
    | (ok) s' where "un_wp_page (?t + pde k) s = Ret () s'" "mm_inv ext s'" "unshared (?t + pde k) s s'"
    by blast
  then show ?thesis
  proof cases
    case oom
    then have "do_wp_page error_code address s = Exit SIGSEGV s" using eq by simp
    then show ?thesis using oom(2) by blast
  next
    case ok
    note other = unshared_other_entry [OF assms(1) d p k ok(3) e(2)[unfolded e(1)]]
    have "pmem s' (pde d) = pmem s (pde d)"
    proof -
      have "pde d \<noteq> ?t + pde k" using page_0_not_table [OF assms(1) ut, of d k] d k by auto
      moreover have "page_of (pmem s' (?t + pde k)) \<noteq> 0"
        using unsharedD(3) [OF ok(3)] by fastforce
      ultimately show ?thesis using d by (intro unsharedD(6) [OF ok(3)]) auto
    qed
    then have "entry_at (pmem s') d k = Some (pmem s' (?t + pde k))"
      using unsharedD(1) [OF ok(3)] p by (simp add: entry_at_def)
    then show ?thesis
      using ok(1,2) other unsharedD(2-5) [OF ok(3)] unfolding eq e(1) by blast
  qed
qed

theorem do_wp_page_correct_witness:
  "(do_wp_page 7 0x4000000 one_page_mm = Exit SIGSEGV one_page_mm \<and> (\<forall>i<PAGING_PAGES. mem_map one_page_mm i \<noteq> 0)) \<or>
    (\<exists>s' e'. do_wp_page 7 0x4000000 one_page_mm = Ret () s' \<and> mm_inv (\<lambda>_. 0) s' \<and>
       entry_at (pmem s') 16 0 = Some e' \<and> writable e' \<and> LOW_MEM \<le> page_of e' \<and>
       mem_map s' (MAP_NR (page_of e')) = 1 \<and>
       (\<forall>b<PAGE_SIZE. pmem s' (page_of e' + b) = pmem one_page_mm (page_of (frame_addr 3839 OR 7) + b)) \<and>
       (\<forall>d'\<in>{16..<1024}. \<forall>k'<1024. (d', k') \<noteq> (16, 0) \<longrightarrow>
          entry_at (pmem s') d' k' = entry_at (pmem one_page_mm) d' k' \<and>
          (\<forall>e2. entry_at (pmem one_page_mm) d' k' = Some e2 \<longrightarrow>
             (\<forall>b<PAGE_SIZE. pmem s' (page_of e2 + b) = pmem one_page_mm (page_of e2 + b)))))"
  by (rule do_wp_page_correct [OF mm_inv_one_page(1)]) (simp_all add: mm_inv_one_page(2))

text \<open>C3: \<open>free_page_tables\<close> on a user region returns 0 without a panic, keeps the accounting
  invariant (every frame that the region named is given back), leaves nothing mapped in the
  region and changes no mapping outside it.\<close>

theorem free_page_tables_correct:
  assumes "mm_inv ext s" and "from AND 0x3fffff = 0"
    and "d = unat from div 4194304" and "n = unat (drop_bit 22 (sz + 0x3fffff))"
    and "16 \<le> d" and "d + n \<le> 1024"
  shows "returns (free_page_tables from sz s) (\<lambda>r s'.
     r = 0 \<and> mm_inv ext s' \<and>
     (\<forall>j k. d \<le> j \<and> j < d + n \<longrightarrow> entry_at (pmem s') j k = None) \<and>
     (\<forall>j\<in>{16..<1024}. \<not> (d \<le> j \<and> j < d + n) \<longrightarrow>
        (\<forall>k<1024. entry_at (pmem s') j k = entry_at (pmem s) j k)))"
proof -
  have nz: "from \<noteq> 0" using assms(3,5) by auto
  have out: "entry_at (pmem s') j k = entry_at (pmem s) j k"
    if f: "frees_dirs d n s s'" and j: "j \<in> udirs" "\<not> (d \<le> j \<and> j < d + n)" "k < 1024" for s' j k
  proof -
    have "same_dir (pmem s) (pmem s') j"
      unfolding same_dir_def using frees_dirsD(3) [OF f _ j(2)] frees_dirsD(4) [OF f j(1,2)] j(1) by auto
    then show ?thesis using j(3) by (rule same_dir_entry)
  qed
  have "returns (free_dirs n (pde d) s) (\<lambda>_ s'. mm_inv ext s' \<and> frees_dirs d n s s')"
    by (rule free_dirs_ok [OF assms(1,5,6)])
  then have "returns (free_page_tables from sz s) (\<lambda>r s'. r = 0 \<and> mm_inv ext s' \<and> frees_dirs d n s s')"
    using assms(2-4) nz by (simp add: free_page_tables_def dir_entry_addr_pde)
  then show ?thesis
  proof (rule returns_mono, elim conjE, intro conjI allI ballI impI)
    fix j k :: nat and s' :: "'a mm_state_scheme" assume f: "frees_dirs d n s s'"
    { assume "d \<le> j \<and> j < d + n"
      then show "entry_at (pmem s') j k = None" using frees_dirsD(2) [OF f, of j] by (simp add: entry_at_def) }
    assume "j \<in> udirs" "\<not> (d \<le> j \<and> j < d + n)" "k < 1024"
    then show "entry_at (pmem s') j k = entry_at (pmem s) j k" using out [OF f] by blast
  qed
qed

theorem free_page_tables_correct_witness:
  "returns (free_page_tables 0x4000000 0x4000000 one_page_mm) (\<lambda>r s'.
     r = 0 \<and> mm_inv (\<lambda>_. 0) s' \<and>
     (\<forall>j k. 16 \<le> j \<and> j < 16 + 16 \<longrightarrow> entry_at (pmem s') j k = None) \<and>
     (\<forall>j\<in>{16..<1024}. \<not> (16 \<le> j \<and> j < 16 + 16) \<longrightarrow>
        (\<forall>k<1024. entry_at (pmem s') j k = entry_at (pmem one_page_mm) j k)))"
  by (rule free_page_tables_correct [OF mm_inv_one_page(1)]) (simp_all add: drop_bit_eq_div)

text \<open>C4: \<open>get_empty_page\<close> on an unmapped user address maps a writable page there: its frame was free, so nobody
  else has it, every byte of it is zero, and no other mapping changes. Only when memory is exhausted (no frame is free, or a single one while the
  page table is missing too) does it end the process instead, and then no mapping changes at all. In both cases
  every frame is accounted for (a frame taken before the table could not be found is given back).\<close>

theorem get_empty_page_correct:
  assumes "mm_inv ext s" and "d = unat address div 4194304" and "k = unat address div 4096 mod 1024"
    and "16 \<le> d" and "entry_at (pmem s) d k = None"
  shows "(\<exists>s'. get_empty_page address s = Exit SIGSEGV s' \<and> mm_inv ext s' \<and>
       free_frames s < (if present (pmem s (4 * of_nat d)) then 1 else 2) \<and>
       (\<forall>d'\<in>{16..<1024}. \<forall>k'<1024. entry_at (pmem s') d' k' = entry_at (pmem s) d' k')) \<or>
    (\<exists>s' e. get_empty_page address s = Ret () s' \<and> mm_inv ext s' \<and>
       (\<forall>d'\<in>{16..<1024}. \<forall>k'<1024. entry_at (pmem s') d' k' =
          (if d' = d \<and> k' = k then Some e else entry_at (pmem s) d' k')) \<and>
       writable e \<and> mem_map s (MAP_NR (page_of e)) = 0 \<and> (\<forall>a. page_of a = page_of e \<longrightarrow> pmem s' a = 0))"
proof (cases rule: get_free_page_cases [of s])
  case none
  then have "get_empty_page address s = Exit SIGSEGV s" "free_frames s = 0"
    by (simp_all add: get_empty_page_def Let_def free_page_def oom_def free_frames_zero)
  then show ?thesis using assms(1) by simp
next
  case (page i)
  let ?s1 = "s\<lparr>mem_map := (mem_map s)(i := 1), pmem := clear_page (frame_addr i) (pmem s)\<rparr>"
  note free = mm_inv_free_frame [OF assms(1) page(1,2)]
  have inv1: "mm_inv (ext(i := 1)) ?s1" using assms(1) page(1,2) by (rule mm_inv_get_free_page)
  have e1: "entry_at (pmem ?s1) d' k' = entry_at (pmem s) d' k'" if "d' \<in> udirs" "k' < 1024" for d' k'
  proof (rule same_dir_entry [OF _ that(2)])
    have "page_of (pmem s (pde d')) \<noteq> frame_addr i" if "present (pmem s (pde d'))"
      using user_tableI [OF \<open>d' \<in> udirs\<close> that] free(4) by auto
    then show "same_dir (pmem s) (pmem ?s1) d'"
      using that page(1) by (auto simp: same_dir_def clear_page_other)
  qed
  have d: "d \<in> udirs" using assms(2,4) unat_lt32 [of address] by (simp add: less_mult_imp_div_less)
  have none1: "entry_at (pmem ?s1) (unat address div 4194304) (unat address div 4096 mod 1024) = None"
    using e1 [OF d, of k] assms(2,3,5) by simp
  obtain r s' where p: "put_page (frame_addr i) address ?s1 = (r, s')" by fastforce
  have ex: "(ext(i := 1))(i := (ext(i := 1)) i - 1) = ext" using free(2) by auto
  have a4: "16 \<le> unat address div 4194304" using assms(2,4) by simp
  have a5: "frame_addr i < high_memory ?s1" "0 < (ext(i := 1)) i" using free(3) by simp_all
  from put_page_spec [OF inv1 a4 page(1) a5 none1 p, unfolded ex]
  consider (ok) "r = frame_addr i" "mm_inv ext s'"
      "\<forall>d'\<in>udirs. \<forall>k'<1024. entry_at (pmem s') d' k' =
         (if d' = d \<and> k' = k then Some (frame_addr i OR 7) else entry_at (pmem ?s1) d' k')"
    | (fail) "r = 0" "s' = ?s1" unfolding assms(2,3) by blast
  then show ?thesis
  proof cases
    case ok
    have "get_empty_page address s = Ret () s'"
      using page(1,4) p ok(1) by (simp add: get_empty_page_def Let_def)
    moreover have "mem_map s (MAP_NR (page_of (frame_addr i OR 7))) = 0" using page by simp
    moreover have "pmem s' a = 0" if "page_of a = page_of (frame_addr i OR 7)" for a
      using get_empty_page_zero [OF inv1 page(1) d [unfolded assms(2)], of a "frame_addr i"] that page(1) p by simp
    ultimately show ?thesis using ok(2,3) e1
      by (intro disjI2 exI [of _ s'] exI [of _ "frame_addr i OR 7"]) simp
  next
    case fail
    note aux = get_empty_page_aux [OF assms(1) page(1,2)]
    have "get_empty_page address s = Exit SIGSEGV (s\<lparr>mem_map := mem_map s, pmem := clear_page (frame_addr i) (pmem s)\<rparr>)"
      using page(1,4) p fail aux(1) by (simp add: get_empty_page_def Let_def oom_def)
    moreover have "free_frames s < (if present (pmem s (pde d)) then 1 else 2)"
      using get_empty_page_room [OF page(1) d [unfolded assms(2)] p [unfolded fail(1)]] unfolding assms(2) by simp
    moreover have "entry_at (clear_page (frame_addr i) (pmem s)) d' k' = entry_at (pmem s) d' k'" if "d' \<in> udirs" "k' < 1024" for d' k'
      using e1 [OF that] by simp
    ultimately show ?thesis using aux(2) by (intro disjI1) auto
  qed
qed

lemma one_page_room: "\<not> free_frames one_page_mm < (if present (pmem one_page_mm (4 * of_nat 16)) then 1 else 2)"
proof -
  have "0 \<in> {j. j < PAGING_PAGES \<and> mem_map one_page_mm j = 0}" by (simp add: one_page_mm_eq PAGING_PAGES_def)
  then have "0 < free_frames one_page_mm" unfolding free_frames_def by (auto simp: card_gt_0_iff)
  moreover have "present (pmem one_page_mm (4 * of_nat 16))" by (simp add: one_page_mm_eq)
  ultimately show ?thesis by simp
qed

theorem get_empty_page_correct_witness:
  "\<exists>s' e. get_empty_page 0x4001000 one_page_mm = Ret () s' \<and> mm_inv (\<lambda>_. 0) s' \<and>
       (\<forall>d'\<in>{16..<1024}. \<forall>k'<1024. entry_at (pmem s') d' k' =
          (if d' = 16 \<and> k' = 1 then Some e else entry_at (pmem one_page_mm) d' k')) \<and>
       writable e \<and> mem_map one_page_mm (MAP_NR (page_of e)) = 0 \<and> (\<forall>a. page_of a = page_of e \<longrightarrow> pmem s' a = 0)"
proof -
  have f: "\<not> free_frames one_page_mm < (if present (pmem one_page_mm (4 * of_nat 16)) then 1 else 2)"
    by (rule one_page_room)
  show ?thesis
    using get_empty_page_correct [OF mm_inv_one_page(1), where d = 16 and k = 1 and address = "0x4001000"] f by (simp add: mm_inv_one_page(2))
qed

end
