(* ===== verification/Malloc.thy ===== *)
theory Malloc
  imports Memory
begin

text \<open>
  The kernel's allocator (\<^verbatim>\<open>lib/malloc.c\<close>): pages of blocks of one size, a power of two, each page with a descriptor.

  Descriptors are in a store from addresses, as task structures are; the free blocks of a page are chained through
  their first long, in memory. \<open>fuel\<close> bounds the search of a chain of descriptors.
\<close>

section \<open>Descriptors\<close>

record bucket_desc =
  bd_page :: u32
  bd_next :: u32
  bd_freeptr :: u32
  bd_refcnt :: u16
  bd_size :: u16

text \<open>\<open>bucket_dir\<close>: the sizes, and the chain of each.\<close>

definition bucket_sizes :: "nat list" where
  "bucket_sizes = [16, 32, 64, 128, 256, 512, 1024, 2048, 4096]"

record malloc_state = mm_state +
  bdescs :: "u32 \<Rightarrow> bucket_desc"
  bucket_chain :: "nat \<Rightarrow> u32"
  free_bucket_desc :: u32

definition upd_bdesc :: "u32 \<Rightarrow> (bucket_desc \<Rightarrow> bucket_desc) \<Rightarrow> 'a malloc_state_scheme \<Rightarrow> 'a malloc_state_scheme" where
  "upd_bdesc b f s = s\<lparr>bdescs := (bdescs s)(b := f (bdescs s b))\<rparr>"

text \<open>The descriptors of a new page are linked to one another; the result is the last one.\<close>

fun link_descs :: "nat \<Rightarrow> u32 \<Rightarrow> 'a malloc_state_scheme \<Rightarrow> u32 \<times> 'a malloc_state_scheme" where
  "link_descs 0 b s = (b, s)"
| "link_descs (Suc n) b s = link_descs n (b + 16) (upd_bdesc b (\<lambda>d. d\<lparr>bd_next := b + 16\<rparr>) s)"

definition init_bucket_desc :: "'a malloc_state_scheme \<Rightarrow> ('a malloc_state_scheme, unit) outcome" where
  "init_bucket_desc s =
     (let (first, s) = get_free_page s in
      if first = 0 then Panic ''Out of memory in init_bucket_desc()'' s
      else let (b, s) = link_descs 255 first s;
               s = upd_bdesc b (\<lambda>d. d\<lparr>bd_next := free_bucket_desc s\<rparr>) s
           in Ret () (s\<lparr>free_bucket_desc := first\<rparr>))"

section \<open>malloc\<close>

definition find_bucket :: "nat \<Rightarrow> nat option" where
  "find_bucket len = find (\<lambda>d. len \<le> bucket_sizes ! d) [0..<length bucket_sizes]"

text \<open>The first descriptor of the chain with a free block, or 0.\<close>

fun find_desc :: "nat \<Rightarrow> (bucket_desc \<Rightarrow> bool) \<Rightarrow> u32 \<Rightarrow> 'a malloc_state_scheme \<Rightarrow> ('a malloc_state_scheme, u32) outcome" where
  "find_desc 0 P b s = Hang"
| "find_desc (Suc fuel) P b s =
     (if b = 0 \<or> P (bdescs s b) then Ret b s else find_desc fuel P (bd_next (bdescs s b)) s)"

text \<open>The blocks of a page, chained: \<open>n\<close> links from \<open>cp\<close>.\<close>

fun link_blocks :: "nat \<Rightarrow> u32 \<Rightarrow> u32 \<Rightarrow> (u32 \<Rightarrow> u32) \<Rightarrow> u32 \<Rightarrow> u32" where
  "link_blocks 0 sz cp m = m(cp := 0)"
| "link_blocks (Suc n) sz cp m = link_blocks n sz (cp + sz) (m(cp := cp + sz))"

definition new_bucket :: "nat \<Rightarrow> 'a malloc_state_scheme \<Rightarrow> ('a malloc_state_scheme, u32) outcome" where
  "new_bucket d s =
     andThen (if free_bucket_desc s = 0 then init_bucket_desc s else Ret () s) (\<lambda>_ s.
       let b = free_bucket_desc s; sz = bucket_sizes ! d;
           s = s\<lparr>free_bucket_desc := bd_next (bdescs s b)\<rparr>;
           (cp, s) = get_free_page s;
           s = upd_bdesc b (\<lambda>x. x\<lparr>bd_refcnt := 0, bd_size := of_nat sz, bd_page := cp, bd_freeptr := cp\<rparr>) s in
       if cp = 0 then Panic ''Out of memory in kernel malloc()'' s
       else let s = s\<lparr>pmem := link_blocks (4096 div sz - 1) (of_nat sz) cp (pmem s)\<rparr>;
                s = upd_bdesc b (\<lambda>x. x\<lparr>bd_next := bucket_chain s d\<rparr>) s
            in Ret b (s\<lparr>bucket_chain := (bucket_chain s)(d := b)\<rparr>))"

definition malloc :: "nat \<Rightarrow> u32 \<Rightarrow> 'a malloc_state_scheme \<Rightarrow> ('a malloc_state_scheme, u32) outcome" where
  "malloc fuel len s =
     (case find_bucket (unat len) of
        None \<Rightarrow> Panic ''malloc: bad arg'' s
      | Some d \<Rightarrow>
          andThen (find_desc fuel (\<lambda>x. bd_freeptr x \<noteq> 0) (bucket_chain s d) s) (\<lambda>b s.
          andThen (if b = 0 then new_bucket d s else Ret b s) (\<lambda>b s.
            let retval = bd_freeptr (bdescs s b) in
            Ret retval (upd_bdesc b (\<lambda>x. x\<lparr>bd_freeptr := pmem s retval, bd_refcnt := bd_refcnt x + 1\<rparr>) s))))"

section \<open>free\<close>

text \<open>The descriptor of a page in a chain, with the one before it (0 when it is the first).\<close>

fun find_page :: "nat \<Rightarrow> u32 \<Rightarrow> u32 \<Rightarrow> u32 \<Rightarrow> 'a malloc_state_scheme \<Rightarrow> ('a malloc_state_scheme, u32 \<times> u32) outcome" where
  "find_page 0 page prev b s = Hang"
| "find_page (Suc fuel) page prev b s =
     (if b = 0 \<or> bd_page (bdescs s b) = page then Ret (prev, b) s
      else find_page fuel page b (bd_next (bdescs s b)) s)"

text \<open>The chains from the \<open>d\<close>th on, those of sizes below \<open>sz\<close>, a C int, left out.\<close>

fun search_page :: "nat \<Rightarrow> nat list \<Rightarrow> int \<Rightarrow> u32 \<Rightarrow> 'a malloc_state_scheme \<Rightarrow> ('a malloc_state_scheme, nat \<times> u32 \<times> u32) outcome" where
  "search_page fuel [] sz page s = Panic ''Bad address passed to kernel free_s()'' s"
| "search_page fuel (d # ds) sz page s =
     (if int (bucket_sizes ! d) < sz then search_page fuel ds sz page s
      else andThen (find_page fuel page 0 (bucket_chain s d) s) (\<lambda>(prev, b) s.
        if b \<noteq> 0 then Ret (d, prev, b) s else search_page fuel ds sz page s))"

text \<open>The empty page goes back. \<open>prev\<close> is looked for again when it is not accurate.\<close>

definition drop_bucket :: "nat \<Rightarrow> nat \<Rightarrow> u32 \<Rightarrow> u32 \<Rightarrow> 'a malloc_state_scheme \<Rightarrow> ('a malloc_state_scheme, unit) outcome" where
  "drop_bucket fuel d prev b s =
     andThen
       (if prev \<noteq> 0 \<and> bd_next (bdescs s prev) \<noteq> b \<or> prev = 0 \<and> bucket_chain s d \<noteq> b
        then find_desc fuel (\<lambda>x. bd_next x = b) (bucket_chain s d) s else Ret prev s)
       (\<lambda>prev s.
         andThen
           (if prev \<noteq> 0 then Ret () (upd_bdesc prev (\<lambda>x. x\<lparr>bd_next := bd_next (bdescs s b)\<rparr>) s)
            else if bucket_chain s d \<noteq> b then Panic ''malloc bucket chains corrupted'' s
            else Ret () (s\<lparr>bucket_chain := (bucket_chain s)(d := bd_next (bdescs s b))\<rparr>))
           (\<lambda>_ s. andThen (free_page (bd_page (bdescs s b)) s) (\<lambda>_ s.
             let s = upd_bdesc b (\<lambda>x. x\<lparr>bd_next := free_bucket_desc s\<rparr>) s
             in Ret () (s\<lparr>free_bucket_desc := b\<rparr>))))"

definition free_s :: "nat \<Rightarrow> u32 \<Rightarrow> int \<Rightarrow> 'a malloc_state_scheme \<Rightarrow> ('a malloc_state_scheme, unit) outcome" where
  "free_s fuel obj sz s =
     andThen (search_page fuel [0..<length bucket_sizes] sz (obj AND 0xfffff000) s) (\<lambda>(d, prev, b) s.
       let s = s\<lparr>pmem := (pmem s)(obj := bd_freeptr (bdescs s b))\<rparr>;
           s = upd_bdesc b (\<lambda>x. x\<lparr>bd_freeptr := obj, bd_refcnt := bd_refcnt x - 1\<rparr>) s in
       if bd_refcnt (bdescs s b) = 0 then drop_bucket fuel d prev b s else Ret () s)"

end
