(* ===== verification/Chains.thy ===== *)
theory Chains
  imports Main
begin

text \<open>
  Linked structures in a table: the entries reached through a pointer field, as a list.
\<close>

section \<open>Lists that end in NULL\<close>

fun linked :: "('b \<Rightarrow> 'b option) \<Rightarrow> 'b option \<Rightarrow> 'b list \<Rightarrow> bool" where
  "linked nx p [] \<longleftrightarrow> p = None"
| "linked nx p (x # xs) \<longleftrightarrow> p = Some x \<and> linked nx (nx x) xs"

lemma linked_None [simp]: "linked nx None xs \<longleftrightarrow> xs = []"
  by (cases xs) auto

lemma linked_Some: "linked nx (Some x) xs \<longleftrightarrow> (\<exists>ys. xs = x # ys \<and> linked nx (nx x) ys)"
  by (cases xs) auto

lemma linked_cong: "(\<And>x. x \<in> set xs \<Longrightarrow> nx x = nx' x) \<Longrightarrow> linked nx p xs \<longleftrightarrow> linked nx' p xs"
  by (induction xs arbitrary: p) auto

lemma linked_upd [simp]: "z \<notin> set xs \<Longrightarrow> linked (nx(z := q)) p xs \<longleftrightarrow> linked nx p xs"
  by (rule linked_cong) auto

lemma linked_unique: "linked nx p xs \<Longrightarrow> linked nx p ys \<Longrightarrow> xs = ys"
  by (induction xs arbitrary: p ys) (auto simp: linked_Some)

lemma linked_append:
  "linked nx p (xs @ ys) \<longleftrightarrow>
     (if xs = [] then linked nx p ys
      else linked (nx(last xs := None)) p xs \<and> linked nx (nx (last xs)) ys)" if "distinct xs"
  using that by (induction xs arbitrary: p) auto

text \<open>Linking \<open>r\<close> in behind \<open>t\<close>.\<close>

lemma linked_insert:
  assumes "linked nx p (ys @ t # zs)" and "r \<notin> set (ys @ t # zs)" and "distinct (ys @ t # zs)"
  shows "linked (nx(r := nx t, t := Some r)) p (ys @ t # r # zs)"
  using assms by (induction ys arbitrary: p) auto

lemma linked_tl_distinct: "linked nx p (x # xs) \<Longrightarrow> x \<notin> set xs"
proof
  assume l: "linked nx p (x # xs)" and "x \<in> set xs"
  then obtain ys zs where xs: "xs = ys @ x # zs" by (auto simp: in_set_conv_decomp)
  have tail: "linked nx q (us @ x # vs) \<Longrightarrow> linked nx (Some x) (x # vs)" for q us vs
    by (induction us arbitrary: q) auto
  have "linked nx (nx x) (ys @ x # zs)" "linked nx (nx x) zs" using l xs tail [of "nx x" ys zs] by auto
  then have "ys @ x # zs = zs" by (rule linked_unique)
  then have "length (ys @ x # zs) = length zs" by metis
  then show False by simp
qed

lemma linked_distinct: "linked nx p xs \<Longrightarrow> distinct xs"
proof (induction xs arbitrary: p)
  case (Cons x xs)
  then show ?case using linked_tl_distinct [OF Cons.prems] by auto
qed simp

section \<open>Doubly linked segments\<close>

text \<open>
  \<open>dseg nx pv q p xs q' p'\<close>: from \<open>p\<close>, with \<open>q\<close> before it, the entries \<open>xs\<close> follow one another; the last one
  (or \<open>q\<close>) is \<open>q'\<close> and what follows it is \<open>p'\<close>. A list has \<open>None\<close> at both ends, a ring its own last and
  first entry.
\<close>

fun dseg ::
  "(nat \<Rightarrow> nat option) \<Rightarrow> (nat \<Rightarrow> nat option) \<Rightarrow> nat option \<Rightarrow> nat option \<Rightarrow> nat list \<Rightarrow> nat option \<Rightarrow> nat option \<Rightarrow> bool" where
  "dseg nx pv q p [] q' p' \<longleftrightarrow> q = q' \<and> p = p'"
| "dseg nx pv q p (x # xs) q' p' \<longleftrightarrow> p = Some x \<and> pv x = q \<and> dseg nx pv (Some x) (nx x) xs q' p'"

lemma dseg_append: "dseg nx pv q p (xs @ ys) q' p' \<longleftrightarrow> (\<exists>r m. dseg nx pv q p xs r m \<and> dseg nx pv r m ys q' p')"
  by (induction xs arbitrary: q p) auto

lemma dseg_cong:
  "(\<And>x. x \<in> set xs \<Longrightarrow> nx x = nx' x \<and> pv x = pv' x) \<Longrightarrow> dseg nx pv q p xs q' p' \<longleftrightarrow> dseg nx' pv' q p xs q' p'"
  by (induction xs arbitrary: q p) auto

lemma dseg_frame [simp]:
  "z \<notin> set xs \<Longrightarrow> dseg (nx(z := v)) pv q p xs q' p' \<longleftrightarrow> dseg nx pv q p xs q' p'"
  "z \<notin> set xs \<Longrightarrow> dseg nx (pv(z := v)) q p xs q' p' \<longleftrightarrow> dseg nx pv q p xs q' p'"
  by (auto intro!: dseg_cong)

lemma dseg_last: "dseg nx pv q p xs q' p' \<Longrightarrow> q' = (if xs = [] then q else Some (last xs))"
  by (induction xs arbitrary: q p) auto

lemma dseg_hd: "dseg nx pv q p xs q' p' \<Longrightarrow> p = (if xs = [] then p' else Some (hd xs))"
  by (cases xs) auto

lemma dseg_head_in: "dseg nx pv q p xs q' None \<Longrightarrow> p = Some y \<Longrightarrow> y \<in> set xs"
  by (cases xs) auto

lemma dseg_linked: "dseg nx pv q p xs q' None \<Longrightarrow> linked nx p xs"
  by (induction xs arbitrary: q p) auto

text \<open>Moving the two ends.\<close>

lemma dseg_new_end:
  "dseg nx pv q p xs q' p' \<Longrightarrow> distinct xs \<Longrightarrow> xs \<noteq> [] \<Longrightarrow> dseg (nx(last xs := m)) pv q p xs q' m"
  by (induction xs arbitrary: q p) auto

lemma dseg_new_start:
  "dseg nx pv q p xs q' p' \<Longrightarrow> distinct xs \<Longrightarrow> xs \<noteq> [] \<Longrightarrow> dseg nx (pv(hd xs := r)) r p xs q' p'"
  by (cases xs) (auto simp del: fun_upd_apply simp: fun_upd_same)

text \<open>Writing through a pointer that may be NULL.\<close>

definition at :: "nat option \<Rightarrow> nat option \<Rightarrow> (nat \<Rightarrow> nat option) \<Rightarrow> nat \<Rightarrow> nat option" where
  "at p v f = (case p of None \<Rightarrow> f | Some x \<Rightarrow> f(x := v))"

lemma at_simps [simp]: "at None v f = f" "at (Some x) v f = f(x := v)"
  by (simp_all add: at_def)

lemma at_frame:
  "(\<And>y. r = Some y \<Longrightarrow> y \<notin> set xs) \<Longrightarrow> dseg (at r v nx) pv q p xs q' p' \<longleftrightarrow> dseg nx pv q p xs q' p'"
  "(\<And>y. r = Some y \<Longrightarrow> y \<notin> set xs) \<Longrightarrow> dseg nx (at r v pv) q p xs q' p' \<longleftrightarrow> dseg nx pv q p xs q' p'"
  by (cases r; simp)+

lemma dseg_neighbours:
  assumes "dseg nx pv None p xs q' None" and "x \<in> set xs"
  shows "nx x = Some y \<Longrightarrow> y \<in> set xs" and "pv x = Some y \<Longrightarrow> y \<in> set xs"
proof -
  obtain ys zs where xs: "xs = ys @ x # zs" using assms(2) by (auto simp: in_set_conv_decomp)
  from assms(1) obtain r where y: "dseg nx pv None p ys r (Some x)" and r: "pv x = r"
    and z: "dseg nx pv (Some x) (nx x) zs q' None" by (auto simp: dseg_append xs)
  show "nx x = Some y \<Longrightarrow> y \<in> set xs" using dseg_hd [OF z] by (auto simp: xs split: if_splits)
  show "pv x = Some y \<Longrightarrow> y \<in> set xs" using dseg_last [OF y] r by (auto simp: xs split: if_splits)
qed

text \<open>Unlinking an entry of a list: the entry before it and the entry after it are joined.\<close>

lemma dseg_unlink:
  assumes d: "dseg nx pv None p (ys @ x # zs) q' None" and "distinct (ys @ x # zs)"
  shows "\<exists>q''. dseg (at (pv x) (nx x) nx) (at (nx x) (pv x) pv) None (if ys = [] then nx x else p) (ys @ zs) q'' None"
proof -
  from d obtain r where y: "dseg nx pv None p ys r (Some x)" and r: "pv x = r"
    and z: "dseg nx pv (Some x) (nx x) zs q' None" by (auto simp: dseg_append)
  have rr: "r = (if ys = [] then None else Some (last ys))" using dseg_last [OF y] .
  have nn: "nx x = (if zs = [] then None else Some (hd zs))" using dseg_hd [OF z] by simp
  have y': "dseg (at r (nx x) nx) pv None (if ys = [] then nx x else p) ys r (nx x)"
    using dseg_new_end [OF y, of "nx x"] assms(2) rr by auto
  have y'': "dseg (at r (nx x) nx) (at (nx x) r pv) None (if ys = [] then nx x else p) ys r (nx x)"
    using y' assms(2) nn by (cases zs) auto
  have z': "\<exists>q''. dseg nx (at (nx x) r pv) r (nx x) zs q'' None"
    using dseg_new_start [OF z, of r] assms(2) nn by (cases "zs = []") auto
  have "last ys \<notin> set zs" if "ys \<noteq> []" using assms(2) last_in_set [OF that] by auto
  then have "\<exists>q''. dseg (at r (nx x) nx) (at (nx x) r pv) r (nx x) zs q'' None"
    using z' rr by auto
  then show ?thesis using y'' unfolding r dseg_append by blast
qed

section \<open>Rings\<close>

definition ring :: "(nat \<Rightarrow> nat option) \<Rightarrow> (nat \<Rightarrow> nat option) \<Rightarrow> nat list \<Rightarrow> bool" where
  "ring nx pv xs \<longleftrightarrow> xs \<noteq> [] \<and> distinct xs \<and>
     dseg nx pv (Some (last xs)) (Some (hd xs)) xs (Some (last xs)) (Some (hd xs))"

lemma ring_frame [simp]:
  "z \<notin> set xs \<Longrightarrow> ring (nx(z := v)) pv xs \<longleftrightarrow> ring nx pv xs"
  "z \<notin> set xs \<Longrightarrow> ring nx (pv(z := v)) xs \<longleftrightarrow> ring nx pv xs"
  by (simp_all add: ring_def)

lemma ring_unlink:
  assumes "ring nx pv (ys @ x # zs)" and "ys @ zs \<noteq> []"
  shows "\<exists>p n. pv x = Some p \<and> nx x = Some n \<and> p \<noteq> x \<and> n \<noteq> x \<and> n = hd (zs @ ys) \<and>
    ring (nx(p := nx x)) (pv(n := pv x)) (ys @ zs)"
proof -
  let ?l = "last (ys @ x # zs)" and ?f = "hd (ys @ x # zs)"
  have dist: "distinct (ys @ x # zs)" using assms(1) by (simp add: ring_def)
  from assms(1) obtain r where y: "dseg nx pv (Some ?l) (Some ?f) ys r (Some x)" and r: "pv x = r"
    and z: "dseg nx pv (Some x) (nx x) zs (Some ?l) (Some ?f)" by (auto simp: ring_def dseg_append)
  have rr: "r = Some (if ys = [] then ?l else last ys)" using dseg_last [OF y] by auto
  have nn: "nx x = Some (if zs = [] then ?f else hd zs)" using dseg_hd [OF z] by auto
  define p where "p = last (zs @ ys)"
  define n where "n = hd (zs @ ys)"
  have p: "pv x = Some p" using rr r assms(2) by (auto simp: p_def)
  have n: "nx x = Some n" using nn assms(2) by (auto simp: n_def hd_append)
  have in_p: "p \<in> set ys \<union> set zs" and in_n: "n \<in> set ys \<union> set zs"
    using assms(2) last_in_set [of "zs @ ys"] hd_in_set [of "zs @ ys"] by (auto simp: p_def n_def)
  have "ring (nx(p := nx x)) (pv(n := pv x)) (ys @ zs)"
  proof (cases "ys = []")
    case True
    then have zs: "zs \<noteq> []" "p = last zs" "n = hd zs" using assms(2) by (simp_all add: p_def n_def)
    have "dseg nx (pv(n := Some p)) (Some p) (Some n) zs (Some p) (Some x)"
      using dseg_new_start [OF z, of "Some p"] dist zs n True by simp
    then have "dseg (nx(p := Some n)) (pv(n := Some p)) (Some p) (Some n) zs (Some p) (Some n)"
      using dseg_new_end [where m = "Some n" and xs = zs] dist zs True by (metis distinct.simps(2) append_Nil)
    then show ?thesis using True zs dist n p by (simp add: ring_def)
  next
    case ys: False
    show ?thesis
    proof (cases "zs = []")
      case True
      then have e: "p = last ys" "n = hd ys" using ys by (simp_all add: p_def n_def)
      have "dseg (nx(p := Some n)) pv (Some x) (Some n) ys (Some p) (Some n)"
        using dseg_new_end [OF y, of "Some n"] dist ys e rr True by simp
      then have "dseg (nx(p := Some n)) (pv(n := Some p)) (Some p) (Some n) ys (Some p) (Some n)"
        using dseg_new_start [where r = "Some p" and xs = ys] dist ys e True by (metis distinct_append)
      then show ?thesis using True ys dist n p e by (simp add: ring_def)
    next
      case zs: False
      have e: "p = last ys" "n = hd zs" using ys zs by (simp_all add: p_def n_def)
      have ny: "n \<notin> set ys" and pz: "p \<notin> set zs"
        using dist last_in_set [OF ys] hd_in_set [OF zs] unfolding e by (simp_all add: disjoint_iff) blast
      have "dseg (nx(p := Some n)) pv (Some (last zs)) (Some (hd ys)) ys (Some p) (Some n)"
        using dseg_new_end [OF y, of "Some n"] dist ys zs e rr by simp
      moreover have "dseg nx (pv(n := Some p)) (Some p) (Some n) zs (Some (last zs)) (Some (hd ys))"
        using dseg_new_start [OF z, of "Some p"] dist ys zs e n by simp
      ultimately show ?thesis using ys zs dist ny pz n p by (auto simp: ring_def dseg_append)
    qed
  qed
  then show ?thesis using p n in_p in_n dist n_def by auto
qed

lemma ring_append:
  assumes "ring nx pv xs" and "x \<notin> set xs"
  shows "pv (hd xs) = Some (last xs)"
    and "ring (nx(x := Some (hd xs), last xs := Some x)) (pv(x := Some (last xs), hd xs := Some x)) (xs @ [x])"
proof -
  let ?nx = "nx(x := Some (hd xs), last xs := Some x)" and ?pv = "pv(x := Some (last xs), hd xs := Some x)"
  have xs: "xs \<noteq> []" "distinct xs" and d: "dseg nx pv (Some (last xs)) (Some (hd xs)) xs (Some (last xs)) (Some (hd xs))"
    using assms(1) by (simp_all add: ring_def)
  show "pv (hd xs) = Some (last xs)" using d xs by (cases xs) auto
  have "dseg (nx(x := Some (hd xs))) (pv(x := Some (last xs))) (Some (last xs)) (Some (hd xs)) xs (Some (last xs)) (Some (hd xs))"
    using d assms(2) by simp
  then have "dseg ?nx (pv(x := Some (last xs))) (Some (last xs)) (Some (hd xs)) xs (Some (last xs)) (Some x)"
    using xs by (rule_tac dseg_new_end)
  then have "dseg ?nx ?pv (Some x) (Some (hd xs)) xs (Some (last xs)) (Some x)"
    using xs by (rule_tac dseg_new_start)
  moreover have "last xs \<noteq> x" "hd xs \<noteq> x" using assms(2) xs by auto
  ultimately show "ring ?nx ?pv (xs @ [x])" using xs assms(2) by (auto simp: ring_def dseg_append)
qed

end
