(* ===== verification/Malloc_Properties.thy ===== *)
theory Malloc_Properties
  imports Malloc Chains Memory_Sharing
begin

text \<open>
  The allocator against its contract: a block that \<open>malloc\<close> hands out is aligned, big enough and apart from every
  block in use, and \<open>free_s\<close> takes back that block and no other.
\<close>

section \<open>Chains through words\<close>

definition ptr :: "u32 \<Rightarrow> u32 option" where
  "ptr x = (if x = 0 then None else Some x)"

lemma ptr_simps [simp]: "ptr 0 = None" "x \<noteq> 0 \<Longrightarrow> ptr x = Some x" "ptr x = None \<longleftrightarrow> x = 0" "ptr x = Some y \<longleftrightarrow> x = y \<and> y \<noteq> 0"
  by (auto simp: ptr_def)

lemma linked_nonzero: "linked (\<lambda>x. ptr (f x)) (ptr p) xs \<Longrightarrow> 0 \<notin> set xs"
  by (induction xs arbitrary: p) auto

lemma linked_ptr_Nil: "linked (\<lambda>x. ptr (f x)) (ptr p) xs \<Longrightarrow> xs = [] \<longleftrightarrow> p = 0"
  by (cases xs) auto

text \<open>Addresses at a fixed distance.\<close>

definition steps :: "u32 \<Rightarrow> nat \<Rightarrow> nat \<Rightarrow> u32 list" where
  "steps b st n = map (\<lambda>k. b + of_nat (k * st)) [0..<n]"

lemma steps_Suc: "steps b st (Suc n) = b # steps (b + of_nat st) st n"
proof -
  have "[0..<Suc n] = 0 # map Suc [0..<n]" by (simp add: map_Suc_upt upt_conv_Cons)
  then show ?thesis by (simp add: steps_def comp_def algebra_simps)
qed

lemma steps_0 [simp]: "steps b st 0 = []"
  by (simp add: steps_def)

lemma steps_unat:
  assumes "n * st \<le> 4096" and "i < PAGING_PAGES" and "k < n" and "0 < st"
  shows "unat (frame_addr i + of_nat (k * st)) = unat (frame_addr i) + k * st"
proof -
  have "k * st < 4096" using assms mult_strict_right_mono [of k n st] by linarith
  then show ?thesis
    using unat_frame_addr [OF assms(2)] assms(2) unat_add_lem [of "frame_addr i" "of_nat (k * st)"] unat_of_nat_u32 [of "k * st"]
    by (simp add: PAGING_PAGES_def)
qed

lemma steps_distinct:
  assumes "n * st \<le> 4096" and "i < PAGING_PAGES" and "0 < st"
  shows "distinct (steps (frame_addr i) st n)"
proof -
  have *: "j = k" if "j < n" "k < n" "frame_addr i + of_nat (j * st) = frame_addr i + of_nat (k * st)" for j k
  proof -
    have "unat (frame_addr i) + j * st = unat (frame_addr i) + k * st"
      using steps_unat [OF assms(1,2) that(1) assms(3)] steps_unat [OF assms(1,2) that(2) assms(3)] that(3) by argo
    then have "j * st = k * st" by (rule add_left_imp_eq)
    then show ?thesis using assms(3) by simp
  qed
  show ?thesis unfolding steps_def distinct_map inj_on_def using * by (metis atLeastLessThan_iff distinct_upt set_upt)
qed

lemma steps_page:
  assumes "n * st \<le> 4096" and "i < PAGING_PAGES" and "0 < st" and "x \<in> set (steps (frame_addr i) st n)"
  shows "page_of x = frame_addr i" and "x \<noteq> 0"
proof -
  obtain k where k: "k < n" "x = frame_addr i + of_nat (k * st)" using assms(4) by (auto simp: steps_def)
  have u: "unat x = unat (frame_addr i) + k * st" using steps_unat [OF assms(1,2) k(1) assms(3)] k(2) by simp
  have "k * st < 4096" using assms k(1) mult_strict_right_mono [of k n st] by linarith
  moreover have "unat x = (i + 256) * 4096 + k * st" using u unat_frame_addr [OF assms(2)] by simp
  ultimately have "unat x div 4096 = i + 256" by simp
  then have "unat (page_of x) = unat (frame_addr i)"
    using unat_frame_addr [OF assms(2)] by (simp only: unat_page_of) simp
  then show "page_of x = frame_addr i" by (simp only: word_unat_eq_iff)
  show "x \<noteq> 0" using u unat_frame_addr [OF assms(2)] by auto
qed

lemma linked_steps:
  assumes "linked nx (ptr q) xs" and "distinct (steps b st (Suc n))" and "0 \<notin> set (steps b st (Suc n))"
    and "set (steps b st (Suc n)) \<inter> set xs = {}"
    and "\<And>x. x \<in> set xs \<Longrightarrow> nx' x = nx x"
    and "\<And>k. k < n \<Longrightarrow> nx' (b + of_nat (k * st)) = ptr (b + of_nat (Suc k * st))"
    and "nx' (b + of_nat (n * st)) = ptr q"
  shows "linked nx' (ptr b) (steps b st (Suc n) @ xs)"
  using assms(2-4,6,7)
proof (induction n arbitrary: b)
  case 0
  then show ?case using linked_cong [of xs nx nx' "ptr q"] assms(1,5) by (simp add: steps_Suc)
next
  case (Suc n)
  let ?c = "b + of_nat st"
  have st: "steps b st (Suc (Suc n)) = b # steps ?c st (Suc n)" by (rule steps_Suc)
  have sh: "?c + of_nat (k * st) = b + of_nat (Suc k * st)" for k by (simp add: algebra_simps)
  have "linked nx' (ptr ?c) (steps ?c st (Suc n) @ xs)"
  proof (rule Suc.IH)
    show "nx' (?c + of_nat (k * st)) = ptr (?c + of_nat (Suc k * st))" if "k < n" for k
      unfolding sh using Suc.prems(4) [of "Suc k"] that by simp
    show "nx' (?c + of_nat (n * st)) = ptr q" unfolding sh by (rule Suc.prems(5))
  qed (use Suc.prems(1-3) st in auto)
  moreover have "nx' b = ptr ?c" using Suc.prems(4) [of 0] by simp
  moreover have "ptr b = Some b" using Suc.prems(2) st by (auto simp: ptr_def)
  ultimately show ?case unfolding st by simp
qed

section \<open>The heap\<close>

abbreviation (input) bsize :: "nat \<Rightarrow> nat" where "bsize d \<equiv> bucket_sizes ! d"
abbreviation (input) bcount :: "nat \<Rightarrow> nat" where "bcount d \<equiv> 4096 div bucket_sizes ! d"

lemma bsize_facts:
  assumes "d < 9"
  shows "16 \<le> bsize d \<and> bsize d \<le> 4096 \<and> bcount d * bsize d = 4096 \<and> 0 < bcount d \<and> bcount d \<le> 256"
proof -
  have "d \<in> set [0, 1, 2, 3, 4, 5, 6, 7, 8]" using assms by auto
  then show ?thesis unfolding list.set insert_iff empty_iff by (elim disjE) (simp_all add: bucket_sizes_def)
qed

abbreviation desc_next :: "'a malloc_state_scheme \<Rightarrow> u32 \<Rightarrow> u32 option" where
  "desc_next s \<equiv> (\<lambda>b. ptr (bd_next (bdescs s b)))"

abbreviation page_at :: "'a malloc_state_scheme \<Rightarrow> u32 \<Rightarrow> u32" where
  "page_at s b \<equiv> bd_page (bdescs s b)"

definition blocks :: "nat \<Rightarrow> u32 \<Rightarrow> u32 list" where
  "blocks d p = steps p (bsize d) (bcount d)"

text \<open>A frame in use that \<open>free_page\<close> can take back.\<close>

definition held :: "'a mm_state_scheme \<Rightarrow> u32 \<Rightarrow> bool" where
  "held s p \<longleftrightarrow> (\<exists>i<PAGING_PAGES. p = frame_addr i \<and> mem_map s i \<noteq> 0 \<and> frame_addr i < high_memory s)"

text \<open>A descriptor of size \<open>d\<close> with the free blocks \<open>xs\<close>.\<close>

definition bucket_ok :: "'a malloc_state_scheme \<Rightarrow> nat \<Rightarrow> u32 \<Rightarrow> u32 list \<Rightarrow> bool" where
  "bucket_ok s d b xs \<longleftrightarrow>
     held s (page_at s b) \<and> bd_size (bdescs s b) = of_nat (bsize d) \<and>
     linked (\<lambda>x. ptr (pmem s x)) (ptr (bd_freeptr (bdescs s b))) xs \<and> set xs \<subseteq> set (blocks d (page_at s b)) \<and>
     unat (bd_refcnt (bdescs s b)) + length xs = bcount d"

text \<open>The chains \<open>bs\<close> of the nine sizes, the chain \<open>fs\<close> of unused descriptors and the free blocks \<open>F\<close> of each descriptor.\<close>

definition chained :: "(nat \<Rightarrow> u32 list) \<Rightarrow> u32 set" where
  "chained bs = (\<Union>d<9. set (bs d))"

definition heap_ok :: "'a malloc_state_scheme \<Rightarrow> (nat \<Rightarrow> u32 list) \<Rightarrow> u32 list \<Rightarrow> (u32 \<Rightarrow> u32 list) \<Rightarrow> bool" where
  "heap_ok s bs fs F \<longleftrightarrow>
     (\<forall>d<9. linked (desc_next s) (ptr (bucket_chain s d)) (bs d)) \<and>
     (\<forall>d<9. \<forall>e<9. d \<noteq> e \<longrightarrow> set (bs d) \<inter> set (bs e) = {}) \<and>
     linked (desc_next s) (ptr (free_bucket_desc s)) fs \<and> set fs \<inter> chained bs = {} \<and>
     (\<forall>d<9. \<forall>b\<in>set (bs d). bucket_ok s d b (F b)) \<and>
     inj_on (page_at s) (chained bs) \<and>
     (\<forall>b\<in>chained bs \<union> set fs. held s (page_of b) \<and> (\<forall>c\<in>chained bs. page_at s c \<noteq> page_of b)) \<and>
     (\<forall>i<PAGING_PAGES. high_memory s \<le> frame_addr i \<longrightarrow> mem_map s i \<noteq> 0)"

text \<open>The blocks in use, with their sizes.\<close>

definition allocated :: "'a malloc_state_scheme \<Rightarrow> (nat \<Rightarrow> u32 list) \<Rightarrow> (u32 \<Rightarrow> u32 list) \<Rightarrow> (u32 \<times> nat) set" where
  "allocated s bs F = (\<Union>d<9. \<Union>b\<in>set (bs d). (\<lambda>x. (x, bsize d)) ` (set (blocks d (page_at s b)) - set (F b)))"

lemma chainedI [intro]: "b \<in> set (bs d) \<Longrightarrow> d < 9 \<Longrightarrow> b \<in> chained bs"
  by (auto simp: chained_def)

lemma heap_okD:
  assumes "heap_ok s bs fs F"
  shows "d < 9 \<Longrightarrow> linked (desc_next s) (ptr (bucket_chain s d)) (bs d)"
    and "d < 9 \<Longrightarrow> e < 9 \<Longrightarrow> b \<in> set (bs d) \<Longrightarrow> b \<in> set (bs e) \<Longrightarrow> d = e"
    and "linked (desc_next s) (ptr (free_bucket_desc s)) fs" and "set fs \<inter> chained bs = {}"
    and "d < 9 \<Longrightarrow> b \<in> set (bs d) \<Longrightarrow> bucket_ok s d b (F b)"
    and "inj_on (page_at s) (chained bs)"
    and "b \<in> chained bs \<union> set fs \<Longrightarrow> held s (page_of b)"
    and "b \<in> chained bs \<union> set fs \<Longrightarrow> c \<in> chained bs \<Longrightarrow> page_at s c \<noteq> page_of b"
    and "i < PAGING_PAGES \<Longrightarrow> high_memory s \<le> frame_addr i \<Longrightarrow> mem_map s i \<noteq> 0"
    and "b \<in> chained bs \<Longrightarrow> held s (page_at s b)"
proof -
  note h = assms [unfolded heap_ok_def]
  show "d < 9 \<Longrightarrow> linked (desc_next s) (ptr (bucket_chain s d)) (bs d)"
    "linked (desc_next s) (ptr (free_bucket_desc s)) fs" "set fs \<inter> chained bs = {}" "inj_on (page_at s) (chained bs)"
    "i < PAGING_PAGES \<Longrightarrow> high_memory s \<le> frame_addr i \<Longrightarrow> mem_map s i \<noteq> 0"
    "d < 9 \<Longrightarrow> b \<in> set (bs d) \<Longrightarrow> bucket_ok s d b (F b)"
    "b \<in> chained bs \<union> set fs \<Longrightarrow> held s (page_of b)"
    using h by simp_all
  show "b \<in> chained bs \<union> set fs \<Longrightarrow> c \<in> chained bs \<Longrightarrow> page_at s c \<noteq> page_of b" using h by meson
  have "\<forall>d<9. \<forall>e<9. d \<noteq> e \<longrightarrow> set (bs d) \<inter> set (bs e) = {}" using h by simp
  then show "d < 9 \<Longrightarrow> e < 9 \<Longrightarrow> b \<in> set (bs d) \<Longrightarrow> b \<in> set (bs e) \<Longrightarrow> d = e" by blast
  have "\<forall>d<9. \<forall>b\<in>set (bs d). bucket_ok s d b (F b)" using h by simp
  then show "b \<in> chained bs \<Longrightarrow> held s (page_at s b)" by (auto simp: chained_def bucket_ok_def)
qed

lemma blocks_facts:
  assumes "held s p" and "d < 9"
  shows "x \<in> set (blocks d p) \<Longrightarrow> page_of x = p" and "x \<in> set (blocks d p) \<Longrightarrow> x \<noteq> 0" and "distinct (blocks d p)"
    and "x \<in> set (blocks d p) \<Longrightarrow> \<exists>k<bcount d. unat x = unat p + k * bsize d" and "length (blocks d p) = bcount d"
proof -
  obtain i where i: "i < PAGING_PAGES" "p = frame_addr i" using assms(1) by (auto simp: held_def)
  have b: "bcount d * bsize d \<le> 4096" "0 < bsize d" using bsize_facts [OF assms(2)] by linarith+
  show "x \<in> set (blocks d p) \<Longrightarrow> page_of x = p" "x \<in> set (blocks d p) \<Longrightarrow> x \<noteq> 0" "distinct (blocks d p)"
    using steps_page [OF b(1) i(1) b(2)] steps_distinct [OF b(1) i(1) b(2)] by (simp_all add: blocks_def i(2))
  show "x \<in> set (blocks d p) \<Longrightarrow> \<exists>k<bcount d. unat x = unat p + k * bsize d"
    using steps_unat [OF b(1) i(1) _ b(2)] by (auto simp: blocks_def steps_def i(2) simp del: of_nat_mult)
  show "length (blocks d p) = bcount d" by (simp add: blocks_def steps_def)
qed

section \<open>Blocks are apart\<close>

definition range_of :: "u32 \<Rightarrow> nat \<Rightarrow> u32 set" where
  "range_of x n = {a. unat x \<le> unat a \<and> unat a < unat x + n}"

lemma block_range_page:
  assumes "held s p" and "d < 9" and "x \<in> set (blocks d p)" and "a \<in> range_of x (bsize d)"
  shows "page_of a = p"
proof -
  obtain i where i: "i < PAGING_PAGES" "p = frame_addr i" using assms(1) by (auto simp: held_def)
  obtain k where k: "k < bcount d" "unat x = unat p + k * bsize d" using blocks_facts(4) [OF assms(1-3)] by auto
  have "k * bsize d + bsize d \<le> bcount d * bsize d" using k(1) by (metis Suc_leI add.commute mult_Suc mult_le_mono1)
  then have "k * bsize d + bsize d \<le> 4096" using bsize_facts [OF assms(2)] by linarith
  then have "unat p \<le> unat a" "unat a < unat p + 4096" using assms(4) k(2) by (auto simp: range_of_def)
  moreover have "unat p = (i + 256) * 4096" using unat_frame_addr [OF i(1)] i(2) by simp
  ultimately have "unat a div 4096 = i + 256" by (intro div_nat_eqI) simp_all
  then have "unat a div 4096 * 4096 = unat p" using unat_frame_addr [OF i(1)] i(2) by simp
  then show ?thesis by (simp only: word_unat_eq_iff unat_page_of)
qed

lemma blocks_apart:
  assumes ok: "heap_ok s bs fs F" and b: "d < 9" "b \<in> set (bs d)" "x \<in> set (blocks d (page_at s b))"
    and c: "e < 9" "c \<in> set (bs e)" "y \<in> set (blocks e (page_at s c))" and ne: "(b, x) \<noteq> (c, y)"
  shows "range_of x (bsize d) \<inter> range_of y (bsize e) = {}"
proof (cases "b = c")
  case False
  have h: "held s (page_at s b)" "held s (page_at s c)" using heap_okD(10) [OF ok] b c by blast+
  have "page_at s b \<noteq> page_at s c" using heap_okD(6) [OF ok] False b c by (auto simp: inj_on_def)
  then show ?thesis using block_range_page [OF h(1) b(1,3)] block_range_page [OF h(2) c(1,3)] by (metis disjoint_iff)
next
  case True
  then have e: "e = d" "x \<noteq> y" using heap_okD(2) [OF ok b(1) c(1)] b(2) c(2) ne by auto
  have h: "held s (page_at s b)" using heap_okD(10) [OF ok] b by blast
  obtain k where k: "unat x = unat (page_at s b) + k * bsize d" using blocks_facts(4) [OF h b(1,3)] by auto
  obtain j where j: "unat y = unat (page_at s b) + j * bsize d" using blocks_facts(4) [OF h b(1)] c(3) e(1) True by auto
  have "j \<noteq> k" using e(2) k j by (auto simp: word_unat_eq_iff)
  then consider "Suc j \<le> k" | "Suc k \<le> j" by linarith
  then have "j * bsize d + bsize d \<le> k * bsize d \<or> k * bsize d + bsize d \<le> j * bsize d"
    by cases (metis mult_Suc add.commute mult_le_mono1)+
  then show ?thesis using k j e(1) by (auto simp: range_of_def)
qed

lemma allocated_iff:
  "(x, n) \<in> allocated s bs F \<longleftrightarrow> (\<exists>d<9. \<exists>b\<in>set (bs d). n = bsize d \<and> x \<in> set (blocks d (page_at s b)) \<and> x \<notin> set (F b))"
  by (auto simp: allocated_def)

section \<open>malloc\<close>

lemma upd_bdesc_simps [simp]:
  "bdescs (upd_bdesc b f s) = (bdescs s)(b := f (bdescs s b))" "pmem (upd_bdesc b f s) = pmem s"
  "mem_map (upd_bdesc b f s) = mem_map s" "high_memory (upd_bdesc b f s) = high_memory s"
  "bucket_chain (upd_bdesc b f s) = bucket_chain s" "free_bucket_desc (upd_bdesc b f s) = free_bucket_desc s"
  by (simp_all add: upd_bdesc_def)

lemma find_desc_linked:
  "linked (desc_next s) (ptr p) xs \<Longrightarrow> length xs < n \<Longrightarrow>
     find_desc n P p s = Ret (case find (\<lambda>b. P (bdescs s b)) xs of None \<Rightarrow> 0 | Some b \<Rightarrow> b) s"
proof (induction xs arbitrary: p n)
  case Nil
  then show ?case by (cases n) auto
next
  case (Cons x xs)
  then obtain m where "n = Suc m" by (cases n) auto
  then show ?case using Cons by auto
qed

text \<open>A free block is taken from the chain of its page.\<close>

lemma take_block:
  assumes ok: "heap_ok s bs fs F" and b: "d < 9" "b \<in> set (bs d)" and F: "F b = r # xs"
  defines "t \<equiv> upd_bdesc b (\<lambda>x. x\<lparr>bd_freeptr := pmem s r, bd_refcnt := bd_refcnt x + 1\<rparr>) s"
  shows "heap_ok t bs fs (F(b := xs))" and "allocated t bs (F(b := xs)) = insert (r, bsize d) (allocated s bs F)"
    and "bd_freeptr (bdescs s b) = r" and "\<forall>(x, n)\<in>allocated s bs F. range_of r (bsize d) \<inter> range_of x n = {}"
    and "\<exists>p k. held s p \<and> unat r = unat p + k * bsize d"
proof -
  have k: "bucket_ok s d b (r # xs)" using heap_okD(5) [OF ok b] F by simp
  then have h: "held s (page_at s b)" and c: "unat (bd_refcnt (bdescs s b)) + Suc (length xs) = bcount d"
    and l: "linked (\<lambda>x. ptr (pmem s x)) (ptr (bd_freeptr (bdescs s b))) (r # xs)" and r: "r \<in> set (blocks d (page_at s b))"
    by (auto simp: bucket_ok_def)
  have rx: "r \<notin> set xs" using linked_tl_distinct l by fast
  show fr: "bd_freeptr (bdescs s b) = r" using l by simp
  have f: "page_at t = page_at s" "desc_next t = desc_next s" by (simp_all add: t_def fun_eq_iff)
  have f': "page_at t c = page_at s c" for c by (simp add: t_def)
  have g: "pmem t = pmem s" "mem_map t = mem_map s" "high_memory t = high_memory s" "bucket_chain t = bucket_chain s"
    "free_bucket_desc t = free_bucket_desc s" by (simp_all add: t_def)
  have hl: "held t = held s" by (simp add: held_def fun_eq_iff g)
  have "unat (bd_refcnt (bdescs s b) + 1) = unat (bd_refcnt (bdescs s b)) + 1"
    using c bsize_facts [OF b(1)] by (simp add: unat_word_ariths)
  then have kb: "bucket_ok t d b xs" unfolding bucket_ok_def hl f(1) g
    using k l by (simp add: bucket_ok_def t_def)
  have "bucket_ok t e c ((F(b := xs)) c)" if "e < 9" "c \<in> set (bs e)" for e c
  proof (cases "c = b")
    case True
    then have "e = d" using heap_okD(2) [OF ok b(1) that(1) b(2)] that(2) by simp
    then show ?thesis using kb True by simp
  next
    case False
    then show ?thesis using heap_okD(5) [OF ok that] by (simp add: bucket_ok_def hl f g) (simp add: t_def)
  qed
  then show "heap_ok t bs fs (F(b := xs))" using ok f' unfolding heap_ok_def f hl g by simp
  show "allocated t bs (F(b := xs)) = insert (r, bsize d) (allocated s bs F)"
  proof (rule set_eqI, clarify)
    fix x n
    have "(x, n) = (r, bsize d) \<or> (x, n) \<in> allocated s bs F" if "(x, n) \<in> allocated t bs (F(b := xs))"
    proof -
      note mem = that
      obtain e c where e: "e < 9" "c \<in> set (bs e)" "n = bsize e" "x \<in> set (blocks e (page_at s c))" "x \<notin> set ((F(b := xs)) c)"
        using mem unfolding allocated_iff f' by blast
      show ?thesis
      proof (cases "c = b \<and> x = r")
        case True
        then show ?thesis using heap_okD(2) [OF ok b(1) e(1) b(2)] e(2,3) by simp
      next
        case False
        then have "x \<notin> set (F c)" using e(5) F by (auto split: if_splits)
        then show ?thesis using e(1-4) unfolding allocated_iff by blast
      qed
    qed
    moreover have "(x, n) \<in> allocated t bs (F(b := xs))" if "(x, n) \<in> allocated s bs F"
    proof -
      note mem = that
      obtain e c where e: "e < 9" "c \<in> set (bs e)" "n = bsize e" "x \<in> set (blocks e (page_at s c))" "x \<notin> set (F c)"
        using mem unfolding allocated_iff by blast
      then have "x \<notin> set ((F(b := xs)) c)" using F by auto
      then show ?thesis using e(1-4) unfolding allocated_iff f' by blast
    qed
    moreover have "r \<notin> set ((F(b := xs)) b)" using rx by simp
    then have "(r, bsize d) \<in> allocated t bs (F(b := xs))" using b r unfolding allocated_iff f' by blast
    ultimately show "(x, n) \<in> allocated t bs (F(b := xs)) \<longleftrightarrow> (x, n) \<in> insert (r, bsize d) (allocated s bs F)" by auto
  qed
  show "\<forall>(x, n)\<in>allocated s bs F. range_of r (bsize d) \<inter> range_of x n = {}"
    using blocks_apart [OF ok b r] F by (fastforce simp: allocated_iff)
  show "\<exists>p k. held s p \<and> unat r = unat p + k * bsize d" using h blocks_facts(4) [OF h b(1) r] by blast
qed

lemma bucket_ok_mono:
  assumes k: "bucket_ok s e b xs" and e: "e < 9" and d: "bdescs t b = bdescs s b"
    and m: "\<And>a. page_of a = page_at s b \<Longrightarrow> pmem t a = pmem s a" and h: "\<And>p. held s p \<Longrightarrow> held t p"
  shows "bucket_ok t e b xs"
proof -
  have "pmem t x = pmem s x" if x: "x \<in> set xs" for x
  proof -
    have "x \<in> set (blocks e (page_at s b))" using k x by (auto simp: bucket_ok_def)
    then show ?thesis using k blocks_facts(1) [OF _ e] by (intro m) (auto simp: bucket_ok_def)
  qed
  then have "linked (\<lambda>x. ptr (pmem t x)) q xs = linked (\<lambda>x. ptr (pmem s x)) q xs" for q by (intro linked_cong) auto
  then show ?thesis using k h d by (simp add: bucket_ok_def)
qed

text \<open>The unused descriptors change, and memory outside the pages of blocks.\<close>

lemma heap_ok_step:
  assumes ok: "heap_ok s bs fs F"
    and d: "\<And>b. b \<in> chained bs \<Longrightarrow> bdescs t b = bdescs s b" "bucket_chain t = bucket_chain s"
    and m: "\<And>a. page_of a \<in> page_at s ` chained bs \<Longrightarrow> pmem t a = pmem s a"
    and mm: "\<And>i. mem_map s i \<noteq> 0 \<Longrightarrow> mem_map t i \<noteq> 0" "high_memory t = high_memory s"
    and fr: "linked (desc_next t) (ptr (free_bucket_desc t)) fs'" "set fs' \<inter> chained bs = {}"
      "\<And>b. b \<in> set fs' \<Longrightarrow> held t (page_of b) \<and> (\<forall>c\<in>chained bs. page_at s c \<noteq> page_of b)"
  shows "heap_ok t bs fs' F" and "allocated t bs F = allocated s bs F"
proof -
  have h: "held s p \<Longrightarrow> held t p" for p using mm by (auto simp: held_def)
  have n: "linked (desc_next t) p xs = linked (desc_next s) p xs" if "set xs \<subseteq> chained bs" for p xs
    using that d(1) by (intro linked_cong) auto
  have k: "bucket_ok t e b (F b)" if b: "e < 9" "b \<in> set (bs e)" for e b
    by (rule bucket_ok_mono [OF heap_okD(5) [OF ok b] b(1) _ _ h]) (use b d(1) m in blast)+
  have sub: "set (bs e) \<subseteq> chained bs" if "e < 9" for e using that by (auto simp: chained_def)
  have 1: "\<forall>e<9. linked (desc_next t) (ptr (bucket_chain t e)) (bs e)" using heap_okD(1) [OF ok] n sub d(2) by simp
  have 2: "\<forall>e<9. \<forall>f<9. e \<noteq> f \<longrightarrow> set (bs e) \<inter> set (bs f) = {}" using ok by (simp add: heap_ok_def)
  have 3: "inj_on (page_at t) (chained bs)" using heap_okD(6) [OF ok] d(1) by (simp add: inj_on_def)
  have 4: "\<forall>b\<in>chained bs \<union> set fs'. held t (page_of b) \<and> (\<forall>c\<in>chained bs. page_at t c \<noteq> page_of b)"
    using heap_okD(7,8) [OF ok] h fr(3) d(1) by auto
  have 5: "\<forall>i<PAGING_PAGES. high_memory t \<le> frame_addr i \<longrightarrow> mem_map t i \<noteq> 0" using heap_okD(9) [OF ok] mm by auto
  show "heap_ok t bs fs' F" unfolding heap_ok_def using 1 2 3 4 5 k fr(1,2) by blast
  have "\<forall>e<9. \<forall>b\<in>set (bs e). page_at t b = page_at s b" using d(1) by (simp add: chainedI)
  then show "allocated t bs F = allocated s bs F" unfolding allocated_def by (intro SUP_cong refl) auto
qed

lemma link_descs_spec:
  "distinct (steps b 16 n) \<Longrightarrow> \<exists>D. link_descs n b s = (b + of_nat (n * 16), s\<lparr>bdescs := D\<rparr>) \<and>
     (\<forall>x. x \<notin> set (steps b 16 n) \<longrightarrow> D x = bdescs s x) \<and>
     (\<forall>k<n. bd_next (D (b + of_nat (k * 16))) = b + of_nat (Suc k * 16))"
proof (induction n arbitrary: b s)
  case 0
  then show ?case by (intro exI [of _ "bdescs s"]) simp
next
  case (Suc n)
  let ?s = "upd_bdesc b (\<lambda>d. d\<lparr>bd_next := b + 16\<rparr>) s"
  have st: "steps b 16 (Suc n) = b # steps (b + 16) 16 n" using steps_Suc [of b 16 n] by simp
  then obtain D where D: "link_descs n (b + 16) ?s = (b + 16 + of_nat (n * 16), ?s\<lparr>bdescs := D\<rparr>)"
      "\<forall>x. x \<notin> set (steps (b + 16) 16 n) \<longrightarrow> D x = bdescs ?s x"
      "\<forall>k<n. bd_next (D (b + 16 + of_nat (k * 16))) = b + 16 + of_nat (Suc k * 16)"
    using Suc.IH [of "b + 16" ?s] Suc.prems by auto
  have "bd_next (D (b + of_nat (k * 16))) = b + of_nat (Suc k * 16)" if "k < Suc n" for k
  proof (cases k)
    case 0
    then show ?thesis using D(2) Suc.prems st by simp
  next
    case (Suc j)
    then show ?thesis using D(3) that by (auto simp: algebra_simps)
  qed
  moreover have "D x = bdescs s x" if "x \<notin> set (steps b 16 (Suc n))" for x using D(2) that st by auto
  moreover have "link_descs (Suc n) b s = (b + of_nat (Suc n * 16), s\<lparr>bdescs := D\<rparr>)"
    using D(1) by (simp add: algebra_simps) (simp add: upd_bdesc_def)
  ultimately show ?case by blast
qed

lemma get_free_page_held:
  obtains (none) "get_free_page s = (0, s)" "\<forall>j<PAGING_PAGES. mem_map s j \<noteq> 0"
  | (page) i where "i < PAGING_PAGES" "mem_map s i = 0"
      "get_free_page s = (frame_addr i, s\<lparr>mem_map := (mem_map s)(i := 1), pmem := clear_page (frame_addr i) (pmem s)\<rparr>)"
      "\<And>p. held s p \<Longrightarrow> p \<noteq> frame_addr i" "\<And>a. page_of a \<noteq> frame_addr i \<Longrightarrow> clear_page (frame_addr i) (pmem s) a = pmem s a"
proof (cases rule: get_free_page_cases [of s])
  case none
  then show ?thesis using that(1) by blast
next
  case (page i)
  have "p \<noteq> frame_addr i" if "held s p" for p
    using that page(1,2) frame_addr_simps(4) by (metis held_def)
  then show ?thesis using that(2) [OF page(1,2,4)] page(1) by (simp add: clear_page_other)
qed

text \<open>Descriptors from a new page.\<close>

lemma init_bucket_desc_ok:
  assumes ok: "heap_ok s bs [] F"
  shows "init_bucket_desc s = Panic ''Out of memory in init_bucket_desc()'' s \<and> (\<forall>j<PAGING_PAGES. mem_map s j \<noteq> 0) \<or>
    (\<exists>t fs. init_bucket_desc s = Ret () t \<and> fs \<noteq> [] \<and> heap_ok t bs fs F \<and> allocated t bs F = allocated s bs F \<and>
       (\<forall>b\<in>chained bs. bdescs t b = bdescs s b) \<and> (\<exists>i. \<forall>j. j \<noteq> i \<longrightarrow> mem_map t j = mem_map s j) \<and>
       (\<forall>a. page_of a \<in> page_at s ` chained bs \<longrightarrow> pmem t a = pmem s a))"
proof (cases rule: get_free_page_held [of s])
  case none
  then show ?thesis by (simp add: init_bucket_desc_def)
next
  case (page i)
  let ?p = "frame_addr i"
  define w where "w = s\<lparr>mem_map := (mem_map s)(i := 1), pmem := clear_page ?p (pmem s)\<rparr>"
  have st: "256 * 16 \<le> (4096::nat)" "0 < (16::nat)" by simp_all
  have dist: "distinct (steps ?p 16 256)" by (rule steps_distinct [OF st(1) page(1) st(2)])
  then have dist': "distinct (steps ?p 16 255)" "\<And>x. x \<in> set (steps ?p 16 255) \<Longrightarrow> x \<in> set (steps ?p 16 256)"
    by (auto simp: steps_def distinct_map inj_on_def)
  obtain D where D: "link_descs 255 ?p w = (?p + of_nat (255 * 16), w\<lparr>bdescs := D\<rparr>)"
      "\<forall>x. x \<notin> set (steps ?p 16 255) \<longrightarrow> D x = bdescs w x"
      "\<forall>k<255. bd_next (D (?p + of_nat (k * 16))) = ?p + of_nat (Suc k * 16)"
    using link_descs_spec [OF dist'(1), of w] by blast
  let ?e = "?p + of_nat (255 * 16)"
  define t where "t = (upd_bdesc ?e (\<lambda>d. d\<lparr>bd_next := free_bucket_desc w\<rparr>) (w\<lparr>bdescs := D\<rparr>))\<lparr>free_bucket_desc := ?p\<rparr>"
  have eq: "init_bucket_desc s = Ret () t"
    using page(1,3) D(1) by (simp add: init_bucket_desc_def t_def w_def Let_def)
  have new: "page_of x = ?p" "x \<noteq> 0" if "x \<in> set (steps ?p 16 256)" for x
    using steps_page [OF st(1) page(1) st(2) that] by simp_all
  have e: "?e \<in> set (steps ?p 16 256)" by (auto simp: steps_def intro!: image_eqI [of _ _ 255])
  have old: "page_of b \<noteq> ?p" if "b \<in> chained bs" for b using heap_okD(7) [OF ok, of b] that page(4) by blast
  have oldp: "page_at s b \<noteq> ?p" if "b \<in> chained bs" for b using heap_okD(10) [OF ok that] page(4) by blast
  have fs0: "free_bucket_desc s = 0" using heap_okD(3) [OF ok] by simp
  have lt: "frame_addr i < high_memory s" using heap_okD(9) [OF ok page(1)] page(2) by (meson not_less)
  have "linked (desc_next t) (ptr ?p) (steps ?p 16 (Suc 255) @ [])"
  proof (rule linked_steps [where nx = "desc_next s" and q = 0])
    show "desc_next t (?p + of_nat (k * 16)) = ptr (?p + of_nat (Suc k * 16))" if k: "k < 255" for k
    proof -
      have "unat (?p + of_nat (k * 16)) \<noteq> unat ?e"
        using steps_unat [OF st(1) page(1) _ st(2), of k] steps_unat [OF st(1) page(1) _ st(2), of 255] k by (simp del: of_nat_mult)
      then have "?p + of_nat (k * 16) \<noteq> ?e" by metis
      then show ?thesis using D(3) k by (simp add: t_def del: of_nat_mult)
    qed
  qed (use dist new fs0 in \<open>auto simp: t_def w_def\<close>)
  then have fr: "linked (desc_next t) (ptr (free_bucket_desc t)) (steps ?p 16 256)" by (simp add: t_def)
  have t: "bdescs t b = bdescs s b" if "b \<in> chained bs" for b
  proof -
    have "b \<notin> set (steps ?p 16 256)" using old [OF that] new(1) by blast
    then show ?thesis using D(2) dist'(2) e by (auto simp: t_def w_def)
  qed
  have m: "pmem t a = pmem s a" if "page_of a \<in> page_at s ` chained bs" for a
    using that oldp page(5) by (auto simp: t_def w_def)
  have mm: "mem_map t = (mem_map s)(i := 1)" "high_memory t = high_memory s" "bucket_chain t = bucket_chain s"
    by (simp_all add: t_def w_def)
  have h: "held t ?p" using page(1) lt mm by (auto simp: held_def)
  have "set (steps ?p 16 256) \<inter> chained bs = {}" using new(1) old by blast
  then have ok': "heap_ok t bs (steps ?p 16 256) F \<and> allocated t bs F = allocated s bs F"
    using heap_ok_step [OF ok t mm(3) m _ mm(2) fr] mm(1) new(1) h oldp by (auto split: if_splits)
  have "\<exists>i. \<forall>j. j \<noteq> i \<longrightarrow> mem_map t j = mem_map s j" unfolding mm(1) by auto
  moreover have "steps ?p 16 256 \<noteq> []" by (simp add: steps_def)
  ultimately show ?thesis using eq ok' t m by blast
qed

text \<open>A page of blocks.\<close>

lemma link_blocks_spec:
  "distinct (steps cp sz (Suc n)) \<Longrightarrow>
     (\<forall>x. x \<notin> set (steps cp sz (Suc n)) \<longrightarrow> link_blocks n (of_nat sz) cp m x = m x) \<and>
     (\<forall>k<n. link_blocks n (of_nat sz) cp m (cp + of_nat (k * sz)) = cp + of_nat (Suc k * sz)) \<and>
     link_blocks n (of_nat sz) cp m (cp + of_nat (n * sz)) = 0"
proof (induction n arbitrary: cp m)
  case 0
  then show ?case by (simp add: steps_def)
next
  case (Suc n)
  let ?m = "m(cp := cp + of_nat sz)" and ?c = "cp + of_nat sz"
  have st: "steps cp sz (Suc (Suc n)) = cp # steps ?c sz (Suc n)" by (rule steps_Suc)
  have eq: "link_blocks (Suc n) (of_nat sz) cp m = link_blocks n (of_nat sz) ?c ?m" by (rule link_blocks.simps)
  have cp: "cp \<notin> set (steps ?c sz (Suc n))" and ds: "distinct (steps ?c sz (Suc n))" using Suc.prems unfolding st by simp_all
  have IH: "\<forall>x. x \<notin> set (steps ?c sz (Suc n)) \<longrightarrow> link_blocks n (of_nat sz) ?c ?m x = ?m x"
    "\<forall>k<n. link_blocks n (of_nat sz) ?c ?m (?c + of_nat (k * sz)) = ?c + of_nat (Suc k * sz)"
    "link_blocks n (of_nat sz) ?c ?m (?c + of_nat (n * sz)) = 0"
    using Suc.IH [OF ds, of ?m] by blast+
  have sh: "?c + of_nat (k * sz) = cp + of_nat (Suc k * sz)" for k by (simp add: algebra_simps)
  have "link_blocks n (of_nat sz) ?c ?m (cp + of_nat (k * sz)) = cp + of_nat (Suc k * sz)" if "k < Suc n" for k
  proof (cases k)
    case 0
    then show ?thesis using IH(1) cp by simp
  next
    case (Suc j)
    then have "link_blocks n (of_nat sz) ?c ?m (?c + of_nat (j * sz)) = ?c + of_nat (Suc j * sz)" using IH(2) that by blast
    then show ?thesis unfolding Suc sh .
  qed
  moreover have "link_blocks n (of_nat sz) ?c ?m (cp + of_nat (Suc n * sz)) = 0" using IH(3) unfolding sh .
  moreover have "link_blocks n (of_nat sz) ?c ?m x = m x" if "x \<notin> set (cp # steps ?c sz (Suc n))" for x
    using IH(1) that by auto
  ultimately show ?case unfolding eq st by blast
qed

definition with_bucket :: "nat \<Rightarrow> u32 \<Rightarrow> nat \<Rightarrow> 'a malloc_state_scheme \<Rightarrow> 'a malloc_state_scheme" where
  "with_bucket d b i s = s\<lparr>free_bucket_desc := bd_next (bdescs s b), mem_map := (mem_map s)(i := 1),
     pmem := link_blocks (bcount d - 1) (of_nat (bsize d)) (frame_addr i) (clear_page (frame_addr i) (pmem s)),
     bdescs := (bdescs s)(b := (bdescs s b)\<lparr>bd_refcnt := 0, bd_size := of_nat (bsize d), bd_page := frame_addr i,
       bd_freeptr := frame_addr i, bd_next := bucket_chain s d\<rparr>),
     bucket_chain := (bucket_chain s)(d := b)\<rparr>"

lemma with_bucket_simps [simp]:
  "mem_map (with_bucket d b i s) = (mem_map s)(i := 1)" "high_memory (with_bucket d b i s) = high_memory s"
  "bucket_chain (with_bucket d b i s) = (bucket_chain s)(d := b)"
  "free_bucket_desc (with_bucket d b i s) = bd_next (bdescs s b)"
  "c \<noteq> b \<Longrightarrow> bdescs (with_bucket d b i s) c = bdescs s c"
  "page_at (with_bucket d b i s) b = frame_addr i" "bd_next (bdescs (with_bucket d b i s) b) = bucket_chain s d"
  by (simp_all add: with_bucket_def)

lemma with_bucket_pmem:
  assumes i: "i < PAGING_PAGES" and d: "d < 9"
  shows "page_of a \<noteq> frame_addr i \<Longrightarrow> pmem (with_bucket d b i s) a = pmem s a"
    and "linked (\<lambda>x. ptr (pmem (with_bucket d b i s) x)) (ptr (frame_addr i)) (blocks d (frame_addr i))"
proof -
  let ?p = "frame_addr i"
  have b: "bcount d * bsize d \<le> 4096" "0 < bsize d" "Suc (bcount d - 1) = bcount d" using bsize_facts [OF d] by linarith+
  have dist: "distinct (steps ?p (bsize d) (Suc (bcount d - 1)))" unfolding b(3) by (rule steps_distinct [OF b(1) i b(2)])
  have new: "page_of x = ?p" "x \<noteq> 0" if "x \<in> set (steps ?p (bsize d) (Suc (bcount d - 1)))" for x
    using steps_page [OF b(1) i b(2)] that unfolding b(3) by blast+
  note l = link_blocks_spec [OF dist, of "clear_page ?p (pmem s)"]
  have other: "pmem (with_bucket d b i s) a = clear_page ?p (pmem s) a" if "page_of a \<noteq> ?p"
  proof -
    have "a \<notin> set (steps ?p (bsize d) (Suc (bcount d - 1)))" using that new(1) by blast
    then have "link_blocks (bcount d - 1) (of_nat (bsize d)) ?p (clear_page ?p (pmem s)) a = clear_page ?p (pmem s) a"
      using l by blast
    then show ?thesis by (simp add: with_bucket_def)
  qed
  then show "page_of a \<noteq> ?p \<Longrightarrow> pmem (with_bucket d b i s) a = pmem s a"
    using clear_page_other [of ?p a] frame_addr_simps i by simp
  have "linked (\<lambda>x. ptr (pmem (with_bucket d b i s) x)) (ptr ?p) (steps ?p (bsize d) (Suc (bcount d - 1)) @ [])"
  proof (rule linked_steps [OF _ dist, where q = 0 and nx = "\<lambda>_. None"])
    show "ptr (pmem (with_bucket d b i s) (?p + of_nat (k * bsize d))) = ptr (?p + of_nat (Suc k * bsize d))"
      if "k < bcount d - 1" for k
      using l that unfolding with_bucket_def by (simp del: of_nat_mult mult_Suc)
    show "ptr (pmem (with_bucket d b i s) (?p + of_nat ((bcount d - 1) * bsize d))) = ptr 0"
      using l unfolding with_bucket_def by (simp del: of_nat_mult mult_Suc)
    show "0 \<notin> set (steps ?p (bsize d) (Suc (bcount d - 1)))" using new(2) by blast
  qed simp_all
  then show "linked (\<lambda>x. ptr (pmem (with_bucket d b i s) x)) (ptr ?p) (blocks d ?p)" unfolding b(3) blocks_def by simp
qed

lemma chained_add: "d < 9 \<Longrightarrow> chained (bs(d := b # bs d)) = insert b (chained bs)"
  by (auto simp: chained_def split: if_splits)

lemma held_with_bucket:
  assumes ok: "heap_ok s bs fs F" and i: "i < PAGING_PAGES" "mem_map s i = 0"
  shows "held s p \<Longrightarrow> held (with_bucket d b i s) p" and "held (with_bucket d b i s) (frame_addr i)" and "\<not> held s (frame_addr i)"
proof -
  show "held s p \<Longrightarrow> held (with_bucket d b i s) p" by (auto simp: held_def)
  have "frame_addr i < high_memory s" using heap_okD(9) [OF ok i(1)] i(2) by (meson not_less)
  then show "held (with_bucket d b i s) (frame_addr i)" using i(1) by (auto simp: held_def)
  show "\<not> held s (frame_addr i)" using i frame_addr_simps(4) by (metis held_def)
qed

lemma add_bucket:
  assumes ok: "heap_ok s bs (b # fs) F" and d: "d < 9" and i: "i < PAGING_PAGES" "mem_map s i = 0"
  defines "t \<equiv> with_bucket d b i s" and "bs' \<equiv> bs(d := b # bs d)" and "F' \<equiv> F(b := blocks d (frame_addr i))"
  shows "heap_ok t bs' fs F'" and "allocated t bs' F' = allocated s bs F"
proof -
  let ?p = "frame_addr i"
  have b: "b \<notin> chained bs" "b \<notin> set fs" "b \<noteq> 0" "free_bucket_desc s = b" "linked (desc_next s) (ptr (bd_next (bdescs s b))) fs"
    using heap_okD(3,4) [OF ok] linked_tl_distinct [OF heap_okD(3) [OF ok]] by (auto split: if_splits)
  have hl: "\<And>p. held s p \<Longrightarrow> held t p" "held t ?p" "\<not> held s ?p" using held_with_bucket [OF ok i] by (auto simp: t_def)
  have ch: "chained bs' = insert b (chained bs)" unfolding bs'_def by (rule chained_add [OF d])
  have same: "bdescs t c = bdescs s c" if "c \<noteq> b" for c using that by (simp add: t_def)
  have n: "linked (desc_next t) p xs = linked (desc_next s) p xs" if "b \<notin> set xs" for p xs
    using that same by (intro linked_cong) metis
  have nb: "b \<notin> set (bs e)" if "e < 9" for e using b(1) that by blast
  have m: "pmem t a = pmem s a" if "page_of a = page_at s c" "c \<in> chained bs" for a c
    using with_bucket_pmem(1) [OF i(1) d] heap_okD(10) [OF ok that(2)] hl(3) that(1) by (metis t_def)
  have 1: "linked (desc_next t) (ptr (bucket_chain t e)) (bs' e)" if e: "e < 9" for e
    using heap_okD(1) [OF ok e] n [OF nb [OF e]] b(3) by (auto simp: t_def bs'_def)
  have 2: "set (bs' e) \<inter> set (bs' f) = {}" if "e < 9" "f < 9" "e \<noteq> f" for e f
    using heap_okD(2) [OF ok that(1,2)] nb that by (auto simp: bs'_def)
  have 3: "linked (desc_next t) (ptr (free_bucket_desc t)) fs" using n [OF b(2)] b(5) by (simp add: t_def)
  have kb: "bucket_ok t d b (blocks d ?p)"
    using hl(2) with_bucket_pmem(2) [OF i(1) d] blocks_facts(5) [OF hl(2) d] by (simp add: bucket_ok_def t_def) (simp add: with_bucket_def)
  have 4: "bucket_ok t e c (F' c)" if c: "e < 9" "c \<in> set (bs' e)" for e c
  proof (cases "c = b")
    case True
    then have "e = d" using c nb by (auto simp: bs'_def split: if_splits)
    then show ?thesis using kb True by (simp add: F'_def)
  next
    case False
    then have c': "c \<in> set (bs e)" using c by (auto simp: bs'_def split: if_splits)
    have "bucket_ok t e c (F c)"
      by (rule bucket_ok_mono [OF heap_okD(5) [OF ok c(1) c'] c(1) same [OF False] m hl(1)]) (use c' c(1) in \<open>auto simp: t_def\<close>)
    then show ?thesis using False by (simp add: F'_def)
  qed
  have np: "page_at s c \<noteq> ?p" if "c \<in> chained bs" for c using heap_okD(10) [OF ok that] hl(3) by metis
  have pt: "page_at t b = ?p" "\<And>c. c \<noteq> b \<Longrightarrow> page_at t c = page_at s c" using same by (simp_all add: t_def)
  have 5: "inj_on (page_at t) (chained bs')"
    unfolding ch using heap_okD(6) [OF ok] np pt b(1) unfolding inj_on_def by (metis insert_iff)
  have 6: "held t (page_of c) \<and> (\<forall>x\<in>chained bs'. page_at t x \<noteq> page_of c)" if "c \<in> chained bs' \<union> set fs" for c
  proof -
    have c: "c \<in> chained bs \<union> set (b # fs)" using that unfolding ch by auto
    have "held s (page_of c)" using heap_okD(7) [OF ok c] .
    then have "held t (page_of c)" "page_of c \<noteq> ?p" using hl by metis+
    moreover have "page_at t x \<noteq> page_of c" if "x \<in> chained bs'" for x
      using that heap_okD(8) [OF ok c] pt calculation(2) unfolding ch by (metis insert_iff)
    ultimately show ?thesis by blast
  qed
  have 7: "mem_map t j \<noteq> 0" if "j < PAGING_PAGES" "high_memory t \<le> frame_addr j" for j
    using heap_okD(9) [OF ok] that by (simp add: t_def)
  have 8: "set fs \<inter> chained bs' = {}" using heap_okD(4) [OF ok] b(2) unfolding ch by auto
  show "heap_ok t bs' fs F'" unfolding heap_ok_def
    by (intro conjI allI ballI impI) (rule 1 2 3 4 5 7 8 6 [THEN conjunct1] 6 [THEN conjunct2, THEN bspec]; assumption)+
  have "(\<Union>c\<in>set (bs' e). (\<lambda>x. (x, bsize e)) ` (set (blocks e (page_at t c)) - set (F' c))) =
    (\<Union>c\<in>set (bs e). (\<lambda>x. (x, bsize e)) ` (set (blocks e (page_at s c)) - set (F c)))" if "e < 9" for e
  proof -
    have "c \<noteq> b" if "c \<in> set (bs e)" for c using nb [OF \<open>e < 9\<close>] that by blast
    then have "page_at t c = page_at s c" "F' c = F c" if "c \<in> set (bs e)" for c using that pt(2) by (simp_all add: F'_def)
    then have "(\<Union>c\<in>set (bs e). (\<lambda>x. (x, bsize e)) ` (set (blocks e (page_at t c)) - set (F' c))) =
      (\<Union>c\<in>set (bs e). (\<lambda>x. (x, bsize e)) ` (set (blocks e (page_at s c)) - set (F c)))"
      by (intro SUP_cong refl) simp
    then show ?thesis by (cases "e = d") (simp_all add: bs'_def F'_def pt(1))
  qed
  then show "allocated t bs' F' = allocated s bs F" unfolding allocated_def by (rule SUP_cong [OF refl]) simp
qed

text \<open>A page for blocks of size \<open>d\<close>; the frames of the machine are all in use when it fails.\<close>

definition full :: "'a mm_state_scheme \<Rightarrow> 'b mm_state_scheme \<Rightarrow> bool" where
  "full s t \<longleftrightarrow> (\<forall>j<PAGING_PAGES. mem_map t j \<noteq> 0) \<and> (\<exists>i. \<forall>j<PAGING_PAGES. mem_map s j = 0 \<longrightarrow> j = i)"

lemma first_desc:
  assumes ok: "heap_ok s bs fs F"
  obtains (panic) t where "(if free_bucket_desc s = 0 then init_bucket_desc s else Ret () s) =
      Panic ''Out of memory in init_bucket_desc()'' t" "full s t"
  | (desc) w b gs where "(if free_bucket_desc s = 0 then init_bucket_desc s else Ret () s) = Ret () w"
      "heap_ok w bs (b # gs) F" "allocated w bs F = allocated s bs F" "\<forall>c\<in>chained bs. bdescs w c = bdescs s c"
      "\<exists>i. \<forall>j. j \<noteq> i \<longrightarrow> mem_map w j = mem_map s j" "\<And>a. page_of a \<in> page_at s ` chained bs \<Longrightarrow> pmem w a = pmem s a"
proof (cases "free_bucket_desc s = 0")
  case False
  then obtain b gs where fs: "fs = b # gs" using heap_okD(3) [OF ok] by (cases fs) auto
  show ?thesis by (rule desc [of s b gs]) (use False ok fs in auto)
next
  case True
  then have "fs = []" using heap_okD(3) [OF ok] by (cases fs) auto
  then have "heap_ok s bs [] F" using ok by simp
  from init_bucket_desc_ok [OF this] show ?thesis
  proof (elim disjE exE conjE)
    assume "init_bucket_desc s = Panic ''Out of memory in init_bucket_desc()'' s" "\<forall>j<PAGING_PAGES. mem_map s j \<noteq> 0"
    then show ?thesis using True by (intro panic [of s]) (auto simp: full_def)
  next
    fix t gs i
    assume t: "init_bucket_desc s = Ret () t" "gs \<noteq> []" "heap_ok t bs gs F" "allocated t bs F = allocated s bs F"
      "\<forall>b\<in>chained bs. bdescs t b = bdescs s b" "\<forall>j. j \<noteq> i \<longrightarrow> mem_map t j = mem_map s j"
      "\<forall>a. page_of a \<in> page_at s ` chained bs \<longrightarrow> pmem t a = pmem s a"
    then obtain b hs where "gs = b # hs" by (cases gs) auto
    then show ?thesis using t True by (intro desc [of t b hs]) auto
  qed
qed

lemma new_bucket_ok:
  assumes ok: "heap_ok s bs fs F" and d: "d < 9"
  obtains (panic) m t where "new_bucket d s = Panic m t" "full s t"
  | (new) b t gs xs where "new_bucket d s = Ret b t" "heap_ok t (bs(d := b # bs d)) gs (F(b := xs))" "xs \<noteq> []" "b \<noteq> 0"
      "allocated t (bs(d := b # bs d)) (F(b := xs)) = allocated s bs F"
      "\<And>a. page_of a \<in> page_at s ` chained bs \<Longrightarrow> pmem t a = pmem s a"
proof (cases rule: first_desc [OF ok])
  case (1 t)
  then show ?thesis using panic by (simp add: new_bucket_def)
next
  case (2 w b gs)
  have bw: "free_bucket_desc w = b" "b \<noteq> 0" "b \<notin> chained bs"
    using heap_okD(3,4) [OF 2(2)] by (auto split: if_splits)
  show ?thesis
  proof (cases rule: get_free_page_held [of "w\<lparr>free_bucket_desc := bd_next (bdescs w b)\<rparr>"])
    case none
    then have mm: "\<forall>j<PAGING_PAGES. mem_map w j \<noteq> 0" by simp
    then have "\<exists>i. \<forall>j<PAGING_PAGES. mem_map s j = 0 \<longrightarrow> j = i" using 2(5) by metis
    then show ?thesis using panic none(1) mm 2(1) bw by (simp add: new_bucket_def Let_def full_def)
  next
    case (page i)
    have i: "i < PAGING_PAGES" "mem_map w i = 0" using page(1,2) by simp_all
    have "new_bucket d s = Ret b (with_bucket d b i w)"
      using 2(1) bw page(3) i(1) by (simp add: new_bucket_def Let_def with_bucket_def upd_bdesc_def)
    moreover have "blocks d (frame_addr i) \<noteq> []" using bsize_facts [OF d] by (simp add: blocks_def steps_def)
    moreover have "pmem (with_bucket d b i w) a = pmem s a" if a: "page_of a \<in> page_at s ` chained bs" for a
    proof -
      obtain c where c: "c \<in> chained bs" "page_of a = page_at w c" using a 2(4) by auto
      then have "page_of a \<noteq> frame_addr i"
        using heap_okD(10) [OF 2(2) c(1)] held_with_bucket(3) [OF 2(2) i] by metis
      then show ?thesis using with_bucket_pmem(1) [OF i(1) d] 2(6) [OF a] by metis
    qed
    ultimately show ?thesis
      using new [of b "with_bucket d b i w" gs "blocks d (frame_addr i)"] add_bucket [OF 2(2) d i] 2(3) bw(2) by metis
  qed
qed

text \<open>What a call owes its caller: the block is new, and the blocks in use keep their contents.\<close>

definition new_block_ok :: "nat \<Rightarrow> (u32 \<times> nat) set \<Rightarrow> 'a malloc_state_scheme \<Rightarrow> u32 \<Rightarrow> 'a malloc_state_scheme \<Rightarrow> bool" where
  "new_block_ok d A s r t \<longleftrightarrow>
     (\<exists>bs fs F. heap_ok t bs fs F \<and> allocated t bs F = insert (r, bsize d) A) \<and>
     (\<forall>(x, n)\<in>A. range_of r (bsize d) \<inter> range_of x n = {} \<and> (\<forall>a\<in>range_of x n. pmem t a = pmem s a)) \<and>
     bsize d dvd unat r \<and> r \<noteq> 0"

lemma find_bucket_spec:
  "find_bucket n = Some d \<Longrightarrow> d < 9 \<and> n \<le> bsize d \<and> (\<forall>e<d. bsize e < n)"
  "n \<le> 4096 \<Longrightarrow> \<exists>d. find_bucket n = Some d"
proof -
  have len: "length bucket_sizes = 9" by (simp add: bucket_sizes_def)
  show "find_bucket n = Some d \<Longrightarrow> d < 9 \<and> n \<le> bsize d \<and> (\<forall>e<d. bsize e < n)"
    unfolding find_bucket_def find_Some_iff len by auto
  have "bsize 8 = 4096" by (simp add: bucket_sizes_def)
  then have "n \<le> 4096 \<Longrightarrow> \<exists>d\<in>set [0..<9]. n \<le> bsize d" by (intro bexI [of _ 8]) simp_all
  then have "n \<le> 4096 \<Longrightarrow> find_bucket n \<noteq> None" unfolding find_bucket_def len find_None_iff by blast
  then show "n \<le> 4096 \<Longrightarrow> \<exists>d. find_bucket n = Some d" by simp
qed

lemma take_new_block:
  assumes ok: "heap_ok u bs fs F" and b: "d < 9" "b \<in> set (bs d)" and F: "F b \<noteq> []"
    and A: "allocated u bs F = A" and m: "\<And>x n a. (x, n) \<in> A \<Longrightarrow> a \<in> range_of x n \<Longrightarrow> pmem u a = pmem s a"
  defines "r \<equiv> bd_freeptr (bdescs u b)"
  shows "new_block_ok d A s r (upd_bdesc b (\<lambda>x. x\<lparr>bd_freeptr := pmem u r, bd_refcnt := bd_refcnt x + 1\<rparr>) u)"
proof -
  obtain y xs where y: "F b = y # xs" using F by (cases "F b") auto
  note tb = take_block [OF ok b y]
  have r: "r = y" using tb(3) by (simp add: r_def)
  obtain p k where p: "held u p" "unat r = unat p + k * bsize d" using tb(5) r by blast
  have "bsize d dvd 4096" using bsize_facts [OF b(1)] by (metis dvd_triv_right)
  moreover obtain i where i: "unat p = 4096 * (i + 256)" using p(1) by (auto simp: held_def unat_frame_addr)
  ultimately have "bsize d dvd unat r" unfolding p(2) i by (metis dvd_add dvd_mult2 dvd_triv_right)
  moreover have "unat p \<noteq> 0" using p(1) by (auto simp: held_def unat_frame_addr)
  then have "r \<noteq> 0" using p(2) by auto
  ultimately show ?thesis unfolding new_block_ok_def using tb(1,2,4) r A m by fastforce
qed

lemma allocated_page:
  assumes ok: "heap_ok s bs fs F" and x: "(x, n) \<in> allocated s bs F" "a \<in> range_of x n"
  shows "page_of a \<in> page_at s ` chained bs"
proof -
  obtain d b where d: "d < 9" "b \<in> set (bs d)" "n = bsize d" "x \<in> set (blocks d (page_at s b))"
    using x(1) unfolding allocated_iff by blast
  then have b: "b \<in> chained bs" by blast
  then have "page_of a = page_at s b" using block_range_page [OF heap_okD(10) [OF ok b] d(1,4)] x(2) d(3) by simp
  then show ?thesis using b by blast
qed

text \<open>C36: \<open>malloc(len)\<close> for at most 4096 bytes, on a heap whose descriptor chains have fewer than \<open>fuel\<close>
  entries: it hands out a block of the smallest size that holds \<open>len\<close> bytes, aligned to that size; the block shares no
  byte with any block in use, the blocks in use are the old ones and this one, none of their bytes changes (the links
  of free blocks are stored in the blocks themselves), and the heap stays well formed. It panics only when the
  machine has at most one free page left, and none when it stops.\<close>

theorem malloc_correct:
  assumes "heap_ok s bs fs F" and "unat len \<le> 4096" and "\<forall>d<9. length (bs d) < fuel"
  shows "(\<exists>m t. malloc fuel len s = Panic m t \<and> full s t) \<or>
    (\<exists>r t d. malloc fuel len s = Ret r t \<and> d < 9 \<and> unat len \<le> bsize d \<and> (\<forall>e<d. bsize e < unat len) \<and>
       new_block_ok d (allocated s bs F) s r t)"
proof -
  obtain d where d: "find_bucket (unat len) = Some d" using find_bucket_spec(2) assms(2) by blast
  note dd = find_bucket_spec(1) [OF d]
  then have "length (bs d) < fuel" using assms(3) by blast
  note fd = find_desc_linked [OF heap_okD(1) [OF assms(1)] this, of "\<lambda>x. bd_freeptr x \<noteq> 0"]
  show ?thesis
  proof (cases "find (\<lambda>b. bd_freeptr (bdescs s b) \<noteq> 0) (bs d)")
    case None
    show ?thesis
    proof (cases rule: new_bucket_ok [OF assms(1), of d])
      case (2 m t)
      then have "malloc fuel len s = Panic m t" using fd None d dd by (simp add: malloc_def)
      then show ?thesis using 2 by blast
    next
      case (3 b t gs xs)
      have "new_block_ok d (allocated s bs F) s (bd_freeptr (bdescs t b))
          (upd_bdesc b (\<lambda>x. x\<lparr>bd_freeptr := pmem t (bd_freeptr (bdescs t b)), bd_refcnt := bd_refcnt x + 1\<rparr>) t)"
        using dd 3(3,5,6) allocated_page [OF assms(1)] by (intro take_new_block [OF 3(2)]) auto
      moreover have "malloc fuel len s = Ret (bd_freeptr (bdescs t b))
          (upd_bdesc b (\<lambda>x. x\<lparr>bd_freeptr := pmem t (bd_freeptr (bdescs t b)), bd_refcnt := bd_refcnt x + 1\<rparr>) t)"
        using fd None d dd 3(1) by (simp add: malloc_def Let_def)
      ultimately show ?thesis using dd by blast
    qed (use dd in simp)
  next
    case (Some b)
    then have b: "b \<in> set (bs d)" "bd_freeptr (bdescs s b) \<noteq> 0" "b \<noteq> 0"
      using linked_nonzero [OF heap_okD(1) [OF assms(1)]] dd unfolding find_Some_iff by (metis nth_mem)+
    then have "F b \<noteq> []" using heap_okD(5) [OF assms(1)] dd by (fastforce simp: bucket_ok_def)
    then have "new_block_ok d (allocated s bs F) s (bd_freeptr (bdescs s b))
        (upd_bdesc b (\<lambda>x. x\<lparr>bd_freeptr := pmem s (bd_freeptr (bdescs s b)), bd_refcnt := bd_refcnt x + 1\<rparr>) s)"
      using dd b by (intro take_new_block [OF assms(1)]) auto
    moreover have "malloc fuel len s = Ret (bd_freeptr (bdescs s b))
        (upd_bdesc b (\<lambda>x. x\<lparr>bd_freeptr := pmem s (bd_freeptr (bdescs s b)), bd_refcnt := bd_refcnt x + 1\<rparr>) s)"
      using fd Some d dd b(3) by (simp add: malloc_def Let_def)
    ultimately show ?thesis using dd by blast
  qed
qed

section \<open>free_s\<close>

lemma bucket_count: "length bucket_sizes = 9"
  by (simp add: bucket_sizes_def)

lemma page_of_mask: "x AND 0xfffff000 = page_of x"
  by (simp add: page_of_def and.commute)

text \<open>The search of a chain for a page: the descriptor before is the last one passed.\<close>

lemma find_page_linked:
  "linked (desc_next s) (ptr p) xs \<Longrightarrow> length xs < n \<Longrightarrow>
     (\<forall>x\<in>set xs. page_at s x \<noteq> page) \<Longrightarrow> \<exists>q. find_page n page q0 p s = Ret (q, 0) s"
proof (induction xs arbitrary: p n q0)
  case Nil
  then show ?case by (cases n) auto
next
  case (Cons x xs)
  then obtain m where n: "n = Suc m" by (cases n) auto
  show ?case using Cons.IH [of "bd_next (bdescs s x)" m x] Cons.prems n by auto
qed

lemma find_page_found:
  "linked (desc_next s) (ptr p) (ys @ b # zs) \<Longrightarrow> length ys < n \<Longrightarrow> page_at s b = page \<Longrightarrow>
     (\<forall>x\<in>set ys. page_at s x \<noteq> page) \<Longrightarrow> find_page n page q p s = Ret (if ys = [] then q else last ys, b) s"
proof (induction ys arbitrary: p n q)
  case Nil
  then show ?case by (cases n) auto
next
  case (Cons x xs)
  then obtain m where n: "n = Suc m" by (cases n) auto
  show ?case using Cons.IH [of "bd_next (bdescs s x)" m x] Cons.prems n by auto
qed

lemma search_page_found:
  assumes ok: "heap_ok s bs fs F" and d: "d < 9" "bs d = ys @ b # zs" and n: "\<forall>d<9. length (bs d) < fuel" and z: "z \<le> int (bsize d)"
  shows "search_page fuel [0..<9] z (page_at s b) s = Ret (d, if ys = [] then 0 else last ys, b) s"
proof -
  have b: "b \<in> set (bs d)" "b \<noteq> 0" using d linked_nonzero [OF heap_okD(1) [OF ok d(1)]] by auto
  then have bc: "b \<in> chained bs" using d(1) by blast
  have inj: "c = b" if "page_at s c = page_at s b" "c \<in> set (bs e)" "e < 9" for c e
    using heap_okD(6) [OF ok] that bc by (auto simp: inj_on_def)
  have no: "\<exists>q. find_page fuel (page_at s b) 0 (bucket_chain s e) s = Ret (q, 0) s" if e: "e < d" for e
  proof (rule find_page_linked [OF heap_okD(1) [OF ok]])
    show "\<forall>c\<in>set (bs e). page_at s c \<noteq> page_at s b" using inj heap_okD(2) [OF ok _ d(1)] b(1) e d(1) by (metis less_irrefl less_trans)
  qed (use e d(1) n in auto)
  have dist: "distinct (ys @ b # zs)" using linked_distinct [OF heap_okD(1) [OF ok d(1)]] d(2) by simp
  have yes: "find_page fuel (page_at s b) 0 (bucket_chain s d) s = Ret (if ys = [] then 0 else last ys, b) s"
  proof (rule find_page_found)
    show "\<forall>x\<in>set ys. page_at s x \<noteq> page_at s b" using inj [OF _ _ d(1)] d(2) dist by fastforce
  qed (use heap_okD(1) [OF ok d(1)] d n in auto)
  have "search_page fuel [k..<9] z (page_at s b) s = Ret (d, if ys = [] then 0 else last ys, b) s" if "k \<le> d" for k
    using that
  proof (induction rule: inc_induct)
    case base
    then show ?case using yes b(2) z d(1) by (simp add: upt_conv_Cons)
  next
    case (step k)
    then show ?case using no [of k] d(1) by (auto simp: upt_conv_Cons [of k 9])
  qed
  from this [of 0] show ?thesis by simp
qed

text \<open>A block goes back on the chain of its page.\<close>

lemma put_block:
  assumes ok: "heap_ok s bs fs F" and b: "d < 9" "b \<in> set (bs d)" and r: "r \<in> set (blocks d (page_at s b))" "r \<notin> set (F b)"
  defines "t \<equiv> upd_bdesc b (\<lambda>x. x\<lparr>bd_freeptr := r, bd_refcnt := bd_refcnt x - 1\<rparr>) (s\<lparr>pmem := (pmem s)(r := bd_freeptr (bdescs s b))\<rparr>)"
  shows "heap_ok t bs fs (F(b := r # F b))" and "allocated t bs (F(b := r # F b)) = allocated s bs F - {(r, bsize d)}"
proof -
  let ?F = "F(b := r # F b)"
  have k: "bucket_ok s d b (F b)" using heap_okD(5) [OF ok b] .
  then have h: "held s (page_at s b)" and c: "unat (bd_refcnt (bdescs s b)) + length (F b) = bcount d"
    and l: "linked (\<lambda>x. ptr (pmem s x)) (ptr (bd_freeptr (bdescs s b))) (F b)" and sub: "set (F b) \<subseteq> set (blocks d (page_at s b))"
    by (auto simp: bucket_ok_def)
  note bf = blocks_facts [OF h b(1)]
  have "length (F b) < bcount d"
    using linked_distinct [OF l] sub r bf(3,5) psubset_card_mono [of "set (blocks d (page_at s b))" "set (F b)"]
    by (metis List.finite_set distinct_card psubsetI)
  then have "unat (bd_refcnt (bdescs s b) - 1) + Suc (length (F b)) = bcount d" using c by (subst unat_minus_1) auto
  moreover have g: "page_at t = page_at s" "desc_next t = desc_next s" "mem_map t = mem_map s" "high_memory t = high_memory s"
    "bucket_chain t = bucket_chain s" "free_bucket_desc t = free_bucket_desc s" "\<And>c. c \<noteq> b \<Longrightarrow> bdescs t c = bdescs s c"
    by (simp_all add: t_def fun_eq_iff)
  have hl: "held t = held s" by (simp add: held_def fun_eq_iff g)
  have "linked (\<lambda>x. ptr (pmem t x)) (ptr (bd_freeptr (bdescs s b))) (F b)"
    using l r(2) by (subst linked_cong [where nx' = "\<lambda>x. ptr (pmem s x)"]) (auto simp: t_def)
  ultimately have kb: "bucket_ok t d b (r # F b)"
    using k r(1) bf(2) [OF r(1)] by (simp add: bucket_ok_def hl g) (simp add: t_def)
  have "bucket_ok t e c (?F c)" if e: "e < 9" "c \<in> set (bs e)" for e c
  proof (cases "c = b")
    case True
    then have "e = d" using heap_okD(2) [OF ok b(1) e(1) b(2)] e(2) by simp
    then show ?thesis using kb True by simp
  next
    case False
    then have "page_at s c \<noteq> page_at s b" using heap_okD(6) [OF ok] b e by (auto simp: inj_on_def)
    then have "pmem t a = pmem s a" if "page_of a = page_at s c" for a using that bf(1) [OF r(1)] by (auto simp: t_def)
    then show ?thesis using bucket_ok_mono [OF heap_okD(5) [OF ok e] e(1) g(7) [OF False]] hl False by simp
  qed
  moreover have g': "page_at t c = page_at s c" for c by (simp add: t_def)
  ultimately show "heap_ok t bs fs ?F" using ok unfolding heap_ok_def hl g by simp
  have "(x, n) \<in> allocated t bs ?F \<longleftrightarrow> (x, n) \<in> allocated s bs F \<and> (x, n) \<noteq> (r, bsize d)" for x n
  proof -
    have own: "c = b" if "e < 9" "c \<in> set (bs e)" "r \<in> set (blocks e (page_at s c))" for c e
      using bf(1) [OF r(1)] blocks_facts(1) [OF heap_okD(10) [OF ok] that(1,3)] heap_okD(6) [OF ok] b that by (auto simp: inj_on_def)
    have "x \<notin> set (?F c) \<longleftrightarrow> x \<notin> set (F c) \<and> (x, n) \<noteq> (r, bsize d)"
      if "e < 9" "c \<in> set (bs e)" "n = bsize e" "x \<in> set (blocks e (page_at s c))" for c e
      using own [OF that(1,2)] that(3,4) heap_okD(2) [OF ok that(1) b(1)] that(2) b(2) by (cases "c = b") auto
    then show ?thesis unfolding allocated_iff g' by blast
  qed
  then show "allocated t bs ?F = allocated s bs F - {(r, bsize d)}" by auto
qed

text \<open>A page without a block in use is taken off its chain and given back.\<close>

lemma linked_remove:
  assumes "linked nx p (ys @ b # zs)"
  shows "linked (if ys = [] then nx else nx(last ys := nx b)) (if ys = [] then nx b else p) (ys @ zs)"
proof (cases "ys = []")
  case True
  then show ?thesis using assms by simp
next
  case False
  have dist: "distinct (ys @ b # zs)" by (rule linked_distinct [OF assms])
  then have "last ys \<notin> set zs" "distinct ys" using last_in_set [OF False] by auto
  then show ?thesis using assms False by (auto simp: linked_append)
qed

lemma linked_before: "linked nx p (ys @ b # zs) \<Longrightarrow> if ys = [] then p = Some b else nx (last ys) = Some b"
  using linked_distinct [of nx p "ys @ b # zs"] by (cases "ys = []") (auto simp: linked_append)

definition unlinked :: "nat \<Rightarrow> u32 list \<Rightarrow> u32 \<Rightarrow> 'a malloc_state_scheme \<Rightarrow> 'a malloc_state_scheme" where
  "unlinked d ys b s =
     (let n = bd_next (bdescs s b); i = MAP_NR (page_at s b);
          s = (if ys = [] then s\<lparr>bucket_chain := (bucket_chain s)(d := n)\<rparr> else upd_bdesc (last ys) (\<lambda>x. x\<lparr>bd_next := n\<rparr>) s);
          s = s\<lparr>mem_map := (mem_map s)(i := mem_map s i - 1)\<rparr>;
          s = upd_bdesc b (\<lambda>x. x\<lparr>bd_next := free_bucket_desc s\<rparr>) s
      in s\<lparr>free_bucket_desc := b\<rparr>)"

lemma drop_bucket_unlinked:
  assumes ok: "heap_ok s bs fs F" and d: "d < 9" "bs d = ys @ b # zs"
  shows "drop_bucket fuel d (if ys = [] then 0 else last ys) b s = Ret () (unlinked d ys b s)"
proof -
  note l = heap_okD(1) [OF ok d(1), unfolded d(2)]
  have nz: "0 \<notin> set (ys @ b # zs)" by (rule linked_nonzero [OF l])
  have dist: "distinct (ys @ b # zs)" by (rule linked_distinct [OF l])
  have "b \<in> set (bs d)" using d(2) by simp
  then have "b \<in> chained bs" using d(1) by blast
  then obtain i where i: "i < PAGING_PAGES" "page_at s b = frame_addr i" "mem_map s i \<noteq> 0" "frame_addr i < high_memory s"
    using heap_okD(10) [OF ok] by (auto simp: held_def)
  show ?thesis
  proof (cases "ys = []")
    case True
    then show ?thesis using linked_before [OF l] i
      by (simp add: drop_bucket_def unlinked_def Let_def free_page_ok frame_addr_simps)
  next
    case False
    then have "last ys \<noteq> 0" "last ys \<noteq> b" using nz dist last_in_set [OF False] by (metis Un_iff set_append, auto)
    then show ?thesis using False linked_before [OF l] i
      by (simp add: drop_bucket_def unlinked_def Let_def free_page_ok frame_addr_simps)
  qed
qed

lemma unlinked_fields:
  assumes "ys = [] \<or> last ys \<noteq> b"
  shows "page_at (unlinked d ys b s) c = page_at s c" "bd_freeptr (bdescs (unlinked d ys b s) c) = bd_freeptr (bdescs s c)"
    "bd_size (bdescs (unlinked d ys b s) c) = bd_size (bdescs s c)" "bd_refcnt (bdescs (unlinked d ys b s) c) = bd_refcnt (bdescs s c)"
    "pmem (unlinked d ys b s) = pmem s" "high_memory (unlinked d ys b s) = high_memory s"
    "free_bucket_desc (unlinked d ys b s) = b"
    "mem_map (unlinked d ys b s) = (mem_map s)(MAP_NR (page_at s b) := mem_map s (MAP_NR (page_at s b)) - 1)"
    "bucket_chain (unlinked d ys b s) = (if ys = [] then (bucket_chain s)(d := bd_next (bdescs s b)) else bucket_chain s)"
    "desc_next (unlinked d ys b s) =
       (if ys = [] then desc_next s else (desc_next s)(last ys := desc_next s b))(b := ptr (free_bucket_desc s))"
  using assms by (auto simp: unlinked_def Let_def fun_eq_iff)

lemma unlinked_ok:
  assumes ok: "heap_ok s bs fs F" and d: "d < 9" "bs d = ys @ b # zs" and rc: "bd_refcnt (bdescs s b) = 0"
  defines "t \<equiv> unlinked d ys b s" and "bs' \<equiv> bs(d := ys @ zs)"
  shows "heap_ok t bs' (b # fs) F" and "allocated t bs' F = allocated s bs F"
proof -
  note l = heap_okD(1) [OF ok d(1), unfolded d(2)]
  have dist: "distinct (ys @ b # zs)" by (rule linked_distinct [OF l])
  then have ly: "ys = [] \<or> last ys \<noteq> b" by auto
  note f = unlinked_fields [OF ly, of d s, folded t_def]
  have b: "b \<in> set (bs d)" "b \<noteq> 0" using d(2) linked_nonzero [OF l] by auto
  then have bc: "b \<in> chained bs" using d(1) by blast
  have mem: "c \<in> set (bs' e) \<longleftrightarrow> c \<in> set (bs e) \<and> c \<noteq> b" if "e < 9" for c e
  proof (cases "e = d")
    case True
    then show ?thesis using d(2) dist by (auto simp: bs'_def)
  next
    case False
    then show ?thesis using heap_okD(2) [OF ok that d(1) _ b(1)] by (auto simp: bs'_def)
  qed
  have ch: "chained bs' = chained bs - {b}" using mem by (auto simp: chained_def)
  have lyc: "ys \<noteq> [] \<Longrightarrow> last ys \<in> set (bs d) \<and> last ys \<in> chained bs"
    using chainedI [OF _ d(1), of "last ys" bs] last_in_set [of ys] d(2) by simp
  obtain i where i: "i < PAGING_PAGES" "page_at s b = frame_addr i" "frame_addr i < high_memory s"
    using heap_okD(10) [OF ok bc] by (auto simp: held_def)
  have hl: "held t p" if "held s p" "p \<noteq> page_at s b" for p using that i by (auto simp: held_def f)
  have other: "page_at s c \<noteq> page_at s b" if "c \<in> chained bs" "c \<noteq> b" for c
    using heap_okD(6) [OF ok] that bc by (auto simp: inj_on_def)
  have 1: "linked (desc_next t) (ptr (bucket_chain t e)) (bs' e)" if e: "e < 9" for e
  proof (cases "e = d")
    case True
    then show ?thesis using linked_remove [OF l] dist by (cases "ys = []") (auto simp: f bs'_def)
  next
    case False
    have "last ys \<notin> set (bs e)" if "ys \<noteq> []" using heap_okD(2) [OF ok e d(1)] lyc [OF that] False by blast
    moreover have "b \<notin> set (bs e)" using heap_okD(2) [OF ok e d(1)] b(1) False by blast
    ultimately show ?thesis using heap_okD(1) [OF ok e] False by (auto simp: f bs'_def)
  qed
  have 2: "set (bs' e) \<inter> set (bs' g) = {}" if "e < 9" "g < 9" "e \<noteq> g" for e g
    using heap_okD(2) [OF ok that(1,2)] mem that by blast
  have "last ys \<notin> set fs" if "ys \<noteq> []" using heap_okD(4) [OF ok] lyc [OF that] by blast
  moreover have bf: "b \<notin> set fs" using heap_okD(4) [OF ok] bc by blast
  ultimately have 3: "linked (desc_next t) (ptr (free_bucket_desc t)) (b # fs)" using heap_okD(3) [OF ok] b(2) by (auto simp: f)
  have 4: "set (b # fs) \<inter> chained bs' = {}" using heap_okD(4) [OF ok] unfolding ch by auto
  have 5: "bucket_ok t e c (F c)" if c: "e < 9" "c \<in> set (bs' e)" for e c
  proof -
    have c': "c \<in> set (bs e)" "c \<noteq> b" using mem [OF c(1)] c(2) by auto
    then have "held t (page_at s c)" using hl heap_okD(10) [OF ok] other c(1) by blast
    then show ?thesis using heap_okD(5) [OF ok c(1) c'(1)] by (simp add: bucket_ok_def f)
  qed
  have 6: "inj_on (page_at t) (chained bs')" using heap_okD(6) [OF ok] unfolding ch by (auto simp: inj_on_def f)
  have 7: "held t (page_of c) \<and> (\<forall>x\<in>chained bs'. page_at t x \<noteq> page_of c)" if "c \<in> chained bs' \<union> set (b # fs)" for c
  proof -
    have c: "c \<in> chained bs \<union> set fs" using that bc unfolding ch by auto
    then have "held t (page_of c)" using hl heap_okD(7,8) [OF ok c] bc by metis
    moreover have "page_at t x \<noteq> page_of c" if "x \<in> chained bs'" for x using heap_okD(8) [OF ok c] that unfolding ch f by blast
    ultimately show ?thesis by blast
  qed
  have 8: "mem_map t j \<noteq> 0" if j: "j < PAGING_PAGES" "high_memory t \<le> frame_addr j" for j
  proof -
    have "j \<noteq> i" using i(3) j(2) unfolding f by auto
    then show ?thesis using heap_okD(9) [OF ok j(1)] j(2) i by (simp add: f)
  qed
  show "heap_ok t bs' (b # fs) F" unfolding heap_ok_def
    by (intro conjI allI ballI impI) (rule 1 2 3 4 5 6 8 7 [THEN conjunct1] 7 [THEN conjunct2, THEN bspec]; assumption)+
  have "bucket_ok s d b (F b)" using heap_okD(5) [OF ok d(1) b(1)] .
  then have F: "set (F b) \<subseteq> set (blocks d (page_at s b))" "length (F b) = bcount d" "distinct (F b)" "held s (page_at s b)"
    using rc linked_distinct by (auto simp: bucket_ok_def)
  then have "set (F b) = set (blocks d (page_at s b))"
    using blocks_facts(3,5) [OF F(4) d(1)] by (intro card_subset_eq) (simp_all add: distinct_card)
  then have "(x, n) \<in> allocated t bs' F \<longleftrightarrow> (x, n) \<in> allocated s bs F" for x n
    unfolding allocated_iff f using mem heap_okD(2) [OF ok _ d(1) _ b(1)] by (metis (full_types))
  then show "allocated t bs' F = allocated s bs F" by auto
qed

text \<open>The count of a page is 0 exactly when none of its blocks is in use.\<close>

definition page_unused :: "u32 \<Rightarrow> (u32 \<times> nat) set \<Rightarrow> bool" where
  "page_unused p A \<longleftrightarrow> (\<forall>(x, m)\<in>A. page_of x \<noteq> p)"

lemma page_unused_iff:
  assumes ok: "heap_ok s bs fs F" and d: "d < 9" "b \<in> set (bs d)"
  shows "page_unused (page_at s b) (allocated s bs F) \<longleftrightarrow> bd_refcnt (bdescs s b) = 0"
proof -
  have bk: "bucket_ok s d b (F b)" using heap_okD(5) [OF ok d] .
  then have h: "held s (page_at s b)" and c: "unat (bd_refcnt (bdescs s b)) + length (F b) = bcount d"
    and sub: "set (F b) \<subseteq> set (blocks d (page_at s b))" and dist: "distinct (F b)"
    using linked_distinct by (auto simp: bucket_ok_def)
  note bf = blocks_facts [OF h d(1)]
  have card: "card (set (blocks d (page_at s b))) = bcount d" "card (set (F b)) = length (F b)"
    using bf(3,5) dist by (simp_all add: distinct_card)
  have "bd_refcnt (bdescs s b) = 0 \<longleftrightarrow> set (F b) = set (blocks d (page_at s b))"
    using c card card_subset_eq [OF _ sub] by (auto simp: unat_eq_0 [symmetric])
  also have "\<dots> \<longleftrightarrow> (\<forall>x\<in>set (blocks d (page_at s b)). x \<in> set (F b))" using sub by blast
  also have "\<dots> \<longleftrightarrow> page_unused (page_at s b) (allocated s bs F)"
  proof
    assume all: "\<forall>x\<in>set (blocks d (page_at s b)). x \<in> set (F b)"
    have "page_of x \<noteq> page_at s b" if xm: "(x, m) \<in> allocated s bs F" for x m
    proof -
      obtain e c where e: "e < 9" "c \<in> set (bs e)" "x \<in> set (blocks e (page_at s c))" "x \<notin> set (F c)"
        using xm unfolding allocated_iff by blast
      have c: "c \<in> chained bs" "b \<in> chained bs" using e(1,2) d by blast+
      have "c \<noteq> b" using all e heap_okD(2) [OF ok e(1) d(1) e(2)] d(2) by auto
      then show ?thesis
        using blocks_facts(1) [OF heap_okD(10) [OF ok c(1)] e(1,3)] inj_onD [OF heap_okD(6) [OF ok] _ c] by auto
    qed
    then show "page_unused (page_at s b) (allocated s bs F)" by (auto simp: page_unused_def)
  next
    assume un: "page_unused (page_at s b) (allocated s bs F)"
    have "(x, bsize d) \<in> allocated s bs F" if "x \<in> set (blocks d (page_at s b))" "x \<notin> set (F b)" for x
      using d that unfolding allocated_iff by blast
    then show "\<forall>x\<in>set (blocks d (page_at s b)). x \<in> set (F b)" using un bf(1) unfolding page_unused_def by blast
  qed
  finally show ?thesis by blast
qed

text \<open>C37: \<open>free_s\<close> of a block in use, with a size that is 0 or no more than the block's: it returns without a
  panic, that block and no other stops being in use, it becomes the first free block of its page, no byte of the other blocks changes, and the
  heap stays well formed. When no block of the page is in use any more, the page's frame has one user less in the page
  allocator, and its descriptor \<open>b\<close> is taken off the chain of its size and is the first of the unused ones; otherwise the chains and the
  frames are as before.\<close>

theorem free_s_correct:
  assumes ok: "heap_ok s bs fs F" and o: "(obj, n) \<in> allocated s bs F" and z: "z \<le> int n" and fu: "\<forall>d<9. length (bs d) < fuel"
  shows "\<exists>t d b bs' fs' F'. free_s fuel obj z s = Ret () t \<and> d < 9 \<and> b \<in> set (bs d) \<and> page_at s b = page_of obj \<and>
    heap_ok t bs' fs' F' \<and> F' = F(b := obj # F b) \<and> allocated t bs' F' = allocated s bs F - {(obj, n)} \<and>
    (if page_unused (page_of obj) (allocated s bs F - {(obj, n)})
     then bs' = bs(d := remove1 b (bs d)) \<and> fs' = b # fs \<and>
       mem_map t = (mem_map s)(MAP_NR (page_of obj) := mem_map s (MAP_NR (page_of obj)) - 1)
     else bs' = bs \<and> fs' = fs \<and> mem_map t = mem_map s) \<and>
    (\<forall>(x, m)\<in>allocated s bs F - {(obj, n)}. \<forall>a\<in>range_of x m. pmem t a = pmem s a)"
proof -
  obtain d b where d: "d < 9" "b \<in> set (bs d)" "n = bsize d" "obj \<in> set (blocks d (page_at s b))" "obj \<notin> set (F b)"
    using o unfolding allocated_iff by blast
  then obtain ys zs where bs: "bs d = ys @ b # zs" by (meson split_list)
  have "b \<in> chained bs" using d(1,2) by blast
  then have pg: "page_of obj = page_at s b" using blocks_facts(1) [OF heap_okD(10) [OF ok] d(1,4)] by blast
  let ?p = "if ys = [] then 0 else last ys"
  define u where "u = upd_bdesc b (\<lambda>x. x\<lparr>bd_freeptr := obj, bd_refcnt := bd_refcnt x - 1\<rparr>) (s\<lparr>pmem := (pmem s)(obj := bd_freeptr (bdescs s b))\<rparr>)"
  note pb = put_block [OF ok d(1,2,4,5), folded u_def d(3)]
  have fr: "free_s fuel obj z s = (if bd_refcnt (bdescs u b) = 0 then drop_bucket fuel d ?p b u else Ret () u)"
    using search_page_found [OF ok d(1) bs fu, of z] z d(3)
    by (simp add: free_s_def page_of_mask pg u_def Let_def bucket_count)
  have uf: "page_at u b = page_at s b" "mem_map u = mem_map s" by (simp_all add: u_def)
  have un: "page_unused (page_of obj) (allocated s bs F - {(obj, n)}) \<longleftrightarrow> bd_refcnt (bdescs u b) = 0"
    using page_unused_iff [OF pb(1) d(1,2)] unfolding pb(2) uf pg .
  have keep: "pmem u a = pmem s a" if x: "(x, m) \<in> allocated s bs F - {(obj, n)}" "a \<in> range_of x m" for x m a
  proof -
    obtain e c where e: "e < 9" "c \<in> set (bs e)" "m = bsize e" "x \<in> set (blocks e (page_at s c))"
      using x(1) unfolding allocated_iff Diff_iff by blast
    have "(b, obj) \<noteq> (c, x)" using x(1) heap_okD(2) [OF ok d(1) e(1) d(2)] e(2,3) d(3) by auto
    then have "range_of obj n \<inter> range_of x m = {}" using blocks_apart [OF ok d(1,2,4) e(1,2,4)] d(3) e(3) by simp
    moreover have "obj \<in> range_of obj n" using bsize_facts [OF d(1)] d(3) by (simp add: range_of_def)
    ultimately have "a \<noteq> obj" using x(2) by blast
    then show ?thesis by (simp add: u_def)
  qed
  show ?thesis
  proof (cases "bd_refcnt (bdescs u b) = 0")
    case False
    then have "free_s fuel obj z s = Ret () u" using fr by simp
    moreover have "\<forall>(x, m)\<in>allocated s bs F - {(obj, n)}. \<forall>a\<in>range_of x m. pmem u a = pmem s a" using keep by blast
    ultimately show ?thesis
      using False un pb d(1,2) pg uf(2) by (intro exI [of _ u] exI [of _ d] exI [of _ b] exI [of _ bs] exI [of _ fs]) simp
  next
    case True
    let ?t = "unlinked d ys b u"
    have ly: "b \<notin> set ys" "ys = [] \<or> last ys \<noteq> b" using linked_distinct [OF heap_okD(1) [OF ok d(1)]] bs by auto
    note f = unlinked_fields [OF ly(2), of d u]
    have r: "remove1 b (bs d) = ys @ zs" using bs ly(1) by (simp add: remove1_append)
    have "free_s fuel obj z s = Ret () ?t" using fr True drop_bucket_unlinked [OF pb(1) d(1) bs] by simp
    moreover have "\<forall>(x, m)\<in>allocated s bs F - {(obj, n)}. \<forall>a\<in>range_of x m. pmem ?t a = pmem s a" unfolding f(5) using keep by blast
    ultimately show ?thesis
      using True un unlinked_ok [OF pb(1) d(1) bs True] pb(2) d(1,2) pg uf f(8)
      by (intro exI [of _ ?t] exI [of _ d] exI [of _ b] exI [of _ "bs(d := ys @ zs)"] exI [of _ "b # fs"]) (simp add: r)
  qed
qed

text \<open>A heap with one page in use, as one block: the descriptor is in frame 1 and the block is frame 0.\<close>

definition one_block_heap :: malloc_state where
  "one_block_heap = \<lparr>mem_map = (\<lambda>i. if i \<le> 1 then 1 else 0), high_memory = 0x1000000, pmem = (\<lambda>_. 0),
     bdescs = (\<lambda>_. \<lparr>bd_page = frame_addr 0, bd_next = 0, bd_freeptr = 0, bd_refcnt = 1, bd_size = 4096\<rparr>),
     bucket_chain = (\<lambda>d. if d = 8 then frame_addr 1 else 0), free_bucket_desc = 0\<rparr>"

lemma one_block_heap_ok:
  "heap_ok one_block_heap (\<lambda>d. if d = 8 then [frame_addr 1] else []) [] (\<lambda>_. [])"
  "allocated one_block_heap (\<lambda>d. if d = 8 then [frame_addr 1] else []) (\<lambda>_. []) = {(frame_addr 0, 4096)}"
proof -
  let ?bs = "\<lambda>d::nat. if d = 8 then [frame_addr 1] else []"
  have ch: "chained ?bs = {frame_addr 1}" by (auto simp: chained_def split: if_splits)
  have f: "frame_addr 0 = 0x100000" "frame_addr (Suc 0) = 0x101000" "bsize 8 = 4096" by (simp_all add: frame_addr_def bucket_sizes_def)
  have bl: "blocks 8 (frame_addr 0) = [frame_addr 0]" by (simp add: blocks_def steps_def f)
  have h: "held one_block_heap (frame_addr 0)"
    unfolding held_def by (rule exI [of _ 0]) (simp add: one_block_heap_def PAGING_PAGES_def f)
  have h1: "held one_block_heap (frame_addr 1)" "page_of (frame_addr 1) = frame_addr 1"
    unfolding held_def by (rule exI [of _ 1]) (simp_all add: one_block_heap_def PAGING_PAGES_def f page_of_def)
  have top: "frame_addr i < 0x1000000" if "i < PAGING_PAGES" for i
    using that unat_frame_addr [OF that] by (simp add: word_less_nat_alt PAGING_PAGES_def)
  have pg: "page_at one_block_heap b = frame_addr 0" for b by (simp add: one_block_heap_def)
  have "\<forall>d<9. linked (desc_next one_block_heap) (ptr (bucket_chain one_block_heap d)) (?bs d)" by (simp add: one_block_heap_def f)
  moreover have "\<forall>d<9. \<forall>b\<in>set (?bs d). bucket_ok one_block_heap d b []"
  proof -
    have "bucket_ok one_block_heap 8 b []" for b
      unfolding bucket_ok_def using h f(3) by (simp add: pg del: frame_addr_simps) (simp add: one_block_heap_def)
    then show ?thesis by simp
  qed
  moreover have "linked (desc_next one_block_heap) (ptr (free_bucket_desc one_block_heap)) []" by (simp add: one_block_heap_def)
  moreover have "high_memory one_block_heap = 0x1000000" by (simp add: one_block_heap_def)
  moreover have "frame_addr 0 \<noteq> frame_addr 1" by (simp add: f)
  moreover have "\<forall>d<9. \<forall>e<9. d \<noteq> e \<longrightarrow> set (?bs d) \<inter> set (?bs e) = {}" by auto
  moreover have "\<forall>i<PAGING_PAGES. \<not> 0x1000000 \<le> frame_addr i" using top by (simp add: not_le)
  ultimately show "heap_ok one_block_heap ?bs [] (\<lambda>_. [])"
    unfolding heap_ok_def ch using h1 by (simp add: pg inj_on_def)
  show "allocated one_block_heap ?bs (\<lambda>_. []) = {(frame_addr 0, 4096)}"
    unfolding allocated_def using bl by (auto simp: f one_block_heap_def split: if_splits)
qed

theorem malloc_correct_witness:
  "\<exists>r t d. malloc 2 100 one_block_heap = Ret r t \<and> d < 9 \<and> 100 \<le> bsize d \<and> (\<forall>e<d. bsize e < 100) \<and>
     new_block_ok d {(frame_addr 0, 4096)} one_block_heap r t"
proof -
  have "\<not> full one_block_heap t" for t :: malloc_state
  proof
    assume "full one_block_heap t"
    then obtain i where "\<forall>j<PAGING_PAGES. mem_map one_block_heap j = 0 \<longrightarrow> j = i" unfolding full_def by blast
    then have "(2::nat) = i" "(3::nat) = i" by (simp_all add: one_block_heap_def PAGING_PAGES_def)
    then show False by simp
  qed
  then show ?thesis using malloc_correct [OF one_block_heap_ok(1), of 100 2] unfolding one_block_heap_ok(2) by auto
qed

theorem free_s_correct_witness:
  "\<exists>t b bs' fs' F'. free_s 2 (frame_addr 0) 4096 one_block_heap = Ret () t \<and> heap_ok t bs' (b # fs') F' \<and> allocated t bs' F' = {} \<and>
     mem_map t 0 = 0"
proof -
  let ?bs = "\<lambda>d::nat. if d = 8 then [frame_addr 1] else []"
  have fu: "\<forall>d<9. length (?bs d) < 2" by simp
  have o: "(frame_addr 0, 4096) \<in> allocated one_block_heap ?bs (\<lambda>_. [])" unfolding one_block_heap_ok(2) by simp
  have un: "page_unused (page_of (frame_addr 0)) (allocated one_block_heap ?bs (\<lambda>_. []) - {(frame_addr 0, 4096)})"
    unfolding one_block_heap_ok(2) page_unused_def by simp
  have nr: "MAP_NR (page_of (frame_addr 0)) = 0" by (simp add: frame_addr_simps PAGING_PAGES_def)
  have z: "(4096::int) \<le> int 4096" by simp
  obtain t d b bs' fs' F' where
    t: "free_s 2 (frame_addr 0) 4096 one_block_heap = Ret () t" "heap_ok t bs' fs' F'"
      "allocated t bs' F' = allocated one_block_heap ?bs (\<lambda>_. []) - {(frame_addr 0, 4096)}" and fs: "fs' = [b]"
    and m: "mem_map t = (mem_map one_block_heap)(0 := mem_map one_block_heap 0 - 1)"
    using free_s_correct [OF one_block_heap_ok(1) o z fu] unfolding if_P [OF un] nr by (elim exE conjE) (rule that)
  have "allocated t bs' F' = {}" using t(3) unfolding one_block_heap_ok(2) by simp
  moreover have "mem_map t 0 = 0" unfolding m by (simp add: one_block_heap_def)
  ultimately show ?thesis using t(1,2) unfolding fs by metis
qed

end
