(* ===== verification/Task.thy ===== *)
theory Task
  imports Memory "HOL-Library.Signed_Division"
begin

text \<open>
  The task structure (\<^verbatim>\<open>include/linux/sched.h\<close>), the segment descriptors of its local table, and
  the state that the task code keeps: the store of task structures, the table \<open>task\<close> of pointers
  into it, the current task, the clock, the timers and the floppy motor counters.

  A pointer to a task structure is its address (0 is NULL); the structures are in a store from
  addresses, so a pointer that outlives its task still names what is stored there. A C \<open>long\<close> is a
  32-bit word, compared as signed (\<open><s\<close>) where the code compares longs. \<open>ports\<close> is the value that
  each I/O port holds.
\<close>

section \<open>Signals and states\<close>

type_synonym s32 = "32 word"

text \<open>Division of C longs truncates towards zero.\<close>

definition sdiv32 :: "s32 \<Rightarrow> s32 \<Rightarrow> s32" where
  "sdiv32 x y = word_of_int (sint x sdiv sint y)"

abbreviation (input) SIGHUP :: int where "SIGHUP \<equiv> 1"
abbreviation (input) SIGKILL :: int where "SIGKILL \<equiv> 9"
abbreviation (input) SIGALRM :: int where "SIGALRM \<equiv> 14"
abbreviation (input) SIGCHLD :: int where "SIGCHLD \<equiv> 17"
abbreviation (input) SIGSTOP :: int where "SIGSTOP \<equiv> 19"

text \<open>\<open>_S(nr)\<close>: the bit of a signal in a mask.\<close>

definition sig_bit :: "int \<Rightarrow> u32" where
  "sig_bit nr = push_bit (nat (nr - 1)) 1"

definition BLOCKABLE :: u32 where
  "BLOCKABLE = NOT (sig_bit SIGKILL OR sig_bit SIGSTOP)"

abbreviation (input) TASK_RUNNING :: s32 where "TASK_RUNNING \<equiv> 0"
abbreviation (input) TASK_INTERRUPTIBLE :: s32 where "TASK_INTERRUPTIBLE \<equiv> 1"
abbreviation (input) TASK_UNINTERRUPTIBLE :: s32 where "TASK_UNINTERRUPTIBLE \<equiv> 2"
abbreviation (input) TASK_ZOMBIE :: s32 where "TASK_ZOMBIE \<equiv> 3"
abbreviation (input) TASK_STOPPED :: s32 where "TASK_STOPPED \<equiv> 4"

definition NR_TASKS :: nat where
  "NR_TASKS = 64"

abbreviation (input) HZ :: nat where "HZ \<equiv> 100"

section \<open>Segment descriptors\<close>

record desc_struct =
  desc_a :: u32
  desc_b :: u32

text \<open>\<open>_set_base\<close> stores the base in bytes 2-3, 4 and 7 of the descriptor, \<open>_set_limit\<close> the limit in
  bytes 0-1 and the low nibble of byte 6 (whose high nibble holds flags).\<close>

definition set_base :: "desc_struct \<Rightarrow> u32 \<Rightarrow> desc_struct" where
  "set_base d base =
     \<lparr>desc_a = (desc_a d AND 0xffff) OR push_bit 16 (base AND 0xffff),
      desc_b = (desc_b d AND 0x00ffff00) OR (drop_bit 16 base AND 0xff) OR (base AND 0xff000000)\<rparr>"

definition set_limit :: "desc_struct \<Rightarrow> u32 \<Rightarrow> desc_struct" where
  "set_limit d limit =
     (let l = drop_bit 12 (limit - 1) in
      \<lparr>desc_a = (desc_a d AND 0xffff0000) OR (l AND 0xffff),
       desc_b = (desc_b d AND 0xff00ffff) OR
                push_bit 16 ((drop_bit 16 l AND 0xff) OR (drop_bit 16 (desc_b d) AND 0xf0))\<rparr>)"

definition get_base :: "desc_struct \<Rightarrow> u32" where
  "get_base d = drop_bit 16 (desc_a d) OR push_bit 16 (desc_b d AND 0xff) OR (desc_b d AND 0xff000000)"

text \<open>\<open>lsl\<close> gives the limit in bytes: the 20-bit limit, in pages when the granularity bit is set;
  \<open>get_limit\<close> adds 1.\<close>

definition get_limit :: "desc_struct \<Rightarrow> u32" where
  "get_limit d =
     (let l = (desc_a d AND 0xffff) OR (desc_b d AND 0x000f0000) in
      (if bit (desc_b d) 23 then push_bit 12 l OR 0xfff else l) + 1)"

section \<open>The task structure\<close>

type_synonym i387_struct = "nat \<Rightarrow> u32"

record tss_struct =
  tss_esp0 :: u32
  tss_ss0 :: u32
  tss_eip :: u32
  tss_eflags :: u32
  tss_eax :: u32
  tss_ecx :: u32
  tss_edx :: u32
  tss_ebx :: u32
  tss_esp :: u32
  tss_ebp :: u32
  tss_esi :: u32
  tss_edi :: u32
  tss_es :: u32
  tss_cs :: u32
  tss_ss :: u32
  tss_ds :: u32
  tss_fs :: u32
  tss_gs :: u32
  tss_ldt :: u32
  tss_back_link :: u32
  tss_trace_bitmap :: u32
  i387 :: i387_struct

record sigaction_struct =
  sa_handler :: u32
  sa_mask :: u32
  sa_flags :: u32
  sa_restorer :: u32

abbreviation (input) NR_OPEN :: nat where "NR_OPEN \<equiv> 20"

text \<open>Inodes and open files are named by their index in the inode table and the file table.\<close>

record task_struct =
  state :: s32
  counter :: s32
  priority :: s32
  signal :: u32
  sigaction :: "nat \<Rightarrow> sigaction_struct"
  blocked :: u32
  exit_code :: s32
  start_code :: u32
  end_code :: u32
  end_data :: u32
  brk :: u32
  start_stack :: u32
  pid :: s32
  father :: s32
  pgrp :: s32
  session :: s32
  leader :: s32
  uid :: u16
  euid :: u16
  suid :: u16
  gid :: u16
  egid :: u16
  sgid :: u16
  alarm :: s32
  utime :: s32
  stime :: s32
  cutime :: s32
  cstime :: s32
  start_time :: s32
  used_math :: u16
  tty :: s32
  umask :: u16
  pwd :: "nat option"
  root :: "nat option"
  executable :: "nat option"
  close_on_exec :: u32
  filp :: "nat \<Rightarrow> nat option"
  ldt :: "nat \<Rightarrow> desc_struct"
  tss :: tss_struct

text \<open>\<open>INIT_TASK\<close>: the first task, whose structure is at \<open>addr\<close>. Fields of the task state segment that
  nothing reads (the stacks of rings 1 and 2, cr3) are left out.\<close>

definition LDT_sel :: "nat \<Rightarrow> u32" where
  "LDT_sel n = push_bit 4 (of_nat n) + push_bit 3 5"

definition INIT_TASK :: "u32 \<Rightarrow> task_struct" where
  "INIT_TASK addr =
     \<lparr>state = 0, counter = 15, priority = 15, signal = 0,
      sigaction = (\<lambda>_. \<lparr>sa_handler = 0, sa_mask = 0, sa_flags = 0, sa_restorer = 0\<rparr>), blocked = 0,
      exit_code = 0, start_code = 0, end_code = 0, end_data = 0, brk = 0, start_stack = 0,
      pid = 0, father = -1, pgrp = 0, session = 0, leader = 0,
      uid = 0, euid = 0, suid = 0, gid = 0, egid = 0, sgid = 0,
      alarm = 0, utime = 0, stime = 0, cutime = 0, cstime = 0, start_time = 0, used_math = 0,
      tty = -1, umask = 18, pwd = None, root = None, executable = None, close_on_exec = 0,
      filp = (\<lambda>_. None),
      ldt = (\<lambda>_. \<lparr>desc_a = 0, desc_b = 0\<rparr>)
              (1 := \<lparr>desc_a = 0x9f, desc_b = 0xc0fa00\<rparr>, 2 := \<lparr>desc_a = 0x9f, desc_b = 0xc0f200\<rparr>),
      tss = \<lparr>tss_esp0 = 4096 + addr, tss_ss0 = 0x10, tss_eip = 0, tss_eflags = 0, tss_eax = 0, tss_ecx = 0,
             tss_edx = 0, tss_ebx = 0, tss_esp = 0, tss_ebp = 0, tss_esi = 0, tss_edi = 0,
             tss_es = 0x17, tss_cs = 0x17, tss_ss = 0x17, tss_ds = 0x17, tss_fs = 0x17, tss_gs = 0x17,
             tss_ldt = LDT_sel 0, tss_back_link = 0, tss_trace_bitmap = 0x80000000, i387 = (\<lambda>_. 0)\<rparr>\<rparr>"

section \<open>The state of the task code\<close>

text \<open>An entry of \<open>timer_list\<close>; \<open>tm_fn\<close> is the address of the handler, 0 for a free entry.\<close>

record timer =
  tm_jiffies :: s32
  tm_fn :: u32
  tm_next :: "nat option"

record sched_state = mm_state +
  tasks :: "u32 \<Rightarrow> task_struct"
  task :: "nat \<Rightarrow> u32"
  current :: u32
  init_task :: u32
  last_task_used_math :: u32
  fpu :: i387_struct
  jiffies :: s32
  startup_time :: s32
  timer_list :: "nat \<Rightarrow> timer"
  next_timer :: "nat option"
  wait_motor :: "nat \<Rightarrow> u32"
  mon_timer :: "nat \<Rightarrow> s32"
  moff_timer :: "nat \<Rightarrow> s32"
  current_DOR :: u8
  selected :: u8
  beepcount :: s32
  ports :: "u32 \<Rightarrow> u8"

text \<open>\<open>cur s\<close> is \<open>*current\<close>; \<open>upd_task\<close> and \<open>upd_cur\<close> write a structure through its pointer.\<close>

abbreviation cur :: "'a sched_state_scheme \<Rightarrow> task_struct" where
  "cur s \<equiv> tasks s (current s)"

definition upd_task :: "u32 \<Rightarrow> (task_struct \<Rightarrow> task_struct) \<Rightarrow> 'a sched_state_scheme \<Rightarrow> 'a sched_state_scheme" where
  "upd_task p f s = s\<lparr>tasks := (tasks s)(p := f (tasks s p))\<rparr>"

abbreviation upd_cur :: "(task_struct \<Rightarrow> task_struct) \<Rightarrow> 'a sched_state_scheme \<Rightarrow> 'a sched_state_scheme" where
  "upd_cur f s \<equiv> upd_task (current s) f s"

definition outb :: "u8 \<Rightarrow> u32 \<Rightarrow> 'a sched_state_scheme \<Rightarrow> 'a sched_state_scheme" where
  "outb v port s = s\<lparr>ports := (ports s)(port := v)\<rparr>"

text \<open>\<open>CURRENT_TIME\<close>\<close>

definition CURRENT_TIME :: "'a sched_state_scheme \<Rightarrow> s32" where
  "CURRENT_TIME s = startup_time s + sdiv32 (jiffies s) 100"

lemma upd_task_simps [simp]:
  "tasks (upd_task p f s) = (tasks s)(p := f (tasks s p))"
  "task (upd_task p f s) = task s" "current (upd_task p f s) = current s"
  "init_task (upd_task p f s) = init_task s" "jiffies (upd_task p f s) = jiffies s"
  "mem_map (upd_task p f s) = mem_map s" "pmem (upd_task p f s) = pmem s"
  "high_memory (upd_task p f s) = high_memory s"
  "last_task_used_math (upd_task p f s) = last_task_used_math s" "fpu (upd_task p f s) = fpu s"
  "timer_list (upd_task p f s) = timer_list s" "next_timer (upd_task p f s) = next_timer s"
  "wait_motor (upd_task p f s) = wait_motor s"
  by (simp_all add: upd_task_def)

end
