(* ===== verification/Sched.thy ===== *)
theory Sched
  imports Task
begin

text \<open>
  \<^verbatim>\<open>kernel/sched.c\<close>: the scheduler, sleeping and waking, the floppy motor counters, the timer list
  and the clock interrupt, and the short system calls at the end of the file.

  \<open>schedule\<close> ends with the switch to the chosen task. What the other tasks and the interrupts do
  until the switched-out task runs again is the argument \<open>E\<close> of the functions that sleep. A wait
  queue head is given by its reader and its writer. Printing, \<open>cli\<close> and \<open>sti\<close> change nothing
  that the model keeps.
\<close>

section \<open>The coprocessor\<close>

definition math_state_restore :: "i387_struct \<Rightarrow> 'a sched_state_scheme \<Rightarrow> 'a sched_state_scheme" where
  "math_state_restore fninit s =
     (if last_task_used_math s = current s then s
      else let s = (if last_task_used_math s \<noteq> 0
                    then upd_task (last_task_used_math s) (\<lambda>t. t\<lparr>tss := (tss t)\<lparr>i387 := fpu s\<rparr>\<rparr>) s
                    else s);
               s = s\<lparr>last_task_used_math := current s\<rparr>
           in if used_math (cur s) \<noteq> 0 then s\<lparr>fpu := i387 (tss (cur s))\<rparr>
              else upd_cur (\<lambda>t. t\<lparr>used_math := 1\<rparr>) (s\<lparr>fpu := fninit\<rparr>))"

section \<open>The scheduler\<close>

text \<open>The first loop of \<open>schedule\<close>: expired alarms become SIGALRM, and an interruptible task with a
  signal that is not blocked becomes runnable.\<close>

definition check_task :: "s32 \<Rightarrow> task_struct \<Rightarrow> task_struct" where
  "check_task now t =
     (let t = (if alarm t \<noteq> 0 \<and> alarm t <s now
               then t\<lparr>signal := signal t OR sig_bit SIGALRM, alarm := 0\<rparr> else t) in
      if signal t AND NOT (BLOCKABLE AND blocked t) \<noteq> 0 \<and> state t = TASK_INTERRUPTIBLE
      then t\<lparr>state := TASK_RUNNING\<rparr> else t)"

fun check_signals :: "nat \<Rightarrow> 'a sched_state_scheme \<Rightarrow> 'a sched_state_scheme" where
  "check_signals 0 s = s"
| "check_signals (Suc i) s =
     check_signals i (if task s (Suc i) \<noteq> 0 then upd_task (task s (Suc i)) (check_task (jiffies s)) s else s)"

text \<open>\<open>while (--i)\<close>: the runnable task with the largest counter, the highest number first.\<close>

fun pick :: "nat \<Rightarrow> 'a sched_state_scheme \<Rightarrow> s32 \<Rightarrow> nat \<Rightarrow> s32 \<times> nat" where
  "pick 0 s c next = (c, next)"
| "pick (Suc i) s c next =
     (let p = task s (Suc i) in
      if p \<noteq> 0 \<and> state (tasks s p) = TASK_RUNNING \<and> c <s counter (tasks s p)
      then pick i s (counter (tasks s p)) (Suc i) else pick i s c next)"

definition recharge_task :: "task_struct \<Rightarrow> task_struct" where
  "recharge_task t = t\<lparr>counter := signed_drop_bit 1 (counter t) + priority t\<rparr>"

fun recharge :: "nat \<Rightarrow> 'a sched_state_scheme \<Rightarrow> 'a sched_state_scheme" where
  "recharge 0 s = s"
| "recharge (Suc i) s =
     recharge i (if task s (Suc i) \<noteq> 0 then upd_task (task s (Suc i)) recharge_task s else s)"

text \<open>\<open>switch_to(n)\<close>\<close>

definition switch_to :: "nat \<Rightarrow> 'a sched_state_scheme \<Rightarrow> 'a sched_state_scheme" where
  "switch_to n s = (if task s n = current s then s else s\<lparr>current := task s n\<rparr>)"

fun schedule_loop :: "nat \<Rightarrow> 'a sched_state_scheme \<Rightarrow> ('a sched_state_scheme, unit) outcome" where
  "schedule_loop 0 s = Hang"
| "schedule_loop (Suc fuel) s =
     (let (c, next) = pick (NR_TASKS - 1) s (-1) 0 in
      if c \<noteq> 0 then Ret () (switch_to next s)
      else schedule_loop fuel (recharge (NR_TASKS - 1) s))"

definition schedule :: "nat \<Rightarrow> 'a sched_state_scheme \<Rightarrow> ('a sched_state_scheme, unit) outcome" where
  "schedule fuel s = schedule_loop fuel (check_signals (NR_TASKS - 1) s)"

section \<open>Sleeping and waking\<close>

definition sys_pause ::
  "nat \<Rightarrow> ('a sched_state_scheme \<Rightarrow> 'a sched_state_scheme) \<Rightarrow> 'a sched_state_scheme \<Rightarrow>
     ('a sched_state_scheme, int) outcome" where
  "sys_pause fuel E s =
     andThen (schedule fuel (upd_cur (\<lambda>t. t\<lparr>state := TASK_INTERRUPTIBLE\<rparr>) s)) (\<lambda>_ s. Ret 0 (E s))"

abbreviation make_running :: "u32 \<Rightarrow> 'a sched_state_scheme \<Rightarrow> 'a sched_state_scheme" where
  "make_running p s \<equiv> upd_task p (\<lambda>t. t\<lparr>state := 0\<rparr>) s"

definition sleep_on ::
  "nat \<Rightarrow> ('a sched_state_scheme \<Rightarrow> 'a sched_state_scheme) \<Rightarrow>
   ('a sched_state_scheme \<Rightarrow> u32) \<Rightarrow> (u32 \<Rightarrow> 'a sched_state_scheme \<Rightarrow> 'a sched_state_scheme) \<Rightarrow>
   'a sched_state_scheme \<Rightarrow> ('a sched_state_scheme, unit) outcome" where
  "sleep_on fuel E get put s =
     (if current s = init_task s then Panic ''task[0] trying to sleep'' s
      else let tmp = get s; s = put (current s) s;
               s = upd_cur (\<lambda>t. t\<lparr>state := TASK_UNINTERRUPTIBLE\<rparr>) s in
           andThen (schedule fuel s) (\<lambda>_ s. let s = E s in
             Ret () (if tmp \<noteq> 0 then make_running tmp s else s)))"

text \<open>\<open>interruptible_sleep_on\<close> repeats while another task has put itself on the queue after this one;
  \<open>n\<close> bounds the repetitions.\<close>

fun isleep_loop ::
  "nat \<Rightarrow> nat \<Rightarrow> ('a sched_state_scheme \<Rightarrow> 'a sched_state_scheme) \<Rightarrow>
   ('a sched_state_scheme \<Rightarrow> u32) \<Rightarrow> 'a sched_state_scheme \<Rightarrow> ('a sched_state_scheme, unit) outcome" where
  "isleep_loop 0 fuel E get s = Hang"
| "isleep_loop (Suc n) fuel E get s =
     andThen (schedule fuel (upd_cur (\<lambda>t. t\<lparr>state := TASK_INTERRUPTIBLE\<rparr>) s)) (\<lambda>_ s. let s = E s in
       if get s \<noteq> 0 \<and> get s \<noteq> current s then isleep_loop n fuel E get (make_running (get s) s)
       else Ret () s)"

definition interruptible_sleep_on ::
  "nat \<Rightarrow> nat \<Rightarrow> ('a sched_state_scheme \<Rightarrow> 'a sched_state_scheme) \<Rightarrow>
   ('a sched_state_scheme \<Rightarrow> u32) \<Rightarrow> (u32 \<Rightarrow> 'a sched_state_scheme \<Rightarrow> 'a sched_state_scheme) \<Rightarrow>
   'a sched_state_scheme \<Rightarrow> ('a sched_state_scheme, unit) outcome" where
  "interruptible_sleep_on n fuel E get put s =
     (if current s = init_task s then Panic ''task[0] trying to sleep'' s
      else let tmp = get s; s = put (current s) s in
           andThen (isleep_loop n fuel E get s) (\<lambda>_ s. let s = put tmp s in
             Ret () (if tmp \<noteq> 0 then make_running tmp s else s)))"

text \<open>\<open>wake_up\<close>: the head is made runnable and stays on the queue.\<close>

definition wake_up :: "('a sched_state_scheme \<Rightarrow> u32) \<Rightarrow> 'a sched_state_scheme \<Rightarrow> 'a sched_state_scheme" where
  "wake_up get s = (if get s \<noteq> 0 then make_running (get s) s else s)"

section \<open>Floppy motors\<close>

abbreviation (input) FD_DOR :: u32 where "FD_DOR \<equiv> 0x3f2"

definition ticks_to_floppy_on :: "nat \<Rightarrow> 'a sched_state_scheme \<Rightarrow> ('a sched_state_scheme, s32) outcome" where
  "ticks_to_floppy_on nr s =
     (if 3 < nr then Panic ''floppy_on: nr>3'' s
      else let mask = push_bit nr 0x10;
               s = s\<lparr>moff_timer := (moff_timer s)(nr := 10000)\<rparr>;
               mask = mask OR current_DOR s;
               mask = (if selected s = 0 then (mask AND 0xFC) OR of_nat nr else mask);
               s = (if mask \<noteq> current_DOR s then
                      let s = outb mask FD_DOR s;
                          s = (if (mask XOR current_DOR s) AND 0xf0 \<noteq> 0
                               then s\<lparr>mon_timer := (mon_timer s)(nr := 50)\<rparr>
                               else if mon_timer s nr <s 2 then s\<lparr>mon_timer := (mon_timer s)(nr := 2)\<rparr>
                               else s)
                      in s\<lparr>current_DOR := mask\<rparr>
                    else s)
           in Ret (mon_timer s nr) s)"

fun floppy_on ::
  "nat \<Rightarrow> nat \<Rightarrow> ('a sched_state_scheme \<Rightarrow> 'a sched_state_scheme) \<Rightarrow> nat \<Rightarrow> 'a sched_state_scheme \<Rightarrow>
     ('a sched_state_scheme, unit) outcome" where
  "floppy_on 0 fuel E nr s = Hang"
| "floppy_on (Suc n) fuel E nr s =
     andThen (ticks_to_floppy_on nr s) (\<lambda>t s.
       if t \<noteq> 0 then
         andThen (sleep_on fuel E (\<lambda>s. wait_motor s nr) (\<lambda>p s. s\<lparr>wait_motor := (wait_motor s)(nr := p)\<rparr>) s)
           (\<lambda>_ s. floppy_on n fuel E nr s)
       else Ret () s)"

definition floppy_off :: "nat \<Rightarrow> 'a sched_state_scheme \<Rightarrow> 'a sched_state_scheme" where
  "floppy_off nr s = s\<lparr>moff_timer := (moff_timer s)(nr := 300)\<rparr>"

definition floppy_timer_step :: "nat \<Rightarrow> 'a sched_state_scheme \<Rightarrow> 'a sched_state_scheme" where
  "floppy_timer_step i s =
     (let mask = push_bit i 0x10 :: u8 in
      if mask AND current_DOR s = 0 then s
      else if mon_timer s i \<noteq> 0 then
        let s = s\<lparr>mon_timer := (mon_timer s)(i := mon_timer s i - 1)\<rparr> in
        if mon_timer s i = 0 then wake_up (\<lambda>s. wait_motor s i) s else s
      else if moff_timer s i = 0 then
        let s = s\<lparr>current_DOR := current_DOR s AND NOT mask\<rparr> in outb (current_DOR s) FD_DOR s
      else s\<lparr>moff_timer := (moff_timer s)(i := moff_timer s i - 1)\<rparr>)"

definition do_floppy_timer :: "'a sched_state_scheme \<Rightarrow> 'a sched_state_scheme" where
  "do_floppy_timer s = fold floppy_timer_step [0..<4] s"

section \<open>Timers and the clock\<close>

abbreviation (input) TIME_REQUESTS :: nat where "TIME_REQUESTS \<equiv> 64"

definition free_timer :: "'a sched_state_scheme \<Rightarrow> nat option" where
  "free_timer s = find (\<lambda>i. tm_fn (timer_list s i) = 0) [0..<TIME_REQUESTS]"

text \<open>The sorting loop of \<open>add_timer\<close>: the entry \<open>p\<close> and its successor exchange handler and time.
  \<open>n\<close> bounds the length of the list.\<close>

fun sift_timer :: "nat \<Rightarrow> nat \<Rightarrow> (nat \<Rightarrow> timer) \<Rightarrow> nat \<Rightarrow> timer" where
  "sift_timer 0 p tm = tm"
| "sift_timer (Suc n) p tm =
     (case tm_next (tm p) of
        None \<Rightarrow> tm
      | Some q \<Rightarrow>
          if tm_jiffies (tm q) <s tm_jiffies (tm p) then
            let d = tm_jiffies (tm p) - tm_jiffies (tm q) in
            sift_timer n q
              (tm(p := (tm p)\<lparr>tm_fn := tm_fn (tm q), tm_jiffies := tm_jiffies (tm q)\<rparr>,
                  q := (tm q)\<lparr>tm_fn := tm_fn (tm p), tm_jiffies := d\<rparr>))
          else tm)"

text \<open>\<open>call f\<close> is the call of the handler at address \<open>f\<close>.\<close>

definition add_timer ::
  "(u32 \<Rightarrow> 'a sched_state_scheme \<Rightarrow> 'a sched_state_scheme) \<Rightarrow> s32 \<Rightarrow> u32 \<Rightarrow> 'a sched_state_scheme \<Rightarrow>
     ('a sched_state_scheme, unit) outcome" where
  "add_timer call j fn s =
     (if fn = 0 then Ret () s
      else if j \<le>s 0 then Ret () (call fn s)
      else case free_timer s of
          None \<Rightarrow> Panic ''No more time requests free'' s
        | Some p \<Rightarrow>
            Ret () (s\<lparr>timer_list := sift_timer TIME_REQUESTS p
                        ((timer_list s)(p := \<lparr>tm_jiffies = j, tm_fn = fn, tm_next = next_timer s\<rparr>)),
                      next_timer := Some p\<rparr>))"

text \<open>\<open>sysbeepstop\<close> (\<^verbatim>\<open>kernel/chr_drv/console.c\<close>).\<close>

definition sysbeepstop :: "'a sched_state_scheme \<Rightarrow> 'a sched_state_scheme" where
  "sysbeepstop s = outb (ports s 0x61 AND 0xFC) 0x61 s"

text \<open>The loop of \<open>do_timer\<close> over the expired timers.\<close>

fun run_timers ::
  "nat \<Rightarrow> (u32 \<Rightarrow> 'a sched_state_scheme \<Rightarrow> 'a sched_state_scheme) \<Rightarrow> 'a sched_state_scheme \<Rightarrow>
     ('a sched_state_scheme, unit) outcome" where
  "run_timers 0 call s = Hang"
| "run_timers (Suc n) call s =
     (case next_timer s of
        None \<Rightarrow> Ret () s
      | Some p \<Rightarrow>
          if tm_jiffies (timer_list s p) \<le>s 0 then
            let fn = tm_fn (timer_list s p);
                s = s\<lparr>timer_list := (timer_list s)(p := (timer_list s p)\<lparr>tm_fn := 0\<rparr>),
                      next_timer := tm_next (timer_list s p)\<rparr>
            in run_timers n call (call fn s)
          else Ret () s)"

definition tick_timers ::
  "nat \<Rightarrow> (u32 \<Rightarrow> 'a sched_state_scheme \<Rightarrow> 'a sched_state_scheme) \<Rightarrow> 'a sched_state_scheme \<Rightarrow>
     ('a sched_state_scheme, unit) outcome" where
  "tick_timers n call s =
     (case next_timer s of
        None \<Rightarrow> Ret () s
      | Some p \<Rightarrow>
          run_timers n call (s\<lparr>timer_list := (timer_list s)
            (p := (timer_list s p)\<lparr>tm_jiffies := tm_jiffies (timer_list s p) - 1\<rparr>)\<rparr>))"

definition do_timer ::
  "nat \<Rightarrow> nat \<Rightarrow> (u32 \<Rightarrow> 'a sched_state_scheme \<Rightarrow> 'a sched_state_scheme) \<Rightarrow>
   ('a sched_state_scheme \<Rightarrow> 'a sched_state_scheme) \<Rightarrow> s32 \<Rightarrow> 'a sched_state_scheme \<Rightarrow>
     ('a sched_state_scheme, unit) outcome" where
  "do_timer n fuel call E cpl s =
     (let s = (if beepcount s \<noteq> 0 then
                 let s = s\<lparr>beepcount := beepcount s - 1\<rparr> in
                 if beepcount s = 0 then sysbeepstop s else s
               else s);
          s = (if cpl \<noteq> 0 then upd_cur (\<lambda>t. t\<lparr>utime := utime t + 1\<rparr>) s
               else upd_cur (\<lambda>t. t\<lparr>stime := stime t + 1\<rparr>) s)
      in andThen (tick_timers n call s) (\<lambda>_ s.
           let s = (if current_DOR s AND 0xf0 \<noteq> 0 then do_floppy_timer s else s);
               s = upd_cur (\<lambda>t. t\<lparr>counter := counter t - 1\<rparr>) s
           in if 0 <s counter (cur s) then Ret () s
              else let s = upd_cur (\<lambda>t. t\<lparr>counter := 0\<rparr>) s in
                if cpl = 0 then Ret () s
                else andThen (schedule fuel s) (\<lambda>_ s. Ret () (E s))))"

section \<open>System calls\<close>

definition sys_alarm :: "s32 \<Rightarrow> 'a sched_state_scheme \<Rightarrow> s32 \<times> 'a sched_state_scheme" where
  "sys_alarm seconds s =
     (let old = alarm (cur s);
          old = (if old \<noteq> 0 then sdiv32 (old - jiffies s) 100 else old)
      in (old, upd_cur (\<lambda>t. t\<lparr>alarm := if 0 <s seconds then jiffies s + 100 * seconds else 0\<rparr>) s))"

definition sys_getpid :: "'a sched_state_scheme \<Rightarrow> s32" where "sys_getpid s = pid (cur s)"
definition sys_getppid :: "'a sched_state_scheme \<Rightarrow> s32" where "sys_getppid s = father (cur s)"
definition sys_getuid :: "'a sched_state_scheme \<Rightarrow> s32" where "sys_getuid s = ucast (uid (cur s))"
definition sys_geteuid :: "'a sched_state_scheme \<Rightarrow> s32" where "sys_geteuid s = ucast (euid (cur s))"
definition sys_getgid :: "'a sched_state_scheme \<Rightarrow> s32" where "sys_getgid s = ucast (gid (cur s))"
definition sys_getegid :: "'a sched_state_scheme \<Rightarrow> s32" where "sys_getegid s = ucast (egid (cur s))"

definition sys_nice :: "s32 \<Rightarrow> 'a sched_state_scheme \<Rightarrow> int \<times> 'a sched_state_scheme" where
  "sys_nice increment s =
     (0, if 0 <s priority (cur s) - increment
         then upd_cur (\<lambda>t. t\<lparr>priority := priority t - increment\<rparr>) s else s)"

end
