(* ===== verification/Sched_Properties.thy ===== *)
theory Sched_Properties
  imports Sched
begin

text \<open>
  The scheduler picks the right task and terminates (\<open>best\<close>, \<open>schedule_correct\<close>); the interface of
  wait queues (locale \<open>wait_queue\<close>) with its instance, the floppy motor queues; the timer list as a
  list of expiry times; the coprocessor.
\<close>

section \<open>Signed words\<close>

lemma sint_add32:
  assumes "- 2147483648 \<le> sint x + sint y" "sint x + sint y < 2147483648"
  shows "sint (x + y :: s32) = sint x + sint y"
  using assms by (simp add: sint_word_ariths signed_take_bit_int_eq_self)

lemma sint_sub32:
  assumes "- 2147483648 \<le> sint x - sint y" "sint x - sint y < 2147483648"
  shows "sint (x - y :: s32) = sint x - sint y"
  using assms by (simp add: sint_word_ariths signed_take_bit_int_eq_self)

lemma sint_half32: "sint (signed_drop_bit 1 (x :: s32)) = sint x div 2"
  by (simp add: sint_signed_drop_bit_eq drop_bit_eq_div)

lemmas sless_sint = word_sless_alt word_sle_eq

section \<open>Choice of the next task\<close>

definition runnable :: "'a sched_state_scheme \<Rightarrow> nat \<Rightarrow> bool" where
  "runnable s i \<longleftrightarrow> task s i \<noteq> 0 \<and> state (tasks s (task s i)) = TASK_RUNNING"

abbreviation task_count :: "'a sched_state_scheme \<Rightarrow> nat \<Rightarrow> int" where
  "task_count s i \<equiv> sint (counter (tasks s (task s i)))"

lemma pick_spec:
  "pick n s c next = (c', next') \<Longrightarrow>
   (c' = c \<and> next' = next \<and> (\<forall>i. 1 \<le> i \<and> i \<le> n \<and> runnable s i \<longrightarrow> task_count s i \<le> sint c)) \<or>
   (1 \<le> next' \<and> next' \<le> n \<and> runnable s next' \<and> sint c' = task_count s next' \<and> sint c < sint c' \<and>
    (\<forall>i. 1 \<le> i \<and> i \<le> n \<and> runnable s i \<longrightarrow> task_count s i \<le> sint c' \<and> (next' < i \<longrightarrow> task_count s i < sint c')))"
proof (induction n arbitrary: c "next")
  case (Suc n)
  show ?case
  proof (cases "runnable s (Suc n) \<and> sint c < task_count s (Suc n)")
    case True
    then have "pick n s (counter (tasks s (task s (Suc n)))) (Suc n) = (c', next')"
      using Suc.prems by (auto simp: Let_def runnable_def sless_sint)
    from Suc.IH [OF this] True show ?thesis by (auto simp: le_Suc_eq)
  next
    case False
    then have "pick n s c next = (c', next')"
      using Suc.prems by (auto simp: Let_def runnable_def sless_sint)
    from Suc.IH [OF this] False show ?thesis by (fastforce simp: le_Suc_eq)
  qed
qed auto

text \<open>The bounds under which the arithmetic of \<open>schedule\<close> does not wrap.\<close>

definition task_ok :: "task_struct \<Rightarrow> bool" where
  "task_ok t \<longleftrightarrow> 0 < sint (priority t) \<and> sint (priority t) \<le> 2 ^ 29 \<and>
     0 \<le> sint (counter t) \<and> sint (counter t) \<le> 2 ^ 30"

definition slots_ok :: "'a sched_state_scheme \<Rightarrow> bool" where
  "slots_ok s \<longleftrightarrow> (\<forall>i. 1 \<le> i \<and> i < NR_TASKS \<and> task s i \<noteq> 0 \<longrightarrow> task_ok (tasks s (task s i)))"

lemma recharge_task_ok:
  assumes "task_ok t"
  shows "task_ok (recharge_task t)" and "0 < sint (counter (recharge_task t))"
proof -
  have b: "0 < sint (priority t)" "sint (priority t) \<le> 536870912" "0 \<le> sint (counter t)" "sint (counter t) \<le> 1073741824"
    using assms by (simp_all add: task_ok_def)
  have "sint (counter (recharge_task t)) = sint (counter t) div 2 + sint (priority t)"
    using b sint_add32 [of "signed_drop_bit 1 (counter t)" "priority t"]
    unfolding recharge_task_def sint_half32 by simp
  then show "task_ok (recharge_task t)" "0 < sint (counter (recharge_task t))"
    using b by (simp_all add: task_ok_def recharge_task_def)
qed

lemma recharge_task_state [simp]: "state (recharge_task t) = state t"
  by (simp add: recharge_task_def)

lemma recharge_fields [simp]:
  "task (recharge n s) = task s" "current (recharge n s) = current s" "jiffies (recharge n s) = jiffies s"
  "state (tasks (recharge n s) p) = state (tasks s p)"
  by (induction n arbitrary: s) auto

lemma slots_ok_upd:
  "slots_ok s \<Longrightarrow> (\<And>t. task_ok t \<Longrightarrow> task_ok (f t)) \<Longrightarrow> slots_ok (upd_task p f s)"
  by (auto simp: slots_ok_def)

lemma recharge_ok:
  "slots_ok s \<Longrightarrow> n < NR_TASKS \<Longrightarrow> slots_ok (recharge n s) \<and>
   (\<forall>i. 1 \<le> i \<and> i < NR_TASKS \<and> task s i \<noteq> 0 \<and> (i \<le> n \<or> 0 < task_count s i) \<longrightarrow> 0 < task_count (recharge n s) i)"
proof (induction n arbitrary: s)
  case (Suc n)
  let ?s = "if task s (Suc n) \<noteq> 0 then upd_task (task s (Suc n)) recharge_task s else s"
  have ok: "slots_ok ?s" using Suc.prems(1) slots_ok_upd [OF Suc.prems(1) recharge_task_ok(1)] by simp
  have pos: "0 < task_count ?s i" if "1 \<le> i" "i < NR_TASKS" "task s i \<noteq> 0" "i = Suc n \<or> 0 < task_count s i" for i
    using that Suc.prems(1) recharge_task_ok(2) by (auto simp: slots_ok_def)
  define s1 where "s1 = ?s"
  have t: "task s1 = task s" by (simp add: s1_def)
  have "slots_ok (recharge n s1) \<and>
    (\<forall>i. 1 \<le> i \<and> i < NR_TASKS \<and> task s i \<noteq> 0 \<and> (i \<le> n \<or> 0 < task_count s1 i) \<longrightarrow> 0 < task_count (recharge n s1) i)"
    using Suc.IH [OF ok] Suc.prems(2) unfolding s1_def [symmetric] t by simp
  moreover have "recharge (Suc n) s = recharge n s1" by (simp add: s1_def)
  ultimately show ?case using pos unfolding s1_def [symmetric] by (metis le_SucE)
qed auto

lemma check_task_idem: "check_task now (check_task now t) = check_task now t"
  by (auto simp: check_task_def Let_def or.assoc)

lemma check_task_fields [simp]:
  "counter (check_task now t) = counter t" "priority (check_task now t) = priority t"
  by (auto simp: check_task_def Let_def)

lemma check_signals_fields [simp]:
  "task (check_signals n s) = task s" "current (check_signals n s) = current s" "jiffies (check_signals n s) = jiffies s"
  by (induction n arbitrary: s) auto

lemma check_signals_task:
  "tasks (check_signals n s) p =
     (if p \<noteq> 0 \<and> (\<exists>i. 1 \<le> i \<and> i \<le> n \<and> task s i = p) then check_task (jiffies s) (tasks s p) else tasks s p)"
proof (induction n arbitrary: s)
  case (Suc n)
  show ?case by (auto simp: Suc.IH check_task_idem le_Suc_eq)
qed simp

lemma check_signals_slots_ok: "slots_ok s \<Longrightarrow> slots_ok (check_signals n s)"
  by (auto simp: slots_ok_def check_signals_task task_ok_def)

text \<open>The choice that \<open>schedule\<close> makes among the states it compares.\<close>

definition best :: "'a sched_state_scheme \<Rightarrow> nat \<Rightarrow> bool" where
  "best s n \<longleftrightarrow>
     (n = 0 \<and> (\<forall>i. 1 \<le> i \<and> i < NR_TASKS \<longrightarrow> \<not> runnable s i)) \<or>
     (1 \<le> n \<and> n < NR_TASKS \<and> runnable s n \<and> 0 < task_count s n \<and>
      (\<forall>i. 1 \<le> i \<and> i < NR_TASKS \<and> runnable s i \<longrightarrow> task_count s i \<le> task_count s n \<and> (n < i \<longrightarrow> task_count s i < task_count s n)))"

lemma le_NR: "i \<le> NR_TASKS - 1 \<longleftrightarrow> i < NR_TASKS"
  by (auto simp: NR_TASKS_def)

lemma pick_best:
  assumes ok: "slots_ok s" and p: "pick (NR_TASKS - 1) s (-1) 0 = (c, n)" and c: "c \<noteq> 0"
  shows "best s n"
proof -
  have nn: "0 \<le> task_count s i" if "1 \<le> i" "i < NR_TASKS" "runnable s i" for i
    using ok that by (auto simp: slots_ok_def runnable_def task_ok_def)
  have "sint c \<noteq> 0" using c by (metis sint_0 signed_word_eqI)
  then show ?thesis
    using pick_spec [OF p] nn unfolding le_NR best_def by fastforce
qed

lemma schedule_loop_ok:
  assumes ok: "slots_ok s" and f: "2 \<le> fuel"
  shows "returns (schedule_loop fuel s) (\<lambda>_ s'. \<exists>n. best s' n \<and> current s' = task s n \<and> slots_ok s' \<and>
     task s' = task s \<and> (\<forall>p. state (tasks s' p) = state (tasks s p)))"
proof -
  obtain k where k: "fuel = Suc (Suc k)" using f by (metis add_2_eq_Suc le_Suc_ex)
  have sw: "best (switch_to n t) m \<longleftrightarrow> best t m" "slots_ok (switch_to n t) \<longleftrightarrow> slots_ok t"
    "current (switch_to n t) = task t n" "tasks (switch_to n t) = tasks t" "task (switch_to n t) = task t"
    for n m and t :: "'a sched_state_scheme"
    by (auto simp: switch_to_def best_def slots_ok_def runnable_def)
  obtain c n where p: "pick (NR_TASKS - 1) s (-1) 0 = (c, n)" by fastforce
  show ?thesis
  proof (cases "c = 0")
    case False
    then show ?thesis using p pick_best [OF ok p False] ok by (simp add: k sw) blast
  next
    case True
    let ?r = "recharge (NR_TASKS - 1) s"
    have r: "slots_ok ?r" "\<And>i. 1 \<le> i \<Longrightarrow> i < NR_TASKS \<Longrightarrow> task s i \<noteq> 0 \<Longrightarrow> 0 < task_count ?r i"
      using recharge_ok [OF ok, of "NR_TASKS - 1"] by (auto simp: NR_TASKS_def)
    obtain c2 n2 where p2: "pick (NR_TASKS - 1) ?r (-1) 0 = (c2, n2)" by fastforce
    have "c2 \<noteq> 0"
    proof
      assume "c2 = 0"
      with pick_spec [OF p2] have "1 \<le> n2" "n2 < NR_TASKS" "runnable ?r n2" "task_count ?r n2 = 0"
        by (auto simp: le_NR)
      then show False using r(2) [of n2] by (auto simp: runnable_def)
    qed
    then show ?thesis using p p2 True pick_best [OF r(1) p2] r(1) by (simp add: k sw) blast
  qed
qed

section \<open>Wait queues\<close>

text \<open>The interface of a wait queue: its head is read by \<open>get\<close> and written by \<open>put\<close>, and is stored
  apart from the task structures.\<close>

locale wait_queue =
  fixes get :: "'a sched_state_scheme \<Rightarrow> u32" and put :: "u32 \<Rightarrow> 'a sched_state_scheme \<Rightarrow> 'a sched_state_scheme"
  assumes get_put: "get (put p s) = p"
    and get_upd_task: "get (upd_task q f s) = get s"
    and put_tasks: "tasks (put p s) = tasks s"
    and put_current: "current (put p s) = current s"
begin

lemma sleep_on_unfold:
  assumes "current s \<noteq> init_task s"
  shows "sleep_on fuel E get put s =
     andThen (schedule fuel (upd_cur (\<lambda>t. t\<lparr>state := TASK_UNINTERRUPTIBLE\<rparr>) (put (current s) s)))
       (\<lambda>_ s'. Ret () (if get s \<noteq> 0 then make_running (get s) (E s') else E s'))"
  using assms by (simp add: sleep_on_def Let_def)

lemma queued_before_switch:
  "get (upd_cur (\<lambda>t. t\<lparr>state := TASK_UNINTERRUPTIBLE\<rparr>) (put (current s) s)) = current s"
  "state (tasks (upd_cur (\<lambda>t. t\<lparr>state := TASK_UNINTERRUPTIBLE\<rparr>) (put (current s) s)) (current s)) = TASK_UNINTERRUPTIBLE"
  by (simp_all add: get_upd_task get_put put_tasks put_current)

text \<open>The sleeper that is resumed wakes the task that was on the queue before it.\<close>

lemma sleep_on_wakes_previous:
  "get s \<noteq> 0 \<Longrightarrow> lets (sleep_on fuel E get put s) (\<lambda>_ s'. state (tasks s' (get s)) = TASK_RUNNING)"
  by (cases "current s = init_task s") (auto simp: sleep_on_def andThen_Ret_iff Let_def intro!: letsI)

lemma wake_up_head:
  "get s \<noteq> 0 \<Longrightarrow> state (tasks (wake_up get s) (get s)) = TASK_RUNNING"
  "get (wake_up get s) = get s"
  "p \<noteq> get s \<Longrightarrow> tasks (wake_up get s) p = tasks s p"
  by (auto simp: wake_up_def get_upd_task)

text \<open>The head stays on the queue, so a second wake-up reaches the task whatever it became.\<close>

lemma wake_up_again:
  "get s \<noteq> 0 \<Longrightarrow>
   state (tasks (wake_up get (upd_task q f (wake_up get s))) (get s)) = TASK_RUNNING"
  by (simp add: wake_up_def get_upd_task)

end

abbreviation get_motor :: "nat \<Rightarrow> 'a sched_state_scheme \<Rightarrow> u32" where
  "get_motor nr \<equiv> (\<lambda>s. wait_motor s nr)"

abbreviation put_motor :: "nat \<Rightarrow> u32 \<Rightarrow> 'a sched_state_scheme \<Rightarrow> 'a sched_state_scheme" where
  "put_motor nr \<equiv> (\<lambda>p s. s\<lparr>wait_motor := (wait_motor s)(nr := p)\<rparr>)"

interpretation motor: wait_queue "get_motor nr" "put_motor nr" for nr
  by unfold_locales simp_all

section \<open>Floppy motors\<close>

lemma and_mask_zeroD: "(x::u8) AND m = 0 \<Longrightarrow> bit m k \<Longrightarrow> \<not> bit x k"
  by (metis bit_0_eq bit_and_iff bot_apply bot_bool_def)

lemma ticks_to_floppy_on_spec:
  assumes "nr \<le> 3"
  shows "returns (ticks_to_floppy_on nr s) (\<lambda>t s'. t = mon_timer s' nr \<and> moff_timer s' nr = 10000 \<and>
     bit (current_DOR s') (4 + nr) \<and>
     (t = 0 \<longrightarrow> s' = s\<lparr>moff_timer := (moff_timer s)(nr := 10000)\<rparr>))"
proof -
  consider "nr = 0" | "nr = 1" | "nr = 2" | "nr = 3" using assms by linarith
  then have b: "bit (push_bit nr 0x10 :: u8) (4 + nr) \<and> bit (0xFC :: u8) (4 + nr)"
    by cases (simp_all add: bit_simps bit_iff_odd)
  let ?s1 = "s\<lparr>moff_timer := (moff_timer s)(nr := 10000)\<rparr>"
  define m where "m = (if selected ?s1 = 0 then ((push_bit nr 0x10 OR current_DOR ?s1) AND 0xFC) OR of_nat nr
     else push_bit nr 0x10 OR current_DOR ?s1)"
  have m: "bit m (4 + nr)" using b by (simp add: m_def bit_or_iff bit_and_iff)
  let ?o = "outb m FD_DOR ?s1"
  let ?t = "if (m XOR current_DOR ?o) AND 0xf0 \<noteq> 0 then ?o\<lparr>mon_timer := (mon_timer ?o)(nr := 50)\<rparr>
     else if mon_timer ?o nr <s 2 then ?o\<lparr>mon_timer := (mon_timer ?o)(nr := 2)\<rparr> else ?o"
  let ?s2 = "if m \<noteq> current_DOR ?s1 then ?t\<lparr>current_DOR := m\<rparr> else ?s1"
  have nlt: "\<not> 3 < nr" using assms by simp
  have eq: "ticks_to_floppy_on nr s = Ret (mon_timer ?s2 nr) ?s2"
    unfolding ticks_to_floppy_on_def Let_def m_def by (simp only: nlt if_False)
  have tt: "mon_timer ?t nr \<noteq> 0 \<and> moff_timer ?t nr = 10000"
  proof (cases "(m XOR current_DOR ?o) AND 0xf0 \<noteq> 0")
    case True
    then show ?thesis by (simp only: if_True) (simp add: outb_def)
  next
    case False
    show ?thesis
    proof (cases "mon_timer ?o nr <s 2")
      case True
      then show ?thesis by (simp only: False if_True if_False) (simp add: outb_def)
    next
      case c: False
      then have "mon_timer ?o nr \<noteq> 0" by (auto simp: sless_sint)
      then show ?thesis by (simp only: False c if_False) (simp add: outb_def)
    qed
  qed
  show ?thesis unfolding eq returns_simps(1) using m tt by (cases "m = current_DOR ?s1") simp_all
qed

section \<open>The timer list\<close>

fun chain :: "(nat \<Rightarrow> timer) \<Rightarrow> nat option \<Rightarrow> nat list \<Rightarrow> bool" where
  "chain tm h [] \<longleftrightarrow> h = None"
| "chain tm h (p # ps) \<longleftrightarrow> h = Some p \<and> chain tm (tm_next (tm p)) ps"

definition deltas :: "(nat \<Rightarrow> timer) \<Rightarrow> nat list \<Rightarrow> (int \<times> u32) list" where
  "deltas tm ps = map (\<lambda>p. (sint (tm_jiffies (tm p)), tm_fn (tm p))) ps"

text \<open>The list that \<open>next_timer\<close> heads is \<open>ps\<close>: its entries are in use and wait a positive time.\<close>

definition timers_inv :: "'a sched_state_scheme \<Rightarrow> nat list \<Rightarrow> bool" where
  "timers_inv s ps \<longleftrightarrow> chain (timer_list s) (next_timer s) ps \<and> distinct ps \<and> set ps \<subseteq> {..<TIME_REQUESTS} \<and>
     (\<forall>p\<in>set ps. 0 < sint (tm_jiffies (timer_list s p)) \<and> tm_fn (timer_list s p) \<noteq> 0) \<and>
     (\<forall>p<TIME_REQUESTS. tm_fn (timer_list s p) \<noteq> 0 \<longrightarrow> p \<in> set ps)"

text \<open>What \<open>add_timer\<close> does to the list of times, and when each timer expires.\<close>

fun insert_delta :: "int \<Rightarrow> u32 \<Rightarrow> (int \<times> u32) list \<Rightarrow> (int \<times> u32) list" where
  "insert_delta j f [] = [(j, f)]"
| "insert_delta j f ((k, g) # r) = (if k < j then (k, g) # insert_delta (j - k) f r else (j, f) # (k, g) # r)"

fun expiries :: "int \<Rightarrow> (int \<times> u32) list \<Rightarrow> (int \<times> u32) list" where
  "expiries t [] = []"
| "expiries t ((j, f) # r) = (t + j, f) # expiries (t + j) r"

lemma chain_cong: "(\<And>p. p \<in> set ps \<Longrightarrow> tm_next (tm' p) = tm_next (tm p)) \<Longrightarrow> chain tm' h ps \<longleftrightarrow> chain tm h ps"
  by (induction ps arbitrary: h) auto

lemma deltas_cong: "(\<And>p. p \<in> set ps \<Longrightarrow> tm' p = tm p) \<Longrightarrow> deltas tm' ps = deltas tm ps"
  by (auto simp: deltas_def)

lemma deltas_Cons: "deltas tm (p # ps) = (sint (tm_jiffies (tm p)), tm_fn (tm p)) # deltas tm ps"
  by (simp add: deltas_def)

lemma sift_timer_spec:
  "chain tm (Some p) (p # ps) \<Longrightarrow> distinct (p # ps) \<Longrightarrow> length ps \<le> n \<Longrightarrow>
   \<forall>q\<in>set (p # ps). 0 < sint (tm_jiffies (tm q)) \<and> tm_fn (tm q) \<noteq> 0 \<Longrightarrow>
   deltas (sift_timer n p tm) (p # ps) = insert_delta (sint (tm_jiffies (tm p))) (tm_fn (tm p)) (deltas tm ps) \<and>
   (\<forall>q. tm_next (sift_timer n p tm q) = tm_next (tm q)) \<and>
   (\<forall>q. q \<notin> set (p # ps) \<longrightarrow> sift_timer n p tm q = tm q) \<and>
   (\<forall>q\<in>set (p # ps). 0 < sint (tm_jiffies (sift_timer n p tm q)) \<and> tm_fn (sift_timer n p tm q) \<noteq> 0)"
proof (induction ps arbitrary: n p tm)
  case Nil
  then show ?case by (cases n) (auto simp: deltas_def)
next
  case (Cons q ps)
  then obtain m where n: "n = Suc m" by (cases n) auto
  have q: "tm_next (tm p) = Some q" "p \<noteq> q" "p \<notin> set ps" using Cons.prems(1,2) by auto
  show ?case
  proof (cases "sint (tm_jiffies (tm q)) < sint (tm_jiffies (tm p))")
    case True
    let ?d = "tm_jiffies (tm p) - tm_jiffies (tm q)"
    let ?tm = "tm(p := (tm p)\<lparr>tm_fn := tm_fn (tm q), tm_jiffies := tm_jiffies (tm q)\<rparr>,
                  q := (tm q)\<lparr>tm_fn := tm_fn (tm p), tm_jiffies := ?d\<rparr>)"
    have b: "0 < sint (tm_jiffies (tm q))" "sint (tm_jiffies (tm p)) < 2147483648"
      using Cons.prems(4) sint_lt [of "tm_jiffies (tm p)"] by auto
    have d: "sint ?d = sint (tm_jiffies (tm p)) - sint (tm_jiffies (tm q))"
      using b True by (intro sint_sub32) auto
    have eq: "sift_timer n p tm = sift_timer m q ?tm"
      using True q by (simp add: n sless_sint)
    have ch: "chain ?tm (Some q) (q # ps)"
    proof -
      have "chain ?tm (tm_next (tm q)) ps \<longleftrightarrow> chain tm (tm_next (tm q)) ps" by (rule chain_cong) auto
      then show ?thesis using Cons.prems(1) by simp
    qed
    have pos: "\<forall>x\<in>set (q # ps). 0 < sint (tm_jiffies (?tm x)) \<and> tm_fn (?tm x) \<noteq> 0"
      using Cons.prems(4) d True by auto
    have dl: "deltas ?tm ps = deltas tm ps" using q Cons.prems(2) by (intro deltas_cong) auto
    have dist: "distinct (q # ps)" and len: "length ps \<le> m" using Cons.prems(2,3) n by simp_all
    have q': "tm_jiffies (?tm q) = ?d" "tm_fn (?tm q) = tm_fn (tm p)" by simp_all
    note I = Cons.IH [OF ch dist len pos, unfolded q' dl]
    note IH = I [THEN conjunct1] I [THEN conjunct2, THEN conjunct1] I [THEN conjunct2, THEN conjunct2, THEN conjunct1]
      I [THEN conjunct2, THEN conjunct2, THEN conjunct2]
    have "p \<notin> set (q # ps)" using q by simp
    then have sp: "sift_timer m q ?tm p = ?tm p" using IH(3) by blast
    have tp: "?tm p = (tm p)\<lparr>tm_fn := tm_fn (tm q), tm_jiffies := tm_jiffies (tm q)\<rparr>" using q(2) by simp
    have nt: "tm_next (?tm x) = tm_next (tm x)" for x by simp
    have ox: "?tm x = tm x" if "x \<noteq> p" "x \<noteq> q" for x using that by simp
    show ?thesis unfolding eq
    proof (intro conjI allI ballI impI)
      show "deltas (sift_timer m q ?tm) (p # q # ps)
          = insert_delta (sint (tm_jiffies (tm p))) (tm_fn (tm p)) (deltas tm (q # ps))"
        unfolding deltas_Cons [of _ p] deltas_Cons [of tm q] sp tp IH(1) using True d by simp
      show "tm_next (sift_timer m q ?tm x) = tm_next (tm x)" for x
        unfolding IH(2) [rule_format] by (rule nt)
      show "sift_timer m q ?tm x = tm x" if "x \<notin> set (p # q # ps)" for x
      proof -
        have "x \<notin> set (q # ps)" "x \<noteq> p" "x \<noteq> q" using that by simp_all
        then show ?thesis using IH(3) ox by metis
      qed
      fix x assume "x \<in> set (p # q # ps)"
      then consider "x = p" | "x \<in> set (q # ps)" by auto
      then show "0 < sint (tm_jiffies (sift_timer m q ?tm x))" "tm_fn (sift_timer m q ?tm x) \<noteq> 0"
      proof (atomize (full), cases)
        case 1
        then show "0 < sint (tm_jiffies (sift_timer m q ?tm x)) \<and> tm_fn (sift_timer m q ?tm x) \<noteq> 0"
          unfolding 1 sp tp using Cons.prems(4) by simp
      next
        case 2
        then show "0 < sint (tm_jiffies (sift_timer m q ?tm x)) \<and> tm_fn (sift_timer m q ?tm x) \<noteq> 0"
          using IH(4) by blast
      qed
    qed
  next
    case False
    then have "sift_timer n p tm = tm" using q by (simp add: n sless_sint)
    then show ?thesis using False Cons.prems(4) by (simp add: deltas_Cons)
  qed
qed

lemma insert_delta_expiries:
  assumes "0 < j"
  shows "\<exists>pre post d. expiries t L = pre @ post \<and> (\<forall>(u, g)\<in>set pre. u < t + j) \<and> 0 < d \<and>
     expiries t (insert_delta j f L) = pre @ (t + j, f) # map (\<lambda>(u, g). (u + d, g)) post"
  using assms
proof (induction j f L arbitrary: t rule: insert_delta.induct)
  case (1 j f)
  then show ?case by (intro exI [of _ "[]"]) auto
next
  case (2 j f k g r)
  have shift: "expiries (u + d) L = map (\<lambda>(u, g). (u + d, g)) (expiries u L)" for u d L
    by (induction u L rule: expiries.induct) (auto simp: algebra_simps)
  show ?case
  proof (cases "k < j")
    case True
    from "2.IH" [OF True, of "t + k"] True obtain pre post d where
      "expiries (t + k) r = pre @ post" "\<forall>(u, g)\<in>set pre. u < t + j" "0 < d"
      "expiries (t + k) (insert_delta (j - k) f r) = pre @ (t + j, f) # map (\<lambda>(u, g). (u + d, g)) post"
      by auto
    then have "expiries t ((k, g) # r) = ((t + k, g) # pre) @ post \<and> (\<forall>(u, g)\<in>set ((t + k, g) # pre). u < t + j) \<and>
      0 < d \<and> expiries t (insert_delta j f ((k, g) # r)) = ((t + k, g) # pre) @ (t + j, f) # map (\<lambda>(u, g). (u + d, g)) post"
      using True by simp
    then show ?thesis by blast
  next
    case False
    then show ?thesis using "2.prems" shift [of "t + k" j r]
      by (intro exI [of _ "[]"] exI [of _ "expiries t ((k, g) # r)"] exI [of _ j]) (simp add: algebra_simps)
  qed
qed

section \<open>Properties\<close>

text \<open>A concrete state for the instances: tasks 0 and 1 in their slots, task 1 current.\<close>

definition two_tasks :: sched_state where
  "two_tasks = \<lparr>mem_map = (\<lambda>_. 0), high_memory = 0x1000000, pmem = (\<lambda>_. 0),
     tasks = (\<lambda>p. if p = 0x2000 then (INIT_TASK 0x2000)\<lparr>pid := 1, father := 0\<rparr> else INIT_TASK p),
     task = (\<lambda>_. 0)(0 := 0x1000, 1 := 0x2000), current = 0x2000, init_task = 0x1000,
     last_task_used_math = 0, fpu = (\<lambda>_. 0), jiffies = 0, startup_time = 0,
     timer_list = (\<lambda>_. \<lparr>tm_jiffies = 0, tm_fn = 0, tm_next = None\<rparr>), next_timer = None,
     wait_motor = (\<lambda>_. 0), mon_timer = (\<lambda>_. 0), moff_timer = (\<lambda>_. 0), current_DOR = 0x0C, selected = 0,
     beepcount = 0, ports = (\<lambda>_. 0)\<rparr>"

lemma two_tasks_simps [simp]:
  "task two_tasks 0 = 0x1000" "task two_tasks 1 = 0x2000" "task two_tasks (Suc 0) = 0x2000"
  "1 < i \<Longrightarrow> task two_tasks i = 0" "current two_tasks = 0x2000" "init_task two_tasks = 0x1000"
  "tasks two_tasks 0x2000 = (INIT_TASK 0x2000)\<lparr>pid := 1, father := 0\<rparr>"
  by (simp_all add: two_tasks_def)

lemma two_tasks_slots_ok: "slots_ok two_tasks"
proof -
  have "i = 1" if "task two_tasks i \<noteq> 0" "1 \<le> i" for i
    using that two_tasks_simps(4) [of i] by fastforce
  moreover have "task_ok (tasks two_tasks (task two_tasks 1))" by (simp add: task_ok_def INIT_TASK_def)
  ultimately show ?thesis unfolding slots_ok_def by blast
qed

text \<open>C5: when the tasks' priorities are positive and bounded, two rounds of \<open>schedule\<close>'s loop are
  enough: it switches to the runnable task with the largest counter (the highest slot among
  equals), whose counter is then positive, or to task 0 when no task is runnable; before that,
  every sleeping task has had its alarm and its pending signals looked at; the bounds hold again.\<close>

theorem schedule_correct:
  assumes "slots_ok s" and "2 \<le> fuel"
  shows "returns (schedule fuel s) (\<lambda>_ s'.
     slots_ok s' \<and> task s' = task s \<and>
     (\<forall>i. 1 \<le> i \<and> i < NR_TASKS \<and> task s i \<noteq> 0 \<longrightarrow>
        state (tasks s' (task s i)) = state (check_task (jiffies s) (tasks s (task s i)))) \<and>
     (\<exists>n. current s' = task s n \<and>
        (n = 0 \<and> (\<forall>i. 1 \<le> i \<and> i < NR_TASKS \<longrightarrow> \<not> runnable s' i) \<or>
         1 \<le> n \<and> n < NR_TASKS \<and> runnable s' n \<and> 0 < task_count s' n \<and>
         (\<forall>i. 1 \<le> i \<and> i < NR_TASKS \<and> runnable s' i \<longrightarrow>
            task_count s' i \<le> task_count s' n \<and> (n < i \<longrightarrow> task_count s' i < task_count s' n)))))"
proof -
  have ok: "slots_ok (check_signals (NR_TASKS - 1) s)" using assms(1) by (rule check_signals_slots_ok)
  have st: "state (tasks (check_signals (NR_TASKS - 1) s) (task s i)) = state (check_task (jiffies s) (tasks s (task s i)))"
    if "1 \<le> i" "i < NR_TASKS" "task s i \<noteq> 0" for i
    unfolding check_signals_task le_NR using that by auto
  show ?thesis unfolding schedule_def
    by (rule returns_mono [OF schedule_loop_ok [OF ok assms(2)]]) (use st in \<open>auto simp: best_def\<close>)
qed

theorem schedule_correct_witness:
  "returns (schedule 2 two_tasks) (\<lambda>_ s'.
     slots_ok s' \<and> task s' = task two_tasks \<and>
     (\<forall>i. 1 \<le> i \<and> i < NR_TASKS \<and> task two_tasks i \<noteq> 0 \<longrightarrow>
        state (tasks s' (task two_tasks i)) = state (check_task (jiffies two_tasks) (tasks two_tasks (task two_tasks i)))) \<and>
     (\<exists>n. current s' = task two_tasks n \<and>
        (n = 0 \<and> (\<forall>i. 1 \<le> i \<and> i < NR_TASKS \<longrightarrow> \<not> runnable s' i) \<or>
         1 \<le> n \<and> n < NR_TASKS \<and> runnable s' n \<and> 0 < task_count s' n \<and>
         (\<forall>i. 1 \<le> i \<and> i < NR_TASKS \<and> runnable s' i \<longrightarrow>
            task_count s' i \<le> task_count s' n \<and> (n < i \<longrightarrow> task_count s' i < task_count s' n)))))"
  by (rule schedule_correct [OF two_tasks_slots_ok]) simp

text \<open>C6: \<open>add_timer\<close> puts the timer into the list so that it expires after exactly \<open>j\<close> ticks; timers
  that expire before it keep their time, but every later one is delayed by the amount \<open>d\<close> that
  is left of \<open>j\<close> at its place (the code does not subtract it from the next entry). The list stays
  well formed.\<close>

theorem add_timer_correct:
  assumes "timers_inv s ps" and "length ps < TIME_REQUESTS" and "0 < sint j" and "fn \<noteq> 0"
  shows "\<exists>s' ps' pre post d. add_timer call j fn s = Ret () s' \<and> timers_inv s' ps' \<and>
     expiries 0 (deltas (timer_list s) ps) = pre @ post \<and> (\<forall>(u, g)\<in>set pre. u < sint j) \<and> 0 < d \<and>
     expiries 0 (deltas (timer_list s') ps') = pre @ (sint j, fn) # map (\<lambda>(u, g). (u + d, g)) post"
proof -
  let ?tm = "timer_list s"
  obtain p where f: "free_timer s = Some p"
  proof (cases "free_timer s")
    case None
    then have "{..<TIME_REQUESTS} \<subseteq> set ps"
      using assms(1) by (auto simp: free_timer_def find_None_iff timers_inv_def)
    from card_mono [OF _ this] have "TIME_REQUESTS \<le> card (set ps)" by simp
    then show thesis using assms(2) card_length [of ps] by simp
  qed (rule that)
  from f have p: "p < TIME_REQUESTS" "tm_fn (?tm p) = 0"
    by (auto simp: free_timer_def find_Some_iff)
  have np: "p \<notin> set ps" using assms(1) p(2) by (auto simp: timers_inv_def)
  let ?tm1 = "?tm(p := \<lparr>tm_jiffies = j, tm_fn = fn, tm_next = next_timer s\<rparr>)"
  have same: "?tm1 q = ?tm q" if "q \<in> set ps" for q using that np by auto
  have ch: "chain ?tm1 (Some p) (p # ps)"
    using assms(1) chain_cong [of ps ?tm1 ?tm "next_timer s"] same by (simp add: timers_inv_def)
  have dist: "distinct (p # ps)" and pos: "\<forall>q\<in>set (p # ps). 0 < sint (tm_jiffies (?tm1 q)) \<and> tm_fn (?tm1 q) \<noteq> 0"
    using assms np same by (auto simp: timers_inv_def)
  have len: "length ps \<le> TIME_REQUESTS" using assms(2) by simp
  define tm2 where "tm2 = sift_timer TIME_REQUESTS p ?tm1"
  note sift = sift_timer_spec [OF ch dist len pos, folded tm2_def]
  define s' where "s' = s\<lparr>timer_list := tm2, next_timer := Some p\<rparr>"
  have r: "add_timer call j fn s = Ret () s'"
    using assms(3,4) f by (simp add: add_timer_def sless_sint s'_def tm2_def)
  have d1: "deltas ?tm1 ps = deltas ?tm ps" using same by (rule deltas_cong)
  have dl: "deltas tm2 (p # ps) = insert_delta (sint j) fn (deltas ?tm ps)"
    by (simp only: sift [THEN conjunct1] d1) simp
  have "chain tm2 (Some p) (p # ps)"
    using chain_cong [of "p # ps" tm2 ?tm1 "Some p"] sift ch by blast
  moreover have "tm_fn (tm2 q) \<noteq> 0 \<longrightarrow> q \<in> set (p # ps)" if "q < TIME_REQUESTS" for q
    using sift assms(1) that by (auto simp: timers_inv_def)
  ultimately have inv: "timers_inv s' (p # ps)"
    using sift dist assms(1) p(1) by (simp add: timers_inv_def s'_def)
  from insert_delta_expiries [OF assms(3), of 0 "deltas ?tm ps" fn] r inv show ?thesis
    unfolding dl [symmetric] by (auto simp: s'_def intro!: exI [of _ "p # ps"])
qed

theorem add_timer_correct_witness:
  "\<exists>s' ps' pre post d. add_timer (\<lambda>_ s. s) 5 0x4000 two_tasks = Ret () s' \<and> timers_inv s' ps' \<and>
     expiries 0 (deltas (timer_list two_tasks) []) = pre @ post \<and> (\<forall>(u, g)\<in>set pre. u < sint (5 :: s32)) \<and> 0 < d \<and>
     expiries 0 (deltas (timer_list s') ps') = pre @ (sint (5 :: s32), 0x4000) # map (\<lambda>(u, g). (u + d, g)) post"
  by (rule add_timer_correct) (simp_all add: timers_inv_def two_tasks_def)

lemma upd_task_motor [simp]:
  "mon_timer (upd_task p f s) = mon_timer s" "moff_timer (upd_task p f s) = moff_timer s"
  "current_DOR (upd_task p f s) = current_DOR s" "selected (upd_task p f s) = selected s"
  by (simp_all add: upd_task_def)

text \<open>The motor of drive \<open>nr\<close> is on, and the drive is the selected one unless another has been selected.\<close>

definition motor_on :: "nat \<Rightarrow> 'a sched_state_scheme \<Rightarrow> bool" where
  "motor_on nr s \<longleftrightarrow> bit (current_DOR s) (4 + nr) \<and> (selected s = 0 \<longrightarrow> current_DOR s AND 3 = of_nat nr)"

definition motor_state :: "nat \<Rightarrow> 'a sched_state_scheme \<Rightarrow> s32 \<times> s32 \<times> u8 \<times> u8" where
  "motor_state nr s = (mon_timer s nr, moff_timer s nr, current_DOR s, selected s)"

lemma motor_state_on: "motor_state nr t = motor_state nr s \<Longrightarrow> motor_on nr t = motor_on nr s"
  by (simp add: motor_state_def motor_on_def)

lemma motor_state_schedule [simp]:
  "motor_state nr (check_signals n s) = motor_state nr s" "motor_state nr (recharge n s) = motor_state nr s"
  "motor_state nr (upd_task p f s) = motor_state nr s" "motor_state nr (switch_to n s) = motor_state nr s"
  "motor_state nr (s\<lparr>wait_motor := w\<rparr>) = motor_state nr s"
  by (induction n arbitrary: s) (auto simp: motor_state_def switch_to_def)

lemma init_task_schedule [simp]:
  "init_task (check_signals n s) = init_task s" "init_task (recharge n s) = init_task s" "init_task (switch_to n s) = init_task s"
  by (induction n arbitrary: s) (auto simp: switch_to_def)

lemma schedule_loop_motor:
  "lets (schedule_loop fuel s) (\<lambda>_ t. motor_state nr t = motor_state nr s \<and> init_task t = init_task s)"
proof (induction fuel arbitrary: s)
  case (Suc fuel)
  obtain c n where p: "pick (NR_TASKS - 1) s (-1) 0 = (c, n)" by fastforce
  then show ?case using Suc.IH [of "recharge (NR_TASKS - 1) s"] by simp
qed simp


text \<open>Ticks of the clock keep the motor on while one of its two timers runs.\<close>

lemma bit_motor_mask: "bit (push_bit i 0x10 :: u8) n \<longleftrightarrow> n = 4 + i \<and> n < 8"
proof -
  have "(0x10 :: u8) = push_bit 4 1" by simp
  then have "(push_bit i 0x10 :: u8) = push_bit (i + 4) 1" by (simp only: push_bit_push_bit)
  moreover have "bit (push_bit (i + 4) (1 :: u8)) n \<longleftrightarrow> n = 4 + i \<and> n < 8"
    unfolding bit_push_bit_iff bit_1_iff by auto
  ultimately show ?thesis by (simp only:)
qed

lemma motor_mask_and: "push_bit nr 0x10 AND (d::u8) = 0 \<longleftrightarrow> \<not> bit d (4 + nr)"  if nr: "nr \<le> 3"
proof
  assume "push_bit nr 0x10 AND d = 0"
  then have "d AND push_bit nr 0x10 = 0" by (simp only: and.commute)
  from and_mask_zeroD [OF this] show "\<not> bit d (4 + nr)" using nr by (simp add: bit_motor_mask)
next
  assume "\<not> bit d (4 + nr)"
  then show "push_bit nr 0x10 AND d = 0" by (intro bit_word_eqI) (auto simp: bit_and_iff bit_motor_mask)
qed

lemma motor_low_bits: "(d AND NOT (push_bit i 0x10)) AND 3 = d AND (3::u8)"
proof -
  have 3: "(3::u8) = mask 2" by (simp add: mask_eq_exp_minus_1)
  show ?thesis unfolding 3 by (rule bit_word_eqI) (auto simp: bit_and_iff bit_not_iff bit_mask_iff bit_motor_mask)
qed

lemma wake_up_motor [simp]:
  "current_DOR (wake_up get s) = current_DOR s" "selected (wake_up get s) = selected s" "mon_timer (wake_up get s) = mon_timer s" "moff_timer (wake_up get s) = moff_timer s"
  by (simp_all add: wake_up_def motor_on_def)

lemma floppy_timer_step_other:
  assumes "i \<le> 3" "nr \<le> 3" "i \<noteq> nr" and "motor_on nr s"
  shows "motor_on nr (floppy_timer_step i s)" "mon_timer (floppy_timer_step i s) nr = mon_timer s nr"
    "moff_timer (floppy_timer_step i s) nr = moff_timer s nr"
  using assms motor_low_bits [of "current_DOR s" i]
  by (auto simp: floppy_timer_step_def Let_def motor_on_def bit_and_iff bit_not_iff bit_motor_mask outb_def wake_up_def)

text \<open>The two timers of a motor, as the ticks that are left before it is switched off.\<close>

definition motor_ticks :: "nat \<Rightarrow> 'a sched_state_scheme \<Rightarrow> nat" where
  "motor_ticks nr s = unat (mon_timer s nr) + unat (moff_timer s nr)"

lemma floppy_timer_step_own:
  assumes "nr \<le> 3" and "motor_on nr s" and "0 < motor_ticks nr s"
  shows "motor_on nr (floppy_timer_step nr s) \<and> unat (mon_timer (floppy_timer_step nr s) nr) = unat (mon_timer s nr) - 1 \<and>
    motor_ticks nr (floppy_timer_step nr s) = motor_ticks nr s - 1"
proof (cases "mon_timer s nr = 0")
  case False
  then have "unat (mon_timer s nr - 1) = unat (mon_timer s nr) - 1" "0 < unat (mon_timer s nr)"
    by (simp_all add: unat_minus_one unat_gt_0)
  then show ?thesis using assms False
    by (simp add: floppy_timer_step_def Let_def motor_mask_and motor_ticks_def motor_on_def)
next
  case True
  then have m: "moff_timer s nr \<noteq> 0" using assms(3) by (auto simp: motor_ticks_def)
  then have "unat (moff_timer s nr - 1) = unat (moff_timer s nr) - 1" by (simp add: unat_minus_one)
  then show ?thesis using assms True m
    by (simp add: floppy_timer_step_def Let_def motor_mask_and motor_ticks_def motor_on_def)
qed

lemma do_floppy_timer_motor:
  assumes "nr \<le> 3" and "motor_on nr s" and "0 < motor_ticks nr s"
  shows "motor_on nr (do_floppy_timer s) \<and> unat (mon_timer (do_floppy_timer s) nr) = unat (mon_timer s nr) - 1 \<and>
    motor_ticks nr (do_floppy_timer s) = motor_ticks nr s - 1"
proof -
  have others: "motor_on nr (fold floppy_timer_step is s) \<and> mon_timer (fold floppy_timer_step is s) nr = mon_timer s nr \<and>
      moff_timer (fold floppy_timer_step is s) nr = moff_timer s nr"
    if "\<forall>i\<in>set is. i \<le> 3 \<and> i \<noteq> nr" "motor_on nr s" for "is" and s :: "'a sched_state_scheme"
    using that by (induction "is" arbitrary: s) (simp_all add: floppy_timer_step_other assms(1))
  have split: "[0..<4] = [0..<nr] @ nr # [Suc nr..<4]"
    using assms(1) upt_add_eq_append [of 0 nr "4 - nr"] upt_conv_Cons [of nr 4] by simp
  define t where "t = fold floppy_timer_step [0..<nr] s"
  have t: "motor_on nr t" "mon_timer t nr = mon_timer s nr" "moff_timer t nr = moff_timer s nr"
    using others [of "[0..<nr]" s] assms(1,2) by (simp_all add: t_def)
  have u: "motor_on nr (floppy_timer_step nr t) \<and> unat (mon_timer (floppy_timer_step nr t) nr) = unat (mon_timer s nr) - 1 \<and>
      motor_ticks nr (floppy_timer_step nr t) = motor_ticks nr s - 1"
    using floppy_timer_step_own [OF assms(1) t(1)] assms(3) t(2,3) by (simp add: motor_ticks_def)
  have "do_floppy_timer s = fold floppy_timer_step [Suc nr..<4] (floppy_timer_step nr t)"
    by (simp add: do_floppy_timer_def split t_def del: upt_Suc)
  then show ?thesis using others [of "[Suc nr..<4]" "floppy_timer_step nr t"] u by (simp add: motor_ticks_def)
qed

lemma ticks_motor:
  assumes "nr \<le> 3" and "motor_on nr s" and "k \<le> motor_ticks nr s"
  shows "motor_on nr ((do_floppy_timer ^^ k) s) \<and> unat (mon_timer ((do_floppy_timer ^^ k) s) nr) = unat (mon_timer s nr) - k \<and>
    motor_ticks nr ((do_floppy_timer ^^ k) s) = motor_ticks nr s - k"
  using assms(3)
proof (induction k)
  case (Suc k)
  then show ?case using do_floppy_timer_motor [OF assms(1), of "(do_floppy_timer ^^ k) s"] by simp
qed (simp add: assms(2))

lemma ticks_selected [simp]: "selected ((do_floppy_timer ^^ k) s) = selected s"
proof -
  have step: "selected (floppy_timer_step i s) = selected s" for i and s :: "'b sched_state_scheme"
    by (auto simp: floppy_timer_step_def Let_def outb_def)
  have "selected (fold floppy_timer_step is s) = selected s" for "is" and s :: "'b sched_state_scheme"
    by (induction "is" arbitrary: s) (simp_all add: step)
  note all = this
  show ?thesis by (induction k) (simp_all add: do_floppy_timer_def all)
qed

lemma ticks_to_floppy_on_on:
  assumes "nr \<le> 3" and "motor_on nr s"
  shows "ticks_to_floppy_on nr s = Ret (mon_timer s nr) (s\<lparr>moff_timer := (moff_timer s)(nr := 10000)\<rparr>)"
proof -
  have b: "bit (current_DOR s) (4 + nr)" "selected s = 0 \<longrightarrow> current_DOR s AND 3 = of_nat nr"
    using assms(2) by (simp_all add: motor_on_def)
  have 1: "push_bit nr 0x10 OR current_DOR s = current_DOR s"
    using b(1) by (intro bit_word_eqI) (auto simp: bit_or_iff bit_motor_mask)
  have c: "(0xFC :: u8) = NOT 3" by simp
  have "(current_DOR s AND 0xFC) OR (current_DOR s AND 3) = current_DOR s"
    unfolding c by (rule bit_word_eqI) (auto simp: bit_simps)
  then have "selected s = 0 \<Longrightarrow> (current_DOR s AND 0xFC) OR of_nat nr = current_DOR s" using b(2) by simp
  then show ?thesis using assms(1) unfolding ticks_to_floppy_on_def Let_def by (simp add: 1)
qed

lemma ticks_to_floppy_on_starts:
  assumes nr: "nr \<le> 3" and m: "unat (mon_timer s nr) \<le> 50"
  shows "returns (ticks_to_floppy_on nr s) (\<lambda>t s'. t = mon_timer s' nr \<and> unat t \<le> 50 \<and> moff_timer s' nr = 10000 \<and> motor_on nr s' \<and>
     current s' = current s \<and> init_task s' = init_task s \<and> selected s' = selected s \<and> (slots_ok s \<longrightarrow> slots_ok s'))"
proof -
  obtain t s' where t: "ticks_to_floppy_on nr s = Ret t s'" "t = mon_timer s' nr" "moff_timer s' nr = 10000" "bit (current_DOR s') (4 + nr)"
    using ticks_to_floppy_on_spec [OF nr, of s] by (auto elim: returnsE)
  have e: "current s' = current s \<and> init_task s' = init_task s \<and> selected s' = selected s \<and> task s' = task s \<and> tasks s' = tasks s \<and>
      (mon_timer s' nr = mon_timer s nr \<or> mon_timer s' nr = 50 \<or> mon_timer s' nr = 2)"
    using t(1) nr unfolding ticks_to_floppy_on_def Let_def by (auto simp: outb_def split: if_splits)
  have n: "(((x :: u8) AND 0xFC) OR of_nat nr) AND 3 = of_nat nr" for x
  proof -
    have "(x AND 0xFC) AND 3 = 0" by (simp add: and.assoc)
    moreover have "of_nat nr AND (3::u8) = of_nat nr"
    proof -
      consider "nr = 0" | "nr = 1" | "nr = 2" | "nr = 3" using nr by linarith
      then show ?thesis by cases simp_all
    qed
    ultimately show ?thesis by (simp only: and.commute [of _ 3] bit.conj_disj_distrib) simp
  qed
  have "selected s = 0 \<Longrightarrow> current_DOR s' = ((push_bit nr 0x10 OR current_DOR s) AND 0xFC) OR of_nat nr"
    using t(1) nr unfolding ticks_to_floppy_on_def Let_def by (auto simp: outb_def split: if_splits)
  then have "selected s' = 0 \<longrightarrow> current_DOR s' AND 3 = of_nat nr" using e n by simp
  moreover have "unat (mon_timer s' nr) \<le> 50" using e m by auto
  moreover have "slots_ok s \<longrightarrow> slots_ok s'" using e by (simp add: slots_ok_def)
  ultimately show ?thesis using t e by (simp add: motor_on_def)
qed

text \<open>What runs while the task \<open>p\<close> sleeps on the queue of the motor: the clock ticks, at least once and
  for less than 100 s, and then the task goes on.\<close>

definition clocked :: "nat \<Rightarrow> u32 \<Rightarrow> ('a sched_state_scheme \<Rightarrow> 'a sched_state_scheme) \<Rightarrow> bool" where
  "clocked nr p E \<longleftrightarrow> (\<forall>s. current (E s) = p \<and> init_task (E s) = init_task s \<and> slots_ok (E s) \<and>
     (\<exists>k. 0 < k \<and> k \<le> 10000 \<and> motor_state nr (E s) = motor_state nr ((do_floppy_timer ^^ k) s)))"

lemma sleep_on_motor:
  assumes "slots_ok s" and "2 \<le> fuel" and "current s \<noteq> init_task s"
  shows "returns (sleep_on fuel E (get_motor nr) (put_motor nr) s) (\<lambda>_ t. \<exists>u. motor_state nr u = motor_state nr s \<and>
     init_task u = init_task s \<and> motor_state nr t = motor_state nr (E u) \<and> current t = current (E u) \<and>
     init_task t = init_task (E u) \<and> (slots_ok (E u) \<longrightarrow> slots_ok t))"
proof -
  let ?s = "upd_cur (\<lambda>t. t\<lparr>state := TASK_UNINTERRUPTIBLE\<rparr>) (put_motor nr (current s) s)"
  have "slots_ok (put_motor nr (current s) s)" using assms(1) by (simp add: slots_ok_def)
  then have "slots_ok ?s" by (rule slots_ok_upd) (simp add: task_ok_def)
  then have ok: "slots_ok (check_signals (NR_TASKS - 1) ?s)" by (rule check_signals_slots_ok)
  obtain u where u: "schedule fuel ?s = Ret () u"
    using schedule_loop_ok [OF ok assms(2)] unfolding schedule_def by (auto elim: returnsE)
  have "lets (schedule fuel ?s) (\<lambda>_ t. motor_state nr t = motor_state nr s \<and> init_task t = init_task s)"
    unfolding schedule_def by (rule lets_mono [OF schedule_loop_motor]) simp
  note m = lets_RetD [OF this u]
  define v where "v = (if get_motor nr s \<noteq> 0 then make_running (get_motor nr s) (E u) else E u)"
  have "sleep_on fuel E (get_motor nr) (put_motor nr) s = Ret () v"
    unfolding motor.sleep_on_unfold [OF assms(3)] u v_def by simp
  moreover have "slots_ok (E u) \<longrightarrow> slots_ok v" unfolding v_def using slots_ok_upd [of "E u"] by (auto simp: task_ok_def)
  moreover have "motor_state nr v = motor_state nr (E u)" "current v = current (E u)" "init_task v = init_task (E u)" by (simp_all add: v_def)
  ultimately show ?thesis using m by (simp only: returns_simps) blast
qed

lemma floppy_on_loop:
  assumes nr: "nr \<le> 3" and E: "clocked nr p E" and f: "2 \<le> fuel"
  shows "motor_on nr s \<Longrightarrow> unat (mon_timer s nr) < n \<Longrightarrow> slots_ok s \<Longrightarrow> current s = p \<Longrightarrow> p \<noteq> init_task s \<Longrightarrow>
    returns (floppy_on n fuel E nr s) (\<lambda>_ t. mon_timer t nr = 0 \<and> motor_on nr t \<and> moff_timer t nr = 10000 \<and> current t = p \<and> selected t = selected s)"
proof (induction n arbitrary: s)
  case (Suc n)
  let ?s = "s\<lparr>moff_timer := (moff_timer s)(nr := 10000)\<rparr>"
  have t: "ticks_to_floppy_on nr s = Ret (mon_timer s nr) ?s" using nr Suc.prems(1) by (rule ticks_to_floppy_on_on)
  have on: "motor_on nr ?s" using Suc.prems(1) by (simp add: motor_on_def)
  show ?case
  proof (cases "mon_timer s nr = 0")
    case True
    then show ?thesis using t on Suc.prems(4) by simp
  next
    case False
    have "returns (floppy_on n fuel E nr t) (\<lambda>_ t. mon_timer t nr = 0 \<and> motor_on nr t \<and> moff_timer t nr = 10000 \<and> current t = p \<and> selected t = selected s)"
      if u: "motor_state nr u = motor_state nr ?s" "init_task u = init_task ?s" "motor_state nr t = motor_state nr (E u)"
        "current t = current (E u)" "init_task t = init_task (E u)" "slots_ok (E u) \<longrightarrow> slots_ok t" for u t :: "'a sched_state_scheme"
    proof -
      have Eu: "current (E u) = p" "init_task (E u) = init_task u" "slots_ok (E u)" using E unfolding clocked_def by blast+
      obtain k where k: "0 < k" "k \<le> 10000" "motor_state nr (E u) = motor_state nr ((do_floppy_timer ^^ k) u)"
        using E unfolding clocked_def by blast
      have u': "motor_on nr u" "unat (mon_timer u nr) = unat (mon_timer s nr)" "k \<le> motor_ticks nr u" "selected u = selected s"
        using motor_state_on [OF u(1)] on u(1) k(2) by (simp_all add: motor_state_def motor_ticks_def)
      have "motor_on nr t" "unat (mon_timer t nr) = unat (mon_timer s nr) - k"
        using ticks_motor [OF nr u'(1,3)] motor_state_on [of nr t "(do_floppy_timer ^^ k) u"] u(3) k(3) u'(2) by (simp_all add: motor_state_def)
      moreover have "selected t = selected s" using u(3) k(3) u'(4) ticks_selected [of k u] by (simp add: motor_state_def)
      moreover have "unat (mon_timer s nr) - k < n" using Suc.prems(2) False k(1) unat_gt_0 [of "mon_timer s nr"] by linarith
      ultimately show ?thesis using Suc.IH [of t] Suc.prems(5) Eu u(2,4-6) by simp
    qed
    moreover have "slots_ok ?s" "current ?s \<noteq> init_task ?s" using Suc.prems(3-5) by (simp_all add: slots_ok_def)
    note sl = sleep_on_motor [OF this(1) f this(2), of E nr]
    ultimately show ?thesis using t False by (auto intro!: returns_mono [OF sl])
  qed
qed simp

text \<open>C7: \<open>floppy_on\<close> on drive \<open>nr\<close>, called by a task other than the first, whose sleeps on the motor's queue last at least one tick of
  the clock and less than the 100 s (10000 ticks) after which the motor would be switched off, returns after at most 51 turns
  of its loop: the spin-up time (at most the half second that \<open>ticks_to_floppy_on\<close> sets) is over, the
  motor is still switched on, the drive is selected unless another drive had been chosen, the motor-off time is
  10000 ticks again, and it is the calling task that goes on.\<close>

theorem floppy_on_correct:
  assumes "nr \<le> 3" and "unat (mon_timer s nr) \<le> 50" and "slots_ok s" and "current s = p" and "p \<noteq> init_task s"
    and "clocked nr p E" and "52 \<le> n" and "2 \<le> fuel"
  shows "returns (floppy_on n fuel E nr s) (\<lambda>_ s'.
     mon_timer s' nr = 0 \<and> bit (current_DOR s') (4 + nr) \<and> (selected s = 0 \<longrightarrow> current_DOR s' AND 3 = of_nat nr) \<and>
     moff_timer s' nr = 10000 \<and> current s' = p)"
proof -
  obtain m where n: "n = Suc m" "50 < m" using assms(7) by (cases n) auto
  obtain t s1 where s1: "ticks_to_floppy_on nr s = Ret t s1" "motor_on nr s1" "unat (mon_timer s1 nr) \<le> 50" "slots_ok s1"
      "current s1 = p" "init_task s1 = init_task s" "t = mon_timer s1 nr" "selected s1 = selected s" "moff_timer s1 nr = 10000"
    using ticks_to_floppy_on_starts [OF assms(1,2)] assms(3,4) by (auto elim: returnsE)
  have "ticks_to_floppy_on nr s1 = Ret t s1" using ticks_to_floppy_on_on [OF assms(1) s1(2)] s1(7,9) by (simp add: fun_upd_idem)
  then have "floppy_on n fuel E nr s = floppy_on n fuel E nr s1" using s1(1) by (simp add: n)
  moreover have "returns (floppy_on n fuel E nr s1) (\<lambda>_ t. mon_timer t nr = 0 \<and> motor_on nr t \<and> moff_timer t nr = 10000 \<and> current t = p \<and> selected t = selected s1)"
    using s1 assms(5) n by (intro floppy_on_loop [OF assms(1,6,8)]) simp_all
  ultimately show ?thesis using s1(8) by (auto simp: motor_on_def elim!: returns_mono)
qed

text \<open>While it sleeps half a second passes.\<close>

definition half_second :: "sched_state \<Rightarrow> sched_state" where
  "half_second s = ((do_floppy_timer ^^ 50) s)\<lparr>current := 0x2000, init_task := init_task s, task := task two_tasks, tasks := tasks two_tasks\<rparr>"

lemma half_second_clocked: "clocked nr 0x2000 half_second"
proof -
  have "slots_ok (half_second s)" for s using two_tasks_slots_ok by (simp add: half_second_def slots_ok_def)
  then show ?thesis
    unfolding clocked_def by (auto simp: half_second_def motor_state_def intro!: exI [of _ 50])
qed

theorem floppy_on_correct_witness:
  "returns (floppy_on 52 2 half_second 2 two_tasks) (\<lambda>_ s'.
     mon_timer s' 2 = 0 \<and> bit (current_DOR s') (4 + 2) \<and> (selected two_tasks = 0 \<longrightarrow> current_DOR s' AND 3 = of_nat 2) \<and>
     moff_timer s' 2 = 10000 \<and> current s' = 0x2000)"
  by (rule floppy_on_correct [OF _ _ two_tasks_slots_ok _ _ half_second_clocked]) (simp_all add: two_tasks_def)

text \<open>The coprocessor contents that belong to the task at \<open>p\<close>.\<close>

definition fpu_of :: "'a sched_state_scheme \<Rightarrow> u32 \<Rightarrow> i387_struct" where
  "fpu_of s p = (if last_task_used_math s = p then fpu s else i387 (tss (tasks s p)))"

text \<open>C8: lazy switching of the coprocessor: afterwards the current task owns it, and the coprocessor
  contents of every task (in the registers for the owner, in the task structure otherwise) are what
  they were, except that a task that never used it starts from the initial contents.\<close>

theorem math_state_restore_correct:
  assumes "current s \<noteq> 0" and "p \<noteq> 0"
  shows "last_task_used_math (math_state_restore fninit s) = current s \<and>
     fpu_of (math_state_restore fninit s) p =
       (if p = current s \<and> last_task_used_math s \<noteq> current s \<and> used_math (cur s) = 0
        then fninit else fpu_of s p)"
  using assms by (auto simp: math_state_restore_def Let_def fpu_of_def)

theorem math_state_restore_correct_witness:
  "last_task_used_math (math_state_restore (\<lambda>_. 7) two_tasks) = current two_tasks \<and>
     fpu_of (math_state_restore (\<lambda>_. 7) two_tasks) 0x2000 =
       (if 0x2000 = current two_tasks \<and> last_task_used_math two_tasks \<noteq> current two_tasks \<and> used_math (cur two_tasks) = 0
        then (\<lambda>_. 7) else fpu_of two_tasks 0x2000)"
  by (rule math_state_restore_correct) simp_all

text \<open>C9: because \<open>wake_up\<close> leaves the woken task on the queue, a later \<open>wake_up\<close> of the same queue
  makes that task runnable again even if it has become a zombie in between.\<close>

theorem wake_up_revives_zombie:
  assumes "wait_motor s nr = p" and "p \<noteq> 0"
    and "s1 = upd_task p (\<lambda>t. t\<lparr>state := TASK_ZOMBIE\<rparr>) (wake_up (\<lambda>s. wait_motor s nr) s)"
  shows "state (tasks s1 p) = TASK_ZOMBIE \<and>
     state (tasks (wake_up (\<lambda>s. wait_motor s nr) s1) p) = TASK_RUNNING"
  using assms motor.wake_up_again [of s nr p] by simp

theorem wake_up_revives_zombie_witness:
  "state (tasks (upd_task 0x2000 (\<lambda>t. t\<lparr>state := TASK_ZOMBIE\<rparr>)
      (wake_up (\<lambda>s. wait_motor s 1) (two_tasks\<lparr>wait_motor := (\<lambda>_. 0x2000)\<rparr>))) 0x2000) = TASK_ZOMBIE \<and>
   state (tasks (wake_up (\<lambda>s. wait_motor s 1) (upd_task 0x2000 (\<lambda>t. t\<lparr>state := TASK_ZOMBIE\<rparr>)
      (wake_up (\<lambda>s. wait_motor s 1) (two_tasks\<lparr>wait_motor := (\<lambda>_. 0x2000)\<rparr>)))) 0x2000) = TASK_RUNNING"
  by (rule wake_up_revives_zombie [OF _ _ refl]) simp_all

end
