(* ===== verification/Process.thy ===== *)
theory Process
  imports Sched
begin

text \<open>
  Processes: access to user memory (\<^verbatim>\<open>include/asm/segment.h\<close>), signal delivery
  (\<^verbatim>\<open>kernel/signal.c\<close>), sending signals, releasing and waiting (\<^verbatim>\<open>kernel/exit.c\<close>), identities
  and groups (\<^verbatim>\<open>kernel/sys.c\<close>), and the parts of \<^verbatim>\<open>kernel/fork.c\<close> that do not touch files.

  \<open>umem\<close> is the data segment of the current process as the kernel reaches it through \<open>fs\<close>. System
  calls return C ints, as integers. A loop over the task table runs from the last slot down to
  slot 1 where the code's pointer does.
\<close>

section \<open>User memory\<close>

record proc_state = sched_state +
  umem :: "u32 \<Rightarrow> u8"
  last_pid :: s32

definition get_fs_byte :: "u32 \<Rightarrow> 'a proc_state_scheme \<Rightarrow> u8" where
  "get_fs_byte a s = umem s a"

definition put_fs_byte :: "u8 \<Rightarrow> u32 \<Rightarrow> 'a proc_state_scheme \<Rightarrow> 'a proc_state_scheme" where
  "put_fs_byte v a s = s\<lparr>umem := (umem s)(a := v)\<rparr>"

definition get_fs_word :: "u32 \<Rightarrow> 'a proc_state_scheme \<Rightarrow> u16" where
  "get_fs_word a s = push_bit 8 (ucast (umem s (a + 1))) OR ucast (umem s a)"

definition get_fs_long :: "u32 \<Rightarrow> 'a proc_state_scheme \<Rightarrow> u32" where
  "get_fs_long a s = push_bit 24 (ucast (umem s (a + 3))) OR push_bit 16 (ucast (umem s (a + 2))) OR
     push_bit 8 (ucast (umem s (a + 1))) OR ucast (umem s a)"

definition put_fs_word :: "u16 \<Rightarrow> u32 \<Rightarrow> 'a proc_state_scheme \<Rightarrow> 'a proc_state_scheme" where
  "put_fs_word v a s = s\<lparr>umem := (umem s)(a := ucast v, a + 1 := ucast (drop_bit 8 v))\<rparr>"

definition put_fs_long :: "u32 \<Rightarrow> u32 \<Rightarrow> 'a proc_state_scheme \<Rightarrow> 'a proc_state_scheme" where
  "put_fs_long v a s = s\<lparr>umem := (umem s)(a := ucast v, a + 1 := ucast (drop_bit 8 v),
     a + 2 := ucast (drop_bit 16 v), a + 3 := ucast (drop_bit 24 v))\<rparr>"

definition suser :: "'a proc_state_scheme \<Rightarrow> bool" where
  "suser s \<longleftrightarrow> euid (cur s) = 0"

section \<open>Areas of user memory (fork.c)\<close>

function verify_loop :: "int \<Rightarrow> u32 \<Rightarrow> 'a proc_state_scheme \<Rightarrow> ('a proc_state_scheme, unit) outcome" where
  "verify_loop sz start s =
     (if 0 < sz then andThen (write_verify start s) (\<lambda>_ s. verify_loop (sz - 4096) (start + 4096) s)
      else Ret () s)"
  by pat_completeness auto
termination by (relation "measure (\<lambda>(sz, _, _). nat sz)") auto

declare verify_loop.simps [simp del]

definition verify_area :: "u32 \<Rightarrow> int \<Rightarrow> 'a proc_state_scheme \<Rightarrow> ('a proc_state_scheme, unit) outcome" where
  "verify_area addr sz s =
     verify_loop (sz + uint (addr AND 0xfff)) ((addr AND 0xfffff000) + get_base (ldt (cur s) 2)) s"

text \<open>The limits come from the selectors 0x0f and 0x17, which name entries 1 and 2 of the local
  table of the current task.\<close>

definition copy_mem :: "nat \<Rightarrow> u32 \<Rightarrow> 'a proc_state_scheme \<Rightarrow> ('a proc_state_scheme, int) outcome" where
  "copy_mem nr p s =
     (let code_limit = get_limit (ldt (cur s) 1);
          data_limit = get_limit (ldt (cur s) 2);
          old_code_base = get_base (ldt (cur s) 1);
          old_data_base = get_base (ldt (cur s) 2) in
      if old_data_base \<noteq> old_code_base then Panic ''We don't support separate I&D'' s
      else if data_limit < code_limit then Panic ''Bad data_limit'' s
      else let new_base = of_nat nr * 0x4000000;
               s = upd_task p (\<lambda>t. t\<lparr>start_code := new_base\<rparr>) s;
               s = upd_task p (\<lambda>t. t\<lparr>ldt := (ldt t)(1 := set_base (ldt t 1) new_base)\<rparr>) s;
               s = upd_task p (\<lambda>t. t\<lparr>ldt := (ldt t)(2 := set_base (ldt t 2) new_base)\<rparr>) s in
           andThen (copy_page_tables old_data_base new_base data_limit s) (\<lambda>r s.
             if r \<noteq> 0 then andThen (free_page_tables new_base data_limit s) (\<lambda>_ s. Ret (- ENOMEM) s)
             else Ret 0 s))"

text \<open>\<open>find_empty_process\<close>: the next process number that no task uses (\<open>fuel\<close> bounds the retries),
  and the first free slot.\<close>

definition pid_in_use :: "s32 \<Rightarrow> 'a proc_state_scheme \<Rightarrow> bool" where
  "pid_in_use n s \<longleftrightarrow> (\<exists>i\<in>set [0..<NR_TASKS]. task s i \<noteq> 0 \<and> pid (tasks s (task s i)) = n)"

definition bump_pid :: "s32 \<Rightarrow> s32" where
  "bump_pid n = (if n + 1 <s 0 then 1 else n + 1)"

fun next_pid :: "nat \<Rightarrow> 'a proc_state_scheme \<Rightarrow> ('a proc_state_scheme, unit) outcome" where
  "next_pid 0 s = Hang"
| "next_pid (Suc fuel) s =
     (let s = s\<lparr>last_pid := bump_pid (last_pid s)\<rparr> in
      if pid_in_use (last_pid s) s then next_pid fuel s else Ret () s)"

definition find_empty_process :: "nat \<Rightarrow> 'a proc_state_scheme \<Rightarrow> ('a proc_state_scheme, int) outcome" where
  "find_empty_process fuel s = andThen (next_pid fuel s) (\<lambda>_ s.
     Ret (case find (\<lambda>i. task s i = 0) [1..<NR_TASKS] of Some i \<Rightarrow> int i | None \<Rightarrow> - EAGAIN) s)"

section \<open>Signals (signal.c)\<close>

definition sys_sgetmask :: "'a proc_state_scheme \<Rightarrow> int" where
  "sys_sgetmask s = sint (blocked (cur s))"

definition sys_ssetmask :: "u32 \<Rightarrow> 'a proc_state_scheme \<Rightarrow> int \<times> 'a proc_state_scheme" where
  "sys_ssetmask newmask s =
     (sint (blocked (cur s)), upd_cur (\<lambda>t. t\<lparr>blocked := newmask AND NOT (sig_bit SIGKILL)\<rparr>) s)"

abbreviation (input) SA_NOMASK :: u32 where "SA_NOMASK \<equiv> 0x40000000"
abbreviation (input) SA_ONESHOT :: u32 where "SA_ONESHOT \<equiv> 0x80000000"

text \<open>The 16 bytes of a \<open>sigaction\<close>, as \<open>save_old\<close> and \<open>get_new\<close> copy them.\<close>

definition save_old :: "sigaction_struct \<Rightarrow> u32 \<Rightarrow> 'a proc_state_scheme \<Rightarrow> ('a proc_state_scheme, unit) outcome" where
  "save_old sa to s = andThen (verify_area to 16 s) (\<lambda>_ s.
     Ret () (put_fs_long (sa_restorer sa) (to + 12) (put_fs_long (sa_flags sa) (to + 8)
       (put_fs_long (sa_mask sa) (to + 4) (put_fs_long (sa_handler sa) to s)))))"

definition get_new :: "u32 \<Rightarrow> 'a proc_state_scheme \<Rightarrow> sigaction_struct" where
  "get_new from s = \<lparr>sa_handler = get_fs_long from s, sa_mask = get_fs_long (from + 4) s,
     sa_flags = get_fs_long (from + 8) s, sa_restorer = get_fs_long (from + 12) s\<rparr>"

definition set_action :: "int \<Rightarrow> (sigaction_struct \<Rightarrow> sigaction_struct) \<Rightarrow> task_struct \<Rightarrow> task_struct" where
  "set_action signum f t =
     t\<lparr>sigaction := (sigaction t)(nat (signum - 1) := f (sigaction t (nat (signum - 1))))\<rparr>"

definition sys_signal :: "int \<Rightarrow> u32 \<Rightarrow> u32 \<Rightarrow> 'a proc_state_scheme \<Rightarrow> int \<times> 'a proc_state_scheme" where
  "sys_signal signum handler restorer s =
     (if signum < 1 \<or> 32 < signum \<or> signum = SIGKILL then (-1, s)
      else (sint (sa_handler (sigaction (cur s) (nat (signum - 1)))),
            upd_cur (set_action signum (\<lambda>_. \<lparr>sa_handler = handler, sa_mask = 0,
              sa_flags = SA_ONESHOT OR SA_NOMASK, sa_restorer = restorer\<rparr>)) s))"

definition sys_sigaction ::
  "int \<Rightarrow> u32 \<Rightarrow> u32 \<Rightarrow> 'a proc_state_scheme \<Rightarrow> ('a proc_state_scheme, int) outcome" where
  "sys_sigaction signum action oldaction s =
     (if signum < 1 \<or> 32 < signum \<or> signum = SIGKILL then Ret (-1) s
      else let tmp = sigaction (cur s) (nat (signum - 1));
               s = upd_cur (set_action signum (\<lambda>_. get_new action s)) s in
        andThen (if oldaction \<noteq> 0 then save_old tmp oldaction s else Ret () s) (\<lambda>_ s.
          Ret 0 (upd_cur (set_action signum (\<lambda>a. a\<lparr>sa_mask :=
            if sa_flags a AND SA_NOMASK \<noteq> 0 then 0 else sa_mask a OR sig_bit signum\<rparr>)) s)))"

text \<open>\<open>do_signal\<close> with the saved registers; it returns the \<open>eip\<close> and \<open>esp\<close> that the interrupted
  program resumes with.\<close>

fun put_longs :: "u32 list \<Rightarrow> u32 \<Rightarrow> 'a proc_state_scheme \<Rightarrow> 'a proc_state_scheme" where
  "put_longs [] a s = s"
| "put_longs (v # vs) a s = put_longs vs (a + 4) (put_fs_long v a s)"

definition do_signal ::
  "int \<Rightarrow> u32 \<Rightarrow> u32 \<Rightarrow> u32 \<Rightarrow> u32 \<Rightarrow> u32 \<Rightarrow> u32 \<Rightarrow> 'a proc_state_scheme \<Rightarrow>
     ('a proc_state_scheme, u32 \<times> u32) outcome" where
  "do_signal signr eax ecx edx eip eflags esp s =
     (let sa = sigaction (cur s) (nat (signr - 1)); h = sa_handler sa in
      if h = 1 then Ret (eip, esp) s
      else if h = 0 then
        if signr = SIGCHLD then Ret (eip, esp) s else Exit (sint (sig_bit signr)) s
      else
        let s = (if sa_flags sa AND SA_ONESHOT \<noteq> 0
                 then upd_cur (set_action signr (\<lambda>a. a\<lparr>sa_handler := 0\<rparr>)) s else s);
            nomask = sa_flags sa AND SA_NOMASK \<noteq> 0;
            longs = (if nomask then 7 else 8);
            esp = esp - 4 * longs
        in andThen (verify_area esp (uint (4 * longs)) s) (\<lambda>_ s.
             let s = put_longs ([sa_restorer sa, word_of_int signr] @
                       (if nomask then [] else [blocked (cur s)]) @ [eax, ecx, edx, eflags, eip]) esp s
             in Ret (h, esp) (upd_cur (\<lambda>t. t\<lparr>blocked := blocked t OR sa_mask sa\<rparr>) s)))"

section \<open>Ending and waiting (exit.c)\<close>

text \<open>\<open>release\<close>: \<open>schedule()\<close> at its end switches away; \<open>E\<close> is what runs until the caller resumes.\<close>

definition release ::
  "nat \<Rightarrow> ('a proc_state_scheme \<Rightarrow> 'a proc_state_scheme) \<Rightarrow> u32 \<Rightarrow> 'a proc_state_scheme \<Rightarrow>
     ('a proc_state_scheme, unit) outcome" where
  "release fuel E p s =
     (if p = 0 then Ret () s
      else case find (\<lambda>i. task s i = p) [1..<NR_TASKS] of
          None \<Rightarrow> Panic ''trying to release non-existent task'' s
        | Some i \<Rightarrow>
            andThen (free_page p (s\<lparr>task := (task s)(i := 0)\<rparr>)) (\<lambda>_ s.
            andThen (schedule fuel s) (\<lambda>_ s. Ret () (E s))))"

definition send_sig :: "int \<Rightarrow> u32 \<Rightarrow> bool \<Rightarrow> 'a proc_state_scheme \<Rightarrow> int \<times> 'a proc_state_scheme" where
  "send_sig sig p priv s =
     (if p = 0 \<or> sig < 1 \<or> 32 < sig then (- EINVAL, s)
      else if priv \<or> euid (cur s) = euid (tasks s p) \<or> suser s
        then (0, upd_task p (\<lambda>t. t\<lparr>signal := signal t OR sig_bit sig\<rparr>) s)
      else (- EPERM, s))"

definition kill_session :: "'a proc_state_scheme \<Rightarrow> 'a proc_state_scheme" where
  "kill_session s = fold (\<lambda>i s.
     if task s i \<noteq> 0 \<and> session (tasks s (task s i)) = session (cur s)
     then upd_task (task s i) (\<lambda>t. t\<lparr>signal := signal t OR sig_bit SIGHUP\<rparr>) s else s)
     (rev [1..<NR_TASKS]) s"

text \<open>The four loops of \<open>sys_kill\<close> differ in the slots they take and in \<open>priv\<close>; \<open>retval\<close> is the last
  error.\<close>

definition kill_step ::
  "(u32 \<Rightarrow> 'a proc_state_scheme \<Rightarrow> bool) \<Rightarrow> int \<Rightarrow> bool \<Rightarrow> nat \<Rightarrow>
     int \<times> 'a proc_state_scheme \<Rightarrow> int \<times> 'a proc_state_scheme" where
  "kill_step sel sig priv i rs =
     (let (retval, s) = rs in
      if sel (task s i) s then
        let (err, s) = send_sig sig (task s i) priv s in (if err \<noteq> 0 then err else retval, s)
      else (retval, s))"

definition kill_loop ::
  "(u32 \<Rightarrow> 'a proc_state_scheme \<Rightarrow> bool) \<Rightarrow> int \<Rightarrow> bool \<Rightarrow> 'a proc_state_scheme \<Rightarrow> int \<times> 'a proc_state_scheme" where
  "kill_loop sel sig priv s = fold (kill_step sel sig priv) (rev [1..<NR_TASKS]) (0, s)"

definition sys_kill :: "s32 \<Rightarrow> int \<Rightarrow> 'a proc_state_scheme \<Rightarrow> int \<times> 'a proc_state_scheme" where
  "sys_kill n sig s =
     (if n = 0 then kill_loop (\<lambda>p s. p \<noteq> 0 \<and> pgrp (tasks s p) = pid (cur s)) sig True s
      else if 0 <s n then kill_loop (\<lambda>p s. p \<noteq> 0 \<and> pid (tasks s p) = n) sig False s
      else if n = -1 then kill_loop (\<lambda>p s. True) sig False s
      else kill_loop (\<lambda>p s. p \<noteq> 0 \<and> pgrp (tasks s p) = - n) sig False s)"

definition tell_father ::
  "nat \<Rightarrow> ('a proc_state_scheme \<Rightarrow> 'a proc_state_scheme) \<Rightarrow> s32 \<Rightarrow> 'a proc_state_scheme \<Rightarrow>
     ('a proc_state_scheme, unit) outcome" where
  "tell_father fuel E n s =
     (case if n \<noteq> 0 then find (\<lambda>i. task s i \<noteq> 0 \<and> pid (tasks s (task s i)) = n) [0..<NR_TASKS] else None of
        Some i \<Rightarrow> Ret () (upd_task (task s i) (\<lambda>t. t\<lparr>signal := signal t OR sig_bit SIGCHLD\<rparr>) s)
      | None \<Rightarrow> release fuel E (current s) s)"

text \<open>\<open>sys_waitpid\<close>: the scan ends at a stopped or dead child (\<open>Inl\<close> its slot) or gives the flag that
  some child was seen.\<close>

definition wait_for :: "s32 \<Rightarrow> 'a proc_state_scheme \<Rightarrow> u32 \<Rightarrow> bool" where
  "wait_for n s p \<longleftrightarrow> p \<noteq> 0 \<and> p \<noteq> current s \<and> father (tasks s p) = pid (cur s) \<and>
     (if 0 <s n then pid (tasks s p) = n
      else if n = 0 then pgrp (tasks s p) = pgrp (cur s)
      else if n \<noteq> -1 then pgrp (tasks s p) = - n
      else True)"

abbreviation (input) WNOHANG :: u32 where "WNOHANG \<equiv> 1"
abbreviation (input) WUNTRACED :: u32 where "WUNTRACED \<equiv> 2"

fun wait_scan :: "nat \<Rightarrow> s32 \<Rightarrow> u32 \<Rightarrow> bool \<Rightarrow> 'a proc_state_scheme \<Rightarrow> nat + bool" where
  "wait_scan 0 n options flag s = Inr flag"
| "wait_scan (Suc i) n options flag s =
     (let p = task s (Suc i) in
      if \<not> wait_for n s p then wait_scan i n options flag s
      else if state (tasks s p) = TASK_STOPPED then
        if options AND WUNTRACED = 0 then wait_scan i n options flag s else Inl (Suc i)
      else if state (tasks s p) = TASK_ZOMBIE then Inl (Suc i)
      else wait_scan i n options True s)"

fun wait_loop ::
  "nat \<Rightarrow> nat \<Rightarrow> ('a proc_state_scheme \<Rightarrow> 'a proc_state_scheme) \<Rightarrow> s32 \<Rightarrow> u32 \<Rightarrow> u32 \<Rightarrow> 'a proc_state_scheme \<Rightarrow>
     ('a proc_state_scheme, int) outcome" where
  "wait_loop 0 fuel E n stat_addr options s = Hang"
| "wait_loop (Suc m) fuel E n stat_addr options s =
     (case wait_scan (NR_TASKS - 1) n options False s of
        Inl i \<Rightarrow>
          let p = task s i in
          if state (tasks s p) = TASK_STOPPED
          then Ret (sint (pid (tasks s p))) (put_fs_long 0x7f stat_addr s)
          else
            let s = upd_cur (\<lambda>t. t\<lparr>cutime := cutime t + utime (tasks s p)\<rparr>) s;
                s = upd_cur (\<lambda>t. t\<lparr>cstime := cstime t + stime (tasks s p)\<rparr>) s;
                flag = sint (pid (tasks s p)); code = exit_code (tasks s p)
            in andThen (release fuel E p s) (\<lambda>_ s. Ret flag (put_fs_long code stat_addr s))
      | Inr flag \<Rightarrow>
          if \<not> flag then Ret (- ECHILD) s
          else if options AND WNOHANG \<noteq> 0 then Ret 0 s
          else andThen (schedule fuel (upd_cur (\<lambda>t. t\<lparr>state := TASK_INTERRUPTIBLE\<rparr>) s)) (\<lambda>_ s.
            let s = upd_cur (\<lambda>t. t\<lparr>signal := signal t AND NOT (sig_bit SIGCHLD)\<rparr>) (E s) in
            if signal (cur s) = 0 then wait_loop m fuel E n stat_addr options s
            else Ret (- EINTR) s))"

definition sys_waitpid ::
  "nat \<Rightarrow> nat \<Rightarrow> ('a proc_state_scheme \<Rightarrow> 'a proc_state_scheme) \<Rightarrow> s32 \<Rightarrow> u32 \<Rightarrow> u32 \<Rightarrow> 'a proc_state_scheme \<Rightarrow>
     ('a proc_state_scheme, int) outcome" where
  "sys_waitpid m fuel E n stat_addr options s =
     andThen (verify_area stat_addr 4 s) (\<lambda>_ s. wait_loop m fuel E n stat_addr options s)"

end
