(* ===== verification/Sys.thy ===== *)
theory Sys
  imports Process
begin

text \<open>
  \<^verbatim>\<open>kernel/sys.c\<close>: user and group identities, times, the break, process groups and sessions, the
  system name and the file creation mask.
\<close>

section \<open>Calls that are not implemented\<close>

text \<open>\<open>sys_ftime\<close>, \<open>sys_break\<close>, \<open>sys_ptrace\<close>, \<open>sys_stty\<close>, \<open>sys_gtty\<close>, \<open>sys_rename\<close>, \<open>sys_prof\<close>; and
  \<open>sys_acct\<close>, \<open>sys_phys\<close>, \<open>sys_lock\<close>, \<open>sys_mpx\<close>, \<open>sys_ulimit\<close>.\<close>

definition sys_rename :: "'a proc_state_scheme \<Rightarrow> int \<times> 'a proc_state_scheme" where
  "sys_rename s = (- ENOSYS, s)"

definition sys_acct :: "'a proc_state_scheme \<Rightarrow> int \<times> 'a proc_state_scheme" where
  "sys_acct s = (- ENOSYS, s)"

section \<open>Identities\<close>

text \<open>An id argument is an int; the stored ids are unsigned shorts, widened to compare.\<close>

definition sys_setregid :: "s32 \<Rightarrow> s32 \<Rightarrow> 'a proc_state_scheme \<Rightarrow> int \<times> 'a proc_state_scheme" where
  "sys_setregid rgid eg s =
     (if 0 <s rgid \<and> \<not> (ucast (gid (cur s)) = rgid \<or> suser s) then (- EPERM, s)
      else let s = (if 0 <s rgid then upd_cur (\<lambda>t. t\<lparr>gid := ucast rgid\<rparr>) s else s) in
        if 0 <s eg then
          if ucast (gid (cur s)) = eg \<or> ucast (egid (cur s)) = eg \<or> ucast (sgid (cur s)) = eg \<or> suser s
          then (0, upd_cur (\<lambda>t. t\<lparr>egid := ucast eg\<rparr>) s)
          else (- EPERM, s)
        else (0, s))"

definition sys_setgid :: "s32 \<Rightarrow> 'a proc_state_scheme \<Rightarrow> int \<times> 'a proc_state_scheme" where
  "sys_setgid g s = sys_setregid g g s"

definition sys_setreuid :: "s32 \<Rightarrow> s32 \<Rightarrow> 'a proc_state_scheme \<Rightarrow> int \<times> 'a proc_state_scheme" where
  "sys_setreuid ruid eu s =
     (let old_ruid = uid (cur s) in
      if 0 <s ruid \<and> \<not> (ucast (euid (cur s)) = ruid \<or> ucast old_ruid = ruid \<or> suser s) then (- EPERM, s)
      else let s = (if 0 <s ruid then upd_cur (\<lambda>t. t\<lparr>uid := ucast ruid\<rparr>) s else s) in
        if 0 <s eu then
          if ucast old_ruid = eu \<or> ucast (euid (cur s)) = eu \<or> suser s
          then (0, upd_cur (\<lambda>t. t\<lparr>euid := ucast eu\<rparr>) s)
          else (- EPERM, upd_cur (\<lambda>t. t\<lparr>uid := old_ruid\<rparr>) s)
        else (0, s))"

definition sys_setuid :: "s32 \<Rightarrow> 'a proc_state_scheme \<Rightarrow> int \<times> 'a proc_state_scheme" where
  "sys_setuid u s = sys_setreuid u u s"

section \<open>Times\<close>

definition sys_time :: "u32 \<Rightarrow> 'a proc_state_scheme \<Rightarrow> ('a proc_state_scheme, int) outcome" where
  "sys_time tloc s =
     (let i = CURRENT_TIME s in
      if tloc \<noteq> 0 then andThen (verify_area tloc 4 s) (\<lambda>_ s. Ret (sint i) (put_fs_long i tloc s))
      else Ret (sint i) s)"

definition sys_stime :: "u32 \<Rightarrow> 'a proc_state_scheme \<Rightarrow> int \<times> 'a proc_state_scheme" where
  "sys_stime tptr s =
     (if \<not> suser s then (- EPERM, s)
      else (0, s\<lparr>startup_time := get_fs_long tptr s - sdiv32 (jiffies s) 100\<rparr>))"

definition sys_times :: "u32 \<Rightarrow> 'a proc_state_scheme \<Rightarrow> ('a proc_state_scheme, int) outcome" where
  "sys_times tbuf s =
     andThen (if tbuf \<noteq> 0 then andThen (verify_area tbuf 16 s) (\<lambda>_ s. Ret ()
                (put_longs [utime (cur s), stime (cur s), cutime (cur s), cstime (cur s)] tbuf s))
              else Ret () s)
       (\<lambda>_ s. Ret (sint (jiffies s)) s)"

section \<open>Break, groups, sessions\<close>

definition sys_brk :: "u32 \<Rightarrow> 'a proc_state_scheme \<Rightarrow> int \<times> 'a proc_state_scheme" where
  "sys_brk end_data_seg s =
     (let s = (if end_code (cur s) \<le> end_data_seg \<and> end_data_seg < start_stack (cur s) - 16384
               then upd_cur (\<lambda>t. t\<lparr>brk := end_data_seg\<rparr>) s else s)
      in (sint (brk (cur s)), s))"

definition sys_setpgid :: "s32 \<Rightarrow> s32 \<Rightarrow> 'a proc_state_scheme \<Rightarrow> int \<times> 'a proc_state_scheme" where
  "sys_setpgid n pgid s =
     (let n = (if n = 0 then pid (cur s) else n); pgid = (if pgid = 0 then pid (cur s) else pgid) in
      case find (\<lambda>i. task s i \<noteq> 0 \<and> pid (tasks s (task s i)) = n) [0..<NR_TASKS] of
        None \<Rightarrow> (- ESRCH, s)
      | Some i \<Rightarrow>
          if leader (tasks s (task s i)) \<noteq> 0 then (- EPERM, s)
          else if session (tasks s (task s i)) \<noteq> session (cur s) then (- EPERM, s)
          else (0, upd_task (task s i) (\<lambda>t. t\<lparr>pgrp := pgid\<rparr>) s))"

definition sys_getpgrp :: "'a proc_state_scheme \<Rightarrow> int" where
  "sys_getpgrp s = sint (pgrp (cur s))"

definition sys_setsid :: "'a proc_state_scheme \<Rightarrow> int \<times> 'a proc_state_scheme" where
  "sys_setsid s =
     (if leader (cur s) \<noteq> 0 \<and> \<not> suser s then (- EPERM, s)
      else let s = upd_cur (\<lambda>t. t\<lparr>leader := 1, session := pid t, pgrp := pid t, tty := -1\<rparr>) s
           in (sint (pgrp (cur s)), s))"

section \<open>Name and mask\<close>

definition char_bytes :: "string \<Rightarrow> u8 list" where
  "char_bytes cs = map (\<lambda>c. of_nat (of_char c)) cs"

text \<open>Each member of \<open>struct utsname\<close> has 9 bytes, the last a NUL.\<close>

definition thisname :: "u8 list" where
  "thisname = char_bytes ''linux .0'' @ [0] @ char_bytes ''nodename'' @ [0] @ char_bytes ''release '' @ [0] @
     char_bytes ''version '' @ [0] @ char_bytes ''machine '' @ [0]"

fun put_bytes :: "u8 list \<Rightarrow> u32 \<Rightarrow> 'a proc_state_scheme \<Rightarrow> 'a proc_state_scheme" where
  "put_bytes [] a s = s"
| "put_bytes (b # bs) a s = put_bytes bs (a + 1) (put_fs_byte b a s)"

definition sys_uname :: "u32 \<Rightarrow> 'a proc_state_scheme \<Rightarrow> ('a proc_state_scheme, int) outcome" where
  "sys_uname name s =
     (if name = 0 then Ret (- 99) s
      else andThen (verify_area name 45 s) (\<lambda>_ s. Ret 0 (put_bytes thisname name s)))"

definition sys_umask :: "s32 \<Rightarrow> 'a proc_state_scheme \<Rightarrow> int \<times> 'a proc_state_scheme" where
  "sys_umask msk s =
     (uint (umask (cur s)), upd_cur (\<lambda>t. t\<lparr>umask := ucast (msk AND 0x1ff)\<rparr>) s)"

end
