(* ===== verification/Process_Properties.thy ===== *)
theory Process_Properties
  imports Sys Sched_Properties Memory_Properties
begin

text \<open>
  Properties of the process code: longs in user memory read back as written, the choice of a new
  process number ends, what \<open>sys_kill\<close> signals, which ids \<open>sys_setreuid\<close> can give, and the stack
  frame that a caught signal leaves.
\<close>

section \<open>User memory\<close>

lemma umem_byte: "bit (ucast (drop_bit n (v::u32)) :: u8) k \<longleftrightarrow> k < 8 \<and> bit v (n + k)"
  by (simp add: bit_simps)

lemma get_put_fs_long [simp]: "get_fs_long a (put_fs_long v a s) = v"
proof (rule bit_word_eqI)
  fix n assume "n < LENGTH(32)"
  then consider "n < 8" | "8 \<le> n" "n < 16" | "16 \<le> n" "n < 24" | "24 \<le> n" "n < 32" by fastforce
  then show "bit (get_fs_long a (put_fs_long v a s)) n = bit v n"
    by cases (simp_all add: get_fs_long_def put_fs_long_def bit_simps less_diff_conv2)
qed

definition long_byte :: "u32 \<Rightarrow> nat \<Rightarrow> u8" where
  "long_byte v r = ucast (drop_bit (8 * r) v)"

lemma put_fs_long_umem:
  "umem (put_fs_long v a s) x = (if unat (x - a) < 4 then long_byte v (unat (x - a)) else umem s x)"
proof -
  consider "x = a" | "x = a + 1" | "x = a + 2" | "x = a + 3" | "4 \<le> unat (x - a)"
  proof -
    have "unat (x - a) = 0 \<or> unat (x - a) = 1 \<or> unat (x - a) = 2 \<or> unat (x - a) = 3 \<or> 4 \<le> unat (x - a)" by arith
    moreover have "x = a + of_nat k" if "unat (x - a) = k" for k
      unfolding that [symmetric] by simp
    ultimately show thesis
      using that by (elim disjE) fastforce+
  qed
  then show ?thesis
  proof cases
    case 5
    then have "x \<noteq> a" "x \<noteq> a + 1" "x \<noteq> a + 2" "x \<noteq> a + 3" by auto
    then show ?thesis using 5 by (simp add: put_fs_long_def)
  qed (auto simp: put_fs_long_def long_byte_def)
qed

lemma put_longs_umem:
  "4 * length vs < 4294967296 \<Longrightarrow>
   umem (put_longs vs a s) x =
     (if unat (x - a) < 4 * length vs then long_byte (vs ! (unat (x - a) div 4)) (unat (x - a) mod 4) else umem s x)"
proof (induction vs arbitrary: a s)
  case (Cons v vs)
  let ?d = "unat (x - a)"
  have "x - (a + 4) = (x - a) - 4" by simp
  then have d: "unat (x - (a + 4)) = (if 4 \<le> ?d then ?d - 4 else ?d + 4294967292)"
    by (simp only: unat_sub_if') simp
  show ?case
  proof (cases "4 \<le> ?d")
    case True
    then have "?d div 4 = Suc ((?d - 4) div 4)" "?d mod 4 = (?d - 4) mod 4"
      by (simp_all add: le_div_geq le_mod_geq)
    then show ?thesis using Cons True d by (auto simp: put_fs_long_umem)
  next
    case False
    then show ?thesis using Cons d by (simp add: put_fs_long_umem)
  qed
qed simp

lemma get_put_longs:
  assumes "length vs < 1073741824" "j < length vs"
  shows "get_fs_long (a + 4 * of_nat j) (put_longs vs a s) = vs ! j"
proof -
  have b: "umem (put_longs vs a s) (a + 4 * of_nat j + of_nat r) = long_byte (vs ! j) r" if "r < 4" for r
  proof -
    have "a + 4 * of_nat j + of_nat r - a = (of_nat (4 * j + r) :: u32)" by simp
    moreover have "unat (of_nat (4 * j + r) :: u32) = 4 * j + r"
      using assms that by (intro unat_of_nat_u32) simp
    ultimately have "unat (a + 4 * of_nat j + of_nat r - a) = 4 * j + r" by metis
    then show ?thesis using assms that by (simp add: put_longs_umem)
  qed
  have "umem (put_longs vs a s) (a + 4 * of_nat j) = long_byte (vs ! j) 0"
    "umem (put_longs vs a s) (a + 4 * of_nat j + 1) = long_byte (vs ! j) 1"
    "umem (put_longs vs a s) (a + 4 * of_nat j + 2) = long_byte (vs ! j) 2"
    "umem (put_longs vs a s) (a + 4 * of_nat j + 3) = long_byte (vs ! j) 3"
    using b [of 0] b [of 1] b [of 2] b [of 3] by simp_all
  then have "get_fs_long (a + 4 * of_nat j) (put_longs vs a s) = get_fs_long 0 (put_fs_long (vs ! j) 0 s)"
    by (simp add: get_fs_long_def put_fs_long_def long_byte_def)
  then show ?thesis by simp
qed

section \<open>Sending signals\<close>

definition sig_fails :: "int \<Rightarrow> bool \<Rightarrow> 'a proc_state_scheme \<Rightarrow> u32 \<Rightarrow> bool" where
  "sig_fails sig priv s p \<longleftrightarrow> p = 0 \<or> sig < 1 \<or> 32 < sig \<or>
     \<not> (priv \<or> euid (cur s) = euid (tasks s p) \<or> suser s)"

definition with_signal :: "int \<Rightarrow> task_struct \<Rightarrow> task_struct" where
  "with_signal sig t = t\<lparr>signal := signal t OR sig_bit sig\<rparr>"

lemma with_signal_simps [simp]:
  "with_signal sig (with_signal sig t) = with_signal sig t"
  "euid (with_signal sig t) = euid t" "pid (with_signal sig t) = pid t" "pgrp (with_signal sig t) = pgrp t"
  by (simp_all add: with_signal_def or.assoc)

lemma send_sig_eq:
  "send_sig sig p priv s =
     (if sig_fails sig priv s p then (if p = 0 \<or> sig < 1 \<or> 32 < sig then - EINVAL else - EPERM, s)
      else (0, upd_task p (with_signal sig) s))"
  by (auto simp: send_sig_def sig_fails_def with_signal_def [abs_def])

lemma sig_fails_upd [simp]:
  "sig_fails sig priv (upd_task q (with_signal sig') s) p = sig_fails sig priv s p"
  by (auto simp: sig_fails_def suser_def)

text \<open>The choice of a loop of \<open>sys_kill\<close> does not depend on pending signals.\<close>

definition stable_sel :: "(u32 \<Rightarrow> 'a proc_state_scheme \<Rightarrow> bool) \<Rightarrow> bool" where
  "stable_sel sel \<longleftrightarrow> (\<forall>p q sig s. sel p (upd_task q (with_signal sig) s) = sel p s)"

lemma kill_fold:
  assumes sel: "stable_sel sel"
  shows "fold (kill_step sel sig priv) is (r, s) = (r', s') \<Longrightarrow>
    (\<forall>p. tasks s' p = (if \<exists>i\<in>set is. task s i = p \<and> sel p s \<and> \<not> sig_fails sig priv s p
                       then with_signal sig (tasks s p) else tasks s p)) \<and>
    task s' = task s \<and> current s' = current s \<and>
    (r' = 0 \<longleftrightarrow> r = 0 \<and> (\<forall>i\<in>set is. sel (task s i) s \<longrightarrow> \<not> sig_fails sig priv s (task s i))) \<and>
    (r' = r \<or> r' = - EINVAL \<or> r' = - EPERM)"
proof (induction "is" arbitrary: r s)
  case (Cons i "is")
  show ?case
  proof (cases "sel (task s i) s")
    case False
    then have "kill_step sel sig priv i (r, s) = (r, s)" by (simp add: kill_step_def)
    then have "fold (kill_step sel sig priv) is (r, s) = (r', s')" using Cons.prems by simp
    from Cons.IH [OF this] False show ?thesis by auto
  next
    case s: True
    show ?thesis
    proof (cases "sig_fails sig priv s (task s i)")
      case True
      let ?e = "if task s i = 0 \<or> sig < 1 \<or> 32 < sig then - EINVAL else - EPERM"
      have "kill_step sel sig priv i (r, s) = (?e, s)"
        using s True by (simp add: kill_step_def send_sig_eq)
      then have "fold (kill_step sel sig priv) is (?e, s) = (r', s')" using Cons.prems by simp
      from Cons.IH [OF this] True s show ?thesis by auto
    next
      case False
      let ?s = "upd_task (task s i) (with_signal sig) s"
      have "kill_step sel sig priv i (r, s) = (r, ?s)"
        using s False by (simp add: kill_step_def send_sig_eq)
      then have "fold (kill_step sel sig priv) is (r, ?s) = (r', s')" using Cons.prems by simp
      from Cons.IH [OF this] False s sel show ?thesis by (auto simp: stable_sel_def)
    qed
  qed
qed auto

lemma kill_fold_tasks: "fold (kill_step sel sig priv) is (r, s) = (r', s') \<Longrightarrow> s' = s\<lparr>tasks := tasks s'\<rparr>"
proof (induction "is" arbitrary: r s)
  case (Cons i "is")
  obtain q t where k: "kill_step sel sig priv i (r, s) = (q, t)" by fastforce
  have "t = s \<or> t = upd_task (task s i) (with_signal sig) s"
    using k by (auto simp: kill_step_def send_sig_eq split: if_splits)
  then have "t\<lparr>tasks := T\<rparr> = s\<lparr>tasks := T\<rparr>" for T by (auto simp: upd_task_def)
  then show ?case using Cons.IH [of q t] Cons.prems k by simp
qed simp

text \<open>A number that is no signal, 0 among them.\<close>

lemma kill_fold_no_signal:
  assumes "sig < 1 \<or> 32 < sig"
  shows "fold (kill_step sel sig priv) is (r, s) = (if \<exists>i\<in>set is. sel (task s i) s then - EINVAL else r, s)"
  using assms by (induction "is" arbitrary: r) (auto simp: kill_step_def send_sig_eq sig_fails_def)

definition kill_sel :: "s32 \<Rightarrow> u32 \<Rightarrow> 'a proc_state_scheme \<Rightarrow> bool" where
  "kill_sel n p s \<longleftrightarrow>
     (if n = 0 then p \<noteq> 0 \<and> pgrp (tasks s p) = pid (cur s)
      else if 0 <s n then p \<noteq> 0 \<and> pid (tasks s p) = n
      else if n = -1 then True
      else p \<noteq> 0 \<and> pgrp (tasks s p) = - n)"

lemma stable_kill_sel: "stable_sel (kill_sel n)"
  by (auto simp: stable_sel_def kill_sel_def)

lemma sys_kill_loop: "sys_kill n sig s = kill_loop (kill_sel n) sig (n = 0) s"
  unfolding sys_kill_def by (auto simp: kill_sel_def [abs_def])

section \<open>Process numbers\<close>

lemma sint_bump_pid: "0 \<le> sint n \<Longrightarrow> sint (bump_pid n) = sint n mod 2147483647 + 1"
proof -
  assume n: "0 \<le> sint n"
  have lt: "sint n < 2147483648" using sint_lt [of n] by simp
  show ?thesis
  proof (cases "sint n = 2147483647")
    case True
    then have "sint n = sint (2147483647 :: s32)" by simp
    then have "n = 2147483647" by (rule signed_word_eqI)
    then show ?thesis by (simp add: bump_pid_def sless_sint)
  next
    case False
    then have "sint (n + 1) = sint n + 1" using n lt by (simp add: sint_add32)
    then show ?thesis using False n lt by (simp add: bump_pid_def sless_sint)
  qed
qed

lemma sint_bump_pid_iter:
  "0 \<le> sint n \<Longrightarrow> sint ((bump_pid ^^ Suc k) n) = (sint n + int k) mod 2147483647 + 1"
proof (induction k)
  case (Suc k)
  have "sint ((bump_pid ^^ Suc (Suc k)) n) = ((sint n + int k) mod 2147483647 + 1) mod 2147483647 + 1"
    using Suc sint_bump_pid [of "(bump_pid ^^ Suc k) n"] by simp
  also have "((sint n + int k) mod 2147483647 + 1) mod 2147483647 = (sint n + int (Suc k)) mod 2147483647"
    by (simp add: mod_simps ac_simps)
  finally show ?case .
qed (simp add: sint_bump_pid)

lemma bump_pid_inj:
  assumes "0 \<le> sint n" "j < 65" "k < 65" "(bump_pid ^^ Suc j) n = (bump_pid ^^ Suc k) n"
  shows "j = k"
proof -
  have "(sint n + int j) mod 2147483647 = (sint n + int k) mod 2147483647"
    using sint_bump_pid_iter [OF assms(1), of j] sint_bump_pid_iter [OF assms(1), of k] assms(4) by simp
  then have "2147483647 dvd (int j - int k)" by (simp add: mod_eq_dvd_iff)
  then show ?thesis using assms(2,3) zdvd_not_zless [of "\<bar>int j - int k\<bar>" 2147483647] by (cases "j = k") auto
qed

lemma next_pid_search:
  assumes "\<exists>k<fuel. \<not> pid_in_use ((bump_pid ^^ Suc k) (last_pid s)) s"
  shows "\<exists>k<fuel. next_pid fuel s = Ret () (s\<lparr>last_pid := (bump_pid ^^ Suc k) (last_pid s)\<rparr>) \<and>
     \<not> pid_in_use ((bump_pid ^^ Suc k) (last_pid s)) s"
  using assms
proof (induction fuel arbitrary: s)
  case (Suc fuel)
  have u: "pid_in_use x (s\<lparr>last_pid := v\<rparr>) = pid_in_use x s" for x v by (simp add: pid_in_use_def)
  let ?s = "s\<lparr>last_pid := bump_pid (last_pid s)\<rparr>"
  show ?case
  proof (cases "pid_in_use (bump_pid (last_pid s)) s")
    case False
    then show ?thesis by (intro exI [of _ 0]) (simp add: u Let_def)
  next
    case True
    from Suc.prems obtain k where k: "k < Suc fuel" "\<not> pid_in_use ((bump_pid ^^ Suc k) (last_pid s)) s" by blast
    then obtain j where j: "k = Suc j" using True by (cases k) auto
    have "(bump_pid ^^ Suc j) (last_pid ?s) = (bump_pid ^^ Suc k) (last_pid s)" if "k = Suc j" for j k
      using that by (simp add: funpow_swap1)
    then have "\<exists>k<fuel. \<not> pid_in_use ((bump_pid ^^ Suc k) (last_pid ?s)) ?s"
      using k j unfolding u by (intro exI [of _ j]) auto
    from Suc.IH [OF this] obtain m where m: "m < fuel"
      "next_pid fuel ?s = Ret () (?s\<lparr>last_pid := (bump_pid ^^ Suc m) (last_pid ?s)\<rparr>)"
      "\<not> pid_in_use ((bump_pid ^^ Suc m) (last_pid ?s)) ?s" by blast
    moreover have "(bump_pid ^^ Suc m) (last_pid ?s) = (bump_pid ^^ Suc (Suc m)) (last_pid s)"
      by (simp add: funpow_swap1)
    moreover have "next_pid (Suc fuel) s = next_pid fuel ?s" using True by (simp add: u Let_def)
    ultimately show ?thesis unfolding u by (intro exI [of _ "Suc m"]) simp
  qed
qed simp

lemma unused_pid_exists:
  assumes "0 \<le> sint (last_pid s)"
  shows "\<exists>k<65. \<not> pid_in_use ((bump_pid ^^ Suc k) (last_pid s)) s"
proof (rule ccontr)
  assume "\<not> ?thesis"
  then have "(\<lambda>k. (bump_pid ^^ Suc k) (last_pid s)) ` {..<65} \<subseteq> (\<lambda>i. pid (tasks s (task s i))) ` {..<64}"
    by (force simp: pid_in_use_def NR_TASKS_def image_iff simp del: funpow.simps)
  then have "card ((\<lambda>k. (bump_pid ^^ Suc k) (last_pid s)) ` {..<65}) \<le> card ((\<lambda>i. pid (tasks s (task s i))) ` {..<64::nat})"
    by (intro card_mono) auto
  also have "\<dots> \<le> 64" using card_image_le [of "{..<64::nat}" "\<lambda>i. pid (tasks s (task s i))"] by simp
  finally have "card ((\<lambda>k. (bump_pid ^^ Suc k) (last_pid s)) ` {..<65}) \<le> 64" .
  moreover have "inj_on (\<lambda>k. (bump_pid ^^ Suc k) (last_pid s)) {..<65}"
    using bump_pid_inj [OF assms] by (auto simp: inj_on_def simp del: funpow.simps)
  ultimately show False by (simp add: card_image)
qed

section \<open>Properties\<close>

text \<open>The two tasks of \<open>two_tasks\<close>, with an empty user memory.\<close>

definition two_procs :: proc_state where
  "two_procs = sched_state.extend two_tasks (proc_state.fields (\<lambda>_. 0) 1)"

lemma two_procs_simps [simp]:
  "task two_procs = task two_tasks" "current two_procs = 0x2000" "tasks two_procs = tasks two_tasks"
  "umem two_procs a = 0" "last_pid two_procs = 1"
  by (simp_all add: two_procs_def two_tasks_def sched_state.defs proc_state.defs)

text \<open>C10: with at least 65 tries, \<open>find_empty_process\<close> returns; the new process number is positive
  and used by no task, and the result is the first free slot above 0, or -EAGAIN when all are taken.\<close>

theorem find_empty_process_correct:
  assumes "0 \<le> sint (last_pid s)" and "65 \<le> fuel"
  shows "returns (find_empty_process fuel s) (\<lambda>r s'.
     (\<exists>n. s' = s\<lparr>last_pid := n\<rparr> \<and> 0 < sint n \<and> \<not> pid_in_use n s) \<and>
     (r = - EAGAIN \<and> (\<forall>i. 1 \<le> i \<and> i < NR_TASKS \<longrightarrow> task s i \<noteq> 0) \<or>
      (\<exists>i. r = int i \<and> 1 \<le> i \<and> i < NR_TASKS \<and> task s i = 0 \<and> (\<forall>j. 1 \<le> j \<and> j < i \<longrightarrow> task s j \<noteq> 0))))"
proof -
  from unused_pid_exists [OF assms(1)] assms(2)
  have "\<exists>k<fuel. \<not> pid_in_use ((bump_pid ^^ Suc k) (last_pid s)) s" by (meson order_less_le_trans)
  from next_pid_search [OF this] obtain k where
    n: "next_pid fuel s = Ret () (s\<lparr>last_pid := (bump_pid ^^ Suc k) (last_pid s)\<rparr>)"
    and u: "\<not> pid_in_use ((bump_pid ^^ Suc k) (last_pid s)) s" by blast
  define v where "v = (bump_pid ^^ Suc k) (last_pid s)"
  have v: "0 < sint v" unfolding v_def sint_bump_pid_iter [OF assms(1)] by (simp add: add_nonneg_pos)
  let ?f = "find (\<lambda>i. task s i = 0) [1..<NR_TASKS]"
  have eq: "find_empty_process fuel s =
      Ret (case ?f of Some i \<Rightarrow> int i | None \<Rightarrow> - EAGAIN) (s\<lparr>last_pid := v\<rparr>)"
    by (simp add: find_empty_process_def n v_def del: funpow.simps)
  have f: "?f = None \<and> (\<forall>i. 1 \<le> i \<and> i < NR_TASKS \<longrightarrow> task s i \<noteq> 0) \<or>
     (\<exists>i. ?f = Some i \<and> 1 \<le> i \<and> i < NR_TASKS \<and> task s i = 0 \<and> (\<forall>j. 1 \<le> j \<and> j < i \<longrightarrow> task s j \<noteq> 0))"
  proof (cases ?f)
    case None
    then show ?thesis by (auto simp: find_None_iff)
  next
    case (Some i)
    then obtain m where "m < length [1..<NR_TASKS]" "task s ([1..<NR_TASKS] ! m) = 0" "i = [1..<NR_TASKS] ! m"
      "\<forall>j<m. task s ([1..<NR_TASKS] ! j) \<noteq> 0" by (auto simp: find_Some_iff)
    then have m: "i = Suc m" "m < NR_TASKS - 1" "task s i = 0" "\<forall>j<m. task s (Suc j) \<noteq> 0" by auto
    have "task s j \<noteq> 0" if "1 \<le> j" "j < i" for j using m(4) that m(1) by (cases j) auto
    then show ?thesis using Some m by auto
  qed
  show ?thesis unfolding eq returns_simps(1) using f v u [folded v_def] by fastforce
qed

theorem find_empty_process_correct_witness:
  "returns (find_empty_process 65 two_procs) (\<lambda>r s'.
     (\<exists>n. s' = two_procs\<lparr>last_pid := n\<rparr> \<and> 0 < sint n \<and> \<not> pid_in_use n two_procs) \<and>
     (r = - EAGAIN \<and> (\<forall>i. 1 \<le> i \<and> i < NR_TASKS \<longrightarrow> task two_procs i \<noteq> 0) \<or>
      (\<exists>i. r = int i \<and> 1 \<le> i \<and> i < NR_TASKS \<and> task two_procs i = 0 \<and> (\<forall>j. 1 \<le> j \<and> j < i \<longrightarrow> task two_procs j \<noteq> 0))))"
  by (rule find_empty_process_correct) simp_all

text \<open>C11: \<open>sys_kill\<close> sets the bit of the signal in exactly the tasks that its argument selects and
  that the caller may signal, and nothing else of the state changes; it returns 0 exactly when no selected slot
  fails, and -EINVAL or -EPERM otherwise. The argument selects in slots 1 to 63: for a positive number the process of that number; for a number
  below -1 the group of its negation; for 0 the processes whose group is the caller's process number (the comment
  above \<open>sys_kill\<close> says the caller's group, which is another set unless the caller leads its group); for -1 every slot, the
  empty ones too, so that one empty slot makes
  the call return an error. For a number that is no signal nothing changes and the result is -EINVAL as soon as a slot is selected: signal 0
  does not test for errors and return 0, as the comment says it does.\<close>

theorem sys_kill_correct:
  assumes "sys_kill n sig s = (r, s')"
  shows "s' = s\<lparr>tasks := \<lambda>p. if (\<exists>i. 1 \<le> i \<and> i < NR_TASKS \<and> task s i = p) \<and> kill_sel n p s \<and> \<not> sig_fails sig (n = 0) s p
                          then (tasks s p)\<lparr>signal := signal (tasks s p) OR sig_bit sig\<rparr> else tasks s p\<rparr> \<and>
    (r = 0 \<longleftrightarrow> (\<forall>i. 1 \<le> i \<and> i < NR_TASKS \<and> kill_sel n (task s i) s \<longrightarrow> \<not> sig_fails sig (n = 0) s (task s i))) \<and>
    (r = 0 \<or> r = - EINVAL \<or> r = - EPERM) \<and>
    (n = -1 \<and> (\<exists>i. 1 \<le> i \<and> i < NR_TASKS \<and> task s i = 0) \<longrightarrow> r \<noteq> 0) \<and>
    (sig < 1 \<or> 32 < sig \<longrightarrow> s' = s \<and> r = (if \<exists>i. 1 \<le> i \<and> i < NR_TASKS \<and> kill_sel n (task s i) s then - EINVAL else 0))"
proof -
  from assms have f: "fold (kill_step (kill_sel n) sig (n = 0)) (rev [1..<NR_TASKS]) (0, s) = (r, s')"
    by (simp add: sys_kill_loop kill_loop_def)
  note k = kill_fold [OF stable_kill_sel f, simplified]
  have all: "s' = s\<lparr>tasks := tasks s'\<rparr>" using f by (rule kill_fold_tasks)
  have "tasks s' = (\<lambda>p. if (\<exists>i. 1 \<le> i \<and> i < NR_TASKS \<and> task s i = p) \<and> kill_sel n p s \<and> \<not> sig_fails sig (n = 0) s p
      then (tasks s p)\<lparr>signal := signal (tasks s p) OR sig_bit sig\<rparr> else tasks s p)"
    using k unfolding with_signal_def by (auto simp: Suc_le_eq Bex_def)
  note tasks = all [unfolded this]
  have "\<exists>i. (1 \<le> i \<and> i < NR_TASKS \<and> kill_sel n (task s i) s) \<and> sig_fails sig (n = 0) s (task s i)"
    if "n = -1" "1 \<le> i" "i < NR_TASKS" "task s i = 0" for i
    using that by (intro exI [of _ i]) (auto simp: kill_sel_def sig_fails_def)
  moreover have "s' = s \<and> r = (if \<exists>i. 1 \<le> i \<and> i < NR_TASKS \<and> kill_sel n (task s i) s then - EINVAL else 0)" if "sig < 1 \<or> 32 < sig"
    using f unfolding kill_fold_no_signal [OF that] by (auto simp: Bex_def split: if_splits)
  ultimately show ?thesis using k by (intro conjI [OF tasks]) (auto simp: Suc_le_eq Ball_def)
qed

theorem sys_kill_correct_witness:
  "\<exists>r s'. sys_kill (-1) 9 two_procs = (r, s') \<and> r \<noteq> 0 \<and>
     signal (tasks s' 0x2000) = signal (tasks two_procs 0x2000) OR sig_bit 9 \<and> tasks s' 0x1000 = tasks two_procs 0x1000"
proof -
  obtain r s' where k: "sys_kill (-1) 9 two_procs = (r, s')" by fastforce
  note all = sys_kill_correct [OF k]
  have e: "1 \<le> (2::nat) \<and> 2 < NR_TASKS \<and> task two_procs 2 = 0" by (simp add: NR_TASKS_def)
  then have "r \<noteq> 0" using all by blast
  moreover have "\<exists>i. 1 \<le> i \<and> i < NR_TASKS \<and> task two_procs i = 0x2000"
    by (rule exI [of _ 1]) (simp add: NR_TASKS_def)
  then have "tasks s' 0x2000 = (tasks two_procs 0x2000)\<lparr>signal := signal (tasks two_procs 0x2000) OR sig_bit 9\<rparr>"
    using all by (simp add: kill_sel_def sig_fails_def)
  moreover have "task two_procs i \<noteq> 0x1000" if "1 \<le> i" for i
    using that by (cases "i = 1") simp_all
  then have "tasks s' 0x1000 = tasks two_procs 0x1000" using all by (simp; blast)
  ultimately show ?thesis using k by simp
qed

definition with_ids :: "u16 \<Rightarrow> u16 \<Rightarrow> 'a proc_state_scheme \<Rightarrow> 'a proc_state_scheme" where
  "with_ids u e s = s\<lparr>tasks := (tasks s)(current s := (cur s)\<lparr>uid := u, euid := e\<rparr>)\<rparr>"

lemma with_ids_same: "with_ids (uid (cur s)) (euid (cur s)) s = s"
proof -
  have "(cur s)\<lparr>uid := uid (cur s), euid := euid (cur s)\<rparr> = cur s" by simp
  then show ?thesis by (simp only: with_ids_def fun_upd_triv) simp
qed

lemma sys_setreuid_eq:
  "sys_setreuid ruid eu s =
     (let u = uid (cur s); e = euid (cur s);
          mayr = (\<lambda>x. ucast e = x \<or> ucast u = x \<or> e = 0); may = (\<lambda>x. ucast u = x \<or> ucast e = x \<or> e = 0);
          u' = (if 0 <s ruid then ucast ruid else u); e' = (if 0 <s eu then ucast eu else e) in
      if (0 <s ruid \<longrightarrow> mayr ruid) \<and> (0 <s eu \<longrightarrow> may eu) then (0, with_ids u' e' s)
      else (- EPERM, with_ids u e s))"
proof -
  have 1: "upd_cur (\<lambda>t. t\<lparr>uid := x\<rparr>) s = with_ids x (euid (cur s)) s"
    "upd_cur (\<lambda>t. t\<lparr>euid := x\<rparr>) s = with_ids (uid (cur s)) x s" for x and s :: "'a proc_state_scheme"
    by (simp_all add: upd_task_def with_ids_def)
  have 2: "tasks (with_ids u e s) (current s) = (cur s)\<lparr>uid := u, euid := e\<rparr>" "with_ids u' e' (with_ids u e s) = with_ids u' e' s"
    "current (with_ids u e s) = current s" for u e u' e' and s :: "'a proc_state_scheme"
    by (simp_all add: with_ids_def)
  show ?thesis
    unfolding sys_setreuid_def Let_def suser_def 1
    by (cases "0 <s ruid"; cases "0 <s eu") (simp_all add: 1 2 with_ids_same del: upd_task_simps)
qed

text \<open>C12: \<open>sys_setreuid\<close> gives an unprivileged caller no id that it did not hold as its real or
  effective user id, changes only those two ids, and changes nothing when it fails; in particular
  \<open>sys_setreuid\<close> with id 0 is accepted and changes nothing.\<close>

theorem sys_setreuid_safe:
  assumes "sys_setreuid ruid eu s = (r, s')"
  shows "(r = - EPERM \<and> s' = s \<or> r = 0) \<and>
    (\<exists>u e. s' = s\<lparr>tasks := (tasks s)(current s := (cur s)\<lparr>uid := u, euid := e\<rparr>)\<rparr> \<and>
       (euid (cur s) \<noteq> 0 \<longrightarrow> u \<in> {uid (cur s), euid (cur s)} \<and> e \<in> {uid (cur s), euid (cur s)})) \<and>
    (r = 0 \<and> 0 <s ruid \<longrightarrow> uid (cur s') = ucast ruid) \<and> (r = 0 \<and> 0 <s eu \<longrightarrow> euid (cur s') = ucast eu) \<and>
    (ruid = 0 \<and> eu = 0 \<longrightarrow> r = 0 \<and> s' = s)"
proof -
  have uu: "ucast (ucast (x::u16) :: s32) = x" for x by (rule bit_word_eqI) (simp add: bit_simps)
  let ?u = "if 0 <s ruid then ucast ruid else uid (cur s)" and ?e = "if 0 <s eu then ucast eu else euid (cur s)"
  let ?mayr = "\<lambda>x. ucast (euid (cur s)) = x \<or> ucast (uid (cur s)) = x \<or> euid (cur s) = 0"
  let ?may = "\<lambda>x. ucast (uid (cur s)) = x \<or> ucast (euid (cur s)) = x \<or> euid (cur s) = 0"
  show ?thesis
  proof (cases "(0 <s ruid \<longrightarrow> ?mayr ruid) \<and> (0 <s eu \<longrightarrow> ?may eu)")
    case True
    then have r: "r = 0" "s' = with_ids ?u ?e s" using assms by (simp_all add: sys_setreuid_eq Let_def)
    have "euid (cur s) \<noteq> 0 \<longrightarrow> ?u \<in> {uid (cur s), euid (cur s)} \<and> ?e \<in> {uid (cur s), euid (cur s)}"
      using True by (auto simp: uu)
    moreover have "cur s' = (cur s)\<lparr>uid := ?u, euid := ?e\<rparr>" unfolding r(2) by (simp add: with_ids_def)
    then have "0 <s ruid \<longrightarrow> uid (cur s') = ucast ruid" "0 <s eu \<longrightarrow> euid (cur s') = ucast eu" by simp_all
    moreover have "ruid = 0 \<and> eu = 0 \<longrightarrow> s' = s" using r(2) with_ids_same [of s] by simp
    ultimately show ?thesis unfolding with_ids_def [symmetric] using r by blast
  next
    case False
    then have r: "r = - EPERM" "s' = s" using assms by (auto simp: sys_setreuid_eq Let_def with_ids_same)
    have "\<not> (ruid = 0 \<and> eu = 0)" using False by auto
    moreover have "s = with_ids (uid (cur s)) (euid (cur s)) s" by (simp add: with_ids_same)
    ultimately show ?thesis unfolding with_ids_def [symmetric] using r by auto
  qed
qed

theorem sys_setreuid_safe_witness:
  "\<exists>r s'. sys_setreuid 5 0 two_procs = (r, s') \<and> (r = - EPERM \<and> s' = two_procs \<or> r = 0) \<and>
     (r = 0 \<longrightarrow> uid (cur s') = 5) \<and>
     (\<exists>u e. s' = two_procs\<lparr>tasks := (tasks two_procs)(current two_procs := (cur two_procs)\<lparr>uid := u, euid := e\<rparr>)\<rparr>)"
proof -
  obtain r s' where k: "sys_setreuid 5 0 two_procs = (r, s')" by fastforce
  have "0 <s (5::s32)" by (simp add: word_sless_alt)
  then show ?thesis using sys_setreuid_safe [OF k] k by (simp; blast)
qed

section \<open>Checking user areas changes page tables and frames only\<close>

definition mm_only :: "'a mm_state_scheme \<Rightarrow> 'a mm_state_scheme \<Rightarrow> bool" where
  "mm_only s s' \<longleftrightarrow> (\<exists>mm pm. s' = s\<lparr>mem_map := mm, pmem := pm\<rparr>)"

lemma mm_only_upd [simp]: "mm_only s (s\<lparr>mem_map := mm\<rparr>)" "mm_only s (s\<lparr>pmem := pm\<rparr>)"
  "mm_only s (s\<lparr>mem_map := mm, pmem := pm\<rparr>)" "mm_only s s"
proof -
  have "s\<lparr>mem_map := mm\<rparr> = s\<lparr>mem_map := mm, pmem := pmem s\<rparr>" "s\<lparr>pmem := pm\<rparr> = s\<lparr>mem_map := mem_map s, pmem := pm\<rparr>"
    "s = s\<lparr>mem_map := mem_map s, pmem := pmem s\<rparr>" by simp_all
  then show "mm_only s (s\<lparr>mem_map := mm\<rparr>)" "mm_only s (s\<lparr>pmem := pm\<rparr>)"
    "mm_only s (s\<lparr>mem_map := mm, pmem := pm\<rparr>)" "mm_only s s"
    unfolding mm_only_def by blast+
qed

lemma mm_only_trans: "mm_only s t \<Longrightarrow> mm_only t u \<Longrightarrow> mm_only s u"
  by (auto simp: mm_only_def) blast

lemma mm_only_fields:
  fixes s s' :: "'a proc_state_scheme"
  assumes "mm_only s s'"
  shows "tasks s' = tasks s" "current s' = current s" "umem s' = umem s" "task s' = task s"
  using assms by (auto simp: mm_only_def)

lemma write_verify_mm_only: "lets (write_verify a s) (\<lambda>_ s'. mm_only s s')"
proof -
  have u: "lets (un_wp_page p s) (\<lambda>_ s'. mm_only s s')" for p
  proof (cases rule: get_free_page_cases [of s])
    case none
    then show ?thesis by (simp add: un_wp_page_def Let_def oom_def)
  next
    case (page i)
    then show ?thesis
      by (auto simp: un_wp_page_def Let_def oom_def)
  qed
  show ?thesis using u by (simp add: write_verify_def Let_def)
qed

lemma verify_loop_mm_only: "lets (verify_loop sz start s) (\<lambda>_ s'. mm_only s s')"
proof (induction sz start s rule: verify_loop.induct)
  case (1 sz start s)
  show ?case
  proof (cases "0 < sz")
    case True
    have "lets (verify_loop (sz - 4096) (start + 4096) s1) (\<lambda>_ s'. mm_only s s')"
      if "write_verify start s = Ret () s1" for s1
    proof (rule lets_mono [OF 1 [OF True]])
      show "mm_only s s'" if "mm_only s1 s'" for s'
        using write_verify_mm_only [of start s] \<open>write_verify start s = Ret () s1\<close> that by (auto intro: mm_only_trans)
    qed
    then show ?thesis using True by (subst verify_loop.simps) (auto intro: letsI simp: andThen_Ret_iff)
  qed (subst verify_loop.simps, simp)
qed

lemma verify_area_mm_only: "lets (verify_area a n s) (\<lambda>_ s'. mm_only s s')"
  unfolding verify_area_def by (rule verify_loop_mm_only)

text \<open>C13: when a signal is caught, the handler is entered with the stack pointer lowered by 7 or 8
  longs, and those hold, from the top of the stack, the restorer, the signal number, the old mask
  (unless SA_NOMASK), and the registers and the address that the restorer needs to resume the
  program; no other byte of user memory changes, the mask of the action is added to the blocked
  signals, and a one-shot action is reset.\<close>

theorem do_signal_frame:
  assumes "sa = sigaction (cur s) (nat (signr - 1))" and "sa_handler sa \<noteq> 0" and "sa_handler sa \<noteq> 1"
    and "frame = [sa_restorer sa, word_of_int signr] @
           (if sa_flags sa AND SA_NOMASK \<noteq> 0 then [] else [blocked (cur s)]) @ [eax, ecx, edx, eflags, eip]"
  shows "lets (do_signal signr eax ecx edx eip eflags esp s) (\<lambda>regs s'.
     regs = (sa_handler sa, esp - 4 * of_nat (length frame)) \<and>
     (\<forall>j<length frame. get_fs_long (snd regs + 4 * of_nat j) s' = frame ! j) \<and>
     (\<forall>x. 4 * length frame \<le> unat (x - snd regs) \<longrightarrow> umem s' x = umem s x) \<and>
     blocked (cur s') = blocked (cur s) OR sa_mask sa \<and>
     (sa_flags sa AND SA_ONESHOT \<noteq> 0 \<longrightarrow> sa_handler (sigaction (cur s') (nat (signr - 1))) = 0))"
proof -
  let ?nm = "sa_flags sa AND SA_NOMASK \<noteq> 0"
  let ?l = "if ?nm then 7 else 8 :: u32"
  let ?esp = "esp - 4 * ?l"
  define s1 where "s1 = (if sa_flags sa AND SA_ONESHOT \<noteq> 0
                 then upd_cur (set_action signr (\<lambda>a. a\<lparr>sa_handler := 0\<rparr>)) s else s)"
  have l: "?l = of_nat (length frame)" by (simp add: assms(4))
  have len: "length frame < 1073741824" by (simp add: assms(4))
  have s1: "current s1 = current s" "umem s1 = umem s" "blocked (cur s1) = blocked (cur s)"
    "sa_flags sa AND SA_ONESHOT \<noteq> 0 \<longrightarrow> sa_handler (sigaction (cur s1) (nat (signr - 1))) = 0"
    by (auto simp: s1_def set_action_def upd_task_def)
  have eq: "do_signal signr eax ecx edx eip eflags esp s =
     andThen (verify_area ?esp (uint (4 * ?l)) s1) (\<lambda>_ s.
        let s = put_longs ([sa_restorer sa, word_of_int signr] @ (if ?nm then [] else [blocked (cur s)]) @ [eax, ecx, edx, eflags, eip]) ?esp s
        in Ret (sa_handler sa, ?esp) (upd_cur (\<lambda>t. t\<lparr>blocked := blocked t OR sa_mask sa\<rparr>) s))"
    unfolding do_signal_def Let_def assms(1) [symmetric] s1_def using assms(2,3) by (simp only: if_False)
  have pl: "tasks (put_longs vs a t) = tasks t" "current (put_longs vs a t) = current t" for vs a and t :: "'a proc_state_scheme"
    by (induction vs arbitrary: a t) (simp_all add: put_fs_long_def)
  have gl: "get_fs_long a (upd_task p f t) = get_fs_long a t" "umem (upd_task p f t) = umem t" for a p f and t :: "'a proc_state_scheme"
    by (simp_all add: get_fs_long_def upd_task_def)
  show ?thesis unfolding eq lets_andThen
  proof (rule lets_mono [OF verify_area_mm_only])
    fix s2 assume "mm_only s1 s2"
    note m = mm_only_fields [OF this]
    have fr: "[sa_restorer sa, word_of_int signr] @ (if ?nm then [] else [blocked (cur s2)]) @ [eax, ecx, edx, eflags, eip] = frame"
      using s1 m by (simp add: assms(4))
    let ?s3 = "put_longs frame ?esp s2"
    have "get_fs_long (?esp + 4 * of_nat j) ?s3 = frame ! j" if "j < length frame" for j
      using get_put_longs [OF len that] .
    moreover have "umem ?s3 x = umem s x" if "4 * length frame \<le> unat (x - ?esp)" for x
      using put_longs_umem [of frame ?esp s2 x] len that m(3) s1(2) by simp
    moreover have "blocked (cur ?s3) = blocked (cur s)" "current ?s3 = current s" "cur ?s3 = cur s1"
      using pl m s1 by simp_all
    ultimately show "lets (let s = put_longs ([sa_restorer sa, word_of_int signr] @ (if ?nm then [] else [blocked (cur s2)]) @ [eax, ecx, edx, eflags, eip]) ?esp s2
        in Ret (sa_handler sa, ?esp) (upd_cur (\<lambda>t. t\<lparr>blocked := blocked t OR sa_mask sa\<rparr>) s))
      (\<lambda>regs s'. regs = (sa_handler sa, esp - 4 * of_nat (length frame)) \<and>
        (\<forall>j<length frame. get_fs_long (snd regs + 4 * of_nat j) s' = frame ! j) \<and>
        (\<forall>x. 4 * length frame \<le> unat (x - snd regs) \<longrightarrow> umem s' x = umem s x) \<and>
        blocked (cur s') = blocked (cur s) OR sa_mask sa \<and>
        (sa_flags sa AND SA_ONESHOT \<noteq> 0 \<longrightarrow> sa_handler (sigaction (cur s') (nat (signr - 1))) = 0))"
      unfolding fr Let_def lets_simps(1) l [symmetric] using s1 gl by simp
  qed
qed

theorem do_signal_frame_witness:
  "lets (do_signal 2 1 2 3 0x500 0x202 0x8000
      (upd_task 0x2000 (set_action 2 (\<lambda>_. \<lparr>sa_handler = 0x700, sa_mask = 0, sa_flags = SA_NOMASK, sa_restorer = 0x600\<rparr>)) two_procs)) (\<lambda>regs s'.
     regs = (0x700, 0x8000 - 4 * of_nat (length [0x600, 2, 1, 2, 3, 0x202, 0x500 :: u32])) \<and>
     (\<forall>j<length [0x600, 2, 1, 2, 3, 0x202, 0x500 :: u32]. get_fs_long (snd regs + 4 * of_nat j) s' = [0x600, 2, 1, 2, 3, 0x202, 0x500] ! j) \<and>
     (\<forall>x. 4 * length [0x600, 2, 1, 2, 3, 0x202, 0x500 :: u32] \<le> unat (x - snd regs) \<longrightarrow> umem s' x =
        umem (upd_task 0x2000 (set_action 2 (\<lambda>_. \<lparr>sa_handler = 0x700, sa_mask = 0, sa_flags = SA_NOMASK, sa_restorer = 0x600\<rparr>)) two_procs) x) \<and>
     blocked (cur s') = blocked (cur (upd_task 0x2000 (set_action 2 (\<lambda>_. \<lparr>sa_handler = 0x700, sa_mask = 0, sa_flags = SA_NOMASK, sa_restorer = 0x600\<rparr>)) two_procs)) OR 0 \<and>
     (SA_NOMASK AND SA_ONESHOT \<noteq> 0 \<longrightarrow> sa_handler (sigaction (cur s') (nat (2 - 1))) = 0))"
  by (rule do_signal_frame [where sa = "\<lparr>sa_handler = 0x700, sa_mask = 0, sa_flags = SA_NOMASK, sa_restorer = 0x600\<rparr>", simplified sigaction_struct.simps])
    (simp_all add: set_action_def)

end
