(* ===== verification/Mktime.thy ===== *)
theory Mktime
  imports Kernel_Prelude "HOL-Library.Signed_Division"
begin

text \<open>
  \<^verbatim>\<open>kernel/mktime.c\<close>: seconds since 1970 from the broken-down time that the CMOS clock gives, and
  its agreement with the Gregorian calendar for the hundred years it is meant for.
\<close>

section \<open>The code\<close>

record tm =
  tm_sec :: int
  tm_min :: int
  tm_hour :: int
  tm_mday :: int
  tm_mon :: int
  tm_year :: int

abbreviation MINUTE :: int where "MINUTE \<equiv> 60"
abbreviation HOUR :: int where "HOUR \<equiv> 60 * MINUTE"
abbreviation DAY :: int where "DAY \<equiv> 24 * HOUR"
abbreviation YEAR :: int where "YEAR \<equiv> 365 * DAY"

text \<open>The seconds before each month of a leap year.\<close>

definition month :: "int list" where
  "month =
     [0, DAY * 31, DAY * (31+29), DAY * (31+29+31), DAY * (31+29+31+30), DAY * (31+29+31+30+31),
      DAY * (31+29+31+30+31+30), DAY * (31+29+31+30+31+30+31), DAY * (31+29+31+30+31+30+31+31),
      DAY * (31+29+31+30+31+30+31+31+30), DAY * (31+29+31+30+31+30+31+31+30+31),
      DAY * (31+29+31+30+31+30+31+31+30+31+30)]"

text \<open>The result is a 32-bit long; the sum is taken modulo 2^32 as the machine does.\<close>

definition mktime_sum :: "tm \<Rightarrow> int" where
  "mktime_sum t =
     (let year = (if 70 \<le> tm_year t then tm_year t - 70 else tm_year t + 100 - 70);
          res = YEAR * year + DAY * ((year + 1) sdiv 4);
          res = res + month ! nat (tm_mon t);
          res = (if 1 < tm_mon t \<and> (year + 2) smod 4 \<noteq> 0 then res - DAY else res);
          res = res + DAY * (tm_mday t - 1);
          res = res + HOUR * tm_hour t;
          res = res + MINUTE * tm_min t
      in res + tm_sec t)"

definition kernel_mktime :: "tm \<Rightarrow> 32 word" where
  "kernel_mktime t = word_of_int (mktime_sum t)"

section \<open>The calendar\<close>

definition leap :: "int \<Rightarrow> bool" where
  "leap y \<longleftrightarrow> 4 dvd y \<and> (\<not> 100 dvd y \<or> 400 dvd y)"

definition days_in_month :: "int \<Rightarrow> nat \<Rightarrow> int" where
  "days_in_month y m = (if m = 1 then (if leap y then 29 else 28) else if m \<in> {3, 5, 8, 10} then 30 else 31)"

definition days_in_year :: "int \<Rightarrow> int" where
  "days_in_year y = (if leap y then 366 else 365)"

text \<open>The days from 1 January 1970 to day \<open>d\<close> (from 1) of month \<open>m\<close> (from 0) of the year \<open>1970 + n\<close>.\<close>

definition epoch_days :: "nat \<Rightarrow> nat \<Rightarrow> int \<Rightarrow> int" where
  "epoch_days n m d =
     (\<Sum>i<n. days_in_year (1970 + int i)) + (\<Sum>i<m. days_in_month (1970 + int n) i) + (d - 1)"

lemma leap_1970:
  assumes "n < 130"
  shows "leap (1970 + int n) \<longleftrightarrow> (n + 2) mod 4 = 0"
proof -
  have "4 dvd (1970 + int n) \<longleftrightarrow> (n + 2) mod 4 = 0" by presburger
  moreover have "(100::int) dvd 1970 + int n \<longleftrightarrow> n = 30"
  proof
    assume "(100::int) dvd 1970 + int n"
    then obtain k where "1970 + int n = 100 * k" by (auto elim: dvdE)
    then show "n = 30" using assms by presburger
  qed simp
  ultimately show ?thesis by (auto simp: leap_def)
qed

lemma years_days: "n < 130 \<Longrightarrow> (\<Sum>i<n. days_in_year (1970 + int i)) = 365 * int n + int ((n + 1) div 4)"
proof (induction n)
  case (Suc n)
  have "int ((Suc n + 1) div 4) = int ((n + 1) div 4) + (if (n + 2) mod 4 = 0 then 1 else 0)"
    by (cases "(n + 2) mod 4 = 0") presburger+
  then show ?case using Suc leap_1970 [of n] by (simp add: days_in_year_def)
qed simp

lemma month_days:
  "m < 12 \<Longrightarrow> DAY * (\<Sum>i<m. days_in_month y i) = month ! m - (if 1 < m \<and> \<not> leap y then DAY else 0)"
proof -
  assume "m < 12"
  then have "m \<in> {0, 1, 2, 3, 4, 5, 6, 7, 8, 9, 10, 11}" unfolding insert_iff empty_iff by presburger
  then show ?thesis
    by (elim insertE) (simp_all add: month_def days_in_month_def eval_nat_numeral)
qed

text \<open>C14: for the years 1970 to 2069 (the two-digit years 70-99 and 00-69) \<open>kernel_mktime\<close> is the
  number of seconds from 1 January 1970 in the Gregorian calendar, modulo 2^32.\<close>

theorem kernel_mktime_correct:
  assumes "n < 100" and "tm_year t = (if n < 30 then 70 + int n else int n - 30)"
    and "tm_mon t = int m" and "m < 12"
  shows "kernel_mktime t =
    word_of_int (((epoch_days n m (tm_mday t) * 24 + tm_hour t) * 60 + tm_min t) * 60 + tm_sec t)"
proof -
  have y: "(if 70 \<le> tm_year t then tm_year t - 70 else tm_year t + 100 - 70) = int n"
    using assms(1,2) by auto
  have q: "(int n + 1) sdiv 4 = int ((n + 1) div 4)"
  proof -
    have "(int n + 1) sdiv 4 = (int n + 1) div 4" by (simp add: signed_divide_int_def)
    then show ?thesis by (simp add: zdiv_int)
  qed
  have r: "(int n + 2) smod 4 \<noteq> 0 \<longleftrightarrow> (n + 2) mod 4 \<noteq> 0"
  proof -
    have "(int n + 2) smod 4 = (int n + 2) mod 4" by (simp add: signed_modulo_int_def)
    then show ?thesis by presburger
  qed
  have "mktime_sum t = YEAR * int n + DAY * int ((n + 1) div 4) +
      (month ! m - (if 1 < m \<and> \<not> leap (1970 + int n) then DAY else 0)) + DAY * (tm_mday t - 1) +
      HOUR * tm_hour t + MINUTE * tm_min t + tm_sec t"
    using leap_1970 [of n] assms(1,3) unfolding mktime_sum_def Let_def y q r by simp
  also have "\<dots> = ((epoch_days n m (tm_mday t) * 24 + tm_hour t) * 60 + tm_min t) * 60 + tm_sec t"
    unfolding month_days [OF assms(4), of "1970 + int n", symmetric] epoch_days_def
    using years_days [of n] assms(1) by (simp add: algebra_simps)
  finally show ?thesis by (simp add: kernel_mktime_def)
qed

theorem kernel_mktime_correct_witness:
  "kernel_mktime \<lparr>tm_sec = 56, tm_min = 34, tm_hour = 12, tm_mday = 29, tm_mon = 1, tm_year = 0\<rparr> =
    word_of_int (((epoch_days 30 1 29 * 24 + 12) * 60 + 34) * 60 + 56)"
  using kernel_mktime_correct [of 30 "\<lparr>tm_sec = 56, tm_min = 34, tm_hour = 12, tm_mday = 29, tm_mon = 1, tm_year = 0\<rparr>" 1]
  by simp

end
