(* ===== verification/Who.thy ===== *)
theory Who
  imports Process_Properties
begin

text \<open>
  \<^verbatim>\<open>kernel/who.c\<close>: \<open>sys_iam\<close> stores a name of at most 23 characters, \<open>sys_whoami\<close> gives it back.
  \<open>msg\<close> is the memory from the address of the 24-byte buffer on: positions from 24 on are what the
  linker put behind it.
\<close>

section \<open>The code\<close>

record who_state = proc_state +
  msg :: "nat \<Rightarrow> u8"

text \<open>The first loop of \<open>sys_iam\<close>: the position of the terminator, 30 when there is none.\<close>

fun name_len :: "nat \<Rightarrow> nat \<Rightarrow> u32 \<Rightarrow> 'a who_state_scheme \<Rightarrow> nat" where
  "name_len 0 len name s = len"
| "name_len (Suc n) len name s =
     (let c = get_fs_byte (name + of_nat len) s in
      if c = 0 \<or> c = 10 then len else name_len n (Suc len) name s)"

definition sys_iam :: "u32 \<Rightarrow> 'a who_state_scheme \<Rightarrow> int \<times> 'a who_state_scheme" where
  "sys_iam name s =
     (let len = name_len 30 0 name s in
      if 24 \<le> len then (- EINVAL, s)
      else (int len, s\<lparr>msg := (\<lambda>i. if i \<le> len then get_fs_byte (name + of_nat i) s else msg s i)\<rparr>))"

text \<open>\<open>fuel\<close> bounds the search for the NUL, which is not limited to the buffer.\<close>

fun msg_len :: "nat \<Rightarrow> nat \<Rightarrow> 'a who_state_scheme \<Rightarrow> nat option" where
  "msg_len 0 len s = None"
| "msg_len (Suc fuel) len s = (if msg s len \<noteq> 0 then msg_len fuel (Suc len) s else Some len)"

fun put_msg :: "nat \<Rightarrow> nat \<Rightarrow> u32 \<Rightarrow> 'a who_state_scheme \<Rightarrow> nat \<times> 'a who_state_scheme" where
  "put_msg 0 i name s = (i, s)"
| "put_msg (Suc n) i name s =
     (let s = put_fs_byte (msg s i) (name + of_nat i) s in
      if msg s i = 0 then (i, s) else put_msg n (Suc i) name s)"

definition sys_whoami :: "nat \<Rightarrow> u32 \<Rightarrow> u32 \<Rightarrow> 'a who_state_scheme \<Rightarrow> ('a who_state_scheme, int) outcome" where
  "sys_whoami fuel name sz s =
     (case msg_len fuel 0 s of None \<Rightarrow> Hang
      | Some len \<Rightarrow>
          if unat sz < len then Ret (- EINVAL) s
          else let (i, s) = put_msg (unat sz) 0 name s in Ret (int i) s)"

section \<open>Lengths\<close>

lemma name_len_spec:
  "(\<forall>i<m. get_fs_byte (name + of_nat (len + i)) s \<notin> {0, 10}) \<Longrightarrow>
   get_fs_byte (name + of_nat (len + m)) s \<in> {0, 10} \<Longrightarrow> m < n \<Longrightarrow> name_len n len name s = len + m"
proof (induction m arbitrary: n len)
  case 0
  then show ?case by (cases n) (auto simp: Let_def)
next
  case (Suc m)
  then obtain n' where n: "n = Suc n'" by (cases n) auto
  have "get_fs_byte (name + of_nat len) s \<notin> {0, 10}" using Suc.prems(1) by force
  moreover have "name_len n' (Suc len) name s = Suc len + m"
  proof (rule Suc.IH)
    show "\<forall>i<m. get_fs_byte (name + of_nat (Suc len + i)) s \<notin> {0, 10}"
      using Suc.prems(1) by (metis Suc_less_eq add_Suc_shift)
    show "get_fs_byte (name + of_nat (Suc len + m)) s \<in> {0, 10}"
      using Suc.prems(2) by (simp only: add_Suc_shift)
  qed (use Suc.prems n in simp)
  ultimately show ?case by (auto simp: n Let_def)
qed

lemma msg_len_spec:
  "(\<forall>i<m. msg s (len + i) \<noteq> 0) \<Longrightarrow> msg s (len + m) = 0 \<Longrightarrow> m < fuel \<Longrightarrow> msg_len fuel len s = Some (len + m)"
proof (induction m arbitrary: fuel len)
  case 0
  then show ?case by (cases fuel) auto
next
  case (Suc m)
  then obtain f where f: "fuel = Suc f" by (cases fuel) auto
  have "msg_len f (Suc len) s = Some (Suc len + m)"
    using Suc.prems f by (intro Suc.IH) (auto simp flip: add_Suc_shift)
  moreover have "msg s len \<noteq> 0" using Suc.prems(1) by force
  ultimately show ?case by (simp add: f)
qed

lemma put_msg_spec:
  "(\<forall>j<m. msg s (i + j) \<noteq> 0) \<Longrightarrow> msg s (i + m) = 0 \<Longrightarrow> m < n \<Longrightarrow> i + m < 4294967296 \<Longrightarrow>
   \<exists>s'. put_msg n i name s = (i + m, s') \<and> msg s' = msg s \<and>
     (\<forall>j\<le>m. get_fs_byte (name + of_nat (i + j)) s' = msg s (i + j)) \<and>
     (\<forall>a. (\<forall>j\<le>m. a \<noteq> name + of_nat (i + j)) \<longrightarrow> umem s' a = umem s a)"
proof (induction m arbitrary: n i s)
  case 0
  then show ?case by (cases n) (auto simp: Let_def put_fs_byte_def get_fs_byte_def)
next
  case (Suc m)
  then obtain n' where n: "n = Suc n'" by (cases n) auto
  let ?s = "put_fs_byte (msg s i) (name + of_nat i) s"
  have m: "msg ?s = msg s" by (simp add: put_fs_byte_def)
  have nz: "msg s i \<noteq> 0" using Suc.prems(1) by force
  have "\<exists>s'. put_msg n' (Suc i) name ?s = (Suc i + m, s') \<and> msg s' = msg ?s \<and>
     (\<forall>j\<le>m. get_fs_byte (name + of_nat (Suc i + j)) s' = msg ?s (Suc i + j)) \<and>
     (\<forall>a. (\<forall>j\<le>m. a \<noteq> name + of_nat (Suc i + j)) \<longrightarrow> umem s' a = umem ?s a)"
    using Suc.prems n by (intro Suc.IH) (auto simp: m simp flip: add_Suc_shift)
  then obtain s' where s': "put_msg n' (Suc i) name ?s = (Suc i + m, s')" "msg s' = msg s"
    "\<forall>j\<le>m. get_fs_byte (name + of_nat (Suc i + j)) s' = msg s (Suc i + j)"
    "\<forall>a. (\<forall>j\<le>m. a \<noteq> name + of_nat (Suc i + j)) \<longrightarrow> umem s' a = umem ?s a" unfolding m by blast
  have "put_msg n i name s = (i + Suc m, s')" using s'(1) nz by (simp add: n Let_def m)
  moreover have "get_fs_byte (name + of_nat (i + j)) s' = msg s (i + j)" if "j \<le> Suc m" for j
  proof (cases j)
    case (Suc k)
    then show ?thesis using s'(3) that by simp
  next
    case 0
    have "name + of_nat i \<noteq> name + of_nat (Suc i + k)" if "k \<le> m" for k
    proof
      assume "name + of_nat i = name + of_nat (Suc i + k)"
      then have "unat (of_nat i :: u32) = unat (of_nat (Suc i + k) :: u32)" by (simp only: add_left_cancel)
      moreover have "unat (of_nat i :: u32) = i" "unat (of_nat (Suc i + k) :: u32) = Suc i + k"
        using Suc.prems(4) that by (simp_all add: unat_of_nat_u32 del: of_nat_Suc of_nat_add add_Suc)
      ultimately show False by simp
    qed
    then have "umem s' (name + of_nat i) = umem ?s (name + of_nat i)" using s'(4) by blast
    then show ?thesis using 0 by (simp add: get_fs_byte_def put_fs_byte_def)
  qed
  moreover have "umem s' a = umem s a" if a: "\<forall>j\<le>Suc m. a \<noteq> name + of_nat (i + j)" for a
  proof -
    have "a \<noteq> name + of_nat i" using a [rule_format, of 0] by simp
    moreover have "\<forall>j\<le>m. a \<noteq> name + of_nat (Suc i + j)" using a by (metis Suc_le_mono add_Suc_shift)
    ultimately show ?thesis using s'(4) by (simp add: put_fs_byte_def)
  qed
  ultimately show ?case using s'(2) by blast
qed

section \<open>Properties\<close>

text \<open>C15: a NUL-terminated name of at most 23 characters that \<open>sys_iam\<close> stores is what \<open>sys_whoami\<close>
  writes, with its NUL, into a buffer that is large enough; both return its length.\<close>

theorem iam_whoami_roundtrip:
  assumes "\<forall>i<n. get_fs_byte (name + of_nat i) s \<notin> {0, 10}" and "get_fs_byte (name + of_nat n) s = 0"
    and "n < 24" and "n < unat sz" and "n < fuel"
  shows "\<exists>s1 s2. sys_iam name s = (int n, s1) \<and> sys_whoami fuel out sz s1 = Ret (int n) s2 \<and>
     (\<forall>i\<le>n. get_fs_byte (out + of_nat i) s2 = get_fs_byte (name + of_nat i) s)"
proof -
  let ?s1 = "s\<lparr>msg := (\<lambda>i. if i \<le> n then get_fs_byte (name + of_nat i) s else msg s i)\<rparr>"
  have "name_len 30 0 name s = n" using name_len_spec [of n name 0 s 30] assms by simp
  then have 1: "sys_iam name s = (int n, ?s1)" using assms(3) by (simp add: sys_iam_def)
  have 2: "msg_len fuel 0 ?s1 = Some n" using msg_len_spec [of n ?s1 0 fuel] assms by simp
  have "\<exists>s2. put_msg (unat sz) 0 out ?s1 = (n, s2) \<and> (\<forall>j\<le>n. get_fs_byte (out + of_nat j) s2 = msg ?s1 j)"
    using put_msg_spec [of n ?s1 0 "unat sz" out] assms by auto
  then obtain s2 where "put_msg (unat sz) 0 out ?s1 = (n, s2)"
    and 3: "\<forall>j\<le>n. get_fs_byte (out + of_nat j) s2 = get_fs_byte (name + of_nat j) s" by auto
  then have "sys_whoami fuel out sz ?s1 = Ret (int n) s2" using 2 assms(4) by (simp add: sys_whoami_def)
  with 1 3 show ?thesis by blast
qed

text \<open>A state whose user memory holds \<open>m\<close> and whose message buffer holds \<open>b\<close>.\<close>

definition who_ex :: "(u32 \<Rightarrow> u8) \<Rightarrow> (nat \<Rightarrow> u8) \<Rightarrow> who_state" where
  "who_ex m b = proc_state.extend (two_procs\<lparr>umem := m\<rparr>) (who_state.fields b)"

lemma who_ex_simps [simp]: "get_fs_byte a (who_ex m b) = m a" "msg (who_ex m b) = b"
  by (simp_all add: who_ex_def get_fs_byte_def who_state.defs proc_state.defs)

theorem iam_whoami_roundtrip_witness:
  "\<exists>s1 s2. sys_iam 0x100 (who_ex ((\<lambda>_. 0)(0x100 := 97, 0x101 := 98)) (\<lambda>_. 0)) = (int 2, s1) \<and>
     sys_whoami 100 0x200 10 s1 = Ret (int 2) s2 \<and>
     (\<forall>i\<le>2. get_fs_byte (0x200 + of_nat i) s2 =
        get_fs_byte (0x100 + of_nat i) (who_ex ((\<lambda>_. 0)(0x100 := 97, 0x101 := 98)) (\<lambda>_. 0)))"
proof (rule iam_whoami_roundtrip)
  show "\<forall>i<2. get_fs_byte (0x100 + of_nat i) (who_ex ((\<lambda>_. 0)(0x100 := 97, 0x101 := 98)) (\<lambda>_. 0)) \<notin> {0, 10}"
  proof (intro allI impI)
    fix i :: nat assume "i < 2"
    then consider "i = 0" | "i = 1" by linarith
    then show "get_fs_byte (0x100 + of_nat i) (who_ex ((\<lambda>_. 0)(0x100 := 97, 0x101 := 98)) (\<lambda>_. 0)) \<notin> {0, 10}"
      by cases simp_all
  qed
qed simp_all

text \<open>a name that ends with a newline is stored with the newline and without a NUL, so what
  \<open>sys_whoami\<close> returns afterwards is the new name, the newline, and the rest of the longer name that
  was stored before.\<close>

theorem iam_newline_keeps_old_tail:
  assumes "\<forall>i<n. get_fs_byte (name + of_nat i) s \<notin> {0, 10}" and "get_fs_byte (name + of_nat n) s = 10"
    and "\<forall>i<m. msg s i \<noteq> 0" and "msg s m = 0" and "n < m" and "m < 24" and "m < unat sz" and "m < fuel"
  shows "\<exists>s1 s2. sys_iam name s = (int n, s1) \<and> sys_whoami fuel out sz s1 = Ret (int m) s2 \<and>
     (\<forall>i\<le>m. get_fs_byte (out + of_nat i) s2 = (if i \<le> n then get_fs_byte (name + of_nat i) s else msg s i))"
proof -
  let ?s1 = "s\<lparr>msg := (\<lambda>i. if i \<le> n then get_fs_byte (name + of_nat i) s else msg s i)\<rparr>"
  have "name_len 30 0 name s = n" using name_len_spec [of n name 0 s 30] assms by simp
  then have 1: "sys_iam name s = (int n, ?s1)" using assms(5,6) by (simp add: sys_iam_def)
  have nz: "\<forall>i<m. msg ?s1 i \<noteq> 0"
  proof (intro allI impI)
    fix i assume "i < m"
    then show "msg ?s1 i \<noteq> 0" using assms(1,2,3) by (cases "i < n") (auto simp: le_less)
  qed
  have z: "msg ?s1 m = 0" using assms(4,5) by simp
  have 2: "msg_len fuel 0 ?s1 = Some m" using msg_len_spec [of m ?s1 0 fuel] nz z assms(8) by simp
  have "\<exists>s2. put_msg (unat sz) 0 out ?s1 = (m, s2) \<and> (\<forall>j\<le>m. get_fs_byte (out + of_nat j) s2 = msg ?s1 j)"
    using put_msg_spec [of m ?s1 0 "unat sz" out] nz z assms(6,7) by auto
  then obtain s2 where "put_msg (unat sz) 0 out ?s1 = (m, s2)"
    and 3: "\<forall>j\<le>m. get_fs_byte (out + of_nat j) s2 = (if j \<le> n then get_fs_byte (name + of_nat j) s else msg s j)" by auto
  then have "sys_whoami fuel out sz ?s1 = Ret (int m) s2" using 2 assms(7) by (simp add: sys_whoami_def)
  with 1 3 show ?thesis by blast
qed

theorem iam_newline_keeps_old_tail_witness:
  "\<exists>s1 s2. sys_iam 0x100 (who_ex ((\<lambda>_. 0)(0x100 := 97, 0x101 := 10)) (\<lambda>i. if i < 5 then 120 else 0)) = (int 1, s1) \<and>
     sys_whoami 100 0x200 10 s1 = Ret (int 5) s2 \<and>
     (\<forall>i\<le>5. get_fs_byte (0x200 + of_nat i) s2 =
        (if i \<le> 1 then get_fs_byte (0x100 + of_nat i) (who_ex ((\<lambda>_. 0)(0x100 := 97, 0x101 := 10)) (\<lambda>i. if i < 5 then 120 else 0))
         else msg (who_ex ((\<lambda>_. 0)(0x100 := 97, 0x101 := 10)) (\<lambda>i. if i < 5 then 120 else 0)) i))"
  by (rule iam_newline_keeps_old_tail) simp_all

end
