(* ===== verification/Vsprintf.thy ===== *)
theory Vsprintf
  imports Task
begin

text \<open>
  \<^verbatim>\<open>kernel/vsprintf.c\<close>: number conversion and formatted output. The text written to the buffer is
  the result; a format string is the list of its characters before the NUL. The argument list is a
  list of values, a number or a string each; what \<open>%n\<close> stores through its pointer is returned as a
  list of stores.
\<close>

section \<open>Numbers\<close>

definition is_digit :: "char \<Rightarrow> bool" where
  "is_digit c \<longleftrightarrow> c \<in> set ''0123456789''"

definition char_code :: "char \<Rightarrow> nat" where
  "char_code c = of_char c"

text \<open>\<open>skip_atoi\<close>: the number and the rest of the text.\<close>

fun skip_atoi :: "string \<Rightarrow> s32 \<Rightarrow> s32 \<times> string" where
  "skip_atoi [] i = (i, [])"
| "skip_atoi (c # cs) i =
     (if is_digit c then skip_atoi cs (i * 10 + of_nat (char_code c) - of_nat (char_code (CHR ''0''))) else (i, c # cs))"

abbreviation (input) ZEROPAD :: u32 where "ZEROPAD \<equiv> 1"
abbreviation (input) SIGN :: u32 where "SIGN \<equiv> 2"
abbreviation (input) PLUS :: u32 where "PLUS \<equiv> 4"
abbreviation (input) SPACE :: u32 where "SPACE \<equiv> 8"
abbreviation (input) LEFT :: u32 where "LEFT \<equiv> 16"
abbreviation (input) SPECIAL :: u32 where "SPECIAL \<equiv> 32"
abbreviation (input) SMALL :: u32 where "SMALL \<equiv> 64"

text \<open>\<open>while (num!=0) tmp[i++]=digits[do_div(num,base)]\<close>: the digits, the last one first.\<close>

function digits_of :: "string \<Rightarrow> nat \<Rightarrow> nat \<Rightarrow> string" where
  "digits_of ds base n = (if n = 0 \<or> base < 2 then [] else ds ! (n mod base) # digits_of ds base (n div base))"
  by pat_completeness auto
termination by (relation "measure (\<lambda>(_, _, n). n)") auto

declare digits_of.simps [simp del]

text \<open>\<open>while (size-->0)\<close>: the padding, and what is left in \<open>size\<close>.\<close>

definition pad :: "int \<Rightarrow> char \<Rightarrow> string \<times> int" where
  "pad sz c = (replicate (nat sz) c, if 0 < sz then -1 else sz - 1)"

definition number :: "s32 \<Rightarrow> int \<Rightarrow> int \<Rightarrow> int \<Rightarrow> u32 \<Rightarrow> string option" where
  "number num base sz precision type =
     (let digits = (if type AND SMALL \<noteq> 0 then ''0123456789abcdefghijklmnopqrstuvwxyz''
                    else ''0123456789ABCDEFGHIJKLMNOPQRSTUVWXYZ'');
          type = (if type AND LEFT \<noteq> 0 then type AND NOT ZEROPAD else type) in
      if base < 2 \<or> 36 < base then None
      else let c = (if type AND ZEROPAD \<noteq> 0 then CHR ''0'' else CHR '' '');
               neg = (type AND SIGN \<noteq> 0 \<and> num <s 0);
               sign = (if neg then ''-'' else if type AND PLUS \<noteq> 0 then ''+''
                       else if type AND SPACE \<noteq> 0 then '' '' else []);
               num = (if neg then - num else num);
               sz = (if sign \<noteq> [] then sz - 1 else sz);
               sz = (if type AND SPECIAL \<noteq> 0 then
                       if base = 16 then sz - 2 else if base = 8 then sz - 1 else sz
                     else sz);
               tmp = (if num = 0 then ''0'' else digits_of digits (nat base) (unat num));
               i = int (length tmp);
               precision = (if precision < i then i else precision);
               sz = sz - precision;
               (p1, sz) = (if type AND (ZEROPAD + LEFT) = 0 then pad sz CHR '' '' else ([], sz));
               special = (if type AND SPECIAL \<noteq> 0 then
                            if base = 8 then ''0'' else if base = 16 then [CHR ''0'', digits ! 33] else []
                          else []);
               (p2, sz) = (if type AND LEFT = 0 then pad sz c else ([], sz));
               zeros = replicate (nat (precision - i)) CHR ''0'';
               (p3, sz) = pad sz CHR '' ''
           in Some (p1 @ sign @ special @ p2 @ zeros @ rev tmp @ p3))"

section \<open>Formats\<close>

datatype varg = VInt u32 | VStr string

fun parse_flags :: "string \<Rightarrow> u32 \<Rightarrow> u32 \<times> string" where
  "parse_flags [] flags = (flags, [])"
| "parse_flags (c # fmt) flags =
     (if c = CHR ''-'' then parse_flags fmt (flags OR LEFT)
      else if c = CHR ''+'' then parse_flags fmt (flags OR PLUS)
      else if c = CHR '' '' then parse_flags fmt (flags OR SPACE)
      else if c = CHR ''#'' then parse_flags fmt (flags OR SPECIAL)
      else if c = CHR ''0'' then parse_flags fmt (flags OR ZEROPAD)
      else (flags, c # fmt))"

text \<open>The field width. For \<open>*\<close> the argument is taken, but \<open>fmt\<close> stays at the star.\<close>

definition parse_width :: "u32 \<Rightarrow> string \<Rightarrow> varg list \<Rightarrow> (u32 \<times> int \<times> string \<times> varg list) option" where
  "parse_width flags fmt args =
     (case fmt of
        c # cs \<Rightarrow>
          if is_digit c then (let (w, rest) = skip_atoi fmt 0 in Some (flags, sint w, rest, args))
          else if c = CHR ''*'' then
            (case args of
               VInt w # args \<Rightarrow>
                 if w <s 0 then Some (flags OR LEFT, sint (- w), fmt, args) else Some (flags, sint w, fmt, args)
             | _ \<Rightarrow> None)
          else Some (flags, -1, fmt, args)
      | [] \<Rightarrow> Some (flags, -1, fmt, args))"

definition parse_precision :: "string \<Rightarrow> varg list \<Rightarrow> (int \<times> string \<times> varg list) option" where
  "parse_precision fmt args =
     (case fmt of
        c # fmt' \<Rightarrow>
          if c = CHR ''.'' then
            (case fmt' of
               d # _ \<Rightarrow>
                 if is_digit d then
                   (let (p, rest) = skip_atoi fmt' 0 in Some (if p <s 0 then 0 else sint p, rest, args))
                 else if d = CHR ''*'' then
                   (case args of
                      VInt p # args \<Rightarrow> Some (if p <s 0 then 0 else sint p, fmt', args)
                    | _ \<Rightarrow> None)
                 else Some (0, fmt', args)
             | [] \<Rightarrow> Some (0, fmt', args))
          else Some (-1, fmt, args)
      | [] \<Rightarrow> Some (-1, fmt, args))"

definition skip_qualifier :: "string \<Rightarrow> string" where
  "skip_qualifier fmt = (case fmt of c # cs \<Rightarrow> if c \<in> set ''hlL'' then cs else fmt | [] \<Rightarrow> fmt)"

text \<open>One conversion character \<open>d\<close>: the text, the arguments left, and what \<open>%n\<close> stores (\<open>len\<close> is the
  length of the text so far).\<close>

definition convert ::
  "char \<Rightarrow> u32 \<Rightarrow> int \<Rightarrow> int \<Rightarrow> nat \<Rightarrow> varg list \<Rightarrow> (string \<times> varg list \<times> (u32 \<times> nat) list) option" where
  "convert d flags w p len args =
     (if d = CHR ''c'' then
        (case args of
           VInt v # args \<Rightarrow>
             let spaces = replicate (nat (w - 1)) CHR '' ''; ch = char_of (unat (v AND 0xff))
             in Some (if flags AND LEFT = 0 then spaces @ [ch] else ch # spaces, args, [])
         | _ \<Rightarrow> None)
      else if d = CHR ''s'' then
        (case args of
           VStr s # args \<Rightarrow>
             let len = int (length s);
                 len = (if p < 0 then len else if p < len then p else len);
                 spaces = replicate (nat (w - len)) CHR '' ''
             in Some (if flags AND LEFT = 0 then spaces @ take (nat len) s else take (nat len) s @ spaces, args, [])
         | _ \<Rightarrow> None)
      else if d \<in> set ''opxXdiu'' then
        (case args of
           VInt v # args \<Rightarrow>
             map_option (\<lambda>t. (t, args, []))
               (if d = CHR ''o'' then number v 8 w p flags
                else if d = CHR ''p'' then
                  if w = -1 then number v 16 8 p (flags OR ZEROPAD) else number v 16 w p flags
                else if d = CHR ''x'' then number v 16 w p (flags OR SMALL)
                else if d = CHR ''X'' then number v 16 w p flags
                else if d = CHR ''u'' then number v 10 w p flags
                else number v 10 w p (flags OR SIGN))
         | _ \<Rightarrow> None)
      else if d = CHR ''n'' then
        (case args of VInt ip # args \<Rightarrow> Some ([], args, [(ip, len)]) | _ \<Rightarrow> None)
      else Some (if d \<noteq> CHR ''%'' then [CHR ''%'', d] else [d], args, []))"

lemma parse_flags_length [simp]: "length (snd (parse_flags fmt f)) \<le> length fmt"
  by (induction fmt f rule: parse_flags.induct) auto

lemma skip_atoi_length: "length (snd (skip_atoi cs i)) \<le> length cs"
  by (induction cs i rule: skip_atoi.induct) auto

lemma parse_width_length: "parse_width f fmt args = Some (f', w, fmt', args') \<Longrightarrow> length fmt' \<le> length fmt"
  using skip_atoi_length [of fmt 0]
  by (auto simp: parse_width_def split: list.splits if_splits prod.splits varg.splits)

lemma parse_precision_length: "parse_precision fmt args = Some (p, fmt', args') \<Longrightarrow> length fmt' \<le> length fmt"
  using skip_atoi_length [of "tl fmt" 0]
  by (auto simp: parse_precision_def split: list.splits if_splits prod.splits varg.splits)

lemma skip_qualifier_length: "length (skip_qualifier fmt) \<le> length fmt"
  by (auto simp: skip_qualifier_def split: list.splits)

text \<open>The loop of \<open>vsprintf\<close>: \<open>out\<close> is the text so far. At the end of the format inside a conversion the
  default case writes the percent sign and the loop ends.\<close>

function vsprintf_loop :: "string \<Rightarrow> varg list \<Rightarrow> string \<Rightarrow> (string \<times> (u32 \<times> nat) list) option" where
  "vsprintf_loop fmt args out =
     (case fmt of
        [] \<Rightarrow> Some (out, [])
      | c # fmt \<Rightarrow>
          if c \<noteq> CHR ''%'' then vsprintf_loop fmt args (out @ [c])
          else
            (case parse_width (fst (parse_flags fmt 0)) (snd (parse_flags fmt 0)) args of
               None \<Rightarrow> None
             | Some (flags, w, fmt2, args2) \<Rightarrow>
               (case parse_precision fmt2 args2 of
                  None \<Rightarrow> None
                | Some (p, fmt3, args3) \<Rightarrow>
                  (case skip_qualifier fmt3 of
                     [] \<Rightarrow> Some (out @ ''%'', [])
                   | d # fmt4 \<Rightarrow>
                     (case convert d flags w p (length out) args3 of
                        None \<Rightarrow> None
                      | Some (t, args4, stores) \<Rightarrow>
                          map_option (\<lambda>(res, st). (res, stores @ st)) (vsprintf_loop fmt4 args4 (out @ t)))))))"
  by pat_completeness auto
termination
proof (relation "measure (\<lambda>(fmt, _, _). length fmt)", goal_cases)
  case (3 fmt args out c fmt1 p1 flags y w z fmt2 args2 p2 p r fmt3 args3 d fmt4 x t u args4 stores)
  have "length (d # fmt4) \<le> length fmt3" using 3 skip_qualifier_length [of fmt3] by simp
  also have "\<dots> \<le> length fmt2" using 3 by (auto dest: parse_precision_length)
  also have "\<dots> \<le> length (snd (parse_flags fmt1 0))" using 3 by (auto dest: parse_width_length)
  also have "\<dots> \<le> length fmt1" by simp
  finally show ?case using 3 by simp
qed auto

declare vsprintf_loop.simps [simp del]

text \<open>\<open>vsprintf\<close>: the text (the code adds a NUL), the stores of \<open>%n\<close>, and the length it returns;
  \<open>None\<close> when an argument is missing or of the wrong kind.\<close>

definition vsprintf :: "string \<Rightarrow> varg list \<Rightarrow> (string \<times> (u32 \<times> nat) list \<times> nat) option" where
  "vsprintf fmt args = map_option (\<lambda>(out, st). (out, st, length out)) (vsprintf_loop fmt args [])"

end
