(* ===== verification/Fs.thy ===== *)
theory Fs
  imports Process Words
begin

text \<open>
  The data of the file system (\<^verbatim>\<open>include/linux/fs.h\<close>, \<^verbatim>\<open>kernel/blk_drv/blk.h\<close>) and the state that
  the file system and the block layer keep.

  A pointer into one of the kernel's tables (inodes, open files, super blocks, buffer heads,
  requests) is an index of that table, NULL is \<open>None\<close>. The bytes that \<open>b_data\<close> of a buffer points
  at belong to that buffer alone and are the field \<open>b_data\<close>; other kernel memory that the code
  accesses by bytes (the page of a pipe, the ram disk) is physical memory, whose bytes are
  \<open>get_kbyte\<close> and \<open>put_kbyte\<close>.
\<close>

section \<open>Bytes of physical memory\<close>

text \<open>The byte at \<open>a\<close> lies in the long at \<open>a AND NOT 3\<close> (little endian).\<close>

definition get_kbyte :: "u32 \<Rightarrow> 'a mm_state_scheme \<Rightarrow> u8" where
  "get_kbyte a s = ucast (drop_bit (8 * unat (a AND 3)) (pmem s (a AND NOT 3)))"

definition put_kbyte :: "u8 \<Rightarrow> u32 \<Rightarrow> 'a mm_state_scheme \<Rightarrow> 'a mm_state_scheme" where
  "put_kbyte v a s =
     (let w = a AND NOT 3; k = 8 * unat (a AND 3) in
      s\<lparr>pmem := (pmem s)(w := (pmem s w AND NOT (push_bit k 0xff)) OR push_bit k (ucast v))\<rparr>)"

lemma u32_low_bits: "unat ((a::u32) AND 3) < 4"
  using word_and_le1 [of a 3] by (simp add: word_le_nat_alt)

lemma u32_parts: "(a::u32) = (a AND 3) OR (a AND NOT 3)"
  by (rule bit_word_eqI) (simp only: bit_or_iff bit_and_iff bit_not_iff possible_bit_word, blast)

lemma u32_split: "(a::u32) AND NOT 3 = b AND NOT 3 \<Longrightarrow> a AND 3 = b AND 3 \<Longrightarrow> a = b"
  by (metis u32_parts)

lemma bit_ff: "bit (0xff::u32) n \<longleftrightarrow> n < 8"
proof -
  have "bit (mask 8 :: u32) n \<longleftrightarrow> n < 8" by (simp only: bit_mask_iff possible_bit_word) auto
  moreover have "(0xff::u32) = mask 8" by (simp add: mask_eq_exp_minus_1)
  ultimately show ?thesis by (simp only:)
qed

lemma bit_get_kbyte:
  "n < 8 \<Longrightarrow> bit (get_kbyte a s) n \<longleftrightarrow> bit (pmem s (a AND NOT 3)) (8 * unat (a AND 3) + n)"
  using u32_low_bits [of a] by (simp only: get_kbyte_def bit_ucast_iff bit_drop_bit_eq possible_bit_word comp_def) auto

lemma bit_put_kbyte:
  assumes "n < 8"
  shows "bit (pmem (put_kbyte v a s) (b AND NOT 3)) (8 * unat (b AND 3) + n) \<longleftrightarrow>
    (if a = b then bit v n else bit (pmem s (b AND NOT 3)) (8 * unat (b AND 3) + n))"
proof -
  have ab: "unat (a AND 3) = unat (b AND 3) \<longleftrightarrow> a AND 3 = b AND 3" by (rule word_unat_eq_iff [symmetric])
  have k: "8 * unat (a AND 3) \<le> 8 * unat (b AND 3) + n \<and> 8 * unat (b AND 3) + n - 8 * unat (a AND 3) < 8 \<longleftrightarrow>
      unat (a AND 3) = unat (b AND 3)" using assms by linarith
  have r: "8 * unat (b AND 3) + n < 32" using assms u32_low_bits [of b] by linarith
  show ?thesis
  proof (cases "a AND NOT 3 = b AND NOT 3")
    case True
    then have "pmem (put_kbyte v a s) (b AND NOT 3) = (pmem s (b AND NOT 3) AND NOT (push_bit (8 * unat (a AND 3)) 0xff))
        OR push_bit (8 * unat (a AND 3)) (ucast v)" by (simp add: put_kbyte_def Let_def)
    moreover have "a = b \<longleftrightarrow> unat (a AND 3) = unat (b AND 3)" using True ab u32_split by blast
    ultimately show ?thesis using k r assms
      by (simp only: bit_or_iff bit_and_iff bit_not_iff bit_push_bit_iff bit_ff bit_ucast_iff possible_bit_word)
        (auto simp: not_less dest: bit_imp_le_length)
  next
    case False
    then show ?thesis by (auto simp: put_kbyte_def Let_def)
  qed
qed

lemma get_put_kbyte [simp]: "get_kbyte b (put_kbyte v a s) = (if a = b then v else get_kbyte b s)"
proof (rule bit_word_eqI)
  fix n assume "n < LENGTH(8)"
  then have "n < 8" by simp
  then show "bit (get_kbyte b (put_kbyte v a s)) n \<longleftrightarrow> bit (if a = b then v else get_kbyte b s) n"
    by (cases "a = b") (simp_all only: bit_get_kbyte bit_put_kbyte if_True if_False refl)
qed

text \<open>\<open>memcpy\<close> into and out of physical memory, first byte first.\<close>

fun put_kbytes :: "u32 \<Rightarrow> u8 list \<Rightarrow> 'a mm_state_scheme \<Rightarrow> 'a mm_state_scheme" where
  "put_kbytes a [] s = s"
| "put_kbytes a (v # vs) s = put_kbytes (a + 1) vs (put_kbyte v a s)"

definition get_kbytes :: "u32 \<Rightarrow> nat \<Rightarrow> 'a mm_state_scheme \<Rightarrow> u8 list" where
  "get_kbytes a n s = map (\<lambda>i. get_kbyte (a + of_nat i) s) [0..<n]"

section \<open>Tables\<close>

abbreviation (input) NR_INODE :: nat where "NR_INODE \<equiv> 32"
abbreviation (input) NR_FILE :: nat where "NR_FILE \<equiv> 64"
abbreviation (input) NR_SUPER :: nat where "NR_SUPER \<equiv> 8"
abbreviation (input) NR_HASH :: nat where "NR_HASH \<equiv> 307"
abbreviation (input) BLOCK_SIZE :: nat where "BLOCK_SIZE \<equiv> 1024"
abbreviation (input) READ :: int where "READ \<equiv> 0"
abbreviation (input) WRITE :: int where "WRITE \<equiv> 1"
abbreviation (input) READA :: int where "READA \<equiv> 2"
abbreviation (input) WRITEA :: int where "WRITEA \<equiv> 3"

definition MAJOR :: "u32 \<Rightarrow> u32" where
  "MAJOR a = drop_bit 8 a"

definition MINOR :: "u32 \<Rightarrow> u32" where
  "MINOR a = a AND 0xff"

definition IS_SEEKABLE :: "u32 \<Rightarrow> bool" where
  "IS_SEEKABLE x \<longleftrightarrow> 1 \<le> x \<and> x \<le> 3"

record buffer_head =
  b_data :: "nat \<Rightarrow> u8"
  b_addr :: u32
  b_blocknr :: u32
  b_dev :: u16
  b_uptodate :: u8
  b_dirt :: u8
  b_count :: u8
  b_lock :: u8
  b_wait :: u32
  b_prev :: "nat option"
  b_next :: "nat option"
  b_prev_free :: "nat option"
  b_next_free :: "nat option"

record m_inode =
  i_mode :: u16
  i_uid :: u16
  i_size :: u32
  i_mtime :: u32
  i_gid :: u8
  i_nlinks :: u8
  i_zone :: "nat \<Rightarrow> u16"
  i_wait :: u32
  i_atime :: u32
  i_ctime :: u32
  i_dev :: u16
  i_num :: u16
  i_count :: u16
  i_lock :: u8
  i_dirt :: u8
  i_pipe :: u8
  i_mount :: u8
  i_seek :: u8
  i_update :: u8

text \<open>An inode after \<open>memset(inode,0,sizeof(*inode))\<close>.\<close>

definition zero_inode :: m_inode where
  "zero_inode = \<lparr>i_mode = 0, i_uid = 0, i_size = 0, i_mtime = 0, i_gid = 0, i_nlinks = 0, i_zone = (\<lambda>_. 0),
     i_wait = 0, i_atime = 0, i_ctime = 0, i_dev = 0, i_num = 0, i_count = 0, i_lock = 0, i_dirt = 0,
     i_pipe = 0, i_mount = 0, i_seek = 0, i_update = 0\<rparr>"

record file_struct =
  f_mode :: u16
  f_flags :: u16
  f_count :: u16
  f_inode :: "nat option"
  f_pos :: s32

record super_struct =
  s_ninodes :: u16
  s_nzones :: u16
  s_imap_blocks :: u16
  s_zmap_blocks :: u16
  s_firstdatazone :: u16
  s_log_zone_size :: u16
  s_max_size :: u32
  s_magic :: u16
  s_imap :: "nat \<Rightarrow> nat option"
  s_zmap :: "nat \<Rightarrow> nat option"
  s_dev :: u16
  s_isup :: "nat option"
  s_imount :: "nat option"
  s_time :: u32
  s_wait :: u32
  s_lock :: u8
  s_rd_only :: u8
  s_dirt :: u8

text \<open>A request of the block layer; its buffer is named by the buffer head it belongs to.\<close>

record request_struct =
  r_dev :: s32
  r_cmd :: int
  r_errors :: int
  r_sector :: u32
  r_nr_sectors :: u32
  r_buffer :: "nat option"
  r_boff :: nat
  r_waiting :: u32
  r_bh :: "nat option"
  r_next :: "nat option"

section \<open>The state of the file system\<close>

text \<open>\<open>bufs\<close> is the array of buffer heads that starts at the address \<open>start_buffer\<close>; \<open>current_request\<close>
  is the request list of each major device; of the terminals only the process group is kept here
  (\<open>tty_table[n].pgrp\<close>).\<close>

record fs_state = proc_state +
  inode_table :: "nat \<Rightarrow> m_inode"
  last_inode :: nat
  file_table :: "nat \<Rightarrow> file_struct"
  super_block :: "nat \<Rightarrow> super_struct"
  ROOT_DEV :: s32
  bufs :: "nat \<Rightarrow> buffer_head"
  start_buffer :: u32
  nr_buffers :: nat
  hash_table :: "nat \<Rightarrow> nat option"
  free_list :: "nat option"
  buffer_wait :: u32
  request :: "nat \<Rightarrow> request_struct"
  current_request :: "nat \<Rightarrow> nat option"
  wait_for_request :: u32
  rd_start :: u32
  rd_length :: s32
  tty_pgrp :: "nat \<Rightarrow> s32"

text \<open>Writing a field of a table entry.\<close>

definition upd_inode :: "nat \<Rightarrow> (m_inode \<Rightarrow> m_inode) \<Rightarrow> 'a fs_state_scheme \<Rightarrow> 'a fs_state_scheme" where
  "upd_inode i f s = s\<lparr>inode_table := (inode_table s)(i := f (inode_table s i))\<rparr>"

definition upd_file :: "nat \<Rightarrow> (file_struct \<Rightarrow> file_struct) \<Rightarrow> 'a fs_state_scheme \<Rightarrow> 'a fs_state_scheme" where
  "upd_file i f s = s\<lparr>file_table := (file_table s)(i := f (file_table s i))\<rparr>"

definition upd_super :: "nat \<Rightarrow> (super_struct \<Rightarrow> super_struct) \<Rightarrow> 'a fs_state_scheme \<Rightarrow> 'a fs_state_scheme" where
  "upd_super i f s = s\<lparr>super_block := (super_block s)(i := f (super_block s i))\<rparr>"

definition upd_buf :: "nat \<Rightarrow> (buffer_head \<Rightarrow> buffer_head) \<Rightarrow> 'a fs_state_scheme \<Rightarrow> 'a fs_state_scheme" where
  "upd_buf i f s = s\<lparr>bufs := (bufs s)(i := f (bufs s i))\<rparr>"

definition upd_req :: "nat \<Rightarrow> (request_struct \<Rightarrow> request_struct) \<Rightarrow> 'a fs_state_scheme \<Rightarrow> 'a fs_state_scheme" where
  "upd_req i f s = s\<lparr>request := (request s)(i := f (request s i))\<rparr>"

text \<open>What each of these writes changes and what it leaves alone.\<close>

lemma upd_inode_simps [simp]:
  "inode_table (upd_inode i f s) = (inode_table s)(i := f (inode_table s i))"
  "mem_map (upd_inode i f s) = mem_map s" "pmem (upd_inode i f s) = pmem s"
  "high_memory (upd_inode i f s) = high_memory s" "tasks (upd_inode i f s) = tasks s"
  "task (upd_inode i f s) = task s" "current (upd_inode i f s) = current s"
  "init_task (upd_inode i f s) = init_task s" "jiffies (upd_inode i f s) = jiffies s"
  "startup_time (upd_inode i f s) = startup_time s" "umem (upd_inode i f s) = umem s"
  "last_inode (upd_inode i f s) = last_inode s" "file_table (upd_inode i f s) = file_table s"
  "super_block (upd_inode i f s) = super_block s" "ROOT_DEV (upd_inode i f s) = ROOT_DEV s"
  "bufs (upd_inode i f s) = bufs s" "start_buffer (upd_inode i f s) = start_buffer s"
  "nr_buffers (upd_inode i f s) = nr_buffers s" "hash_table (upd_inode i f s) = hash_table s"
  "free_list (upd_inode i f s) = free_list s" "buffer_wait (upd_inode i f s) = buffer_wait s"
  "request (upd_inode i f s) = request s" "current_request (upd_inode i f s) = current_request s"
  "wait_for_request (upd_inode i f s) = wait_for_request s" "rd_start (upd_inode i f s) = rd_start s"
  "rd_length (upd_inode i f s) = rd_length s" "tty_pgrp (upd_inode i f s) = tty_pgrp s"
  by (simp_all add: upd_inode_def)

lemma upd_file_simps [simp]:
  "file_table (upd_file i f s) = (file_table s)(i := f (file_table s i))"
  "mem_map (upd_file i f s) = mem_map s" "pmem (upd_file i f s) = pmem s"
  "high_memory (upd_file i f s) = high_memory s" "tasks (upd_file i f s) = tasks s"
  "task (upd_file i f s) = task s" "current (upd_file i f s) = current s"
  "init_task (upd_file i f s) = init_task s" "jiffies (upd_file i f s) = jiffies s"
  "startup_time (upd_file i f s) = startup_time s" "umem (upd_file i f s) = umem s"
  "inode_table (upd_file i f s) = inode_table s" "last_inode (upd_file i f s) = last_inode s"
  "super_block (upd_file i f s) = super_block s" "ROOT_DEV (upd_file i f s) = ROOT_DEV s"
  "bufs (upd_file i f s) = bufs s" "start_buffer (upd_file i f s) = start_buffer s"
  "nr_buffers (upd_file i f s) = nr_buffers s" "hash_table (upd_file i f s) = hash_table s"
  "free_list (upd_file i f s) = free_list s" "buffer_wait (upd_file i f s) = buffer_wait s"
  "request (upd_file i f s) = request s" "current_request (upd_file i f s) = current_request s"
  "wait_for_request (upd_file i f s) = wait_for_request s" "rd_start (upd_file i f s) = rd_start s"
  "rd_length (upd_file i f s) = rd_length s" "tty_pgrp (upd_file i f s) = tty_pgrp s"
  by (simp_all add: upd_file_def)

lemma upd_super_simps [simp]:
  "super_block (upd_super i f s) = (super_block s)(i := f (super_block s i))"
  "mem_map (upd_super i f s) = mem_map s" "pmem (upd_super i f s) = pmem s"
  "high_memory (upd_super i f s) = high_memory s" "tasks (upd_super i f s) = tasks s"
  "task (upd_super i f s) = task s" "current (upd_super i f s) = current s"
  "init_task (upd_super i f s) = init_task s" "jiffies (upd_super i f s) = jiffies s"
  "startup_time (upd_super i f s) = startup_time s" "umem (upd_super i f s) = umem s"
  "inode_table (upd_super i f s) = inode_table s" "last_inode (upd_super i f s) = last_inode s"
  "file_table (upd_super i f s) = file_table s" "ROOT_DEV (upd_super i f s) = ROOT_DEV s"
  "bufs (upd_super i f s) = bufs s" "start_buffer (upd_super i f s) = start_buffer s"
  "nr_buffers (upd_super i f s) = nr_buffers s" "hash_table (upd_super i f s) = hash_table s"
  "free_list (upd_super i f s) = free_list s" "buffer_wait (upd_super i f s) = buffer_wait s"
  "request (upd_super i f s) = request s" "current_request (upd_super i f s) = current_request s"
  "wait_for_request (upd_super i f s) = wait_for_request s" "rd_start (upd_super i f s) = rd_start s"
  "rd_length (upd_super i f s) = rd_length s" "tty_pgrp (upd_super i f s) = tty_pgrp s"
  by (simp_all add: upd_super_def)

lemma upd_buf_simps [simp]:
  "bufs (upd_buf i f s) = (bufs s)(i := f (bufs s i))"
  "mem_map (upd_buf i f s) = mem_map s" "pmem (upd_buf i f s) = pmem s"
  "high_memory (upd_buf i f s) = high_memory s" "tasks (upd_buf i f s) = tasks s"
  "task (upd_buf i f s) = task s" "current (upd_buf i f s) = current s"
  "init_task (upd_buf i f s) = init_task s" "jiffies (upd_buf i f s) = jiffies s"
  "startup_time (upd_buf i f s) = startup_time s" "umem (upd_buf i f s) = umem s"
  "inode_table (upd_buf i f s) = inode_table s" "last_inode (upd_buf i f s) = last_inode s"
  "file_table (upd_buf i f s) = file_table s" "super_block (upd_buf i f s) = super_block s"
  "ROOT_DEV (upd_buf i f s) = ROOT_DEV s" "start_buffer (upd_buf i f s) = start_buffer s"
  "nr_buffers (upd_buf i f s) = nr_buffers s" "hash_table (upd_buf i f s) = hash_table s"
  "free_list (upd_buf i f s) = free_list s" "buffer_wait (upd_buf i f s) = buffer_wait s"
  "request (upd_buf i f s) = request s" "current_request (upd_buf i f s) = current_request s"
  "wait_for_request (upd_buf i f s) = wait_for_request s" "rd_start (upd_buf i f s) = rd_start s"
  "rd_length (upd_buf i f s) = rd_length s" "tty_pgrp (upd_buf i f s) = tty_pgrp s"
  by (simp_all add: upd_buf_def)

lemma upd_req_simps [simp]:
  "request (upd_req i f s) = (request s)(i := f (request s i))"
  "mem_map (upd_req i f s) = mem_map s" "pmem (upd_req i f s) = pmem s"
  "high_memory (upd_req i f s) = high_memory s" "tasks (upd_req i f s) = tasks s"
  "task (upd_req i f s) = task s" "current (upd_req i f s) = current s"
  "init_task (upd_req i f s) = init_task s" "jiffies (upd_req i f s) = jiffies s"
  "startup_time (upd_req i f s) = startup_time s" "umem (upd_req i f s) = umem s"
  "inode_table (upd_req i f s) = inode_table s" "last_inode (upd_req i f s) = last_inode s"
  "file_table (upd_req i f s) = file_table s" "super_block (upd_req i f s) = super_block s"
  "ROOT_DEV (upd_req i f s) = ROOT_DEV s" "bufs (upd_req i f s) = bufs s"
  "start_buffer (upd_req i f s) = start_buffer s" "nr_buffers (upd_req i f s) = nr_buffers s"
  "hash_table (upd_req i f s) = hash_table s" "free_list (upd_req i f s) = free_list s"
  "buffer_wait (upd_req i f s) = buffer_wait s" "current_request (upd_req i f s) = current_request s"
  "wait_for_request (upd_req i f s) = wait_for_request s" "rd_start (upd_req i f s) = rd_start s"
  "rd_length (upd_req i f s) = rd_length s" "tty_pgrp (upd_req i f s) = tty_pgrp s"
  by (simp_all add: upd_req_def)

lemma upd_task_fs_simps [simp]:
  "inode_table (upd_task p f s) = inode_table s" "last_inode (upd_task p f s) = last_inode s"
  "file_table (upd_task p f s) = file_table s" "super_block (upd_task p f s) = super_block s"
  "ROOT_DEV (upd_task p f s) = ROOT_DEV s" "bufs (upd_task p f s) = bufs s"
  "start_buffer (upd_task p f s) = start_buffer s" "nr_buffers (upd_task p f s) = nr_buffers s"
  "hash_table (upd_task p f s) = hash_table s" "free_list (upd_task p f s) = free_list s"
  "buffer_wait (upd_task p f s) = buffer_wait s" "request (upd_task p f s) = request s"
  "current_request (upd_task p f s) = current_request s" "wait_for_request (upd_task p f s) = wait_for_request s"
  "rd_start (upd_task p f s) = rd_start s" "rd_length (upd_task p f s) = rd_length s" "tty_pgrp (upd_task p f s) = tty_pgrp s"
  "umem (upd_task p f s) = umem s"
  by (simp_all add: upd_task_def)

lemma put_fs_byte_simps [simp]:
  "mem_map (put_fs_byte v a s) = mem_map s" "pmem (put_fs_byte v a s) = pmem s"
  "high_memory (put_fs_byte v a s) = high_memory s" "tasks (put_fs_byte v a s) = tasks s"
  "task (put_fs_byte v a s) = task s" "current (put_fs_byte v a s) = current s"
  "init_task (put_fs_byte v a s) = init_task s" "jiffies (put_fs_byte v a s) = jiffies s"
  "startup_time (put_fs_byte v a s) = startup_time s" "last_pid (put_fs_byte v a s) = last_pid s"
  by (simp_all add: put_fs_byte_def)

lemma put_fs_byte_fs_simps [simp]:
  "inode_table (put_fs_byte v a s) = inode_table s" "last_inode (put_fs_byte v a s) = last_inode s"
  "file_table (put_fs_byte v a s) = file_table s" "super_block (put_fs_byte v a s) = super_block s"
  "ROOT_DEV (put_fs_byte v a s) = ROOT_DEV s" "bufs (put_fs_byte v a s) = bufs s"
  "start_buffer (put_fs_byte v a s) = start_buffer s" "nr_buffers (put_fs_byte v a s) = nr_buffers s"
  "hash_table (put_fs_byte v a s) = hash_table s" "free_list (put_fs_byte v a s) = free_list s"
  "buffer_wait (put_fs_byte v a s) = buffer_wait s" "request (put_fs_byte v a s) = request s"
  "current_request (put_fs_byte v a s) = current_request s" "wait_for_request (put_fs_byte v a s) = wait_for_request s"
  "rd_start (put_fs_byte v a s) = rd_start s" "rd_length (put_fs_byte v a s) = rd_length s" "tty_pgrp (put_fs_byte v a s) = tty_pgrp s"
  by (simp_all add: put_fs_byte_def)

lemma put_kbyte_simps [simp]:
  "mem_map (put_kbyte v a s) = mem_map s" "high_memory (put_kbyte v a s) = high_memory s"
  by (simp_all add: put_kbyte_def Let_def)

lemma put_kbyte_sched_simps [simp]:
  "tasks (put_kbyte v a s) = tasks s" "task (put_kbyte v a s) = task s"
  "current (put_kbyte v a s) = current s" "init_task (put_kbyte v a s) = init_task s"
  "jiffies (put_kbyte v a s) = jiffies s" "startup_time (put_kbyte v a s) = startup_time s"
  by (simp_all add: put_kbyte_def Let_def)

lemma put_kbyte_proc_simps [simp]:
  "umem (put_kbyte v a s) = umem s" "last_pid (put_kbyte v a s) = last_pid s"
  by (simp_all add: put_kbyte_def Let_def)

lemma put_kbyte_fs_simps [simp]:
  "inode_table (put_kbyte v a s) = inode_table s" "last_inode (put_kbyte v a s) = last_inode s"
  "file_table (put_kbyte v a s) = file_table s" "super_block (put_kbyte v a s) = super_block s"
  "ROOT_DEV (put_kbyte v a s) = ROOT_DEV s" "bufs (put_kbyte v a s) = bufs s"
  "start_buffer (put_kbyte v a s) = start_buffer s" "nr_buffers (put_kbyte v a s) = nr_buffers s"
  "hash_table (put_kbyte v a s) = hash_table s" "free_list (put_kbyte v a s) = free_list s"
  "buffer_wait (put_kbyte v a s) = buffer_wait s" "request (put_kbyte v a s) = request s"
  "current_request (put_kbyte v a s) = current_request s" "wait_for_request (put_kbyte v a s) = wait_for_request s"
  "rd_start (put_kbyte v a s) = rd_start s" "rd_length (put_kbyte v a s) = rd_length s" "tty_pgrp (put_kbyte v a s) = tty_pgrp s"
  by (simp_all add: put_kbyte_def Let_def)

lemma get_kbyte_frame [simp]:
  "get_kbyte a (put_fs_byte v b s) = get_kbyte a s" "get_kbyte a (upd_inode i f s) = get_kbyte a s"
  "get_kbyte a (upd_file i g s) = get_kbyte a s" "get_kbyte a (upd_super i k s) = get_kbyte a s"
  "get_kbyte a (upd_buf i h s) = get_kbyte a s" "get_kbyte a (upd_req i r s) = get_kbyte a s"
  by (simp_all add: get_kbyte_def)

lemma get_kbyte_upd_task [simp]: "get_kbyte a (upd_task p f s) = get_kbyte a s"
  by (simp add: get_kbyte_def)

section \<open>What the model does not contain\<close>

text \<open>
  The parameters of the operations that can sleep or that start a device: the bound on the
  iterations of a waiting loop and on the rounds of \<open>schedule\<close>, the effect of everything that
  runs while the current process is switched out (other processes, device interrupts), the request
  functions of the block devices (\<open>None\<close> for the NULL entries of \<open>blk_dev\<close>) and the disk-change line of
  the floppy controller.
\<close>

record 's kernel_env =
  bound :: nat
  others :: "'s \<Rightarrow> 's"
  request_fn :: "nat \<Rightarrow> ('s \<Rightarrow> ('s, unit) outcome) option"
  floppy_change :: "u32 \<Rightarrow> 's \<Rightarrow> bool \<times> 's"

section \<open>Waiting for a lock\<close>

text \<open>\<open>while (locked) sleep_on(queue)\<close>, the loop of \<open>wait_on_buffer\<close>, \<open>lock_inode\<close>, \<open>wait_on_super\<close> and
  the others.\<close>

fun wait_while ::
  "'a fs_state_scheme kernel_env \<Rightarrow> nat \<Rightarrow> ('a fs_state_scheme \<Rightarrow> bool) \<Rightarrow>
   ('a fs_state_scheme \<Rightarrow> u32) \<Rightarrow> (u32 \<Rightarrow> 'a fs_state_scheme \<Rightarrow> 'a fs_state_scheme) \<Rightarrow>
   'a fs_state_scheme \<Rightarrow> ('a fs_state_scheme, unit) outcome" where
  "wait_while K n locked get put s =
     (if \<not> locked s then Ret () s
      else case n of 0 \<Rightarrow> Hang
        | Suc n \<Rightarrow> andThen (sleep_on (bound K) (others K) get put s) (\<lambda>_ s. wait_while K n locked get put s))"

declare wait_while.simps [simp del]

lemma wait_while_unlocked [simp]: "\<not> locked s \<Longrightarrow> wait_while K n locked get put s = Ret () s"
  by (simp add: wait_while.simps)

lemma wait_while_lets: "lets (wait_while K n locked get put s) (\<lambda>_ s'. \<not> locked s')"
proof (induction n arbitrary: s)
  case 0
  then show ?case by (subst wait_while.simps) simp
next
  case (Suc n)
  then show ?case by (subst wait_while.simps) (auto intro!: letsI simp: andThen_Ret_iff dest: lets_RetD)
qed

end
