(* ===== verification/Block.thy ===== *)
theory Block
  imports Fs
begin

text \<open>
  The block layer (\<^verbatim>\<open>kernel/blk_drv/ll_rw_blk.c\<close>, \<^verbatim>\<open>kernel/blk_drv/blk.h\<close>) and the ram disk
  (\<^verbatim>\<open>kernel/blk_drv/ramdisk.c\<close>): locking of buffers, the request table, the ordered request list of
  each device, and the driver that serves the list of major device 1.
\<close>

abbreviation (input) NR_BLK_DEV :: nat where "NR_BLK_DEV \<equiv> 7"
abbreviation (input) NR_REQUEST :: nat where "NR_REQUEST \<equiv> 32"

section \<open>Locking a buffer\<close>

definition buf_wait :: "nat \<Rightarrow> 'a fs_state_scheme \<Rightarrow> u32" where
  "buf_wait b s = b_wait (bufs s b)"

definition set_buf_wait :: "nat \<Rightarrow> u32 \<Rightarrow> 'a fs_state_scheme \<Rightarrow> 'a fs_state_scheme" where
  "set_buf_wait b p s = upd_buf b (\<lambda>h. h\<lparr>b_wait := p\<rparr>) s"

definition buf_locked :: "nat \<Rightarrow> 'a fs_state_scheme \<Rightarrow> bool" where
  "buf_locked b s \<longleftrightarrow> b_lock (bufs s b) \<noteq> 0"

definition wait_on_buffer ::
  "'a fs_state_scheme kernel_env \<Rightarrow> nat \<Rightarrow> 'a fs_state_scheme \<Rightarrow> ('a fs_state_scheme, unit) outcome" where
  "wait_on_buffer K b s = wait_while K (bound K) (buf_locked b) (buf_wait b) (set_buf_wait b) s"

definition lock_buffer ::
  "'a fs_state_scheme kernel_env \<Rightarrow> nat \<Rightarrow> 'a fs_state_scheme \<Rightarrow> ('a fs_state_scheme, unit) outcome" where
  "lock_buffer K b s =
     andThen (wait_while K (bound K) (buf_locked b) (buf_wait b) (set_buf_wait b) s)
       (\<lambda>_ s. Ret () (upd_buf b (\<lambda>h. h\<lparr>b_lock := 1\<rparr>) s))"

text \<open>A buffer that is not locked is unlocked all the same, with a message.\<close>

definition unlock_buffer :: "nat \<Rightarrow> 'a fs_state_scheme \<Rightarrow> 'a fs_state_scheme" where
  "unlock_buffer b s = wake_up (buf_wait b) (upd_buf b (\<lambda>h. h\<lparr>b_lock := 0\<rparr>) s)"

section \<open>The request list\<close>

text \<open>The order of the elevator: reads before writes, then by device, then by sector.\<close>

definition IN_ORDER :: "request_struct \<Rightarrow> request_struct \<Rightarrow> bool" where
  "IN_ORDER s1 s2 \<longleftrightarrow> r_cmd s1 < r_cmd s2 \<or> r_cmd s1 = r_cmd s2 \<and>
     (r_dev s1 <s r_dev s2 \<or> r_dev s1 = r_dev s2 \<and> r_sector s1 < r_sector s2)"

text \<open>The loop of \<open>add_request\<close>: the entry of the list behind which the request goes. The list ends
  within \<open>n\<close> entries.\<close>

fun find_place :: "nat \<Rightarrow> nat \<Rightarrow> nat \<Rightarrow> 'a fs_state_scheme \<Rightarrow> nat option" where
  "find_place 0 tmp req s = None"
| "find_place (Suc n) tmp req s =
     (case r_next (request s tmp) of
        None \<Rightarrow> Some tmp
      | Some nx \<Rightarrow>
          if (IN_ORDER (request s tmp) (request s req) \<or> \<not> IN_ORDER (request s tmp) (request s nx)) \<and>
             IN_ORDER (request s req) (request s nx)
          then Some tmp else find_place n nx req s)"

definition add_request ::
  "'a fs_state_scheme kernel_env \<Rightarrow> nat \<Rightarrow> nat \<Rightarrow> 'a fs_state_scheme \<Rightarrow> ('a fs_state_scheme, unit) outcome" where
  "add_request K dev req s =
     (let s = upd_req req (\<lambda>r. r\<lparr>r_next := None\<rparr>) s;
          s = (case r_bh (request s req) of
                 Some b \<Rightarrow> upd_buf b (\<lambda>h. h\<lparr>b_dirt := 0\<rparr>) s
               | None \<Rightarrow> s) in
      case current_request s dev of
        None \<Rightarrow>
          let s = s\<lparr>current_request := (current_request s)(dev := Some req)\<rparr> in
          (case request_fn K dev of Some f \<Rightarrow> f s | None \<Rightarrow> Hang)
      | Some tmp \<Rightarrow>
          (case find_place (bound K) tmp req s of
             None \<Rightarrow> Hang
           | Some t \<Rightarrow>
               let s = upd_req req (\<lambda>r. r\<lparr>r_next := r_next (request s t)\<rparr>) s in
               Ret () (upd_req t (\<lambda>r. r\<lparr>r_next := Some req\<rparr>) s)))"

text \<open>\<open>while (--req >= request) if (req->dev<0) break;\<close> from entry \<open>n\<close> down.\<close>

fun free_request :: "nat \<Rightarrow> 'a fs_state_scheme \<Rightarrow> nat option" where
  "free_request 0 s = None"
| "free_request (Suc n) s = (if r_dev (request s n) <s 0 then Some n else free_request n s)"

text \<open>The part of \<open>make_request\<close> from the label \<open>repeat\<close>; \<open>n\<close> bounds the waits for a free entry.\<close>

fun queue_request ::
  "'a fs_state_scheme kernel_env \<Rightarrow> nat \<Rightarrow> nat \<Rightarrow> int \<Rightarrow> bool \<Rightarrow> nat \<Rightarrow> 'a fs_state_scheme \<Rightarrow>
     ('a fs_state_scheme, unit) outcome" where
  "queue_request K 0 major rw rw_ahead b s = Hang"
| "queue_request K (Suc n) major rw rw_ahead b s =
     (case free_request (if rw = READ then NR_REQUEST else NR_REQUEST * 2 div 3) s of
        None \<Rightarrow>
          if rw_ahead then Ret () (unlock_buffer b s)
          else andThen (sleep_on (bound K) (others K) wait_for_request (\<lambda>p s. s\<lparr>wait_for_request := p\<rparr>) s)
                 (\<lambda>_ s. queue_request K n major rw rw_ahead b s)
      | Some req \<Rightarrow>
          add_request K major req (upd_req req (\<lambda>r. r\<lparr>r_dev := ucast (b_dev (bufs s b)), r_cmd := rw, r_errors := 0,
            r_sector := push_bit 1 (b_blocknr (bufs s b)), r_nr_sectors := 2, r_buffer := Some b, r_boff := 0,
            r_waiting := 0, r_bh := Some b, r_next := None\<rparr>) s))"

definition make_request ::
  "'a fs_state_scheme kernel_env \<Rightarrow> nat \<Rightarrow> int \<Rightarrow> nat \<Rightarrow> 'a fs_state_scheme \<Rightarrow> ('a fs_state_scheme, unit) outcome" where
  "make_request K major rw b s =
     (let rw_ahead = (rw = READA \<or> rw = WRITEA) in
      if rw_ahead \<and> buf_locked b s then Ret () s
      else let rw = (if rw_ahead then if rw = READA then READ else WRITE else rw) in
        if rw \<noteq> READ \<and> rw \<noteq> WRITE then Panic ''Bad block dev command, must be R/W/RA/WA'' s
        else andThen (lock_buffer K b s) (\<lambda>_ s.
          if rw = WRITE \<and> b_dirt (bufs s b) = 0 \<or> rw = READ \<and> b_uptodate (bufs s b) \<noteq> 0
          then Ret () (unlock_buffer b s)
          else queue_request K (bound K) major rw rw_ahead b s))"

text \<open>\<open>blk_dev[major].request_fn\<close> is NULL where the environment has \<open>None\<close>.\<close>

definition ll_rw_block ::
  "'a fs_state_scheme kernel_env \<Rightarrow> int \<Rightarrow> nat \<Rightarrow> 'a fs_state_scheme \<Rightarrow> ('a fs_state_scheme, unit) outcome" where
  "ll_rw_block K rw b s =
     (let major = unat (MAJOR (ucast (b_dev (bufs s b)))) in
      if NR_BLK_DEV \<le> major \<or> request_fn K major = None then Ret () s
      else make_request K major rw b s)"

definition blk_dev_init :: "'a fs_state_scheme \<Rightarrow> 'a fs_state_scheme" where
  "blk_dev_init s = fold (\<lambda>i. upd_req i (\<lambda>r. r\<lparr>r_dev := -1, r_next := None\<rparr>)) [0..<NR_REQUEST] s"

section \<open>Ending a request (blk.h)\<close>

text \<open>\<open>end_request\<close> of a driver for the list of \<open>major\<close>; \<open>off\<close> is its \<open>DEVICE_OFF\<close>. It is called with a
  current request.\<close>

definition end_request ::
  "nat \<Rightarrow> (u32 \<Rightarrow> 'a fs_state_scheme \<Rightarrow> 'a fs_state_scheme) \<Rightarrow> u8 \<Rightarrow> nat \<Rightarrow> 'a fs_state_scheme \<Rightarrow> 'a fs_state_scheme" where
  "end_request major off uptodate req s =
     (let s = off (r_dev (request s req)) s;
          s = (case r_bh (request s req) of
                 Some b \<Rightarrow> unlock_buffer b (upd_buf b (\<lambda>h. h\<lparr>b_uptodate := uptodate\<rparr>) s)
               | None \<Rightarrow> s);
          s = wake_up (\<lambda>s. r_waiting (request s req)) s;
          s = wake_up wait_for_request s;
          s = upd_req req (\<lambda>r. r\<lparr>r_dev := -1\<rparr>) s
      in s\<lparr>current_request := (current_request s)(major := r_next (request s req))\<rparr>)"

section \<open>The ram disk\<close>

text \<open>The bytes of a request's buffer from \<open>off\<close> on; the pointer \<open>CURRENT->buffer\<close> is \<open>r_boff\<close> bytes into the buffer.\<close>

definition read_block_at :: "nat \<Rightarrow> nat \<Rightarrow> nat \<Rightarrow> 'a fs_state_scheme \<Rightarrow> u8 list" where
  "read_block_at b off len s = map (\<lambda>i. b_data (bufs s b) (off + i)) [0..<len]"

definition write_block_at :: "nat \<Rightarrow> nat \<Rightarrow> u8 list \<Rightarrow> 'a fs_state_scheme \<Rightarrow> 'a fs_state_scheme" where
  "write_block_at b off vs s =
     upd_buf b (\<lambda>h. h\<lparr>b_data := (\<lambda>i. if off \<le> i \<and> i < off + length vs then vs ! (i - off) else b_data h i)\<rparr>) s"

definition read_block :: "nat \<Rightarrow> nat \<Rightarrow> 'a fs_state_scheme \<Rightarrow> u8 list" where
  "read_block b len s = map (b_data (bufs s b)) [0..<len]"

definition write_block :: "nat \<Rightarrow> u8 list \<Rightarrow> 'a fs_state_scheme \<Rightarrow> 'a fs_state_scheme" where
  "write_block b vs s =
     upd_buf b (\<lambda>h. h\<lparr>b_data := (\<lambda>i. if i < length vs then vs ! i else b_data h i)\<rparr>) s"

lemma block_at_0 [simp]: "read_block_at b 0 len s = read_block b len s" "write_block_at b 0 vs s = write_block b vs s"
  by (simp_all add: read_block_at_def read_block_def write_block_at_def write_block_def cong: if_cong)

text \<open>One round of \<open>do_rd_request\<close> for the current request \<open>req\<close>: an address outside the disk or a minor
  device other than 1 is an error. The length of a request made by \<open>make_request\<close> is one block.\<close>

definition rd_step :: "nat \<Rightarrow> 'a fs_state_scheme \<Rightarrow> ('a fs_state_scheme, unit) outcome" where
  "rd_step req s =
     (let r = request s req;
          addr = rd_start s + push_bit 9 (r_sector r);
          len = push_bit 9 (r_nr_sectors r) in
      if MINOR (r_dev r) \<noteq> 1 \<or> rd_start s + rd_length s < addr + len
      then Ret () (end_request 1 (\<lambda>_ s. s) 0 req s)
      else
        andThen
          (case r_buffer r of
             None \<Rightarrow> Hang
           | Some b \<Rightarrow>
               if r_cmd r = WRITE then Ret () (put_kbytes addr (read_block_at b (r_boff r) (unat len) s) s)
               else if r_cmd r = READ then Ret () (write_block_at b (r_boff r) (get_kbytes addr (unat len) s) s)
               else Panic ''unknown ramdisk-command'' s)
          (\<lambda>_ s. Ret () (end_request 1 (\<lambda>_ s. s) 1 req s)))"

text \<open>\<open>INIT_REQUEST\<close> and the loop; the list has at most \<open>n\<close> entries.\<close>

fun do_rd_request :: "nat \<Rightarrow> 'a fs_state_scheme \<Rightarrow> ('a fs_state_scheme, unit) outcome" where
  "do_rd_request 0 s = Hang"
| "do_rd_request (Suc n) s =
     (case current_request s 1 of
        None \<Rightarrow> Ret () s
      | Some req \<Rightarrow>
          if MAJOR (r_dev (request s req)) \<noteq> 1 then Panic ''ramdisk: request list destroyed'' s
          else if (case r_bh (request s req) of Some b \<Rightarrow> \<not> buf_locked b s | None \<Rightarrow> False)
            then Panic ''ramdisk: block not locked'' s
          else andThen (rd_step req s) (\<lambda>_ s. do_rd_request n s))"

definition rd_init :: "u32 \<Rightarrow> s32 \<Rightarrow> 'a fs_state_scheme \<Rightarrow> s32 \<times> 'a fs_state_scheme" where
  "rd_init mem_start len s =
     (len, put_kbytes mem_start (replicate (nat (sint len)) 0) (s\<lparr>rd_start := mem_start, rd_length := len\<rparr>))"

end
