(* ===== verification/Buffer.thy ===== *)
theory Buffer
  imports Block
begin

text \<open>
  The buffer cache (\<^verbatim>\<open>fs/buffer.c\<close>): the hash queues and the circular list of free buffers, the search
  for a buffer and the choice of one to reuse.

  \<open>getblk\<close> writes dirty buffers out through \<open>sync_dev\<close>, which writes inodes out, which reads blocks and
  so calls \<open>getblk\<close> again. The operations that can do this take \<open>sync_dev\<close> as the argument \<open>sync\<close> here;
  \<^verbatim>\<open>Sync.thy\<close> closes the recursion.
\<close>

section \<open>Hash queues and the free list\<close>

text \<open>\<open>_hashfn\<close>\<close>

definition hashfn :: "u32 \<Rightarrow> u32 \<Rightarrow> nat" where
  "hashfn dev block = unat (dev XOR block) mod NR_HASH"

definition buf_hash :: "buffer_head \<Rightarrow> nat" where
  "buf_hash h = hashfn (ucast (b_dev h)) (b_blocknr h)"

definition set_hash :: "nat \<Rightarrow> nat option \<Rightarrow> 'a fs_state_scheme \<Rightarrow> 'a fs_state_scheme" where
  "set_hash k v s = s\<lparr>hash_table := (hash_table s)(k := v)\<rparr>"

text \<open>The address of a buffer head, of 36 bytes each.\<close>

definition bh_addr :: "nat \<Rightarrow> 'a fs_state_scheme \<Rightarrow> u32" where
  "bh_addr b s = start_buffer s + 36 * of_nat b"

definition unhash :: "nat \<Rightarrow> 'a fs_state_scheme \<Rightarrow> 'a fs_state_scheme" where
  "unhash bh s =
     (let s = (case b_next (bufs s bh) of Some n \<Rightarrow> upd_buf n (\<lambda>h. h\<lparr>b_prev := b_prev (bufs s bh)\<rparr>) s | None \<Rightarrow> s);
          s = (case b_prev (bufs s bh) of Some p \<Rightarrow> upd_buf p (\<lambda>h. h\<lparr>b_next := b_next (bufs s bh)\<rparr>) s | None \<Rightarrow> s);
          k = buf_hash (bufs s bh)
      in if hash_table s k = Some bh then set_hash k (b_next (bufs s bh)) s else s)"

definition remove_from_queues :: "nat \<Rightarrow> 'a fs_state_scheme \<Rightarrow> ('a fs_state_scheme, unit) outcome" where
  "remove_from_queues bh s =
     (let s = unhash bh s in
      case (b_prev_free (bufs s bh), b_next_free (bufs s bh)) of
        (Some p, Some n) \<Rightarrow>
          let s = upd_buf p (\<lambda>h. h\<lparr>b_next_free := b_next_free (bufs s bh)\<rparr>) s;
              s = upd_buf n (\<lambda>h. h\<lparr>b_prev_free := b_prev_free (bufs s bh)\<rparr>) s
          in Ret () (if free_list s = Some bh then s\<lparr>free_list := b_next_free (bufs s bh)\<rparr> else s)
      | _ \<Rightarrow> Panic ''Free block list corrupted'' s)"

text \<open>
  The code stores into \<open>bh->b_next->b_prev\<close> also when \<open>b_next\<close> is NULL: that is the long at physical
  address 20, the offset of \<open>b_prev\<close>, which is entry 5 of the page directory.
\<close>

definition insert_into_queues :: "nat \<Rightarrow> 'a fs_state_scheme \<Rightarrow> ('a fs_state_scheme, unit) outcome" where
  "insert_into_queues bh s =
     (case free_list s of
        None \<Rightarrow> Hang
      | Some f \<Rightarrow>
          let s = upd_buf bh (\<lambda>h. h\<lparr>b_next_free := Some f\<rparr>) s;
              s = upd_buf bh (\<lambda>h. h\<lparr>b_prev_free := b_prev_free (bufs s f)\<rparr>) s in
          (case b_prev_free (bufs s f) of
             None \<Rightarrow> Hang
           | Some p \<Rightarrow>
               let s = upd_buf p (\<lambda>h. h\<lparr>b_next_free := Some bh\<rparr>) s;
                   s = upd_buf f (\<lambda>h. h\<lparr>b_prev_free := Some bh\<rparr>) s;
                   s = upd_buf bh (\<lambda>h. h\<lparr>b_prev := None, b_next := None\<rparr>) s in
               if b_dev (bufs s bh) = 0 then Ret () s
               else let k = buf_hash (bufs s bh);
                        s = upd_buf bh (\<lambda>h. h\<lparr>b_next := hash_table s k\<rparr>) s;
                        s = set_hash k (Some bh) s
                    in Ret () (case b_next (bufs s bh) of
                         Some n \<Rightarrow> upd_buf n (\<lambda>h. h\<lparr>b_prev := Some bh\<rparr>) s
                       | None \<Rightarrow> s\<lparr>pmem := (pmem s)(20 := bh_addr bh s)\<rparr>)))"

section \<open>Searching\<close>

definition is_block :: "u32 \<Rightarrow> u32 \<Rightarrow> buffer_head \<Rightarrow> bool" where
  "is_block dev block h \<longleftrightarrow> ucast (b_dev h) = dev \<and> b_blocknr h = block"

text \<open>\<open>find_buffer\<close>; a chain has at most \<open>n\<close> entries.\<close>

fun find_chain :: "nat \<Rightarrow> nat option \<Rightarrow> u32 \<Rightarrow> u32 \<Rightarrow> 'a fs_state_scheme \<Rightarrow> ('a fs_state_scheme, nat option) outcome" where
  "find_chain n None dev block s = Ret None s"
| "find_chain 0 (Some tmp) dev block s = Hang"
| "find_chain (Suc n) (Some tmp) dev block s =
     (if is_block dev block (bufs s tmp) then Ret (Some tmp) s
      else find_chain n (b_next (bufs s tmp)) dev block s)"

definition find_buffer ::
  "'a fs_state_scheme kernel_env \<Rightarrow> u32 \<Rightarrow> u32 \<Rightarrow> 'a fs_state_scheme \<Rightarrow> ('a fs_state_scheme, nat option) outcome" where
  "find_buffer K dev block s = find_chain (bound K) (hash_table s (hashfn dev block)) dev block s"

fun get_hash_loop ::
  "'a fs_state_scheme kernel_env \<Rightarrow> nat \<Rightarrow> u32 \<Rightarrow> u32 \<Rightarrow> 'a fs_state_scheme \<Rightarrow> ('a fs_state_scheme, nat option) outcome" where
  "get_hash_loop K 0 dev block s = Hang"
| "get_hash_loop K (Suc n) dev block s =
     andThen (find_buffer K dev block s) (\<lambda>r s.
       case r of
         None \<Rightarrow> Ret None s
       | Some bh \<Rightarrow>
           andThen (wait_on_buffer K bh (upd_buf bh (\<lambda>h. h\<lparr>b_count := b_count h + 1\<rparr>) s)) (\<lambda>_ s.
             if is_block dev block (bufs s bh) then Ret (Some bh) s
             else get_hash_loop K n dev block (upd_buf bh (\<lambda>h. h\<lparr>b_count := b_count h - 1\<rparr>) s)))"

definition get_hash_table ::
  "'a fs_state_scheme kernel_env \<Rightarrow> u32 \<Rightarrow> u32 \<Rightarrow> 'a fs_state_scheme \<Rightarrow> ('a fs_state_scheme, nat option) outcome" where
  "get_hash_table K dev block s = get_hash_loop K (bound K) dev block s"

definition BADNESS :: "buffer_head \<Rightarrow> nat" where
  "BADNESS h = 2 * unat (b_dirt h) + unat (b_lock h)"

text \<open>The \<open>do ... while\<close> loop of \<open>getblk\<close> over the free list.\<close>

fun scan_free_list ::
  "nat \<Rightarrow> nat option \<Rightarrow> nat option \<Rightarrow> 'a fs_state_scheme \<Rightarrow> ('a fs_state_scheme, nat option) outcome" where
  "scan_free_list 0 tmp bh s = Hang"
| "scan_free_list (Suc n) None bh s = Hang"
| "scan_free_list (Suc n) (Some tmp) bh s =
     (let better = b_count (bufs s tmp) = 0 \<and>
            (case bh of None \<Rightarrow> True | Some b \<Rightarrow> BADNESS (bufs s tmp) < BADNESS (bufs s b));
          bh = (if better then Some tmp else bh) in
      if better \<and> BADNESS (bufs s tmp) = 0 \<or> b_next_free (bufs s tmp) = free_list s then Ret bh s
      else scan_free_list n (b_next_free (bufs s tmp)) bh s)"

text \<open>\<open>while (bh->b_dirt) ...\<close>; the result is false for \<open>goto repeat\<close>.\<close>

fun clean_buffer ::
  "(u32 \<Rightarrow> 'a fs_state_scheme \<Rightarrow> ('a fs_state_scheme, unit) outcome) \<Rightarrow>
   'a fs_state_scheme kernel_env \<Rightarrow> nat \<Rightarrow> nat \<Rightarrow> 'a fs_state_scheme \<Rightarrow> ('a fs_state_scheme, bool) outcome" where
  "clean_buffer sync K 0 bh s = (if b_dirt (bufs s bh) = 0 then Ret True s else Hang)"
| "clean_buffer sync K (Suc n) bh s =
     (if b_dirt (bufs s bh) = 0 then Ret True s
      else andThen (sync (ucast (b_dev (bufs s bh))) s) (\<lambda>_ s.
        andThen (wait_on_buffer K bh s) (\<lambda>_ s.
          if b_count (bufs s bh) \<noteq> 0 then Ret False s else clean_buffer sync K n bh s)))"

text \<open>The end of \<open>getblk\<close>: the buffer gets its new block.\<close>

definition take_buffer :: "u32 \<Rightarrow> u32 \<Rightarrow> nat \<Rightarrow> 'a fs_state_scheme \<Rightarrow> ('a fs_state_scheme, nat) outcome" where
  "take_buffer dev block bh s =
     andThen (remove_from_queues bh (upd_buf bh (\<lambda>h. h\<lparr>b_count := 1, b_dirt := 0, b_uptodate := 0\<rparr>) s)) (\<lambda>_ s.
       andThen (insert_into_queues bh (upd_buf bh (\<lambda>h. h\<lparr>b_dev := ucast dev, b_blocknr := block\<rparr>) s)) (\<lambda>_ s.
         Ret bh s))"

text \<open>\<open>getblk\<close>; \<open>n\<close> bounds the repetitions. It does not return NULL.\<close>

fun getblk_loop ::
  "(u32 \<Rightarrow> 'a fs_state_scheme \<Rightarrow> ('a fs_state_scheme, unit) outcome) \<Rightarrow>
   'a fs_state_scheme kernel_env \<Rightarrow> nat \<Rightarrow> u32 \<Rightarrow> u32 \<Rightarrow> 'a fs_state_scheme \<Rightarrow> ('a fs_state_scheme, nat) outcome" where
  "getblk_loop sync K 0 dev block s = Hang"
| "getblk_loop sync K (Suc n) dev block s =
     andThen (get_hash_table K dev block s) (\<lambda>r s.
       case r of
         Some bh \<Rightarrow> Ret bh s
       | None \<Rightarrow>
           andThen (scan_free_list (bound K) (free_list s) None s) (\<lambda>r s.
             case r of
               None \<Rightarrow>
                 andThen (sleep_on (bound K) (others K) buffer_wait (\<lambda>p s. s\<lparr>buffer_wait := p\<rparr>) s)
                   (\<lambda>_ s. getblk_loop sync K n dev block s)
             | Some bh \<Rightarrow>
                 andThen (wait_on_buffer K bh s) (\<lambda>_ s.
                   if b_count (bufs s bh) \<noteq> 0 then getblk_loop sync K n dev block s
                   else andThen (clean_buffer sync K (bound K) bh s) (\<lambda>clean s.
                     if \<not> clean then getblk_loop sync K n dev block s
                     else andThen (find_buffer K dev block s) (\<lambda>r s.
                       if r \<noteq> None then getblk_loop sync K n dev block s
                       else take_buffer dev block bh s)))))"

definition getblk_with ::
  "(u32 \<Rightarrow> 'a fs_state_scheme \<Rightarrow> ('a fs_state_scheme, unit) outcome) \<Rightarrow>
   'a fs_state_scheme kernel_env \<Rightarrow> u32 \<Rightarrow> u32 \<Rightarrow> 'a fs_state_scheme \<Rightarrow> ('a fs_state_scheme, nat) outcome" where
  "getblk_with sync K dev block s = getblk_loop sync K (bound K) dev block s"

section \<open>Releasing and reading\<close>

definition brelse ::
  "'a fs_state_scheme kernel_env \<Rightarrow> nat option \<Rightarrow> 'a fs_state_scheme \<Rightarrow> ('a fs_state_scheme, unit) outcome" where
  "brelse K buf s =
     (case buf of
        None \<Rightarrow> Ret () s
      | Some b \<Rightarrow>
          andThen (wait_on_buffer K b s) (\<lambda>_ s.
            let c = b_count (bufs s b);
                s = upd_buf b (\<lambda>h. h\<lparr>b_count := b_count h - 1\<rparr>) s in
            if c = 0 then Panic ''Trying to free free buffer'' s
            else Ret () (wake_up buffer_wait s)))"

definition bread_with ::
  "(u32 \<Rightarrow> 'a fs_state_scheme \<Rightarrow> ('a fs_state_scheme, unit) outcome) \<Rightarrow>
   'a fs_state_scheme kernel_env \<Rightarrow> u32 \<Rightarrow> u32 \<Rightarrow> 'a fs_state_scheme \<Rightarrow> ('a fs_state_scheme, nat option) outcome" where
  "bread_with sync K dev block s =
     andThen (getblk_with sync K dev block s) (\<lambda>bh s.
       if b_uptodate (bufs s bh) \<noteq> 0 then Ret (Some bh) s
       else andThen (ll_rw_block K READ bh s) (\<lambda>_ s.
         andThen (wait_on_buffer K bh s) (\<lambda>_ s.
           if b_uptodate (bufs s bh) \<noteq> 0 then Ret (Some bh) s
           else andThen (brelse K (Some bh) s) (\<lambda>_ s. Ret None s))))"

text \<open>A dirty buffer of \<open>dev\<close> is written out, one round of the loops of \<open>sync_dev\<close>.\<close>

definition flush_buffer ::
  "'a fs_state_scheme kernel_env \<Rightarrow> u32 \<Rightarrow> nat \<Rightarrow> 'a fs_state_scheme \<Rightarrow> ('a fs_state_scheme, unit) outcome" where
  "flush_buffer K dev b s =
     (if ucast (b_dev (bufs s b)) \<noteq> dev then Ret () s
      else andThen (wait_on_buffer K b s) (\<lambda>_ s.
        if ucast (b_dev (bufs s b)) = dev \<and> b_dirt (bufs s b) \<noteq> 0 then ll_rw_block K WRITE b s else Ret () s))"

definition invalidate_buffers ::
  "'a fs_state_scheme kernel_env \<Rightarrow> u32 \<Rightarrow> 'a fs_state_scheme \<Rightarrow> ('a fs_state_scheme, unit) outcome" where
  "invalidate_buffers K dev s =
     each (\<lambda>b s.
       if ucast (b_dev (bufs s b)) \<noteq> dev then Ret () s
       else andThen (wait_on_buffer K b s) (\<lambda>_ s. Ret ()
         (if ucast (b_dev (bufs s b)) = dev then upd_buf b (\<lambda>h. h\<lparr>b_uptodate := 0, b_dirt := 0\<rparr>) s else s)))
       [0..<nr_buffers s] s"

section \<open>Setting up\<close>

text \<open>
  \<open>buffer_init\<close>: from the end of buffer memory down, every block below which a buffer head still fits
  gets one, leaving out the addresses from 0xA0000 to 0x100000. \<open>b\<close> is the block before the
  decrement, \<open>h\<close> the number of buffer heads so far.
\<close>

fun init_buffers :: "nat \<Rightarrow> u32 \<Rightarrow> nat \<Rightarrow> 'a fs_state_scheme \<Rightarrow> ('a fs_state_scheme, nat) outcome" where
  "init_buffers 0 b h s = Hang"
| "init_buffers (Suc n) b h s =
     (let b = b - 1024 in
      if bh_addr (h + 1) s \<le> b then
        let s = upd_buf h (\<lambda>x. x\<lparr>b_dev := 0, b_dirt := 0, b_count := 0, b_lock := 0, b_uptodate := 0, b_wait := 0,
                  b_next := None, b_prev := None, b_addr := b, b_prev_free := (if h = 0 then None else Some (h - 1)),
                  b_next_free := Some (h + 1)\<rparr>) s;
            s = s\<lparr>nr_buffers := nr_buffers s + 1\<rparr>
        in init_buffers n (if b = 0x100000 then 0xA0000 else b) (h + 1) s
      else Ret h s)"

definition buffer_init :: "nat \<Rightarrow> u32 \<Rightarrow> 'a fs_state_scheme \<Rightarrow> ('a fs_state_scheme, unit) outcome" where
  "buffer_init n buffer_end s =
     andThen (init_buffers n (if buffer_end = 0x100000 then 0xA0000 else buffer_end) 0 s) (\<lambda>h s.
       let s = s\<lparr>free_list := Some 0\<rparr>;
           s = upd_buf 0 (\<lambda>x. x\<lparr>b_prev_free := Some (h - 1)\<rparr>) s;
           s = upd_buf (h - 1) (\<lambda>x. x\<lparr>b_next_free := Some 0\<rparr>) s
       in Ret () (s\<lparr>hash_table := (\<lambda>_. None)\<rparr>))"

end
