(* ===== verification/Sync.thy ===== *)
theory Sync
  imports Buffer
begin

text \<open>
  Writing inodes and buffers out: the locks and the disk format of inodes (\<^verbatim>\<open>fs/inode.c\<close>), the lookup
  of super blocks (\<^verbatim>\<open>fs/super.c\<close>), \<open>sync_dev\<close>, and with it the final \<open>getblk\<close>, \<open>bread\<close>, \<open>breada\<close> and
  \<open>bread_page\<close> of \<^verbatim>\<open>fs/buffer.c\<close>.
\<close>

section \<open>Locks\<close>

definition inode_wait :: "nat \<Rightarrow> 'a fs_state_scheme \<Rightarrow> u32" where
  "inode_wait i s = i_wait (inode_table s i)"

definition set_inode_wait :: "nat \<Rightarrow> u32 \<Rightarrow> 'a fs_state_scheme \<Rightarrow> 'a fs_state_scheme" where
  "set_inode_wait i p s = upd_inode i (\<lambda>n. n\<lparr>i_wait := p\<rparr>) s"

definition inode_locked :: "nat \<Rightarrow> 'a fs_state_scheme \<Rightarrow> bool" where
  "inode_locked i s \<longleftrightarrow> i_lock (inode_table s i) \<noteq> 0"

definition wait_on_inode ::
  "'a fs_state_scheme kernel_env \<Rightarrow> nat \<Rightarrow> 'a fs_state_scheme \<Rightarrow> ('a fs_state_scheme, unit) outcome" where
  "wait_on_inode K i s = wait_while K (bound K) (inode_locked i) (inode_wait i) (set_inode_wait i) s"

definition lock_inode ::
  "'a fs_state_scheme kernel_env \<Rightarrow> nat \<Rightarrow> 'a fs_state_scheme \<Rightarrow> ('a fs_state_scheme, unit) outcome" where
  "lock_inode K i s =
     andThen (wait_while K (bound K) (inode_locked i) (inode_wait i) (set_inode_wait i) s)
       (\<lambda>_ s. Ret () (upd_inode i (\<lambda>n. n\<lparr>i_lock := 1\<rparr>) s))"

definition unlock_inode :: "nat \<Rightarrow> 'a fs_state_scheme \<Rightarrow> 'a fs_state_scheme" where
  "unlock_inode i s = wake_up (inode_wait i) (upd_inode i (\<lambda>n. n\<lparr>i_lock := 0\<rparr>) s)"

definition super_wait :: "nat \<Rightarrow> 'a fs_state_scheme \<Rightarrow> u32" where
  "super_wait i s = s_wait (super_block s i)"

definition set_super_wait :: "nat \<Rightarrow> u32 \<Rightarrow> 'a fs_state_scheme \<Rightarrow> 'a fs_state_scheme" where
  "set_super_wait i p s = upd_super i (\<lambda>n. n\<lparr>s_wait := p\<rparr>) s"

definition super_locked :: "nat \<Rightarrow> 'a fs_state_scheme \<Rightarrow> bool" where
  "super_locked i s \<longleftrightarrow> s_lock (super_block s i) \<noteq> 0"

definition lock_super ::
  "'a fs_state_scheme kernel_env \<Rightarrow> nat \<Rightarrow> 'a fs_state_scheme \<Rightarrow> ('a fs_state_scheme, unit) outcome" where
  "lock_super K i s =
     andThen (wait_while K (bound K) (super_locked i) (super_wait i) (set_super_wait i) s)
       (\<lambda>_ s. Ret () (upd_super i (\<lambda>n. n\<lparr>s_lock := 1\<rparr>) s))"

definition free_super :: "nat \<Rightarrow> 'a fs_state_scheme \<Rightarrow> 'a fs_state_scheme" where
  "free_super i s = wake_up (super_wait i) (upd_super i (\<lambda>n. n\<lparr>s_lock := 0\<rparr>) s)"

definition wait_on_super ::
  "'a fs_state_scheme kernel_env \<Rightarrow> nat \<Rightarrow> 'a fs_state_scheme \<Rightarrow> ('a fs_state_scheme, unit) outcome" where
  "wait_on_super K i s = wait_while K (bound K) (super_locked i) (super_wait i) (set_super_wait i) s"

text \<open>The loop of \<open>get_super\<close>: entry \<open>i\<close>, with \<open>n\<close> steps left.\<close>

fun get_super_loop ::
  "'a fs_state_scheme kernel_env \<Rightarrow> nat \<Rightarrow> nat \<Rightarrow> u32 \<Rightarrow> 'a fs_state_scheme \<Rightarrow> ('a fs_state_scheme, nat option) outcome" where
  "get_super_loop K 0 i dev s = Hang"
| "get_super_loop K (Suc n) i dev s =
     (if NR_SUPER \<le> i then Ret None s
      else if ucast (s_dev (super_block s i)) = dev then
        andThen (wait_on_super K i s) (\<lambda>_ s.
          if ucast (s_dev (super_block s i)) = dev then Ret (Some i) s
          else get_super_loop K n 0 dev s)
      else get_super_loop K n (i + 1) dev s)"

definition get_super ::
  "'a fs_state_scheme kernel_env \<Rightarrow> u32 \<Rightarrow> 'a fs_state_scheme \<Rightarrow> ('a fs_state_scheme, nat option) outcome" where
  "get_super K dev s = (if dev = 0 then Ret None s else get_super_loop K (bound K) 0 dev s)"

section \<open>The disk inode\<close>

text \<open>\<open>struct d_inode\<close>: the first 32 bytes of \<open>struct m_inode\<close>, little endian.\<close>

definition enc16 :: "u16 \<Rightarrow> u8 list" where
  "enc16 v = [ucast v, ucast (drop_bit 8 v)]"

definition enc32 :: "u32 \<Rightarrow> u8 list" where
  "enc32 v = [ucast v, ucast (drop_bit 8 v), ucast (drop_bit 16 v), ucast (drop_bit 24 v)]"

definition dec16 :: "(nat \<Rightarrow> u8) \<Rightarrow> nat \<Rightarrow> u16" where
  "dec16 d k = ucast (d k) OR push_bit 8 (ucast (d (k + 1)))"

definition dec32 :: "(nat \<Rightarrow> u8) \<Rightarrow> nat \<Rightarrow> u32" where
  "dec32 d k = ucast (d k) OR push_bit 8 (ucast (d (k + 1))) OR push_bit 16 (ucast (d (k + 2))) OR
     push_bit 24 (ucast (d (k + 3)))"

definition enc_inode :: "m_inode \<Rightarrow> u8 list" where
  "enc_inode n = enc16 (i_mode n) @ enc16 (i_uid n) @ enc32 (i_size n) @ enc32 (i_mtime n) @
     [i_gid n, i_nlinks n] @ concat (map (\<lambda>k. enc16 (i_zone n k)) [0..<9])"

definition dec_inode :: "(nat \<Rightarrow> u8) \<Rightarrow> nat \<Rightarrow> m_inode \<Rightarrow> m_inode" where
  "dec_inode d k n = n\<lparr>i_mode := dec16 d k, i_uid := dec16 d (k + 2), i_size := dec32 d (k + 4),
     i_mtime := dec32 d (k + 8), i_gid := d (k + 12), i_nlinks := d (k + 13),
     i_zone := (\<lambda>j. if j < 9 then dec16 d (k + 14 + 2 * j) else i_zone n j)\<rparr>"

definition put_bytes_at :: "nat \<Rightarrow> u8 list \<Rightarrow> buffer_head \<Rightarrow> buffer_head" where
  "put_bytes_at k vs h = h\<lparr>b_data := (\<lambda>i. if k \<le> i \<and> i < k + length vs then vs ! (i - k) else b_data h i)\<rparr>"

text \<open>The block of an inode, and its offset there; \<open>(i_num-1)\<close> is unsigned in these expressions.\<close>

definition inode_block :: "super_struct \<Rightarrow> m_inode \<Rightarrow> u32" where
  "inode_block sb n = 2 + ucast (s_imap_blocks sb) + ucast (s_zmap_blocks sb) + (ucast (i_num n) - 1) div 32"

definition inode_offset :: "m_inode \<Rightarrow> nat" where
  "inode_offset n = 32 * unat ((ucast (i_num n) - 1 :: u32) mod 32)"

definition write_inode_with ::
  "(u32 \<Rightarrow> 'a fs_state_scheme \<Rightarrow> ('a fs_state_scheme, unit) outcome) \<Rightarrow>
   'a fs_state_scheme kernel_env \<Rightarrow> nat \<Rightarrow> 'a fs_state_scheme \<Rightarrow> ('a fs_state_scheme, unit) outcome" where
  "write_inode_with sync K i s =
     andThen (lock_inode K i s) (\<lambda>_ s.
       if i_dirt (inode_table s i) = 0 \<or> i_dev (inode_table s i) = 0 then Ret () (unlock_inode i s)
       else andThen (get_super K (ucast (i_dev (inode_table s i))) s) (\<lambda>r s.
         case r of
           None \<Rightarrow> Panic ''trying to write inode without device'' s
         | Some sb \<Rightarrow>
             andThen (bread_with sync K (ucast (i_dev (inode_table s i)))
                 (inode_block (super_block s sb) (inode_table s i)) s) (\<lambda>r s.
               case r of
                 None \<Rightarrow> Panic ''unable to read i-node block'' s
               | Some bh \<Rightarrow>
                   let ino = inode_table s i;
                       s = upd_buf bh (put_bytes_at (inode_offset ino) (enc_inode ino)) s;
                       s = upd_buf bh (\<lambda>h. h\<lparr>b_dirt := 1\<rparr>) s;
                       s = upd_inode i (\<lambda>n. n\<lparr>i_dirt := 0\<rparr>) s
                   in andThen (brelse K (Some bh) s) (\<lambda>_ s. Ret () (unlock_inode i s)))))"

definition sync_inodes_with ::
  "(u32 \<Rightarrow> 'a fs_state_scheme \<Rightarrow> ('a fs_state_scheme, unit) outcome) \<Rightarrow>
   'a fs_state_scheme kernel_env \<Rightarrow> 'a fs_state_scheme \<Rightarrow> ('a fs_state_scheme, unit) outcome" where
  "sync_inodes_with sync K s =
     each (\<lambda>i s. andThen (wait_on_inode K i s) (\<lambda>_ s.
       if i_dirt (inode_table s i) \<noteq> 0 \<and> i_pipe (inode_table s i) = 0 then write_inode_with sync K i s
       else Ret () s)) [0..<NR_INODE] s"

section \<open>sync_dev and what rests on it\<close>

text \<open>\<open>n\<close> bounds the depth of the recursion through \<open>getblk\<close>.\<close>

primrec sync_dev_depth ::
  "'a fs_state_scheme kernel_env \<Rightarrow> nat \<Rightarrow> u32 \<Rightarrow> 'a fs_state_scheme \<Rightarrow> ('a fs_state_scheme, unit) outcome" where
  "sync_dev_depth K 0 = (\<lambda>dev s. Hang)"
| "sync_dev_depth K (Suc n) = (\<lambda>dev s.
     andThen (each (flush_buffer K dev) [0..<nr_buffers s] s) (\<lambda>_ s.
       andThen (sync_inodes_with (sync_dev_depth K n) K s) (\<lambda>_ s.
         each (flush_buffer K dev) [0..<nr_buffers s] s)))"

definition sync_dev ::
  "'a fs_state_scheme kernel_env \<Rightarrow> u32 \<Rightarrow> 'a fs_state_scheme \<Rightarrow> ('a fs_state_scheme, unit) outcome" where
  "sync_dev K = sync_dev_depth K (bound K)"

definition getblk ::
  "'a fs_state_scheme kernel_env \<Rightarrow> u32 \<Rightarrow> u32 \<Rightarrow> 'a fs_state_scheme \<Rightarrow> ('a fs_state_scheme, nat) outcome" where
  "getblk K = getblk_with (sync_dev K) K"

definition bread ::
  "'a fs_state_scheme kernel_env \<Rightarrow> u32 \<Rightarrow> u32 \<Rightarrow> 'a fs_state_scheme \<Rightarrow> ('a fs_state_scheme, nat option) outcome" where
  "bread K = bread_with (sync_dev K) K"

definition write_inode ::
  "'a fs_state_scheme kernel_env \<Rightarrow> nat \<Rightarrow> 'a fs_state_scheme \<Rightarrow> ('a fs_state_scheme, unit) outcome" where
  "write_inode K = write_inode_with (sync_dev K) K"

definition sync_inodes :: "'a fs_state_scheme kernel_env \<Rightarrow> 'a fs_state_scheme \<Rightarrow> ('a fs_state_scheme, unit) outcome" where
  "sync_inodes K = sync_inodes_with (sync_dev K) K"

definition sys_sync :: "'a fs_state_scheme kernel_env \<Rightarrow> 'a fs_state_scheme \<Rightarrow> ('a fs_state_scheme, int) outcome" where
  "sys_sync K s =
     andThen (sync_inodes K s) (\<lambda>_ s.
       andThen (each (\<lambda>b s. andThen (wait_on_buffer K b s) (\<lambda>_ s.
           if b_dirt (bufs s b) \<noteq> 0 then ll_rw_block K WRITE b s else Ret () s)) [0..<nr_buffers s] s)
         (\<lambda>_ s. Ret 0 s))"

text \<open>\<open>breada\<close>: \<open>bs\<close> are the blocks to read ahead. The read-ahead is asked for \<open>bh\<close>, the buffer of the
  first block, not for the buffer just found.\<close>

fun read_ahead ::
  "'a fs_state_scheme kernel_env \<Rightarrow> nat \<Rightarrow> u32 \<Rightarrow> u32 list \<Rightarrow> 'a fs_state_scheme \<Rightarrow> ('a fs_state_scheme, unit) outcome" where
  "read_ahead K bh dev [] s = Ret () s"
| "read_ahead K bh dev (b # bs) s =
     andThen (getblk K dev b s) (\<lambda>tmp s.
       andThen (if b_uptodate (bufs s tmp) = 0 then ll_rw_block K READA bh s else Ret () s) (\<lambda>_ s.
         read_ahead K bh dev bs (upd_buf tmp (\<lambda>h. h\<lparr>b_count := b_count h - 1\<rparr>) s)))"

definition breada ::
  "'a fs_state_scheme kernel_env \<Rightarrow> u32 \<Rightarrow> u32 \<Rightarrow> u32 list \<Rightarrow> 'a fs_state_scheme \<Rightarrow> ('a fs_state_scheme, nat option) outcome" where
  "breada K dev first bs s =
     andThen (getblk K dev first s) (\<lambda>bh s.
       andThen (if b_uptodate (bufs s bh) = 0 then ll_rw_block K READ bh s else Ret () s) (\<lambda>_ s.
         andThen (read_ahead K bh dev bs s) (\<lambda>_ s.
           andThen (wait_on_buffer K bh s) (\<lambda>_ s.
             if b_uptodate (bufs s bh) \<noteq> 0 then Ret (Some bh) s
             else andThen (brelse K (Some bh) s) (\<lambda>_ s. Ret None s)))))"

text \<open>\<open>bread_page\<close>: the four buffers are all asked for before the first is waited for.\<close>

fun start_reads ::
  "'a fs_state_scheme kernel_env \<Rightarrow> u32 \<Rightarrow> u32 list \<Rightarrow> 'a fs_state_scheme \<Rightarrow> ('a fs_state_scheme, nat option list) outcome" where
  "start_reads K dev [] s = Ret [] s"
| "start_reads K dev (b # bs) s =
     andThen
       (if b = 0 then Ret None s
        else andThen (getblk K dev b s) (\<lambda>bh s.
          andThen (if b_uptodate (bufs s bh) = 0 then ll_rw_block K READ bh s else Ret () s) (\<lambda>_ s. Ret (Some bh) s)))
       (\<lambda>r s. andThen (start_reads K dev bs s) (\<lambda>rs s. Ret (r # rs) s))"

definition COPYBLK :: "nat \<Rightarrow> u32 \<Rightarrow> 'a fs_state_scheme \<Rightarrow> 'a fs_state_scheme" where
  "COPYBLK bh to s = put_kbytes to (read_block bh BLOCK_SIZE s) s"

fun copy_reads ::
  "'a fs_state_scheme kernel_env \<Rightarrow> u32 \<Rightarrow> nat option list \<Rightarrow> 'a fs_state_scheme \<Rightarrow> ('a fs_state_scheme, unit) outcome" where
  "copy_reads K address [] s = Ret () s"
| "copy_reads K address (r # rs) s =
     andThen
       (case r of
          None \<Rightarrow> Ret () s
        | Some bh \<Rightarrow>
            andThen (wait_on_buffer K bh s) (\<lambda>_ s.
              brelse K (Some bh) (if b_uptodate (bufs s bh) \<noteq> 0 then COPYBLK bh address s else s)))
       (\<lambda>_ s. copy_reads K (address + 1024) rs s)"

definition bread_page ::
  "'a fs_state_scheme kernel_env \<Rightarrow> u32 \<Rightarrow> u32 \<Rightarrow> u32 list \<Rightarrow> 'a fs_state_scheme \<Rightarrow> ('a fs_state_scheme, unit) outcome" where
  "bread_page K address dev b s = andThen (start_reads K dev (take 4 b) s) (\<lambda>rs s. copy_reads K address rs s)"

section \<open>Removable devices\<close>

definition invalidate_inodes ::
  "'a fs_state_scheme kernel_env \<Rightarrow> u32 \<Rightarrow> 'a fs_state_scheme \<Rightarrow> ('a fs_state_scheme, unit) outcome" where
  "invalidate_inodes K dev s =
     each (\<lambda>i s. andThen (wait_on_inode K i s) (\<lambda>_ s. Ret ()
       (if ucast (i_dev (inode_table s i)) = dev then upd_inode i (\<lambda>n. n\<lparr>i_dev := 0, i_dirt := 0\<rparr>) s else s)))
     [0..<NR_INODE] s"

definition put_super ::
  "'a fs_state_scheme kernel_env \<Rightarrow> u32 \<Rightarrow> 'a fs_state_scheme \<Rightarrow> ('a fs_state_scheme, unit) outcome" where
  "put_super K dev s =
     (if dev = ROOT_DEV s then Ret () s
      else andThen (get_super K dev s) (\<lambda>r s.
        case r of
          None \<Rightarrow> Ret () s
        | Some sb \<Rightarrow>
            if s_imount (super_block s sb) \<noteq> None then Ret () s
            else andThen (lock_super K sb s) (\<lambda>_ s.
              andThen (each (\<lambda>i s. brelse K (s_imap (super_block s sb) i) s) [0..<8]
                  (upd_super sb (\<lambda>x. x\<lparr>s_dev := 0\<rparr>) s)) (\<lambda>_ s.
                andThen (each (\<lambda>i s. brelse K (s_zmap (super_block s sb) i) s) [0..<8] s) (\<lambda>_ s.
                  Ret () (free_super sb s))))))"

definition check_disk_change ::
  "'a fs_state_scheme kernel_env \<Rightarrow> u32 \<Rightarrow> 'a fs_state_scheme \<Rightarrow> ('a fs_state_scheme, unit) outcome" where
  "check_disk_change K dev s =
     (if MAJOR dev \<noteq> 2 then Ret () s
      else let (changed, s) = floppy_change K (dev AND 3) s in
        if \<not> changed then Ret () s
        else andThen (each (\<lambda>i s. if ucast (s_dev (super_block s i)) = dev
                                  then put_super K (ucast (s_dev (super_block s i))) s else Ret () s) [0..<NR_SUPER] s) (\<lambda>_ s.
          andThen (invalidate_inodes K dev s) (\<lambda>_ s. invalidate_buffers K dev s)))"

end
