(* ===== verification/Pipe.thy ===== *)
theory Pipe
  imports Sync
begin

text \<open>
  \<^verbatim>\<open>fs/pipe.c\<close>: reading and writing a pipe, a circular buffer of 4095 bytes in one page frame, whose
  head and tail are the first two zone fields of its inode, and whose frame is in \<open>i_size\<close>; and the
  system call that makes one.
\<close>

section \<open>The circular buffer (fs.h)\<close>

definition PIPE_HEAD :: "m_inode \<Rightarrow> u16" where
  "PIPE_HEAD inode = i_zone inode 0"

definition PIPE_TAIL :: "m_inode \<Rightarrow> u16" where
  "PIPE_TAIL inode = i_zone inode 1"

definition PIPE_SIZE :: "m_inode \<Rightarrow> u32" where
  "PIPE_SIZE inode = (ucast (PIPE_HEAD inode) - ucast (PIPE_TAIL inode)) AND (PAGE_SIZE - 1)"

definition PIPE_EMPTY :: "m_inode \<Rightarrow> bool" where
  "PIPE_EMPTY inode \<longleftrightarrow> PIPE_HEAD inode = PIPE_TAIL inode"

definition PIPE_FULL :: "m_inode \<Rightarrow> bool" where
  "PIPE_FULL inode \<longleftrightarrow> PIPE_SIZE inode = PAGE_SIZE - 1"

text \<open>\<open>PIPE_TAIL += chars; PIPE_TAIL &= PAGE_SIZE-1\<close> on the unsigned short field \<open>k\<close>.\<close>

definition advance :: "nat \<Rightarrow> u32 \<Rightarrow> m_inode \<Rightarrow> m_inode" where
  "advance k chars inode = inode\<lparr>i_zone := (i_zone inode)(k := (i_zone inode k + ucast chars) AND 0xfff)\<rparr>"

section \<open>Reading\<close>

text \<open>\<open>while (chars-->0) put_fs_byte(((char *)inode->i_size)[size++],buf++)\<close>\<close>

fun copy_out :: "nat \<Rightarrow> u32 \<Rightarrow> u32 \<Rightarrow> 'a fs_state_scheme \<Rightarrow> 'a fs_state_scheme" where
  "copy_out 0 from buf s = s"
| "copy_out (Suc n) from buf s = copy_out n (from + 1) (buf + 1) (put_fs_byte (get_kbyte from s) buf s)"

text \<open>\<open>n\<close> bounds the iterations of the two loops together (each iteration of the outer loop moves at
  least one byte, each iteration of the inner one sleeps).\<close>

fun read_pipe ::
  "'a fs_state_scheme kernel_env \<Rightarrow> nat \<Rightarrow> nat \<Rightarrow> u32 \<Rightarrow> s32 \<Rightarrow> int \<Rightarrow> 'a fs_state_scheme \<Rightarrow>
     ('a fs_state_scheme, int) outcome" where
  "read_pipe K 0 i buf count read s = Hang"
| "read_pipe K (Suc n) i buf count read s =
     (if 0 <s count then
        let size = PIPE_SIZE (inode_table s i) in
        if size = 0 then
          let s = wake_up (inode_wait i) s in
          if i_count (inode_table s i) \<noteq> 2 then Ret read s
          else andThen (sleep_on (bound K) (others K) (inode_wait i) (set_inode_wait i) s)
                 (\<lambda>_ s. read_pipe K n i buf count read s)
        else
          let chars = PAGE_SIZE - ucast (PIPE_TAIL (inode_table s i));
              chars = (if count <s chars then count else chars);
              chars = (if size <s chars then size else chars);
              from = i_size (inode_table s i) + ucast (PIPE_TAIL (inode_table s i));
              s = upd_inode i (advance 1 chars) s
          in read_pipe K n i (buf + chars) (count - chars) (read + sint chars) (copy_out (unat chars) from buf s)
      else Ret read (wake_up (inode_wait i) s))"

section \<open>Writing\<close>

fun copy_in :: "nat \<Rightarrow> u32 \<Rightarrow> u32 \<Rightarrow> 'a fs_state_scheme \<Rightarrow> 'a fs_state_scheme" where
  "copy_in 0 to buf s = s"
| "copy_in (Suc n) to buf s = copy_in n (to + 1) (buf + 1) (put_kbyte (get_fs_byte buf s) to s)"

abbreviation (input) SIGPIPE :: int where "SIGPIPE \<equiv> 13"

fun write_pipe ::
  "'a fs_state_scheme kernel_env \<Rightarrow> nat \<Rightarrow> nat \<Rightarrow> u32 \<Rightarrow> s32 \<Rightarrow> int \<Rightarrow> 'a fs_state_scheme \<Rightarrow>
     ('a fs_state_scheme, int) outcome" where
  "write_pipe K 0 i buf count written s = Hang"
| "write_pipe K (Suc n) i buf count written s =
     (if 0 <s count then
        let size = (PAGE_SIZE - 1) - PIPE_SIZE (inode_table s i) in
        if size = 0 then
          let s = wake_up (inode_wait i) s in
          if i_count (inode_table s i) \<noteq> 2 then
            Ret (if written \<noteq> 0 then written else -1) (upd_cur (\<lambda>t. t\<lparr>signal := signal t OR sig_bit SIGPIPE\<rparr>) s)
          else andThen (sleep_on (bound K) (others K) (inode_wait i) (set_inode_wait i) s)
                 (\<lambda>_ s. write_pipe K n i buf count written s)
        else
          let chars = PAGE_SIZE - ucast (PIPE_HEAD (inode_table s i));
              chars = (if count <s chars then count else chars);
              chars = (if size <s chars then size else chars);
              to = i_size (inode_table s i) + ucast (PIPE_HEAD (inode_table s i));
              s = upd_inode i (advance 0 chars) s
          in write_pipe K n i (buf + chars) (count - chars) (written + sint chars) (copy_in (unat chars) to buf s)
      else Ret written (wake_up (inode_wait i) s))"

end
