(* ===== verification/Fs_Lemmas.thy ===== *)
theory Fs_Lemmas
  imports Fs Chains
begin

text \<open>
  Facts about the primitives of the file system that its components share: copies of kernel memory
  and what waking a process leaves alone.
\<close>

section \<open>Copies of memory\<close>

lemma put_kbytes_frame [simp]:
  "bufs (put_kbytes a vs s) = bufs s" "request (put_kbytes a vs s) = request s"
  "current_request (put_kbytes a vs s) = current_request s" "rd_start (put_kbytes a vs s) = rd_start s"
  "rd_length (put_kbytes a vs s) = rd_length s" "wait_for_request (put_kbytes a vs s) = wait_for_request s"
  by (induction vs arbitrary: a s) simp_all

lemma get_put_kbytes:
  fixes s :: "'a mm_state_scheme"
  assumes "length vs < 4294967295"
  shows "get_kbyte x (put_kbytes a vs s) = (if unat (x - a) < length vs then vs ! unat (x - a) else get_kbyte x s)"
  using assms
proof (induction vs arbitrary: a s)
  case (Cons v vs)
  then show ?case using offset_wrap [of x] offset_Suc [of x a] by (cases "x = a") simp_all
qed simp

lemma get_kbyte_fields [simp]:
  "get_kbyte a (s\<lparr>request := r\<rparr>) = get_kbyte a s" "get_kbyte a (s\<lparr>current_request := c\<rparr>) = get_kbyte a s"
  "get_kbyte a (s\<lparr>bufs := h\<rparr>) = get_kbyte a s" "get_kbyte a (s\<lparr>hash_table := t\<rparr>) = get_kbyte a s"
  "get_kbyte a (s\<lparr>free_list := l\<rparr>) = get_kbyte a s"
  by (simp_all add: get_kbyte_def)

section \<open>Waking a process\<close>

lemma wake_up_simps [simp]:
  "inode_table (wake_up g s) = inode_table s" "last_inode (wake_up g s) = last_inode s"
  "file_table (wake_up g s) = file_table s" "super_block (wake_up g s) = super_block s"
  "ROOT_DEV (wake_up g s) = ROOT_DEV s" "bufs (wake_up g s) = bufs s"
  "start_buffer (wake_up g s) = start_buffer s" "nr_buffers (wake_up g s) = nr_buffers s"
  "hash_table (wake_up g s) = hash_table s" "free_list (wake_up g s) = free_list s"
  "buffer_wait (wake_up g s) = buffer_wait s" "request (wake_up g s) = request s"
  "current_request (wake_up g s) = current_request s" "wait_for_request (wake_up g s) = wait_for_request s"
  "rd_start (wake_up g s) = rd_start s" "rd_length (wake_up g s) = rd_length s" "tty_pgrp (wake_up g s) = tty_pgrp s"
  "umem (wake_up g s) = umem s" "get_kbyte a (wake_up g s) = get_kbyte a s"
  by (simp_all add: wake_up_def)

lemma wake_up_sched_simps [simp]:
  "current (wake_up g s) = current s" "task (wake_up g s) = task s" "pmem (wake_up g s) = pmem s"
  "mem_map (wake_up g s) = mem_map s" "jiffies (wake_up g s) = jiffies s"
  by (simp_all add: wake_up_def)

end
