(* ===== verification/Fs_Examples.thy ===== *)
theory Fs_Examples
  imports Fs Process_Properties
begin

text \<open>
  A concrete state of the file system, from which the instances of the properties start: the two
  tasks of \<open>two_procs\<close>, empty tables, four free buffers in the list of free buffers; and the
  environment in which nothing else runs and no device is present.
\<close>

definition no_file :: file_struct where
  "no_file = \<lparr>f_mode = 0, f_flags = 0, f_count = 0, f_inode = None, f_pos = 0\<rparr>"

definition no_super :: super_struct where
  "no_super = \<lparr>s_ninodes = 0, s_nzones = 0, s_imap_blocks = 0, s_zmap_blocks = 0, s_firstdatazone = 0,
     s_log_zone_size = 0, s_max_size = 0, s_magic = 0, s_imap = (\<lambda>_. None), s_zmap = (\<lambda>_. None), s_dev = 0,
     s_isup = None, s_imount = None, s_time = 0, s_wait = 0, s_lock = 0, s_rd_only = 0, s_dirt = 0\<rparr>"

definition free_buf :: "nat \<Rightarrow> buffer_head" where
  "free_buf i = \<lparr>b_data = (\<lambda>_. 0), b_addr = 0x90000 + 1024 * of_nat i, b_blocknr = 0, b_dev = 0, b_uptodate = 0,
     b_dirt = 0, b_count = 0, b_lock = 0, b_wait = 0, b_prev = None, b_next = None,
     b_prev_free = Some ((i + 3) mod 4), b_next_free = Some ((i + 1) mod 4)\<rparr>"

definition no_request :: request_struct where
  "no_request = \<lparr>r_dev = -1, r_cmd = 0, r_errors = 0, r_sector = 0, r_nr_sectors = 0, r_buffer = None, r_boff = 0,
     r_waiting = 0, r_bh = None, r_next = None\<rparr>"

definition empty_fs :: fs_state where
  "empty_fs = proc_state.extend two_procs
     \<lparr>inode_table = (\<lambda>_. zero_inode), last_inode = 0, file_table = (\<lambda>_. no_file), super_block = (\<lambda>_. no_super),
      ROOT_DEV = 0x101, bufs = free_buf, start_buffer = 0x80000, nr_buffers = 4, hash_table = (\<lambda>_. None),
      free_list = Some 0, buffer_wait = 0, request = (\<lambda>_. no_request), current_request = (\<lambda>_. None),
      wait_for_request = 0, rd_start = 0, rd_length = 0,
      tty_pgrp = (\<lambda>_. 0)\<rparr>"

lemma empty_fs_simps [simp]:
  "inode_table empty_fs = (\<lambda>_. zero_inode)" "file_table empty_fs = (\<lambda>_. no_file)"
  "super_block empty_fs = (\<lambda>_. no_super)" "bufs empty_fs = free_buf" "nr_buffers empty_fs = 4"
  "hash_table empty_fs = (\<lambda>_. None)" "free_list empty_fs = Some 0" "request empty_fs = (\<lambda>_. no_request)"
  "current_request empty_fs = (\<lambda>_. None)" "wait_for_request empty_fs = 0" "rd_start empty_fs = 0"
  "rd_length empty_fs = 0" "umem empty_fs = (\<lambda>_. 0)" "current empty_fs = 0x2000" "tasks empty_fs = tasks two_tasks"
  "task empty_fs = task two_tasks" "pmem empty_fs = (\<lambda>_. 0)" "ROOT_DEV empty_fs = 0x101" "init_task empty_fs = 0x1000"
  by (simp_all add: empty_fs_def two_procs_def two_tasks_def sched_state.defs proc_state.defs)

definition quiet :: "'s kernel_env" where
  "quiet = \<lparr>bound = 100, others = id, request_fn = (\<lambda>_. None), floppy_change = (\<lambda>_ s. (False, s))\<rparr>"

lemma quiet_simps [simp]:
  "bound quiet = 100" "others quiet = id" "request_fn quiet major = None" "floppy_change quiet d s = (False, s)"
  by (simp_all add: quiet_def)

end
