(* ===== verification/Pipe_Properties.thy ===== *)
theory Pipe_Properties
  imports Pipe Fs_Lemmas Fs_Examples
begin

text \<open>
  A pipe is a first-in first-out queue of bytes: the contents of the circular buffer as a list, what
  reading and writing do to it, and the queue interface that the two operations implement.
\<close>

section \<open>Copying\<close>

lemma umem_put_fs_byte: "umem (put_fs_byte v a s) = (umem s)(a := v)"
  by (simp add: put_fs_byte_def)

lemma copy_out_frame [simp]:
  "inode_table (copy_out n from buf s) = inode_table s" "get_kbyte a (copy_out n from buf s) = get_kbyte a s"
  "current (copy_out n from buf s) = current s" "tasks (copy_out n from buf s) = tasks s"
  by (induction n arbitrary: "from" buf s) simp_all

lemma copy_out_umem:
  assumes "m < 4294967295"
  shows "umem (copy_out m from buf s) x =
    (if unat (x - buf) < m then get_kbyte (from + (x - buf)) s else umem s x)"
  using assms
proof (induction m arbitrary: "from" buf s)
  case (Suc m)
  have "from + 1 + (x - (buf + 1)) = from + (x - buf)" by simp
  then show ?case using Suc offset_wrap [of x] offset_Suc [of x buf]
    by (cases "x = buf") (simp_all add: umem_put_fs_byte)
qed simp

lemma copy_in_frame [simp]:
  "inode_table (copy_in n to buf s) = inode_table s" "umem (copy_in n to buf s) = umem s"
  "current (copy_in n to buf s) = current s" "tasks (copy_in n to buf s) = tasks s"
  by (induction n arbitrary: to buf s) simp_all

lemma copy_in_kbyte:
  assumes "m < 4294967295"
  shows "get_kbyte x (copy_in m to buf s) = (if unat (x - to) < m then umem s (buf + (x - to)) else get_kbyte x s)"
  using assms
proof (induction m arbitrary: to buf s)
  case (Suc m)
  have "buf + 1 + (x - (to + 1)) = buf + (x - to)" by simp
  then show ?case using Suc offset_wrap [of x] offset_Suc [of x to]
    by (cases "x = to") (simp_all add: get_fs_byte_def)
qed simp

section \<open>The contents of a pipe\<close>

definition pipe_ok :: "m_inode \<Rightarrow> bool" where
  "pipe_ok inode \<longleftrightarrow> unat (PIPE_HEAD inode) < 4096 \<and> unat (PIPE_TAIL inode) < 4096"

definition pipe_len :: "m_inode \<Rightarrow> nat" where
  "pipe_len inode = (unat (PIPE_HEAD inode) + 4096 - unat (PIPE_TAIL inode)) mod 4096"

definition pipe_cell :: "m_inode \<Rightarrow> nat \<Rightarrow> u32" where
  "pipe_cell inode k = i_size inode + of_nat ((unat (PIPE_TAIL inode) + k) mod 4096)"

definition pipe_bytes :: "nat \<Rightarrow> 'a fs_state_scheme \<Rightarrow> u8 list" where
  "pipe_bytes i s = map (\<lambda>k. get_kbyte (pipe_cell (inode_table s i) k) s) [0..<pipe_len (inode_table s i)]"

lemma length_pipe_bytes [simp]: "length (pipe_bytes i s) = pipe_len (inode_table s i)"
  by (simp add: pipe_bytes_def)

lemma pipe_len_bound: "pipe_len inode < 4096"
  by (simp add: pipe_len_def)

lemma PIPE_SIZE_len: "pipe_ok inode \<Longrightarrow> unat (PIPE_SIZE inode) = pipe_len inode"
  using unat_ring_diff [of "ucast (PIPE_HEAD inode)" "ucast (PIPE_TAIL inode)"]
  by (simp add: PIPE_SIZE_def pipe_ok_def pipe_len_def)

text \<open>What a pipe keeps while only its head, tail and wait queue change.\<close>

definition same_pipe :: "m_inode \<Rightarrow> m_inode \<Rightarrow> bool" where
  "same_pipe a b \<longleftrightarrow> i_size b = i_size a \<and> i_count b = i_count a \<and> i_pipe b = i_pipe a \<and> pipe_ok b"

lemma wake_up_pipe [simp]: "pipe_bytes i (wake_up g s) = pipe_bytes i s"
  by (simp add: pipe_bytes_def)

lemma advance_simps [simp]:
  "i_size (advance k c n) = i_size n" "i_count (advance k c n) = i_count n" "i_pipe (advance k c n) = i_pipe n"
  by (simp_all add: advance_def)

lemma advance_index:
  assumes "unat (i_zone n k) < 4096" and "unat c \<le> 4096"
  shows "unat (i_zone (advance k c n) k) = (unat (i_zone n k) + unat c) mod 4096"
proof -
  have "unat (ucast c :: u16) = unat c" using assms(2) by (simp add: unsigned_ucast_eq take_bit_nat_def)
  then have "unat (i_zone n k + ucast c) = unat (i_zone n k) + unat c"
    using assms by (simp add: unat_word_ariths)
  then show ?thesis by (simp add: advance_def and_fff)
qed

lemma advance_other: "k \<noteq> k' \<Longrightarrow> i_zone (advance k c n) k' = i_zone n k'"
  by (simp add: advance_def)

section \<open>One round of each loop\<close>

text \<open>The number of bytes a round moves: up to the end of the page, of the request and of the buffer.\<close>

definition chunk :: "u32 \<Rightarrow> u32 \<Rightarrow> u32 \<Rightarrow> u32" where
  "chunk pos cnt sz = (let chars = PAGE_SIZE - pos; chars = (if cnt <s chars then cnt else chars) in
     (if sz <s chars then sz else chars))"

lemma unat_chunk:
  assumes "unat pos < 4096" and "unat cnt < 2147483648" and "unat sz < 4096"
  shows "unat (chunk pos cnt sz) = min (min (4096 - unat pos) (unat cnt)) (unat sz)"
proof -
  have p: "unat (4096 - pos) = 4096 - unat pos" using assms(1) by (simp add: sub_word_nat)
  have c: "unat (if cnt <s 4096 - pos then cnt else 4096 - pos) = min (4096 - unat pos) (unat cnt)"
    using assms p by (subst unat_min) simp_all
  show ?thesis unfolding chunk_def Let_def using assms c by (subst unat_min) simp_all
qed

lemma pipe_ok_bytes: "pipe_bytes i s ! d = get_kbyte (pipe_cell (inode_table s i) d) s" if "d < pipe_len (inode_table s i)"
  using that by (simp add: pipe_bytes_def)

text \<open>What a round of \<open>read_pipe\<close> that moves \<open>m\<close> bytes leaves.\<close>

lemma read_round:
  fixes buf :: u32 and i :: nat
  assumes ok: "pipe_ok (inode_table s i)" and m: "m = unat chars" "m \<le> pipe_len (inode_table s i)"
    and wrap: "m \<le> 4096 - unat (PIPE_TAIL (inode_table s i))"
  defines "ino \<equiv> inode_table s i"
  defines "s' \<equiv> copy_out m (i_size ino + ucast (PIPE_TAIL ino)) buf (upd_inode i (advance 1 chars) s)"
  shows "same_pipe ino (inode_table s' i)" and "pipe_bytes i s' = drop m (pipe_bytes i s)"
    and "umem s' x = (if unat (x - buf) < m then pipe_bytes i s ! unat (x - buf) else umem s x)"
    and "current s' = current s" and "tasks s' = tasks s" and "\<And>k. k \<noteq> i \<Longrightarrow> inode_table s' k = inode_table s k"
proof -
  let ?h = "unat (PIPE_HEAD ino)" and ?t = "unat (PIPE_TAIL ino)"
  have ht: "?h < 4096" "?t < 4096" using ok by (simp_all add: pipe_ok_def ino_def)
  have ino': "inode_table s' i = advance 1 chars ino" by (simp add: s'_def ino_def)
  have m4: "m < 4096" using m(2) pipe_len_bound [of "inode_table s i"] by simp
  have t': "unat (PIPE_TAIL (advance 1 chars ino)) = (?t + m) mod 4096"
    using advance_index [of ino 1 chars] ht m m4 by (simp add: PIPE_TAIL_def)
  have h': "PIPE_HEAD (advance 1 chars ino) = PIPE_HEAD ino" by (simp add: PIPE_HEAD_def advance_other)
  show "same_pipe ino (inode_table s' i)" using ht t' h' by (simp add: ino' same_pipe_def pipe_ok_def)
  have len': "pipe_len (inode_table s' i) = pipe_len ino - m"
    unfolding ino' pipe_len_def h' t' using ht m(2) by (intro ring_drop) (simp_all add: pipe_len_def ino_def)
  have cell': "pipe_cell (inode_table s' i) k = pipe_cell ino (m + k)" for k
    unfolding ino' pipe_cell_def t' by (simp add: add.assoc mod_add_left_eq)
  have kb: "get_kbyte a s' = get_kbyte a s" for a by (simp add: s'_def)
  show "pipe_bytes i s' = drop m (pipe_bytes i s)"
    using m(2) by (intro nth_equalityI) (simp_all add: len' ino_def pipe_bytes_def cell' kb less_diff_conv add.commute flip: ino_def)
  show "umem s' x = (if unat (x - buf) < m then pipe_bytes i s ! unat (x - buf) else umem s x)"
  proof (cases "unat (x - buf) < m")
    case True
    then have "pipe_cell ino (unat (x - buf)) = i_size ino + ucast (PIPE_TAIL ino) + (x - buf)"
      using wrap ht by (simp add: pipe_cell_def ino_def flip: ino_def)
    then show ?thesis using True m4 m(2) pipe_ok_bytes [of "unat (x - buf)" s i]
      by (simp add: s'_def copy_out_umem ino_def flip: ino_def)
  next
    case False
    then show ?thesis using m4 by (simp add: s'_def copy_out_umem)
  qed
  show "current s' = current s" "tasks s' = tasks s" "\<And>k. k \<noteq> i \<Longrightarrow> inode_table s' k = inode_table s k"
    by (simp_all add: s'_def)
qed

text \<open>What a round of \<open>write_pipe\<close> that moves \<open>m\<close> bytes leaves.\<close>

lemma write_round:
  fixes buf :: u32 and i :: nat
  assumes ok: "pipe_ok (inode_table s i)" and m: "m = unat chars" "pipe_len (inode_table s i) + m < 4096"
    and wrap: "m \<le> 4096 - unat (PIPE_HEAD (inode_table s i))"
  defines "ino \<equiv> inode_table s i"
  defines "s' \<equiv> copy_in m (i_size ino + ucast (PIPE_HEAD ino)) buf (upd_inode i (advance 0 chars) s)"
  shows "same_pipe ino (inode_table s' i)"
    and "pipe_bytes i s' = pipe_bytes i s @ map (\<lambda>k. umem s (buf + of_nat k)) [0..<m]"
    and "umem s' = umem s" and "current s' = current s" and "tasks s' = tasks s"
    and "\<And>k. k \<noteq> i \<Longrightarrow> inode_table s' k = inode_table s k"
proof -
  let ?h = "unat (PIPE_HEAD ino)" and ?t = "unat (PIPE_TAIL ino)"
  have ht: "?h < 4096" "?t < 4096" using ok by (simp_all add: pipe_ok_def ino_def)
  have ino': "inode_table s' i = advance 0 chars ino" by (simp add: s'_def ino_def)
  have m4: "m < 4096" using m(2) by simp
  have h': "unat (PIPE_HEAD (advance 0 chars ino)) = (?h + m) mod 4096"
    using advance_index [of ino 0 chars] ht m m4 by (simp add: PIPE_HEAD_def)
  have t': "PIPE_TAIL (advance 0 chars ino) = PIPE_TAIL ino" by (simp add: PIPE_TAIL_def advance_other)
  show "same_pipe ino (inode_table s' i)" using ht t' h' by (simp add: ino' same_pipe_def pipe_ok_def)
  have len': "pipe_len (inode_table s' i) = pipe_len ino + m"
    unfolding ino' pipe_len_def h' t' using ht m(2) by (intro ring_add) (simp_all add: pipe_len_def ino_def)
  have cell': "pipe_cell (inode_table s' i) k = pipe_cell ino k" for k
    unfolding ino' pipe_cell_def t' by simp
  have new: "pipe_cell ino (pipe_len ino + j) = i_size ino + ucast (PIPE_HEAD ino) + of_nat j" if "j < m" for j
  proof -
    have "(?t + (pipe_len ino + j)) mod 4096 = ?h + j"
      using ring_shift [OF ht(2), of ?h j] wrap ht that by (simp add: pipe_len_def flip: ino_def)
    then show ?thesis by (simp add: pipe_cell_def)
  qed
  have kb: "get_kbyte a s' = (if unat (a - (i_size ino + ucast (PIPE_HEAD ino))) < m
      then umem s (buf + (a - (i_size ino + ucast (PIPE_HEAD ino)))) else get_kbyte a s)" for a
    using m4 by (simp add: s'_def copy_in_kbyte)
  have keep: "get_kbyte (pipe_cell ino k) s' = get_kbyte (pipe_cell ino k) s" if k: "k < pipe_len ino" for k
  proof -
    let ?a = "(?t + k) mod 4096"
    have d: "pipe_cell ino k - (i_size ino + ucast (PIPE_HEAD ino)) = of_nat ?a - ucast (PIPE_HEAD ino)"
      by (simp add: pipe_cell_def)
    have a: "?a < 4096" by simp
    have "unat (of_nat ?a :: u32) = ?a" using a by (intro unat_of_nat_u32) simp
    then have u: "unat (of_nat ?a - ucast (PIPE_HEAD ino) :: u32) = (if ?h \<le> ?a then ?a - ?h else ?a + 4294967296 - ?h)"
      by (simp add: sub_word_nat)
    have "\<not> unat (of_nat ?a - ucast (PIPE_HEAD ino) :: u32) < m"
    proof
      assume lt: "unat (of_nat ?a - ucast (PIPE_HEAD ino) :: u32) < m"
      then have ge: "?h \<le> ?a" using u ht m4 by (auto split: if_splits)
      define j where "j = ?a - ?h"
      have j: "j < m" "?a = ?h + j" using lt u ge by (auto simp: j_def)
      have "?h + j = (?t + (pipe_len ino + j)) mod 4096"
        using ring_shift [OF ht(2), of ?h j] j wrap ht by (simp add: pipe_len_def flip: ino_def)
      then have "(?t + k) mod 4096 = (?t + (pipe_len ino + j)) mod 4096" using j(2) by simp
      then have "k = pipe_len ino + j" using k j(1) m(2) by (elim ring_inj) (simp_all add: ino_def)
      then show False using k by simp
    qed
    then show ?thesis by (simp only: kb d if_False)
  qed
  show "pipe_bytes i s' = pipe_bytes i s @ map (\<lambda>k. umem s (buf + of_nat k)) [0..<m]"
  proof (intro nth_equalityI)
    fix k assume "k < length (pipe_bytes i s')"
    then have k: "k < pipe_len ino + m" by (simp add: len')
    show "pipe_bytes i s' ! k = (pipe_bytes i s @ map (\<lambda>k. umem s (buf + of_nat k)) [0..<m]) ! k"
    proof (cases "k < pipe_len ino")
      case True
      then show ?thesis using k keep by (simp add: nth_append pipe_bytes_def len' cell' ino_def)
    next
      case False
      then obtain j where j: "k = pipe_len ino + j" "j < m" using k
        by (metis add_diff_inverse_nat add_less_cancel_left)
      have "unat (of_nat j :: u32) = j" using j m4 by (intro unat_of_nat_u32) simp
      then show ?thesis using j new
        by (simp add: nth_append pipe_bytes_def len' cell' kb flip: ino_def)
    qed
  qed (simp add: len' flip: ino_def)
  show "umem s' = umem s" "current s' = current s" "tasks s' = tasks s" "\<And>k. k \<noteq> i \<Longrightarrow> inode_table s' k = inode_table s k"
    by (simp_all add: s'_def)
qed

section \<open>The loops\<close>

lemma read_pipe_Suc:
  "read_pipe K (Suc n) i buf count r s =
     (if 0 <s count then
        if PIPE_SIZE (inode_table s i) = 0 then
          if i_count (inode_table s i) \<noteq> 2 then Ret r (wake_up (inode_wait i) s)
          else andThen (sleep_on (bound K) (others K) (inode_wait i) (set_inode_wait i) (wake_up (inode_wait i) s))
                 (\<lambda>_ s. read_pipe K n i buf count r s)
        else
          let c = chunk (ucast (PIPE_TAIL (inode_table s i))) count (PIPE_SIZE (inode_table s i)) in
          read_pipe K n i (buf + c) (count - c) (r + sint c)
            (copy_out (unat c) (i_size (inode_table s i) + ucast (PIPE_TAIL (inode_table s i))) buf (upd_inode i (advance 1 c) s))
      else Ret r (wake_up (inode_wait i) s))"
  by (simp add: chunk_def Let_def)

lemma write_pipe_Suc:
  "write_pipe K (Suc n) i buf count r s =
     (if 0 <s count then
        if PAGE_SIZE - 1 - PIPE_SIZE (inode_table s i) = 0 then
          if i_count (inode_table s i) \<noteq> 2 then
            Ret (if r \<noteq> 0 then r else -1)
              (upd_cur (\<lambda>t. t\<lparr>signal := signal t OR sig_bit SIGPIPE\<rparr>) (wake_up (inode_wait i) s))
          else andThen (sleep_on (bound K) (others K) (inode_wait i) (set_inode_wait i) (wake_up (inode_wait i) s))
                 (\<lambda>_ s. write_pipe K n i buf count r s)
        else
          let c = chunk (ucast (PIPE_HEAD (inode_table s i))) count (PAGE_SIZE - 1 - PIPE_SIZE (inode_table s i)) in
          write_pipe K n i (buf + c) (count - c) (r + sint c)
            (copy_in (unat c) (i_size (inode_table s i) + ucast (PIPE_HEAD (inode_table s i))) buf (upd_inode i (advance 0 c) s))
      else Ret r (wake_up (inode_wait i) s))"
  by (simp add: chunk_def Let_def)

lemmas pipe_loops = read_pipe.simps write_pipe.simps
declare pipe_loops [simp del]

lemma same_pipe_trans: "same_pipe a b \<Longrightarrow> same_pipe b c \<Longrightarrow> same_pipe a c"
  by (simp add: same_pipe_def)

lemma read_pipe_run:
  assumes "pipe_ok (inode_table s i)" and "unat count < 2147483648" and "unat count < n"
    and "unat count \<le> pipe_len (inode_table s i) \<or> i_count (inode_table s i) \<noteq> 2"
    and "m = min (unat count) (pipe_len (inode_table s i))"
  shows "\<exists>s'. read_pipe K n i buf count r s = Ret (r + int m) s' \<and> same_pipe (inode_table s i) (inode_table s' i) \<and>
     pipe_bytes i s' = drop m (pipe_bytes i s) \<and>
     (\<forall>x. umem s' x = (if unat (x - buf) < m then pipe_bytes i s ! unat (x - buf) else umem s x))"
  using assms
proof (induction n arbitrary: count buf r s m)
  case (Suc n)
  let ?ino = "inode_table s i"
  have psz: "unat (PIPE_SIZE ?ino) = pipe_len ?ino" using Suc.prems(1) by (rule PIPE_SIZE_len)
  show ?case
  proof (cases "0 < unat count \<and> 0 < pipe_len ?ino")
    case False
    then have "m = 0" using Suc.prems(5) by auto
    moreover have "PIPE_SIZE ?ino = 0 \<longleftrightarrow> pipe_len ?ino = 0" using psz by (metis unat_eq_zero)
    ultimately show ?thesis using Suc.prems False
      by (auto simp: read_pipe_Suc pos_sint same_pipe_def)
  next
    case True
    define c where "c = chunk (ucast (PIPE_TAIL ?ino)) count (PIPE_SIZE ?ino)"
    have t: "unat (PIPE_TAIL ?ino) < 4096" using Suc.prems(1) by (simp add: pipe_ok_def)
    have c: "unat c = min (min (4096 - unat (PIPE_TAIL ?ino)) (unat count)) (pipe_len ?ino)"
      using unat_chunk [of "ucast (PIPE_TAIL ?ino)" count "PIPE_SIZE ?ino"] t psz Suc.prems(2) pipe_len_bound [of ?ino]
      by (simp add: c_def)
    have c0: "0 < unat c" "unat c \<le> unat count" "unat c \<le> pipe_len ?ino" "unat c < 2147483648"
      using True t c Suc.prems(2) by auto
    have cw: "unat c \<le> 4096 - unat (PIPE_TAIL ?ino)" using c by simp
    define s1 where "s1 = copy_out (unat c) (i_size ?ino + ucast (PIPE_TAIL ?ino)) buf (upd_inode i (advance 1 c) s)"
    have round: "same_pipe ?ino (inode_table s1 i)" "pipe_bytes i s1 = drop (unat c) (pipe_bytes i s)"
      "\<And>x. umem s1 x = (if unat (x - buf) < unat c then pipe_bytes i s ! unat (x - buf) else umem s x)"
      using read_round [where buf = buf, OF Suc.prems(1) refl c0(3) cw] unfolding s1_def by blast+
    have len1: "pipe_len (inode_table s1 i) = pipe_len ?ino - unat c" using round(2) by (metis length_drop length_pipe_bytes)
    have cnt: "unat (count - c) = unat count - unat c" using c0 by (simp add: sub_word_nat)
    have "\<exists>s'. read_pipe K n i (buf + c) (count - c) (r + sint c) s1 = Ret (r + sint c + int (m - unat c)) s' \<and>
        same_pipe (inode_table s1 i) (inode_table s' i) \<and> pipe_bytes i s' = drop (m - unat c) (pipe_bytes i s1) \<and>
        (\<forall>x. umem s' x = (if unat (x - (buf + c)) < m - unat c then pipe_bytes i s1 ! unat (x - (buf + c)) else umem s1 x))"
      using Suc.prems c0 round(1) by (intro Suc.IH) (auto simp: cnt len1 same_pipe_def)
    then obtain s' where s': "read_pipe K n i (buf + c) (count - c) (r + sint c) s1 = Ret (r + sint c + int (m - unat c)) s'"
        "same_pipe (inode_table s1 i) (inode_table s' i)" "pipe_bytes i s' = drop (m - unat c) (pipe_bytes i s1)"
        "\<And>x. umem s' x = (if unat (x - (buf + c)) < m - unat c then pipe_bytes i s1 ! unat (x - (buf + c)) else umem s1 x)"
      by blast
    have cm: "unat c \<le> m" using Suc.prems(5) c0 by simp
    have m32: "m < 2147483648" using Suc.prems(2,5) by simp
    have g: "0 <s count" "PIPE_SIZE ?ino \<noteq> 0" using True Suc.prems(2) psz by (auto simp: pos_sint)
    have "read_pipe K (Suc n) i buf count r s = read_pipe K n i (buf + c) (count - c) (r + sint c) s1"
      by (simp only: read_pipe_Suc g if_True if_False Let_def s1_def c_def)
    also have "\<dots> = Ret (r + int m) s'" using s'(1) c0 cm by (simp add: sint_small)
    finally have "read_pipe K (Suc n) i buf count r s = Ret (r + int m) s'" .
    moreover have "umem s' x = (if unat (x - buf) < m then pipe_bytes i s ! unat (x - buf) else umem s x)" for x
      using s'(4) [of x] round(2,3) offset_add [of x buf c] cm m32 c0 Suc.prems(5) by auto
    ultimately show ?thesis using s'(2,3) round cm same_pipe_trans by (auto simp: add.commute)
  qed
qed simp

lemma split_reads:
  fixes g :: "u32 \<Rightarrow> u8"
  assumes "unat c \<le> m"
  shows "map (\<lambda>k. g (buf + of_nat k)) [0..<unat c] @ map (\<lambda>k. g (buf + c + of_nat k)) [0..<m - unat c] =
    map (\<lambda>k. g (buf + of_nat k)) [0..<m]"
proof -
  have "map (\<lambda>k. g (buf + c + of_nat k)) [0..<m - unat c] = map (\<lambda>k. g (buf + of_nat k)) [unat c..<m]"
    using assms by (intro nth_equalityI) (simp_all add: add.assoc)
  moreover have "[0..<m] = [0..<unat c] @ [unat c..<m]"
    using assms by (metis le_add_diff_inverse upt_add_eq_append zero_le)
  ultimately show ?thesis by simp
qed

text \<open>What \<open>write_pipe\<close> answers, and whether it signals: \<open>m\<close> of \<open>count\<close> bytes fit and nobody will read.\<close>

lemma write_pipe_run:
  assumes "pipe_ok (inode_table s i)" and "unat count < 2147483648" and "unat count < n"
    and "unat count + pipe_len (inode_table s i) < 4096 \<or> i_count (inode_table s i) \<noteq> 2"
    and "m = min (unat count) (4095 - pipe_len (inode_table s i))" and "0 \<le> r"
  shows "\<exists>s'. write_pipe K n i buf count r s = Ret (if m < unat count \<and> r + int m = 0 then -1 else r + int m) s' \<and>
     same_pipe (inode_table s i) (inode_table s' i) \<and> umem s' = umem s \<and> current s' = current s \<and>
     pipe_bytes i s' = pipe_bytes i s @ map (\<lambda>k. umem s (buf + of_nat k)) [0..<m] \<and>
     (m < unat count \<longrightarrow> bit (signal (cur s')) 12)"
  using assms
proof (induction n arbitrary: count buf r s m)
  case (Suc n)
  let ?ino = "inode_table s i"
  let ?free = "PAGE_SIZE - 1 - PIPE_SIZE ?ino"
  have psz: "unat ?free = 4095 - pipe_len ?ino"
    using PIPE_SIZE_len [OF Suc.prems(1)] pipe_len_bound [of ?ino] by (simp add: sub_word_nat)
  show ?case
  proof (cases "0 < unat count \<and> 0 < unat ?free")
    case False
    then have m: "m = 0" using Suc.prems(5) psz by auto
    have "bit (signal (cur (upd_cur (\<lambda>t. t\<lparr>signal := signal t OR sig_bit SIGPIPE\<rparr>) (wake_up g s)))) 12" for g
      by (simp add: sig_bit_def bit_or_iff bit_push_bit_iff)
    moreover have "?free = 0 \<longleftrightarrow> unat ?free = 0" by (simp only: unat_eq_zero)
    ultimately show ?thesis using Suc.prems False m psz
      by (auto simp: write_pipe_Suc pos_sint same_pipe_def pipe_bytes_def)
  next
    case True
    define c where "c = chunk (ucast (PIPE_HEAD ?ino)) count ?free"
    have t: "unat (PIPE_HEAD ?ino) < 4096" using Suc.prems(1) by (simp add: pipe_ok_def)
    have c: "unat c = min (min (4096 - unat (PIPE_HEAD ?ino)) (unat count)) (unat ?free)"
      using unat_chunk [of "ucast (PIPE_HEAD ?ino)" count ?free] t psz Suc.prems(2) by (simp add: c_def)
    have c0: "0 < unat c" "unat c \<le> unat count" "pipe_len ?ino + unat c < 4096" "unat c < 2147483648"
      using True t c Suc.prems(2) psz by auto
    have cw: "unat c \<le> 4096 - unat (PIPE_HEAD ?ino)" using c by simp
    define s1 where "s1 = copy_in (unat c) (i_size ?ino + ucast (PIPE_HEAD ?ino)) buf (upd_inode i (advance 0 c) s)"
    have round: "same_pipe ?ino (inode_table s1 i)" "umem s1 = umem s" "current s1 = current s"
      "pipe_bytes i s1 = pipe_bytes i s @ map (\<lambda>k. umem s (buf + of_nat k)) [0..<unat c]"
      using write_round [where buf = buf, OF Suc.prems(1) refl c0(3) cw] unfolding s1_def by blast+
    have len1: "pipe_len (inode_table s1 i) = pipe_len ?ino + unat c" using arg_cong [OF round(4), of length] by simp
    have cnt: "unat (count - c) = unat count - unat c" using c0 by (simp add: sub_word_nat)
    have rc: "0 \<le> r + sint c" "r + sint c \<noteq> 0" using c0 Suc.prems(6) by (auto simp: sint_small simp del: of_nat_unat)
    have "\<exists>s'. write_pipe K n i (buf + c) (count - c) (r + sint c) s1 =
          Ret (if m - unat c < unat (count - c) \<and> r + sint c + int (m - unat c) = 0 then -1 else r + sint c + int (m - unat c)) s' \<and>
        same_pipe (inode_table s1 i) (inode_table s' i) \<and> umem s' = umem s1 \<and> current s' = current s1 \<and>
        pipe_bytes i s' = pipe_bytes i s1 @ map (\<lambda>k. umem s1 (buf + c + of_nat k)) [0..<m - unat c] \<and>
        (m - unat c < unat (count - c) \<longrightarrow> bit (signal (cur s')) 12)"
      using Suc.prems c0 round(1) rc by (intro Suc.IH) (auto simp: cnt len1 same_pipe_def)
    then obtain s' where s': "write_pipe K n i (buf + c) (count - c) (r + sint c) s1 =
          Ret (if m - unat c < unat (count - c) \<and> r + sint c + int (m - unat c) = 0 then -1 else r + sint c + int (m - unat c)) s'"
        "same_pipe (inode_table s1 i) (inode_table s' i)" "umem s' = umem s" "current s' = current s"
        "pipe_bytes i s' = pipe_bytes i s1 @ map (\<lambda>k. umem s (buf + c + of_nat k)) [0..<m - unat c]"
        "m - unat c < unat (count - c) \<longrightarrow> bit (signal (cur s')) 12"
      using round by auto
    have cm: "unat c \<le> m" using Suc.prems(5) c0 c psz by simp
    have g: "0 <s count" "?free \<noteq> 0" using True Suc.prems(2) by (auto simp: pos_sint)
    have "write_pipe K (Suc n) i buf count r s = write_pipe K n i (buf + c) (count - c) (r + sint c) s1"
      by (simp only: write_pipe_Suc g if_True if_False Let_def s1_def c_def)
    also have "\<dots> = Ret (if m < unat count \<and> r + int m = 0 then -1 else r + int m) s'"
      using s'(1) c0 cm rc Suc.prems(6) cnt by (auto simp: sint_small)
    finally have "write_pipe K (Suc n) i buf count r s = Ret (if m < unat count \<and> r + int m = 0 then -1 else r + int m) s'" .
    moreover have "pipe_bytes i s' = pipe_bytes i s @ map (\<lambda>k. umem s (buf + of_nat k)) [0..<m]"
      using s'(5) round(4) split_reads [OF cm, of "umem s" buf] by simp
    ultimately show ?thesis using s' round cm cnt c0 same_pipe_trans by (auto simp: diff_less_mono)
  qed
qed simp

section \<open>The queue that a pipe implements\<close>

text \<open>
  A bounded byte queue: \<open>put\<close> appends the bytes of its argument when they fit, \<open>take\<close> removes the
  number of bytes it wants when they are there, and they are then found by \<open>got\<close>.
\<close>

locale byte_queue =
  fixes inv :: "'s \<Rightarrow> bool" and content :: "'s \<Rightarrow> u8 list" and capacity :: nat
    and enq :: "'w \<Rightarrow> 's \<Rightarrow> 's option" and payload :: "'w \<Rightarrow> 's \<Rightarrow> u8 list"
    and deq :: "'r \<Rightarrow> 's \<Rightarrow> 's option" and want :: "'r \<Rightarrow> nat" and got :: "'r \<Rightarrow> 's \<Rightarrow> u8 list"
  assumes enq_law: "inv s \<Longrightarrow> length (content s) + length (payload w s) \<le> capacity \<Longrightarrow>
      \<exists>s'. enq w s = Some s' \<and> inv s' \<and> content s' = content s @ payload w s"
    and deq_law: "inv s \<Longrightarrow> want r \<le> length (content s) \<Longrightarrow>
      \<exists>s'. deq r s = Some s' \<and> inv s' \<and> content s' = drop (want r) (content s) \<and> got r s' = take (want r) (content s)"
begin

lemma enq_deq:
  assumes "inv s" and "length (content s) + length (payload w s) \<le> capacity"
    and "want r = length (content s) + length (payload w s)"
  shows "\<exists>s1 s2. enq w s = Some s1 \<and> deq r s1 = Some s2 \<and> inv s2 \<and> content s2 = [] \<and>
    got r s2 = content s @ payload w s"
proof -
  obtain s1 where 1: "enq w s = Some s1" "inv s1" "content s1 = content s @ payload w s"
    using enq_law [OF assms(1,2)] by blast
  moreover obtain s2 where "deq r s1 = Some s2" "inv s2" "content s2 = []" "got r s2 = content s @ payload w s"
    using deq_law [OF 1(2), of r] 1(3) assms(3) by auto
  ultimately show ?thesis by blast
qed

end

definition pipe_enq :: "'a fs_state_scheme kernel_env \<Rightarrow> nat \<Rightarrow> u32 \<times> s32 \<Rightarrow> 'a fs_state_scheme \<Rightarrow> 'a fs_state_scheme option" where
  "pipe_enq K i w s = (case write_pipe K (unat (snd w) + 1) i (fst w) (snd w) 0 s of
     Ret r s' \<Rightarrow> if r = int (unat (snd w)) then Some s' else None | _ \<Rightarrow> None)"

definition pipe_deq :: "'a fs_state_scheme kernel_env \<Rightarrow> nat \<Rightarrow> u32 \<times> s32 \<Rightarrow> 'a fs_state_scheme \<Rightarrow> 'a fs_state_scheme option" where
  "pipe_deq K i r s = (case read_pipe K (unat (snd r) + 1) i (fst r) (snd r) 0 s of
     Ret n s' \<Rightarrow> if n = int (unat (snd r)) then Some s' else None | _ \<Rightarrow> None)"

definition user_bytes :: "u32 \<times> s32 \<Rightarrow> 'a fs_state_scheme \<Rightarrow> u8 list" where
  "user_bytes w s = map (\<lambda>k. umem s (fst w + of_nat k)) [0..<unat (snd w)]"

lemma read_into_list:
  assumes "\<forall>x. umem s' x = (if unat (x - buf) < m then bs ! unat (x - buf) else umem s x)"
    and "m \<le> length bs" and "m < 4294967296"
  shows "map (\<lambda>k. umem s' (buf + of_nat k)) [0..<m] = take m bs"
  using assms by (intro nth_equalityI) (simp_all add: unat_of_nat_u32)

interpretation pipe: byte_queue "\<lambda>s. pipe_ok (inode_table s i)" "pipe_bytes i" 4095
    "pipe_enq K i" user_bytes "pipe_deq K i" "\<lambda>r. unat (snd r)" user_bytes for K i
proof
  fix s :: "'a fs_state_scheme" and w
  assume ok: "pipe_ok (inode_table s i)" and fit: "length (pipe_bytes i s) + length (user_bytes w s) \<le> 4095"
  then have "unat (snd w) < 2147483648" "unat (snd w) + pipe_len (inode_table s i) < 4096"
    by (simp_all add: user_bytes_def)
  then show "\<exists>s'. pipe_enq K i w s = Some s' \<and> pipe_ok (inode_table s' i) \<and> pipe_bytes i s' = pipe_bytes i s @ user_bytes w s"
    using write_pipe_run [OF ok, of "snd w" "unat (snd w) + 1" "unat (snd w)" 0 K "fst w"]
    by (auto simp: pipe_enq_def user_bytes_def same_pipe_def)
next
  fix s :: "'a fs_state_scheme" and r :: "u32 \<times> s32"
  assume ok: "pipe_ok (inode_table s i)" and fit: "unat (snd r) \<le> length (pipe_bytes i s)"
  then have b: "unat (snd r) < 4096" "unat (snd r) \<le> pipe_len (inode_table s i)"
    using pipe_len_bound [of "inode_table s i"] by simp_all
  then obtain s' where s': "read_pipe K (unat (snd r) + 1) i (fst r) (snd r) 0 s = Ret (int (unat (snd r))) s'"
      "same_pipe (inode_table s i) (inode_table s' i)" "pipe_bytes i s' = drop (unat (snd r)) (pipe_bytes i s)"
      "\<forall>x. umem s' x = (if unat (x - fst r) < unat (snd r) then pipe_bytes i s ! unat (x - fst r) else umem s x)"
    using read_pipe_run [OF ok, of "snd r" "unat (snd r) + 1" "unat (snd r)" K "fst r" 0] by auto
  then show "\<exists>s'. pipe_deq K i r s = Some s' \<and> pipe_ok (inode_table s' i) \<and>
      pipe_bytes i s' = drop (unat (snd r)) (pipe_bytes i s) \<and> user_bytes r s' = take (unat (snd r)) (pipe_bytes i s)"
    using read_into_list [OF s'(4)] b by (auto simp: pipe_deq_def user_bytes_def same_pipe_def)
qed

section \<open>Properties\<close>

text \<open>C17: when no writer is left or the pipe holds enough, \<open>read_pipe\<close> returns the number of bytes it
  could read, in at most one round per byte; those are the oldest bytes of the pipe, in order, in user
  memory at \<open>buf\<close> (and nothing else of it changes), and the pipe keeps the rest.\<close>

theorem read_pipe_correct:
  assumes "pipe_ok (inode_table s i)" and "unat count < 2147483648" and "unat count < n"
    and "unat count \<le> length (pipe_bytes i s) \<or> i_count (inode_table s i) \<noteq> 2"
    and "m = min (unat count) (length (pipe_bytes i s))"
  shows "\<exists>s'. read_pipe K n i buf count 0 s = Ret (int m) s' \<and> pipe_ok (inode_table s' i) \<and>
     pipe_bytes i s' = drop m (pipe_bytes i s) \<and>
     (\<forall>x. umem s' x = (if unat (x - buf) < m then pipe_bytes i s ! unat (x - buf) else umem s x))"
  using read_pipe_run [of s i count n m K buf 0] assms by (auto simp: same_pipe_def)

definition pipe_fs :: fs_state where
  "pipe_fs = upd_inode 0 (\<lambda>n. n\<lparr>i_pipe := 1, i_count := 2, i_size := 0x100000\<rparr>) (empty_fs\<lparr>umem := \<lambda>a. ucast a\<rparr>)"

lemma pipe_fs_simps [simp]:
  "inode_table pipe_fs 0 = zero_inode\<lparr>i_pipe := 1, i_count := 2, i_size := 0x100000\<rparr>" "pipe_ok (inode_table pipe_fs 0)"
  "pipe_len (inode_table pipe_fs 0) = 0" "umem pipe_fs a = ucast a" "i_count (inode_table pipe_fs 0) = 2"
  by (simp_all add: pipe_fs_def pipe_ok_def zero_inode_def PIPE_HEAD_def PIPE_TAIL_def pipe_len_def)

theorem read_pipe_correct_witness:
  "\<exists>s'. read_pipe quiet 9 0 0x3000 3 0 (upd_inode 0 (\<lambda>n. n\<lparr>i_count := 1, i_zone := (\<lambda>_. 0)(0 := 7)\<rparr>) pipe_fs) = Ret (int 3) s' \<and>
     pipe_ok (inode_table s' 0) \<and>
     pipe_bytes 0 s' = drop 3 (pipe_bytes 0 (upd_inode 0 (\<lambda>n. n\<lparr>i_count := 1, i_zone := (\<lambda>_. 0)(0 := 7)\<rparr>) pipe_fs)) \<and>
     (\<forall>x. umem s' x = (if unat (x - 0x3000) < 3
        then pipe_bytes 0 (upd_inode 0 (\<lambda>n. n\<lparr>i_count := 1, i_zone := (\<lambda>_. 0)(0 := 7)\<rparr>) pipe_fs) ! unat (x - 0x3000)
        else umem (upd_inode 0 (\<lambda>n. n\<lparr>i_count := 1, i_zone := (\<lambda>_. 0)(0 := 7)\<rparr>) pipe_fs) x))"
  by (rule read_pipe_correct) (simp_all add: pipe_ok_def PIPE_HEAD_def PIPE_TAIL_def pipe_len_def)

text \<open>C18: when the bytes fit or no reader is left, \<open>write_pipe\<close> appends the bytes of user memory in order,
  as many as fit into the 4095 bytes of the buffer; it returns their number when all fit. When some do
  not fit it signals SIGPIPE and returns the number written, or -1 when that is 0.\<close>

theorem write_pipe_correct:
  assumes "pipe_ok (inode_table s i)" and "unat count < 2147483648" and "unat count < n"
    and "unat count + length (pipe_bytes i s) \<le> 4095 \<or> i_count (inode_table s i) \<noteq> 2"
    and "m = min (unat count) (4095 - length (pipe_bytes i s))"
  shows "\<exists>s'. write_pipe K n i buf count 0 s = Ret (if m < unat count \<and> m = 0 then -1 else int m) s' \<and>
     pipe_ok (inode_table s' i) \<and> umem s' = umem s \<and>
     pipe_bytes i s' = pipe_bytes i s @ map (\<lambda>k. umem s (buf + of_nat k)) [0..<m] \<and>
     (m < unat count \<longrightarrow> bit (signal (cur s')) 12)"
  using write_pipe_run [of s i count n m 0 K buf] assms by (auto simp: same_pipe_def)

theorem write_pipe_correct_witness:
  "\<exists>s'. write_pipe quiet 6000 0 0x1000 5000 0 (upd_inode 0 (\<lambda>n. n\<lparr>i_count := 1\<rparr>) pipe_fs) =
       Ret (if 4095 < unat (5000::u32) \<and> (4095::nat) = 0 then -1 else int 4095) s' \<and>
     pipe_ok (inode_table s' 0) \<and> umem s' = umem (upd_inode 0 (\<lambda>n. n\<lparr>i_count := 1\<rparr>) pipe_fs) \<and>
     pipe_bytes 0 s' = pipe_bytes 0 (upd_inode 0 (\<lambda>n. n\<lparr>i_count := 1\<rparr>) pipe_fs) @
       map (\<lambda>k. umem (upd_inode 0 (\<lambda>n. n\<lparr>i_count := 1\<rparr>) pipe_fs) (0x1000 + of_nat k)) [0..<4095] \<and>
     (4095 < unat (5000::u32) \<longrightarrow> bit (signal (cur s')) 12)"
  by (rule write_pipe_correct) (simp_all add: pipe_ok_def PIPE_HEAD_def PIPE_TAIL_def pipe_len_def zero_inode_def)

text \<open>C19: bytes go through a pipe in order: after a write that fits, a read of everything returns what
  the pipe held before, followed by the bytes written, and leaves the pipe empty.\<close>

theorem pipe_fifo:
  assumes "pipe_ok (inode_table s i)" and "length (pipe_bytes i s) + unat count \<le> 4095"
    and "unat all_bytes = length (pipe_bytes i s) + unat count"
  shows "\<exists>s1 s2. pipe_enq K i (buf, count) s = Some s1 \<and> pipe_deq K i (out, all_bytes) s1 = Some s2 \<and>
     pipe_bytes i s2 = [] \<and> user_bytes (out, all_bytes) s2 = pipe_bytes i s @ user_bytes (buf, count) s"
  using pipe.enq_deq [of s i "(buf, count)" "(out, all_bytes)" K] assms by (fastforce simp: user_bytes_def)

theorem pipe_fifo_witness:
  "\<exists>s1 s2. pipe_enq quiet 0 (0x1000, 500) pipe_fs = Some s1 \<and> pipe_deq quiet 0 (0x3000, 500) s1 = Some s2 \<and>
     pipe_bytes 0 s2 = [] \<and> user_bytes (0x3000, 500) s2 = pipe_bytes 0 pipe_fs @ user_bytes (0x1000, 500) pipe_fs"
  by (rule pipe_fifo) (simp_all add: pipe_ok_def PIPE_HEAD_def PIPE_TAIL_def pipe_len_def zero_inode_def)

end
