(* ===== verification/Bitmap.thy ===== *)
theory Bitmap
  imports Sync
begin

text \<open>
  The inode and zone bitmaps (\<^verbatim>\<open>fs/bitmap.c\<close>) and the release of the blocks of a file
  (\<^verbatim>\<open>fs/truncate.c\<close>).

  A NULL entry of \<open>s_zmap\<close> that the code would follow ends the model's run (\<open>Hang\<close>).
\<close>

section \<open>File types\<close>

definition S_ISREG :: "u16 \<Rightarrow> bool" where "S_ISREG m \<longleftrightarrow> m AND 0xF000 = 0x8000"
definition S_ISDIR :: "u16 \<Rightarrow> bool" where "S_ISDIR m \<longleftrightarrow> m AND 0xF000 = 0x4000"
definition S_ISCHR :: "u16 \<Rightarrow> bool" where "S_ISCHR m \<longleftrightarrow> m AND 0xF000 = 0x2000"
definition S_ISBLK :: "u16 \<Rightarrow> bool" where "S_ISBLK m \<longleftrightarrow> m AND 0xF000 = 0x6000"

section \<open>Bits of a block\<close>

definition block_bit :: "(nat \<Rightarrow> u8) \<Rightarrow> nat \<Rightarrow> bool" where
  "block_bit d k = bit (d (k div 8)) (k mod 8)"

text \<open>\<open>set_bit\<close> and \<open>clear_bit\<close> (\<open>bts\<close>, \<open>btr\<close>): the result is whether the bit was already set,
  already clear.\<close>

definition set_bit :: "nat \<Rightarrow> (nat \<Rightarrow> u8) \<Rightarrow> bool \<times> (nat \<Rightarrow> u8)" where
  "set_bit nr d = (block_bit d nr, d(nr div 8 := d (nr div 8) OR push_bit (nr mod 8) 1))"

definition clear_bit :: "nat \<Rightarrow> (nat \<Rightarrow> u8) \<Rightarrow> bool \<times> (nat \<Rightarrow> u8)" where
  "clear_bit nr d = (\<not> block_bit d nr, d(nr div 8 := d (nr div 8) AND NOT (push_bit (nr mod 8) 1)))"

text \<open>\<open>find_first_zero\<close>: the loop over longs; \<open>bsf\<close> finds the lowest set bit of the complement.\<close>

definition bsf :: "u32 \<Rightarrow> nat" where
  "bsf w = (case find (bit w) [0..<32] of Some i \<Rightarrow> i | None \<Rightarrow> 0)"

fun scan_longs :: "nat \<Rightarrow> nat \<Rightarrow> (nat \<Rightarrow> u8) \<Rightarrow> nat" where
  "scan_longs 0 ecx d = ecx"
| "scan_longs (Suc n) ecx d =
     (let w = NOT (dec32 d (ecx div 8)) in if w = 0 then scan_longs n (ecx + 32) d else ecx + bsf w)"

definition find_first_zero :: "(nat \<Rightarrow> u8) \<Rightarrow> nat" where
  "find_first_zero d = scan_longs 256 0 d"

text \<open>\<open>clear_block\<close>\<close>

definition clear_block :: "buffer_head \<Rightarrow> buffer_head" where
  "clear_block h = h\<lparr>b_data := (\<lambda>i. if i < BLOCK_SIZE then 0 else b_data h i)\<rparr>"

section \<open>Zones\<close>

definition free_block ::
  "'a fs_state_scheme kernel_env \<Rightarrow> u32 \<Rightarrow> u32 \<Rightarrow> 'a fs_state_scheme \<Rightarrow> ('a fs_state_scheme, unit) outcome" where
  "free_block K dev block s =
     andThen (get_super K dev s) (\<lambda>r s.
       case r of
         None \<Rightarrow> Panic ''trying to free block on nonexistent device'' s
       | Some sb \<Rightarrow>
           if block <s ucast (s_firstdatazone (super_block s sb)) \<or> ucast (s_nzones (super_block s sb)) \<le>s block
           then Panic ''trying to free block not in datazone'' s
           else andThen (get_hash_table K dev block s) (\<lambda>r s.
             if (case r of Some bh \<Rightarrow> b_count (bufs s bh) \<noteq> 1 | None \<Rightarrow> False) then Ret () s
             else andThen
               (case r of
                  Some bh \<Rightarrow> brelse K (Some bh) (upd_buf bh (\<lambda>h. h\<lparr>b_dirt := 0, b_uptodate := 0\<rparr>) s)
                | None \<Rightarrow> Ret () s)
               (\<lambda>_ s.
                 let k = unat (block - (ucast (s_firstdatazone (super_block s sb)) - 1)) in
                 case s_zmap (super_block s sb) (k div 8192) of
                   None \<Rightarrow> Hang
                 | Some zm \<Rightarrow>
                     let (already, d) = clear_bit (k mod 8192) (b_data (bufs s zm));
                         s = upd_buf zm (\<lambda>h. h\<lparr>b_data := d\<rparr>) s in
                     if already then Panic ''free_block: bit already cleared'' s
                     else Ret () (upd_buf zm (\<lambda>h. h\<lparr>b_dirt := 1\<rparr>) s))))"

text \<open>The first zero bit of the eight blocks of a map: slot, buffer and bit.\<close>

fun find_in_map :: "nat list \<Rightarrow> (nat \<Rightarrow> nat option) \<Rightarrow> (nat \<Rightarrow> buffer_head) \<Rightarrow> (nat \<times> nat \<times> nat) option" where
  "find_in_map [] m bs = None"
| "find_in_map (i # is) m bs =
     (case m i of
        Some bh \<Rightarrow>
          let j = find_first_zero (b_data (bs bh)) in
          if j < 8192 then Some (i, bh, j) else find_in_map is m bs
      | None \<Rightarrow> find_in_map is m bs)"

definition new_block ::
  "'a fs_state_scheme kernel_env \<Rightarrow> u32 \<Rightarrow> 'a fs_state_scheme \<Rightarrow> ('a fs_state_scheme, u32) outcome" where
  "new_block K dev s =
     andThen (get_super K dev s) (\<lambda>r s.
       case r of
         None \<Rightarrow> Panic ''trying to get new block from nonexistant device'' s
       | Some sb \<Rightarrow>
           (case find_in_map [0..<8] (s_zmap (super_block s sb)) (bufs s) of
              None \<Rightarrow> Ret 0 s
            | Some (i, zm, j) \<Rightarrow>
                let (already, d) = set_bit j (b_data (bufs s zm));
                    s = upd_buf zm (\<lambda>h. h\<lparr>b_data := d\<rparr>) s in
                if already then Panic ''new_block: bit already set'' s
                else let s = upd_buf zm (\<lambda>h. h\<lparr>b_dirt := 1\<rparr>) s;
                         j = of_nat (j + i * 8192) + ucast (s_firstdatazone (super_block s sb)) - 1 in
                  if ucast (s_nzones (super_block s sb)) \<le>s j then Ret 0 s
                  else andThen (getblk K dev j s) (\<lambda>bh s.
                    if b_count (bufs s bh) \<noteq> 1 then Panic ''new block: count is != 1'' s
                    else andThen (brelse K (Some bh) (upd_buf bh (\<lambda>h. (clear_block h)\<lparr>b_uptodate := 1, b_dirt := 1\<rparr>) s))
                      (\<lambda>_ s. Ret j s))))"

section \<open>Inodes\<close>

definition free_inode ::
  "'a fs_state_scheme kernel_env \<Rightarrow> nat option \<Rightarrow> 'a fs_state_scheme \<Rightarrow> ('a fs_state_scheme, unit) outcome" where
  "free_inode K inode s =
     (case inode of
        None \<Rightarrow> Ret () s
      | Some i \<Rightarrow>
          let n = inode_table s i in
          if i_dev n = 0 then Ret () (upd_inode i (\<lambda>_. zero_inode) s)
          else if 1 < i_count n then Panic ''free_inode'' s
          else if i_nlinks n \<noteq> 0 then Panic ''trying to free inode with links'' s
          else andThen (get_super K (ucast (i_dev n)) s) (\<lambda>r s.
            let n = inode_table s i in
            case r of
              None \<Rightarrow> Panic ''trying to free inode on nonexistent device'' s
            | Some sb \<Rightarrow>
                if i_num n < 1 \<or> s_ninodes (super_block s sb) < i_num n
                then Panic ''trying to free inode 0 or nonexistant inode'' s
                else (case s_imap (super_block s sb) (unat (drop_bit 13 (i_num n))) of
                    None \<Rightarrow> Panic ''nonexistent imap in superblock'' s
                  | Some bh \<Rightarrow>
                      let (_, d) = clear_bit (unat (i_num n) mod 8192) (b_data (bufs s bh)) in
                      Ret () (upd_inode i (\<lambda>_. zero_inode) (upd_buf bh (\<lambda>h. h\<lparr>b_data := d, b_dirt := 1\<rparr>) s)))))"

section \<open>Truncation\<close>

text \<open>The zone numbers in a block: \<open>((unsigned short *) bh->b_data)[k]\<close>.\<close>

definition zone_at :: "buffer_head \<Rightarrow> nat \<Rightarrow> u16" where
  "zone_at h k = dec16 (b_data h) (2 * k)"

definition free_ind ::
  "'a fs_state_scheme kernel_env \<Rightarrow> u32 \<Rightarrow> u16 \<Rightarrow> 'a fs_state_scheme \<Rightarrow> ('a fs_state_scheme, unit) outcome" where
  "free_ind K dev block s =
     (if block = 0 then Ret () s
      else andThen (bread K dev (ucast block) s) (\<lambda>r s.
        andThen
          (case r of
             Some bh \<Rightarrow>
               andThen (each (\<lambda>k s. if zone_at (bufs s bh) k \<noteq> 0 then free_block K dev (ucast (zone_at (bufs s bh) k)) s
                                    else Ret () s) [0..<512] s)
                 (\<lambda>_ s. brelse K (Some bh) s)
           | None \<Rightarrow> Ret () s)
          (\<lambda>_ s. free_block K dev (ucast block) s)))"

definition free_dind ::
  "'a fs_state_scheme kernel_env \<Rightarrow> u32 \<Rightarrow> u16 \<Rightarrow> 'a fs_state_scheme \<Rightarrow> ('a fs_state_scheme, unit) outcome" where
  "free_dind K dev block s =
     (if block = 0 then Ret () s
      else andThen (bread K dev (ucast block) s) (\<lambda>r s.
        andThen
          (case r of
             Some bh \<Rightarrow>
               andThen (each (\<lambda>k s. if zone_at (bufs s bh) k \<noteq> 0 then free_ind K dev (zone_at (bufs s bh) k) s
                                    else Ret () s) [0..<512] s)
                 (\<lambda>_ s. brelse K (Some bh) s)
           | None \<Rightarrow> Ret () s)
          (\<lambda>_ s. free_block K dev (ucast block) s)))"

definition truncate ::
  "'a fs_state_scheme kernel_env \<Rightarrow> nat \<Rightarrow> 'a fs_state_scheme \<Rightarrow> ('a fs_state_scheme, unit) outcome" where
  "truncate K i s =
     (if \<not> (S_ISREG (i_mode (inode_table s i)) \<or> S_ISDIR (i_mode (inode_table s i))) then Ret () s
      else
        andThen (each (\<lambda>k s.
            if i_zone (inode_table s i) k \<noteq> 0 then
              andThen (free_block K (ucast (i_dev (inode_table s i))) (ucast (i_zone (inode_table s i) k)) s)
                (\<lambda>_ s. Ret () (upd_inode i (\<lambda>n. n\<lparr>i_zone := (i_zone n)(k := 0)\<rparr>) s))
            else Ret () s) [0..<7] s) (\<lambda>_ s.
          andThen (free_ind K (ucast (i_dev (inode_table s i))) (i_zone (inode_table s i) 7) s) (\<lambda>_ s.
            andThen (free_dind K (ucast (i_dev (inode_table s i))) (i_zone (inode_table s i) 8) s) (\<lambda>_ s.
              Ret () (upd_inode i (\<lambda>n. n\<lparr>i_zone := (i_zone n)(8 := 0, 7 := 0), i_size := 0, i_dirt := 1,
                i_mtime := CURRENT_TIME s, i_ctime := CURRENT_TIME s\<rparr>) s)))))"

end
