(* ===== verification/Inode.thy ===== *)
theory Inode
  imports Bitmap
begin

text \<open>
  \<^verbatim>\<open>fs/inode.c\<close>: the block of a file position, releasing and obtaining inodes, the inode of a pipe;
  \<open>new_inode\<close> of \<^verbatim>\<open>fs/bitmap.c\<close>.
\<close>

section \<open>Blocks of a file\<close>

text \<open>
  \<open>zone_slot\<close> is the code that \<open>_bmap\<close> repeats for an spare zone of the inode when \<open>create\<close> is set, and
  \<open>entry_slot\<close> the code it repeats for an entry of an indirect block held in \<open>bh\<close>.
\<close>

definition zone_slot ::
  "'a fs_state_scheme kernel_env \<Rightarrow> bool \<Rightarrow> nat \<Rightarrow> nat \<Rightarrow> 'a fs_state_scheme \<Rightarrow> ('a fs_state_scheme, unit) outcome" where
  "zone_slot K create i k s =
     (if create \<and> i_zone (inode_table s i) k = 0 then
        andThen (new_block K (ucast (i_dev (inode_table s i))) s) (\<lambda>b s.
          let s = upd_inode i (\<lambda>n. n\<lparr>i_zone := (i_zone n)(k := ucast b)\<rparr>) s in
          Ret () (if i_zone (inode_table s i) k \<noteq> 0
                  then upd_inode i (\<lambda>n. n\<lparr>i_ctime := CURRENT_TIME s, i_dirt := 1\<rparr>) s else s))
      else Ret () s)"

definition put_zone_at :: "nat \<Rightarrow> u16 \<Rightarrow> buffer_head \<Rightarrow> buffer_head" where
  "put_zone_at k v h = put_bytes_at (2 * k) (enc16 v) h"

definition entry_slot ::
  "'a fs_state_scheme kernel_env \<Rightarrow> bool \<Rightarrow> nat \<Rightarrow> nat \<Rightarrow> nat \<Rightarrow> 'a fs_state_scheme \<Rightarrow> ('a fs_state_scheme, u32) outcome" where
  "entry_slot K create i bh k s =
     (let z = ucast (zone_at (bufs s bh) k) in
      if create \<and> z = 0 then
        andThen (new_block K (ucast (i_dev (inode_table s i))) s) (\<lambda>b s.
          Ret b (if b \<noteq> 0 then upd_buf bh (\<lambda>h. (put_zone_at k (ucast b) h)\<lparr>b_dirt := 1\<rparr>) s else s))
      else Ret z s)"

text \<open>One level of indirection: entry \<open>k\<close> of the block \<open>zone\<close>.\<close>

definition through_block ::
  "'a fs_state_scheme kernel_env \<Rightarrow> bool \<Rightarrow> nat \<Rightarrow> u32 \<Rightarrow> nat \<Rightarrow> 'a fs_state_scheme \<Rightarrow> ('a fs_state_scheme, u32) outcome" where
  "through_block K create i zone k s =
     (if zone = 0 then Ret 0 s
      else andThen (bread K (ucast (i_dev (inode_table s i))) zone s) (\<lambda>r s.
        case r of
          None \<Rightarrow> Ret 0 s
        | Some bh \<Rightarrow>
            andThen (entry_slot K create i bh k s) (\<lambda>z s.
              andThen (brelse K (Some bh) s) (\<lambda>_ s. Ret z s))))"

definition bmap_main ::
  "'a fs_state_scheme kernel_env \<Rightarrow> nat \<Rightarrow> s32 \<Rightarrow> bool \<Rightarrow> 'a fs_state_scheme \<Rightarrow> ('a fs_state_scheme, u32) outcome" where
  "bmap_main K i block create s =
     (if block <s 0 then Panic ''_bmap: block<0'' s
      else let b = unat block in
        if 7 + 512 + 512 * 512 \<le> b then Panic ''_bmap: block>big'' s
        else if b < 7 then
          andThen (zone_slot K create i b s) (\<lambda>_ s. Ret (ucast (i_zone (inode_table s i) b)) s)
        else if b - 7 < 512 then
          andThen (zone_slot K create i 7 s) (\<lambda>_ s.
            through_block K create i (ucast (i_zone (inode_table s i) 7)) (b - 7) s)
        else let b = b - 7 - 512 in
          andThen (zone_slot K create i 8 s) (\<lambda>_ s.
            andThen (through_block K create i (ucast (i_zone (inode_table s i) 8)) (b div 512) s) (\<lambda>z s.
              through_block K create i z (b mod 512) s)))"

definition bmap ::
  "'a fs_state_scheme kernel_env \<Rightarrow> nat \<Rightarrow> s32 \<Rightarrow> 'a fs_state_scheme \<Rightarrow> ('a fs_state_scheme, u32) outcome" where
  "bmap K i block s = bmap_main K i block False s"

definition create_block ::
  "'a fs_state_scheme kernel_env \<Rightarrow> nat \<Rightarrow> s32 \<Rightarrow> 'a fs_state_scheme \<Rightarrow> ('a fs_state_scheme, u32) outcome" where
  "create_block K i block s = bmap_main K i block True s"

section \<open>Releasing an inode\<close>

text \<open>The part of \<open>iput\<close> from the label \<open>repeat\<close>; \<open>n\<close> bounds the repetitions.\<close>

fun iput_loop ::
  "'a fs_state_scheme kernel_env \<Rightarrow> nat \<Rightarrow> nat \<Rightarrow> 'a fs_state_scheme \<Rightarrow> ('a fs_state_scheme, unit) outcome" where
  "iput_loop K 0 i s = Hang"
| "iput_loop K (Suc n) i s =
     (let dec = upd_inode i (\<lambda>n. n\<lparr>i_count := i_count n - 1\<rparr>) in
      if 1 < i_count (inode_table s i) then Ret () (dec s)
      else if i_nlinks (inode_table s i) = 0 then
        andThen (truncate K i s) (\<lambda>_ s. free_inode K (Some i) s)
      else if i_dirt (inode_table s i) \<noteq> 0 then
        andThen (write_inode K i s) (\<lambda>_ s.
          andThen (wait_on_inode K i s) (\<lambda>_ s. iput_loop K n i s))
      else Ret () (dec s))"

definition iput ::
  "'a fs_state_scheme kernel_env \<Rightarrow> nat option \<Rightarrow> 'a fs_state_scheme \<Rightarrow> ('a fs_state_scheme, unit) outcome" where
  "iput K inode s =
     (case inode of
        None \<Rightarrow> Ret () s
      | Some i \<Rightarrow>
          andThen (wait_on_inode K i s) (\<lambda>_ s.
            if i_count (inode_table s i) = 0 then Panic ''iput: trying to free free inode'' s
            else if i_pipe (inode_table s i) \<noteq> 0 then
              let s = upd_inode i (\<lambda>n. n\<lparr>i_count := i_count n - 1\<rparr>) (wake_up (inode_wait i) s) in
              if i_count (inode_table s i) \<noteq> 0 then Ret () s
              else andThen (free_page (i_size (inode_table s i)) s) (\<lambda>_ s.
                Ret () (upd_inode i (\<lambda>n. n\<lparr>i_count := 0, i_dirt := 0, i_pipe := 0\<rparr>) s))
            else if i_dev (inode_table s i) = 0 then
              Ret () (upd_inode i (\<lambda>n. n\<lparr>i_count := i_count n - 1\<rparr>) s)
            else
              andThen
                (if S_ISBLK (i_mode (inode_table s i)) then
                   andThen (sync_dev K (ucast (i_zone (inode_table s i) 0)) s) (\<lambda>_ s. wait_on_inode K i s)
                 else Ret () s)
                (\<lambda>_ s. iput_loop K (bound K) i s)))"

section \<open>Obtaining an inode\<close>

text \<open>The \<open>for\<close> loop of \<open>get_empty_inode\<close>: \<open>n\<close> entries from \<open>last_inode\<close> on, the last free one seen.\<close>

fun scan_inodes :: "nat \<Rightarrow> nat option \<Rightarrow> 'a fs_state_scheme \<Rightarrow> nat option \<times> 'a fs_state_scheme" where
  "scan_inodes 0 inode s = (inode, s)"
| "scan_inodes (Suc n) inode s =
     (let last = (if NR_INODE \<le> last_inode s + 1 then 0 else last_inode s + 1);
          s = s\<lparr>last_inode := last\<rparr> in
      if i_count (inode_table s last) = 0 then
        if i_dirt (inode_table s last) = 0 \<and> i_lock (inode_table s last) = 0 then (Some last, s)
        else scan_inodes n (Some last) s
      else scan_inodes n inode s)"

text \<open>\<open>while (inode->i_dirt) { write_inode(inode); wait_on_inode(inode); }\<close>\<close>

fun clean_inode ::
  "'a fs_state_scheme kernel_env \<Rightarrow> nat \<Rightarrow> nat \<Rightarrow> 'a fs_state_scheme \<Rightarrow> ('a fs_state_scheme, unit) outcome" where
  "clean_inode K 0 i s = (if i_dirt (inode_table s i) = 0 then Ret () s else Hang)"
| "clean_inode K (Suc n) i s =
     (if i_dirt (inode_table s i) = 0 then Ret () s
      else andThen (write_inode K i s) (\<lambda>_ s. andThen (wait_on_inode K i s) (\<lambda>_ s. clean_inode K n i s)))"

fun get_empty_loop ::
  "'a fs_state_scheme kernel_env \<Rightarrow> nat \<Rightarrow> 'a fs_state_scheme \<Rightarrow> ('a fs_state_scheme, nat) outcome" where
  "get_empty_loop K 0 s = Hang"
| "get_empty_loop K (Suc n) s =
     (case scan_inodes NR_INODE None s of
        (None, s) \<Rightarrow> Panic ''No free inodes in mem'' s
      | (Some i, s) \<Rightarrow>
          andThen (wait_on_inode K i s) (\<lambda>_ s.
            andThen (clean_inode K (bound K) i s) (\<lambda>_ s.
              if i_count (inode_table s i) \<noteq> 0 then get_empty_loop K n s
              else Ret i (upd_inode i (\<lambda>_. zero_inode\<lparr>i_count := 1\<rparr>) s))))"

text \<open>\<open>get_empty_inode\<close> does not return NULL.\<close>

definition get_empty_inode :: "'a fs_state_scheme kernel_env \<Rightarrow> 'a fs_state_scheme \<Rightarrow> ('a fs_state_scheme, nat) outcome" where
  "get_empty_inode K s = get_empty_loop K (bound K) s"

definition get_pipe_inode ::
  "'a fs_state_scheme kernel_env \<Rightarrow> 'a fs_state_scheme \<Rightarrow> ('a fs_state_scheme, nat option) outcome" where
  "get_pipe_inode K s =
     andThen (get_empty_inode K s) (\<lambda>i s.
       let (page, s) = get_free_page s;
           s = upd_inode i (\<lambda>n. n\<lparr>i_size := page\<rparr>) s in
       if page = 0 then Ret None (upd_inode i (\<lambda>n. n\<lparr>i_count := 0\<rparr>) s)
       else Ret (Some i) (upd_inode i (\<lambda>n. n\<lparr>i_count := 2, i_zone := (i_zone n)(1 := 0, 0 := 0), i_pipe := 1\<rparr>) s))"

definition read_inode ::
  "'a fs_state_scheme kernel_env \<Rightarrow> nat \<Rightarrow> 'a fs_state_scheme \<Rightarrow> ('a fs_state_scheme, unit) outcome" where
  "read_inode K i s =
     andThen (lock_inode K i s) (\<lambda>_ s.
       andThen (get_super K (ucast (i_dev (inode_table s i))) s) (\<lambda>r s.
         case r of
           None \<Rightarrow> Panic ''trying to read inode without dev'' s
         | Some sb \<Rightarrow>
             andThen (bread K (ucast (i_dev (inode_table s i))) (inode_block (super_block s sb) (inode_table s i)) s) (\<lambda>r s.
               case r of
                 None \<Rightarrow> Panic ''unable to read i-node block'' s
               | Some bh \<Rightarrow>
                   let s = upd_inode i (\<lambda>n. dec_inode (b_data (bufs s bh)) (inode_offset n) n) s
                   in andThen (brelse K (Some bh) s) (\<lambda>_ s. Ret () (unlock_inode i s)))))"

definition is_inode :: "u32 \<Rightarrow> u32 \<Rightarrow> m_inode \<Rightarrow> bool" where
  "is_inode dev nr n \<longleftrightarrow> ucast (i_dev n) = dev \<and> ucast (i_num n) = nr"

text \<open>The loop of \<open>iget\<close> at entry \<open>j\<close>, with \<open>n\<close> steps left; \<open>spare\<close> is the free inode obtained first. An
  inode that a file system is mounted on is replaced by the root of that file system.\<close>

fun iget_loop ::
  "'a fs_state_scheme kernel_env \<Rightarrow> nat \<Rightarrow> nat \<Rightarrow> u32 \<Rightarrow> u32 \<Rightarrow> nat \<Rightarrow> 'a fs_state_scheme \<Rightarrow> ('a fs_state_scheme, nat) outcome" where
  "iget_loop K 0 j dev nr spare s = Hang"
| "iget_loop K (Suc n) j dev nr spare s =
     (if j < NR_INODE then
        if \<not> is_inode dev nr (inode_table s j) then iget_loop K n (j + 1) dev nr spare s
        else andThen (wait_on_inode K j s) (\<lambda>_ s.
          if \<not> is_inode dev nr (inode_table s j) then iget_loop K n 0 dev nr spare s
          else let s = upd_inode j (\<lambda>n. n\<lparr>i_count := i_count n + 1\<rparr>) s in
            if i_mount (inode_table s j) \<noteq> 0 then
              (case find (\<lambda>i. s_imount (super_block s i) = Some j) [0..<NR_SUPER] of
                 None \<Rightarrow> andThen (iput K (Some spare) s) (\<lambda>_ s. Ret j s)
               | Some i \<Rightarrow>
                   andThen (iput K (Some j) s) (\<lambda>_ s.
                     iget_loop K n 0 (ucast (s_dev (super_block s i))) 1 spare s))
            else andThen (iput K (Some spare) s) (\<lambda>_ s. Ret j s))
      else let s = upd_inode spare (\<lambda>n. n\<lparr>i_dev := ucast dev, i_num := ucast nr\<rparr>) s in
        andThen (read_inode K spare s) (\<lambda>_ s. Ret spare s))"

definition iget ::
  "'a fs_state_scheme kernel_env \<Rightarrow> u32 \<Rightarrow> u32 \<Rightarrow> 'a fs_state_scheme \<Rightarrow> ('a fs_state_scheme, nat) outcome" where
  "iget K dev nr s =
     (if dev = 0 then Panic ''iget with dev==0'' s
      else andThen (get_empty_inode K s) (\<lambda>spare s. iget_loop K (bound K) 0 dev nr spare s))"

section \<open>Creating an inode (bitmap.c)\<close>

definition new_inode ::
  "'a fs_state_scheme kernel_env \<Rightarrow> u32 \<Rightarrow> 'a fs_state_scheme \<Rightarrow> ('a fs_state_scheme, nat option) outcome" where
  "new_inode K dev s =
     andThen (get_empty_inode K s) (\<lambda>i s.
       andThen (get_super K dev s) (\<lambda>r s.
         case r of
           None \<Rightarrow> Panic ''new_inode with unknown device'' s
         | Some sb \<Rightarrow>
             let found = find_in_map [0..<8] (s_imap (super_block s sb)) (bufs s) in
             if (case found of None \<Rightarrow> True
                 | Some (k, bh, j) \<Rightarrow> unat (s_ninodes (super_block s sb)) < j + k * 8192)
             then andThen (iput K (Some i) s) (\<lambda>_ s. Ret None s)
             else (case found of None \<Rightarrow> Hang
               | Some (k, bh, j) \<Rightarrow>
                   let (already, d) = set_bit j (b_data (bufs s bh));
                       s = upd_buf bh (\<lambda>h. h\<lparr>b_data := d\<rparr>) s in
                   if already then Panic ''new_inode: bit already set'' s
                   else let s = upd_buf bh (\<lambda>h. h\<lparr>b_dirt := 1\<rparr>) s; t = CURRENT_TIME s in
                     Ret (Some i) (upd_inode i (\<lambda>n. n\<lparr>i_count := 1, i_nlinks := 1, i_dev := ucast dev,
                       i_uid := euid (cur s), i_gid := ucast (egid (cur s)), i_dirt := 1,
                       i_num := of_nat (j + k * 8192), i_mtime := t, i_atime := t, i_ctime := t\<rparr>) s))))"

end
