(* ===== verification/Namei.thy ===== *)
theory Namei
  imports Inode
begin

text \<open>
  Names (\<^verbatim>\<open>fs/namei.c\<close>): permissions, directory entries, the walk along a path, and the system calls
  that create and remove names.

  A directory entry is 16 bytes: an inode number and a name of 14 bytes. The entry that the code
  holds in \<open>de\<close> is a buffer and an index in it. Names are addresses of user memory.
\<close>

abbreviation (input) NAME_LEN :: nat where "NAME_LEN \<equiv> 14"
abbreviation (input) ROOT_INO :: u16 where "ROOT_INO \<equiv> 1"
abbreviation (input) MAY_EXEC :: u32 where "MAY_EXEC \<equiv> 1"
abbreviation (input) MAY_WRITE :: u32 where "MAY_WRITE \<equiv> 2"
abbreviation (input) MAY_READ :: u32 where "MAY_READ \<equiv> 4"
abbreviation (input) O_ACCMODE :: u32 where "O_ACCMODE \<equiv> 3"
abbreviation (input) O_CREAT :: u32 where "O_CREAT \<equiv> 0x40"
abbreviation (input) O_EXCL :: u32 where "O_EXCL \<equiv> 0x80"
abbreviation (input) O_TRUNC :: u32 where "O_TRUNC \<equiv> 0x200"

section \<open>Permissions and directory entries\<close>

text \<open>\<open>ACC_MODE\<close>: the fourth character of the string is -1.\<close>

definition ACC_MODE :: "u32 \<Rightarrow> u32" where
  "ACC_MODE x = (let k = x AND O_ACCMODE in if k = 0 then 4 else if k = 1 then 2 else if k = 2 then 6 else -1)"

definition permission :: "nat \<Rightarrow> u32 \<Rightarrow> 'a fs_state_scheme \<Rightarrow> bool" where
  "permission i msk s =
     (let n = inode_table s i; mode = ucast (i_mode n) :: u32 in
      if i_dev n \<noteq> 0 \<and> i_nlinks n = 0 then False
      else let mode = (if euid (cur s) = i_uid n then drop_bit 6 mode
                       else if egid (cur s) = ucast (i_gid n) then drop_bit 3 mode else mode)
        in mode AND msk AND 7 = msk \<or> suser s)"

definition de_inode :: "buffer_head \<Rightarrow> nat \<Rightarrow> u16" where
  "de_inode h k = dec16 (b_data h) (16 * k)"

definition de_name :: "buffer_head \<Rightarrow> nat \<Rightarrow> nat \<Rightarrow> u8" where
  "de_name h k j = b_data h (16 * k + 2 + j)"

definition set_de_inode :: "nat \<Rightarrow> u16 \<Rightarrow> buffer_head \<Rightarrow> buffer_head" where
  "set_de_inode k v h = put_bytes_at (16 * k) (enc16 v) h"

definition match :: "nat \<Rightarrow> u32 \<Rightarrow> buffer_head \<Rightarrow> nat \<Rightarrow> 'a fs_state_scheme \<Rightarrow> bool" where
  "match len name h k s \<longleftrightarrow>
     \<not> (de_inode h k = 0 \<or> NAME_LEN < len) \<and> \<not> (len < NAME_LEN \<and> de_name h k len \<noteq> 0) \<and>
     list_all (\<lambda>j. get_fs_byte (name + of_nat j) s = de_name h k j) [0..<len]"

section \<open>Directories\<close>

text \<open>
  The loop of \<open>find_entry\<close>: entry \<open>i\<close>, which is entry \<open>k\<close> of the buffer \<open>bh\<close>. After a block that could
  not be read \<open>bh\<close> is NULL; the comparison with the end of its block is then taken as reached.
\<close>

fun find_entry_loop ::
  "'a fs_state_scheme kernel_env \<Rightarrow> nat \<Rightarrow> nat \<Rightarrow> u32 \<Rightarrow> nat \<Rightarrow> nat \<Rightarrow> nat \<Rightarrow> nat option \<Rightarrow> nat \<Rightarrow> 'a fs_state_scheme \<Rightarrow>
     ('a fs_state_scheme, (nat \<times> nat) option) outcome" where
  "find_entry_loop K 0 dir name len entries i bh k s = Hang"
| "find_entry_loop K (Suc n) dir name len entries i bh k s =
     (let test = (\<lambda>b k s. if match len name (bufs s b) k s then Ret (Some (b, k)) s
                          else find_entry_loop K n dir name len entries (i + 1) (Some b) (k + 1) s) in
      if i < entries then
        (case bh of
           Some b \<Rightarrow>
             if k < 64 then test b k s
             else andThen (brelse K bh s) (\<lambda>_ s.
               andThen (bmap K dir (of_nat (i div 64)) s) (\<lambda>block s.
                 if block = 0 then find_entry_loop K n dir name len entries (i + 64) None k s
                 else andThen (bread K (ucast (i_dev (inode_table s dir))) block s) (\<lambda>r s.
                   case r of
                     None \<Rightarrow> find_entry_loop K n dir name len entries (i + 64) None k s
                   | Some b \<Rightarrow> test b 0 s)))
         | None \<Rightarrow>
             andThen (bmap K dir (of_nat (i div 64)) s) (\<lambda>block s.
               if block = 0 then find_entry_loop K n dir name len entries (i + 64) None k s
               else andThen (bread K (ucast (i_dev (inode_table s dir))) block s) (\<lambda>r s.
                 case r of
                   None \<Rightarrow> find_entry_loop K n dir name len entries (i + 64) None k s
                 | Some b \<Rightarrow> test b 0 s)))
      else andThen (brelse K bh s) (\<lambda>_ s. Ret None s))"

text \<open>The special cases of \<open>..\<close>: the name length and the directory to search.\<close>

definition dot_dot ::
  "'a fs_state_scheme kernel_env \<Rightarrow> nat \<Rightarrow> u32 \<Rightarrow> nat \<Rightarrow> 'a fs_state_scheme \<Rightarrow> ('a fs_state_scheme, nat \<times> nat) outcome" where
  "dot_dot K dir name len s =
     (if len = 2 \<and> get_fs_byte name s = 46 \<and> get_fs_byte (name + 1) s = 46 then
        if root (cur s) = Some dir then Ret (1, dir) s
        else if i_num (inode_table s dir) = ROOT_INO then
          andThen (get_super K (ucast (i_dev (inode_table s dir))) s) (\<lambda>r s.
            case r of
              None \<Rightarrow> Hang
            | Some sb \<Rightarrow>
                (case s_imount (super_block s sb) of
                   None \<Rightarrow> Ret (len, dir) s
                 | Some _ \<Rightarrow>
                     andThen (iput K (Some dir) s) (\<lambda>_ s.
                       case s_imount (super_block s sb) of
                         None \<Rightarrow> Hang
                       | Some m \<Rightarrow> Ret (len, m) (upd_inode m (\<lambda>n. n\<lparr>i_count := i_count n + 1\<rparr>) s))))
        else Ret (len, dir) s
      else Ret (len, dir) s)"

text \<open>\<open>find_entry\<close>: the entry, and the directory, which \<open>..\<close> can exchange.\<close>

definition find_entry ::
  "'a fs_state_scheme kernel_env \<Rightarrow> nat \<Rightarrow> u32 \<Rightarrow> nat \<Rightarrow> 'a fs_state_scheme \<Rightarrow>
     ('a fs_state_scheme, (nat \<times> nat) option \<times> nat) outcome" where
  "find_entry K dir name len s =
     (let len = min len NAME_LEN; entries = unat (i_size (inode_table s dir)) div 16 in
      if len = 0 then Ret (None, dir) s
      else andThen (dot_dot K dir name len s) (\<lambda>(len, dir) s.
        let block = i_zone (inode_table s dir) 0 in
        if block = 0 then Ret (None, dir) s
        else andThen (bread K (ucast (i_dev (inode_table s dir))) (ucast block) s) (\<lambda>r s.
          case r of
            None \<Rightarrow> Ret (None, dir) s
          | Some bh \<Rightarrow>
              andThen (find_entry_loop K (bound K) dir name len entries 0 (Some bh) 0 s) (\<lambda>e s. Ret (e, dir) s))))"

text \<open>The name of a new entry.\<close>

definition fill_name :: "nat \<Rightarrow> u32 \<Rightarrow> nat \<Rightarrow> 'a fs_state_scheme \<Rightarrow> buffer_head \<Rightarrow> buffer_head" where
  "fill_name k name len s h =
     put_bytes_at (16 * k + 2) (map (\<lambda>j. if j < len then get_fs_byte (name + of_nat j) s else 0) [0..<NAME_LEN]) h"

fun add_entry_loop ::
  "'a fs_state_scheme kernel_env \<Rightarrow> nat \<Rightarrow> nat \<Rightarrow> u32 \<Rightarrow> nat \<Rightarrow> nat \<Rightarrow> nat option \<Rightarrow> nat \<Rightarrow> 'a fs_state_scheme \<Rightarrow>
     ('a fs_state_scheme, (nat \<times> nat) option) outcome" where
  "add_entry_loop K 0 dir name len i bh k s = Hang"
| "add_entry_loop K (Suc n) dir name len i bh k s =
     (let here = (\<lambda>b k s.
        let s = (if unat (i_size (inode_table s dir)) \<le> 16 * i then
                   upd_inode dir (\<lambda>x. x\<lparr>i_size := of_nat (16 * (i + 1)), i_dirt := 1, i_ctime := CURRENT_TIME s\<rparr>)
                     (upd_buf b (set_de_inode k 0) s)
                 else s) in
        if de_inode (bufs s b) k = 0 then
          let s = upd_inode dir (\<lambda>x. x\<lparr>i_mtime := CURRENT_TIME s\<rparr>) s in
          Ret (Some (b, k)) (upd_buf b (\<lambda>h. (fill_name k name len s h)\<lparr>b_dirt := 1\<rparr>) s)
        else add_entry_loop K n dir name len (i + 1) (Some b) (k + 1) s) in
      if bh \<noteq> None \<and> k < 64 then (case bh of Some b \<Rightarrow> here b k s | None \<Rightarrow> Hang)
      else andThen (brelse K bh s) (\<lambda>_ s.
        andThen (create_block K dir (of_nat (i div 64)) s) (\<lambda>block s.
          if block = 0 then Ret None s
          else andThen (bread K (ucast (i_dev (inode_table s dir))) block s) (\<lambda>r s.
            case r of
              None \<Rightarrow> add_entry_loop K n dir name len (i + 64) None k s
            | Some b \<Rightarrow> here b 0 s))))"

definition add_entry ::
  "'a fs_state_scheme kernel_env \<Rightarrow> nat \<Rightarrow> u32 \<Rightarrow> nat \<Rightarrow> 'a fs_state_scheme \<Rightarrow>
     ('a fs_state_scheme, (nat \<times> nat) option) outcome" where
  "add_entry K dir name len s =
     (let len = min len NAME_LEN; block = i_zone (inode_table s dir) 0 in
      if len = 0 then Ret None s
      else if block = 0 then Ret None s
      else andThen (bread K (ucast (i_dev (inode_table s dir))) (ucast block) s) (\<lambda>r s.
        case r of
          None \<Rightarrow> Ret None s
        | Some bh \<Rightarrow> add_entry_loop K (bound K) dir name len 0 (Some bh) 0 s))"

section \<open>Paths\<close>

text \<open>The number of characters up to a slash or the end, and the character that ended them; \<open>n\<close> bounds
  the length of a path.\<close>

fun name_span :: "nat \<Rightarrow> u32 \<Rightarrow> nat \<Rightarrow> 'a fs_state_scheme \<Rightarrow> (nat \<times> u8) option" where
  "name_span 0 a len s = None"
| "name_span (Suc n) a len s =
     (let c = get_fs_byte a s in if c = 0 \<or> c = 47 then Some (len, c) else name_span n (a + 1) (len + 1) s)"

fun get_dir_loop ::
  "'a fs_state_scheme kernel_env \<Rightarrow> nat \<Rightarrow> nat \<Rightarrow> u32 \<Rightarrow> 'a fs_state_scheme \<Rightarrow> ('a fs_state_scheme, nat option) outcome" where
  "get_dir_loop K 0 inode path s = Hang"
| "get_dir_loop K (Suc n) inode path s =
     (if \<not> S_ISDIR (i_mode (inode_table s inode)) \<or> \<not> permission inode MAY_EXEC s then
        andThen (iput K (Some inode) s) (\<lambda>_ s. Ret None s)
      else case name_span (bound K) path 0 s of
        None \<Rightarrow> Hang
      | Some (len, c) \<Rightarrow>
          if c = 0 then Ret (Some inode) s
          else andThen (find_entry K inode path len s) (\<lambda>(e, inode) s.
            case e of
              None \<Rightarrow> andThen (iput K (Some inode) s) (\<lambda>_ s. Ret None s)
            | Some (bh, k) \<Rightarrow>
                let inr = ucast (de_inode (bufs s bh) k); idev = ucast (i_dev (inode_table s inode)) in
                andThen (brelse K (Some bh) s) (\<lambda>_ s.
                  andThen (iput K (Some inode) s) (\<lambda>_ s.
                    andThen (iget K idev inr s) (\<lambda>i s. get_dir_loop K n i (path + of_nat len + 1) s)))))"

definition get_dir ::
  "'a fs_state_scheme kernel_env \<Rightarrow> u32 \<Rightarrow> 'a fs_state_scheme \<Rightarrow> ('a fs_state_scheme, nat option) outcome" where
  "get_dir K pathname s =
     (let used = (\<lambda>p. case p of None \<Rightarrow> False | Some i \<Rightarrow> i_count (inode_table s i) \<noteq> 0) in
      if \<not> used (root (cur s)) then Panic ''No root inode'' s
      else if \<not> used (pwd (cur s)) then Panic ''No cwd inode'' s
      else let c = get_fs_byte pathname s;
               start = (if c = 47 then root (cur s) else if c \<noteq> 0 then pwd (cur s) else None);
               pathname = (if c = 47 then pathname + 1 else pathname) in
        case start of
          None \<Rightarrow> Ret None s
        | Some i \<Rightarrow> get_dir_loop K (bound K) i pathname (upd_inode i (\<lambda>n. n\<lparr>i_count := i_count n + 1\<rparr>) s))"

text \<open>The last component of a path: its address and length.\<close>

fun last_component :: "nat \<Rightarrow> u32 \<Rightarrow> u32 \<Rightarrow> 'a fs_state_scheme \<Rightarrow> (u32 \<times> nat) option" where
  "last_component 0 a base s = None"
| "last_component (Suc n) a base s =
     (let c = get_fs_byte a s in
      if c = 0 then Some (base, unat (a - base))
      else last_component n (a + 1) (if c = 47 then a + 1 else base) s)"

text \<open>\<open>dir_namei\<close>: the directory, and the name in it.\<close>

definition dir_namei ::
  "'a fs_state_scheme kernel_env \<Rightarrow> u32 \<Rightarrow> 'a fs_state_scheme \<Rightarrow> ('a fs_state_scheme, (nat \<times> u32 \<times> nat) option) outcome" where
  "dir_namei K pathname s =
     andThen (get_dir K pathname s) (\<lambda>r s.
       case r of
         None \<Rightarrow> Ret None s
       | Some dir \<Rightarrow>
           (case last_component (bound K) pathname pathname s of
              None \<Rightarrow> Hang
            | Some (base, len) \<Rightarrow> Ret (Some (dir, base, len)) s))"

definition namei ::
  "'a fs_state_scheme kernel_env \<Rightarrow> u32 \<Rightarrow> 'a fs_state_scheme \<Rightarrow> ('a fs_state_scheme, nat option) outcome" where
  "namei K pathname s =
     andThen (dir_namei K pathname s) (\<lambda>r s.
       case r of
         None \<Rightarrow> Ret None s
       | Some (dir, base, len) \<Rightarrow>
           if len = 0 then Ret (Some dir) s
           else andThen (find_entry K dir base len s) (\<lambda>(e, dir) s.
             case e of
               None \<Rightarrow> andThen (iput K (Some dir) s) (\<lambda>_ s. Ret None s)
             | Some (bh, k) \<Rightarrow>
                 let inr = ucast (de_inode (bufs s bh) k); dev = ucast (i_dev (inode_table s dir)) in
                 andThen (brelse K (Some bh) s) (\<lambda>_ s.
                   andThen (iput K (Some dir) s) (\<lambda>_ s.
                     andThen (iget K dev inr s) (\<lambda>i s.
                       Ret (Some i) (upd_inode i (\<lambda>n. n\<lparr>i_atime := CURRENT_TIME s, i_dirt := 1\<rparr>) s))))))"

end
