(* ===== verification/Super.thy ===== *)
theory Super
  imports Namei
begin

text \<open>
  Mounting (\<^verbatim>\<open>fs/super.c\<close>): reading a super block and its bitmaps, mounting and unmounting, and the
  root file system.
\<close>

abbreviation (input) SUPER_MAGIC :: u16 where "SUPER_MAGIC \<equiv> 0x137F"

section \<open>Reading a super block\<close>

text \<open>\<open>struct d_super_block\<close>: the first fields of \<open>struct super_block\<close>, \<open>s_max_size\<close> at offset 12.\<close>

definition dec_super :: "(nat \<Rightarrow> u8) \<Rightarrow> super_struct \<Rightarrow> super_struct" where
  "dec_super d x = x\<lparr>s_ninodes := dec16 d 0, s_nzones := dec16 d 2, s_imap_blocks := dec16 d 4,
     s_zmap_blocks := dec16 d 6, s_firstdatazone := dec16 d 8, s_log_zone_size := dec16 d 10,
     s_max_size := dec32 d 12, s_magic := dec16 d 16\<rparr>"

text \<open>\<open>for (i=0; i < blocks; i++) if ((map[i]=bread(dev,block))) block++; else break;\<close> with \<open>set_map\<close>
  storing entry \<open>i\<close>; the result is the next block.\<close>

fun read_map ::
  "'a fs_state_scheme kernel_env \<Rightarrow> u32 \<Rightarrow> (nat \<Rightarrow> nat option \<Rightarrow> 'a fs_state_scheme \<Rightarrow> 'a fs_state_scheme) \<Rightarrow>
   nat list \<Rightarrow> u32 \<Rightarrow> 'a fs_state_scheme \<Rightarrow> ('a fs_state_scheme, u32) outcome" where
  "read_map K dev set_map [] block s = Ret block s"
| "read_map K dev set_map (i # is) block s =
     andThen (bread K dev block s) (\<lambda>r s.
       let s = set_map i r s in
       case r of
         Some _ \<Rightarrow> read_map K dev set_map is (block + 1) s
       | None \<Rightarrow> Ret block s)"

definition set_imap :: "nat \<Rightarrow> nat \<Rightarrow> nat option \<Rightarrow> 'a fs_state_scheme \<Rightarrow> 'a fs_state_scheme" where
  "set_imap sb i v s = upd_super sb (\<lambda>x. x\<lparr>s_imap := (s_imap x)(i := v)\<rparr>) s"

definition set_zmap :: "nat \<Rightarrow> nat \<Rightarrow> nat option \<Rightarrow> 'a fs_state_scheme \<Rightarrow> 'a fs_state_scheme" where
  "set_zmap sb i v s = upd_super sb (\<lambda>x. x\<lparr>s_zmap := (s_zmap x)(i := v)\<rparr>) s"

definition release_maps ::
  "'a fs_state_scheme kernel_env \<Rightarrow> nat \<Rightarrow> 'a fs_state_scheme \<Rightarrow> ('a fs_state_scheme, unit) outcome" where
  "release_maps K sb s =
     andThen (each (\<lambda>i s. brelse K (s_imap (super_block s sb) i) s) [0..<8] s) (\<lambda>_ s.
       each (\<lambda>i s. brelse K (s_zmap (super_block s sb) i) s) [0..<8] s)"

text \<open>Bit 0 of the first block of a map is set: \<open>map[0]->b_data[0] |= 1\<close>.\<close>

definition reserve_bit0 :: "nat option \<Rightarrow> 'a fs_state_scheme \<Rightarrow> ('a fs_state_scheme, unit) outcome" where
  "reserve_bit0 m s =
     (case m of
        None \<Rightarrow> Hang
      | Some bh \<Rightarrow> Ret () (upd_buf bh (\<lambda>h. h\<lparr>b_data := (b_data h)(0 := b_data h 0 OR 1)\<rparr>) s))"

definition give_up :: "nat \<Rightarrow> 'a fs_state_scheme \<Rightarrow> ('a fs_state_scheme, nat option) outcome" where
  "give_up sb s = Ret None (free_super sb (upd_super sb (\<lambda>x. x\<lparr>s_dev := 0\<rparr>) s))"

text \<open>What \<open>read_super\<close> does with the free entry \<open>sb\<close>. The maps have at most 8 blocks each.\<close>

definition load_super ::
  "'a fs_state_scheme kernel_env \<Rightarrow> u32 \<Rightarrow> nat \<Rightarrow> 'a fs_state_scheme \<Rightarrow> ('a fs_state_scheme, nat option) outcome" where
  "load_super K dev sb s =
     (let s = upd_super sb (\<lambda>x. x\<lparr>s_dev := ucast dev, s_isup := None, s_imount := None, s_time := 0,
                s_rd_only := 0, s_dirt := 0\<rparr>) s in
      andThen (lock_super K sb s) (\<lambda>_ s.
        andThen (bread K dev 1 s) (\<lambda>r s.
          case r of
            None \<Rightarrow> give_up sb s
          | Some bh \<Rightarrow>
              andThen (brelse K (Some bh) (upd_super sb (dec_super (b_data (bufs s bh))) s)) (\<lambda>_ s.
                if s_magic (super_block s sb) \<noteq> SUPER_MAGIC then give_up sb s
                else
                  let s = upd_super sb (\<lambda>x. x\<lparr>s_imap := (\<lambda>_. None), s_zmap := (\<lambda>_. None)\<rparr>) s in
                  andThen (read_map K dev (set_imap sb) [0..<unat (s_imap_blocks (super_block s sb))] 2 s) (\<lambda>block s.
                    andThen (read_map K dev (set_zmap sb) [0..<unat (s_zmap_blocks (super_block s sb))] block s) (\<lambda>block s.
                      let x = super_block s sb in
                      if block \<noteq> 2 + ucast (s_imap_blocks x) + ucast (s_zmap_blocks x)
                      then andThen (release_maps K sb s) (\<lambda>_ s. give_up sb s)
                      else andThen (reserve_bit0 (s_imap x 0) s) (\<lambda>_ s.
                        andThen (reserve_bit0 (s_zmap x 0) s) (\<lambda>_ s. Ret (Some sb) (free_super sb s)))))))))"

definition read_super ::
  "'a fs_state_scheme kernel_env \<Rightarrow> u32 \<Rightarrow> 'a fs_state_scheme \<Rightarrow> ('a fs_state_scheme, nat option) outcome" where
  "read_super K dev s =
     (if dev = 0 then Ret None s
      else andThen (check_disk_change K dev s) (\<lambda>_ s.
        andThen (get_super K dev s) (\<lambda>r s.
          case r of
            Some sb \<Rightarrow> Ret (Some sb) s
          | None \<Rightarrow>
              (case find (\<lambda>i. s_dev (super_block s i) = 0) [0..<NR_SUPER] of
                 None \<Rightarrow> Ret None s
               | Some sb \<Rightarrow> load_super K dev sb s))))"

section \<open>Mounting\<close>

definition sys_umount ::
  "'a fs_state_scheme kernel_env \<Rightarrow> u32 \<Rightarrow> 'a fs_state_scheme \<Rightarrow> ('a fs_state_scheme, int) outcome" where
  "sys_umount K dev_name s =
     andThen (namei K dev_name s) (\<lambda>r s.
       case r of
         None \<Rightarrow> Ret (- ENOENT) s
       | Some i \<Rightarrow>
           let dev = ucast (i_zone (inode_table s i) 0) in
           if \<not> S_ISBLK (i_mode (inode_table s i)) then andThen (iput K (Some i) s) (\<lambda>_ s. Ret (- ENOTBLK) s)
           else andThen (iput K (Some i) s) (\<lambda>_ s.
             if dev = ROOT_DEV s then Ret (- EBUSY) s
             else andThen (get_super K dev s) (\<lambda>r s.
               case r of
                 None \<Rightarrow> Ret (- ENOENT) s
               | Some sb \<Rightarrow>
                   (case s_imount (super_block s sb) of
                      None \<Rightarrow> Ret (- ENOENT) s
                    | Some m \<Rightarrow>
                        if list_ex (\<lambda>j. ucast (i_dev (inode_table s j)) = dev \<and> i_count (inode_table s j) \<noteq> 0) [0..<NR_INODE]
                        then Ret (- EBUSY) s
                        else
                          andThen (iput K (Some m) (upd_inode m (\<lambda>n. n\<lparr>i_mount := 0\<rparr>) s)) (\<lambda>_ s.
                            andThen (iput K (s_isup (super_block s sb)) (upd_super sb (\<lambda>x. x\<lparr>s_imount := None\<rparr>) s)) (\<lambda>_ s.
                              andThen (put_super K dev (upd_super sb (\<lambda>x. x\<lparr>s_isup := None\<rparr>) s)) (\<lambda>_ s.
                                andThen (sync_dev K dev s) (\<lambda>_ s. Ret 0 s))))))))"

definition sys_mount ::
  "'a fs_state_scheme kernel_env \<Rightarrow> u32 \<Rightarrow> u32 \<Rightarrow> s32 \<Rightarrow> 'a fs_state_scheme \<Rightarrow> ('a fs_state_scheme, int) outcome" where
  "sys_mount K dev_name dir_name rw_flag s =
     andThen (namei K dev_name s) (\<lambda>r s.
       case r of
         None \<Rightarrow> Ret (- ENOENT) s
       | Some dev_i \<Rightarrow>
           let dev = ucast (i_zone (inode_table s dev_i) 0) in
           if \<not> S_ISBLK (i_mode (inode_table s dev_i)) then andThen (iput K (Some dev_i) s) (\<lambda>_ s. Ret (- EPERM) s)
           else andThen (iput K (Some dev_i) s) (\<lambda>_ s.
             andThen (namei K dir_name s) (\<lambda>r s.
               case r of
                 None \<Rightarrow> Ret (- ENOENT) s
               | Some dir_i \<Rightarrow>
                   let fail = (\<lambda>e s. andThen (iput K (Some dir_i) s) (\<lambda>_ s. Ret (- e) s)); n = inode_table s dir_i in
                   if i_count n \<noteq> 1 \<or> i_num n = ROOT_INO then fail EBUSY s
                   else if \<not> S_ISDIR (i_mode n) then fail EPERM s
                   else andThen (read_super K dev s) (\<lambda>r s.
                     case r of
                       None \<Rightarrow> fail EBUSY s
                     | Some sb \<Rightarrow>
                         if s_imount (super_block s sb) \<noteq> None then fail EBUSY s
                         else if i_mount (inode_table s dir_i) \<noteq> 0 then fail EPERM s
                         else Ret 0 (upd_inode dir_i (\<lambda>n. n\<lparr>i_mount := 1, i_dirt := 1\<rparr>)
                                (upd_super sb (\<lambda>x. x\<lparr>s_imount := Some dir_i\<rparr>) s))))))"

text \<open>The root file system. \<open>wait_for_keypress\<close>, called for a root on floppy disk, is the parameter
  \<open>keypress\<close>; the counts of free blocks and inodes at the end are only printed (the macro \<open>set_bit\<close> of
  this file only tests).\<close>

definition mount_root ::
  "'a fs_state_scheme kernel_env \<Rightarrow> ('a fs_state_scheme \<Rightarrow> ('a fs_state_scheme, unit) outcome) \<Rightarrow> 'a fs_state_scheme \<Rightarrow>
     ('a fs_state_scheme, unit) outcome" where
  "mount_root K keypress s =
     (let s = s\<lparr>file_table := (\<lambda>i. if i < NR_FILE then (file_table s i)\<lparr>f_count := 0\<rparr> else file_table s i)\<rparr> in
      andThen (if MAJOR (ROOT_DEV s) = 2 then keypress s else Ret () s) (\<lambda>_ s.
        let s = s\<lparr>super_block := (\<lambda>i. if i < NR_SUPER then (super_block s i)\<lparr>s_dev := 0, s_lock := 0, s_wait := 0\<rparr>
                                      else super_block s i)\<rparr> in
        andThen (read_super K (ROOT_DEV s) s) (\<lambda>r s.
          case r of
            None \<Rightarrow> Panic ''Unable to mount root'' s
          | Some p \<Rightarrow>
              andThen (iget K (ROOT_DEV s) 1 s) (\<lambda>mi s.
                let s = upd_inode mi (\<lambda>n. n\<lparr>i_count := i_count n + 3\<rparr>) s;
                    s = upd_super p (\<lambda>x. x\<lparr>s_isup := Some mi, s_imount := Some mi\<rparr>) s
                in Ret () (upd_cur (\<lambda>t. t\<lparr>pwd := Some mi, root := Some mi\<rparr>) s)))))"

end
