(* ===== verification/File_IO.thy ===== *)
theory File_IO
  imports Pipe Inode
begin

text \<open>
  Reading and writing: regular files (\<^verbatim>\<open>fs/file_dev.c\<close>), block devices (\<^verbatim>\<open>fs/block_dev.c\<close>), the
  devices of major number 1 (\<^verbatim>\<open>fs/char_dev.c\<close>) and the system calls that choose between them
  (\<^verbatim>\<open>fs/read_write.c\<close>).
\<close>

section \<open>Bytes between a block and user memory\<close>

fun bytes_to_user :: "u8 list \<Rightarrow> u32 \<Rightarrow> 'a proc_state_scheme \<Rightarrow> 'a proc_state_scheme" where
  "bytes_to_user [] buf s = s"
| "bytes_to_user (v # vs) buf s = bytes_to_user vs (buf + 1) (put_fs_byte v buf s)"

definition bytes_from_user :: "nat \<Rightarrow> u32 \<Rightarrow> 'a proc_state_scheme \<Rightarrow> u8 list" where
  "bytes_from_user n buf s = map (\<lambda>k. get_fs_byte (buf + of_nat k) s) [0..<n]"

text \<open>The bytes of a buffer from \<open>off\<close> on.\<close>

definition block_slice :: "nat \<Rightarrow> nat \<Rightarrow> nat \<Rightarrow> 'a fs_state_scheme \<Rightarrow> u8 list" where
  "block_slice b off n s = map (\<lambda>k. b_data (bufs s b) (off + k)) [0..<n]"

section \<open>Regular files\<close>

abbreviation (input) O_APPEND :: u16 where "O_APPEND \<equiv> 0x400"

text \<open>
  The loop of \<open>file_read\<close>: \<open>left\<close> bytes are to be read into \<open>buf\<close>; the result is what is left. Positions
  are C longs, divided with truncation.
\<close>

fun file_read_loop ::
  "'a fs_state_scheme kernel_env \<Rightarrow> nat \<Rightarrow> nat \<Rightarrow> nat \<Rightarrow> u32 \<Rightarrow> int \<Rightarrow> 'a fs_state_scheme \<Rightarrow> ('a fs_state_scheme, int) outcome" where
  "file_read_loop K 0 i f buf left s = Hang"
| "file_read_loop K (Suc n) i f buf left s =
     (if left = 0 then Ret left s
      else andThen (bmap K i (sdiv32 (f_pos (file_table s f)) 1024) s) (\<lambda>nr s.
        andThen (if nr \<noteq> 0 then bread K (ucast (i_dev (inode_table s i))) nr s else Ret None s) (\<lambda>bh s.
          if nr \<noteq> 0 \<and> bh = None then Ret left s
          else
            let off = sint (f_pos (file_table s f)) smod 1024;
                chars = min (1024 - off) left;
                s = upd_file f (\<lambda>x. x\<lparr>f_pos := f_pos x + word_of_int chars\<rparr>) s;
                bytes = (case bh of Some b \<Rightarrow> block_slice b (nat off) (nat chars) s | None \<Rightarrow> replicate (nat chars) 0);
                s = bytes_to_user bytes buf s in
            andThen (brelse K bh s) (\<lambda>_ s. file_read_loop K n i f (buf + word_of_int chars) (left - chars) s))))"

definition file_read ::
  "'a fs_state_scheme kernel_env \<Rightarrow> nat \<Rightarrow> nat \<Rightarrow> u32 \<Rightarrow> int \<Rightarrow> 'a fs_state_scheme \<Rightarrow> ('a fs_state_scheme, int) outcome" where
  "file_read K i f buf count s =
     (if count \<le> 0 then Ret 0 s
      else andThen (file_read_loop K (bound K) i f buf count s) (\<lambda>left s.
        Ret (if count - left \<noteq> 0 then count - left else - ERROR)
          (upd_inode i (\<lambda>n. n\<lparr>i_atime := CURRENT_TIME s\<rparr>) s)))"

text \<open>The loop of \<open>file_write\<close>: \<open>i\<close> bytes of \<open>count\<close> are written, the position is \<open>pos\<close>.\<close>

fun file_write_loop ::
  "'a fs_state_scheme kernel_env \<Rightarrow> nat \<Rightarrow> nat \<Rightarrow> s32 \<Rightarrow> u32 \<Rightarrow> int \<Rightarrow> int \<Rightarrow> 'a fs_state_scheme \<Rightarrow>
     ('a fs_state_scheme, int \<times> s32) outcome" where
  "file_write_loop K 0 ino pos buf i count s = Hang"
| "file_write_loop K (Suc n) ino pos buf i count s =
     (if i < count then
        andThen (create_block K ino (sdiv32 pos 1024) s) (\<lambda>block s.
          if block = 0 then Ret (i, pos) s
          else andThen (bread K (ucast (i_dev (inode_table s ino))) block s) (\<lambda>r s.
            case r of
              None \<Rightarrow> Ret (i, pos) s
            | Some bh \<Rightarrow>
                let off = sint pos smod 1024;
                    s = upd_buf bh (\<lambda>h. h\<lparr>b_dirt := 1\<rparr>) s;
                    c = min (1024 - off) (count - i);
                    pos = pos + word_of_int c;
                    s = (if i_size (inode_table s ino) < pos
                         then upd_inode ino (\<lambda>n. n\<lparr>i_size := pos, i_dirt := 1\<rparr>) s else s);
                    s = upd_buf bh (put_bytes_at (nat off) (bytes_from_user (nat c) buf s)) s in
                andThen (brelse K (Some bh) s) (\<lambda>_ s.
                  file_write_loop K n ino pos (buf + word_of_int c) (i + c) count s)))
      else Ret (i, pos) s)"

definition file_write ::
  "'a fs_state_scheme kernel_env \<Rightarrow> nat \<Rightarrow> nat \<Rightarrow> u32 \<Rightarrow> int \<Rightarrow> 'a fs_state_scheme \<Rightarrow> ('a fs_state_scheme, int) outcome" where
  "file_write K ino f buf count s =
     (let append = f_flags (file_table s f) AND O_APPEND \<noteq> 0;
          pos = (if append then i_size (inode_table s ino) else f_pos (file_table s f)) in
      andThen (file_write_loop K (bound K) ino pos buf 0 count s) (\<lambda>(i, pos) s.
        let s = upd_inode ino (\<lambda>n. n\<lparr>i_mtime := CURRENT_TIME s\<rparr>) s;
            s = (if f_flags (file_table s f) AND O_APPEND = 0
                 then upd_inode ino (\<lambda>n. n\<lparr>i_ctime := CURRENT_TIME s\<rparr>) (upd_file f (\<lambda>x. x\<lparr>f_pos := pos\<rparr>) s)
                 else s)
        in Ret (if i \<noteq> 0 then i else -1) s))"

section \<open>Block devices\<close>

text \<open>\<open>pos\<close> is the pointer to the file position, here the entry of the file table it belongs to.\<close>

fun block_write_loop ::
  "'a fs_state_scheme kernel_env \<Rightarrow> nat \<Rightarrow> u32 \<Rightarrow> nat \<Rightarrow> u32 \<Rightarrow> int \<Rightarrow> u32 \<Rightarrow> int \<Rightarrow> int \<Rightarrow> 'a fs_state_scheme \<Rightarrow>
     ('a fs_state_scheme, int) outcome" where
  "block_write_loop K 0 dev f block off buf count written s = Hang"
| "block_write_loop K (Suc n) dev f block off buf count written s =
     (if 0 < count then
        let chars = min (1024 - off) count in
        andThen
          (if chars = 1024 then andThen (getblk K dev block s) (\<lambda>b s. Ret (Some b) s)
           else breada K dev block [block + 1, block + 2] s) (\<lambda>r s.
            case r of
              None \<Rightarrow> Ret (if written \<noteq> 0 then written else - EIO) s
            | Some bh \<Rightarrow>
                let s = upd_file f (\<lambda>x. x\<lparr>f_pos := f_pos x + word_of_int chars\<rparr>) s;
                    s = upd_buf bh (put_bytes_at (nat off) (bytes_from_user (nat chars) buf s)) s;
                    s = upd_buf bh (\<lambda>h. h\<lparr>b_dirt := 1\<rparr>) s in
                andThen (brelse K (Some bh) s) (\<lambda>_ s.
                  block_write_loop K n dev f (block + 1) 0 (buf + word_of_int chars) (count - chars) (written + chars) s))
      else Ret written s)"

definition block_write ::
  "'a fs_state_scheme kernel_env \<Rightarrow> u32 \<Rightarrow> nat \<Rightarrow> u32 \<Rightarrow> int \<Rightarrow> 'a fs_state_scheme \<Rightarrow> ('a fs_state_scheme, int) outcome" where
  "block_write K dev f buf count s =
     (let p = f_pos (file_table s f) in
      block_write_loop K (bound K) dev f (signed_drop_bit 10 p) (int (unat (p AND 1023))) buf count 0 s)"

fun block_read_loop ::
  "'a fs_state_scheme kernel_env \<Rightarrow> nat \<Rightarrow> u32 \<Rightarrow> nat \<Rightarrow> u32 \<Rightarrow> int \<Rightarrow> u32 \<Rightarrow> int \<Rightarrow> int \<Rightarrow> 'a fs_state_scheme \<Rightarrow>
     ('a fs_state_scheme, int) outcome" where
  "block_read_loop K 0 dev f block off buf count done s = Hang"
| "block_read_loop K (Suc n) dev f block off buf count done s =
     (if 0 < count then
        let chars = min (1024 - off) count in
        andThen (breada K dev block [block + 1, block + 2] s) (\<lambda>r s.
          case r of
            None \<Rightarrow> Ret (if done \<noteq> 0 then done else - EIO) s
          | Some bh \<Rightarrow>
              let s = upd_file f (\<lambda>x. x\<lparr>f_pos := f_pos x + word_of_int chars\<rparr>) s;
                  s = bytes_to_user (block_slice bh (nat off) (nat chars) s) buf s in
              andThen (brelse K (Some bh) s) (\<lambda>_ s.
                block_read_loop K n dev f (block + 1) 0 (buf + word_of_int chars) (count - chars) (done + chars) s))
      else Ret done s)"

text \<open>Here the position is unsigned.\<close>

definition block_read ::
  "'a fs_state_scheme kernel_env \<Rightarrow> u32 \<Rightarrow> nat \<Rightarrow> u32 \<Rightarrow> int \<Rightarrow> 'a fs_state_scheme \<Rightarrow> ('a fs_state_scheme, int) outcome" where
  "block_read K dev f buf count s =
     (let p = f_pos (file_table s f) in
      block_read_loop K (bound K) dev f (drop_bit 10 p) (int (unat (p AND 1023))) buf count 0 s)"

section \<open>Positions\<close>

definition file_of :: "u32 \<Rightarrow> 'a fs_state_scheme \<Rightarrow> nat option" where
  "file_of fd s = (if 20 \<le> fd then None else filp (cur s) (unat fd))"

definition sys_lseek :: "u32 \<Rightarrow> s32 \<Rightarrow> int \<Rightarrow> 'a fs_state_scheme \<Rightarrow> int \<times> 'a fs_state_scheme" where
  "sys_lseek fd offset origin s =
     (case file_of fd s of
        None \<Rightarrow> (- EBADF, s)
      | Some f \<Rightarrow>
          (case f_inode (file_table s f) of
             None \<Rightarrow> (- EBADF, s)
           | Some i \<Rightarrow>
               if \<not> IS_SEEKABLE (MAJOR (ucast (i_dev (inode_table s i)))) then (- EBADF, s)
               else if i_pipe (inode_table s i) \<noteq> 0 then (- ESPIPE, s)
               else
                 let pos = f_pos (file_table s f);
                     target = (if origin = 0 then Some offset
                               else if origin = 1 then Some (pos + offset)
                               else if origin = 2 then Some (i_size (inode_table s i) + offset)
                               else None) in
                 (case target of
                    None \<Rightarrow> (- EINVAL, s)
                  | Some t \<Rightarrow>
                      if t <s 0 then (- EINVAL, s)
                      else (sint t, upd_file f (\<lambda>x. x\<lparr>f_pos := t\<rparr>) s))))"

end
