(* ===== verification/Namei_Calls.thy ===== *)
theory Namei_Calls
  imports Namei
begin

text \<open>
  The system calls of \<^verbatim>\<open>fs/namei.c\<close>: opening a name, and making, removing and linking directory
  entries. They return C ints; \<open>leave\<close> is the sequence of \<open>iput\<close> calls, the \<open>brelse\<close> and the return that
  end most of their branches.
\<close>

definition leave ::
  "'a fs_state_scheme kernel_env \<Rightarrow> nat list \<Rightarrow> nat option \<Rightarrow> 'b \<Rightarrow> 'a fs_state_scheme \<Rightarrow> ('a fs_state_scheme, 'b) outcome" where
  "leave K inodes bh v s =
     andThen (each (\<lambda>i. iput K (Some i)) inodes s) (\<lambda>_ s. andThen (brelse K bh s) (\<lambda>_ s. Ret v s))"

text \<open>\<open>de->inode = nr; bh->b_dirt = 1\<close>\<close>

definition store_entry :: "nat \<Rightarrow> nat \<Rightarrow> u16 \<Rightarrow> 'a fs_state_scheme \<Rightarrow> 'a fs_state_scheme" where
  "store_entry bh k nr s = upd_buf bh (\<lambda>h. (set_de_inode k nr h)\<lparr>b_dirt := 1\<rparr>) s"

section \<open>Opening\<close>

text \<open>The result is the return value and \<open>*res_inode\<close>.\<close>

definition open_create ::
  "'a fs_state_scheme kernel_env \<Rightarrow> u32 \<Rightarrow> nat \<Rightarrow> u32 \<Rightarrow> nat \<Rightarrow> 'a fs_state_scheme \<Rightarrow>
     ('a fs_state_scheme, int \<times> nat option) outcome" where
  "open_create K mode dir base len s =
     (if \<not> permission dir MAY_WRITE s then leave K [dir] None (- EACCES, None) s
      else andThen (new_inode K (ucast (i_dev (inode_table s dir))) s) (\<lambda>r s.
        case r of
          None \<Rightarrow> leave K [dir] None (- ENOSPC, None) s
        | Some i \<Rightarrow>
            let s = upd_inode i (\<lambda>n. n\<lparr>i_uid := euid (cur s), i_mode := ucast mode, i_dirt := 1\<rparr>) s in
            andThen (add_entry K dir base len s) (\<lambda>e s.
              case e of
                None \<Rightarrow> leave K [i, dir] None (- ENOSPC, None) (upd_inode i (\<lambda>n. n\<lparr>i_nlinks := i_nlinks n - 1\<rparr>) s)
              | Some (bh, k) \<Rightarrow>
                  andThen (brelse K (Some bh) (store_entry bh k (i_num (inode_table s i)) s)) (\<lambda>_ s.
                    leave K [dir] None (0, Some i) s))))"

definition open_namei ::
  "'a fs_state_scheme kernel_env \<Rightarrow> u32 \<Rightarrow> u32 \<Rightarrow> u32 \<Rightarrow> 'a fs_state_scheme \<Rightarrow>
     ('a fs_state_scheme, int \<times> nat option) outcome" where
  "open_namei K pathname flag mode s =
     (let flag = (if flag AND O_TRUNC \<noteq> 0 \<and> flag AND O_ACCMODE = 0 then flag OR 1 else flag);
          mode = (mode AND (0x1FF AND NOT (ucast (umask (cur s))))) OR 0x8000 in
      andThen (dir_namei K pathname s) (\<lambda>r s.
        case r of
          None \<Rightarrow> Ret (- ENOENT, None) s
        | Some (dir, base, len) \<Rightarrow>
            if len = 0 then
              if flag AND (O_ACCMODE OR O_CREAT OR O_TRUNC) = 0 then Ret (0, Some dir) s
              else leave K [dir] None (- EISDIR, None) s
            else andThen (find_entry K dir base len s) (\<lambda>(e, dir) s.
              case e of
                None \<Rightarrow>
                  if flag AND O_CREAT = 0 then leave K [dir] None (- ENOENT, None) s
                  else open_create K mode dir base len s
              | Some (bh, k) \<Rightarrow>
                  let inr = ucast (de_inode (bufs s bh) k); dev = ucast (i_dev (inode_table s dir)) in
                  andThen (brelse K (Some bh) s) (\<lambda>_ s.
                    andThen (iput K (Some dir) s) (\<lambda>_ s.
                      if flag AND O_EXCL \<noteq> 0 then Ret (- EEXIST, None) s
                      else andThen (iget K dev inr s) (\<lambda>i s.
                        if S_ISDIR (i_mode (inode_table s i)) \<and> flag AND O_ACCMODE \<noteq> 0 \<or>
                           \<not> permission i (ACC_MODE flag) s
                        then leave K [i] None (- EPERM, None) s
                        else let s = upd_inode i (\<lambda>n. n\<lparr>i_atime := CURRENT_TIME s\<rparr>) s in
                          andThen (if flag AND O_TRUNC \<noteq> 0 then truncate K i s else Ret () s)
                            (\<lambda>_ s. Ret (0, Some i) s)))))))"

section \<open>Making names\<close>

text \<open>
  The beginning that \<open>sys_mknod\<close> and \<open>sys_mkdir\<close> share: the directory must be found and writable and
  the name new; then \<open>build\<close> continues with the new inode.
\<close>

definition with_new_name ::
  "'a fs_state_scheme kernel_env \<Rightarrow> u32 \<Rightarrow>
   (nat \<Rightarrow> u32 \<Rightarrow> nat \<Rightarrow> nat \<Rightarrow> 'a fs_state_scheme \<Rightarrow> ('a fs_state_scheme, int) outcome) \<Rightarrow> 'a fs_state_scheme \<Rightarrow>
     ('a fs_state_scheme, int) outcome" where
  "with_new_name K filename build s =
     (if \<not> suser s then Ret (- EPERM) s
      else andThen (dir_namei K filename s) (\<lambda>r s.
        case r of
          None \<Rightarrow> Ret (- ENOENT) s
        | Some (dir, base, len) \<Rightarrow>
            if len = 0 then leave K [dir] None (- ENOENT) s
            else if \<not> permission dir MAY_WRITE s then leave K [dir] None (- EPERM) s
            else andThen (find_entry K dir base len s) (\<lambda>(e, dir) s.
              case e of
                Some (bh, k) \<Rightarrow> andThen (brelse K (Some bh) s) (\<lambda>_ s. leave K [dir] None (- EEXIST) s)
              | None \<Rightarrow>
                  andThen (new_inode K (ucast (i_dev (inode_table s dir))) s) (\<lambda>r s.
                    case r of
                      None \<Rightarrow> leave K [dir] None (- ENOSPC) s
                    | Some i \<Rightarrow> build dir base len i s))))"

definition sys_mknod ::
  "'a fs_state_scheme kernel_env \<Rightarrow> u32 \<Rightarrow> u32 \<Rightarrow> u32 \<Rightarrow> 'a fs_state_scheme \<Rightarrow> ('a fs_state_scheme, int) outcome" where
  "sys_mknod K filename mode dev s =
     with_new_name K filename (\<lambda>dir base len i s.
       let s = upd_inode i (\<lambda>n. n\<lparr>i_mode := ucast mode\<rparr>) s;
           s = (if mode AND 0xF000 = 0x6000 \<or> mode AND 0xF000 = 0x2000
                then upd_inode i (\<lambda>n. n\<lparr>i_zone := (i_zone n)(0 := ucast dev)\<rparr>) s else s);
           s = upd_inode i (\<lambda>n. n\<lparr>i_mtime := CURRENT_TIME s, i_atime := CURRENT_TIME s, i_dirt := 1\<rparr>) s in
       andThen (add_entry K dir base len s) (\<lambda>e s.
         case e of
           None \<Rightarrow>
             andThen (iput K (Some dir) s) (\<lambda>_ s.
               leave K [i] None (- ENOSPC) (upd_inode i (\<lambda>n. n\<lparr>i_nlinks := 0\<rparr>) s))
         | Some (bh, k) \<Rightarrow> leave K [dir, i] (Some bh) 0 (store_entry bh k (i_num (inode_table s i)) s))) s"

text \<open>The first two entries of a directory: \<open>.\<close> and \<open>..\<close>.\<close>

definition dots :: "u16 \<Rightarrow> u16 \<Rightarrow> buffer_head \<Rightarrow> buffer_head" where
  "dots self parent h =
     put_bytes_at 18 [46, 46, 0] (set_de_inode 1 parent (put_bytes_at 2 [46, 0] (set_de_inode 0 self h)))"

definition sys_mkdir ::
  "'a fs_state_scheme kernel_env \<Rightarrow> u32 \<Rightarrow> u32 \<Rightarrow> 'a fs_state_scheme \<Rightarrow> ('a fs_state_scheme, int) outcome" where
  "sys_mkdir K pathname mode s =
     with_new_name K pathname (\<lambda>dir base len i s.
       let s = upd_inode i (\<lambda>n. n\<lparr>i_size := 32, i_dirt := 1, i_mtime := CURRENT_TIME s, i_atime := CURRENT_TIME s\<rparr>) s in
       andThen (new_block K (ucast (i_dev (inode_table s i))) s) (\<lambda>b s.
         let s = upd_inode i (\<lambda>n. n\<lparr>i_zone := (i_zone n)(0 := ucast b)\<rparr>) s in
         if i_zone (inode_table s i) 0 = 0 then
           andThen (iput K (Some dir) s) (\<lambda>_ s.
             leave K [i] None (- ENOSPC) (upd_inode i (\<lambda>n. n\<lparr>i_nlinks := i_nlinks n - 1\<rparr>) s))
         else
           let s = upd_inode i (\<lambda>n. n\<lparr>i_dirt := 1\<rparr>) s;
               dev = ucast (i_dev (inode_table s i)); zone = ucast (i_zone (inode_table s i) 0) in
           andThen (bread K dev zone s) (\<lambda>r s.
             case r of
               None \<Rightarrow>
                 andThen (iput K (Some dir) s) (\<lambda>_ s.
                   andThen (free_block K (ucast (i_dev (inode_table s i))) (ucast (i_zone (inode_table s i) 0)) s) (\<lambda>_ s.
                     leave K [i] None (- ERROR) (upd_inode i (\<lambda>n. n\<lparr>i_nlinks := i_nlinks n - 1\<rparr>) s)))
             | Some db \<Rightarrow>
                 let s = upd_buf db (dots (i_num (inode_table s i)) (i_num (inode_table s dir))) s;
                     s = upd_inode i (\<lambda>n. n\<lparr>i_nlinks := 2\<rparr>) s;
                     s = upd_buf db (\<lambda>h. h\<lparr>b_dirt := 1\<rparr>) s in
                 andThen (brelse K (Some db) s) (\<lambda>_ s.
                   let s = upd_inode i (\<lambda>n. n\<lparr>i_mode := 0x4000 OR (ucast mode AND (0x1FF AND NOT (umask (cur s)))),
                             i_dirt := 1\<rparr>) s in
                   andThen (add_entry K dir base len s) (\<lambda>e s.
                     case e of
                       None \<Rightarrow>
                         andThen (iput K (Some dir) s) (\<lambda>_ s.
                           andThen (free_block K (ucast (i_dev (inode_table s i))) (ucast (i_zone (inode_table s i) 0)) s) (\<lambda>_ s.
                             leave K [i] None (- ENOSPC) (upd_inode i (\<lambda>n. n\<lparr>i_nlinks := 0\<rparr>) s)))
                     | Some (bh, k) \<Rightarrow>
                         let s = store_entry bh k (i_num (inode_table s i)) s;
                             s = upd_inode dir (\<lambda>n. n\<lparr>i_nlinks := i_nlinks n + 1, i_dirt := 1\<rparr>) s in
                         leave K [dir, i] (Some bh) 0 s))))) s"

section \<open>Removing names\<close>

text \<open>\<open>strcmp(t, de[k].name) == 0\<close>\<close>

definition name_is :: "u8 list \<Rightarrow> buffer_head \<Rightarrow> nat \<Rightarrow> bool" where
  "name_is t h k \<longleftrightarrow> list_all (\<lambda>j. de_name h k j = (t @ [0]) ! j) [0..<length t + 1]"

fun empty_dir_loop ::
  "'a fs_state_scheme kernel_env \<Rightarrow> nat \<Rightarrow> nat \<Rightarrow> nat \<Rightarrow> nat \<Rightarrow> nat \<Rightarrow> nat \<Rightarrow> 'a fs_state_scheme \<Rightarrow> ('a fs_state_scheme, bool) outcome" where
  "empty_dir_loop K 0 i len nr bh k s = Hang"
| "empty_dir_loop K (Suc n) i len nr bh k s =
     (let entry = (\<lambda>b k s.
        if de_inode (bufs s b) k \<noteq> 0 then andThen (brelse K (Some b) s) (\<lambda>_ s. Ret False s)
        else empty_dir_loop K n i len (nr + 1) b (k + 1) s) in
      if nr < len then
        if k < 64 then entry bh k s
        else andThen (brelse K (Some bh) s) (\<lambda>_ s.
          andThen (bmap K i (of_nat (nr div 64)) s) (\<lambda>block s.
            if block = 0 then empty_dir_loop K n i len (nr + 64) bh k s
            else andThen (bread K (ucast (i_dev (inode_table s i))) block s) (\<lambda>r s.
              case r of
                None \<Rightarrow> Ret False s
              | Some b \<Rightarrow> entry b 0 s)))
      else andThen (brelse K (Some bh) s) (\<lambda>_ s. Ret True s))"

definition empty_dir ::
  "'a fs_state_scheme kernel_env \<Rightarrow> nat \<Rightarrow> 'a fs_state_scheme \<Rightarrow> ('a fs_state_scheme, bool) outcome" where
  "empty_dir K i s =
     (let n = inode_table s i; len = unat (i_size n) div 16 in
      if len < 2 \<or> i_zone n 0 = 0 then Ret False s
      else andThen (bread K (ucast (i_dev n)) (ucast (i_zone n 0)) s) (\<lambda>r s.
        case r of
          None \<Rightarrow> Ret False s
        | Some bh \<Rightarrow>
            let h = bufs s bh in
            if de_inode h 0 \<noteq> i_num (inode_table s i) \<or> de_inode h 1 = 0 \<or> \<not> name_is [46] h 0 \<or> \<not> name_is [46, 46] h 1
            then Ret False s
            else empty_dir_loop K (bound K) i len 2 bh 2 s))"

text \<open>The beginning that \<open>sys_rmdir\<close> and \<open>sys_unlink\<close> share: the entry is found in a writable directory
  and its inode is obtained; \<open>remove\<close> continues with them.\<close>

definition with_old_name ::
  "'a fs_state_scheme kernel_env \<Rightarrow> u32 \<Rightarrow>
   (nat \<Rightarrow> nat \<Rightarrow> nat \<Rightarrow> nat \<Rightarrow> 'a fs_state_scheme \<Rightarrow> ('a fs_state_scheme, int) outcome) \<Rightarrow> 'a fs_state_scheme \<Rightarrow>
     ('a fs_state_scheme, int) outcome" where
  "with_old_name K name remove s =
     andThen (dir_namei K name s) (\<lambda>r s.
       case r of
         None \<Rightarrow> Ret (- ENOENT) s
       | Some (dir, base, len) \<Rightarrow>
           if len = 0 then leave K [dir] None (- ENOENT) s
           else if \<not> permission dir MAY_WRITE s then leave K [dir] None (- EPERM) s
           else andThen (find_entry K dir base len s) (\<lambda>(e, dir) s.
             case e of
               None \<Rightarrow> leave K [dir] None (- ENOENT) s
             | Some (bh, k) \<Rightarrow>
                 andThen (iget K (ucast (i_dev (inode_table s dir))) (ucast (de_inode (bufs s bh) k)) s) (\<lambda>i s.
                   remove dir bh k i s)))"

abbreviation (input) S_ISVTX :: u16 where "S_ISVTX \<equiv> 0x200"

definition sys_rmdir ::
  "'a fs_state_scheme kernel_env \<Rightarrow> u32 \<Rightarrow> 'a fs_state_scheme \<Rightarrow> ('a fs_state_scheme, int) outcome" where
  "sys_rmdir K name s =
     (if \<not> suser s then Ret (- EPERM) s
      else with_old_name K name (\<lambda>dir bh k i s.
        if i_mode (inode_table s dir) AND S_ISVTX \<noteq> 0 \<and> euid (cur s) \<noteq> 0 \<and> i_uid (inode_table s i) \<noteq> euid (cur s)
        then leave K [dir, i] (Some bh) (- EPERM) s
        else if i_dev (inode_table s i) \<noteq> i_dev (inode_table s dir) \<or> 1 < i_count (inode_table s i)
        then leave K [dir, i] (Some bh) (- EPERM) s
        else if i = dir then leave K [i, dir] (Some bh) (- EPERM) s
        else if \<not> S_ISDIR (i_mode (inode_table s i)) then leave K [i, dir] (Some bh) (- ENOTDIR) s
        else andThen (empty_dir K i s) (\<lambda>is_empty s.
          if \<not> is_empty then leave K [i, dir] (Some bh) (- ENOTEMPTY) s
          else andThen (brelse K (Some bh) (store_entry bh k 0 s)) (\<lambda>_ s.
            let s = upd_inode i (\<lambda>n. n\<lparr>i_nlinks := 0, i_dirt := 1\<rparr>) s;
                s = upd_inode dir (\<lambda>n. n\<lparr>i_nlinks := i_nlinks n - 1, i_ctime := CURRENT_TIME s,
                      i_mtime := CURRENT_TIME s, i_dirt := 1\<rparr>) s in
            leave K [dir, i] None 0 s))) s)"

definition sys_unlink ::
  "'a fs_state_scheme kernel_env \<Rightarrow> u32 \<Rightarrow> 'a fs_state_scheme \<Rightarrow> ('a fs_state_scheme, int) outcome" where
  "sys_unlink K name s =
     with_old_name K name (\<lambda>dir bh k i s.
       if i_mode (inode_table s dir) AND S_ISVTX \<noteq> 0 \<and> \<not> suser s \<and> euid (cur s) \<noteq> i_uid (inode_table s i) \<and>
          euid (cur s) \<noteq> i_uid (inode_table s dir)
       then leave K [dir, i] (Some bh) (- EPERM) s
       else if S_ISDIR (i_mode (inode_table s i)) then leave K [i, dir] (Some bh) (- EPERM) s
       else let s = (if i_nlinks (inode_table s i) = 0 then upd_inode i (\<lambda>n. n\<lparr>i_nlinks := 1\<rparr>) s else s) in
         andThen (brelse K (Some bh) (store_entry bh k 0 s)) (\<lambda>_ s.
           leave K [i, dir] None 0
             (upd_inode i (\<lambda>n. n\<lparr>i_nlinks := i_nlinks n - 1, i_dirt := 1, i_ctime := CURRENT_TIME s\<rparr>) s))) s"

section \<open>Links\<close>

definition sys_link ::
  "'a fs_state_scheme kernel_env \<Rightarrow> u32 \<Rightarrow> u32 \<Rightarrow> 'a fs_state_scheme \<Rightarrow> ('a fs_state_scheme, int) outcome" where
  "sys_link K oldname newname s =
     andThen (namei K oldname s) (\<lambda>r s.
       case r of
         None \<Rightarrow> Ret (- ENOENT) s
       | Some old \<Rightarrow>
           if S_ISDIR (i_mode (inode_table s old)) then leave K [old] None (- EPERM) s
           else andThen (dir_namei K newname s) (\<lambda>r s.
             case r of
               None \<Rightarrow> leave K [old] None (- EACCES) s
             | Some (dir, base, len) \<Rightarrow>
                 if len = 0 then leave K [old, dir] None (- EPERM) s
                 else if i_dev (inode_table s dir) \<noteq> i_dev (inode_table s old) then leave K [dir, old] None (- EXDEV) s
                 else if \<not> permission dir MAY_WRITE s then leave K [dir, old] None (- EACCES) s
                 else andThen (find_entry K dir base len s) (\<lambda>(e, dir) s.
                   case e of
                     Some (bh, k) \<Rightarrow> andThen (brelse K (Some bh) s) (\<lambda>_ s. leave K [dir, old] None (- EEXIST) s)
                   | None \<Rightarrow>
                       andThen (add_entry K dir base len s) (\<lambda>e s.
                         case e of
                           None \<Rightarrow> leave K [dir, old] None (- ENOSPC) s
                         | Some (bh, k) \<Rightarrow>
                             andThen (brelse K (Some bh) (store_entry bh k (i_num (inode_table s old)) s)) (\<lambda>_ s.
                               andThen (iput K (Some dir) s) (\<lambda>_ s.
                                 leave K [old] None 0 (upd_inode old (\<lambda>n. n\<lparr>i_nlinks := i_nlinks n + 1,
                                   i_ctime := CURRENT_TIME s, i_dirt := 1\<rparr>) s)))))))"

end
