(* ===== verification/Files.thy ===== *)
theory Files
  imports File_IO Namei_Calls
begin

text \<open>
  Open files: \<^verbatim>\<open>fs/open.c\<close>, \<^verbatim>\<open>fs/fcntl.c\<close>, \<^verbatim>\<open>fs/stat.c\<close>, \<^verbatim>\<open>fs/ioctl.c\<close>, \<open>sys_pipe\<close> of \<^verbatim>\<open>fs/pipe.c\<close>, the
  character devices (\<^verbatim>\<open>fs/char_dev.c\<close>), and \<open>sys_read\<close> and \<open>sys_write\<close> (\<^verbatim>\<open>fs/read_write.c\<close>).

  The terminal driver is the argument \<open>tty\<close>: what \<open>tty_read\<close> and \<open>tty_write\<close> do for a minor number, a
  user address and a count.
\<close>

type_synonym 's tty_driver = "int \<Rightarrow> u32 \<Rightarrow> u32 \<Rightarrow> int \<Rightarrow> 's \<Rightarrow> ('s, int) outcome"

section \<open>Character devices\<close>

definition rw_ttyx :: "'s tty_driver \<Rightarrow> int \<Rightarrow> u32 \<Rightarrow> u32 \<Rightarrow> int \<Rightarrow> 's \<Rightarrow> ('s, int) outcome" where
  "rw_ttyx tty_io rw minor buf count s = tty_io rw minor buf count s"

definition rw_tty ::
  "'a fs_state_scheme tty_driver \<Rightarrow> int \<Rightarrow> u32 \<Rightarrow> int \<Rightarrow> 'a fs_state_scheme \<Rightarrow> ('a fs_state_scheme, int) outcome" where
  "rw_tty tty_io rw buf count s =
     (if tty (cur s) <s 0 then Ret (- EPERM) s else rw_ttyx tty_io rw (tty (cur s)) buf count s)"

text \<open>The loop of \<open>rw_port\<close> from port \<open>i\<close> on: the port it ends at.\<close>

fun port_loop :: "int \<Rightarrow> nat \<Rightarrow> s32 \<Rightarrow> u32 \<Rightarrow> 'a fs_state_scheme \<Rightarrow> s32 \<times> 'a fs_state_scheme" where
  "port_loop rw 0 i buf s = (i, s)"
| "port_loop rw (Suc n) i buf s =
     (if i <s 65536 then
        port_loop rw n (i + 1) (buf + 1)
          (if rw = READ then put_fs_byte (ports s i) buf s else outb (get_fs_byte buf s) i s)
      else (i, s))"

definition rw_port :: "int \<Rightarrow> u32 \<Rightarrow> int \<Rightarrow> nat \<Rightarrow> 'a fs_state_scheme \<Rightarrow> ('a fs_state_scheme, int) outcome" where
  "rw_port rw buf count f s =
     (let (i, s) = port_loop rw (nat count) (f_pos (file_table s f)) buf s;
          d = i - f_pos (file_table s f)
      in Ret (sint d) (upd_file f (\<lambda>x. x\<lparr>f_pos := f_pos x + d\<rparr>) s))"

definition rw_memory ::
  "int \<Rightarrow> u32 \<Rightarrow> u32 \<Rightarrow> int \<Rightarrow> nat \<Rightarrow> 'a fs_state_scheme \<Rightarrow> ('a fs_state_scheme, int) outcome" where
  "rw_memory rw minor buf count f s =
     (if minor = 0 \<or> minor = 1 \<or> minor = 2 then Ret (- EIO) s
      else if minor = 3 then Ret (if rw = READ then 0 else count) s
      else if minor = 4 then rw_port rw buf count f s
      else Ret (- EIO) s)"

text \<open>\<open>rw_char\<close>: the table \<open>crw_table\<close> has entries for the majors 1, 4 and 5.\<close>

definition rw_char ::
  "'a fs_state_scheme tty_driver \<Rightarrow> int \<Rightarrow> u32 \<Rightarrow> u32 \<Rightarrow> int \<Rightarrow> nat \<Rightarrow> 'a fs_state_scheme \<Rightarrow>
     ('a fs_state_scheme, int) outcome" where
  "rw_char tty_io rw dev buf count f s =
     (let major = MAJOR dev in
      if 8 \<le> major then Ret (- ENODEV) s
      else if major = 1 then rw_memory rw (MINOR dev) buf count f s
      else if major = 4 then rw_ttyx tty_io rw (MINOR dev) buf count s
      else if major = 5 then rw_tty tty_io rw buf count s
      else Ret (- ENODEV) s)"

section \<open>Reading and writing\<close>

definition sys_read ::
  "'a fs_state_scheme kernel_env \<Rightarrow> 'a fs_state_scheme tty_driver \<Rightarrow> u32 \<Rightarrow> u32 \<Rightarrow> s32 \<Rightarrow> 'a fs_state_scheme \<Rightarrow>
     ('a fs_state_scheme, int) outcome" where
  "sys_read K tty_io fd buf count s =
     (if count <s 0 then Ret (- EINVAL) s
      else case file_of fd s of
        None \<Rightarrow> Ret (- EINVAL) s
      | Some f \<Rightarrow>
          if count = 0 then Ret 0 s
          else andThen (verify_area buf (sint count) s) (\<lambda>_ s.
            case f_inode (file_table s f) of
              None \<Rightarrow> Hang
            | Some i \<Rightarrow>
                let n = inode_table s i; zone = ucast (i_zone n 0) in
                if i_pipe n \<noteq> 0 then
                  if f_mode (file_table s f) AND 1 \<noteq> 0 then read_pipe K (bound K) i buf count 0 s else Ret (- EIO) s
                else if S_ISCHR (i_mode n) then rw_char tty_io READ zone buf (sint count) f s
                else if S_ISBLK (i_mode n) then block_read K zone f buf (sint count) s
                else if S_ISDIR (i_mode n) \<or> S_ISREG (i_mode n) then
                  let count = (if i_size n < count + f_pos (file_table s f)
                               then i_size n - f_pos (file_table s f) else count) in
                  if count \<le>s 0 then Ret 0 s else file_read K i f buf (sint count) s
                else Ret (- EINVAL) s))"

definition sys_write ::
  "'a fs_state_scheme kernel_env \<Rightarrow> 'a fs_state_scheme tty_driver \<Rightarrow> u32 \<Rightarrow> u32 \<Rightarrow> s32 \<Rightarrow> 'a fs_state_scheme \<Rightarrow>
     ('a fs_state_scheme, int) outcome" where
  "sys_write K tty_io fd buf count s =
     (if count <s 0 then Ret (- EINVAL) s
      else case file_of fd s of
        None \<Rightarrow> Ret (- EINVAL) s
      | Some f \<Rightarrow>
          if count = 0 then Ret 0 s
          else case f_inode (file_table s f) of
              None \<Rightarrow> Hang
            | Some i \<Rightarrow>
                let n = inode_table s i; zone = ucast (i_zone n 0) in
                if i_pipe n \<noteq> 0 then
                  if f_mode (file_table s f) AND 2 \<noteq> 0 then write_pipe K (bound K) i buf count 0 s else Ret (- EIO) s
                else if S_ISCHR (i_mode n) then rw_char tty_io WRITE zone buf (sint count) f s
                else if S_ISBLK (i_mode n) then block_write K zone f buf (sint count) s
                else if S_ISREG (i_mode n) then file_write K i f buf (sint count) s
                else Ret (- EINVAL) s)"

section \<open>Opening and closing\<close>

definition sys_ustat :: "'a fs_state_scheme \<Rightarrow> int \<times> 'a fs_state_scheme" where
  "sys_ustat s = (- ENOSYS, s)"

definition set_fd :: "nat \<Rightarrow> nat option \<Rightarrow> 'a fs_state_scheme \<Rightarrow> 'a fs_state_scheme" where
  "set_fd fd v s = upd_cur (\<lambda>t. t\<lparr>filp := (filp t)(fd := v)\<rparr>) s"

definition clear_cloexec :: "nat \<Rightarrow> 'a fs_state_scheme \<Rightarrow> 'a fs_state_scheme" where
  "clear_cloexec fd s = upd_cur (\<lambda>t. t\<lparr>close_on_exec := close_on_exec t AND NOT (push_bit fd 1)\<rparr>) s"

text \<open>What \<open>sys_open\<close> does for a character device: false when the caller has no terminal for major 5.\<close>

definition open_tty :: "nat \<Rightarrow> 'a fs_state_scheme \<Rightarrow> bool \<times> 'a fs_state_scheme" where
  "open_tty i s =
     (let dev = ucast (i_zone (inode_table s i) 0) :: u32 in
      if \<not> S_ISCHR (i_mode (inode_table s i)) then (True, s)
      else if MAJOR dev = 4 then
        if leader (cur s) \<noteq> 0 \<and> tty (cur s) <s 0 then
          let s = upd_cur (\<lambda>t. t\<lparr>tty := MINOR dev\<rparr>) s
          in (True, s\<lparr>tty_pgrp := (tty_pgrp s)(unat (tty (cur s)) := pgrp (cur s))\<rparr>)
        else (True, s)
      else if MAJOR dev = 5 then (\<not> tty (cur s) <s 0, s)
      else (True, s))"

definition sys_open ::
  "'a fs_state_scheme kernel_env \<Rightarrow> u32 \<Rightarrow> u32 \<Rightarrow> u32 \<Rightarrow> 'a fs_state_scheme \<Rightarrow> ('a fs_state_scheme, int) outcome" where
  "sys_open K filename flag mode s =
     (let mode = mode AND (0x1FF AND NOT (ucast (umask (cur s)))) in
      case find (\<lambda>fd. filp (cur s) fd = None) [0..<NR_OPEN] of
        None \<Rightarrow> Ret (- EINVAL) s
      | Some fd \<Rightarrow>
          let s = clear_cloexec fd s in
          (case find (\<lambda>i. f_count (file_table s i) = 0) [0..<NR_FILE] of
             None \<Rightarrow> Ret (- EINVAL) s
           | Some f \<Rightarrow>
               let s = upd_file f (\<lambda>x. x\<lparr>f_count := f_count x + 1\<rparr>) (set_fd fd (Some f) s);
                   undo = (\<lambda>s. upd_file f (\<lambda>x. x\<lparr>f_count := 0\<rparr>) (set_fd fd None s)) in
               andThen (open_namei K filename flag mode s) (\<lambda>(r, inode) s.
                 if r < 0 then Ret r (undo s)
                 else case inode of
                   None \<Rightarrow> Hang
                 | Some i \<Rightarrow>
                     let (ok, s) = open_tty i s in
                     if \<not> ok then andThen (iput K (Some i) s) (\<lambda>_ s. Ret (- EPERM) (undo s))
                     else andThen
                       (if S_ISBLK (i_mode (inode_table s i)) then check_disk_change K (ucast (i_zone (inode_table s i) 0)) s
                        else Ret () s)
                       (\<lambda>_ s. Ret (int fd) (upd_file f (\<lambda>x. x\<lparr>f_mode := i_mode (inode_table s i), f_flags := ucast flag,
                          f_count := 1, f_inode := Some i, f_pos := 0\<rparr>) s)))))"

definition sys_creat ::
  "'a fs_state_scheme kernel_env \<Rightarrow> u32 \<Rightarrow> u32 \<Rightarrow> 'a fs_state_scheme \<Rightarrow> ('a fs_state_scheme, int) outcome" where
  "sys_creat K pathname mode s = sys_open K pathname (O_CREAT OR O_TRUNC) mode s"

definition sys_close ::
  "'a fs_state_scheme kernel_env \<Rightarrow> u32 \<Rightarrow> 'a fs_state_scheme \<Rightarrow> ('a fs_state_scheme, int) outcome" where
  "sys_close K fd s =
     (if 20 \<le> fd then Ret (- EINVAL) s
      else let s = clear_cloexec (unat fd) s in
        case filp (cur s) (unat fd) of
          None \<Rightarrow> Ret (- EINVAL) s
        | Some f \<Rightarrow>
            let s = set_fd (unat fd) None s in
            if f_count (file_table s f) = 0 then Panic ''Close: file count is 0'' s
            else let s = upd_file f (\<lambda>x. x\<lparr>f_count := f_count x - 1\<rparr>) s in
              if f_count (file_table s f) \<noteq> 0 then Ret 0 s
              else andThen (iput K (f_inode (file_table s f)) s) (\<lambda>_ s. Ret 0 s))"

section \<open>Descriptors (fcntl.c)\<close>

definition dupfd :: "u32 \<Rightarrow> u32 \<Rightarrow> 'a fs_state_scheme \<Rightarrow> int \<times> 'a fs_state_scheme" where
  "dupfd fd arg s =
     (case file_of fd s of
        None \<Rightarrow> (- EBADF, s)
      | Some f \<Rightarrow>
          if 20 \<le> arg then (- EINVAL, s)
          else case find (\<lambda>k. filp (cur s) k = None) [unat arg..<NR_OPEN] of
              None \<Rightarrow> (- EMFILE, s)
            | Some k \<Rightarrow>
                (int k, upd_file f (\<lambda>x. x\<lparr>f_count := f_count x + 1\<rparr>) (set_fd k (Some f) (clear_cloexec k s))))"

definition sys_dup2 ::
  "'a fs_state_scheme kernel_env \<Rightarrow> u32 \<Rightarrow> u32 \<Rightarrow> 'a fs_state_scheme \<Rightarrow> ('a fs_state_scheme, int) outcome" where
  "sys_dup2 K oldfd newfd s =
     andThen (sys_close K newfd s) (\<lambda>_ s. let (r, s) = dupfd oldfd newfd s in Ret r s)"

definition sys_dup :: "u32 \<Rightarrow> 'a fs_state_scheme \<Rightarrow> int \<times> 'a fs_state_scheme" where
  "sys_dup fildes s = dupfd fildes 0 s"

definition sys_fcntl :: "u32 \<Rightarrow> u32 \<Rightarrow> u32 \<Rightarrow> 'a fs_state_scheme \<Rightarrow> int \<times> 'a fs_state_scheme" where
  "sys_fcntl fd cmd arg s =
     (case file_of fd s of
        None \<Rightarrow> (- EBADF, s)
      | Some f \<Rightarrow>
          if cmd = 0 then dupfd fd arg s
          else if cmd = 1 then (if bit (close_on_exec (cur s)) (unat fd) then 1 else 0, s)
          else if cmd = 2 then
            (0, if arg AND 1 \<noteq> 0
                then upd_cur (\<lambda>t. t\<lparr>close_on_exec := close_on_exec t OR push_bit (unat fd) 1\<rparr>) s
                else clear_cloexec (unat fd) s)
          else if cmd = 3 then (int (unat (f_flags (file_table s f))), s)
          else if cmd = 4 then
            (0, upd_file f (\<lambda>x. x\<lparr>f_flags := (f_flags x AND NOT 0xC00) OR (ucast arg AND 0xC00)\<rparr>) s)
          else (-1, s))"

section \<open>Times, permissions and the current directory (open.c)\<close>

definition sys_utime ::
  "'a fs_state_scheme kernel_env \<Rightarrow> u32 \<Rightarrow> u32 \<Rightarrow> 'a fs_state_scheme \<Rightarrow> ('a fs_state_scheme, int) outcome" where
  "sys_utime K filename tms s =
     andThen (namei K filename s) (\<lambda>r s.
       case r of
         None \<Rightarrow> Ret (- ENOENT) s
       | Some i \<Rightarrow>
           let actime = (if tms \<noteq> 0 then get_fs_long tms s else CURRENT_TIME s);
               modtime = (if tms \<noteq> 0 then get_fs_long (tms + 4) s else CURRENT_TIME s) in
           leave K [i] None 0 (upd_inode i (\<lambda>n. n\<lparr>i_atime := actime, i_mtime := modtime, i_dirt := 1\<rparr>) s))"

definition sys_access ::
  "'a fs_state_scheme kernel_env \<Rightarrow> u32 \<Rightarrow> u32 \<Rightarrow> 'a fs_state_scheme \<Rightarrow> ('a fs_state_scheme, int) outcome" where
  "sys_access K filename mode s =
     (let mode = mode AND 7 in
      andThen (namei K filename s) (\<lambda>r s.
        case r of
          None \<Rightarrow> Ret (- EACCES) s
        | Some i \<Rightarrow>
            let m = ucast (i_mode (inode_table s i)) AND 0x1FF :: u32 in
            andThen (iput K (Some i) s) (\<lambda>_ s.
              let res = (if uid (cur s) = i_uid (inode_table s i) then drop_bit 6 m
                         else if gid (cur s) = ucast (i_gid (inode_table s i)) then drop_bit 6 m else m) in
              if res AND 7 AND mode = mode then Ret 0 s
              else if uid (cur s) = 0 \<and> (mode AND 1 = 0 \<or> m AND 0x49 \<noteq> 0) then Ret 0 s
              else Ret (- EACCES) s)))"

definition change_dir ::
  "'a fs_state_scheme kernel_env \<Rightarrow> (task_struct \<Rightarrow> nat option) \<Rightarrow> (nat option \<Rightarrow> task_struct \<Rightarrow> task_struct) \<Rightarrow>
   u32 \<Rightarrow> 'a fs_state_scheme \<Rightarrow> ('a fs_state_scheme, int) outcome" where
  "change_dir K sel store filename s =
     andThen (namei K filename s) (\<lambda>r s.
       case r of
         None \<Rightarrow> Ret (- ENOENT) s
       | Some i \<Rightarrow>
           if \<not> S_ISDIR (i_mode (inode_table s i)) then leave K [i] None (- ENOTDIR) s
           else andThen (iput K (sel (cur s)) s) (\<lambda>_ s. Ret 0 (upd_cur (store (Some i)) s)))"

definition sys_chdir ::
  "'a fs_state_scheme kernel_env \<Rightarrow> u32 \<Rightarrow> 'a fs_state_scheme \<Rightarrow> ('a fs_state_scheme, int) outcome" where
  "sys_chdir K filename s = change_dir K pwd (\<lambda>v t. t\<lparr>pwd := v\<rparr>) filename s"

definition sys_chroot ::
  "'a fs_state_scheme kernel_env \<Rightarrow> u32 \<Rightarrow> 'a fs_state_scheme \<Rightarrow> ('a fs_state_scheme, int) outcome" where
  "sys_chroot K filename s = change_dir K root (\<lambda>v t. t\<lparr>root := v\<rparr>) filename s"

definition sys_chmod ::
  "'a fs_state_scheme kernel_env \<Rightarrow> u32 \<Rightarrow> u32 \<Rightarrow> 'a fs_state_scheme \<Rightarrow> ('a fs_state_scheme, int) outcome" where
  "sys_chmod K filename mode s =
     andThen (namei K filename s) (\<lambda>r s.
       case r of
         None \<Rightarrow> Ret (- ENOENT) s
       | Some i \<Rightarrow>
           if euid (cur s) \<noteq> i_uid (inode_table s i) \<and> \<not> suser s then leave K [i] None (- EACCES) s
           else leave K [i] None 0 (upd_inode i (\<lambda>n.
             n\<lparr>i_mode := (ucast mode AND 0xFFF) OR (i_mode n AND NOT 0xFFF), i_dirt := 1\<rparr>) s))"

definition sys_chown ::
  "'a fs_state_scheme kernel_env \<Rightarrow> u32 \<Rightarrow> u32 \<Rightarrow> u32 \<Rightarrow> 'a fs_state_scheme \<Rightarrow> ('a fs_state_scheme, int) outcome" where
  "sys_chown K filename u g s =
     andThen (namei K filename s) (\<lambda>r s.
       case r of
         None \<Rightarrow> Ret (- ENOENT) s
       | Some i \<Rightarrow>
           if \<not> suser s then leave K [i] None (- EACCES) s
           else leave K [i] None 0 (upd_inode i (\<lambda>n. n\<lparr>i_uid := ucast u, i_gid := ucast g, i_dirt := 1\<rparr>) s))"

section \<open>Status (stat.c)\<close>

text \<open>\<open>struct stat\<close>, 32 bytes. The bytes that align its fields
  are not set by the code; \<open>junk\<close> are their values.\<close>

definition stat_bytes :: "(nat \<Rightarrow> u8) \<Rightarrow> m_inode \<Rightarrow> u8 list" where
  "stat_bytes junk n = enc16 (i_dev n) @ enc16 (i_num n) @ enc16 (i_mode n) @ [i_nlinks n, junk 0] @
     enc16 (i_uid n) @ [i_gid n, junk 1] @ enc16 (i_zone n 0) @ [junk 2, junk 3] @
     enc32 (i_size n) @ enc32 (i_atime n) @ enc32 (i_mtime n) @ enc32 (i_ctime n)"

definition cp_stat ::
  "(nat \<Rightarrow> u8) \<Rightarrow> nat \<Rightarrow> u32 \<Rightarrow> 'a fs_state_scheme \<Rightarrow> ('a fs_state_scheme, unit) outcome" where
  "cp_stat junk i statbuf s =
     andThen (verify_area statbuf 32 s) (\<lambda>_ s. Ret () (bytes_to_user (stat_bytes junk (inode_table s i)) statbuf s))"

definition sys_stat ::
  "'a fs_state_scheme kernel_env \<Rightarrow> (nat \<Rightarrow> u8) \<Rightarrow> u32 \<Rightarrow> u32 \<Rightarrow> 'a fs_state_scheme \<Rightarrow> ('a fs_state_scheme, int) outcome" where
  "sys_stat K junk filename statbuf s =
     andThen (namei K filename s) (\<lambda>r s.
       case r of
         None \<Rightarrow> Ret (- ENOENT) s
       | Some i \<Rightarrow> andThen (cp_stat junk i statbuf s) (\<lambda>_ s. leave K [i] None 0 s))"

definition sys_fstat ::
  "(nat \<Rightarrow> u8) \<Rightarrow> u32 \<Rightarrow> u32 \<Rightarrow> 'a fs_state_scheme \<Rightarrow> ('a fs_state_scheme, int) outcome" where
  "sys_fstat junk fd statbuf s =
     (case file_of fd s of
        None \<Rightarrow> Ret (- EBADF) s
      | Some f \<Rightarrow>
          (case f_inode (file_table s f) of
             None \<Rightarrow> Ret (- EBADF) s
           | Some i \<Rightarrow> andThen (cp_stat junk i statbuf s) (\<lambda>_ s. Ret 0 s)))"

section \<open>Device control (ioctl.c)\<close>

text \<open>\<open>tty_ioctl\<close> is the argument \<open>ctl\<close>.\<close>

definition sys_ioctl ::
  "(u32 \<Rightarrow> u32 \<Rightarrow> u32 \<Rightarrow> 'a fs_state_scheme \<Rightarrow> ('a fs_state_scheme, int) outcome) \<Rightarrow> u32 \<Rightarrow> u32 \<Rightarrow> u32 \<Rightarrow>
   'a fs_state_scheme \<Rightarrow> ('a fs_state_scheme, int) outcome" where
  "sys_ioctl ctl fd cmd arg s =
     (case file_of fd s of
        None \<Rightarrow> Ret (- EBADF) s
      | Some f \<Rightarrow>
          (case f_inode (file_table s f) of
             None \<Rightarrow> Hang
           | Some i \<Rightarrow>
               let m = i_mode (inode_table s i); dev = ucast (i_zone (inode_table s i) 0) in
               if \<not> S_ISCHR m \<and> \<not> S_ISBLK m then Ret (- EINVAL) s
               else if 8 \<le> MAJOR dev then Ret (- ENODEV) s
               else if MAJOR dev = 4 \<or> MAJOR dev = 5 then ctl dev cmd arg s
               else Ret (- ENOTTY) s))"

section \<open>Making a pipe (pipe.c)\<close>

text \<open>The first two indices below a limit with a property.\<close>

definition first_two :: "(nat \<Rightarrow> bool) \<Rightarrow> nat \<Rightarrow> nat list" where
  "first_two p n = take 2 (filter p [0..<n])"

definition sys_pipe ::
  "'a fs_state_scheme kernel_env \<Rightarrow> u32 \<Rightarrow> 'a fs_state_scheme \<Rightarrow> ('a fs_state_scheme, int) outcome" where
  "sys_pipe K fildes s =
     (case first_two (\<lambda>i. f_count (file_table s i) = 0) NR_FILE of
        [f0, f1] \<Rightarrow>
          let s = upd_file f1 (\<lambda>x. x\<lparr>f_count := f_count x + 1\<rparr>) (upd_file f0 (\<lambda>x. x\<lparr>f_count := f_count x + 1\<rparr>) s);
              free = (\<lambda>s. upd_file f1 (\<lambda>x. x\<lparr>f_count := 0\<rparr>) (upd_file f0 (\<lambda>x. x\<lparr>f_count := 0\<rparr>) s)) in
          (case first_two (\<lambda>k. filp (cur s) k = None) NR_OPEN of
             [fd0, fd1] \<Rightarrow>
               andThen (get_pipe_inode K (set_fd fd1 (Some f1) (set_fd fd0 (Some f0) s))) (\<lambda>r s.
                 case r of
                   None \<Rightarrow> Ret (-1) (free (set_fd fd0 None (set_fd fd1 None s)))
                 | Some i \<Rightarrow>
                     let s = upd_file f0 (\<lambda>x. x\<lparr>f_inode := Some i, f_pos := 0, f_mode := 1\<rparr>) s;
                         s = upd_file f1 (\<lambda>x. x\<lparr>f_inode := Some i, f_pos := 0, f_mode := 2\<rparr>) s
                     in Ret 0 (put_fs_long (of_nat fd1) (fildes + 4) (put_fs_long (of_nat fd0) fildes s)))
           | _ \<Rightarrow> Ret (-1) (free s))
      | _ \<Rightarrow> Ret (-1) s)"

end
