(* ===== verification/Elevator.thy ===== *)
theory Elevator
  imports Block Chains Fs_Examples
begin

text \<open>
  The request list as an elevator. The order of the requests is a linear order on their keys (command,
  device, sector); \<open>add_request\<close> keeps the entries that are queued in their order, the one being served
  at the head, and the list in at most two ascending sweeps.
\<close>

section \<open>The order of requests\<close>

datatype req_key = Req_Key (k_cmd: int) (k_dev: s32) (k_sector: u32)

lemma sint_inj: "sint a = sint b \<Longrightarrow> a = b"
  by (simp add: signed_word_eqI)

lemma req_key_eq: "a = b \<longleftrightarrow> k_cmd a = k_cmd b \<and> k_dev a = k_dev b \<and> k_sector a = k_sector b"
  by (cases a; cases b) simp

instantiation req_key :: linorder
begin

definition less_req_key :: "req_key \<Rightarrow> req_key \<Rightarrow> bool" where
  "less_req_key a b \<longleftrightarrow> k_cmd a < k_cmd b \<or> k_cmd a = k_cmd b \<and>
     (k_dev a <s k_dev b \<or> k_dev a = k_dev b \<and> k_sector a < k_sector b)"

definition less_eq_req_key :: "req_key \<Rightarrow> req_key \<Rightarrow> bool" where
  "less_eq_req_key a b \<longleftrightarrow> a = b \<or> a < b"

instance
  by standard
    (auto simp: less_req_key_def less_eq_req_key_def word_sless_alt req_key_eq dest!: sint_inj)

end

definition key :: "request_struct \<Rightarrow> req_key" where
  "key r = Req_Key (r_cmd r) (r_dev r) (r_sector r)"

lemma IN_ORDER_key: "IN_ORDER a b \<longleftrightarrow> key a < key b"
  by (simp add: IN_ORDER_def key_def less_req_key_def)

section \<open>Sweeps\<close>

text \<open>The number of ascending runs of a list after the first.\<close>

fun turns :: "'k::linorder list \<Rightarrow> nat" where
  "turns (x # y # zs) = (if x < y then 0 else 1) + turns (y # zs)"
| "turns _ = 0"

text \<open>Where the loop of \<open>add_request\<close> puts a key in a list with a head.\<close>

fun place :: "('a \<Rightarrow> 'k::linorder) \<Rightarrow> 'a \<Rightarrow> 'a list \<Rightarrow> 'a list" where
  "place k r [] = [r]"
| "place k r [x] = [x, r]"
| "place k r (x # y # zs) =
     (if (k x < k r \<or> \<not> k x < k y) \<and> k r < k y then x # r # y # zs else x # place k r (y # zs))"

lemma place_not_Nil [simp]: "place k r xs \<noteq> []"
  by (induction k r xs rule: place.induct) auto

lemma hd_place: "xs \<noteq> [] \<Longrightarrow> hd (place k r xs) = hd xs"
  by (induction k r xs rule: place.induct) auto

lemma turns_Cons: "xs \<noteq> [] \<Longrightarrow> turns (x # xs) = (if x < hd xs then 0 else 1) + turns xs"
  by (cases xs) auto

lemma turns_place_above:
  "xs \<noteq> [] \<Longrightarrow> k (hd xs) < k r \<Longrightarrow> k r \<notin> k ` set xs \<Longrightarrow> turns (map k (place k r xs)) \<le> turns (map k xs)"
  by (induction k r xs rule: place.induct) (auto simp: turns_Cons hd_map hd_place)

lemma turns_place:
  "xs \<noteq> [] \<Longrightarrow> k r \<notin> k ` set xs \<Longrightarrow> turns (map k (place k r xs)) \<le> max 1 (turns (map k xs))"
proof (induction k r xs rule: place.induct)
  case (3 k r x y zs)
  show ?case
  proof (cases "(k x < k r \<or> \<not> k x < k y) \<and> k r < k y")
    case False
    show ?thesis
    proof (cases "k x < k y")
      case True
      then show ?thesis using False 3 by (simp add: turns_Cons hd_map hd_place)
    next
      case desc: False
      then have "k y < k r" using False 3(3) by auto
      then have "turns (map k (place k r (y # zs))) \<le> turns (map k (y # zs))" using 3(3) by (intro turns_place_above) auto
      then show ?thesis using False desc by (auto simp: turns_Cons hd_map hd_place)
    qed
  qed auto
qed auto

lemma set_place: "set (place k r xs) = insert r (set xs)"
  by (induction k r xs rule: place.induct) auto

lemma place_keeps_order: "r \<notin> set xs \<Longrightarrow> filter (\<lambda>x. x \<noteq> r) (place k r xs) = xs"
  by (induction k r xs rule: place.induct) (auto simp: filter_id_conv)

section \<open>The list in the request table\<close>

lemma find_place_place:
  assumes "linked (\<lambda>j. r_next (request s j)) (Some x) (x # xs)" and "length (x # xs) \<le> n"
  shows "\<exists>t ys zs. find_place n x req s = Some t \<and> x # xs = ys @ t # zs \<and>
    place (\<lambda>j. key (request s j)) req (x # xs) = ys @ t # req # zs"
  using assms
proof (induction xs arbitrary: x n)
  case Nil
  then show ?case by (cases n) auto
next
  case (Cons y xs)
  then obtain m where n: "n = Suc m" by (cases n) auto
  have nx: "r_next (request s x) = Some y" using Cons.prems(1) by simp
  show ?case
  proof (cases "(key (request s x) < key (request s req) \<or> \<not> key (request s x) < key (request s y)) \<and>
      key (request s req) < key (request s y)")
    case True
    then have "find_place n x req s = Some x" using nx by (simp add: n IN_ORDER_key)
    then show ?thesis using True by (intro exI [of _ x] exI [of _ "[]"] exI [of _ "y # xs"]) simp
  next
    case False
    have "find_place n x req s =
        (if (key (request s x) < key (request s req) \<or> \<not> key (request s x) < key (request s y)) \<and>
            key (request s req) < key (request s y) then Some x else find_place m y req s)"
      using nx by (simp add: n IN_ORDER_key)
    then have "find_place n x req s = find_place m y req s" unfolding if_not_P [OF False] .
    moreover obtain t ys zs where "find_place m y req s = Some t" "y # xs = ys @ t # zs"
      "place (\<lambda>j. key (request s j)) req (y # xs) = ys @ t # req # zs"
      using Cons.IH [of y m] Cons.prems n by auto
    moreover have "place (\<lambda>j. key (request s j)) req (x # y # xs) = x # place (\<lambda>j. key (request s j)) req (y # xs)"
      unfolding place.simps if_not_P [OF False] ..
    ultimately show ?thesis by (metis append_Cons)
  qed
qed

text \<open>The list of a major device as \<open>add_request\<close> leaves it: \<open>place\<close> on the list before.\<close>

lemma add_request_place:
  assumes l: "linked (\<lambda>j. r_next (request s j)) (current_request s major) (x # xs)"
    and req: "req \<notin> set (x # xs)" and n: "length (x # xs) \<le> bound K"
  shows "returns (add_request K major req s) (\<lambda>_ t.
      linked (\<lambda>j. r_next (request t j)) (current_request t major) (place (\<lambda>j. key (request s j)) req (x # xs)) \<and>
      (\<forall>j. key (request t j) = key (request s j)) \<and> current_request t = current_request s)"
proof -
  define s1 where "s1 = upd_req req (\<lambda>r. r\<lparr>r_next := None\<rparr>) s"
  define s2 where "s2 = (case r_bh (request s1 req) of Some b \<Rightarrow> upd_buf b (\<lambda>h. h\<lparr>b_dirt := 0\<rparr>) s1 | None \<Rightarrow> s1)"
  have r2: "request s2 = request s1" "current_request s2 = current_request s"
    by (simp_all add: s2_def s1_def split: option.splits)
  have k: "key (request s2 j) = key (request s j)" for j by (simp add: r2 s1_def key_def)
  have l2: "linked (\<lambda>j. r_next (request s2 j)) (Some x) (x # xs)"
    using l req by (subst linked_cong [where nx' = "\<lambda>j. r_next (request s j)"]) (auto simp: r2 s1_def)
  obtain t ys zs where t: "find_place (bound K) x req s2 = Some t" "x # xs = ys @ t # zs"
    "place (\<lambda>j. key (request s2 j)) req (x # xs) = ys @ t # req # zs"
    using find_place_place [OF l2 n] by blast
  have c: "current_request s major = Some x" using l by simp
  have tr: "t \<noteq> req" using req t(2) by (metis in_set_conv_decomp)
  have run: "add_request K major req s =
      Ret () (upd_req t (\<lambda>r. r\<lparr>r_next := Some req\<rparr>) (upd_req req (\<lambda>r. r\<lparr>r_next := r_next (request s2 t)\<rparr>) s2))"
    unfolding add_request_def Let_def s1_def [symmetric] s2_def [symmetric] by (simp add: r2 c t)
  have "linked ((\<lambda>j. r_next (request s2 j))(req := r_next (request s2 t), t := Some req)) (Some x) (ys @ t # req # zs)"
    using l2 req linked_distinct [OF l2] by (intro linked_insert) (simp_all add: t(2))
  moreover have "(\<lambda>j. r_next (request s2 j))(req := r_next (request s2 t), t := Some req) =
      (\<lambda>j. r_next (((request s2)(req := (request s2 req)\<lparr>r_next := r_next (request s2 t)\<rparr>,
        t := (request s2 t)\<lparr>r_next := Some req\<rparr>)) j))"
    using tr by (auto simp: fun_eq_iff)
  ultimately show ?thesis unfolding run using tr t(3) k
    by (auto simp: r2(2) c key_def fun_eq_iff)
qed

text \<open>C20: the elevator. Adding a request to a list that is being served (its head is in the hands of the
  driver) leaves the head where it is, keeps the requests already queued in their order, adds the new one
  and nothing else, and leaves the list in at most two ascending sweeps (or as many as it had): a request is
  passed over by the requests of at most one sweep. The new request differs from each queued one in
  command, device or sector.\<close>

theorem add_request_elevator:
  fixes s :: "'a fs_state_scheme"
  assumes "linked (\<lambda>j. r_next (request s j)) (current_request s major) (x # xs)"
    and "req \<notin> set (x # xs)" and "length (x # xs) \<le> bound K"
    and "\<And>j. j \<in> set (x # xs) \<Longrightarrow> key (request s j) \<noteq> key (request s req)"
  shows "returns (add_request K major req s) (\<lambda>_ t. \<exists>ys.
      linked (\<lambda>j. r_next (request t j)) (current_request t major) (x # ys) \<and>
      set ys = insert req (set xs) \<and> filter (\<lambda>j. j \<noteq> req) ys = xs \<and>
      turns (map (\<lambda>j. key (request t j)) (x # ys)) \<le> max 1 (turns (map (\<lambda>j. key (request s j)) (x # xs))))"
proof (rule returns_mono [OF add_request_place [OF assms(1-3)]], elim conjE)
  fix t :: "'a fs_state_scheme"
  let ?k = "\<lambda>j. key (request s j)"
  assume l: "linked (\<lambda>j. r_next (request t j)) (current_request t major) (place ?k req (x # xs))"
    and k: "\<forall>j. key (request t j) = ?k j"
  obtain y ys where p: "place ?k req (x # xs) = y # ys" by (cases "place ?k req (x # xs)") auto
  have "y = x" using hd_place [of "x # xs" ?k req] by (simp add: p)
  have d: "distinct (y # ys)" using l unfolding p by (rule linked_distinct)
  have "insert x (set ys) = insert req (insert x (set xs))" using set_place [of ?k req "x # xs"] by (simp add: p \<open>y = x\<close>)
  moreover have "x \<notin> set ys" using d by (simp add: \<open>y = x\<close>)
  moreover have "x \<notin> set xs" using linked_distinct [OF assms(1)] by simp
  moreover have "x \<noteq> req" using assms(2) by simp
  ultimately have s: "set ys = insert req (set xs)" by (metis insert_commute insert_iff insert_ident)
  have "filter (\<lambda>j. j \<noteq> req) (x # ys) = x # xs"
    using place_keeps_order [OF assms(2), of ?k] unfolding p \<open>y = x\<close> .
  then have f: "filter (\<lambda>j. j \<noteq> req) ys = xs" using \<open>x \<noteq> req\<close> by simp
  have "?k req \<notin> ?k ` set (x # xs)" using assms(4) by (metis imageE)
  then have "turns (map ?k (x # ys)) \<le> max 1 (turns (map ?k (x # xs)))"
    using turns_place [of "x # xs" ?k req] unfolding p \<open>y = x\<close> by blast
  then have "turns (map (\<lambda>j. key (request t j)) (x # ys)) \<le> max 1 (turns (map ?k (x # xs)))" by (simp add: k)
  moreover have "linked (\<lambda>j. r_next (request t j)) (current_request t major) (x # ys)"
    using l unfolding p \<open>y = x\<close> .
  ultimately show "\<exists>ys. linked (\<lambda>j. r_next (request t j)) (current_request t major) (x # ys) \<and>
      set ys = insert req (set xs) \<and> filter (\<lambda>j. j \<noteq> req) ys = xs \<and>
      turns (map (\<lambda>j. key (request t j)) (x # ys)) \<le> max 1 (turns (map ?k (x # xs)))"
    using s f by blast
qed

text \<open>Three reads queued at sectors 8, 20, 4 (the second sweep begins at 4), and a fourth at 14.\<close>

definition busy_disk :: fs_state where
  "busy_disk = empty_fs\<lparr>request := (request empty_fs)
     (0 := no_request\<lparr>r_dev := 0x301, r_sector := 8, r_next := Some 1\<rparr>,
      1 := no_request\<lparr>r_dev := 0x301, r_sector := 20, r_next := Some 2\<rparr>,
      2 := no_request\<lparr>r_dev := 0x301, r_sector := 4\<rparr>,
      3 := no_request\<lparr>r_dev := 0x301, r_sector := 14\<rparr>),
     current_request := (\<lambda>_. None)(3 := Some 0)\<rparr>"

theorem add_request_elevator_witness:
  "returns (add_request quiet 3 3 busy_disk) (\<lambda>_ t. \<exists>ys.
      linked (\<lambda>j. r_next (request t j)) (current_request t 3) (0 # ys) \<and>
      set ys = insert 3 (set [1, 2]) \<and> filter (\<lambda>j. j \<noteq> 3) ys = [1, 2] \<and>
      turns (map (\<lambda>j. key (request t j)) (0 # ys)) \<le> max 1 (turns (map (\<lambda>j. key (request busy_disk j)) [0, 1, 2])))"
  by (rule add_request_elevator) (auto simp: busy_disk_def no_request_def key_def)

end
