(* ===== verification/Ramdisk_Properties.thy ===== *)
theory Ramdisk_Properties
  imports Elevator Fs_Lemmas
begin

text \<open>
  The block layer with the ram disk behind it: a request for a block of the disk is served before
  \<open>ll_rw_block\<close> returns, and the disk is memory: what is written to a block is what is read from it.
\<close>

section \<open>One request\<close>

definition in_disk :: "u32 \<Rightarrow> 'a fs_state_scheme \<Rightarrow> bool" where
  "in_disk blk s \<longleftrightarrow> unat (rd_start s) + unat (rd_length s) < 2 ^ 32 \<and> (unat blk + 1) * 1024 \<le> unat (rd_length s)"

definition disk_byte :: "u32 \<Rightarrow> nat \<Rightarrow> 'a fs_state_scheme \<Rightarrow> u8" where
  "disk_byte blk k s = get_kbyte (rd_start s + 1024 * blk + of_nat k) s"

lemma rd_addr: "push_bit 9 (blk * 2) = 1024 * (blk::u32)"
  by (simp add: push_bit_eq_mult)

lemma in_disk_fits:
  assumes "in_disk blk s"
  shows "\<not> rd_start s + rd_length s < rd_start s + 1024 * blk + 1024"
    and "unat (rd_start s + 1024 * blk) = unat (rd_start s) + 1024 * unat blk"
proof -
  have b: "unat (rd_start s) + 1024 * unat blk + 1024 < 4294967296" "1024 * unat blk < 4294967296"
    using assms by (simp_all add: in_disk_def)
  have m: "unat (1024 * blk) = 1024 * unat blk" using b(2) by (simp add: unat_word_ariths)
  show a: "unat (rd_start s + 1024 * blk) = unat (rd_start s) + 1024 * unat blk"
    using b m by (simp add: unat_word_ariths)
  have "unat (rd_start s + 1024 * blk + 1024) = unat (rd_start s) + 1024 * unat blk + 1024"
    using b a by (simp add: unat_word_ariths)
  moreover have "unat (rd_start s + rd_length s) = unat (rd_start s) + unat (rd_length s)"
    using assms by (simp add: in_disk_def unat_word_ariths)
  ultimately show "\<not> rd_start s + rd_length s < rd_start s + 1024 * blk + 1024"
    using assms by (simp add: word_less_nat_alt in_disk_def)
qed

definition off_disk :: "u32 \<Rightarrow> 'a fs_state_scheme \<Rightarrow> bool" where
  "off_disk blk s \<longleftrightarrow> unat (rd_start s) + 1024 * (unat blk + 1) < 2 ^ 32 \<and> unat (rd_length s) < 1024 * (unat blk + 1)"

lemma off_disk_fits: "off_disk blk s \<Longrightarrow> rd_start s + rd_length s < rd_start s + 1024 * blk + 1024"
  by (simp add: off_disk_def word_less_nat_alt unat_word_ariths)

text \<open>A request of \<open>make_request\<close> for a block of the disk, alone in the list.\<close>

definition rd_request :: "int \<Rightarrow> nat \<Rightarrow> nat \<Rightarrow> 'a fs_state_scheme \<Rightarrow> bool" where
  "rd_request rw i b s \<longleftrightarrow> current_request s 1 = Some i \<and> r_dev (request s i) = 0x101 \<and> r_cmd (request s i) = rw \<and>
     r_sector (request s i) = push_bit 1 (b_blocknr (bufs s b)) \<and> r_nr_sectors (request s i) = 2 \<and>
     r_buffer (request s i) = Some b \<and> r_boff (request s i) = 0 \<and> r_bh (request s i) = Some b \<and> r_next (request s i) = None \<and>
     b_lock (bufs s b) = 1"

definition rd_copied :: "int \<Rightarrow> nat \<Rightarrow> 'a fs_state_scheme \<Rightarrow> 'a fs_state_scheme" where
  "rd_copied rw b s = (let addr = rd_start s + 1024 * b_blocknr (bufs s b) in
     if rw = WRITE then put_kbytes addr (read_block b 1024 s) s else write_block b (get_kbytes addr 1024 s) s)"

lemma dev_101: "MAJOR (0x101::u32) = 1" "MINOR (0x101::u32) = 1"
  by (simp_all add: MAJOR_def MINOR_def)

lemma rd_copied_frame [simp]:
  "request (rd_copied rw b s) = request s" "current_request (rd_copied rw b s) = current_request s"
  by (simp_all add: rd_copied_def Let_def write_block_def)

definition rd_served :: "int \<Rightarrow> nat \<Rightarrow> nat \<Rightarrow> bool \<Rightarrow> 'a fs_state_scheme \<Rightarrow> 'a fs_state_scheme" where
  "rd_served rw i b ok s = (if ok then end_request 1 (\<lambda>_ s. s) 1 i (rd_copied rw b s) else end_request 1 (\<lambda>_ s. s) 0 i s)"

lemma do_rd_request_one:
  assumes "rd_request rw i b s" and "rw = READ \<or> rw = WRITE"
    and ok: "if ok then in_disk (b_blocknr (bufs s b)) s else off_disk (b_blocknr (bufs s b)) s"
  shows "do_rd_request (Suc (Suc n)) s = Ret () (rd_served rw i b ok s)"
proof -
  have step: "rd_step i s = Ret () (rd_served rw i b ok s)"
    using assms in_disk_fits(1) [of "b_blocknr (bufs s b)" s] off_disk_fits [of "b_blocknr (bufs s b)" s]
    by (auto simp: rd_step_def rd_request_def rd_addr dev_101 rd_copied_def Let_def rd_served_def simp flip: add.assoc)
  have "current_request (rd_served rw i b ok s) 1 = None"
    using assms(1) by (simp add: rd_served_def end_request_def rd_request_def Let_def unlock_buffer_def)
  then show ?thesis using assms step by (simp add: rd_request_def dev_101 buf_locked_def)
qed

text \<open>From \<open>ll_rw_block\<close> to the served request, on an unlocked buffer and with the list empty.\<close>

definition rd_ready :: "'a fs_state_scheme kernel_env \<Rightarrow> nat \<Rightarrow> 'a fs_state_scheme \<Rightarrow> bool" where
  "rd_ready K b s \<longleftrightarrow> request_fn K 1 = Some (do_rd_request (bound K)) \<and> 2 \<le> bound K \<and> current_request s 1 = None \<and>
     b_dev (bufs s b) = 0x101 \<and> b_lock (bufs s b) = 0"

definition rd_queued :: "int \<Rightarrow> nat \<Rightarrow> nat \<Rightarrow> 'a fs_state_scheme \<Rightarrow> 'a fs_state_scheme" where
  "rd_queued rw i b s =
     (let s = upd_buf b (\<lambda>h. h\<lparr>b_lock := 1, b_dirt := 0\<rparr>) (upd_req i (\<lambda>r. r\<lparr>r_dev := 0x101, r_cmd := rw,
        r_errors := 0, r_sector := push_bit 1 (b_blocknr (bufs s b)), r_nr_sectors := 2, r_buffer := Some b, r_boff := 0,
        r_waiting := 0, r_bh := Some b, r_next := None\<rparr>) s)
      in s\<lparr>current_request := (current_request s)(1 := Some i)\<rparr>)"

lemma ll_rw_block_rd:
  assumes "rd_ready K b s" and rw: "rw = READ \<and> b_uptodate (bufs s b) = 0 \<or> rw = WRITE \<and> b_dirt (bufs s b) \<noteq> 0"
    and i: "free_request (if rw = READ then 32 else 21) s = Some i"
    and ok: "if ok then in_disk (b_blocknr (bufs s b)) s else off_disk (b_blocknr (bufs s b)) s"
  shows "ll_rw_block K rw b s = Ret () (rd_served rw i b ok (rd_queued rw i b s))"
proof -
  obtain n where n: "bound K = Suc (Suc n)" using assms(1) by (metis rd_ready_def add_2_eq_Suc le_Suc_ex)
  have q: "rd_request rw i b (rd_queued rw i b s)"
    using assms(1) by (simp add: rd_request_def rd_queued_def rd_ready_def in_disk_def Let_def)
  have f: "free_request m (upd_buf b f s) = free_request m s" for m f by (induction m) simp_all
  let ?s = "upd_buf b (\<lambda>h. h\<lparr>b_lock := 1\<rparr>) s"
  let ?r = "\<lambda>r. r\<lparr>r_dev := 0x101, r_cmd := rw, r_errors := 0, r_sector := push_bit 1 (b_blocknr (bufs s b)),
      r_nr_sectors := 2, r_buffer := Some b, r_boff := 0, r_waiting := 0, r_bh := Some b, r_next := None\<rparr>"
  have st: "(upd_buf b (\<lambda>h. h\<lparr>b_dirt := 0\<rparr>) (upd_req i (\<lambda>r. r\<lparr>r_next := None\<rparr>) (upd_req i ?r ?s)))
      \<lparr>current_request := (current_request s)(1 := Some i)\<rparr> = rd_queued rw i b s"
    by (simp add: rd_queued_def upd_buf_def upd_req_def Let_def)
  have "add_request K 1 i (upd_req i ?r ?s) = do_rd_request (bound K) (rd_queued rw i b s)"
    unfolding st [symmetric] using assms(1) by (simp add: add_request_def rd_ready_def Let_def del: do_rd_request.simps)
  moreover have "queue_request K (Suc (Suc n)) 1 rw False b ?s = add_request K 1 i (upd_req i ?r ?s)"
    using i rw assms(1) by (subst queue_request.simps(2)) (auto simp: f rd_ready_def simp del: queue_request.simps)
  moreover have "ll_rw_block K rw b s = queue_request K (bound K) 1 rw False b ?s"
    using assms(1) rw
    by (auto simp: ll_rw_block_def make_request_def lock_buffer_def buf_locked_def rd_ready_def dev_101
      simp del: queue_request.simps)
  ultimately have "ll_rw_block K rw b s = do_rd_request (bound K) (rd_queued rw i b s)" by (simp only: n)
  also have "\<dots> = Ret () (rd_served rw i b ok (rd_queued rw i b s))"
    unfolding n using q rw ok
    by (intro do_rd_request_one) (auto simp: rd_queued_def in_disk_def off_disk_def Let_def)
  finally show ?thesis .
qed

text \<open>The state the served request leaves.\<close>

lemma rd_served_simps:
  fixes s :: "'a fs_state_scheme" and ok :: bool and i :: nat
  assumes "rd_ready K b s" and "rw = READ \<or> rw = WRITE"
  defines "t \<equiv> rd_served rw i b ok (rd_queued rw i b s)"
  shows "current_request t 1 = None" and "r_dev (request t i) = - 1"
    and "bufs t = (bufs s)(b := (bufs s b)\<lparr>b_lock := 0, b_dirt := 0, b_uptodate := (if ok then 1 else 0),
      b_data := (if ok \<and> rw = READ then \<lambda>k. if k < 1024 then disk_byte (b_blocknr (bufs s b)) k s else b_data (bufs s b) k
                 else b_data (bufs s b))\<rparr>)"
    and "rd_start t = rd_start s" "rd_length t = rd_length s"
    and "get_kbyte a t = (if ok \<and> rw = WRITE \<and> unat (a - (rd_start s + 1024 * b_blocknr (bufs s b))) < 1024
           then b_data (bufs s b) (unat (a - (rd_start s + 1024 * b_blocknr (bufs s b)))) else get_kbyte a s)"
proof -
  note defs = t_def rd_served_def end_request_def rd_queued_def rd_copied_def unlock_buffer_def Let_def
    write_block_def get_kbytes_def disk_byte_def read_block_def
  show "current_request t 1 = None" "r_dev (request t i) = - 1" "rd_start t = rd_start s" "rd_length t = rd_length s"
    using assms(2) by (auto simp: defs)
  show "bufs t = (bufs s)(b := (bufs s b)\<lparr>b_lock := 0, b_dirt := 0, b_uptodate := (if ok then 1 else 0),
      b_data := (if ok \<and> rw = READ then \<lambda>k. if k < 1024 then disk_byte (b_blocknr (bufs s b)) k s else b_data (bufs s b) k
                 else b_data (bufs s b))\<rparr>)"
    using assms(2) by (auto simp: defs upd_buf_def upd_req_def fun_eq_iff)
  show "get_kbyte a t = (if ok \<and> rw = WRITE \<and> unat (a - (rd_start s + 1024 * b_blocknr (bufs s b))) < 1024
           then b_data (bufs s b) (unat (a - (rd_start s + 1024 * b_blocknr (bufs s b)))) else get_kbyte a s)"
    using assms(2) by (auto simp: defs upd_buf_def upd_req_def get_put_kbytes)
qed

section \<open>The disk as seen by the buffer cache\<close>

lemma free_request_freed:
  "r_dev (request s i) = - 1 \<Longrightarrow> i < n \<Longrightarrow> \<exists>j. free_request n s = Some j"
  by (induction n) (auto simp: less_Suc_eq word_sless_alt)

lemma free_request_bound: "free_request n s = Some i \<Longrightarrow> i < n"
  by (induction n) (auto split: if_splits)

text \<open>C21: reading from the ram disk. \<open>ll_rw_block(READ, bh)\<close> for an unlocked buffer that is not up to date,
  with nothing queued and a free entry in the request table, returns after the block is read: the buffer
  holds the block of the disk, is up to date and unlocked, no other buffer and no byte of memory is changed,
  the list is empty again and its entry free. A block that ends beyond the disk is an error: the buffer is
  unlocked and stays not up to date.\<close>

theorem ramdisk_read:
  fixes s :: "'a fs_state_scheme"
  assumes "rd_ready K b s" and "b_uptodate (bufs s b) = 0" and "free_request 32 s = Some i"
    and "if ok then in_disk (b_blocknr (bufs s b)) s else off_disk (b_blocknr (bufs s b)) s"
  shows "returns (ll_rw_block K READ b s) (\<lambda>_ t.
      bufs t = (bufs s)(b := (bufs s b)\<lparr>b_lock := 0, b_dirt := 0, b_uptodate := (if ok then 1 else 0),
        b_data := (if ok then \<lambda>k. if k < 1024 then disk_byte (b_blocknr (bufs s b)) k s else b_data (bufs s b) k
                   else b_data (bufs s b))\<rparr>) \<and>
      (\<forall>a. get_kbyte a t = get_kbyte a s) \<and> current_request t 1 = None \<and> r_dev (request t i) = - 1)"
  using ll_rw_block_rd [OF assms(1), where rw = READ and i = i and ok = ok] assms(2-) rd_served_simps [OF assms(1), where rw = READ and i = i and ok = ok] by simp

text \<open>C22: the ram disk is a disk. A dirty buffer written to a block of the disk and the same block read into
  another buffer: the second buffer has the bytes of the first, which is clean and unlocked.\<close>

theorem ramdisk_write_then_read:
  fixes s :: "'a fs_state_scheme"
  assumes "rd_ready K b s" and "b_dirt (bufs s b) \<noteq> 0" and "free_request 21 s = Some i"
    and "in_disk (b_blocknr (bufs s b)) s"
    and "rd_ready K c s" and "c \<noteq> b" and "b_blocknr (bufs s c) = b_blocknr (bufs s b)" and "b_uptodate (bufs s c) = 0"
  shows "returns (andThen (ll_rw_block K WRITE b s) (\<lambda>_. ll_rw_block K READ c)) (\<lambda>_ t.
      (\<forall>k<1024. b_data (bufs t c) k = b_data (bufs s b) k) \<and> b_uptodate (bufs t c) = 1 \<and>
      b_dirt (bufs t b) = 0 \<and> b_lock (bufs t b) = 0 \<and> b_data (bufs t b) = b_data (bufs s b))"
proof -
  define t where "t = rd_served WRITE i b True (rd_queued WRITE i b s)"
  have w: "ll_rw_block K WRITE b s = Ret () t"
    using ll_rw_block_rd [OF assms(1), where rw = WRITE and i = i and ok = True] assms(2-4) by (simp add: t_def)
  note t = rd_served_simps [OF assms(1), where rw = WRITE and i = i and ok = True, folded t_def, simplified]
  have tc: "bufs t c = bufs s c" using assms(6) t(3) by simp
  have ready: "rd_ready K c t" using assms(5,6) t by (simp add: rd_ready_def tc)
  have "i < 32" using free_request_bound [OF assms(3)] by simp
  then obtain j where j: "free_request 32 t = Some j" using free_request_freed [OF t(2)] by blast
  have d: "in_disk (b_blocknr (bufs t c)) t" using assms(4,7) t by (simp add: in_disk_def tc)
  have byte: "disk_byte (b_blocknr (bufs s b)) k t = b_data (bufs s b) k" if "k < 1024" for k
    using that t by (simp add: disk_byte_def unat_of_nat_u32)
  have "returns (ll_rw_block K READ c t) (\<lambda>_ u. bufs u = (bufs t)(c := (bufs t c)\<lparr>b_lock := 0, b_dirt := 0,
      b_uptodate := 1, b_data := \<lambda>k. if k < 1024 then disk_byte (b_blocknr (bufs t c)) k t else b_data (bufs t c) k\<rparr>))"
    using ll_rw_block_rd [OF ready, where rw = READ and i = j and ok = True] j d assms(8) rd_served_simps(3) [OF ready, where rw = READ and i = j and ok = True]
    by (simp add: tc)
  then show ?thesis unfolding w andThen.simps
    by (rule returns_mono) (use assms(6,7) byte t(3) in \<open>simp add: tc\<close>)
qed

text \<open>A disk of four blocks; the first byte of block 1 is 7, block 2 is about to be written.\<close>

definition disk_fs :: fs_state where
  "disk_fs = put_kbyte 7 0x200400 (empty_fs\<lparr>rd_start := 0x200000, rd_length := 4096, bufs := (free_buf)
     (0 := (free_buf 0)\<lparr>b_dev := 0x101, b_blocknr := 1\<rparr>,
      1 := (free_buf 1)\<lparr>b_dev := 0x101, b_blocknr := 2, b_dirt := 1, b_data := (\<lambda>k. of_nat k)\<rparr>,
      2 := (free_buf 2)\<lparr>b_dev := 0x101, b_blocknr := 2\<rparr>)\<rparr>)"

definition rd_env :: "fs_state kernel_env" where
  "rd_env = quiet\<lparr>request_fn := (\<lambda>major. if major = 1 then Some (do_rd_request 100) else None)\<rparr>"

lemma disk_fs_simps [simp]:
  "rd_start disk_fs = 0x200000" "rd_length disk_fs = 4096" "request disk_fs = (\<lambda>_. no_request)"
  "current_request disk_fs = (\<lambda>_. None)"
  "bufs disk_fs = free_buf(0 := (free_buf 0)\<lparr>b_dev := 0x101, b_blocknr := 1\<rparr>,
      1 := (free_buf 1)\<lparr>b_dev := 0x101, b_blocknr := 2, b_dirt := 1, b_data := (\<lambda>k. of_nat k)\<rparr>,
      2 := (free_buf 2)\<lparr>b_dev := 0x101, b_blocknr := 2\<rparr>)"
  by (simp_all add: disk_fs_def)

lemma rd_env_ready: "i < 3 \<Longrightarrow> rd_ready rd_env i disk_fs"
  by (auto simp: rd_ready_def rd_env_def quiet_def free_buf_def)

lemma free_request_empty: "0 < n \<Longrightarrow> (\<And>i. request s i = no_request) \<Longrightarrow> free_request n s = Some (n - 1)"
  by (cases n) (auto simp: no_request_def word_sless_alt)

theorem ramdisk_read_witness:
  "\<exists>t. ll_rw_block rd_env READ 0 disk_fs = Ret () t \<and> b_data (bufs t 0) 0 = 7 \<and> b_uptodate (bufs t 0) = 1"
proof -
  have "if True then in_disk (b_blocknr (bufs disk_fs 0)) disk_fs else off_disk (b_blocknr (bufs disk_fs 0)) disk_fs"
    by (simp add: in_disk_def)
  from ramdisk_read [OF rd_env_ready _ free_request_empty this] show ?thesis
    by (auto simp: free_buf_def disk_byte_def disk_fs_def elim!: returnsE)
qed

theorem ramdisk_write_then_read_witness:
  "\<exists>t. andThen (ll_rw_block rd_env WRITE 1 disk_fs) (\<lambda>_. ll_rw_block rd_env READ 2) = Ret () t \<and>
     b_data (bufs t 2) 5 = 5"
proof -
  have "in_disk (b_blocknr (bufs disk_fs 1)) disk_fs" by (simp add: in_disk_def)
  from ramdisk_write_then_read [OF rd_env_ready _ free_request_empty this rd_env_ready, of 2] show ?thesis
    by (auto simp: free_buf_def elim!: returnsE)
qed

section \<open>Room for reads\<close>

lemma free_request_None: "free_request n s = None \<longleftrightarrow> (\<forall>j<n. \<not> r_dev (request s j) <s 0)"
  by (induction n) (auto simp: less_Suc_eq)

lemma free_request_highest:
  "i < n \<Longrightarrow> r_dev (request s i) <s 0 \<Longrightarrow> (\<And>j. i < j \<Longrightarrow> j < n \<Longrightarrow> \<not> r_dev (request s j) <s 0) \<Longrightarrow> free_request n s = Some i"
  by (induction n) (auto simp: less_Suc_eq)

lemma free_request_upd_buf [simp]: "free_request n (upd_buf b f s) = free_request n s"
  by (induction n) simp_all

text \<open>C23: the last third of the request table is for reads. With the first 21 entries in use and a free
  entry among the others, a write-ahead of a dirty buffer leaves the request table, the lists and the buffers
  as they are (it does not wait and takes no entry), and a read of the same buffer takes the highest free
  entry and joins the list behind its head.\<close>

theorem requests_keep_room_for_reads:
  fixes s :: "'a fs_state_scheme"
  assumes busy: "\<forall>j<21. \<not> r_dev (request s j) <s 0"
    and i: "21 \<le> i" "i < 32" "r_dev (request s i) <s 0" "\<And>j. i < j \<Longrightarrow> j < 32 \<Longrightarrow> \<not> r_dev (request s j) <s 0"
    and b: "b_lock (bufs s b) = 0" "b_uptodate (bufs s b) = 0" "b_dirt (bufs s b) \<noteq> 0"
    and l: "linked (\<lambda>j. r_next (request s j)) (current_request s major) (x # xs)"
    and queued: "\<And>j. j \<in> set (x # xs) \<Longrightarrow> \<not> r_dev (request s j) <s 0"
    and bound: "length (x # xs) \<le> bound K"
  shows "returns (make_request K major WRITEA b s) (\<lambda>_ t.
      request t = request s \<and> current_request t = current_request s \<and> bufs t = bufs s) \<and>
    returns (make_request K major READ b s) (\<lambda>_ t. \<exists>ys.
      linked (\<lambda>j. r_next (request t j)) (current_request t major) (x # ys) \<and> set ys = insert i (set xs))"
proof
  obtain n where n: "bound K = Suc n" using bound by (cases "bound K") auto
  have lock: "(bufs s b)\<lparr>b_lock := 0\<rparr> = bufs s b" using b(1) by simp
  have none: "free_request 21 s = None" using busy by (simp add: free_request_None)
  show "returns (make_request K major WRITEA b s) (\<lambda>_ t.
      request t = request s \<and> current_request t = current_request s \<and> bufs t = bufs s)"
    using b none
    by (simp add: make_request_def lock_buffer_def buf_locked_def n unlock_buffer_def lock)
  have f: "free_request 32 (upd_buf b g s) = Some i" for g using i by (simp add: free_request_highest)
  let ?s = "upd_req i (\<lambda>r. r\<lparr>r_dev := ucast (b_dev (bufs s b)), r_cmd := READ, r_errors := 0,
      r_sector := push_bit 1 (b_blocknr (bufs s b)), r_nr_sectors := 2, r_buffer := Some b, r_boff := 0, r_waiting := 0,
      r_bh := Some b, r_next := None\<rparr>) (upd_buf b (\<lambda>h. h\<lparr>b_lock := 1\<rparr>) s)"
  have new: "i \<notin> set (x # xs)" using queued i(3) by blast
  have "linked (\<lambda>j. r_next (request ?s j)) (current_request ?s major) (x # xs)"
    using l new by (subst linked_cong [where nx' = "\<lambda>j. r_next (request s j)"]) auto
  from add_request_place [OF this new bound]
  have "returns (add_request K major i ?s) (\<lambda>_ t. \<exists>ys.
      linked (\<lambda>j. r_next (request t j)) (current_request t major) (x # ys) \<and> set ys = insert i (set xs))"
  proof (rule returns_mono, elim conjE)
    fix t :: "'a fs_state_scheme"
    assume lt: "linked (\<lambda>j. r_next (request t j)) (current_request t major) (place (\<lambda>j. key (request ?s j)) i (x # xs))"
    obtain y ys where p: "place (\<lambda>j. key (request ?s j)) i (x # xs) = y # ys"
      by (cases "place (\<lambda>j. key (request ?s j)) i (x # xs)") auto
    have "y = x" using hd_place [of "x # xs" "\<lambda>j. key (request ?s j)" i] by (simp only: p list.sel) simp
    have "distinct (y # ys)" using lt unfolding p by (rule linked_distinct)
    moreover have "x \<notin> set xs" using linked_distinct [OF l] by simp
    moreover have "set (y # ys) = insert i (set (x # xs))"
      using set_place [of "\<lambda>j. key (request ?s j)" i "x # xs"] by (simp only: p)
    ultimately have "set ys = insert i (set xs)" using new by (auto simp: \<open>y = x\<close>)
    then show "\<exists>ys. linked (\<lambda>j. r_next (request t j)) (current_request t major) (x # ys) \<and> set ys = insert i (set xs)"
      using lt unfolding p \<open>y = x\<close> by blast
  qed
  moreover have "make_request K major READ b s = add_request K major i ?s"
    using b f by (simp add: make_request_def lock_buffer_def buf_locked_def n)
  ultimately show "returns (make_request K major READ b s) (\<lambda>_ t. \<exists>ys.
      linked (\<lambda>j. r_next (request t j)) (current_request t major) (x # ys) \<and> set ys = insert i (set xs))" by simp
qed

text \<open>All entries but 25 are in use; the list of device 3 is the entry 30.\<close>

definition full_table :: fs_state where
  "full_table = empty_fs\<lparr>request := (\<lambda>j. if j = 25 then no_request else no_request\<lparr>r_dev := 0x301\<rparr>),
     current_request := (\<lambda>_. None)(3 := Some 30), bufs := free_buf(0 := (free_buf 0)\<lparr>b_dirt := 1\<rparr>)\<rparr>"

theorem requests_keep_room_for_reads_witness:
  "\<exists>t u. make_request quiet 3 WRITEA 0 full_table = Ret () t \<and> request t = request full_table \<and>
     make_request quiet 3 READ 0 full_table = Ret () u \<and> linked (\<lambda>j. r_next (request u j)) (current_request u 3) [30, 25]"
proof -
  have "linked (\<lambda>j. r_next (request full_table j)) (current_request full_table 3) [30]"
    by (simp add: full_table_def no_request_def)
  from requests_keep_room_for_reads [OF _ _ _ _ _ _ _ _ this, of 25 0 quiet]
  obtain t u ys where "make_request quiet 3 WRITEA 0 full_table = Ret () t" "request t = request full_table"
    "make_request quiet 3 READ 0 full_table = Ret () u"
    and l: "linked (\<lambda>j. r_next (request u j)) (current_request u 3) (30 # ys)" and s: "set ys = {25}"
    by (auto simp: full_table_def no_request_def free_buf_def word_sless_alt elim!: returnsE)
  moreover have "ys = [25]"
    using linked_distinct [OF l] s by (cases ys) (auto simp: subset_singleton_iff)
  ultimately show ?thesis by blast
qed

end
