(* ===== verification/Cache_Properties.thy ===== *)
theory Cache_Properties
  imports Buffer Chains Fs_Lemmas Fs_Examples
begin

text \<open>
  The buffer cache as a table from blocks to buffers: the invariant of its hash queues and of the ring of
  free buffers, the search, and the reuse of a buffer for another block.
\<close>

section \<open>The invariant\<close>

abbreviation next_of :: "'a fs_state_scheme \<Rightarrow> nat \<Rightarrow> nat option" where "next_of s \<equiv> (\<lambda>b. b_next (bufs s b))"
abbreviation prev_of :: "'a fs_state_scheme \<Rightarrow> nat \<Rightarrow> nat option" where "prev_of s \<equiv> (\<lambda>b. b_prev (bufs s b))"
abbreviation next_free_of :: "'a fs_state_scheme \<Rightarrow> nat \<Rightarrow> nat option" where "next_free_of s \<equiv> (\<lambda>b. b_next_free (bufs s b))"
abbreviation prev_free_of :: "'a fs_state_scheme \<Rightarrow> nat \<Rightarrow> nat option" where "prev_free_of s \<equiv> (\<lambda>b. b_prev_free (bufs s b))"

text \<open>The buffers \<open>D\<close> are the ones in the hash queues, each in the queue of its block.\<close>

definition hash_ok :: "nat set \<Rightarrow> 'a fs_state_scheme \<Rightarrow> bool" where
  "hash_ok D s \<longleftrightarrow> (\<forall>k. \<exists>xs q. dseg (next_of s) (prev_of s) None (hash_table s k) xs q None \<and> distinct xs \<and>
     set xs = {b \<in> D. buf_hash (bufs s b) = k})"

definition free_ok :: "nat list \<Rightarrow> 'a fs_state_scheme \<Rightarrow> bool" where
  "free_ok fl s \<longleftrightarrow> ring (next_free_of s) (prev_free_of s) fl \<and> free_list s = Some (hd fl)"

definition on_device :: "'a fs_state_scheme \<Rightarrow> nat set" where
  "on_device s = {b. b < nr_buffers s \<and> b_dev (bufs s b) \<noteq> 0}"

text \<open>All buffers are in the ring \<open>fl\<close>, the ones of a device also in the hash queues, and no two of those
  hold the same block.\<close>

definition cache_ok :: "nat list \<Rightarrow> 'a fs_state_scheme \<Rightarrow> bool" where
  "cache_ok fl s \<longleftrightarrow> set fl = {..<nr_buffers s} \<and> free_ok fl s \<and> hash_ok (on_device s) s \<and>
     (\<forall>b < nr_buffers s. b_dev (bufs s b) = 0 \<longrightarrow> next_of s b = None \<and> prev_of s b = None) \<and>
     (\<forall>b \<in> on_device s. \<forall>c \<in> on_device s.
        b_dev (bufs s b) = b_dev (bufs s c) \<and> b_blocknr (bufs s b) = b_blocknr (bufs s c) \<longrightarrow> b = c)"

lemma hash_okE:
  assumes "hash_ok D s"
  obtains xs q where "dseg (next_of s) (prev_of s) None (hash_table s k) xs q None" "distinct xs"
    "set xs = {b \<in> D. buf_hash (bufs s b) = k}"
  using assms unfolding hash_ok_def by (elim allE [of _ k] exE conjE)

lemma free_ok_cong:
  "next_free_of t = next_free_of s \<Longrightarrow> prev_free_of t = prev_free_of s \<Longrightarrow> free_list t = free_list s \<Longrightarrow>
   free_ok fl t \<longleftrightarrow> free_ok fl s"
  by (simp only: free_ok_def)

section \<open>Leaving and entering the queues\<close>

lemma unhash_bufs:
  "bufs (unhash b s) x = (bufs s x)\<lparr>b_next := at (prev_of s b) (next_of s b) (next_of s) x,
     b_prev := at (next_of s b) (prev_of s b) (prev_of s) x\<rparr>"
  by (simp add: unhash_def Let_def set_hash_def split: option.split)

lemma buf_hash_links [simp]:
  "buf_hash (h\<lparr>b_next := n\<rparr>) = buf_hash h" "buf_hash (h\<lparr>b_prev := p\<rparr>) = buf_hash h"
  "buf_hash (h\<lparr>b_next_free := n\<rparr>) = buf_hash h" "buf_hash (h\<lparr>b_prev_free := p\<rparr>) = buf_hash h"
  "buf_hash (h\<lparr>b_count := c\<rparr>) = buf_hash h" "buf_hash (h\<lparr>b_dirt := d\<rparr>) = buf_hash h"
  "buf_hash (h\<lparr>b_uptodate := u\<rparr>) = buf_hash h"
  by (simp_all add: buf_hash_def)

lemma unhash_hash_table:
  "hash_table (unhash b s) = (if hash_table s (buf_hash (bufs s b)) = Some b
     then (hash_table s)(buf_hash (bufs s b) := next_of s b) else hash_table s)"
  by (simp add: unhash_def Let_def set_hash_def split: option.split)

lemma unhash_frame [simp]:
  "free_list (unhash b s) = free_list s" "nr_buffers (unhash b s) = nr_buffers s" "pmem (unhash b s) = pmem s"
  "start_buffer (unhash b s) = start_buffer s"
  by (simp_all add: unhash_def Let_def set_hash_def split: option.split)

lemma hash_ok_unhash:
  assumes ok: "hash_ok D s" and b: "b \<in> D"
  shows "hash_ok (D - {b}) (unhash b s)"
  unfolding hash_ok_def
proof
  fix k
  let ?k = "buf_hash (bufs s b)" and ?t = "unhash b s"
  have nx: "next_of ?t = at (prev_of s b) (next_of s b) (next_of s)" and pv: "prev_of ?t = at (next_of s b) (prev_of s b) (prev_of s)"
    by (simp_all add: unhash_bufs fun_eq_iff)
  obtain xs q where xs: "dseg (next_of s) (prev_of s) None (hash_table s k) xs q None" "distinct xs"
    "set xs = {c \<in> D. buf_hash (bufs s c) = k}" by (rule hash_okE [OF ok])
  obtain us r where us: "dseg (next_of s) (prev_of s) None (hash_table s ?k) us r None" "distinct us"
    "set us = {c \<in> D. buf_hash (bufs s c) = ?k}" by (rule hash_okE [OF ok])
  have bu: "b \<in> set us" using us(3) b by simp
  have bh: "buf_hash (bufs ?t c) = buf_hash (bufs s c)" for c by (simp add: unhash_bufs)
  show "\<exists>xs q. dseg (next_of ?t) (prev_of ?t) None (hash_table ?t k) xs q None \<and> distinct xs \<and>
      set xs = {c \<in> D - {b}. buf_hash (bufs ?t c) = k}"
  proof (cases "k = ?k")
    case True
    then obtain ys zs where s: "xs = ys @ b # zs" using xs(3) b by (metis (mono_tags, lifting) in_set_conv_decomp mem_Collect_eq)
    have h: "hash_table ?t k = (if ys = [] then next_of s b else hash_table s k)"
      using dseg_hd [OF xs(1)] xs(2) True by (cases ys) (auto simp: unhash_hash_table s)
    obtain q' where "dseg (next_of ?t) (prev_of ?t) None (hash_table ?t k) (ys @ zs) q' None"
      using dseg_unlink [OF xs(1) [unfolded s] xs(2) [unfolded s]] unfolding nx pv h by blast
    moreover have "distinct (ys @ zs)" "set (ys @ zs) = {c \<in> D - {b}. buf_hash (bufs ?t c) = k}"
      using xs(2,3) unfolding bh by (auto simp: s)
    ultimately show ?thesis by blast
  next
    case False
    then have dis: "set us \<inter> set xs = {}" using us(3) xs(3) by auto
    have "dseg (next_of ?t) (prev_of ?t) None (hash_table s k) xs q None"
    proof -
      have "prev_of s b = Some y \<Longrightarrow> y \<notin> set xs" "next_of s b = Some y \<Longrightarrow> y \<notin> set xs" for y
        using dseg_neighbours [OF us(1) bu, of y] dis by auto
      then show ?thesis unfolding nx pv using xs(1) at_frame by presburger
    qed
    moreover have "hash_table ?t k = hash_table s k" using False by (simp add: unhash_hash_table)
    moreover have "set xs = {c \<in> D - {b}. buf_hash (bufs ?t c) = k}" using xs(3) False unfolding bh by auto
    ultimately show ?thesis using xs(2) by metis
  qed
qed

lemma hash_ok_absent:
  assumes "hash_ok D s" and "b \<notin> D" and "next_of s b = None" "prev_of s b = None"
  shows "unhash b s = s"
proof -
  obtain xs q where xs: "dseg (next_of s) (prev_of s) None (hash_table s (buf_hash (bufs s b))) xs q None"
    "set xs = {c \<in> D. buf_hash (bufs s c) = buf_hash (bufs s b)}" by (rule hash_okE [OF assms(1)])
  have "b \<notin> set xs" using assms(2) xs(2) by blast
  then have "hash_table s (buf_hash (bufs s b)) \<noteq> Some b"
    using dseg_hd [OF xs(1)] by (auto split: if_splits)
  then show ?thesis using assms(3,4) by (simp add: unhash_def)
qed

text \<open>Two states of a buffer that differ in its links only.\<close>

definition relinked :: "buffer_head \<Rightarrow> buffer_head \<Rightarrow> bool" where
  "relinked h h' \<longleftrightarrow> h' = h\<lparr>b_prev := b_prev h', b_next := b_next h', b_prev_free := b_prev_free h',
     b_next_free := b_next_free h'\<rparr>"

lemma relinked_iff: "relinked h h' \<longleftrightarrow> b_data h' = b_data h \<and> b_addr h' = b_addr h \<and> b_blocknr h' = b_blocknr h \<and>
  b_dev h' = b_dev h \<and> b_uptodate h' = b_uptodate h \<and> b_dirt h' = b_dirt h \<and> b_count h' = b_count h \<and>
  b_lock h' = b_lock h \<and> b_wait h' = b_wait h"
  by (cases h; cases h') (auto simp: relinked_def)

lemma remove_from_queues_state:
  assumes f: "free_ok fl s" and b: "b \<in> set fl" and two: "1 < length fl"
  shows "\<exists>t. remove_from_queues b s = Ret () t \<and> free_ok (remove1 b fl) t \<and>
    (\<forall>x. next_of t x = next_of (unhash b s) x \<and> prev_of t x = prev_of (unhash b s) x) \<and>
    (\<forall>x. relinked (bufs s x) (bufs t x)) \<and>
    hash_table t = hash_table (unhash b s) \<and> nr_buffers t = nr_buffers s \<and> pmem t = pmem s \<and>
    start_buffer t = start_buffer s"
proof -
  obtain ys zs where fl: "fl = ys @ b # zs" using b by (auto simp: in_set_conv_decomp)
  have r: "ring (next_free_of s) (prev_free_of s) (ys @ b # zs)" and h: "free_list s = Some (hd fl)"
    using f by (simp_all add: free_ok_def fl)
  have dist: "distinct (ys @ b # zs)" using r by (simp add: ring_def)
  have ne: "ys @ zs \<noteq> []" using two by (auto simp: fl)
  obtain p n where pn: "prev_free_of s b = Some p" "next_free_of s b = Some n" "p \<noteq> b" "n \<noteq> b" "n = hd (zs @ ys)"
    and r': "ring ((next_free_of s)(p := Some n)) ((prev_free_of s)(n := Some p)) (ys @ zs)"
    using ring_unlink [OF r ne] by auto
  define u where "u = unhash b s"
  have uf: "next_free_of u = next_free_of s" "prev_free_of u = prev_free_of s" "free_list u = free_list s"
    by (simp_all add: u_def unhash_bufs)
  define t where "t = (let t = upd_buf n (\<lambda>h. h\<lparr>b_prev_free := Some p\<rparr>) (upd_buf p (\<lambda>h. h\<lparr>b_next_free := Some n\<rparr>) u)
    in if free_list u = Some b then t\<lparr>free_list := Some n\<rparr> else t)"
  have bu: "b_next_free (bufs u b) = Some n" "b_prev_free (bufs u b) = Some p"
    using pn(1,2) by (simp_all add: u_def unhash_bufs)
  have run: "remove_from_queues b s = Ret () t"
    using pn(3,4) by (simp add: remove_from_queues_def u_def [symmetric] bu t_def Let_def)
  have rest: "remove1 b fl = ys @ zs" using dist by (simp add: fl remove1_append)
  have nf: "next_free_of t = (next_free_of s)(p := Some n)" "prev_free_of t = (prev_free_of s)(n := Some p)"
    using uf(1,2) by (auto simp: t_def Let_def fun_eq_iff)
  have "free_list t = Some (hd (ys @ zs))"
    using uf(3) h pn(5) dist by (cases ys) (auto simp: t_def Let_def fl)
  then have "free_ok (remove1 b fl) t" using r' unfolding rest free_ok_def nf by simp
  moreover have "next_of t x = next_of u x \<and> prev_of t x = prev_of u x" for x by (simp add: t_def Let_def)
  moreover have "relinked (bufs s x) (bufs t x)" for x
    by (simp add: t_def Let_def u_def unhash_bufs relinked_iff)
  moreover have "hash_table t = hash_table u" "nr_buffers t = nr_buffers s" "pmem t = pmem s" "start_buffer t = start_buffer s"
    by (simp_all add: t_def Let_def u_def)
  ultimately show ?thesis using run by (auto simp: u_def)
qed

lemma insert_into_queues_state:
  assumes f: "free_ok fl s" and b: "b \<notin> set fl" and dev: "b_dev (bufs s b) \<noteq> 0"
  defines "k \<equiv> buf_hash (bufs s b)"
  shows "\<exists>t. insert_into_queues b s = Ret () t \<and> free_ok (fl @ [b]) t \<and>
    next_of t = (next_of s)(b := hash_table s k) \<and>
    prev_of t = at (hash_table s k) (Some b) ((prev_of s)(b := None)) \<and>
    (\<forall>x. relinked (bufs s x) (bufs t x)) \<and>
    hash_table t = (hash_table s)(k := Some b) \<and> nr_buffers t = nr_buffers s \<and>
    pmem t = (case hash_table s k of None \<Rightarrow> (pmem s)(20 := bh_addr b s) | Some _ \<Rightarrow> pmem s)"
proof -
  have r: "ring (next_free_of s) (prev_free_of s) fl" and h: "free_list s = Some (hd fl)"
    using f by (simp_all add: free_ok_def)
  define p where "p = last fl"
  define e where "e = hd fl"
  have fl: "fl \<noteq> []" using r by (simp add: ring_def)
  have pe: "p \<noteq> b" "e \<noteq> b" using b fl by (auto simp: p_def e_def)
  have prev: "b_prev_free (bufs s e) = Some p" using ring_append(1) [OF r b] by (simp add: p_def e_def)
  define u where "u = upd_buf b (\<lambda>h. h\<lparr>b_prev := None, b_next := None\<rparr>) (upd_buf e (\<lambda>h. h\<lparr>b_prev_free := Some b\<rparr>)
    (upd_buf p (\<lambda>h. h\<lparr>b_next_free := Some b\<rparr>) (upd_buf b (\<lambda>h. h\<lparr>b_prev_free := Some p\<rparr>)
      (upd_buf b (\<lambda>h. h\<lparr>b_next_free := Some e\<rparr>) s))))"
  define v where "v = set_hash k (Some b) (upd_buf b (\<lambda>h. h\<lparr>b_next := hash_table s k\<rparr>) u)"
  define t where "t = (case hash_table s k of Some n \<Rightarrow> upd_buf n (\<lambda>h. h\<lparr>b_prev := Some b\<rparr>) v
    | None \<Rightarrow> v\<lparr>pmem := (pmem s)(20 := bh_addr b s)\<rparr>)"
  have hb: "hash_table u = hash_table s" "b_dev (bufs u b) = b_dev (bufs s b)" "buf_hash (bufs u b) = k"
    using pe by (simp_all add: u_def k_def)
  have vb: "b_next (bufs v b) = hash_table s k" "pmem v = pmem s" "bh_addr b v = bh_addr b s"
    by (simp_all add: v_def set_hash_def u_def bh_addr_def)
  have "insert_into_queues b s = (if b_dev (bufs u b) = 0 then Ret () u else
      let k = buf_hash (bufs u b); s = upd_buf b (\<lambda>h. h\<lparr>b_next := hash_table u k\<rparr>) u; s = set_hash k (Some b) s
      in Ret () (case b_next (bufs s b) of Some n \<Rightarrow> upd_buf n (\<lambda>h. h\<lparr>b_prev := Some b\<rparr>) s
           | None \<Rightarrow> s\<lparr>pmem := (pmem s)(20 := bh_addr b s)\<rparr>))"
    using pe prev by (simp add: insert_into_queues_def h e_def [symmetric] u_def Let_def)
  then have run: "insert_into_queues b s = Ret () t"
    using dev by (simp only: hb Let_def v_def [symmetric] vb t_def if_False)
  have bt: "bufs t = bufs (case hash_table s k of Some n \<Rightarrow> upd_buf n (\<lambda>h. h\<lparr>b_prev := Some b\<rparr>) v | None \<Rightarrow> v)"
    by (simp add: t_def split: option.split)
  have "next_free_of t = (next_free_of s)(b := Some e, p := Some b)"
    "prev_free_of t = (prev_free_of s)(b := Some p, e := Some b)"
    using pe by (auto simp: bt v_def set_hash_def u_def fun_eq_iff split: option.split)
  moreover have "free_list t = Some (hd (fl @ [b]))"
    using fl h by (simp add: t_def v_def set_hash_def u_def split: option.split)
  ultimately have "free_ok (fl @ [b]) t" using ring_append(2) [OF r b] by (simp add: free_ok_def p_def e_def)
  moreover have "next_of t = (next_of s)(b := hash_table s k)"
    by (auto simp: bt v_def set_hash_def u_def fun_eq_iff split: option.split)
  moreover have "prev_of t = at (hash_table s k) (Some b) ((prev_of s)(b := None))"
    by (auto simp: bt v_def set_hash_def u_def fun_eq_iff at_def split: option.split)
  moreover have "relinked (bufs s x) (bufs t x)" for x
    by (auto simp: bt v_def set_hash_def u_def relinked_iff split: option.split)
  moreover have "hash_table t = (hash_table s)(k := Some b)" "nr_buffers t = nr_buffers s"
    by (simp_all add: t_def v_def set_hash_def u_def split: option.split)
  moreover have "pmem t = (case hash_table s k of None \<Rightarrow> (pmem s)(20 := bh_addr b s) | Some _ \<Rightarrow> pmem s)"
    using vb(2) by (simp add: t_def split: option.split)
  ultimately show ?thesis using run by blast
qed

lemma hash_ok_rehash:
  assumes ok: "hash_ok D s" and b: "b \<notin> D"
    and nx: "next_of t = (next_of s)(b := hash_table s k)" and pv: "prev_of t = at (hash_table s k) (Some b) ((prev_of s)(b := None))"
    and ht: "hash_table t = (hash_table s)(k := Some b)" and bh: "\<And>x. buf_hash (bufs t x) = buf_hash (bufs s x)"
    and k: "k = buf_hash (bufs s b)"
  shows "hash_ok (insert b D) t"
  unfolding hash_ok_def
proof
  fix j
  obtain xs q where xs: "dseg (next_of s) (prev_of s) None (hash_table s j) xs q None" "distinct xs"
    "set xs = {c \<in> D. buf_hash (bufs s c) = j}" by (rule hash_okE [OF ok])
  have bx: "b \<notin> set xs" using b xs(3) by blast
  show "\<exists>xs q. dseg (next_of t) (prev_of t) None (hash_table t j) xs q None \<and> distinct xs \<and>
      set xs = {c \<in> insert b D. buf_hash (bufs t c) = j}"
  proof (cases "j = k")
    case True
    have h: "hash_table s k = (if xs = [] then None else Some (hd xs))" using dseg_hd [OF xs(1)] True by simp
    have "\<exists>q. dseg (next_of t) (prev_of t) (Some b) (hash_table s k) xs q None"
    proof (cases "xs = []")
      case False
      have "dseg (next_of s) ((prev_of s)(hd xs := Some b)) (Some b) (hash_table s k) xs q None"
        using dseg_new_start [OF xs(1,2) False] True by simp
      then have "dseg ((next_of s)(b := hash_table s k)) ((prev_of s)(b := None, hd xs := Some b)) (Some b) (hash_table s k) xs q None"
        using bx False by (simp add: fun_upd_twist [of b "hd xs"] del: fun_upd_apply) (metis dseg_frame fun_upd_twist hd_in_set)
      then show ?thesis unfolding nx pv using h False by auto
    qed (use h in auto)
    then obtain q' where "dseg (next_of t) (prev_of t) (Some b) (hash_table s k) xs q' None" ..
    moreover have "next_of t b = hash_table s k" "prev_of t b = None"
    proof -
      show "next_of t b = hash_table s k" using fun_cong [OF nx, of b] by simp
      show "prev_of t b = None" using fun_cong [OF pv, of b] h bx by (auto simp: at_def split: if_splits)
    qed
    ultimately have "dseg (next_of t) (prev_of t) None (hash_table t j) (b # xs) q' None"
      by (simp add: ht True)
    moreover have "distinct (b # xs)" "set (b # xs) = {c \<in> insert b D. buf_hash (bufs t c) = j}"
      using bx xs(2,3) True unfolding bh by (auto simp: k)
    ultimately show ?thesis by blast
  next
    case False
    obtain us r where us: "dseg (next_of s) (prev_of s) None (hash_table s k) us r None"
      "set us = {c \<in> D. buf_hash (bufs s c) = k}" by (rule hash_okE [OF ok])
    have "hash_table s k = Some y \<Longrightarrow> y \<notin> set xs" for y
      using dseg_hd [OF us(1)] us(2) xs(3) False by (auto split: if_splits dest: hd_in_set)
    then have "dseg (next_of t) (prev_of t) None (hash_table s j) xs q None"
      unfolding nx pv using at_frame(2) xs(1) bx by simp
    moreover have "set xs = {c \<in> insert b D. buf_hash (bufs t c) = j}" using xs(3) False unfolding bh by (auto simp: k)
    ultimately show ?thesis using xs(2) False ht by (intro exI [of _ xs] exI [of _ q]) simp
  qed
qed

section \<open>The cache as a map\<close>

text \<open>The buffer that holds a block of a device.\<close>

definition cached :: "'a fs_state_scheme \<Rightarrow> u16 \<times> u32 \<Rightarrow> nat option" where
  "cached s k = (if fst k = 0 then None
     else find (\<lambda>b. b_dev (bufs s b) = fst k \<and> b_blocknr (bufs s b) = snd k) [0..<nr_buffers s])"

lemma cached_Some:
  assumes "cache_ok fl s"
  shows "cached s (d, blk) = Some b \<longleftrightarrow> b \<in> on_device s \<and> b_dev (bufs s b) = d \<and> b_blocknr (bufs s b) = blk"
proof
  show "cached s (d, blk) = Some b \<Longrightarrow> b \<in> on_device s \<and> b_dev (bufs s b) = d \<and> b_blocknr (bufs s b) = blk"
    by (auto simp: cached_def on_device_def find_Some_iff split: if_splits)
  assume b: "b \<in> on_device s \<and> b_dev (bufs s b) = d \<and> b_blocknr (bufs s b) = blk"
  then obtain c where c: "cached s (d, blk) = Some c"
    by (cases "cached s (d, blk)") (auto simp: cached_def on_device_def find_None_iff split: if_splits)
  then have "c \<in> on_device s \<and> b_dev (bufs s c) = d \<and> b_blocknr (bufs s c) = blk"
    by (auto simp: cached_def on_device_def find_Some_iff split: if_splits)
  then have "c = b" using b assms unfolding cache_ok_def by metis
  then show "cached s (d, blk) = Some b" using c by simp
qed

lemma find_chain_linked:
  "linked (next_of s) p xs \<Longrightarrow> length xs \<le> n \<Longrightarrow>
   find_chain n p dev block s = Ret (find (\<lambda>b. is_block dev block (bufs s b)) xs) s"
proof (induction xs arbitrary: p n)
  case Nil
  then show ?case by (cases n) auto
next
  case (Cons x xs)
  then obtain m where "n = Suc m" by (cases n) auto
  then show ?case using Cons by simp
qed

lemma ucast_u16_u32 [simp]: "(ucast (x::u16) :: u32) = ucast y \<longleftrightarrow> x = y"
  by (metis unat_ucast_u16 word_unat_eq_iff)

lemma find_buffer_cached:
  assumes ok: "cache_ok fl s" and K: "nr_buffers s \<le> bound K" and d: "d \<noteq> 0"
  shows "find_buffer K (ucast d) blk s = Ret (cached s (d, blk)) s"
proof -
  obtain xs q where xs: "dseg (next_of s) (prev_of s) None (hash_table s (hashfn (ucast d) blk)) xs q None" "distinct xs"
    "set xs = {b \<in> on_device s. buf_hash (bufs s b) = hashfn (ucast d) blk}"
    by (rule hash_okE [of "on_device s" s]) (use ok in \<open>simp_all add: cache_ok_def\<close>)
  have "length xs = card (set xs)" using xs(2) by (simp add: distinct_card)
  also have "\<dots> \<le> card {..<nr_buffers s}" by (rule card_mono) (auto simp: xs(3) on_device_def)
  finally have len: "length xs \<le> bound K" using K by simp
  have "find (\<lambda>b. is_block (ucast d) blk (bufs s b)) xs = cached s (d, blk)"
  proof (cases "cached s (d, blk)")
    case None
    then have "\<And>b. b \<in> on_device s \<Longrightarrow> \<not> (b_dev (bufs s b) = d \<and> b_blocknr (bufs s b) = blk)"
      using cached_Some [OF ok] by (metis option.distinct(1))
    then show ?thesis using xs(3) None by (auto simp: find_None_iff is_block_def)
  next
    case (Some b)
    then have b: "b \<in> on_device s" "b_dev (bufs s b) = d" "b_blocknr (bufs s b) = blk" using cached_Some [OF ok] by auto
    then have bx: "b \<in> set xs" by (simp add: xs(3) buf_hash_def)
    have uniq: "c = b" if "c \<in> set xs" "is_block (ucast d) blk (bufs s c)" for c
      using that xs(3) b cached_Some [OF ok, of d blk c] Some by (auto simp: is_block_def)
    obtain c where c: "find (\<lambda>b. is_block (ucast d) blk (bufs s b)) xs = Some c"
      using bx b by (cases "find (\<lambda>b. is_block (ucast d) blk (bufs s b)) xs") (auto simp: find_None_iff is_block_def)
    then have "c \<in> set xs \<and> is_block (ucast d) blk (bufs s c)" by (auto simp: find_Some_iff)
    then show ?thesis using c uniq Some by simp
  qed
  then show ?thesis unfolding find_buffer_def using find_chain_linked [OF dseg_linked [OF xs(1)] len] by simp
qed

section \<open>Reusing a buffer\<close>

lemma hash_ok_subst:
  assumes "hash_ok D s" and "next_of t = next_of s" "prev_of t = prev_of s" "hash_table t = hash_table s"
    and "\<And>b. b \<in> D \<Longrightarrow> buf_hash (bufs t b) = buf_hash (bufs s b)"
  shows "hash_ok D t"
proof -
  have "{b \<in> D. buf_hash (bufs t b) = k} = {b \<in> D. buf_hash (bufs s b) = k}" for k using assms(5) by auto
  then show ?thesis using assms(1) unfolding hash_ok_def assms(2-4) by simp
qed

lemma ucast_u16_down [simp]: "(ucast (ucast (d::u16) :: u32) :: u16) = d"
  by (simp add: word_unat_eq_iff unsigned_ucast_eq take_bit_word_eq_self)

lemma relinked_hash: "relinked h h' \<Longrightarrow> buf_hash h' = buf_hash h"
  by (simp add: relinked_iff buf_hash_def)

lemma cache_okD:
  assumes "cache_ok fl s"
  shows "set fl = {..<nr_buffers s}" and "free_ok fl s" and "hash_ok (on_device s) s" and "distinct fl"
    and "length fl = nr_buffers s"
    and "\<And>b. b < nr_buffers s \<Longrightarrow> b_dev (bufs s b) = 0 \<Longrightarrow> next_of s b = None \<and> prev_of s b = None"
proof -
  show s: "set fl = {..<nr_buffers s}" and "free_ok fl s" and "hash_ok (on_device s) s"
    "\<And>b. b < nr_buffers s \<Longrightarrow> b_dev (bufs s b) = 0 \<Longrightarrow> next_of s b = None \<and> prev_of s b = None"
    using assms by (auto simp: cache_ok_def)
  then show d: "distinct fl" by (simp add: free_ok_def ring_def)
  show "length fl = nr_buffers s" using s d by (metis card_lessThan distinct_card)
qed

text \<open>The first half: the buffer leaves the queues.\<close>

definition emptied :: "buffer_head \<Rightarrow> buffer_head" where
  "emptied h = h\<lparr>b_count := 1, b_dirt := 0, b_uptodate := 0\<rparr>"

lemma emptied_simps [simp]:
  "b_next (emptied h) = b_next h" "b_prev (emptied h) = b_prev h" "b_next_free (emptied h) = b_next_free h"
  "b_prev_free (emptied h) = b_prev_free h" "b_dev (emptied h) = b_dev h" "b_blocknr (emptied h) = b_blocknr h"
  "buf_hash (emptied h) = buf_hash h"
  by (simp_all add: emptied_def)

lemma evict_state:
  assumes ok: "cache_ok fl s" and b: "b < nr_buffers s" and two: "1 < nr_buffers s"
  shows "\<exists>t. remove_from_queues b (upd_buf b emptied s) = Ret () t \<and>
    free_ok (remove1 b fl) t \<and> hash_ok (on_device s - {b}) t \<and> nr_buffers t = nr_buffers s \<and>
    (\<forall>c. c < nr_buffers s \<and> c \<noteq> b \<and> b_dev (bufs s c) = 0 \<longrightarrow> next_of t c = None \<and> prev_of t c = None) \<and>
    (\<forall>c. relinked (if c = b then emptied (bufs s b) else bufs s c) (bufs t c))"
proof -
  note parts = cache_okD [OF ok]
  define s1 where "s1 = upd_buf b emptied s"
  have h1: "next_of s1 = next_of s" "prev_of s1 = prev_of s" "hash_table s1 = hash_table s"
    "\<And>c. buf_hash (bufs s1 c) = buf_hash (bufs s c)" by (auto simp: s1_def fun_eq_iff)
  have hash1: "hash_ok (on_device s) s1" using parts(3) h1 by (rule hash_ok_subst)
  have "free_ok fl s1" using parts(2) by (subst free_ok_cong [where s = s]) (auto simp: s1_def fun_eq_iff)
  moreover have "b \<in> set fl" "1 < length fl" using parts(1,5) b two by auto
  ultimately obtain t where t: "remove_from_queues b s1 = Ret () t"
    "free_ok (remove1 b fl) t" "\<And>x. next_of t x = next_of (unhash b s1) x" "\<And>x. prev_of t x = prev_of (unhash b s1) x"
    "\<And>x. relinked (bufs s1 x) (bufs t x)" "hash_table t = hash_table (unhash b s1)" "nr_buffers t = nr_buffers s"
    using remove_from_queues_state [of fl s1 b] by (auto simp: s1_def)
  have absent: "unhash b s1 = s1" if "b \<notin> on_device s"
    using that parts(6) [OF b] b by (intro hash_ok_absent [OF hash1]) (auto simp: h1 on_device_def s1_def)
  have un: "hash_ok (on_device s - {b}) (unhash b s1)"
    using hash_ok_unhash [OF hash1] absent hash1 by (cases "b \<in> on_device s") simp_all
  have bh: "buf_hash (bufs t x) = buf_hash (bufs (unhash b s1) x)" for x
    using relinked_hash [OF t(5)] by (simp add: unhash_bufs)
  have "next_of t = next_of (unhash b s1)" "prev_of t = prev_of (unhash b s1)" using t(3,4) by (simp_all add: fun_eq_iff)
  then have A: "hash_ok (on_device s - {b}) t" using t(6) bh by (rule hash_ok_subst [OF un])
  have B: "next_of t c = None \<and> prev_of t c = None" if c: "c < nr_buffers s" "c \<noteq> b" "b_dev (bufs s c) = 0" for c
  proof -
    have cn: "next_of s1 c = None" "prev_of s1 c = None" and off: "c \<notin> on_device s"
      using parts(6) [OF c(1,3)] c by (auto simp: s1_def on_device_def)
    show ?thesis
    proof (cases "b \<in> on_device s")
      case True
      obtain us r where us: "dseg (next_of s1) (prev_of s1) None (hash_table s1 (buf_hash (bufs s1 b))) us r None"
        "set us = {c \<in> on_device s. buf_hash (bufs s1 c) = buf_hash (bufs s1 b)}" using hash1 by (rule hash_okE)
      have bu: "b \<in> set us" using us(2) True by simp
      have "c \<notin> set us" using us(2) off by simp
      then have "prev_of s1 b \<noteq> Some c" "next_of s1 b \<noteq> Some c"
        using dseg_neighbours [OF us(1) bu, of c] by blast+
      then show ?thesis unfolding t(3,4) using cn by (auto simp: unhash_bufs at_def split: option.split)
    next
      case False
      then show ?thesis unfolding t(3,4) using cn absent by simp
    qed
  qed
  have C: "relinked (if c = b then emptied (bufs s b) else bufs s c) (bufs t c)" for c
    using t(5) [of c] by (simp add: s1_def split: if_splits)
  show ?thesis
  proof (rule exI [of _ t], intro conjI allI impI)
    show "remove_from_queues b (upd_buf b emptied s) = Ret () t" using t(1) by (simp only: s1_def)
    fix c
    assume "c < nr_buffers s \<and> c \<noteq> b \<and> b_dev (bufs s c) = 0"
    then show "next_of t c = None" "prev_of t c = None" using B [of c] by (elim conjE, simp only:)+
  qed (fact t(2) A t(7) C)+
qed

text \<open>The second half: it enters the queues for its new block.\<close>

definition assigned :: "u16 \<Rightarrow> u32 \<Rightarrow> buffer_head \<Rightarrow> buffer_head" where
  "assigned d blk h = h\<lparr>b_dev := d, b_blocknr := blk\<rparr>"

lemma enter_state:
  assumes free: "free_ok fl s" and bf: "b \<notin> set fl" and hash: "hash_ok D s" and bD: "b \<notin> D" and d: "d \<noteq> 0"
  shows "\<exists>t. insert_into_queues b (upd_buf b (assigned d blk) s) = Ret () t \<and>
    free_ok (fl @ [b]) t \<and> hash_ok (insert b D) t \<and> nr_buffers t = nr_buffers s \<and>
    (\<forall>c. c \<noteq> b \<and> c \<notin> D \<and> next_of s c = None \<and> prev_of s c = None \<longrightarrow> next_of t c = None \<and> prev_of t c = None) \<and>
    (\<forall>c. relinked (if c = b then assigned d blk (bufs s b) else bufs s c) (bufs t c))"
proof -
  define u where "u = upd_buf b (assigned d blk) s"
  have hash3: "hash_ok D u"
    using bD by (intro hash_ok_subst [OF hash]) (auto simp: u_def assigned_def fun_eq_iff)
  have b3: "b_dev (bufs u b) \<noteq> 0" using d by (simp add: u_def assigned_def)
  have free3: "free_ok fl u"
    using free by (subst free_ok_cong [where s = s]) (auto simp: u_def assigned_def fun_eq_iff)
  obtain t where t: "insert_into_queues b u = Ret () t" "free_ok (fl @ [b]) t"
    "next_of t = (next_of u)(b := hash_table u (buf_hash (bufs u b)))"
    "prev_of t = at (hash_table u (buf_hash (bufs u b))) (Some b) ((prev_of u)(b := None))"
    "\<And>x. relinked (bufs u x) (bufs t x)"
    "hash_table t = (hash_table u)(buf_hash (bufs u b) := Some b)" "nr_buffers t = nr_buffers u"
    using insert_into_queues_state [OF free3 bf b3] by blast
  have A: "hash_ok (insert b D) t"
    using hash_ok_rehash [OF hash3 bD t(3,4,6) relinked_hash [OF t(5)] refl] .
  have B: "next_of t c = None \<and> prev_of t c = None"
    if c: "c \<noteq> b" "c \<notin> D" "next_of s c = None" "prev_of s c = None" for c
  proof -
    have "hash_table u (buf_hash (bufs u b)) \<noteq> Some c"
    proof
      assume e: "hash_table u (buf_hash (bufs u b)) = Some c"
      obtain us r where us: "dseg (next_of u) (prev_of u) None (hash_table u (buf_hash (bufs u b))) us r None"
        "set us = {c \<in> D. buf_hash (bufs u c) = buf_hash (bufs u b)}" using hash3 by (rule hash_okE)
      from dseg_head_in [OF us(1) e] show False using us(2) c(2) by simp
    qed
    then show ?thesis using fun_cong [OF t(3), of c] fun_cong [OF t(4), of c] c
      by (auto simp: at_def u_def split: option.splits)
  qed
  have C: "relinked (if c = b then assigned d blk (bufs s b) else bufs s c) (bufs t c)" for c
    using t(5) [of c] by (simp add: u_def split: if_splits)
  show ?thesis
  proof (rule exI [of _ t], intro conjI allI impI)
    show "insert_into_queues b (upd_buf b (assigned d blk) s) = Ret () t" using t(1) by (simp only: u_def)
    show "nr_buffers t = nr_buffers s" using t(7) by (simp only: u_def upd_buf_simps)
    fix c
    assume "c \<noteq> b \<and> c \<notin> D \<and> next_of s c = None \<and> prev_of s c = None"
    then show "next_of t c = None" "prev_of t c = None" using B [of c] by (elim conjE, simp only:)+
  qed (fact t(2) A C)+
qed

text \<open>What \<open>take_buffer\<close> leaves: the buffer at the end of the ring, in the queue of its new block.\<close>

lemma take_buffer_state:
  assumes ok: "cache_ok fl s" and b: "b < nr_buffers s" and two: "1 < nr_buffers s"
    and d: "d \<noteq> 0" and new: "cached s (d, blk) = None"
  shows "\<exists>t. take_buffer (ucast d) blk b s = Ret b t \<and> cache_ok (remove1 b fl @ [b]) t \<and>
    nr_buffers t = nr_buffers s \<and>
    (\<forall>c. relinked (if c = b then assigned d blk (emptied (bufs s b)) else bufs s c) (bufs t c))"
proof -
  note parts = cache_okD [OF ok]
  obtain s2 where s2: "remove_from_queues b (upd_buf b emptied s) = Ret () s2" "free_ok (remove1 b fl) s2"
    "hash_ok (on_device s - {b}) s2" "nr_buffers s2 = nr_buffers s"
    "\<And>c. c < nr_buffers s \<Longrightarrow> c \<noteq> b \<Longrightarrow> b_dev (bufs s c) = 0 \<Longrightarrow> next_of s2 c = None \<and> prev_of s2 c = None"
    "\<And>c. relinked (if c = b then emptied (bufs s b) else bufs s c) (bufs s2 c)"
    using evict_state [OF ok b two] by blast
  have "b \<notin> set (remove1 b fl)" "b \<notin> on_device s - {b}" using parts(4) by simp_all
  from enter_state [OF s2(2) this(1) s2(3) this(2) d, of blk] obtain t where
    t: "insert_into_queues b (upd_buf b (assigned d blk) s2) = Ret () t" "free_ok (remove1 b fl @ [b]) t"
    "hash_ok (insert b (on_device s - {b})) t" "nr_buffers t = nr_buffers s2"
    "\<And>c. c \<noteq> b \<Longrightarrow> c \<notin> on_device s - {b} \<Longrightarrow> next_of s2 c = None \<Longrightarrow> prev_of s2 c = None \<Longrightarrow>
       next_of t c = None \<and> prev_of t c = None"
    "\<And>c. relinked (if c = b then assigned d blk (bufs s2 b) else bufs s2 c) (bufs t c)" by blast
  have run: "take_buffer (ucast d) blk b s = Ret b t"
    using s2(1) t(1) by (simp add: take_buffer_def emptied_def [abs_def] assigned_def [abs_def])
  have nr: "nr_buffers t = nr_buffers s" using t(4) s2(4) by simp
  have rel: "relinked (if c = b then assigned d blk (emptied (bufs s b)) else bufs s c) (bufs t c)" for c
    using s2(6) [of c] t(6) [of c] by (auto simp: relinked_iff assigned_def emptied_def split: if_splits)
  have dev: "b_dev (bufs t c) = (if c = b then d else b_dev (bufs s c))"
    "b_blocknr (bufs t c) = (if c = b then blk else b_blocknr (bufs s c))" for c
    using rel [of c] by (auto simp: relinked_iff assigned_def)
  have on: "on_device t = insert b (on_device s - {b})" using b d by (auto simp: on_device_def nr dev)
  have "next_of t c = None \<and> prev_of t c = None" if c: "c < nr_buffers s" "b_dev (bufs t c) = 0" for c
  proof -
    have cb: "c \<noteq> b" "b_dev (bufs s c) = 0" using c dev d by (auto split: if_splits)
    then show ?thesis using s2(5) [OF c(1) cb] t(5) [of c] by (simp add: on_device_def)
  qed
  moreover have "c = e" if "c \<in> on_device t" "e \<in> on_device t" "b_dev (bufs t c) = b_dev (bufs t e)"
    "b_blocknr (bufs t c) = b_blocknr (bufs t e)" for c e
  proof -
    have not: "\<not> (b_dev (bufs s c) = d \<and> b_blocknr (bufs s c) = blk)" if "c \<in> on_device s" for c
      using new cached_Some [OF ok, of d blk c] that by auto
    have uniq: "c = e" if "c \<in> on_device s" "e \<in> on_device s" "b_dev (bufs s c) = b_dev (bufs s e)"
      "b_blocknr (bufs s c) = b_blocknr (bufs s e)" for c e
      using ok that unfolding cache_ok_def by blast
    show ?thesis using that not [of c] not [of e] uniq [of c e] unfolding on by (auto simp: dev split: if_splits)
  qed
  moreover have "set (remove1 b fl @ [b]) = {..<nr_buffers t}" using parts(1,4) b nr by auto
  ultimately have "cache_ok (remove1 b fl @ [b]) t"
    using t(2,3) unfolding cache_ok_def by (simp add: on nr)
  then show ?thesis using run nr rel by blast
qed

section \<open>A cache of blocks\<close>

text \<open>
  What the users of the cache rely on: the search finds what the map has, and giving a buffer to a block
  that is not in the cache changes the map at that block and at the block the buffer held before.
\<close>

locale block_map =
  fixes inv :: "'s \<Rightarrow> bool" and look :: "'s \<Rightarrow> 'k \<Rightarrow> 'b option" and search :: "'k \<Rightarrow> 's \<Rightarrow> ('s, 'b option) outcome"
    and reuse :: "'k \<Rightarrow> 'b \<Rightarrow> 's \<Rightarrow> ('s, 'b) outcome" and is_key :: "'k \<Rightarrow> bool" and is_buffer :: "'b \<Rightarrow> 's \<Rightarrow> bool"
  assumes search_look: "inv s \<Longrightarrow> is_key k \<Longrightarrow> search k s = Ret (look s k) s"
    and reuse_look: "inv s \<Longrightarrow> is_key k \<Longrightarrow> is_buffer b s \<Longrightarrow> look s k = None \<Longrightarrow>
      \<exists>t. reuse k b s = Ret b t \<and> inv t \<and>
        (\<forall>j. is_key j \<longrightarrow> look t j = ((\<lambda>j. if look s j = Some b then None else look s j)(k \<mapsto> b)) j)"
begin

lemma reuse_then_search:
  assumes "inv s" "is_key k" "is_buffer b s" "look s k = None" "is_key j"
  shows "returns (andThen (reuse k b s) (\<lambda>_. search j)) (\<lambda>r t.
    r = (if j = k then Some b else if look s j = Some b then None else look s j) \<and> inv t)"
proof -
  obtain t where t: "reuse k b s = Ret b t" "inv t"
    "look t j = ((\<lambda>j. if look s j = Some b then None else look s j)(k \<mapsto> b)) j"
    using reuse_look [OF assms(1-4)] assms(5) by blast
  then show ?thesis using search_look [OF t(2) assms(5)] by simp
qed

lemma reuse_keeps_inv: "inv s \<Longrightarrow> is_key k \<Longrightarrow> is_buffer b s \<Longrightarrow> look s k = None \<Longrightarrow> returns (reuse k b s) (\<lambda>r t. r = b \<and> inv t)"
  using reuse_look by fastforce

end

definition cache_inv :: "'a fs_state_scheme kernel_env \<Rightarrow> 'a fs_state_scheme \<Rightarrow> bool" where
  "cache_inv K s \<longleftrightarrow> (\<exists>fl. cache_ok fl s) \<and> 1 < nr_buffers s \<and> nr_buffers s \<le> bound K"

lemma cached_take_buffer:
  assumes ok: "cache_ok fl s" "cache_ok fl' t" and b: "b < nr_buffers s" and d: "d \<noteq> 0" and nr: "nr_buffers t = nr_buffers s"
    and rel: "\<And>c. relinked (if c = b then assigned d blk (emptied (bufs s b)) else bufs s c) (bufs t c)"
    and new: "cached s (d, blk) = None"
  shows "cached t j = ((\<lambda>j. if cached s j = Some b then None else cached s j)((d, blk) \<mapsto> b)) j"
proof -
  obtain d' blk' where j: "j = (d', blk')" by (cases j)
  have dev: "b_dev (bufs t c) = (if c = b then d else b_dev (bufs s c))"
    "b_blocknr (bufs t c) = (if c = b then blk else b_blocknr (bufs s c))" for c
    using rel [of c] by (auto simp: relinked_iff assigned_def)
  have A: "cached t (d', blk') = Some c \<longleftrightarrow> (if c = b then d' = d \<and> blk' = blk else cached s (d', blk') = Some c)" for c
  proof (cases "c = b")
    case True
    then show ?thesis unfolding cached_Some [OF ok(2)] using b d by (auto simp: dev nr on_device_def)
  next
    case False
    then show ?thesis unfolding cached_Some [OF ok(2)] cached_Some [OF ok(1)] by (simp add: dev nr on_device_def)
  qed
  show ?thesis
  proof (cases "j = (d, blk)")
    case True
    then show ?thesis using A [of b] by (simp add: j)
  next
    case False
    have E: "cached t j = Some c \<longleftrightarrow> c \<noteq> b \<and> cached s j = Some c" for c
      using A [of c] A [of b] False unfolding j by (cases "c = b") auto
    have R: "((\<lambda>j. if cached s j = Some b then None else cached s j)((d, blk) \<mapsto> b)) j =
        (if cached s j = Some b then None else cached s j)" using False by simp
    show ?thesis unfolding R
    proof (cases "cached s j")
      case None
      then show "cached t j = (if cached s j = Some b then None else cached s j)" using E by (metis not_Some_eq)
    next
      case (Some c)
      then show "cached t j = (if cached s j = Some b then None else cached s j)"
        using E [of c] E by (cases "c = b") (simp_all, metis not_Some_eq option.inject)
    qed
  qed
qed

definition find_block ::
  "'a fs_state_scheme kernel_env \<Rightarrow> u16 \<times> u32 \<Rightarrow> 'a fs_state_scheme \<Rightarrow> ('a fs_state_scheme, nat option) outcome" where
  "find_block K k = find_buffer K (ucast (fst k)) (snd k)"

definition reuse_block :: "u16 \<times> u32 \<Rightarrow> nat \<Rightarrow> 'a fs_state_scheme \<Rightarrow> ('a fs_state_scheme, nat) outcome" where
  "reuse_block k = take_buffer (ucast (fst k)) (snd k)"

interpretation blocks: block_map "cache_inv K" cached "find_block K" reuse_block "\<lambda>k. fst k \<noteq> 0" "\<lambda>b s. b < nr_buffers s"
  for K :: "'a fs_state_scheme kernel_env"
proof
  fix s :: "'a fs_state_scheme" and k :: "u16 \<times> u32"
  assume "cache_inv K s" "fst k \<noteq> 0"
  then show "find_block K k s = Ret (cached s k) s"
    by (auto simp: cache_inv_def find_block_def find_buffer_cached)
next
  fix s :: "'a fs_state_scheme" and k :: "u16 \<times> u32" and b
  assume a: "cache_inv K s" "fst k \<noteq> 0" "b < nr_buffers s" "cached s k = None"
  obtain d blk where k: "k = (d, blk)" by (cases k)
  obtain fl where fl: "cache_ok fl s" and two: "1 < nr_buffers s" using a(1) by (auto simp: cache_inv_def)
  have d: "d \<noteq> 0" and new: "cached s (d, blk) = None" using a(2,4) by (simp_all add: k)
  obtain t where t: "take_buffer (ucast d) blk b s = Ret b t" "cache_ok (remove1 b fl @ [b]) t" "nr_buffers t = nr_buffers s"
    "\<And>c. relinked (if c = b then assigned d blk (emptied (bufs s b)) else bufs s c) (bufs t c)"
    using take_buffer_state [OF fl a(3) two d new] by blast
  have "cache_inv K t" using t(2,3) a(1) by (auto simp: cache_inv_def)
  then show "\<exists>t. reuse_block k b s = Ret b t \<and> cache_inv K t \<and>
      (\<forall>j. fst j \<noteq> 0 \<longrightarrow> cached t j = ((\<lambda>j. if cached s j = Some b then None else cached s j)(k \<mapsto> b)) j)"
    using t(1) cached_take_buffer [OF fl t(2) a(3) d t(3,4) new] by (auto simp: k reuse_block_def)
qed

text \<open>C24: the buffer cache is a map. When a buffer is reused for a block of a device that is not in the
  cache, the cache keeps its invariant (each buffer in the ring once, each block in the queue of its hash and
  in one buffer only), and a search afterwards finds the new block in that buffer, does not find the block the
  buffer held before, and finds every other block where it was.\<close>

theorem take_buffer_map:
  assumes "cache_ok fl s" and "1 < nr_buffers s" and "nr_buffers s \<le> bound K" and "b < nr_buffers s"
    and "d \<noteq> 0" and "cached s (d, blk) = None" and "d' \<noteq> 0"
  shows "returns (andThen (take_buffer (ucast d) blk b s) (\<lambda>_. find_buffer K (ucast d') blk')) (\<lambda>r t.
    r = (if (d', blk') = (d, blk) then Some b
         else if cached s (d', blk') = Some b then None else cached s (d', blk')) \<and> cache_inv K t)"
proof -
  have "cache_inv K s" using assms(1-3) by (auto simp: cache_inv_def)
  from blocks.reuse_then_search [OF this, of "(d, blk)" b "(d', blk')"] assms(4-7) show ?thesis
    by (simp add: find_block_def reuse_block_def)
qed

lemma empty_cache_ok: "cache_ok [0, 1, 2, 3] empty_fs"
proof -
  have n: "{..<nr_buffers empty_fs} = set [0, 1, 2, 3]" by auto
  have f: "free_ok [0, 1, 2, 3] empty_fs" by (simp add: free_ok_def ring_def free_buf_def)
  have o: "on_device empty_fs = {}" by (simp add: on_device_def free_buf_def)
  have h: "hash_ok {} empty_fs" by (simp add: hash_ok_def exI [of _ "[]"])
  show ?thesis unfolding cache_ok_def n o using f h by (simp add: free_buf_def)
qed

theorem take_buffer_map_witness:
  "\<exists>t. andThen (take_buffer 0x101 7 2 empty_fs) (\<lambda>_. find_buffer quiet 0x101 7) = Ret (Some 2) t \<and> cache_inv quiet t"
proof -
  have new: "cached empty_fs (0x101, 7) = None" by (simp add: cached_def free_buf_def find_None_iff)
  have "returns (andThen (take_buffer (ucast (0x101::u16)) 7 2 empty_fs) (\<lambda>_. find_buffer quiet (ucast (0x101::u16)) 7))
      (\<lambda>r t. r = Some 2 \<and> cache_inv quiet t)"
    using take_buffer_map [OF empty_cache_ok _ _ _ _ new, of quiet 2 "0x101" 7] by simp
  then show ?thesis by (auto elim!: returnsE simp del: returns_andThen)
qed

end
