(* ===== verification/Getblk_Properties.thy ===== *)
theory Getblk_Properties
  imports Cache_Properties Sync
begin

text \<open>
  \<open>getblk\<close> on the invariant of the cache: which buffer it returns and in which order buffers are reused.
\<close>

section \<open>The search in the ring of free buffers\<close>

lemma ring_next:
  assumes "ring nx pv (ys @ x # zs)"
  shows "nx x = Some (if zs = [] then hd (ys @ [x]) else hd zs)"
proof -
  from assms have "dseg nx pv (Some (last (ys @ x # zs))) (Some (hd (ys @ x # zs))) (ys @ x # zs)
      (Some (last (ys @ x # zs))) (Some (hd (ys @ x # zs)))" by (simp add: ring_def)
  then obtain m where "dseg nx pv (Some x) (nx x) zs (Some (last (ys @ x # zs))) (Some (hd (ys @ x # zs)))"
    by (auto simp: dseg_append)
  from dseg_hd [OF this] show ?thesis by (cases ys) auto
qed

definition reusable :: "buffer_head \<Rightarrow> bool" where
  "reusable h \<longleftrightarrow> b_count h = 0 \<and> b_dirt h = 0 \<and> b_lock h = 0"

lemma BADNESS_0: "BADNESS h = 0 \<longleftrightarrow> b_dirt h = 0 \<and> b_lock h = 0"
  by (auto simp: BADNESS_def unat_eq_0)

lemma BADNESS_pos: "0 < BADNESS h \<longleftrightarrow> b_dirt h \<noteq> 0 \<or> b_lock h \<noteq> 0"
  using BADNESS_0 [of h] by auto

lemma scan_free_list_first:
  assumes free: "free_ok (ys @ xs) s" and some: "find (\<lambda>b. reusable (bufs s b)) xs = Some x"
    and n: "length xs \<le> n" and cand: "\<And>b. bh = Some b \<Longrightarrow> 0 < BADNESS (bufs s b)"
  shows "scan_free_list n (Some (hd xs)) bh s = Ret (Some x) s"
  using assms
proof (induction xs arbitrary: ys n bh)
  case (Cons z zs)
  then obtain m where m: "n = Suc m" by (cases n) auto
  have r: "ring (next_free_of s) (prev_free_of s) (ys @ z # zs)" and h: "free_list s = Some (hd (ys @ z # zs))"
    using Cons.prems(1) by (simp_all add: free_ok_def)
  show ?case
  proof (cases "reusable (bufs s z)")
    case True
    then have "x = z" "b_count (bufs s z) = 0" "BADNESS (bufs s z) = 0"
      using Cons.prems(2) by (auto simp: reusable_def BADNESS_0)
    then show ?thesis using Cons.prems(4) by (auto simp: m split: option.split)
  next
    case False
    then have z: "zs \<noteq> []" "find (\<lambda>b. reusable (bufs s b)) zs = Some x" using Cons.prems(2) by auto
    have nx: "b_next_free (bufs s z) = Some (hd zs)" using ring_next [OF r] z(1) by simp
    have "hd zs \<noteq> hd (ys @ z # zs)" using r z(1) hd_in_set [OF z(1)] by (cases ys) (auto simp: ring_def)
    then have stop: "b_next_free (bufs s z) \<noteq> free_list s" using nx h by simp
    define bh' where "bh' = (if b_count (bufs s z) = 0 \<and> (case bh of None \<Rightarrow> True | Some b \<Rightarrow> BADNESS (bufs s z) < BADNESS (bufs s b))
      then Some z else bh)"
    have "\<And>b. bh' = Some b \<Longrightarrow> 0 < BADNESS (bufs s b)"
      using False Cons.prems(4) by (auto simp: bh'_def reusable_def BADNESS_pos split: if_splits)
    then have "scan_free_list m (Some (hd zs)) bh' s = Ret (Some x) s"
      using Cons.IH [of "ys @ [z]" m bh'] Cons.prems(1,3) z(2) by (simp add: m)
    moreover have "scan_free_list n (Some z) bh s = scan_free_list m (Some (hd zs)) bh' s"
      using False stop nx unfolding m scan_free_list.simps Let_def bh'_def
      by (auto simp: reusable_def BADNESS_0)
    ultimately show ?thesis by simp
  qed
qed simp

section \<open>getblk\<close>

lemma get_hash_table_cached:
  assumes "cache_ok fl s" and "nr_buffers s \<le> bound K" and "0 < bound K" and "d \<noteq> 0"
  shows "cached s (d, blk) = None \<Longrightarrow> get_hash_table K (ucast d) blk s = Ret None s"
    and "cached s (d, blk) = Some b \<Longrightarrow> b_lock (bufs s b) = 0 \<Longrightarrow>
      get_hash_table K (ucast d) blk s = Ret (Some b) (upd_buf b (\<lambda>h. h\<lparr>b_count := b_count h + 1\<rparr>) s)"
proof -
  obtain n where n: "bound K = Suc n" using assms(3) by (cases "bound K") auto
  note f = find_buffer_cached [OF assms(1,2,4), of blk]
  show "cached s (d, blk) = None \<Longrightarrow> get_hash_table K (ucast d) blk s = Ret None s"
    using f by (simp add: get_hash_table_def n)
  assume "cached s (d, blk) = Some b" "b_lock (bufs s b) = 0"
  then show "get_hash_table K (ucast d) blk s = Ret (Some b) (upd_buf b (\<lambda>h. h\<lparr>b_count := b_count h + 1\<rparr>) s)"
    using f cached_Some [OF assms(1), of d blk b]
    by (simp add: get_hash_table_def n wait_on_buffer_def buf_locked_def is_block_def)
qed

text \<open>Writes to a buffer that leave its links and its block alone.\<close>

lemma cache_ok_upd:
  assumes ok: "cache_ok fl s"
    and f: "\<And>h. b_next (f h) = b_next h" "\<And>h. b_prev (f h) = b_prev h" "\<And>h. b_next_free (f h) = b_next_free h"
      "\<And>h. b_prev_free (f h) = b_prev_free h" "\<And>h. b_dev (f h) = b_dev h" "\<And>h. b_blocknr (f h) = b_blocknr h"
  shows "cache_ok fl (upd_buf b f s)" and "cached (upd_buf b f s) = cached s"
proof -
  let ?t = "upd_buf b f s"
  have l: "next_of ?t = next_of s" "prev_of ?t = prev_of s" "next_free_of ?t = next_free_of s" "prev_free_of ?t = prev_free_of s"
    and d: "\<And>c. b_dev (bufs ?t c) = b_dev (bufs s c)" "\<And>c. b_blocknr (bufs ?t c) = b_blocknr (bufs s c)"
    using f by (auto simp: fun_eq_iff)
  have h: "buf_hash (bufs ?t c) = buf_hash (bufs s c)" for c using d [of c] by (simp add: buf_hash_def)
  have o: "on_device ?t = on_device s" unfolding on_device_def d by simp
  have "free_ok fl ?t" using cache_okD(2) [OF ok] by (subst free_ok_cong [OF l(3,4)]) simp_all
  moreover have "hash_ok (on_device s) ?t" using cache_okD(3) [OF ok] l(1,2) _ h by (rule hash_ok_subst) simp
  ultimately show "cache_ok fl ?t" using ok unfolding cache_ok_def o d fun_cong [OF l(1)] fun_cong [OF l(2)] by simp
  show "cached ?t = cached s" unfolding cached_def d by (simp add: fun_eq_iff)
qed

lemma getblk_new:
  assumes ok: "cache_ok fl s" and two: "1 < nr_buffers s" and K: "nr_buffers s \<le> bound K"
    and d: "d \<noteq> 0" and new: "cached s (d, blk) = None" and x: "find (\<lambda>b. reusable (bufs s b)) fl = Some x"
  obtains t where "getblk K (ucast d) blk s = Ret x t" "cache_ok (remove1 x fl @ [x]) t" "nr_buffers t = nr_buffers s"
    "cached t (d, blk) = Some x" "\<And>c. relinked (if c = x then assigned d blk (emptied (bufs s x)) else bufs s c) (bufs t c)"
    "b_lock (bufs t x) = 0" "take_buffer (ucast d) blk x s = Ret x t"
proof -
  obtain n where n: "bound K = Suc n" using two K by (cases "bound K") auto
  note parts = cache_okD [OF ok]
  have xfl: "x \<in> set fl" "reusable (bufs s x)" using x by (auto simp: find_Some_iff)
  have xn: "x < nr_buffers s" using xfl(1) parts(1) by simp
  obtain t where t: "take_buffer (ucast d) blk x s = Ret x t" "cache_ok (remove1 x fl @ [x]) t" "nr_buffers t = nr_buffers s"
    "\<And>c. relinked (if c = x then assigned d blk (emptied (bufs s x)) else bufs s c) (bufs t c)"
    using take_buffer_state [OF ok xn two d new] by blast
  have scan: "scan_free_list (bound K) (free_list s) None s = Ret (Some x) s"
    using scan_free_list_first [of "[]" fl s x "bound K" None] parts(2,5) x K by (simp add: free_ok_def)
  have find: "find_buffer K (ucast d) blk s = Ret None s" using find_buffer_cached [OF ok K d] new by simp
  have get: "get_hash_table K (ucast d) blk s = Ret None s" using get_hash_table_cached(1) [OF ok K _ d new] n by simp
  have clean: "clean_buffer sync K (bound K) x s = Ret True s" for sync using xfl(2) by (simp add: n reusable_def)
  have "getblk K (ucast d) blk s = Ret x t"
    using get scan find clean t(1) xfl(2)
    by (simp add: getblk_def getblk_with_def n wait_on_buffer_def buf_locked_def reusable_def)
  moreover have "cached t (d, blk) = Some x"
    using cached_take_buffer [OF ok t(2) xn d t(3,4) new, of "(d, blk)"] by simp
  moreover have "b_lock (bufs t x) = 0"
    using t(4) [of x] xfl(2) by (simp add: relinked_iff assigned_def emptied_def reusable_def)
  ultimately show ?thesis using that t by blast
qed

text \<open>C25: which buffer \<open>getblk\<close> reuses. For a block that is not in the cache it returns, without waiting, the
  first buffer in the order of the ring that is unused, clean and unlocked, provided there is one; the buffer
  then goes to the end of the ring, so that the next ones to be reused are those reused longest ago; it
  is the buffer of the block, counted once and not up to date, and nothing but the links of the other buffers changes.\<close>

theorem getblk_least_recently_reused:
  assumes ok: "cache_ok fl s" and two: "1 < nr_buffers s" and K: "nr_buffers s \<le> bound K"
    and d: "d \<noteq> 0" and new: "cached s (d, blk) = None" and x: "find (\<lambda>b. reusable (bufs s b)) fl = Some x"
  shows "returns (getblk K (ucast d) blk s) (\<lambda>b t. b = x \<and> cache_ok (remove1 x fl @ [x]) t \<and>
    cached t (d, blk) = Some x \<and> b_count (bufs t x) = 1 \<and> b_uptodate (bufs t x) = 0 \<and>
    (\<forall>c. c \<noteq> x \<longrightarrow> relinked (bufs s c) (bufs t c)))"
proof -
  obtain t where t: "getblk K (ucast d) blk s = Ret x t" "cache_ok (remove1 x fl @ [x]) t" "cached t (d, blk) = Some x"
    and rel: "\<And>c. relinked (if c = x then assigned d blk (emptied (bufs s x)) else bufs s c) (bufs t c)"
    using getblk_new [OF assms] by blast
  have "b_count (bufs t x) = 1" "b_uptodate (bufs t x) = 0"
    using rel [of x] by (simp_all add: relinked_iff assigned_def emptied_def)
  moreover have "relinked (bufs s c) (bufs t c)" if "c \<noteq> x" for c using rel [of c] that by simp
  ultimately show ?thesis using t by simp
qed

theorem getblk_least_recently_reused_witness:
  "\<exists>t. getblk quiet (ucast (0x101::u16)) 7 empty_fs = Ret 0 t \<and> cache_ok [1, 2, 3, 0] t"
proof -
  have new: "cached empty_fs (0x101, 7) = None" by (simp add: cached_def free_buf_def find_None_iff)
  have "find (\<lambda>b. reusable (bufs empty_fs b)) [0, 1, 2, 3] = Some 0" by (simp add: reusable_def free_buf_def)
  from getblk_least_recently_reused [OF empty_cache_ok _ _ _ new this, of quiet] show ?thesis
    by (auto elim!: returnsE)
qed

text \<open>C26: a block has one buffer. A second \<open>getblk\<close> for the block while the first user holds it returns the same
  buffer, counted twice, with the bytes the first user has put there.\<close>

theorem getblk_shares_block:
  fixes s :: "'a fs_state_scheme"
  assumes ok: "cache_ok fl s" and two: "1 < nr_buffers s" and K: "nr_buffers s \<le> bound K"
    and d: "d \<noteq> 0" and new: "cached s (d, blk) = None" and x: "find (\<lambda>b. reusable (bufs s b)) fl = Some x"
  shows "returns (andThen (getblk K (ucast d) blk s) (\<lambda>b s. andThen (Ret () (write_block b vs s)) (\<lambda>_.
      getblk K (ucast d) blk))) (\<lambda>b t. b = x \<and> b_count (bufs t x) = 2 \<and>
    (\<forall>k < length vs. b_data (bufs t x) k = vs ! k))"
proof -
  obtain t where t: "getblk K (ucast d) blk s = Ret x t" "cache_ok (remove1 x fl @ [x]) t" "nr_buffers t = nr_buffers s"
    "cached t (d, blk) = Some x" "b_lock (bufs t x) = 0"
    and rel: "\<And>c. relinked (if c = x then assigned d blk (emptied (bufs s x)) else bufs s c) (bufs t c)"
    using getblk_new [OF assms] by blast
  obtain n where n: "bound K = Suc n" using two K by (cases "bound K") auto
  let ?u = "write_block x vs t"
  have u: "cache_ok (remove1 x fl @ [x]) ?u" "cached ?u = cached t"
    unfolding write_block_def by (rule cache_ok_upd [OF t(2)]; simp)+
  have "get_hash_table K (ucast d) blk ?u = Ret (Some x) (upd_buf x (\<lambda>h. h\<lparr>b_count := b_count h + 1\<rparr>) ?u)"
    using get_hash_table_cached(2) [OF u(1) _ _ d, of K blk x] t(3,4,5) K n u(2) by (simp add: write_block_def)
  then have "getblk K (ucast d) blk ?u = Ret x (upd_buf x (\<lambda>h. h\<lparr>b_count := b_count h + 1\<rparr>) ?u)"
    by (simp add: getblk_def getblk_with_def n)
  moreover have "b_count (bufs t x) = 1" using rel [of x] by (simp add: relinked_iff assigned_def emptied_def)
  ultimately show ?thesis using t(1) by (simp add: write_block_def)
qed

theorem getblk_shares_block_witness:
  "\<exists>t. andThen (getblk quiet (ucast (0x101::u16)) 7 empty_fs) (\<lambda>b s. andThen (Ret () (write_block b [5, 6] s)) (\<lambda>_.
      getblk quiet (ucast (0x101::u16)) 7)) = Ret 0 t \<and> b_count (bufs t 0) = 2 \<and> b_data (bufs t 0) 1 = 6"
proof -
  have new: "cached empty_fs (0x101, 7) = None" by (simp add: cached_def free_buf_def find_None_iff)
  have "find (\<lambda>b. reusable (bufs empty_fs b)) [0, 1, 2, 3] = Some 0" by (simp add: reusable_def free_buf_def)
  from getblk_shares_block [OF empty_cache_ok _ _ _ new this, of quiet "[5, 6]"] show ?thesis
    by (auto elim!: returnsE simp del: returns_andThen)
qed

end
