(* ===== verification/Bitmap_Properties.thy ===== *)
theory Bitmap_Properties
  imports Getblk_Properties Bitmap
begin

text \<open>
  The bitmaps: the search for a clear bit, and the allocation and release of a block on a file system
  whose maps and buffers satisfy the invariant of the cache.
\<close>

section \<open>Bits and bytes of a block\<close>

lemma bit_dec32:
  assumes "k < 32"
  shows "bit (dec32 d i) k \<longleftrightarrow> bit (d (i + k div 8)) (k mod 8)"
proof -
  have b: "bit (push_bit m (ucast (v::u8) :: u32)) k \<longleftrightarrow> m \<le> k \<and> k < m + 8 \<and> bit v (k - m)" if "m \<le> 24" for m v
    using assms that by (auto simp: bit_push_bit_iff bit_ucast_iff possible_bit_word dest: bit_imp_le_length)
  have "bit (dec32 d i) k \<longleftrightarrow> k < 8 \<and> bit (d i) k \<or> 8 \<le> k \<and> k < 16 \<and> bit (d (i + 1)) (k - 8) \<or>
      16 \<le> k \<and> k < 24 \<and> bit (d (i + 2)) (k - 16) \<or> 24 \<le> k \<and> k < 32 \<and> bit (d (i + 3)) (k - 24)"
    using b [of 0 "d i"] b [of 8 "d (i + 1)"] b [of 16 "d (i + 2)"] b [of 24 "d (i + 3)"]
    by (simp add: dec32_def bit_or_iff)
  moreover obtain q r where k: "k = 8 * q + r" "r < 8" and q: "q = 0 \<or> q = 1 \<or> q = 2 \<or> q = 3"
  proof -
    have "k div 8 = 0 \<or> k div 8 = 1 \<or> k div 8 = 2 \<or> k div 8 = 3" using assms by linarith
    then show ?thesis using that [of "k div 8" "k mod 8"] by simp
  qed
  moreover have "k div 8 = q" "k mod 8 = r" using k by simp_all
  ultimately show ?thesis using q by (elim disjE) simp_all
qed

lemma bit_NOT_dec32:
  assumes "k < 32" and "ecx mod 32 = 0"
  shows "bit (NOT (dec32 d (ecx div 8))) k \<longleftrightarrow> \<not> block_bit d (ecx + k)"
proof -
  obtain e where e: "ecx = 32 * e" using assms(2) by auto
  have "ecx = 8 * (4 * e)" by (simp add: e)
  then have dm: "(ecx + k) div 8 = ecx div 8 + k div 8" "(ecx + k) mod 8 = k mod 8"
    using div_mult_self2 [of 8 k "4 * e"] mod_mult_self2 [of k 8 "4 * e"] by (simp_all add: ac_simps)
  have "bit (NOT (dec32 d (ecx div 8))) k \<longleftrightarrow> \<not> bit (dec32 d (ecx div 8)) k"
    using assms(1) by (simp add: bit_not_iff possible_bit_word)
  then show ?thesis unfolding bit_dec32 [OF assms(1)] block_bit_def dm .
qed

lemma u32_0_iff: "(w::u32) = 0 \<longleftrightarrow> (\<forall>k<32. \<not> bit w k)"
  by (auto simp: bit_eq_iff possible_bit_word dest: bit_imp_le_length)

lemma find_append: "find P (xs @ ys) = (case find P xs of None \<Rightarrow> find P ys | Some x \<Rightarrow> Some x)"
  by (induction xs) simp_all

lemma find_upt_first: "find P [a..<b] = Some k \<longleftrightarrow> a \<le> k \<and> k < b \<and> P k \<and> (\<forall>j. a \<le> j \<and> j < k \<longrightarrow> \<not> P j)"
proof (induction b)
  case (Suc b)
  show ?case
  proof (cases "a \<le> b")
    case True
    have "find P [a..<b] = None \<longleftrightarrow> (\<forall>j. a \<le> j \<and> j < b \<longrightarrow> \<not> P j)" by (auto simp: find_None_iff)
    then show ?thesis using Suc True
      by (cases "find P [a..<b]") (auto simp: upt_Suc find_append less_Suc_eq)
  qed simp
qed simp

lemma scan_longs_first:
  assumes "ecx mod 32 = 0"
  shows "scan_longs n ecx d = (case find (\<lambda>k. \<not> block_bit d k) [ecx..<ecx + 32 * n] of Some k \<Rightarrow> k | None \<Rightarrow> ecx + 32 * n)"
  using assms
proof (induction n arbitrary: ecx)
  case (Suc n)
  define w where "w = NOT (dec32 d (ecx div 8))"
  have w: "bit w k \<longleftrightarrow> \<not> block_bit d (ecx + k)" if "k < 32" for k
    using bit_NOT_dec32 [OF that Suc.prems] by (simp add: w_def)
  let ?P = "\<lambda>k. \<not> block_bit d k"
  have split: "[ecx..<ecx + 32 * Suc n] = [ecx..<ecx + 32] @ [ecx + 32..<ecx + 32 + 32 * n]"
    by (subst upt_add_eq_append [symmetric]) (simp_all add: add.assoc)
  show ?case
  proof (cases "w = 0")
    case True
    then have "find ?P [ecx..<ecx + 32] = None"
      using w by (auto simp: find_None_iff u32_0_iff) (metis add.commute le_Suc_ex less_add_eq_less nat_add_left_cancel_less)
    then show ?thesis using Suc.IH [of "ecx + 32"] Suc.prems True unfolding split
      by (simp add: w_def [symmetric] find_append split: option.split)
  next
    case False
    then obtain j where "j < 32" "bit w j" by (auto simp: u32_0_iff)
    then obtain i where i: "find (bit w) [0..<32] = Some i"
      by (cases "find (bit w) [0..<32]") (auto simp: find_None_iff)
    then have "find ?P [ecx..<ecx + 32] = Some (ecx + i)"
      unfolding find_upt_first using w by auto (metis add_diff_inverse_nat diff_less_mono less_or_eq_imp_le linorder_not_less nat_add_left_cancel_less order.strict_trans)
    then show ?thesis using False i unfolding split by (simp add: w_def [symmetric] find_append bsf_def)
  qed
qed simp

text \<open>C27: \<open>find_first_zero\<close>, which scans a block by longs with \<open>bsf\<close>, is the search for the first clear bit:
  the bit of the smallest number that is clear, 8192 when all are set.\<close>

theorem find_first_zero_correct:
  "find_first_zero d = (case find (\<lambda>k. \<not> block_bit d k) [0..<8192] of Some k \<Rightarrow> k | None \<Rightarrow> 8192)"
  using scan_longs_first [of 0 256 d] by (simp add: find_first_zero_def split: option.splits)

section \<open>The super block of a device\<close>

definition super_of :: "'a fs_state_scheme kernel_env \<Rightarrow> u16 \<Rightarrow> nat \<Rightarrow> 'a fs_state_scheme \<Rightarrow> bool" where
  "super_of K d sb s \<longleftrightarrow> d \<noteq> 0 \<and> sb < 8 \<and> s_dev (super_block s sb) = d \<and> (\<forall>j < sb. s_dev (super_block s j) \<noteq> d) \<and>
     s_lock (super_block s sb) = 0 \<and> 9 \<le> bound K"

lemma get_super_loop_found:
  assumes "super_of K d sb s" and "i \<le> sb" and "sb - i < n"
  shows "get_super_loop K n i (ucast d) s = Ret (Some sb) s"
  using assms(2,3)
proof (induction n arbitrary: i)
  case (Suc n)
  show ?case
  proof (cases "i = sb")
    case True
    then show ?thesis using assms(1) by (simp add: super_of_def wait_on_super_def super_locked_def)
  next
    case False
    then have "i < sb" "s_dev (super_block s i) \<noteq> d" "\<not> 8 \<le> i" using Suc.prems assms(1) by (auto simp: super_of_def)
    then show ?thesis using Suc.IH [of "i + 1"] Suc.prems by simp
  qed
qed simp

lemma get_super_found: "super_of K d sb s \<Longrightarrow> get_super K (ucast d) s = Ret (Some sb) s"
  using get_super_loop_found [of K d sb s 0 "bound K"]
  using ucast_u16_u32 [of d 0] by (auto simp: get_super_def super_of_def simp del: ucast_u16_u32)

section \<open>What the allocation of a buffer leaves alone\<close>

text \<open>The states that differ in the buffers, their queues and the memory behind them only.\<close>

definition same_rest :: "'a fs_state_scheme \<Rightarrow> 'a fs_state_scheme \<Rightarrow> bool" where
  "same_rest s t \<longleftrightarrow> super_block t = super_block s \<and> inode_table t = inode_table s \<and> file_table t = file_table s \<and>
     request t = request s \<and> current_request t = current_request s \<and> current t = current s \<and> umem t = umem s \<and>
     rd_start t = rd_start s \<and> rd_length t = rd_length s"

lemma same_rest_refl [simp]: "same_rest s s"
  by (simp add: same_rest_def)

lemma same_rest_trans: "same_rest s t \<Longrightarrow> same_rest t u \<Longrightarrow> same_rest s u"
  by (simp add: same_rest_def)

lemma same_rest_upd [simp]:
  "same_rest s (upd_buf b f t) \<longleftrightarrow> same_rest s t" "same_rest s (set_hash k v t) \<longleftrightarrow> same_rest s t"
  "same_rest s (t\<lparr>free_list := l\<rparr>) \<longleftrightarrow> same_rest s t" "same_rest s (t\<lparr>pmem := m\<rparr>) \<longleftrightarrow> same_rest s t"
  "same_rest s (wake_up g t) \<longleftrightarrow> same_rest s t"
  by (simp_all add: same_rest_def set_hash_def)

lemma unhash_same [simp]: "same_rest s (unhash b t) \<longleftrightarrow> same_rest s t"
  by (simp add: unhash_def Let_def split: option.split)

lemma remove_from_queues_same: "remove_from_queues b s = Ret () t \<Longrightarrow> same_rest s t"
  by (cases "b_prev_free (bufs (unhash b s) b)"; cases "b_next_free (bufs (unhash b s) b)")
    (auto simp: remove_from_queues_def Let_def split: if_splits)

lemma insert_into_queues_same:
  assumes "insert_into_queues b s = Ret () t"
  shows "same_rest s t"
proof (cases "free_list s")
  case (Some f)
  show ?thesis
  proof (cases "b_prev_free (bufs (upd_buf b (\<lambda>h. h\<lparr>b_prev_free := b_prev_free (bufs (upd_buf b (\<lambda>h. h\<lparr>b_next_free := Some f\<rparr>) s) f)\<rparr>)
      (upd_buf b (\<lambda>h. h\<lparr>b_next_free := Some f\<rparr>) s)) f)")
    case None
    then show ?thesis using assms Some by (simp only: insert_into_queues_def option.case Let_def outcome.distinct)
  next
    case (Some p)
    then show ?thesis using assms \<open>free_list s = Some f\<close>
      unfolding insert_into_queues_def option.case(2) Let_def by (auto split: if_splits option.splits)
  qed
qed (use assms in \<open>simp add: insert_into_queues_def\<close>)

lemma take_buffer_same:
  assumes "take_buffer dev blk b s = Ret r t"
  shows "same_rest s t"
proof -
  obtain u v where u: "remove_from_queues b (upd_buf b emptied s) = Ret () u"
    and v: "insert_into_queues b (upd_buf b (\<lambda>h. h\<lparr>b_dev := ucast dev, b_blocknr := blk\<rparr>) u) = Ret () v" and "t = v"
    using assms by (auto simp: take_buffer_def andThen_Ret_iff emptied_def [abs_def])
  from remove_from_queues_same [OF u] have "same_rest s u" by (simp add: same_rest_def)
  moreover from insert_into_queues_same [OF v] have "same_rest u t" by (simp add: same_rest_def \<open>t = v\<close>)
  ultimately show ?thesis by (rule same_rest_trans)
qed

section \<open>Allocating a block\<close>

lemma block_bit_set: "block_bit (snd (set_bit j d)) k \<longleftrightarrow> k = j \<or> block_bit d k"
proof -
  have k: "k div 8 = j div 8 \<Longrightarrow> k mod 8 = j mod 8 \<longleftrightarrow> k = j" by (metis div_mult_mod_eq)
  have "k mod 8 < 8" by simp
  then show ?thesis using k
    by (auto simp: block_bit_def set_bit_def bit_or_iff bit_exp_iff possible_bit_word)
qed

lemma block_bit_clear: "block_bit (snd (clear_bit j d)) k \<longleftrightarrow> k \<noteq> j \<and> block_bit d k"
proof -
  have k: "k div 8 = j div 8 \<Longrightarrow> k mod 8 = j mod 8 \<longleftrightarrow> k = j" by (metis div_mult_mod_eq)
  have "k mod 8 < 8" by simp
  then show ?thesis using k
    by (auto simp: block_bit_def clear_bit_def bit_and_iff bit_not_iff bit_exp_iff possible_bit_word)
qed

lemma find_in_map_Some:
  "find_in_map is m bs = Some (i, zm, j) \<Longrightarrow>
    i \<in> set is \<and> m i = Some zm \<and> j < 8192 \<and> \<not> block_bit (b_data (bs zm)) j"
  by (induction "is")
    (auto simp: Let_def find_first_zero_def scan_longs_first find_upt_first split: option.splits if_splits)

text \<open>A file system with a clear bit in its zone map: the number of the block, and a buffer to hold it.\<close>

definition next_block :: "nat \<Rightarrow> nat \<Rightarrow> super_struct \<Rightarrow> nat" where
  "next_block i j sb = j + 8192 * i + unat (s_firstdatazone sb) - 1"

definition can_allocate ::
  "'a fs_state_scheme kernel_env \<Rightarrow> u16 \<Rightarrow> nat \<Rightarrow> nat list \<Rightarrow> nat \<Rightarrow> nat \<Rightarrow> nat \<Rightarrow> nat \<Rightarrow> 'a fs_state_scheme \<Rightarrow> bool" where
  "can_allocate K d sb fl i zm j x s \<longleftrightarrow> super_of K d sb s \<and> cache_ok fl s \<and> 1 < nr_buffers s \<and> nr_buffers s \<le> bound K \<and>
     find_in_map [0..<8] (s_zmap (super_block s sb)) (bufs s) = Some (i, zm, j) \<and> 0 < j + 8192 * i \<and>
     next_block i j (super_block s sb) < unat (s_nzones (super_block s sb)) \<and> b_count (bufs s zm) \<noteq> 0 \<and>
     cached s (d, of_nat (next_block i j (super_block s sb))) = None \<and>
     find (\<lambda>b. reusable (bufs s b)) fl = Some x"

lemma next_block_word:
  assumes "0 < j + 8192 * i" and "next_block i j sb < unat (s_nzones sb)"
  shows "of_nat (j + i * 8192) + ucast (s_firstdatazone sb) - 1 = (of_nat (next_block i j sb) :: u32)"
    and "unat (of_nat (next_block i j sb) :: u32) = next_block i j sb"
    and "\<not> ucast (s_nzones sb) \<le>s (of_nat (next_block i j sb) :: u32)"
proof -
  have z: "unat (s_nzones sb) < 65536" using unsigned_less [of "s_nzones sb"] by simp
  have "next_block i j sb + 1 = j + i * 8192 + unat (s_firstdatazone sb)" using assms(1) by (simp add: next_block_def)
  then have "(of_nat (next_block i j sb + 1) :: u32) = of_nat (j + i * 8192 + unat (s_firstdatazone sb))" by (rule arg_cong)
  then have "(of_nat (next_block i j sb) :: u32) + 1 = of_nat (j + i * 8192) + ucast (s_firstdatazone sb)"
    by (simp only: of_nat_add of_nat_1 of_nat_unat)
  then show "of_nat (j + i * 8192) + ucast (s_firstdatazone sb) - 1 = (of_nat (next_block i j sb) :: u32)"
    by (simp only: eq_diff_eq [symmetric])
  show u: "unat (of_nat (next_block i j sb) :: u32) = next_block i j sb"
    using assms(2) z by (intro unat_of_nat_u32) simp
  have "sint (of_nat (next_block i j sb) :: u32) = int (next_block i j sb)"
    "sint (ucast (s_nzones sb) :: u32) = int (unat (s_nzones sb))"
    using assms(2) z u by (subst sint_small; simp)+
  then show "\<not> ucast (s_nzones sb) \<le>s (of_nat (next_block i j sb) :: u32)"
    using assms(2) by (simp add: word_sle_eq del: of_nat_unat)
qed

text \<open>The state \<open>new_block\<close> leaves, in terms of the one in which the buffer was taken.\<close>

definition mark_block :: "nat \<Rightarrow> nat \<Rightarrow> 'a fs_state_scheme \<Rightarrow> 'a fs_state_scheme" where
  "mark_block zm j s = upd_buf zm (\<lambda>h. h\<lparr>b_data := snd (set_bit j (b_data h)), b_dirt := 1\<rparr>) s"

definition blanked :: "nat \<Rightarrow> 'a fs_state_scheme \<Rightarrow> 'a fs_state_scheme" where
  "blanked x s = wake_up buffer_wait (upd_buf x (\<lambda>h. (clear_block h)\<lparr>b_uptodate := 1, b_dirt := 1, b_count := 0\<rparr>) s)"

lemma new_block_run:
  fixes s :: "'a fs_state_scheme"
  assumes sup: "super_of K d sb s" and map: "find_in_map [0..<8] (s_zmap (super_block s sb)) (bufs s) = Some (i, zm, j)"
    and pos: "0 < j + 8192 * i" "next_block i j (super_block s sb) < unat (s_nzones (super_block s sb))"
    and get: "getblk K (ucast d) (of_nat (next_block i j (super_block s sb))) (mark_block zm j s) = Ret x t"
    and x: "b_count (bufs t x) = 1" "b_lock (bufs t x) = 0"
  shows "new_block K (ucast d) s = Ret (of_nat (next_block i j (super_block s sb))) (blanked x t)"
proof -
  let ?n = "next_block i j (super_block s sb)" and ?u = "mark_block zm j s"
  note w = next_block_word [OF pos]
  from find_in_map_Some [OF map] have clear: "\<not> block_bit (b_data (bufs s zm)) j" by simp
  have mark: "upd_buf zm (\<lambda>h. h\<lparr>b_dirt := 1\<rparr>) (upd_buf zm (\<lambda>h. h\<lparr>b_data := snd (set_bit j (b_data (bufs s zm)))\<rparr>) s) = ?u"
    by (simp add: mark_block_def upd_buf_def)
  have su: "super_block ?u = super_block s" by (simp add: mark_block_def)
  have bits: "set_bit j (b_data (bufs s zm)) = (False, snd (set_bit j (b_data (bufs s zm))))"
    using clear by (simp add: set_bit_def)
  have "new_block K (ucast d) s = andThen (getblk K (ucast d) (of_nat ?n) ?u) (\<lambda>bh s.
      if b_count (bufs s bh) \<noteq> 1 then Panic ''new block: count is != 1'' s
      else andThen (brelse K (Some bh) (upd_buf bh (\<lambda>h. (clear_block h)\<lparr>b_uptodate := 1, b_dirt := 1\<rparr>) s)) (\<lambda>_ s. Ret (of_nat ?n) s))"
    unfolding new_block_def get_super_found [OF sup] andThen.simps option.case map prod.case Let_def
    by (subst bits) (simp only: prod.case if_False mark su w(1,3))
  also have "\<dots> = Ret (of_nat ?n) (blanked x t)"
    unfolding get using x by (simp add: brelse_def wait_on_buffer_def buf_locked_def clear_block_def blanked_def upd_buf_def)
  finally show ?thesis .
qed

lemma new_block_state:
  fixes s :: "'a fs_state_scheme"
  assumes can: "can_allocate K d sb fl i zm j x s"
  defines "n \<equiv> next_block i j (super_block s sb)"
  obtains t where "new_block K (ucast d) s = Ret (of_nat n) (blanked x t)" "same_rest s t"
    "cache_ok (remove1 x fl @ [x]) t" "nr_buffers t = nr_buffers s" "cached t (d, of_nat n) = Some x" "b_lock (bufs t x) = 0"
    "b_dev (bufs t x) = d" "b_blocknr (bufs t x) = of_nat n" "x \<noteq> zm" "relinked (bufs (mark_block zm j s) zm) (bufs t zm)"
proof -
  note c = can [unfolded can_allocate_def]
  have d: "d \<noteq> 0" and sup: "super_of K d sb s" using c by (auto simp: super_of_def)
  have map: "find_in_map [0..<8] (s_zmap (super_block s sb)) (bufs s) = Some (i, zm, j)" using c by simp
  define u where "u = mark_block zm j s"
  have u: "cache_ok fl u" "cached u = cached s" unfolding u_def mark_block_def
    by (rule cache_ok_upd [of fl s]; use c in simp)+
  have reus: "reusable (bufs u b) = reusable (bufs s b)" for b
    using c by (auto simp: u_def mark_block_def reusable_def)
  have x: "find (\<lambda>b. reusable (bufs u b)) fl = Some x" using c by (simp add: reus)
  then have xz: "x \<noteq> zm" using c by (auto simp: find_Some_iff reusable_def reus)
  have nr: "1 < nr_buffers u" "nr_buffers u \<le> bound K" "cached u (d, of_nat n) = None"
    using c by (simp_all add: u_def mark_block_def u(2) [unfolded u_def mark_block_def] n_def)
  obtain t where t: "getblk K (ucast d) (of_nat n) u = Ret x t" "cache_ok (remove1 x fl @ [x]) t" "nr_buffers t = nr_buffers u"
    "cached t (d, of_nat n) = Some x" "b_lock (bufs t x) = 0" "take_buffer (ucast d) (of_nat n) x u = Ret x t"
    and rel: "\<And>c. relinked (if c = x then assigned d (of_nat n) (emptied (bufs u x)) else bufs u c) (bufs t c)"
    using getblk_new [OF u(1) nr(1,2) d nr(3) x] by blast
  have cnt: "b_count (bufs t x) = 1" "b_dev (bufs t x) = d" "b_blocknr (bufs t x) = of_nat n"
    using rel [of x] by (simp_all add: relinked_iff assigned_def emptied_def)
  have run: "new_block K (ucast d) s = Ret (of_nat n) (blanked x t)"
    unfolding n_def using new_block_run [OF sup map] c t(1,5) cnt(1) by (simp add: n_def u_def)
  have "same_rest u t" by (rule take_buffer_same [OF t(6)])
  then have "same_rest s t" by (simp add: u_def mark_block_def same_rest_def)
  moreover have "relinked (bufs (mark_block zm j s) zm) (bufs t zm)" using rel [of zm] xz by (simp add: u_def)
  moreover have "nr_buffers t = nr_buffers s" using t(3) by (simp add: u_def mark_block_def)
  ultimately show ?thesis using that [OF run] t(2,4,5) cnt(2,3) xz by blast
qed

lemma marked_bit: "block_bit (b_data (bufs (mark_block zm j s) zm)) k \<longleftrightarrow> k = j \<or> block_bit (b_data (bufs s zm)) k"
  by (simp add: mark_block_def block_bit_set)

lemma blanked_simps [simp]:
  "bufs (blanked x s) = (bufs s)(x := (clear_block (bufs s x))\<lparr>b_uptodate := 1, b_dirt := 1, b_count := 0\<rparr>)"
  "super_block (blanked x s) = super_block s" "nr_buffers (blanked x s) = nr_buffers s"
  by (simp_all add: blanked_def)

lemma cache_ok_wake_up [simp]: "cache_ok fl (wake_up g s) \<longleftrightarrow> cache_ok fl s" "cached (wake_up g s) = cached s"
  by (simp_all add: cache_ok_def free_ok_def hash_ok_def on_device_def cached_def fun_eq_iff)

lemma cache_ok_blanked:
  assumes "cache_ok fl s"
  shows "cache_ok fl (blanked x s)" and "cached (blanked x s) = cached s"
  using cache_ok_upd [OF assms, of "\<lambda>h. (clear_block h)\<lparr>b_uptodate := 1, b_dirt := 1, b_count := 0\<rparr>" x]
  by (simp_all add: blanked_def clear_block_def)

text \<open>The bit of a zone in the eight blocks of the map; where there is no map block there is nothing to allocate. The buffers of
  the map are held as long as the file system is mounted, and are different ones.\<close>

definition zone_used :: "nat \<Rightarrow> 'a fs_state_scheme \<Rightarrow> nat \<Rightarrow> bool" where
  "zone_used sb s k \<longleftrightarrow>
     (case s_zmap (super_block s sb) (k div 8192) of None \<Rightarrow> True | Some z \<Rightarrow> block_bit (b_data (bufs s z)) (k mod 8192))"

definition maps_held :: "nat \<Rightarrow> 'a fs_state_scheme \<Rightarrow> bool" where
  "maps_held sb s \<longleftrightarrow> (\<forall>i<8. \<forall>z. s_zmap (super_block s sb) i = Some z \<longrightarrow>
     b_count (bufs s z) \<noteq> 0 \<and> (\<forall>k<8. s_zmap (super_block s sb) k = Some z \<longrightarrow> k = i))"

lemma find_in_map_append:
  "find_in_map (xs @ ys) m bs = (case find_in_map xs m bs of None \<Rightarrow> find_in_map ys m bs | Some r \<Rightarrow> Some r)"
  by (induction xs) (auto simp: Let_def split: option.split)

lemma find_in_map_first:
  assumes m: "m < 65536" and clear: "\<not> zone_used sb s m" and used: "\<forall>k<m. zone_used sb s k"
  shows "\<exists>zm. s_zmap (super_block s sb) (m div 8192) = Some zm \<and>
    find_in_map [0..<8] (s_zmap (super_block s sb)) (bufs s) = Some (m div 8192, zm, m mod 8192)"
proof -
  let ?m = "s_zmap (super_block s sb)" and ?i = "m div 8192"
  have i: "?i < 8" using m by simp
  obtain zm where zm: "?m ?i = Some zm" "\<not> block_bit (b_data (bufs s zm)) (m mod 8192)"
    using clear by (auto simp: zone_used_def split: option.splits)
  have full: "find_first_zero (b_data (bufs s z)) = 8192" if "e < ?i" "?m e = Some z" for e z
  proof -
    have "block_bit (b_data (bufs s z)) k" if k: "k < 8192" for k
    proof -
      have "8192 * e + k < m" using \<open>e < ?i\<close> k by (simp add: less_eq_div_iff_mult_less_eq Suc_le_eq [symmetric])
      then show ?thesis using used [rule_format, of "8192 * e + k"] k \<open>?m e = Some z\<close> by (simp add: zone_used_def)
    qed
    then have "find (\<lambda>k. \<not> block_bit (b_data (bufs s z)) k) [0..<8192] = None" by (auto simp: find_None_iff)
    then show ?thesis using scan_longs_first [of 0 256 "b_data (bufs s z)"] by (simp add: find_first_zero_def)
  qed
  have none: "find_in_map es ?m (bufs s) = None" if "\<forall>e\<in>set es. e < ?i" for es
    using that by (induction es) (auto simp: full split: option.split)
  have "block_bit (b_data (bufs s zm)) k" if k: "k < m mod 8192" for k
  proof -
    have "8192 * ?i + k < m" using k div_mult_mod_eq [of m 8192] by linarith
    moreover have "k < 8192" using k mod_less_divisor [of 8192 m] by linarith
    ultimately show ?thesis using used [rule_format, of "8192 * ?i + k"] zm(1) by (simp add: zone_used_def)
  qed
  then have "find (\<lambda>k. \<not> block_bit (b_data (bufs s zm)) k) [0..<8192] = Some (m mod 8192)"
    unfolding find_upt_first using zm(2) by simp
  then have first: "find_first_zero (b_data (bufs s zm)) = m mod 8192"
    using scan_longs_first [of 0 256 "b_data (bufs s zm)"] by (simp add: find_first_zero_def)
  have split: "[0..<8] = [0..<?i] @ ?i # [Suc ?i..<8]"
    using i upt_add_eq_append [of 0 ?i "8 - ?i"] upt_conv_Cons [of ?i 8] by simp
  have "find_in_map (?i # [Suc ?i..<8]) ?m (bufs s) = Some (?i, zm, m mod 8192)"
    using zm(1) first by (simp add: Let_def)
  then show ?thesis using zm(1) none [of "[0..<?i]"] unfolding split find_in_map_append by simp
qed

text \<open>A buffer for the block: its own, when it has one and nobody uses it, or one that can be reused.\<close>

definition buffer_ready :: "(u16 \<times> u32) \<Rightarrow> nat list \<Rightarrow> 'a fs_state_scheme \<Rightarrow> bool" where
  "buffer_ready blk fl s \<longleftrightarrow>
     (case cached s blk of Some b \<Rightarrow> b_count (bufs s b) = 0 \<and> b_lock (bufs s b) = 0 | None \<Rightarrow> \<exists>b\<in>set fl. reusable (bufs s b))"

lemma getblk_ready:
  fixes s :: "'a fs_state_scheme"
  assumes ok: "cache_ok fl s" and nr: "1 < nr_buffers s" "nr_buffers s \<le> bound K" and d: "d \<noteq> 0" and ready: "buffer_ready (d, blk) fl s"
  obtains x t fl' where "getblk K (ucast d) blk s = Ret x t" "cache_ok fl' t" "cached t (d, blk) = Some x" "b_count (bufs t x) = 1"
    "b_lock (bufs t x) = 0" "\<And>c. c \<noteq> x \<Longrightarrow> relinked (bufs s c) (bufs t c)" "b_count (bufs s x) = 0" "super_block t = super_block s"
proof (cases "cached s (d, blk)")
  case None
  then obtain b where "b \<in> set fl" "reusable (bufs s b)" using ready by (auto simp: buffer_ready_def)
  then have "find (\<lambda>b. reusable (bufs s b)) fl \<noteq> None" by (auto simp: find_None_iff)
  then obtain x where x: "find (\<lambda>b. reusable (bufs s b)) fl = Some x" by blast
  then have "b_count (bufs s x) = 0" by (auto simp: find_Some_iff reusable_def)
  from getblk_new [OF ok nr d None x] obtain t where t: "getblk K (ucast d) blk s = Ret x t" "cache_ok (remove1 x fl @ [x]) t"
    "cached t (d, blk) = Some x" "b_lock (bufs t x) = 0" "take_buffer (ucast d) blk x s = Ret x t"
    and rel: "\<And>c. relinked (if c = x then assigned d blk (emptied (bufs s x)) else bufs s c) (bufs t c)" by blast
  have "b_count (bufs t x) = 1" using rel [of x] by (simp add: relinked_iff assigned_def emptied_def)
  moreover have "relinked (bufs s c) (bufs t c)" if "c \<noteq> x" for c using rel [of c] that by simp
  moreover have "super_block t = super_block s" using take_buffer_same [OF t(5)] by (simp add: same_rest_def)
  ultimately show ?thesis using that t(1-4) \<open>b_count (bufs s x) = 0\<close> by blast
next
  case (Some x)
  let ?t = "upd_buf x (\<lambda>h. h\<lparr>b_count := b_count h + 1\<rparr>) s"
  have x: "b_count (bufs s x) = 0" "b_lock (bufs s x) = 0" using ready Some by (simp_all add: buffer_ready_def)
  have K: "0 < bound K" using nr by simp
  have "getblk K (ucast d) blk s = Ret x ?t"
    using get_hash_table_cached(2) [OF ok nr(2) K d Some x(2)] K
    by (cases "bound K") (simp_all add: getblk_def getblk_with_def)
  moreover have "cache_ok fl ?t" "cached ?t = cached s" by (rule cache_ok_upd [OF ok]; simp)+
  moreover have "relinked (bufs s c) (bufs ?t c)" if "c \<noteq> x" for c using that by (simp add: relinked_iff)
  ultimately show ?thesis using that [of x ?t fl] Some x by simp
qed

text \<open>C28: Allocating a block. The file system of device \<open>d\<close> has its super block in memory and unlocked, and its map blocks in different buffers that are held; \<open>m\<close>
  is the least number whose bit in the whole zone map (up to eight blocks) is clear, not 0, and the block \<open>n\<close> that it stands for is within the device;
  the cache is well formed, and the block's buffer, when it has one, is not in use, or else some buffer can be
  reused. Then \<open>new_block\<close> returns \<open>n\<close>; in the whole zone map the bit \<open>m\<close> is set and no other bit has changed, and the map block is
  to be written; and the block has a buffer, zeroed, up to date, to be written, and not in use, and no byte of any other buffer
  has changed.\<close>

theorem new_block_fresh:
  fixes s :: "'a fs_state_scheme"
  assumes sup: "super_of K d sb s" and maps: "maps_held sb s"
    and m: "0 < m" "m < 65536" "\<not> zone_used sb s m" "\<forall>k<m. zone_used sb s k"
    and n: "n = m + unat (s_firstdatazone (super_block s sb)) - 1" "n < unat (s_nzones (super_block s sb))"
    and ok: "cache_ok fl s" and nr: "1 < nr_buffers s" "nr_buffers s \<le> bound K" and ready: "buffer_ready (d, of_nat n) fl s"
  shows "returns (new_block K (ucast d) s) (\<lambda>b t. b = of_nat n \<and> super_block t = super_block s \<and>
    (\<forall>k<65536. zone_used sb t k \<longleftrightarrow> k = m \<or> zone_used sb s k) \<and>
    (\<exists>z x. s_zmap (super_block s sb) (m div 8192) = Some z \<and> b_dirt (bufs t z) = 1 \<and>
       cached t (d, b) = Some x \<and> (\<forall>k<1024. b_data (bufs t x) k = 0) \<and> b_uptodate (bufs t x) = 1 \<and>
       b_dirt (bufs t x) = 1 \<and> b_count (bufs t x) = 0 \<and>
       (\<forall>c. c \<noteq> x \<and> c \<noteq> z \<longrightarrow> b_data (bufs t c) = b_data (bufs s c))))"
proof -
  obtain z where z: "s_zmap (super_block s sb) (m div 8192) = Some z"
    "find_in_map [0..<8] (s_zmap (super_block s sb)) (bufs s) = Some (m div 8192, z, m mod 8192)"
    using find_in_map_first [OF m(2-4)] by blast
  let ?j = "m mod 8192" and ?i = "m div 8192"
  have mm: "?j + 8192 * ?i = m" by simp
  have nb: "next_block ?i ?j (super_block s sb) = n" unfolding next_block_def mm n(1) ..
  define u where "u = mark_block z ?j s"
  have u: "cache_ok fl u" "cached u = cached s" unfolding u_def mark_block_def by (rule cache_ok_upd [OF ok]; simp)+
  have "m div 8192 < 8" using m(2) by simp
  then have zc: "b_count (bufs s z) \<noteq> 0" using maps z(1) unfolding maps_held_def by blast
  have cnt: "b_count (bufs u c) = b_count (bufs s c)" "reusable (bufs u c) = reusable (bufs s c)" "b_lock (bufs u c) = b_lock (bufs s c)" for c
    using zc by (auto simp: u_def mark_block_def reusable_def)
  have d: "d \<noteq> 0" using sup by (simp add: super_of_def)
  have nru: "1 < nr_buffers u" "nr_buffers u \<le> bound K" using nr by (simp_all add: u_def mark_block_def)
  have "buffer_ready (d, of_nat n) fl u" using ready unfolding buffer_ready_def u(2) cnt .
  from getblk_ready [OF u(1) nru d this] obtain x t fl' where t: "getblk K (ucast d) (of_nat n) u = Ret x t" "cache_ok fl' t"
    "cached t (d, of_nat n) = Some x" "b_count (bufs t x) = 1" "b_lock (bufs t x) = 0" "b_count (bufs u x) = 0" "super_block t = super_block u"
    and rel: "\<And>c. c \<noteq> x \<Longrightarrow> relinked (bufs u c) (bufs t c)" by metis
  have run: "new_block K (ucast d) s = Ret (of_nat n) (blanked x t)"
    using new_block_run [OF sup z(2), of x t] t(1,4,5) m(1) n(2) by (simp add: nb u_def)
  have sb: "super_block (blanked x t) = super_block s" using t(7) by (simp add: u_def mark_block_def)
  have zx: "c \<noteq> x" if "i < 8" "s_zmap (super_block s sb) i = Some c" for i c
    using maps that t(6) unfolding cnt(1) maps_held_def by auto
  have data: "b_data (bufs t c) = b_data (bufs u c)" "b_dirt (bufs t c) = b_dirt (bufs u c)" if "c \<noteq> x" for c
    using rel [OF that] by (simp_all add: relinked_iff)
  have zu: "zone_used sb (blanked x t) k \<longleftrightarrow> k = m \<or> zone_used sb s k" if k: "k < 65536" for k
  proof (cases "s_zmap (super_block s sb) (k div 8192)")
    case None
    then show ?thesis using z(1) unfolding zone_used_def sb by auto
  next
    case (Some c)
    have k8: "k div 8192 < 8" using k by simp
    have "b_data (bufs (blanked x t) c) = b_data (bufs u c)" using zx [OF k8 Some] data by simp
    moreover have "c = z \<longleftrightarrow> k div 8192 = ?i" using maps k8 Some z(1) m(2) unfolding maps_held_def by auto
    moreover have "k = m \<longleftrightarrow> k div 8192 = ?i \<and> k mod 8192 = ?j" by (metis div_mult_mod_eq)
    ultimately show ?thesis using Some unfolding zone_used_def sb
      by (auto simp: u_def mark_block_def block_bit_set)
  qed
  have "z \<noteq> x" using zx [OF _ z(1)] m(2) by simp
  then show ?thesis unfolding run returns_simps
    using sb zu z(1) t(3) data cache_ok_blanked(2) [OF t(2)]
    by (intro conjI allI impI exI [of _ z] exI [of _ x]) (simp_all add: clear_block_def u_def mark_block_def)
qed

section \<open>Releasing a block\<close>

lemma released_bit:
  assumes "0 < j + 8192 * i" and "next_block i j sb < unat (s_nzones sb)" and "j < 8192"
  shows "unat (of_nat (next_block i j sb) - (ucast (s_firstdatazone sb) - 1) :: u32) = j + 8192 * i"
    and "\<not> (of_nat (next_block i j sb) :: u32) <s ucast (s_firstdatazone sb)"
proof -
  note w = next_block_word [OF assms(1,2)]
  have z: "unat (s_nzones sb) < 65536" using unsigned_less [of "s_nzones sb"] by simp
  have "(of_nat (next_block i j sb) :: u32) - (ucast (s_firstdatazone sb) - 1) = of_nat (j + i * 8192)"
    unfolding w(1) [symmetric] by simp
  moreover have "j + i * 8192 < 4294967296" using assms(2) z by (simp add: next_block_def)
  ultimately show "unat (of_nat (next_block i j sb) - (ucast (s_firstdatazone sb) - 1) :: u32) = j + 8192 * i"
    by (simp only: unat_of_nat_u32 mult.commute)
  have A: "sint (of_nat (next_block i j sb) :: u32) = int (next_block i j sb)"
    using assms(2) z w(2) by (subst sint_small) simp_all
  have "unat (s_firstdatazone sb) < 65536" using unsigned_less [of "s_firstdatazone sb"] by simp
  then have B: "sint (ucast (s_firstdatazone sb) :: u32) = int (unat (s_firstdatazone sb))"
    by (subst sint_small) simp_all
  have "unat (s_firstdatazone sb) \<le> next_block i j sb" using assms(1) unfolding next_block_def by linarith
  then show "\<not> (of_nat (next_block i j sb) :: u32) <s ucast (s_firstdatazone sb)"
    unfolding word_sless_alt A B by (simp del: of_nat_unat)
qed

text \<open>C29: allocating a block and releasing it leaves the zone map as it was, bit for bit, and the buffer of the block
  unused, clean and no longer up to date.\<close>

theorem new_block_free_block:
  fixes s :: "'a fs_state_scheme"
  assumes can: "can_allocate K d sb fl i zm j x s"
  shows "returns (andThen (new_block K (ucast d) s) (\<lambda>b. free_block K (ucast d) b)) (\<lambda>_ t.
    (\<forall>k. block_bit (b_data (bufs t zm)) k \<longleftrightarrow> block_bit (b_data (bufs s zm)) k) \<and>
    b_count (bufs t x) = 0 \<and> b_dirt (bufs t x) = 0 \<and> b_uptodate (bufs t x) = 0)"
proof -
  define n where "n = next_block i j (super_block s sb)"
  obtain t where t: "new_block K (ucast d) s = Ret (of_nat n) (blanked x t)" "same_rest s t"
    "cache_ok (remove1 x fl @ [x]) t" "nr_buffers t = nr_buffers s" "cached t (d, of_nat n) = Some x" "b_lock (bufs t x) = 0"
    "x \<noteq> zm" "relinked (bufs (mark_block zm j s) zm) (bufs t zm)"
    using new_block_state [OF can] unfolding n_def by blast
  note c = can [unfolded can_allocate_def]
  have map: "find_in_map [0..<8] (s_zmap (super_block s sb)) (bufs s) = Some (i, zm, j)" using c by simp
  note m = find_in_map_Some [OF map]
  have d: "d \<noteq> 0" using c by (simp add: super_of_def)
  have sup: "super_of K d sb (blanked x t)" using c t(2) by (simp add: super_of_def same_rest_def)
  have sb: "super_block t = super_block s" using t(2) by (simp add: same_rest_def)
  have pos: "0 < j + 8192 * i" "next_block i j (super_block s sb) < unat (s_nzones (super_block s sb))" "j < 8192"
    using c m by simp_all
  note rel = released_bit [OF pos, folded n_def] and w = next_block_word(3) [OF pos(1,2), folded n_def]
  let ?u = "upd_buf x (\<lambda>h. h\<lparr>b_count := b_count h + 1\<rparr>) (blanked x t)"
  have get: "get_hash_table K (ucast d) (of_nat n) (blanked x t) = Ret (Some x) ?u"
    using get_hash_table_cached(2) [OF cache_ok_blanked(1) [OF t(3)] _ _ d] c cache_ok_blanked(2) [OF t(3)] t(4,5,6)
    by (simp add: clear_block_def)
  have zm: "b_data (bufs t zm) = snd (set_bit j (b_data (bufs s zm)))"
    using t(8) by (simp add: relinked_iff mark_block_def)
  have dm: "(j + 8192 * i) div 8192 = i" "(j + 8192 * i) mod 8192 = j" using pos(3) by simp_all
  let ?v = "wake_up buffer_wait (upd_buf x (\<lambda>h. h\<lparr>b_count := 0\<rparr>) (upd_buf x (\<lambda>h. h\<lparr>b_dirt := 0, b_uptodate := 0\<rparr>) ?u))"
  have rls: "brelse K (Some x) (upd_buf x (\<lambda>h. h\<lparr>b_dirt := 0, b_uptodate := 0\<rparr>) ?u) = Ret () ?v"
    using t(6) by (simp add: brelse_def wait_on_buffer_def buf_locked_def clear_block_def upd_buf_def)
  have bit: "block_bit (b_data (bufs t zm)) j" by (simp add: zm block_bit_set)
  have "free_block K (ucast d) (of_nat n) (blanked x t) =
      Ret () (upd_buf zm (\<lambda>h. h\<lparr>b_dirt := 1\<rparr>) (upd_buf zm (\<lambda>h. h\<lparr>b_data := snd (clear_bit j (b_data (bufs t zm)))\<rparr>) ?v))"
    unfolding free_block_def get_super_found [OF sup] andThen.simps option.case get
    using rel w m t(7) bit rls
    by (simp add: dm clear_bit_def sb Let_def)
  then show ?thesis using t(1,7) by (simp add: block_bit_clear zm block_bit_set) (use m in auto)
qed

text \<open>C30: a block that is released while its buffer is in use is neither released nor forgotten: \<open>free_block\<close> returns
  after the lookup, the zone map keeps the bit, and the count that \<open>get_hash_table\<close> has added to the buffer is never
  taken away, so the buffer can not be reused any more.\<close>

theorem free_block_in_use_leaks:
  assumes sup: "super_of K d sb s" and ok: "cache_ok fl s" "nr_buffers s \<le> bound K"
    and zone: "\<not> blk <s ucast (s_firstdatazone (super_block s sb))" "\<not> ucast (s_nzones (super_block s sb)) \<le>s blk"
    and b: "cached s (d, blk) = Some b" "b_lock (bufs s b) = 0" "b_count (bufs s b) \<noteq> 0"
  shows "free_block K (ucast d) blk s = Ret () (upd_buf b (\<lambda>h. h\<lparr>b_count := b_count h + 1\<rparr>) s)"
proof -
  have "b_count (bufs s b) + 1 \<noteq> 1" using b(3) by simp
  moreover have "d \<noteq> 0" "0 < bound K" using sup by (auto simp: super_of_def)
  ultimately show ?thesis
    using get_super_found [OF sup] get_hash_table_cached(2) [OF ok, of d blk b] zone b
    by (simp add: free_block_def)
qed

section \<open>An example\<close>

text \<open>A file system on device 0x101 with 100 zones, data from zone 5 on, and one block in use; its zone map is in buffer 1.\<close>

definition small_fs :: fs_state where
  "small_fs = (upd_buf 1 (\<lambda>h. h\<lparr>b_count := 1, b_data := (\<lambda>_. 0)(0 := 1)\<rparr>) empty_fs)
     \<lparr>super_block := (\<lambda>_. no_super)(0 := no_super\<lparr>s_dev := 0x101, s_nzones := 100, s_firstdatazone := 5,
        s_zmap := (\<lambda>_. None)(0 := Some 1)\<rparr>)\<rparr>"

lemma cache_ok_super [simp]:
  "cache_ok fl (s\<lparr>super_block := f\<rparr>) \<longleftrightarrow> cache_ok fl s" "cached (s\<lparr>super_block := f\<rparr>) = cached s"
  by (simp_all add: cache_ok_def free_ok_def hash_ok_def on_device_def cached_def fun_eq_iff)

lemma small_fs_cache: "cache_ok [0, 1, 2, 3] small_fs" "cached small_fs = cached empty_fs"
  unfolding small_fs_def cache_ok_super
  by (rule cache_ok_upd [OF empty_cache_ok]; simp)+

lemma small_fs_bufs:
  "bufs small_fs = free_buf(1 := (free_buf 1)\<lparr>b_count := 1, b_data := (\<lambda>_. 0)(0 := 1)\<rparr>)" "nr_buffers small_fs = 4"
  by (simp_all add: small_fs_def)

lemma small_fs_can_allocate: "can_allocate quiet 0x101 0 [0, 1, 2, 3] 0 1 1 0 small_fs"
proof -
  have bit: "block_bit ((\<lambda>_. 0)(0 := 1)) k \<longleftrightarrow> k = 0" for k
  proof (cases "k < 8")
    case True
    then show ?thesis by (simp add: block_bit_def bit_1_iff)
  next
    case False
    then show ?thesis by (auto simp: block_bit_def div_eq_0_iff)
  qed
  then have "find (\<lambda>k. \<not> block_bit ((\<lambda>_. 0)(0 := 1)) k) [0..<8192] = Some 1"
    unfolding find_upt_first by simp
  then have "find_first_zero ((\<lambda>_. 0)(0 := 1)) = 1"
    using scan_longs_first [of 0 256 "(\<lambda>_. 0)(0 := 1)"] by (simp add: find_first_zero_def)
  then have "find_in_map [0..<8] (s_zmap (super_block small_fs 0)) (bufs small_fs) = Some (0, 1, 1)"
    by (simp add: small_fs_def upt_rec)
  moreover have "cached small_fs (0x101, 5) = None"
    unfolding small_fs_cache(2) by (simp add: cached_def free_buf_def find_None_iff)
  moreover have "find (\<lambda>b. reusable (bufs small_fs b)) [0, 1, 2, 3] = Some 0"
    by (simp add: small_fs_def reusable_def free_buf_def)
  ultimately show ?thesis using small_fs_cache(1)
    by (simp add: can_allocate_def super_of_def next_block_def small_fs_def no_super_def)
qed

lemma small_fs_zones: "zone_used 0 small_fs k \<longleftrightarrow> k = 0 \<or> 8192 \<le> k"
proof -
  have "block_bit ((\<lambda>_. 0)(0 := 1)) k \<longleftrightarrow> k = 0" for k
    by (cases "k < 8") (auto simp: block_bit_def bit_1_iff div_eq_0_iff)
  moreover have "k div 8192 = 0 \<longleftrightarrow> k < 8192" by (simp add: div_eq_0_iff)
  ultimately show ?thesis by (auto simp: zone_used_def small_fs_def no_super_def)
qed

theorem new_block_fresh_witness:
  "\<exists>t. new_block quiet (ucast (0x101::u16)) small_fs = Ret 5 t \<and> zone_used 0 t 1 \<and> \<not> zone_used 0 t 2 \<and> b_dirt (bufs t 1) = 1"
proof -
  have new: "cached small_fs (0x101, 5) = None"
    unfolding small_fs_cache(2) by (simp add: cached_def free_buf_def find_None_iff)
  then have r: "buffer_ready (0x101, of_nat 5) [0, 1, 2, 3] small_fs"
    by (simp add: buffer_ready_def reusable_def small_fs_bufs free_buf_def)
  have s: "super_of quiet 0x101 0 small_fs" "maps_held 0 small_fs"
    by (simp_all add: super_of_def maps_held_def small_fs_def no_super_def)
  have u: "\<not> zone_used 0 small_fs 1" "\<forall>k<1. zone_used 0 small_fs k" "\<not> zone_used 0 small_fs 2" by (simp_all add: small_fs_zones)
  have n: "5 = 1 + unat (s_firstdatazone (super_block small_fs 0)) - 1" "5 < unat (s_nzones (super_block small_fs 0))"
    by (simp_all add: small_fs_def no_super_def)
  have z: "s_zmap (super_block small_fs 0) (1 div 8192) = Some 1" by (simp add: small_fs_def no_super_def)
  have c: "1 < nr_buffers small_fs" "nr_buffers small_fs \<le> bound quiet" by (simp_all add: small_fs_bufs)
  show ?thesis
    using new_block_fresh [OF s _ _ u(1,2) n small_fs_cache(1) c r] u(3) unfolding z by (auto elim!: returnsE)
qed

theorem new_block_free_block_witness:
  "\<exists>t. andThen (new_block quiet (ucast (0x101::u16)) small_fs) (\<lambda>b. free_block quiet (ucast (0x101::u16)) b) = Ret () t \<and>
     b_count (bufs t 0) = 0"
  using new_block_free_block [OF small_fs_can_allocate] by (auto elim!: returnsE simp del: returns_andThen)

text \<open>Block 5 again, with its buffer in use.\<close>

theorem free_block_in_use_leaks_witness:
  "\<exists>t::fs_state. free_block quiet (ucast (0x101::u16)) 5 t = Ret () (upd_buf 0 (\<lambda>h. h\<lparr>b_count := b_count h + 1\<rparr>) t)"
proof -
  have new: "cached small_fs (0x101, 5) = None"
    unfolding small_fs_cache(2) by (simp add: cached_def free_buf_def find_None_iff)
  have f: "find (\<lambda>b. reusable (bufs small_fs b)) [0, 1, 2, 3] = Some 0"
    by (simp add: small_fs_def reusable_def free_buf_def)
  obtain t where t: "cache_ok (remove1 0 [0, 1, 2, 3] @ [0]) t" "nr_buffers t = nr_buffers small_fs" "cached t (0x101, 5) = Some 0"
    "b_lock (bufs t 0) = 0" "take_buffer (ucast (0x101::u16)) 5 0 small_fs = Ret 0 t"
    "\<And>c. relinked (if c = 0 then assigned 0x101 5 (emptied (bufs small_fs 0)) else bufs small_fs c) (bufs t c)"
    using getblk_new [OF small_fs_cache(1) _ _ _ new f, of quiet] by (auto simp: small_fs_def)
  have sb: "super_block t = super_block small_fs" using take_buffer_same [OF t(5)] by (simp add: same_rest_def)
  have "b_count (bufs t 0) = 1" using t(6) [of 0] by (simp add: relinked_iff assigned_def emptied_def)
  then have "free_block quiet (ucast (0x101::u16)) 5 t = Ret () (upd_buf 0 (\<lambda>h. h\<lparr>b_count := b_count h + 1\<rparr>) t)"
    using t by (intro free_block_in_use_leaks [where sb = 0])
      (simp_all add: super_of_def sb small_fs_def no_super_def word_sless_alt word_sle_eq)
  then show ?thesis by blast
qed

end
