(* ===== verification/Console.thy ===== *)
theory Console
  imports Fs
begin

text \<open>
  The terminal's data (\<^verbatim>\<open>include/linux/tty.h\<close>, \<^verbatim>\<open>include/termios.h\<close>) and the screen of the console
  (\<^verbatim>\<open>kernel/chr_drv/console.c\<close>): the cursor, scrolling, erasing, inserting and deleting, and the state
  machine that \<open>con_write\<close> runs over the characters of the write queue.

  The static variables of the file are the record \<open>console\<close>; the video memory is physical memory,
  read and written by bytes. \<open>tty_table\<close> has one entry, the console, so the model has one
  \<open>tty_struct\<close>; its process group is \<open>tty_pgrp s 0\<close> and its \<open>write\<close> is always \<open>con_write\<close>. A \<open>char\<close> is a
  signed byte.
\<close>

section \<open>Queues (tty.h)\<close>

record tty_queue =
  q_data :: u32
  q_head :: u32
  q_tail :: u32
  q_wait :: u32
  q_buf :: "nat \<Rightarrow> u8"

definition EMPTY :: "tty_queue \<Rightarrow> bool" where
  "EMPTY q \<longleftrightarrow> q_head q = q_tail q"

definition LEFT :: "tty_queue \<Rightarrow> u32" where
  "LEFT q = (q_tail q - q_head q - 1) AND 1023"

definition LAST :: "tty_queue \<Rightarrow> u8" where
  "LAST q = q_buf q (unat (1023 AND (q_head q - 1)))"

definition FULL :: "tty_queue \<Rightarrow> bool" where
  "FULL q \<longleftrightarrow> LEFT q = 0"

definition CHARS :: "tty_queue \<Rightarrow> u32" where
  "CHARS q = (q_head q - q_tail q) AND 1023"

definition GETCH :: "tty_queue \<Rightarrow> u8 \<times> tty_queue" where
  "GETCH q = (q_buf q (unat (q_tail q)), q\<lparr>q_tail := (q_tail q + 1) AND 1023\<rparr>)"

definition PUTCH :: "u8 \<Rightarrow> tty_queue \<Rightarrow> tty_queue" where
  "PUTCH c q = q\<lparr>q_buf := (q_buf q)(unat (q_head q) := c), q_head := (q_head q + 1) AND 1023\<rparr>"

text \<open>\<open>DEC(q.head)\<close>\<close>

definition DEC_head :: "tty_queue \<Rightarrow> tty_queue" where
  "DEC_head q = q\<lparr>q_head := (q_head q - 1) AND 1023\<rparr>"

section \<open>The terminal\<close>

text \<open>\<open>c_pad\<close> is the padding at the end of \<open>struct termios\<close>, which \<open>set_termios\<close> copies too.\<close>

record termios_struct =
  c_iflag :: u32
  c_oflag :: u32
  c_cflag :: u32
  c_lflag :: u32
  c_line :: u8
  c_cc :: "nat \<Rightarrow> u8"
  c_pad :: "nat \<Rightarrow> u8"

record tty_struct =
  termios :: termios_struct
  stopped :: s32
  read_q :: tty_queue
  write_q :: tty_queue
  secondary :: tty_queue

record console =
  video_type :: u8
  video_num_columns :: u32
  video_size_row :: u32
  video_num_lines :: u32
  video_page :: u8
  video_mem_start :: u32
  video_mem_end :: u32
  video_port_reg :: u16
  video_port_val :: u16
  video_erase_char :: u16
  origin :: u32
  scr_end :: u32
  pos :: u32
  con_x :: u32
  con_y :: u32
  scr_top :: u32
  scr_bottom :: u32
  con_state :: u32
  npar :: u32
  par :: "nat \<Rightarrow> u32"
  ques :: bool
  attr :: u8
  saved_x :: s32
  saved_y :: s32

text \<open>\<open>ctype_before\<close> are the bytes of the kernel in front of the table \<open>_ctype\<close>, which its macros read for a
  negative \<open>char\<close>; \<open>cr_flag\<close> is the static variable of \<open>tty_write\<close>.\<close>

record tty_state = fs_state +
  con :: console
  con_tty :: tty_struct
  cr_flag :: bool
  ctype_before :: "nat \<Rightarrow> u8"

definition upd_con :: "(console \<Rightarrow> console) \<Rightarrow> 'a tty_state_scheme \<Rightarrow> 'a tty_state_scheme" where
  "upd_con f s = s\<lparr>con := f (con s)\<rparr>"

definition upd_tty :: "(tty_struct \<Rightarrow> tty_struct) \<Rightarrow> 'a tty_state_scheme \<Rightarrow> 'a tty_state_scheme" where
  "upd_tty f s = s\<lparr>con_tty := f (con_tty s)\<rparr>"

section \<open>Video memory\<close>

definition get_short :: "u32 \<Rightarrow> 'a mm_state_scheme \<Rightarrow> u16" where
  "get_short a s = push_bit 8 (ucast (get_kbyte (a + 1) s)) OR ucast (get_kbyte a s)"

definition put_short :: "u32 \<Rightarrow> u16 \<Rightarrow> 'a mm_state_scheme \<Rightarrow> 'a mm_state_scheme" where
  "put_short a v s = put_kbyte (ucast (drop_bit 8 v)) (a + 1) (put_kbyte (ucast v) a s)"

text \<open>\<open>rep stosw\<close> and \<open>rep movsl\<close>, with the step of the direction flag: 2 and 4 after \<open>cld\<close>, -2 and -4 after
  \<open>std\<close>.\<close>

fun stosw :: "u32 \<Rightarrow> nat \<Rightarrow> u16 \<Rightarrow> u32 \<Rightarrow> 'a mm_state_scheme \<Rightarrow> 'a mm_state_scheme" where
  "stosw step 0 v edi s = s"
| "stosw step (Suc n) v edi s = stosw step n v (edi + step) (put_short edi v s)"

fun movsl :: "u32 \<Rightarrow> nat \<Rightarrow> u32 \<Rightarrow> u32 \<Rightarrow> 'a mm_state_scheme \<Rightarrow> 'a mm_state_scheme" where
  "movsl step 0 esi edi s = s"
| "movsl step (Suc n) esi edi s = movsl step n (esi + step) (edi + step) (put_kbytes edi (get_kbytes esi 4 s) s)"

section \<open>The cursor\<close>

definition gotoxy :: "u32 \<Rightarrow> u32 \<Rightarrow> console \<Rightarrow> console" where
  "gotoxy new_x new_y c =
     (if video_num_columns c < new_x \<or> video_num_lines c \<le> new_y then c
      else c\<lparr>con_x := new_x, con_y := new_y, pos := origin c + new_y * video_size_row c + push_bit 1 new_x\<rparr>)"

definition out_video :: "u8 \<Rightarrow> u32 \<Rightarrow> 'a tty_state_scheme \<Rightarrow> 'a tty_state_scheme" where
  "out_video reg d s =
     (let r = ucast (video_port_reg (con s)); v = ucast (video_port_val (con s)) in
      outb (ucast (0xff AND drop_bit 1 d)) v (outb (reg + 1) r
        (outb (ucast (0xff AND drop_bit 9 d)) v (outb reg r s))))"

definition set_origin :: "'a tty_state_scheme \<Rightarrow> 'a tty_state_scheme" where
  "set_origin s = out_video 12 (origin (con s) - video_mem_start (con s)) s"

definition set_cursor :: "'a tty_state_scheme \<Rightarrow> 'a tty_state_scheme" where
  "set_cursor s = out_video 14 (pos (con s) - video_mem_start (con s)) s"

section \<open>Scrolling\<close>

definition EGA :: "console \<Rightarrow> bool" where
  "EGA c \<longleftrightarrow> video_type c = 0x21 \<or> video_type c = 0x20"

text \<open>The lines \<open>top + 1\<close> to \<open>bottom - 1\<close> move up by one, and the last becomes blank.\<close>

definition move_up :: "'a tty_state_scheme \<Rightarrow> 'a tty_state_scheme" where
  "move_up s =
     (let c = con s; n = unat (drop_bit 1 ((scr_bottom c - scr_top c - 1) * video_num_columns c));
          edi = origin c + video_size_row c * scr_top c;
          s = movsl 4 n (origin c + video_size_row c * (scr_top c + 1)) edi s
      in stosw 2 (unat (video_num_columns c)) (video_erase_char c) (edi + 4 * of_nat n) s)"

definition scrup :: "'a tty_state_scheme \<Rightarrow> 'a tty_state_scheme" where
  "scrup s =
     (if EGA (con s) then
        if scr_top (con s) = 0 \<and> scr_bottom (con s) = video_num_lines (con s) then
          let s = upd_con (\<lambda>c. c\<lparr>origin := origin c + video_size_row c, pos := pos c + video_size_row c,
                    scr_end := scr_end c + video_size_row c\<rparr>) s;
              c = con s in
          if video_mem_end c < scr_end c then
            let n = unat (drop_bit 1 ((video_num_lines c - 1) * video_num_columns c));
                s = movsl 4 n (origin c) (video_mem_start c) s;
                s = stosw 2 (unat (video_num_columns c)) (video_erase_char c) (video_mem_start c + 4 * of_nat n) s
            in set_origin (upd_con (\<lambda>c. c\<lparr>scr_end := scr_end c - (origin c - video_mem_start c),
                 pos := pos c - (origin c - video_mem_start c), origin := video_mem_start c\<rparr>) s)
          else set_origin (stosw 2 (unat (video_num_columns c)) (video_erase_char c) (scr_end c - video_size_row c) s)
        else move_up s
      else move_up s)"

text \<open>Both branches of \<open>scrdown\<close> are the same code: the lines \<open>top\<close> to \<open>bottom - 2\<close> move down, last long first.\<close>

definition scrdown :: "'a tty_state_scheme \<Rightarrow> 'a tty_state_scheme" where
  "scrdown s =
     (let c = con s; n = unat (drop_bit 1 ((scr_bottom c - scr_top c - 1) * video_num_columns c));
          edi = origin c + video_size_row c * scr_bottom c - 4;
          s = movsl (-4) n (origin c + video_size_row c * (scr_bottom c - 1) - 4) edi s
      in stosw (-2) (unat (video_num_columns c)) (video_erase_char c) (edi - 4 * of_nat n + 2) s)"

definition save_cur :: "console \<Rightarrow> console" where
  "save_cur c = c\<lparr>saved_x := con_x c, saved_y := con_y c\<rparr>"

definition restore_cur :: "console \<Rightarrow> console" where
  "restore_cur c = gotoxy (saved_x c) (saved_y c) c"

definition lf :: "'a tty_state_scheme \<Rightarrow> 'a tty_state_scheme" where
  "lf s = (if con_y (con s) + 1 < scr_bottom (con s)
           then upd_con (\<lambda>c. c\<lparr>con_y := con_y c + 1, pos := pos c + video_size_row c\<rparr>) s else scrup s)"

definition ri :: "'a tty_state_scheme \<Rightarrow> 'a tty_state_scheme" where
  "ri s = (if scr_top (con s) < con_y (con s)
           then upd_con (\<lambda>c. c\<lparr>con_y := con_y c - 1, pos := pos c - video_size_row c\<rparr>) s else scrdown s)"

definition cr :: "console \<Rightarrow> console" where
  "cr c = c\<lparr>pos := pos c - push_bit 1 (con_x c), con_x := 0\<rparr>"

definition del :: "'a tty_state_scheme \<Rightarrow> 'a tty_state_scheme" where
  "del s = (if con_x (con s) \<noteq> 0
            then let s = upd_con (\<lambda>c. c\<lparr>pos := pos c - 2, con_x := con_x c - 1\<rparr>) s
                 in put_short (pos (con s)) (video_erase_char (con s)) s
            else s)"

section \<open>Erasing, inserting and deleting\<close>

definition csi_J :: "u32 \<Rightarrow> 'a tty_state_scheme \<Rightarrow> 'a tty_state_scheme" where
  "csi_J p s =
     (let c = con s in
      if p = 0 then stosw 2 (unat (drop_bit 1 (scr_end c - pos c))) (video_erase_char c) (pos c) s
      else if p = 1 then stosw 2 (unat (drop_bit 1 (pos c - origin c))) (video_erase_char c) (origin c) s
      else if p = 2 then stosw 2 (unat (video_num_columns c * video_num_lines c)) (video_erase_char c) (origin c) s
      else s)"

definition csi_K :: "u32 \<Rightarrow> 'a tty_state_scheme \<Rightarrow> 'a tty_state_scheme" where
  "csi_K p s =
     (let c = con s; start = pos c - push_bit 1 (con_x c) in
      if p = 0 then
        if video_num_columns c \<le> con_x c then s
        else stosw 2 (unat (video_num_columns c - con_x c)) (video_erase_char c) (pos c) s
      else if p = 1 then
        stosw 2 (unat (if con_x c < video_num_columns c then con_x c else video_num_columns c)) (video_erase_char c) start s
      else if p = 2 then stosw 2 (unat (video_num_columns c)) (video_erase_char c) start s
      else s)"

definition csi_m :: "console \<Rightarrow> console" where
  "csi_m c = fold (\<lambda>i c.
     if par c i = 0 then c\<lparr>attr := 0x07\<rparr> else if par c i = 1 then c\<lparr>attr := 0x0f\<rparr>
     else if par c i = 4 then c\<lparr>attr := 0x0f\<rparr> else if par c i = 7 then c\<lparr>attr := 0x70\<rparr>
     else if par c i = 27 then c\<lparr>attr := 0x07\<rparr> else c) [0..<Suc (unat (npar c))] c"

text \<open>\<open>while (i++<video_num_columns)\<close>: each character moves one place to the right.\<close>

fun shift_right :: "nat \<Rightarrow> u16 \<Rightarrow> u32 \<Rightarrow> 'a mm_state_scheme \<Rightarrow> 'a mm_state_scheme" where
  "shift_right 0 old p s = s"
| "shift_right (Suc n) old p s = shift_right n (get_short p s) (p + 2) (put_short p old s)"

definition insert_char :: "'a tty_state_scheme \<Rightarrow> 'a tty_state_scheme" where
  "insert_char s =
     (let c = con s in
      shift_right (unat (video_num_columns c) - unat (con_x c)) (video_erase_char c) (pos c) s)"

definition with_region ::
  "('a tty_state_scheme \<Rightarrow> 'a tty_state_scheme) \<Rightarrow> 'a tty_state_scheme \<Rightarrow> 'a tty_state_scheme" where
  "with_region scroll s =
     upd_con (\<lambda>c. c\<lparr>scr_top := scr_top (con s), scr_bottom := scr_bottom (con s)\<rparr>)
       (scroll (upd_con (\<lambda>c. c\<lparr>scr_top := con_y c, scr_bottom := video_num_lines c\<rparr>) s))"

definition insert_line :: "'a tty_state_scheme \<Rightarrow> 'a tty_state_scheme" where
  "insert_line s = with_region scrdown s"

definition delete_line :: "'a tty_state_scheme \<Rightarrow> 'a tty_state_scheme" where
  "delete_line s = with_region scrup s"

fun shift_left :: "nat \<Rightarrow> u16 \<Rightarrow> u32 \<Rightarrow> 'a mm_state_scheme \<Rightarrow> 'a mm_state_scheme" where
  "shift_left 0 v p s = put_short p v s"
| "shift_left (Suc n) v p s = shift_left n v (p + 2) (put_short p (get_short (p + 2) s) s)"

definition delete_char :: "'a tty_state_scheme \<Rightarrow> 'a tty_state_scheme" where
  "delete_char s =
     (let c = con s in
      if video_num_columns c \<le> con_x c then s
      else shift_left (unat (video_num_columns c) - unat (con_x c) - 1) (video_erase_char c) (pos c) s)"

definition clamp :: "u32 \<Rightarrow> u32 \<Rightarrow> nat" where
  "clamp limit nr = unat (if limit < nr then limit else if nr = 0 then 1 else nr)"

definition csi_at :: "u32 \<Rightarrow> 'a tty_state_scheme \<Rightarrow> 'a tty_state_scheme" where
  "csi_at nr s = (insert_char ^^ clamp (video_num_columns (con s)) nr) s"

definition csi_L :: "u32 \<Rightarrow> 'a tty_state_scheme \<Rightarrow> 'a tty_state_scheme" where
  "csi_L nr s = (insert_line ^^ clamp (video_num_lines (con s)) nr) s"

definition csi_P :: "u32 \<Rightarrow> 'a tty_state_scheme \<Rightarrow> 'a tty_state_scheme" where
  "csi_P nr s = (delete_char ^^ clamp (video_num_columns (con s)) nr) s"

definition csi_M :: "u32 \<Rightarrow> 'a tty_state_scheme \<Rightarrow> 'a tty_state_scheme" where
  "csi_M nr s = (delete_line ^^ clamp (video_num_lines (con s)) nr) s"

definition sysbeep :: "'a sched_state_scheme \<Rightarrow> 'a sched_state_scheme" where
  "sysbeep s = (outb 0x06 0x42 (outb 0x37 0x42 (outb 0xB6 0x43 (outb (ports s 0x61 OR 3) 0x61 s))))\<lparr>beepcount := 12\<rparr>"

section \<open>The characters of a terminal's output\<close>

definition ch :: "char \<Rightarrow> u8" where
  "ch c = of_char c"

definition RESPONSE :: "u8 list" where
  "RESPONSE = 27 # map ch ''[?1;2c''"

text \<open>The answer to ESC Z goes into the read queue, and from there through \<open>copy_to_cooked\<close>, the argument
  \<open>cooked\<close>.\<close>

definition respond ::
  "('a tty_state_scheme \<Rightarrow> ('a tty_state_scheme, unit) outcome) \<Rightarrow> 'a tty_state_scheme \<Rightarrow> ('a tty_state_scheme, unit) outcome" where
  "respond cooked s = cooked (upd_tty (\<lambda>t. t\<lparr>read_q := fold PUTCH RESPONSE (read_q t)\<rparr>) s)"

text \<open>A character in state 0.\<close>

definition wrap_line :: "'a tty_state_scheme \<Rightarrow> 'a tty_state_scheme" where
  "wrap_line s = lf (upd_con (\<lambda>c. c\<lparr>con_x := con_x c - video_num_columns c, pos := pos c - video_size_row c\<rparr>) s)"

definition con_print :: "u8 \<Rightarrow> 'a tty_state_scheme \<Rightarrow> 'a tty_state_scheme" where
  "con_print c s =
     (let s = (if video_num_columns (con s) \<le> con_x (con s) then wrap_line s else s);
          s = put_short (pos (con s)) (push_bit 8 (ucast (attr (con s))) OR ucast c) s
      in upd_con (\<lambda>c. c\<lparr>pos := pos c + 2, con_x := con_x c + 1\<rparr>) s)"

definition con_tab :: "'a tty_state_scheme \<Rightarrow> 'a tty_state_scheme" where
  "con_tab s =
     (let n = 8 - (con_x (con s) AND 7);
          s = upd_con (\<lambda>c. c\<lparr>con_x := con_x c + n, pos := pos c + push_bit 1 n\<rparr>) s
      in if video_num_columns (con s) < con_x (con s) then wrap_line s else s)"

definition con_normal :: "u8 \<Rightarrow> 'a tty_state_scheme \<Rightarrow> 'a tty_state_scheme" where
  "con_normal c s =
     (if 31 <s c \<and> c <s 127 then con_print c s
      else if c = 27 then upd_con (\<lambda>c. c\<lparr>con_state := 1\<rparr>) s
      else if c = 10 \<or> c = 11 \<or> c = 12 then lf s
      else if c = 13 then upd_con cr s
      else if sint c = uint (c_cc (termios (con_tty s)) 2) then del s
      else if c = 8 then
        if con_x (con s) \<noteq> 0 then upd_con (\<lambda>c. c\<lparr>con_x := con_x c - 1, pos := pos c - 2\<rparr>) s else s
      else if c = 9 then con_tab s
      else if c = 7 then sysbeep s
      else s)"

text \<open>A character after ESC; the last two tests look at the column, as the code does.\<close>

definition con_escape ::
  "('a tty_state_scheme \<Rightarrow> ('a tty_state_scheme, unit) outcome) \<Rightarrow> u8 \<Rightarrow> 'a tty_state_scheme \<Rightarrow>
     ('a tty_state_scheme, unit) outcome" where
  "con_escape cooked c s =
     (let s = upd_con (\<lambda>c. c\<lparr>con_state := 0\<rparr>) s in
      if c = ch CHR ''['' then Ret () (upd_con (\<lambda>c. c\<lparr>con_state := 2\<rparr>) s)
      else if c = ch CHR ''E'' then Ret () (upd_con (\<lambda>c. gotoxy 0 (con_y c + 1) c) s)
      else if c = ch CHR ''M'' then Ret () (ri s)
      else if c = ch CHR ''D'' then Ret () (lf s)
      else if c = ch CHR ''Z'' then respond cooked s
      else if con_x (con s) = ucast (ch CHR ''7'') then Ret () (upd_con save_cur s)
      else if con_x (con s) = ucast (ch CHR ''8'') then Ret () (upd_con restore_cur s)
      else Ret () s)"

text \<open>The last character of a sequence ESC [.\<close>

definition set_par :: "nat \<Rightarrow> u32 \<Rightarrow> console \<Rightarrow> console" where
  "set_par i v c = c\<lparr>par := (par c)(i := v)\<rparr>"

definition atleast1 :: "console \<Rightarrow> console" where
  "atleast1 c = (if par c 0 = 0 then set_par 0 (par c 0 + 1) c else c)"

definition lower :: "nat \<Rightarrow> console \<Rightarrow> console" where
  "lower i c = (if par c i \<noteq> 0 then set_par i (par c i - 1) c else c)"

definition set_region :: "console \<Rightarrow> console" where
  "set_region c =
     (let c = lower 0 c; c = (if par c 1 = 0 then set_par 1 (video_num_lines c) c else c) in
      if par c 0 < par c 1 \<and> par c 1 \<le> video_num_lines c then c\<lparr>scr_top := par c 0, scr_bottom := par c 1\<rparr> else c)"

definition con_csi :: "u8 \<Rightarrow> 'a tty_state_scheme \<Rightarrow> 'a tty_state_scheme" where
  "con_csi c s =
     (let s = upd_con (\<lambda>c. c\<lparr>con_state := 0\<rparr>) s; p = par (con s) 0 in
      if c = ch CHR ''G'' \<or> c = 96 then upd_con (\<lambda>c. let c = lower 0 c in gotoxy (par c 0) (con_y c) c) s
      else if c = ch CHR ''A'' then upd_con (\<lambda>c. let c = atleast1 c in gotoxy (con_x c) (con_y c - par c 0) c) s
      else if c = ch CHR ''B'' \<or> c = ch CHR ''e'' then
        upd_con (\<lambda>c. let c = atleast1 c in gotoxy (con_x c) (con_y c + par c 0) c) s
      else if c = ch CHR ''C'' \<or> c = ch CHR ''a'' then
        upd_con (\<lambda>c. let c = atleast1 c in gotoxy (con_x c + par c 0) (con_y c) c) s
      else if c = ch CHR ''D'' then upd_con (\<lambda>c. let c = atleast1 c in gotoxy (con_x c - par c 0) (con_y c) c) s
      else if c = ch CHR ''E'' then upd_con (\<lambda>c. let c = atleast1 c in gotoxy 0 (con_y c + par c 0) c) s
      else if c = ch CHR ''F'' then upd_con (\<lambda>c. let c = atleast1 c in gotoxy 0 (con_y c - par c 0) c) s
      else if c = ch CHR ''d'' then upd_con (\<lambda>c. let c = lower 0 c in gotoxy (con_x c) (par c 0) c) s
      else if c = ch CHR ''H'' \<or> c = ch CHR ''f'' then
        upd_con (\<lambda>c. let c = lower 1 (lower 0 c) in gotoxy (par c 1) (par c 0) c) s
      else if c = ch CHR ''J'' then csi_J p s
      else if c = ch CHR ''K'' then csi_K p s
      else if c = ch CHR ''L'' then csi_L p s
      else if c = ch CHR ''M'' then csi_M p s
      else if c = ch CHR ''P'' then csi_P p s
      else if c = ch CHR ''@'' then csi_at p s
      else if c = ch CHR ''m'' then upd_con csi_m s
      else if c = ch CHR ''r'' then upd_con set_region s
      else if c = ch CHR ''s'' then upd_con save_cur s
      else if c = ch CHR ''u'' then upd_con restore_cur s
      else s)"

definition con_param :: "u8 \<Rightarrow> 'a tty_state_scheme \<Rightarrow> 'a tty_state_scheme" where
  "con_param c s =
     (if c = ch CHR '';'' \<and> npar (con s) < 15 then upd_con (\<lambda>k. k\<lparr>npar := npar k + 1\<rparr>) s
      else if 47 <s c \<and> c <s 58 then
        upd_con (\<lambda>k. set_par (unat (npar k)) (10 * par k (unat (npar k)) + ucast c - 48) k) s
      else con_csi c (upd_con (\<lambda>k. k\<lparr>con_state := 4\<rparr>) s))"

definition con_char ::
  "('a tty_state_scheme \<Rightarrow> ('a tty_state_scheme, unit) outcome) \<Rightarrow> u8 \<Rightarrow> 'a tty_state_scheme \<Rightarrow>
     ('a tty_state_scheme, unit) outcome" where
  "con_char cooked c s =
     (let st = con_state (con s) in
      if st = 0 then Ret () (con_normal c s)
      else if st = 1 then con_escape cooked c s
      else if st = 2 then
        let s = upd_con (\<lambda>k. k\<lparr>par := (\<lambda>i. if i < 16 then 0 else par k i), npar := 0, con_state := 3,
                  ques := (c = ch CHR ''?'')\<rparr>) s
        in Ret () (if c = ch CHR ''?'' then s else con_param c s)
      else if st = 3 then Ret () (con_param c s)
      else if st = 4 then Ret () (con_csi c s)
      else Ret () s)"

fun con_loop ::
  "('a tty_state_scheme \<Rightarrow> ('a tty_state_scheme, unit) outcome) \<Rightarrow> nat \<Rightarrow> 'a tty_state_scheme \<Rightarrow>
     ('a tty_state_scheme, unit) outcome" where
  "con_loop cooked 0 s = Ret () s"
| "con_loop cooked (Suc nr) s =
     andThen (con_char cooked (fst (GETCH (write_q (con_tty s)))) (upd_tty (\<lambda>t. t\<lparr>write_q := snd (GETCH (write_q t))\<rparr>) s))
       (\<lambda>_ s. con_loop cooked nr s)"

definition con_write_with ::
  "('a tty_state_scheme \<Rightarrow> ('a tty_state_scheme, unit) outcome) \<Rightarrow> 'a tty_state_scheme \<Rightarrow>
     ('a tty_state_scheme, unit) outcome" where
  "con_write_with cooked s =
     andThen (con_loop cooked (unat (CHARS (write_q (con_tty s)))) s) (\<lambda>_ s. Ret () (set_cursor s))"

section \<open>Initialisation\<close>

text \<open>The name of the display adapter goes to the last places of the first line.\<close>

fun put_desc :: "u8 list \<Rightarrow> u32 \<Rightarrow> 'a mm_state_scheme \<Rightarrow> 'a mm_state_scheme" where
  "put_desc [] p s = s"
| "put_desc (c # cs) p s = put_desc cs (p + 2) (put_kbyte c p s)"

text \<open>The setup routine has left the parameters of the display at 0x90000. The trap gate of the keyboard
  is not part of the state.\<close>

definition con_init :: "'a tty_state_scheme \<Rightarrow> 'a tty_state_scheme" where
  "con_init s =
     (let mode = get_short 0x90006 s; mono = mode AND 0xff = 7;
          cols = drop_bit 8 (ucast mode AND 0xff00) :: u32; row = cols * 2;
          ega = get_short 0x9000a s AND 0xff \<noteq> 0x10;
          start = (if mono then 0xb0000 else 0xb8000);
          desc = (if mono then if ega then ''EGAm'' else ''*MDA'' else if ega then ''EGAc'' else ''*CGA'');
          s = upd_con (\<lambda>c. c\<lparr>video_num_columns := cols, video_size_row := row, video_num_lines := 25,
                video_page := ucast (get_short 0x90004 s), video_erase_char := 0x0720, video_mem_start := start,
                video_port_reg := if mono then 0x3b4 else 0x3d4, video_port_val := if mono then 0x3b5 else 0x3d5,
                video_type := if mono then if ega then 0x20 else 0x10 else if ega then 0x21 else 0x11,
                video_mem_end := if mono then if ega then 0xb8000 else 0xb2000 else if ega then 0xbc000 else 0xba000\<rparr>) s;
          s = put_desc (map ch desc) (start + row - 8) s;
          s = upd_con (\<lambda>c. c\<lparr>origin := start, scr_end := start + 25 * row, scr_top := 0, scr_bottom := 25\<rparr>) s;
          s = upd_con (gotoxy (ucast (get_kbyte 0x90000 s)) (ucast (get_kbyte 0x90001 s))) s;
          s = outb (ports s 0x21 AND 0xfd) 0x21 s;
          a = ports s 0x61
      in outb a 0x61 (outb (a OR 0x80) 0x61 s))"

end
