(* ===== verification/Console_Memory.thy ===== *)
theory Console_Memory
  imports Console Fs_Lemmas
begin

text \<open>
  What the string instructions of the console do to memory, byte by byte, and the picture that the video memory
  shows: addresses are written \<open>of_nat k\<close>, so that the ranges are ranges of natural numbers.
\<close>

section \<open>Bytes at natural addresses\<close>

definition kb :: "nat \<Rightarrow> 'a mm_state_scheme \<Rightarrow> u8" where
  "kb k s = get_kbyte (of_nat k) s"

lemma of_nat_u32_eq: "j < 4294967296 \<Longrightarrow> k < 4294967296 \<Longrightarrow> (of_nat j :: u32) = of_nat k \<longleftrightarrow> j = k"
  by (metis unat_of_nat_u32)

lemma kb_put:
  assumes "j < 4294967296" and "k < 4294967296"
  shows "kb k (put_kbyte v (of_nat j) s) = (if k = j then v else kb k s)"
  using of_nat_u32_eq [OF assms] by (auto simp: kb_def)

lemma kb_put_short:
  assumes "j + 1 < 4294967296" and "k < 4294967296"
  shows "kb k (put_short (of_nat j) v s) = (if k = j then ucast v else if k = j + 1 then ucast (drop_bit 8 v) else kb k s)"
proof -
  have "(of_nat j :: u32) + 1 = of_nat (j + 1)" by simp
  then show ?thesis unfolding put_short_def using assms by (simp only: kb_put) auto
qed

text \<open>The byte of a cell: the low one at even offsets.\<close>

definition cell_byte :: "u16 \<Rightarrow> nat \<Rightarrow> u8" where
  "cell_byte v i = (if even i then ucast v else ucast (drop_bit 8 v))"

lemma kb_stosw:
  assumes "j + 2 * n < 4294967296" and "k < 4294967296"
  shows "kb k (stosw 2 n v (of_nat j) s) = (if j \<le> k \<and> k < j + 2 * n then cell_byte v (k - j) else kb k s)"
  using assms
proof (induction n arbitrary: j s)
  case (Suc n)
  have "(of_nat j :: u32) + 2 = of_nat (j + 2)" by simp
  then have "kb k (stosw 2 (Suc n) v (of_nat j) s) = kb k (stosw 2 n v (of_nat (j + 2)) (put_short (of_nat j) v s))"
    by (simp only: stosw.simps)
  also have "\<dots> = (if j + 2 \<le> k \<and> k < j + 2 + 2 * n then cell_byte v (k - (j + 2)) else kb k (put_short (of_nat j) v s))"
    using Suc.prems by (intro Suc.IH) simp_all
  also have "\<dots> = (if j \<le> k \<and> k < j + 2 * Suc n then cell_byte v (k - j) else kb k s)"
  proof -
    have "kb k (put_short (of_nat j) v s) = (if k = j then ucast v else if k = j + 1 then ucast (drop_bit 8 v) else kb k s)"
      using Suc.prems by (intro kb_put_short) simp_all
    moreover have "cell_byte v (k - (j + 2)) = cell_byte v (k - j)" if "j + 2 \<le> k"
    proof -
      have "k - j = (k - (j + 2)) + 2" using that by arith
      then show ?thesis by (simp add: cell_byte_def)
    qed
    moreover have "j + 2 \<le> k \<or> k = j \<or> k = j + 1 \<or> k < j" by linarith
    ultimately show ?thesis by (auto simp: cell_byte_def)
  qed
  finally show ?case .
qed auto

lemma kb_stosw_down:
  assumes "j + 2 * n < 4294967296" and "k < 4294967296"
  shows "kb k (stosw (-2) n v (of_nat (j + 2 * n) - 2) s) = (if j \<le> k \<and> k < j + 2 * n then cell_byte v (k - j) else kb k s)"
  using assms
proof (induction n arbitrary: s)
  case (Suc n)
  have a: "of_nat (j + 2 * Suc n) - 2 = (of_nat (j + 2 * n) :: u32)" by simp
  have "kb k (stosw (-2) (Suc n) v (of_nat (j + 2 * Suc n) - 2) s) =
      kb k (stosw (-2) n v (of_nat (j + 2 * n) - 2) (put_short (of_nat (j + 2 * n)) v s))"
    unfolding a by simp
  also have "\<dots> = (if j \<le> k \<and> k < j + 2 * n then cell_byte v (k - j) else kb k (put_short (of_nat (j + 2 * n)) v s))"
    using Suc.prems by (intro Suc.IH) simp_all
  also have "kb k (put_short (of_nat (j + 2 * n)) v s) =
      (if k = j + 2 * n then ucast v else if k = j + 2 * n + 1 then ucast (drop_bit 8 v) else kb k s)"
    using Suc.prems by (intro kb_put_short) simp_all
  finally show ?case by (auto simp: cell_byte_def)
qed auto

section \<open>Copies\<close>

lemma kb_put_kbytes:
  assumes "j + length vs < 4294967296" and "k < 4294967296" and "length vs < 4294967295"
  shows "kb k (put_kbytes (of_nat j) vs s) = (if j \<le> k \<and> k < j + length vs then vs ! (k - j) else kb k s)"
proof -
  have "unat (of_nat k - (of_nat j :: u32)) = (if j \<le> k then k - j else k + 4294967296 - j)"
    using assms by (simp add: sub_word_nat unat_of_nat_u32)
  then show ?thesis unfolding kb_def get_put_kbytes [OF assms(3)] using assms by auto
qed

lemma kb_get_kbytes: "i < n \<Longrightarrow> get_kbytes (of_nat j) n s ! i = kb (j + i) s"
  by (simp add: get_kbytes_def kb_def)

lemma kb_move4:
  assumes "j + 4 < 4294967296" and "k < 4294967296"
  shows "kb k (put_kbytes (of_nat j) (get_kbytes (of_nat i) 4 s) s) = (if j \<le> k \<and> k < j + 4 then kb (i + (k - j)) s else kb k s)"
proof -
  have "length (get_kbytes (of_nat i) 4 s) = 4" by (simp add: get_kbytes_def)
  then show ?thesis using kb_put_kbytes [of j "get_kbytes (of_nat i) 4 s" k s] assms by (auto simp: kb_get_kbytes)
qed

lemma kb_movsl:
  assumes "j \<le> i" and "i + 4 * n < 4294967296" and "k < 4294967296"
  shows "kb k (movsl 4 n (of_nat i) (of_nat j) s) = (if j \<le> k \<and> k < j + 4 * n then kb (i + (k - j)) s else kb k s)"
  using assms
proof (induction n arbitrary: i j s)
  case (Suc n)
  define t where "t = put_kbytes (of_nat j) (get_kbytes (of_nat i) 4 s) s"
  have t: "kb m t = (if j \<le> m \<and> m < j + 4 then kb (i + (m - j)) s else kb m s)" if "m < 4294967296" for m
    unfolding t_def using Suc.prems that by (intro kb_move4) simp_all
  have "(of_nat j :: u32) + 4 = of_nat (j + 4)" "(of_nat i :: u32) + 4 = of_nat (i + 4)" by simp_all
  then have "kb k (movsl 4 (Suc n) (of_nat i) (of_nat j) s) = kb k (movsl 4 n (of_nat (i + 4)) (of_nat (j + 4)) t)"
    by (simp only: movsl.simps t_def)
  also have "\<dots> = (if j + 4 \<le> k \<and> k < j + 4 + 4 * n then kb (i + 4 + (k - (j + 4))) t else kb k t)"
    using Suc.prems by (intro Suc.IH) simp_all
  also have "\<dots> = (if j \<le> k \<and> k < j + 4 * Suc n then kb (i + (k - j)) s else kb k s)"
  proof (cases "j + 4 \<le> k \<and> k < j + 4 + 4 * n")
    case True
    then have "i + 4 + (k - (j + 4)) = i + (k - j)" "j + 4 \<le> i + (k - j)" "i + (k - j) < 4294967296" using Suc.prems by arith+
    then show ?thesis using True t [of "i + (k - j)"] by simp
  next
    case False
    then show ?thesis using t [OF Suc.prems(3)] by auto
  qed
  finally show ?case .
qed auto

lemma kb_movsl_down:
  assumes "i \<le> j" and "j + 4 * n < 4294967296" and "k < 4294967296"
  shows "kb k (movsl (-4) n (of_nat (i + 4 * n) - 4) (of_nat (j + 4 * n) - 4) s) =
    (if j \<le> k \<and> k < j + 4 * n then kb (i + (k - j)) s else kb k s)"
  using assms
proof (induction n arbitrary: s)
  case (Suc n)
  define t where "t = put_kbytes (of_nat (j + 4 * n)) (get_kbytes (of_nat (i + 4 * n)) 4 s) s"
  have t: "kb m t = (if j + 4 * n \<le> m \<and> m < j + 4 * n + 4 then kb (i + 4 * n + (m - (j + 4 * n))) s else kb m s)"
    if "m < 4294967296" for m
    unfolding t_def using Suc.prems that by (intro kb_move4) simp_all
  have a: "of_nat (j + 4 * Suc n) - 4 = (of_nat (j + 4 * n) :: u32)" "of_nat (i + 4 * Suc n) - 4 = (of_nat (i + 4 * n) :: u32)"
    by simp_all
  have "kb k (movsl (-4) (Suc n) (of_nat (i + 4 * Suc n) - 4) (of_nat (j + 4 * Suc n) - 4) s) =
      kb k (movsl (-4) n (of_nat (i + 4 * n) - 4) (of_nat (j + 4 * n) - 4) t)"
    unfolding a t_def by simp
  also have "\<dots> = (if j \<le> k \<and> k < j + 4 * n then kb (i + (k - j)) t else kb k t)"
    using Suc.prems by (intro Suc.IH) simp_all
  also have "\<dots> = (if j \<le> k \<and> k < j + 4 * Suc n then kb (i + (k - j)) s else kb k s)"
  proof (cases "j \<le> k \<and> k < j + 4 * n")
    case True
    then show ?thesis using t [of "i + (k - j)"] Suc.prems by auto
  next
    case False
    have "j + 4 * n \<le> k \<Longrightarrow> i + 4 * n + (k - (j + 4 * n)) = i + (k - j)" by arith
    then show ?thesis using False t [OF Suc.prems(3)] by auto
  qed
  finally show ?case .
qed auto

section \<open>Shifting a line\<close>

lemma kb_shift_right_frame:
  assumes "j + 2 * n < 4294967296" and "k < 4294967296" and "k < j \<or> j + 2 * n \<le> k"
  shows "kb k (shift_right n v (of_nat j) s) = kb k s"
  using assms
proof (induction n arbitrary: j v s)
  case (Suc n)
  have "(of_nat j :: u32) + 2 = of_nat (j + 2)" by simp
  then have "kb k (shift_right (Suc n) v (of_nat j) s) = kb k (put_short (of_nat j) v s)"
    unfolding shift_right.simps using Suc.prems by (simp only:) (rule Suc.IH; auto)
  then show ?case using Suc.prems kb_put_short [of j k] by auto
qed simp

lemma kb_shift_left_frame:
  assumes "j + 2 * n + 2 < 4294967296" and "k < 4294967296" and "k < j \<or> j + 2 * n + 2 \<le> k"
  shows "kb k (shift_left n v (of_nat j) s) = kb k s"
  using assms
proof (induction n arbitrary: j s)
  case 0
  then show ?case using kb_put_short [of j k] by auto
next
  case (Suc n)
  have "(of_nat j :: u32) + 2 = of_nat (j + 2)" by simp
  then have "kb k (shift_left (Suc n) v (of_nat j) s) = kb k (put_short (of_nat j) (get_short (of_nat j + 2) s) s)"
    unfolding shift_left.simps using Suc.prems by (simp only:) (rule Suc.IH; auto)
  then show ?case using Suc.prems kb_put_short [of j k] by auto
qed

end
