(* ===== verification/Console_Properties.thy ===== *)
theory Console_Properties
  imports Console_Memory
begin

text \<open>
  The console: the invariant of its variables, which every character of a terminal's output preserves, together with
  the bounds of what it writes; and the picture that the two ways of scrolling leave.
\<close>

section \<open>The invariant\<close>

abbreviation (input) cols where "cols c \<equiv> unat (video_num_columns c)"
abbreviation (input) nlines where "nlines c \<equiv> unat (video_num_lines c)"
abbreviation (input) rowsize where "rowsize c \<equiv> unat (video_size_row c)"
abbreviation (input) org where "org c \<equiv> unat (origin c)"

text \<open>A display of at most 1000 columns and 100 lines, an even number of columns, in a memory below 16 MB that holds it.\<close>

definition display_ok :: "console \<Rightarrow> bool" where
  "display_ok c \<longleftrightarrow> 8 \<le> cols c \<and> cols c \<le> 1000 \<and> even (cols c) \<and> rowsize c = 2 * cols c \<and>
     1 \<le> nlines c \<and> nlines c \<le> 100 \<and> unat (video_mem_end c) < 16777216"

definition window_ok :: "console \<Rightarrow> bool" where
  "window_ok c \<longleftrightarrow> unat (video_mem_start c) \<le> org c \<and> org c + rowsize c * nlines c = unat (scr_end c) \<and>
     unat (scr_end c) \<le> unat (video_mem_end c) \<and> unat (scr_top c) < unat (scr_bottom c) \<and> unat (scr_bottom c) \<le> nlines c"

definition cursor_ok :: "nat \<Rightarrow> console \<Rightarrow> bool" where
  "cursor_ok m c \<longleftrightarrow> unat (con_x c) \<le> m \<and> unat (con_y c) < nlines c \<and>
     pos c = origin c + con_y c * video_size_row c + push_bit 1 (con_x c) \<and> unat (npar c) < 16"

definition con_okx :: "nat \<Rightarrow> console \<Rightarrow> bool" where
  "con_okx m c \<longleftrightarrow> display_ok c \<and> window_ok c \<and> cursor_ok m c"

definition con_ok :: "console \<Rightarrow> bool" where
  "con_ok c \<longleftrightarrow> con_okx (cols c) c"

text \<open>What stays: the geometry of the display, and the memory outside of it.\<close>

definition geometry :: "console \<Rightarrow> console \<Rightarrow> bool" where
  "geometry c d \<longleftrightarrow> video_type d = video_type c \<and> video_num_columns d = video_num_columns c \<and>
     video_size_row d = video_size_row c \<and> video_num_lines d = video_num_lines c \<and>
     video_mem_start d = video_mem_start c \<and> video_mem_end d = video_mem_end c \<and>
     video_erase_char d = video_erase_char c"

definition inside :: "console \<Rightarrow> nat \<Rightarrow> bool" where
  "inside c k \<longleftrightarrow> unat (video_mem_start c) \<le> k \<and> k < unat (video_mem_end c)"

definition video_step :: "nat \<Rightarrow> 'a tty_state_scheme \<Rightarrow> 'a tty_state_scheme \<Rightarrow> bool" where
  "video_step m s t \<longleftrightarrow> con_okx m (con t) \<and> geometry (con s) (con t) \<and>
     (\<forall>k < 4294967296. \<not> inside (con s) k \<longrightarrow> kb k t = kb k s)"

lemma geometry_trans: "geometry c d \<Longrightarrow> geometry d e \<Longrightarrow> geometry c e"
  by (simp add: geometry_def)

lemma inside_geometry: "geometry c d \<Longrightarrow> inside d = inside c"
  by (simp add: geometry_def inside_def fun_eq_iff)

lemma video_step_refl: "con_okx m (con s) \<Longrightarrow> video_step m s s"
  by (simp add: video_step_def geometry_def)

lemma video_step_trans: "video_step m s t \<Longrightarrow> video_step n t u \<Longrightarrow> video_step n s u"
  by (auto simp: video_step_def inside_geometry intro: geometry_trans)

section \<open>Memory and the fields of the state\<close>

lemma put_short_simps [simp]: "con (put_short a v s) = con s" "con_tty (put_short a v s) = con_tty s"
  by (simp_all add: put_short_def put_kbyte_def Let_def)

lemma put_kbytes_con [simp]: "con (put_kbytes a vs s) = con s" "con_tty (put_kbytes a vs s) = con_tty s"
  by (induction vs arbitrary: a s) (simp_all add: put_kbyte_def Let_def)

lemma stosw_con [simp]: "con (stosw d n v a s) = con s" "con_tty (stosw d n v a s) = con_tty s"
  by (induction n arbitrary: a s) simp_all

lemma movsl_con [simp]: "con (movsl d n i j s) = con s" "con_tty (movsl d n i j s) = con_tty s"
  by (induction n arbitrary: i j s) simp_all

lemma shift_con [simp]: "con (shift_right n v p s) = con s" "con (shift_left n w p s) = con s"
  "con_tty (shift_right n v p s) = con_tty s" "con_tty (shift_left n w p s) = con_tty s"
  by (induction n arbitrary: v p s) simp_all

lemma upd_con_simps [simp]: "con (upd_con f s) = f (con s)" "con_tty (upd_con f s) = con_tty s" "kb k (upd_con f s) = kb k s"
  by (simp_all add: upd_con_def kb_def get_kbyte_def)

lemma upd_tty_simps [simp]: "con_tty (upd_tty f s) = f (con_tty s)" "con (upd_tty f s) = con s" "kb k (upd_tty f s) = kb k s"
  by (simp_all add: upd_tty_def kb_def get_kbyte_def)

lemma out_video_simps [simp]: "con (out_video r d s) = con s" "con_tty (out_video r d s) = con_tty s"
    "kb k (out_video r d s) = kb k s"
  by (simp_all add: out_video_def outb_def Let_def kb_def get_kbyte_def)

lemma sysbeep_simps [simp]: "con (sysbeep s) = con s" "con_tty (sysbeep s) = con_tty s" "kb k (sysbeep s) = kb k s"
  by (simp_all add: sysbeep_def outb_def kb_def get_kbyte_def)

section \<open>Addresses as numbers\<close>

lemma word_nat: "(w::u32) = of_nat (unat w)"
  by simp

lemma unat_half: "n < 4294967296 \<Longrightarrow> unat (drop_bit 1 (of_nat n :: u32)) = n div 2"
  by (simp add: unsigned_drop_bit_eq drop_bit_nat_def unat_of_nat_u32 take_bit_nat_def)

text \<open>The lines of a region, and the longs that its lines but one take.\<close>

lemma region_longs:
  assumes "display_ok c" and "t + 1 \<le> b" and "b \<le> nlines c"
  shows "4 * unat (drop_bit 1 ((of_nat b - of_nat t - 1) * video_num_columns c)) = rowsize c * (b - t - 1)"
proof -
  have "(of_nat b - of_nat t - 1 :: u32) = of_nat (b - t - 1)" using assms(2) by (simp add: of_nat_diff)
  then have w: "(of_nat b - of_nat t - 1) * video_num_columns c = of_nat ((b - t - 1) * cols c)" by simp
  have d: "cols c \<le> 1000" "even (cols c)" "rowsize c = 2 * cols c" "nlines c \<le> 100" using assms(1) by (simp_all add: display_ok_def)
  have "(b - t - 1) * cols c \<le> 100 * 1000" using d assms(3) by (intro mult_le_mono) simp_all
  then have "4 * unat (drop_bit 1 ((of_nat b - of_nat t - 1) * video_num_columns c)) = 4 * ((b - t - 1) * cols c div 2)"
    unfolding w by (subst unat_half) simp_all
  also have "\<dots> = rowsize c * (b - t - 1)" using d(2,3) by (auto elim!: evenE)
  finally show ?thesis .
qed

lemma row_bounds:
  fixes R :: nat
  assumes "i < R"
  shows "R * a \<le> R * r + i \<longleftrightarrow> a \<le> r" and "R * r + i < R * a \<longleftrightarrow> r < a"
proof -
  have "a \<le> r \<Longrightarrow> R * a \<le> R * r" by (rule mult_le_mono2)
  moreover have "R * r + R \<le> R * a" if "r < a" using mult_le_mono2 [of "r + 1" a R] that by simp
  ultimately show "R * a \<le> R * r + i \<longleftrightarrow> a \<le> r" "R * r + i < R * a \<longleftrightarrow> r < a"
    using assms by (meson add_lessD1 leD leI order.strict_trans1 order_less_le_trans nat_add_left_cancel_less trans_le_add1)+
qed

lemma window_inside:
  assumes "window_ok c" and "k < rowsize c * nlines c"
  shows "inside c (org c + k)"
  using assms by (simp add: window_ok_def inside_def)

lemma line_end:
  assumes "r < nlines c"
  shows "rowsize c * r + rowsize c \<le> rowsize c * nlines c"
  using mult_le_mono2 [of "r + 1" "nlines c" "rowsize c"] assms by simp

section \<open>Scrolling\<close>

text \<open>The lines of the region move up.\<close>

lemma kb_move_up:
  assumes d: "display_ok (con s)" and w: "window_ok (con s)" and k: "k < 4294967296"
  defines "c \<equiv> con s"
  defines "T \<equiv> unat (scr_top c)" and "B \<equiv> unat (scr_bottom c)" and "R \<equiv> rowsize c" and "o' \<equiv> org c"
  shows "kb k (move_up s) =
    (if o' + R * (B - 1) \<le> k \<and> k < o' + R * B then cell_byte (video_erase_char c) (k - (o' + R * (B - 1)))
     else if o' + R * T \<le> k \<and> k < o' + R * (B - 1) then kb (k + R) s else kb k s)"
proof -
  have tb: "T < B" "B \<le> nlines c" "o' + R * nlines c \<le> unat (video_mem_end c)"
    using w by (simp_all add: window_ok_def T_def B_def c_def R_def o'_def)
  have me: "unat (video_mem_end c) < 16777216" and R: "R = 2 * cols c" using d by (simp_all add: display_ok_def c_def R_def)
  define n where "n = unat (drop_bit 1 ((scr_bottom c - scr_top c - 1) * video_num_columns c))"
  have n: "4 * n = R * (B - T - 1)"
    using region_longs [of c T B] d tb unfolding n_def T_def B_def R_def by (simp add: c_def)
  have RB: "R * B \<le> R * nlines c" using tb(2) by (rule mult_le_mono2)
  have parts: "R * T + 4 * n = R * (B - 1)" "R * (B - 1) + R = R * B"
  proof -
    have "R * T + R * (B - T - 1) = R * (T + (B - T - 1))" by (simp only: distrib_left)
    then show "R * T + 4 * n = R * (B - 1)" using n tb(1) by simp
    have "R * (B - 1) + R = R * (B - 1 + 1)" by simp
    then show "R * (B - 1) + R = R * B" using tb(1) by simp
  qed
  have a: "origin c + video_size_row c * scr_top c = of_nat (o' + R * T)"
    "origin c + video_size_row c * (scr_top c + 1) = of_nat (o' + R * T + R)"
    by (simp_all add: o'_def R_def T_def distrib_left)
  have e: "origin c + video_size_row c * scr_top c + 4 * of_nat n = of_nat (o' + R * (B - 1))"
  proof -
    have "of_nat (o' + R * T) + 4 * of_nat n = (of_nat (o' + R * T + 4 * n) :: u32)" by simp
    then show ?thesis unfolding a(1) using parts(1) by (simp only: add.assoc)
  qed
  let ?m = "movsl 4 n (of_nat (o' + R * T + R)) (of_nat (o' + R * T)) s"
  have lim: "o' + R * (B - 1) + 2 * cols c < 4294967296" using parts(2) RB tb(3) me R by linarith
  have run: "move_up s = stosw 2 (cols c) (video_erase_char c) (of_nat (o' + R * (B - 1))) ?m"
    unfolding move_up_def Let_def c_def [symmetric] n_def [symmetric] e unfolding a ..
  have "kb k (move_up s) = (if o' + R * (B - 1) \<le> k \<and> k < o' + R * (B - 1) + 2 * cols c
      then cell_byte (video_erase_char c) (k - (o' + R * (B - 1))) else kb k ?m)"
    unfolding run by (rule kb_stosw [OF lim k])
  moreover have "kb k ?m = (if o' + R * T \<le> k \<and> k < o' + R * T + 4 * n then kb (o' + R * T + R + (k - (o' + R * T))) s else kb k s)"
    using parts RB tb(3) me by (intro kb_movsl k) linarith+
  moreover have "o' + R * T \<le> k \<Longrightarrow> o' + R * T + R + (k - (o' + R * T)) = k + R" by simp
  ultimately show ?thesis using parts R by (auto simp: add.commute)
qed

text \<open>The window of a display adapter moves down in its memory, or back to the start of it.\<close>

definition slide :: "u32 \<Rightarrow> console \<Rightarrow> console" where
  "slide w c = c\<lparr>origin := origin c + w, pos := pos c + w, scr_end := scr_end c + w\<rparr>"

lemma cursor_slide [simp]: "cursor_ok m (slide w c) \<longleftrightarrow> cursor_ok m c"
  by (auto simp: cursor_ok_def slide_def algebra_simps)

lemma slide_simps [simp]: "display_ok (slide w c) \<longleftrightarrow> display_ok c" "geometry c (slide w c)"
  "scr_top (slide w c) = scr_top c" "scr_bottom (slide w c) = scr_bottom c" "con_y (slide w c) = con_y c"
  "con_x (slide w c) = con_x c" "video_size_row (slide w c) = video_size_row c" "video_num_lines (slide w c) = video_num_lines c"
  "origin (slide w c) = origin c + w" "slide 0 c = c"
  by (simp_all add: display_ok_def slide_def geometry_def)

lemma upd_slide [simp]:
  "upd_con (\<lambda>c. c\<lparr>origin := origin c + video_size_row c, pos := pos c + video_size_row c,
     scr_end := scr_end c + video_size_row c\<rparr>) s = upd_con (slide (video_size_row (con s))) s"
  by (simp add: upd_con_def slide_def)

lemma slide_more [simp]: "video_num_columns (slide w c) = video_num_columns c" "video_erase_char (slide w c) = video_erase_char c"
  "video_mem_start (slide w c) = video_mem_start c" "video_mem_end (slide w c) = video_mem_end c"
  "scr_end (slide w c) = scr_end c + w"
  by (simp_all add: slide_def)

lemma unat_add_small: "unat (a::u32) + n < 4294967296 \<Longrightarrow> unat (a + of_nat n) = unat a + n"
  by (simp add: unat_word_ariths unat_of_nat)

lemma fast_sums:
  assumes "display_ok c" and "window_ok c"
  shows "unat (origin c + video_size_row c) = org c + rowsize c"
    and "unat (scr_end c + video_size_row c) = unat (scr_end c) + rowsize c"
    and "rowsize c \<le> rowsize c * nlines c"
proof -
  have b: "rowsize c \<le> 2000" "unat (scr_end c) < 16777216" "1 \<le> nlines c"
    using assms by (simp_all add: display_ok_def window_ok_def)
  show "rowsize c \<le> rowsize c * nlines c" using b(3) by simp
  moreover have "org c \<le> unat (scr_end c)" using assms(2) by (simp add: window_ok_def)
  ultimately show "unat (origin c + video_size_row c) = org c + rowsize c"
    "unat (scr_end c + video_size_row c) = unat (scr_end c) + rowsize c"
    using b by (subst word_nat [of "video_size_row c"], subst unat_add_small; simp)+
qed

text \<open>The scroll of the whole screen by the adapter, when the next line is in the memory.\<close>

lemma scrup_slide:
  assumes d: "display_ok (con s)" and w: "window_ok (con s)" and ega: "EGA (con s)"
    and all: "scr_top (con s) = 0" "scr_bottom (con s) = video_num_lines (con s)"
    and room: "unat (scr_end (con s)) + rowsize (con s) \<le> unat (video_mem_end (con s))"
  shows "con (scrup s) = slide (video_size_row (con s)) (con s)"
    and "k < 4294967296 \<Longrightarrow> kb k (scrup s) = (if unat (scr_end (con s)) \<le> k \<and> k < unat (scr_end (con s)) + rowsize (con s)
      then cell_byte (video_erase_char (con s)) (k - unat (scr_end (con s))) else kb k s)"
proof -
  let ?c = "con s"
  have "\<not> video_mem_end ?c < scr_end ?c + video_size_row ?c"
    using room fast_sums(2) [OF d w] by (simp add: word_less_nat_alt)
  then have run: "scrup s = set_origin (stosw 2 (cols ?c) (video_erase_char ?c) (of_nat (unat (scr_end ?c)))
      (upd_con (slide (video_size_row ?c)) s))"
    using ega all by (simp add: scrup_def Let_def)
  then show "con (scrup s) = slide (video_size_row (con s)) (con s)" by (simp add: set_origin_def)
  have "rowsize ?c = 2 * cols ?c" "unat (video_mem_end ?c) < 16777216" using d by (simp_all add: display_ok_def)
  then show "kb k (scrup s) = (if unat (scr_end ?c) \<le> k \<and> k < unat (scr_end ?c) + rowsize ?c
      then cell_byte (video_erase_char ?c) (k - unat (scr_end ?c)) else kb k s)" if "k < 4294967296"
    using room that kb_stosw [of "unat (scr_end ?c)" "cols ?c" k "video_erase_char ?c" "upd_con (slide (video_size_row ?c)) s"]
    unfolding run by (simp add: set_origin_def)
qed

text \<open>The same at the end of the memory: the lines are copied to its start.\<close>

lemma scrup_back:
  assumes d: "display_ok (con s)" and w: "window_ok (con s)" and ega: "EGA (con s)"
    and all: "scr_top (con s) = 0" "scr_bottom (con s) = video_num_lines (con s)"
    and full: "unat (video_mem_end (con s)) < unat (scr_end (con s)) + rowsize (con s)"
  defines "c \<equiv> con s"
  defines "m \<equiv> unat (video_mem_start c)" and "R \<equiv> rowsize c" and "L \<equiv> nlines c"
  shows "con (scrup s) = slide (video_mem_start c - origin c) c"
    and "k < 4294967296 \<Longrightarrow> kb k (scrup s) =
      (if m + R * (L - 1) \<le> k \<and> k < m + R * L then cell_byte (video_erase_char c) (k - (m + R * (L - 1)))
       else if m \<le> k \<and> k < m + R * (L - 1) then kb (org c + R + (k - m)) s else kb k s)"
proof -
  define n where "n = unat (drop_bit 1 ((video_num_lines c - 1) * video_num_columns c))"
  define u where "u = upd_con (slide (video_size_row c)) s"
  have "video_mem_end c < scr_end c + video_size_row c"
    using full fast_sums(2) [OF d w] by (simp add: word_less_nat_alt c_def)
  then have run: "scrup s = set_origin (upd_con (\<lambda>c. c\<lparr>scr_end := scr_end c - (origin c - video_mem_start c),
      pos := pos c - (origin c - video_mem_start c), origin := video_mem_start c\<rparr>)
      (stosw 2 (cols c) (video_erase_char c) (video_mem_start c + 4 * of_nat n)
        (movsl 4 n (origin c + video_size_row c) (video_mem_start c) u)))"
    using ega all by (simp add: scrup_def Let_def c_def u_def n_def)
  show "con (scrup s) = slide (video_mem_start c - origin c) c"
    unfolding run by (simp add: set_origin_def u_def c_def [symmetric]) (simp add: slide_def)
  have L: "1 \<le> L" "L \<le> 100" and R: "R = 2 * cols c" and me: "unat (video_mem_end c) < 16777216" "R \<le> 2000"
    using d by (simp_all add: display_ok_def c_def L_def R_def)
  have n: "4 * n = R * (L - 1)"
    using region_longs [of c 0 L] d L(1) unfolding n_def L_def R_def c_def by simp
  have RL: "R * (L - 1) + R = R * L"
  proof -
    have "R * (L - 1) + R = R * (L - 1 + 1)" by simp
    then show ?thesis using L(1) by simp
  qed
  have win: "m \<le> org c" "org c + R * L \<le> unat (video_mem_end c)"
    using w by (simp_all add: window_ok_def c_def m_def R_def L_def)
  have a: "origin c + video_size_row c = of_nat (org c + R)" "video_mem_start c = of_nat m"
    by (simp_all add: R_def m_def)
  have "of_nat m + 4 * of_nat n = (of_nat (m + 4 * n) :: u32)" by simp
  then have e: "of_nat m + 4 * of_nat n = (of_nat (m + R * (L - 1)) :: u32)" by (simp only: n)
  show "kb k (scrup s) = (if m + R * (L - 1) \<le> k \<and> k < m + R * L then cell_byte (video_erase_char c) (k - (m + R * (L - 1)))
       else if m \<le> k \<and> k < m + R * (L - 1) then kb (org c + R + (k - m)) s else kb k s)" if k: "k < 4294967296"
  proof -
    let ?m = "movsl 4 n (of_nat (org c + R)) (of_nat m) u"
    have "kb k (scrup s) = kb k (stosw 2 (cols c) (video_erase_char c) (of_nat (m + R * (L - 1))) ?m)"
      unfolding run a e set_origin_def by simp
    also have "\<dots> = (if m + R * (L - 1) \<le> k \<and> k < m + R * (L - 1) + 2 * cols c
        then cell_byte (video_erase_char c) (k - (m + R * (L - 1))) else kb k ?m)"
      using R RL win me k by (intro kb_stosw) simp_all
    also have "kb k ?m = (if m \<le> k \<and> k < m + 4 * n then kb (org c + R + (k - m)) u else kb k u)"
      using n RL win me k by (intro kb_movsl) simp_all
    finally show ?thesis using n R RL by (auto simp: u_def)
  qed
qed

text \<open>The lines of the region move down.\<close>

lemma kb_scrdown:
  assumes d: "display_ok (con s)" and w: "window_ok (con s)" and k: "k < 4294967296"
  defines "c \<equiv> con s"
  defines "T \<equiv> unat (scr_top c)" and "B \<equiv> unat (scr_bottom c)" and "R \<equiv> rowsize c" and "o' \<equiv> org c"
  shows "kb k (scrdown s) =
    (if o' + R * T \<le> k \<and> k < o' + R * T + R then cell_byte (video_erase_char c) (k - (o' + R * T))
     else if o' + R * T + R \<le> k \<and> k < o' + R * B then kb (k - R) s else kb k s)"
proof -
  have tb: "T < B" "B \<le> nlines c" "o' + R * nlines c \<le> unat (video_mem_end c)"
    using w by (simp_all add: window_ok_def T_def B_def c_def R_def o'_def)
  have me: "unat (video_mem_end c) < 16777216" and R: "R = 2 * cols c" using d by (simp_all add: display_ok_def c_def R_def)
  define n where "n = unat (drop_bit 1 ((scr_bottom c - scr_top c - 1) * video_num_columns c))"
  have n: "4 * n = R * (B - T - 1)"
    using region_longs [of c T B] d tb unfolding n_def T_def B_def R_def by (simp add: c_def)
  have RB: "R * B \<le> R * nlines c" using tb(2) by (rule mult_le_mono2)
  have parts: "R * T + R + 4 * n = R * B"
  proof -
    have "R * T + R + R * (B - T - 1) = R * (T + 1 + (B - T - 1))" by (simp only: distrib_left mult_1_right)
    then show ?thesis using n tb(1) by simp
  qed
  have lim: "o' + R * T + R + 4 * n < 4294967296" "o' + R * T + 2 * cols c < 4294967296"
    using parts RB tb(3) me R by linarith+
  have a: "origin c + video_size_row c * scr_bottom c = of_nat (o' + R * T + R + 4 * n)"
  proof -
    have "origin c + video_size_row c * scr_bottom c = of_nat (o' + R * B)" by (simp add: o'_def R_def B_def)
    then show ?thesis by (simp only: parts [symmetric] add.assoc)
  qed
  have "origin c + video_size_row c * (scr_bottom c - 1) = origin c + video_size_row c * scr_bottom c - of_nat R"
    by (simp add: R_def right_diff_distrib)
  also have "\<dots> = of_nat (o' + R * T + 4 * n)" unfolding a by simp
  finally have b: "origin c + video_size_row c * (scr_bottom c - 1) = of_nat (o' + R * T + 4 * n)" .
  have e: "of_nat (o' + R * T + R + 4 * n) - 4 - 4 * of_nat n + 2 = (of_nat (o' + R * T + 2 * cols c) - 2 :: u32)"
    unfolding R by simp
  let ?m = "movsl (-4) n (of_nat (o' + R * T + 4 * n) - 4) (of_nat (o' + R * T + R + 4 * n) - 4) s"
  define m where "m = ?m"
  have "scrdown s = stosw (-2) (cols c) (video_erase_char c) (of_nat (o' + R * T + 2 * cols c) - 2) m"
    unfolding scrdown_def Let_def c_def [symmetric] n_def [symmetric] a b e m_def ..
  then have "kb k (scrdown s) = (if o' + R * T \<le> k \<and> k < o' + R * T + 2 * cols c
      then cell_byte (video_erase_char c) (k - (o' + R * T)) else kb k m)"
    using kb_stosw_down [OF lim(2) k, of "video_erase_char c" m] by (simp only:)
  moreover have "kb k m = (if o' + R * T + R \<le> k \<and> k < o' + R * T + R + 4 * n
      then kb (o' + R * T + (k - (o' + R * T + R))) s else kb k s)"
    unfolding m_def by (rule kb_movsl_down [OF _ lim(1) k]) simp
  moreover have "o' + R * T + (k - (o' + R * T + R)) = k - R" if "o' + R * T + R \<le> k" using that by arith
  moreover have "o' + R * T + R + 4 * n = o' + R * B" using parts by simp
  ultimately show ?thesis using R by auto
qed

lemma scrdown_con [simp]: "con (scrdown s) = con s" "con_tty (scrdown s) = con_tty s"
  by (simp_all add: scrdown_def Let_def)

section \<open>The picture\<close>

text \<open>The byte of a line, and the character cells of the screen.\<close>

definition line_byte :: "'a tty_state_scheme \<Rightarrow> nat \<Rightarrow> nat \<Rightarrow> u8" where
  "line_byte s r i = kb (org (con s) + (rowsize (con s) * r + i)) s"

definition screen :: "'a tty_state_scheme \<Rightarrow> nat \<Rightarrow> nat \<Rightarrow> u16" where
  "screen s r k = get_short (of_nat (org (con s) + rowsize (con s) * r + 2 * k)) s"

lemma screen_bytes: "screen s r k = push_bit 8 (ucast (line_byte s r (2 * k + 1))) OR ucast (line_byte s r (2 * k))"
proof -
  have "(of_nat (org (con s) + rowsize (con s) * r + 2 * k) :: u32) + 1 = of_nat (org (con s) + (rowsize (con s) * r + (2 * k + 1)))"
    by simp
  then show ?thesis unfolding screen_def get_short_def line_byte_def kb_def by (simp only: add.assoc)
qed

lemma cell_bytes: "push_bit 8 (ucast (cell_byte v (2 * k + 1))) OR ucast (cell_byte v (2 * k)) = (v::u16)"
  unfolding cell_byte_def
  by (rule bit_word_eqI) (auto simp: bit_or_iff bit_push_bit_iff bit_ucast_iff bit_drop_bit_eq possible_bit_word
      dest: bit_imp_le_length)

lemma move_up_con [simp]: "con (move_up s) = con s" "con_tty (move_up s) = con_tty s"
  by (simp_all add: move_up_def Let_def)

text \<open>The three ways to scroll.\<close>

lemma scrup_cases:
  assumes d: "display_ok (con s)" and w: "window_ok (con s)"
  obtains (up) "scrup s = move_up s"
  | (slide) "EGA (con s)" "scr_top (con s) = 0" "scr_bottom (con s) = video_num_lines (con s)"
      "unat (scr_end (con s)) + rowsize (con s) \<le> unat (video_mem_end (con s))"
  | (wrap) "EGA (con s)" "scr_top (con s) = 0" "scr_bottom (con s) = video_num_lines (con s)"
      "unat (video_mem_end (con s)) < unat (scr_end (con s)) + rowsize (con s)"
proof -
  have "\<not> (EGA (con s) \<and> scr_top (con s) = 0 \<and> scr_bottom (con s) = video_num_lines (con s)) \<Longrightarrow> scrup s = move_up s"
    by (auto simp: scrup_def)
  then show thesis using up slide wrap by (meson not_le)
qed

lemma scrup_con:
  assumes d: "display_ok (con s)" and w: "window_ok (con s)"
  shows "\<exists>x. con (scrup s) = slide x (con s) \<and> window_ok (slide x (con s))"
using d w proof (cases rule: scrup_cases)
  case up
  then show ?thesis using w by (intro exI [of _ 0]) simp
next
  case slide
  note f = fast_sums [OF d w]
  have "window_ok (slide (video_size_row (con s)) (con s))"
    using w slide(4) f by (simp add: window_ok_def)
  then show ?thesis using scrup_slide(1) [OF d w slide] by blast
next
  case wrap
  let ?c = "con s" and ?x = "video_mem_start (con s) - origin (con s)"
  have e: "unat (scr_end ?c + ?x) = unat (video_mem_start ?c) + rowsize ?c * nlines ?c"
  proof -
    have "scr_end ?c = origin ?c + of_nat (rowsize ?c * nlines ?c)"
      using w by (metis of_nat_add window_ok_def word_nat)
    then have "scr_end ?c + ?x = video_mem_start ?c + of_nat (rowsize ?c * nlines ?c)" by simp
    moreover have "unat (video_mem_start ?c) + rowsize ?c * nlines ?c < 4294967296"
      using w d by (simp add: window_ok_def display_ok_def)
    ultimately show ?thesis by (simp only: unat_add_small)
  qed
  have "window_ok (slide ?x ?c)"
    using w e by (simp add: window_ok_def)
  then show ?thesis using scrup_back(1) [OF d w wrap] by blast
qed

lemma scrup_line:
  assumes d: "display_ok (con s)" and w: "window_ok (con s)" and r: "r < nlines (con s)" and i: "i < rowsize (con s)"
  defines "T \<equiv> unat (scr_top (con s))" and "B \<equiv> unat (scr_bottom (con s))"
  shows "line_byte (scrup s) r i = (if T \<le> r \<and> r + 1 < B then line_byte s (r + 1) i
    else if r + 1 = B then cell_byte (video_erase_char (con s)) i else line_byte s r i)"
proof -
  let ?c = "con s"
  define R where "R = rowsize ?c"
  have iR: "i < R" using i by (simp add: R_def)
  note rb = row_bounds [OF iR]
  have me: "unat (video_mem_end ?c) < 16777216" using d by (simp add: display_ok_def)
  have win: "T < B" "B \<le> nlines ?c" "org ?c + R * nlines ?c = unat (scr_end ?c)" "unat (scr_end ?c) \<le> unat (video_mem_end ?c)"
    "unat (video_mem_start ?c) \<le> org ?c"
    using w by (simp_all add: window_ok_def R_def T_def B_def)
  have k: "R * r + i < R * nlines ?c" using r by (simp add: rb)
  have last: "R * r + i - R * (B - 1) = i" "R * r + i < R * B" if "r + 1 = B" using that iR by auto
  show ?thesis
  using d w proof (cases rule: scrup_cases)
    case up
    have o: "org (con (scrup s)) = org ?c" "rowsize (con (scrup s)) = R" by (simp_all add: up R_def)
    have "org ?c + (R * r + i) < 4294967296" using k win me by linarith
    note kb = kb_move_up [OF d w this, folded R_def T_def B_def]
    have "r + 1 < B \<longleftrightarrow> r < B - 1" "r + 1 = B \<longleftrightarrow> B - 1 \<le> r \<and> r < B" using win(1) by linarith+
    moreover have "kb (org ?c + (R * r + i) + R) s = kb (org ?c + (R * (r + 1) + i)) s" by (simp add: algebra_simps)
    ultimately show ?thesis unfolding line_byte_def o unfolding up kb
      using last rb by (auto simp: R_def [symmetric])
  next
    case slide
    note t = scrup_slide [OF d w slide]
    have o: "org (con (scrup s)) = org ?c + R" "rowsize (con (scrup s)) = R"
      using fast_sums(1) [OF d w] by (simp_all add: t(1) R_def)
    have B: "B = nlines ?c" "T = 0" using slide by (simp_all add: B_def T_def)
    define q where "q = R * (r + 1) + i"
    have eq: "org ?c + R + (R * r + i) = org ?c + q" by (simp add: q_def)
    have q: "q < R * nlines ?c + R" "nlines ?c \<le> r + 1 \<longleftrightarrow> R * nlines ?c \<le> q" "r + 1 = nlines ?c \<Longrightarrow> q = R * nlines ?c + i"
      using k rb(1) [of "nlines ?c" "r + 1"] by (simp_all add: q_def)
    then have lt: "org ?c + q < 4294967296" using win slide(4) me unfolding R_def by linarith
    have "unat (scr_end ?c) \<le> org ?c + q \<longleftrightarrow> nlines ?c \<le> r + 1" using win(3) q(2) by linarith
    moreover have "org ?c + q - unat (scr_end ?c) = i" if "r + 1 = nlines ?c" using q(3) [OF that] win(3) by linarith
    moreover have "org ?c + q < unat (scr_end ?c) + R" using q(1) win(3) by linarith
    moreover have "r + 1 < nlines ?c \<or> r + 1 = nlines ?c" using r by linarith
    ultimately show ?thesis unfolding line_byte_def o eq t(2) [OF lt] B R_def [symmetric] q_def [symmetric] by auto
  next
    case wrap
    note t = scrup_back [OF d w wrap, folded R_def]
    let ?m = "unat (video_mem_start ?c)"
    have o: "org (con (scrup s)) = ?m" "rowsize (con (scrup s)) = R" by (simp_all add: t(1) R_def)
    have B: "B = nlines ?c" "T = 0" using wrap by (simp_all add: B_def T_def)
    have lt: "?m + (R * r + i) < 4294967296" using k win me by linarith
    have "r + 1 < nlines ?c \<longleftrightarrow> r < nlines ?c - 1" "r + 1 = nlines ?c \<longleftrightarrow> nlines ?c - 1 \<le> r \<and> r < nlines ?c"
      using win(1) r by linarith+
    moreover have "kb (org ?c + R + (?m + (R * r + i) - ?m)) s = kb (org ?c + (R * (r + 1) + i)) s" by (simp add: add.assoc)
    ultimately show ?thesis unfolding line_byte_def o t(2) [OF lt] B
      using last [unfolded B] rb k by (auto simp: R_def [symmetric])
  qed
qed

lemma scrdown_line:
  assumes d: "display_ok (con s)" and w: "window_ok (con s)" and r: "r < nlines (con s)" and i: "i < rowsize (con s)"
  defines "T \<equiv> unat (scr_top (con s))" and "B \<equiv> unat (scr_bottom (con s))"
  shows "line_byte (scrdown s) r i = (if r = T then cell_byte (video_erase_char (con s)) i
    else if T < r \<and> r < B then line_byte s (r - 1) i else line_byte s r i)"
proof -
  let ?c = "con s"
  define R where "R = rowsize ?c"
  have iR: "i < R" using i by (simp add: R_def)
  note rb = row_bounds [OF iR]
  have me: "unat (video_mem_end ?c) < 16777216" using d by (simp add: display_ok_def)
  have win: "T < B" "B \<le> nlines ?c" "org ?c + R * nlines ?c = unat (scr_end ?c)" "unat (scr_end ?c) \<le> unat (video_mem_end ?c)"
    using w by (simp_all add: window_ok_def R_def T_def B_def)
  have k: "R * r + i < R * nlines ?c" using r by (simp add: rb)
  then have "org ?c + (R * r + i) < 4294967296" using win me by linarith
  note kb = kb_scrdown [OF d w this, folded R_def T_def B_def]
  have row: "R * T + R = R * (T + 1)" by simp
  have up: "kb (org ?c + (R * r + i) - R) s = kb (org ?c + (R * (r - 1) + i)) s" if "T + 1 \<le> r"
  proof -
    have "R * r = R * (r - 1 + 1)" using that by simp
    then have "R * r = R * (r - 1) + R" by simp
    then show ?thesis by simp
  qed
  have "org ?c + R * T \<le> org ?c + (R * r + i) \<longleftrightarrow> T \<le> r"
    "org ?c + (R * r + i) < org ?c + R * T + R \<longleftrightarrow> r < T + 1"
    "org ?c + R * T + R \<le> org ?c + (R * r + i) \<longleftrightarrow> T + 1 \<le> r"
    "org ?c + (R * r + i) < org ?c + R * B \<longleftrightarrow> r < B"
    using rb row by (simp_all only: add.assoc nat_add_left_cancel_le nat_add_left_cancel_less)
  moreover have "org ?c + (R * r + i) - (org ?c + R * T) = i" if "r = T" using that by simp
  ultimately show ?thesis unfolding line_byte_def scrdown_con R_def [symmetric] kb using up by auto
qed

text \<open>The screen as a list of lines, and scrolling on it.\<close>

definition picture :: "'a tty_state_scheme \<Rightarrow> u16 list list" where
  "picture s = map (\<lambda>r. map (screen s r) [0..<cols (con s)]) [0..<nlines (con s)]"

definition scroll_up :: "nat \<Rightarrow> nat \<Rightarrow> 'c list \<Rightarrow> 'c list list \<Rightarrow> 'c list list" where
  "scroll_up t b blank p = take t p @ drop (t + 1) (take b p) @ [blank] @ drop b p"

definition scroll_down :: "nat \<Rightarrow> nat \<Rightarrow> 'c list \<Rightarrow> 'c list list \<Rightarrow> 'c list list" where
  "scroll_down t b blank p = take t p @ [blank] @ drop t (take (b - 1) p) @ drop b p"

definition blank_line :: "console \<Rightarrow> u16 list" where
  "blank_line c = replicate (cols c) (video_erase_char c)"

lemma scroll_up_nth:
  assumes "t < b" and "b \<le> length p" and "r < length p"
  shows "scroll_up t b blank p ! r = (if t \<le> r \<and> r + 1 < b then p ! (r + 1) else if r + 1 = b then blank else p ! r)"
  using assms by (auto simp: scroll_up_def nth_append nth_Cons' min_def)

lemma scroll_down_nth:
  assumes "t < b" and "b \<le> length p" and "r < length p"
  shows "scroll_down t b blank p ! r = (if r = t then blank else if t < r \<and> r < b then p ! (r - 1) else p ! r)"
  using assms by (auto simp: scroll_down_def nth_append nth_Cons' min_def)

lemma picture_eqI:
  assumes "geometry (con s) (con t)" and "length p = nlines (con s)"
    and "\<And>r. r < nlines (con s) \<Longrightarrow> p ! r = map (screen t r) [0..<cols (con s)]"
  shows "picture t = p"
  using assms by (intro nth_equalityI) (simp_all add: picture_def geometry_def)

lemma scrolling_pictures:
  assumes d: "display_ok (con s)" and w: "window_ok (con s)"
  shows "picture (scrup s) = scroll_up (unat (scr_top (con s))) (unat (scr_bottom (con s))) (blank_line (con s)) (picture s)"
    and "picture (scrdown s) = scroll_down (unat (scr_top (con s))) (unat (scr_bottom (con s))) (blank_line (con s)) (picture s)"
proof -
  let ?c = "con s" and ?T = "unat (scr_top (con s))" and ?B = "unat (scr_bottom (con s))"
  have tb: "?T < ?B" "?B \<le> nlines ?c" using w by (simp_all add: window_ok_def)
  have len: "length (picture s) = nlines ?c" by (simp add: picture_def)
  have cell: "2 * k + 1 < rowsize ?c" "2 * k < rowsize ?c" if "k < cols ?c" for k
    using that d by (simp_all add: display_ok_def)
  have row: "picture s ! r = map (screen s r) [0..<cols ?c]" if "r < nlines ?c" for r using that by (simp add: picture_def)
  obtain x where "con (scrup s) = slide x ?c" using scrup_con [OF d w] by blast
  then have g: "geometry ?c (con (scrup s))" by simp
  have up: "screen (scrup s) r k = (if ?T \<le> r \<and> r + 1 < ?B then screen s (r + 1) k
      else if r + 1 = ?B then video_erase_char ?c else screen s r k)" if "r < nlines ?c" "k < cols ?c" for r k
    unfolding screen_bytes scrup_line [OF d w that(1) cell(1) [OF that(2)]] scrup_line [OF d w that(1) cell(2) [OF that(2)]]
    by (simp add: cell_bytes [simplified])
  show "picture (scrup s) = scroll_up ?T ?B (blank_line ?c) (picture s)"
  proof (rule picture_eqI [OF g])
    show "length (scroll_up ?T ?B (blank_line ?c) (picture s)) = nlines ?c"
      using tb len by (simp add: scroll_up_def min_def)
    show "scroll_up ?T ?B (blank_line ?c) (picture s) ! r = map (screen (scrup s) r) [0..<cols ?c]" if "r < nlines ?c" for r
      using that tb len row up [OF that] by (subst scroll_up_nth) (auto simp: blank_line_def map_replicate_trivial intro!: nth_equalityI)
  qed
  have down: "screen (scrdown s) r k = (if r = ?T then video_erase_char ?c
      else if ?T < r \<and> r < ?B then screen s (r - 1) k else screen s r k)" if "r < nlines ?c" "k < cols ?c" for r k
    unfolding screen_bytes scrdown_line [OF d w that(1) cell(1) [OF that(2)]] scrdown_line [OF d w that(1) cell(2) [OF that(2)]]
    by (simp add: cell_bytes [simplified])
  show "picture (scrdown s) = scroll_down ?T ?B (blank_line ?c) (picture s)"
  proof (rule picture_eqI [of s])
    show "geometry ?c (con (scrdown s))" by (simp add: geometry_def)
    show "length (scroll_down ?T ?B (blank_line ?c) (picture s)) = nlines ?c"
      using tb len by (auto simp: scroll_down_def min_def)
    show "scroll_down ?T ?B (blank_line ?c) (picture s) ! r = map (screen (scrdown s) r) [0..<cols ?c]" if "r < nlines ?c" for r
      using that tb len row down [OF that] by (subst scroll_down_nth) (auto simp: blank_line_def map_replicate_trivial intro!: nth_equalityI)
  qed
qed

text \<open>C31: scrolling, whatever the display adapter: an adapter that can move its window over the video memory (and
  copies it back to the start when it comes to the end), one that can not, and a scrolling region all show the same picture,
  the lines of the region moved by one and a blank line in the place that became free.\<close>

theorem scrolling_picture:
  assumes "display_ok (con s)" and "window_ok (con s)"
  shows "picture (scrup s) =
      scroll_up (unat (scr_top (con s))) (unat (scr_bottom (con s))) (blank_line (con s)) (picture s) \<and>
    picture (scrdown s) =
      scroll_down (unat (scr_top (con s))) (unat (scr_bottom (con s))) (blank_line (con s)) (picture s)"
  using scrolling_pictures [OF assms] by blast

end
