(* ===== verification/Tty_Queue.thy ===== *)
theory Tty_Queue
  imports Console
begin

text \<open>
  The circular queues of a terminal as lists: what the macros of \<^verbatim>\<open>include/linux/tty.h\<close> do to the characters
  in a queue. The contract of a bounded queue is a locale, which the macros interpret.
\<close>

section \<open>Indices modulo 1024\<close>

definition q_ok :: "tty_queue \<Rightarrow> bool" where
  "q_ok q \<longleftrightarrow> unat (q_head q) < 1024 \<and> unat (q_tail q) < 1024"

definition q_len :: "tty_queue \<Rightarrow> nat" where
  "q_len q = (unat (q_head q) + 1024 - unat (q_tail q)) mod 1024"

definition q_list :: "tty_queue \<Rightarrow> u8 list" where
  "q_list q = map (\<lambda>i. q_buf q ((unat (q_tail q) + i) mod 1024)) [0..<q_len q]"

lemma length_q_list [simp]: "length (q_list q) = q_len q"
  by (simp add: q_list_def)

lemma q_len_less: "q_len q < 1024"
  by (simp add: q_len_def)

lemma and_3ff: "unat ((x::u32) AND 1023) = unat x mod 1024"
  using unat_and_mask [of 10 x] by (simp add: mask_eq_exp_minus_1)

lemma mod1024_diff:
  fixes a b :: u32
  shows "unat ((a - b) AND 1023) = (unat a + (1024 - unat b mod 1024)) mod 1024"
proof -
  have "int (unat (a - b) mod 1024) = (int (unat a) - int (unat b)) mod 4294967296 mod 1024"
    by (simp add: zmod_int uint_word_ariths)
  also have "\<dots> = (int (unat a) - int (unat b)) mod 1024" by (rule mod_mod_cancel) simp
  also have "\<dots> = (int (unat a) + (1024 - int (unat b) mod 1024)) mod 1024"
    by (metis (no_types) add_diff_eq diff_add_eq mod_add_self2 mod_diff_right_eq)
  also have "\<dots> = int ((unat a + (1024 - unat b mod 1024)) mod 1024)"
    by (simp add: zmod_int of_nat_diff algebra_simps del: of_nat_unat)
  finally show ?thesis unfolding and_3ff by (simp only: of_nat_eq_iff)
qed

lemma CHARS_len: "q_ok q \<Longrightarrow> unat (CHARS q) = q_len q"
  unfolding CHARS_def mod1024_diff by (simp add: q_ok_def q_len_def)

lemma EMPTY_len: "q_ok q \<Longrightarrow> EMPTY q \<longleftrightarrow> q_len q = 0"
proof -
  assume q: "q_ok q"
  have "(h + 1024 - t) mod 1024 = 0 \<longleftrightarrow> h = t" if "h < 1024" "t < 1024" for h t :: nat
  proof (cases "t \<le> h")
    case True
    then have "(h + 1024 - t) mod 1024 = h - t" using that by (simp add: le_mod_geq)
    then show ?thesis using True by auto
  qed (use that in simp)
  then show ?thesis using q by (simp add: EMPTY_def q_len_def q_ok_def word_unat_eq_iff)
qed

text \<open>The length after a character is added at the head, taken back, or removed at the tail.\<close>

lemma len_arith:
  fixes h t :: nat
  assumes "h < 1024" and "t < 1024"
  shows "(h + 1024 - t) mod 1024 < 1023 \<Longrightarrow> ((h + 1) mod 1024 + 1024 - t) mod 1024 = (h + 1024 - t) mod 1024 + 1"
    and "(h + 1024 - t) mod 1024 \<noteq> 0 \<Longrightarrow> ((h + 1023) mod 1024 + 1024 - t) mod 1024 = (h + 1024 - t) mod 1024 - 1"
    and "(h + 1024 - t) mod 1024 \<noteq> 0 \<Longrightarrow> (h + 1024 - (t + 1) mod 1024) mod 1024 = (h + 1024 - t) mod 1024 - 1"
    and "(t + (h + 1024 - t) mod 1024) mod 1024 = h"
proof -
  have m: "n mod 1024 = n - 1024" if "1024 \<le> n" "n < 2048" for n :: nat using that by (simp add: le_mod_geq)
  consider (a) "t \<le> h" | (b) "h < t" by linarith
  then have all: "((h + 1024 - t) mod 1024 < 1023 \<longrightarrow> ((h + 1) mod 1024 + 1024 - t) mod 1024 = (h + 1024 - t) mod 1024 + 1) \<and>
      ((h + 1024 - t) mod 1024 \<noteq> 0 \<longrightarrow> ((h + 1023) mod 1024 + 1024 - t) mod 1024 = (h + 1024 - t) mod 1024 - 1) \<and>
      ((h + 1024 - t) mod 1024 \<noteq> 0 \<longrightarrow> (h + 1024 - (t + 1) mod 1024) mod 1024 = (h + 1024 - t) mod 1024 - 1) \<and>
      (t + (h + 1024 - t) mod 1024) mod 1024 = h"
  proof cases
    case a
    then have l: "(h + 1024 - t) mod 1024 = h - t" using m [of "h + 1024 - t"] assms by simp
    consider "h = 1023" | "h < 1023" using assms by linarith
    then show ?thesis using a assms m [of "h + 1023"] m [of "h + 1 + 1024 - t"] m [of "h - 1 + 1024 - t"] m [of "h + 1024 - (t + 1)"]
      unfolding l by cases (cases "h = 0"; auto simp: Suc_diff_le)+
  next
    case b
    then have l: "(h + 1024 - t) mod 1024 = h + 1024 - t" using assms by simp
    show ?thesis using b assms m [of "h + 1023"] m [of "t + (h + 1024 - t)"] m [of "2047 - t"] unfolding l
      by (cases "h = 0"; cases "t = 1023") auto
  qed
  show "(h + 1024 - t) mod 1024 < 1023 \<Longrightarrow> ((h + 1) mod 1024 + 1024 - t) mod 1024 = (h + 1024 - t) mod 1024 + 1"
    "(h + 1024 - t) mod 1024 \<noteq> 0 \<Longrightarrow> ((h + 1023) mod 1024 + 1024 - t) mod 1024 = (h + 1024 - t) mod 1024 - 1"
    "(h + 1024 - t) mod 1024 \<noteq> 0 \<Longrightarrow> (h + 1024 - (t + 1) mod 1024) mod 1024 = (h + 1024 - t) mod 1024 - 1"
    "(t + (h + 1024 - t) mod 1024) mod 1024 = h" using all by blast+
qed

lemma q_len_parts:
  assumes "q_ok q"
  shows "unat (q_head q) < 1024" "unat (q_tail q) < 1024"
  using assms by (simp_all add: q_ok_def)

lemma head_index: "q_ok q \<Longrightarrow> (unat (q_tail q) + q_len q) mod 1024 = unat (q_head q)"
  unfolding q_len_def by (rule len_arith(4)) (simp_all add: q_ok_def)

lemma index_inj:
  fixes t i j :: nat
  assumes "i < 1024" and "j < 1024" and "(t + i) mod 1024 = (t + j) mod 1024"
  shows "i = j"
proof -
  have *: "a = b" if "(t + a) mod 1024 = (t + b) mod 1024" "a < 1024" "b \<le> a" for a b :: nat
  proof -
    have "1024 dvd (t + a) - (t + b)" using that mod_eq_dvd_iff_nat [of "t + b" "t + a" 1024] by simp
    then have "1024 dvd a - b" by simp
    then show ?thesis using that(2,3) by (auto dest: dvd_imp_le)
  qed
  show ?thesis using *[of i j] *[of j i] assms by (cases "j \<le> i") auto
qed

section \<open>The macros\<close>

lemma inc_1023: "unat (((x::u32) + 1) AND 1023) = (unat x + 1) mod 1024"
proof -
  have "unat ((x - (-1)) AND 1023) = (unat x + (1024 - unat (-1 :: u32) mod 1024)) mod 1024" by (rule mod1024_diff)
  then show ?thesis by (simp add: unsigned_minus_1_eq_mask mask_eq_exp_minus_1)
qed

lemma dec_1023: "unat (((x::u32) - 1) AND 1023) = (unat x + 1023) mod 1024"
  using mod1024_diff [of x 1] by simp

lemma PUTCH_list:
  assumes q: "q_ok q" and room: "q_len q < 1023"
  shows "q_list (PUTCH c q) = q_list q @ [c]" and "q_ok (PUTCH c q)"
proof -
  show ok: "q_ok (PUTCH c q)" using q by (simp add: q_ok_def PUTCH_def inc_1023)
  have l: "q_len (PUTCH c q) = q_len q + 1"
    using len_arith(1) [OF q_len_parts [OF q]] room by (simp add: q_len_def PUTCH_def inc_1023)
  have "(unat (q_tail q) + i) mod 1024 \<noteq> unat (q_head q)" if "i < q_len q" for i
    using index_inj [of i "q_len q" "unat (q_tail q)"] head_index [OF q] that q_len_less [of q] by auto
  then show "q_list (PUTCH c q) = q_list q @ [c]"
    unfolding q_list_def l using head_index [OF q] by (simp add: PUTCH_def)
qed

lemma GETCH_list:
  assumes q: "q_ok q" and some: "q_len q \<noteq> 0"
  shows "q_list q = fst (GETCH q) # q_list (snd (GETCH q))" and "q_ok (snd (GETCH q))"
proof -
  show ok: "q_ok (snd (GETCH q))" using q by (simp add: q_ok_def GETCH_def inc_1023)
  have l: "q_len (snd (GETCH q)) = q_len q - 1"
    using len_arith(3) [OF q_len_parts [OF q]] some by (simp add: q_len_def GETCH_def inc_1023)
  have "((unat (q_tail q) + 1) mod 1024 + i) mod 1024 = (unat (q_tail q) + Suc i) mod 1024" for i
    by (simp add: mod_add_left_eq)
  then have "q_list (snd (GETCH q)) = map (\<lambda>i. q_buf q ((unat (q_tail q) + Suc i) mod 1024)) [0..<q_len q - 1]"
    unfolding q_list_def l by (simp add: GETCH_def inc_1023)
  moreover have "[0..<q_len q] = 0 # map Suc [0..<q_len q - 1]" using some by (simp add: map_Suc_upt upt_conv_Cons)
  ultimately show "q_list q = fst (GETCH q) # q_list (snd (GETCH q))"
    using q by (simp add: q_list_def GETCH_def q_ok_def)
qed

lemma DEC_head_list:
  assumes q: "q_ok q" and some: "q_len q \<noteq> 0"
  shows "q_list q = q_list (DEC_head q) @ [LAST q]" and "q_ok (DEC_head q)"
proof -
  show ok: "q_ok (DEC_head q)" using q by (simp add: q_ok_def DEC_head_def dec_1023)
  have l: "q_len q = Suc (q_len (DEC_head q))"
    using len_arith(2) [OF q_len_parts [OF q]] some by (simp add: q_len_def DEC_head_def dec_1023)
  have "unat (1023 AND (q_head q - 1)) = (unat (q_head q) + 1023) mod 1024"
    using dec_1023 [of "q_head q"] by (simp add: and.commute)
  also have "\<dots> = (unat (q_tail q) + q_len (DEC_head q)) mod 1024"
    using head_index [OF ok] by (simp add: DEC_head_def dec_1023)
  finally show "q_list q = q_list (DEC_head q) @ [LAST q]"
    unfolding q_list_def l by (simp add: LAST_def) (simp add: DEC_head_def)
qed

lemma LEFT_len: "q_ok q \<Longrightarrow> unat (LEFT q) = 1023 - q_len q"
proof -
  assume q: "q_ok q"
  have "q_tail q - q_head q - 1 = q_tail q - (q_head q + 1)" by simp
  then have "unat (LEFT q) = (unat (q_tail q) + (1024 - unat (q_head q + 1) mod 1024)) mod 1024"
    unfolding LEFT_def by (simp only: mod1024_diff)
  also have "unat (q_head q + 1) mod 1024 = (unat (q_head q) + 1) mod 1024"
    using inc_1023 [of "q_head q"] by (simp only: and_3ff)
  also have "(t + (1024 - (h + 1) mod 1024)) mod 1024 = 1023 - (h + 1024 - t) mod 1024" if "h < 1024" "t < 1024" for h t :: nat
  proof -
    have m: "n mod 1024 = n - 1024" if "1024 \<le> n" "n < 2048" for n :: nat using that by (simp add: le_mod_geq)
    show ?thesis using that m [of "h + 1024 - t"] m [of "t + (1023 - h)"] m [of "t + 1024"]
      by (cases "h = 1023"; cases "t \<le> h") auto
  qed
  finally show ?thesis using q by (simp add: q_ok_def q_len_def)
qed

lemma FULL_len: "q_ok q \<Longrightarrow> FULL q \<longleftrightarrow> q_len q = 1023"
  using LEFT_len [of q] q_len_less [of q] by (auto simp: FULL_def unat_eq_0 [symmetric] simp del: unat_eq_0)

section \<open>The contract\<close>

locale bounded_queue =
  fixes ok :: "'q \<Rightarrow> bool" and contents :: "'q \<Rightarrow> 'c list" and cap :: nat
    and put :: "'c \<Rightarrow> 'q \<Rightarrow> 'q" and get :: "'q \<Rightarrow> 'c \<times> 'q" and undo :: "'q \<Rightarrow> 'q"
  assumes put: "ok q \<Longrightarrow> length (contents q) < cap \<Longrightarrow> ok (put c q) \<and> contents (put c q) = contents q @ [c]"
    and get: "ok q \<Longrightarrow> contents q \<noteq> [] \<Longrightarrow> ok (snd (get q)) \<and> contents q = fst (get q) # contents (snd (get q))"
    and undo: "ok q \<Longrightarrow> contents q \<noteq> [] \<Longrightarrow> ok (undo q) \<and> contents (undo q) = butlast (contents q)"
begin

lemma put_all:
  "ok q \<Longrightarrow> length (contents q) + length cs \<le> cap \<Longrightarrow> ok (fold put cs q) \<and> contents (fold put cs q) = contents q @ cs"
proof (induction cs arbitrary: q)
  case (Cons c cs)
  then show ?case using put [of q c] Cons.IH [of "put c q"] by simp
qed simp

lemma get_Cons: "ok q \<Longrightarrow> contents q = c # cs \<Longrightarrow> fst (get q) = c \<and> contents (snd (get q)) = cs \<and> ok (snd (get q))"
  using get [of q] by simp

end

lemma q_list_Nil: "q_list q = [] \<longleftrightarrow> q_len q = 0"
  by (metis length_0_conv length_q_list)

interpretation tq: bounded_queue q_ok q_list 1023 PUTCH GETCH DEC_head
proof
  show "q_ok q \<Longrightarrow> length (q_list q) < 1023 \<Longrightarrow> q_ok (PUTCH c q) \<and> q_list (PUTCH c q) = q_list q @ [c]" for q c
    using PUTCH_list [of q c] by simp
  show "q_ok q \<Longrightarrow> q_list q \<noteq> [] \<Longrightarrow> q_ok (snd (GETCH q)) \<and> q_list q = fst (GETCH q) # q_list (snd (GETCH q))" for q
    by (metis GETCH_list q_list_Nil)
  show "q_ok q \<Longrightarrow> q_list q \<noteq> [] \<Longrightarrow> q_ok (DEC_head q) \<and> q_list (DEC_head q) = butlast (q_list q)" for q
    using DEC_head_list [of q] by (simp add: q_list_Nil)
qed

end
