(* ===== verification/Tty.thy ===== *)
theory Tty
  imports Console Files Sys
begin

text \<open>
  The line discipline (\<^verbatim>\<open>kernel/chr_drv/tty_io.c\<close>), its device control (\<^verbatim>\<open>kernel/chr_drv/tty_ioctl.c\<close>) and the
  character classes they use (\<^verbatim>\<open>lib/ctype.c\<close>, \<^verbatim>\<open>include/ctype.h\<close>).

  \<open>copy_to_cooked\<close> echoes through \<open>con_write\<close>, which may answer a query through \<open>copy_to_cooked\<close>: each takes
  the other as an argument, and the depth of the nesting is bounded by fuel. The code allows the channels 1
  and 2, for which \<open>tty_table\<close> has no entry: an access to them, beyond the table, is \<open>Hang\<close>.
\<close>

section \<open>Character classes\<close>

text \<open>\<open>_ctype + 1\<close>, indexed by the code of a character from -1 to 255.\<close>

definition ctype_table :: "u8 list" where
  "ctype_table =
     replicate 9 0x08 @ replicate 5 (0x08 OR 0x20) @ replicate 2 0x08 @ replicate 16 0x08 @
     [0x20 OR 0x80] @ replicate 15 0x10 @ replicate 10 0x04 @ replicate 7 0x10 @
     replicate 6 (0x01 OR 0x40) @ replicate 20 0x01 @ replicate 6 0x10 @
     replicate 6 (0x02 OR 0x40) @ replicate 20 0x02 @ replicate 4 0x10 @ [0x08] @ replicate 128 0"

definition ctype :: "(nat \<Rightarrow> u8) \<Rightarrow> int \<Rightarrow> u8" where
  "ctype before c = (if 0 \<le> c then ctype_table ! nat c else if c = -1 then 0 else before (nat (-2 - c)))"

definition isupper :: "(nat \<Rightarrow> u8) \<Rightarrow> u8 \<Rightarrow> bool" where
  "isupper before c \<longleftrightarrow> ctype before (sint c) AND 0x01 \<noteq> 0"

definition islower :: "(nat \<Rightarrow> u8) \<Rightarrow> u8 \<Rightarrow> bool" where
  "islower before c \<longleftrightarrow> ctype before (sint c) AND 0x02 \<noteq> 0"

definition tolower :: "(nat \<Rightarrow> u8) \<Rightarrow> u8 \<Rightarrow> u8" where
  "tolower before c = (if isupper before c then c + 32 else c)"

definition toupper :: "(nat \<Rightarrow> u8) \<Rightarrow> u8 \<Rightarrow> u8" where
  "toupper before c = (if islower before c then c - 32 else c)"

section \<open>Modes and control characters\<close>

definition L_FLAG :: "tty_struct \<Rightarrow> u32 \<Rightarrow> bool" where
  "L_FLAG t f \<longleftrightarrow> c_lflag (termios t) AND f \<noteq> 0"

definition I_FLAG :: "tty_struct \<Rightarrow> u32 \<Rightarrow> bool" where
  "I_FLAG t f \<longleftrightarrow> c_iflag (termios t) AND f \<noteq> 0"

definition O_FLAG :: "tty_struct \<Rightarrow> u32 \<Rightarrow> bool" where
  "O_FLAG t f \<longleftrightarrow> c_oflag (termios t) AND f \<noteq> 0"

abbreviation (input) L_CANON where "L_CANON t \<equiv> L_FLAG t 2"
abbreviation (input) L_ISIG where "L_ISIG t \<equiv> L_FLAG t 1"
abbreviation (input) L_ECHO where "L_ECHO t \<equiv> L_FLAG t 8"
abbreviation (input) L_ECHOCTL where "L_ECHOCTL t \<equiv> L_FLAG t 0x200"
abbreviation (input) I_UCLC where "I_UCLC t \<equiv> I_FLAG t 0x200"
abbreviation (input) I_NLCR where "I_NLCR t \<equiv> I_FLAG t 0x40"
abbreviation (input) I_CRNL where "I_CRNL t \<equiv> I_FLAG t 0x100"
abbreviation (input) I_NOCR where "I_NOCR t \<equiv> I_FLAG t 0x80"
abbreviation (input) O_POST where "O_POST t \<equiv> O_FLAG t 1"
abbreviation (input) O_NLCR where "O_NLCR t \<equiv> O_FLAG t 4"
abbreviation (input) O_CRNL where "O_CRNL t \<equiv> O_FLAG t 8"
abbreviation (input) O_NLRET where "O_NLRET t \<equiv> O_FLAG t 0x20"
abbreviation (input) O_LCUC where "O_LCUC t \<equiv> O_FLAG t 2"

text \<open>\<open>c==XXX_CHAR(tty)\<close>: a \<open>char\<close> against an \<open>unsigned char\<close>, both widened.\<close>

definition is_cc :: "nat \<Rightarrow> tty_struct \<Rightarrow> u8 \<Rightarrow> bool" where
  "is_cc i t c \<longleftrightarrow> sint c = uint (c_cc (termios t) i)"

abbreviation (input) is_INTR where "is_INTR \<equiv> is_cc 0"
abbreviation (input) is_QUIT where "is_QUIT \<equiv> is_cc 1"
abbreviation (input) is_ERASE where "is_ERASE \<equiv> is_cc 2"
abbreviation (input) is_KILL where "is_KILL \<equiv> is_cc 3"
abbreviation (input) is_EOF where "is_EOF \<equiv> is_cc 4"
abbreviation (input) is_START where "is_START \<equiv> is_cc 8"
abbreviation (input) is_STOP where "is_STOP \<equiv> is_cc 9"

section \<open>Signals of the keyboard\<close>

definition tty_intr :: "u32 \<Rightarrow> 'a fs_state_scheme \<Rightarrow> 'a fs_state_scheme" where
  "tty_intr m s =
     (if tty_pgrp s 0 \<le>s 0 then s
      else fold (\<lambda>i s. if task s i \<noteq> 0 \<and> pgrp (tasks s (task s i)) = tty_pgrp s 0
             then upd_task (task s i) (\<lambda>t. t\<lparr>signal := signal t OR m\<rparr>) s else s) [0..<NR_TASKS] s)"

section \<open>From the read queue to the lines a process reads\<close>

definition put_write :: "u8 list \<Rightarrow> 'a tty_state_scheme \<Rightarrow> 'a tty_state_scheme" where
  "put_write cs s = upd_tty (\<lambda>t. t\<lparr>write_q := fold PUTCH cs (write_q t)\<rparr>) s"

text \<open>The last character of the line is rubbed out, on the screen too.\<close>

definition rub_out ::
  "('a tty_state_scheme \<Rightarrow> ('a tty_state_scheme, unit) outcome) \<Rightarrow> 'a tty_state_scheme \<Rightarrow> ('a tty_state_scheme, unit) outcome" where
  "rub_out wr s =
     andThen
       (if L_ECHO (con_tty s)
        then wr (put_write (if LAST (secondary (con_tty s)) <s 32 then [127, 127] else [127]) s) else Ret () s)
       (\<lambda>_ s. Ret () (upd_tty (\<lambda>t. t\<lparr>secondary := DEC_head (secondary t)\<rparr>) s))"

definition line_start :: "tty_struct \<Rightarrow> bool" where
  "line_start t \<longleftrightarrow> EMPTY (secondary t) \<or> LAST (secondary t) = 10 \<or> is_EOF t (LAST (secondary t))"

fun kill_line ::
  "('a tty_state_scheme \<Rightarrow> ('a tty_state_scheme, unit) outcome) \<Rightarrow> nat \<Rightarrow> 'a tty_state_scheme \<Rightarrow>
     ('a tty_state_scheme, unit) outcome" where
  "kill_line wr 0 s = Hang"
| "kill_line wr (Suc n) s =
     (if line_start (con_tty s) then Ret () s else andThen (rub_out wr s) (\<lambda>_ s. kill_line wr n s))"

text \<open>The input modes: \<open>None\<close> when the character is dropped.\<close>

definition map_input :: "(nat \<Rightarrow> u8) \<Rightarrow> tty_struct \<Rightarrow> u8 \<Rightarrow> u8 option" where
  "map_input before t c =
     (if c = 13 \<and> \<not> I_CRNL t \<and> I_NOCR t then None
      else let c = (if c = 13 then if I_CRNL t then 10 else c else if c = 10 \<and> I_NLCR t then 13 else c)
        in Some (if I_UCLC t then tolower before c else c))"

definition echo_chars :: "tty_struct \<Rightarrow> u8 \<Rightarrow> u8 list" where
  "echo_chars t c =
     (if c = 10 then [10, 13] else if c <s 32 then if L_ECHOCTL t then [94, c + 64] else [] else [c])"

definition INTMASK :: u32 where "INTMASK = push_bit 1 1"
definition QUITMASK :: u32 where "QUITMASK = push_bit 2 1"
definition ALRMMASK :: u32 where "ALRMMASK = push_bit 13 1"

text \<open>An ordinary character goes to the secondary queue, and to the screen.\<close>

definition cook_char ::
  "('a tty_state_scheme \<Rightarrow> ('a tty_state_scheme, unit) outcome) \<Rightarrow> u8 \<Rightarrow> 'a tty_state_scheme \<Rightarrow>
     ('a tty_state_scheme, unit) outcome" where
  "cook_char wr c s =
     (let s = (if c = 10 \<or> is_EOF (con_tty s) c
               then upd_tty (\<lambda>t. t\<lparr>secondary := (secondary t)\<lparr>q_data := q_data (secondary t) + 1\<rparr>\<rparr>) s else s) in
      andThen (if L_ECHO (con_tty s) then wr (put_write (echo_chars (con_tty s) c) s) else Ret () s)
        (\<lambda>_ s. Ret () (upd_tty (\<lambda>t. t\<lparr>secondary := PUTCH c (secondary t)\<rparr>) s)))"

definition cook_step ::
  "('a tty_state_scheme \<Rightarrow> ('a tty_state_scheme, unit) outcome) \<Rightarrow> nat \<Rightarrow> u8 \<Rightarrow> 'a tty_state_scheme \<Rightarrow>
     ('a tty_state_scheme, unit) outcome" where
  "cook_step wr n c s =
     (let t = con_tty s in
      if L_CANON t \<and> is_KILL t c then kill_line wr n s
      else if L_CANON t \<and> is_ERASE t c then if line_start t then Ret () s else rub_out wr s
      else if L_CANON t \<and> is_STOP t c then Ret () (upd_tty (\<lambda>t. t\<lparr>stopped := 1\<rparr>) s)
      else if L_CANON t \<and> is_START t c then Ret () (upd_tty (\<lambda>t. t\<lparr>stopped := 0\<rparr>) s)
      else if L_ISIG t \<and> is_INTR t c then Ret () (tty_intr INTMASK s)
      else if L_ISIG t \<and> is_QUIT t c then Ret () (tty_intr QUITMASK s)
      else cook_char wr c s)"

definition secondary_wait :: "'a tty_state_scheme \<Rightarrow> u32" where
  "secondary_wait s = q_wait (secondary (con_tty s))"

definition set_secondary_wait :: "u32 \<Rightarrow> 'a tty_state_scheme \<Rightarrow> 'a tty_state_scheme" where
  "set_secondary_wait p s = upd_tty (\<lambda>t. t\<lparr>secondary := (secondary t)\<lparr>q_wait := p\<rparr>\<rparr>) s"

fun cook_loop ::
  "('a tty_state_scheme \<Rightarrow> ('a tty_state_scheme, unit) outcome) \<Rightarrow> nat \<Rightarrow> nat \<Rightarrow> 'a tty_state_scheme \<Rightarrow>
     ('a tty_state_scheme, unit) outcome" where
  "cook_loop wr m 0 s = Hang"
| "cook_loop wr m (Suc n) s =
     (if EMPTY (read_q (con_tty s)) \<or> FULL (secondary (con_tty s)) then Ret () s
      else let c = fst (GETCH (read_q (con_tty s)));
               s = upd_tty (\<lambda>t. t\<lparr>read_q := snd (GETCH (read_q t))\<rparr>) s in
        case map_input (ctype_before s) (con_tty s) c of
          None \<Rightarrow> cook_loop wr m n s
        | Some c \<Rightarrow> andThen (cook_step wr m c s) (\<lambda>_ s. cook_loop wr m n s))"

definition copy_to_cooked_with ::
  "('a tty_state_scheme \<Rightarrow> ('a tty_state_scheme, unit) outcome) \<Rightarrow> nat \<Rightarrow> 'a tty_state_scheme \<Rightarrow>
     ('a tty_state_scheme, unit) outcome" where
  "copy_to_cooked_with wr n s = andThen (cook_loop wr n n s) (\<lambda>_ s. Ret () (wake_up secondary_wait s))"

text \<open>The two functions tied together.\<close>

fun con_write :: "nat \<Rightarrow> nat \<Rightarrow> 'a tty_state_scheme \<Rightarrow> ('a tty_state_scheme, unit) outcome" where
  "con_write 0 n s = Hang"
| "con_write (Suc d) n s = con_write_with (copy_to_cooked_with (con_write d n) n) s"

definition copy_to_cooked :: "nat \<Rightarrow> nat \<Rightarrow> 'a tty_state_scheme \<Rightarrow> ('a tty_state_scheme, unit) outcome" where
  "copy_to_cooked d n s = copy_to_cooked_with (con_write d n) n s"

definition do_tty_interrupt :: "nat \<Rightarrow> nat \<Rightarrow> nat \<Rightarrow> 'a tty_state_scheme \<Rightarrow> ('a tty_state_scheme, unit) outcome" where
  "do_tty_interrupt d n k s = (if k = 0 then copy_to_cooked d n s else Hang)"

section \<open>Waiting\<close>

fun sleep_if_empty ::
  "'a tty_state_scheme kernel_env \<Rightarrow> nat \<Rightarrow> 'a tty_state_scheme \<Rightarrow> ('a tty_state_scheme, unit) outcome" where
  "sleep_if_empty K 0 s = Hang"
| "sleep_if_empty K (Suc n) s =
     (if signal (cur s) = 0 \<and> EMPTY (secondary (con_tty s)) then
        andThen (interruptible_sleep_on (bound K) (bound K) (others K) secondary_wait set_secondary_wait s)
          (\<lambda>_ s. sleep_if_empty K n s)
      else Ret () s)"

definition write_wait :: "'a tty_state_scheme \<Rightarrow> u32" where
  "write_wait s = q_wait (write_q (con_tty s))"

definition set_write_wait :: "u32 \<Rightarrow> 'a tty_state_scheme \<Rightarrow> 'a tty_state_scheme" where
  "set_write_wait p s = upd_tty (\<lambda>t. t\<lparr>write_q := (write_q t)\<lparr>q_wait := p\<rparr>\<rparr>) s"

fun full_loop ::
  "'a tty_state_scheme kernel_env \<Rightarrow> nat \<Rightarrow> 'a tty_state_scheme \<Rightarrow> ('a tty_state_scheme, unit) outcome" where
  "full_loop K 0 s = Hang"
| "full_loop K (Suc n) s =
     (if signal (cur s) = 0 \<and> LEFT (write_q (con_tty s)) < 128 then
        andThen (interruptible_sleep_on (bound K) (bound K) (others K) write_wait set_write_wait s)
          (\<lambda>_ s. full_loop K n s)
      else Ret () s)"

definition sleep_if_full :: "'a tty_state_scheme kernel_env \<Rightarrow> 'a tty_state_scheme \<Rightarrow> ('a tty_state_scheme, unit) outcome" where
  "sleep_if_full K s = (if FULL (write_q (con_tty s)) then full_loop K (bound K) s else Ret () s)"

definition wait_for_keypress :: "'a tty_state_scheme kernel_env \<Rightarrow> 'a tty_state_scheme \<Rightarrow> ('a tty_state_scheme, unit) outcome" where
  "wait_for_keypress K s = sleep_if_empty K (bound K) s"

section \<open>Reading\<close>

text \<open>The inner loop of \<open>tty_read\<close>: whether it ended at an end of file, the number of bytes read, and what is
  left to read. It runs at least once and at most \<open>nr\<close> times.\<close>

fun read_chars :: "nat \<Rightarrow> u32 \<Rightarrow> nat \<Rightarrow> 'a tty_state_scheme \<Rightarrow> bool \<times> nat \<times> nat \<times> 'a tty_state_scheme" where
  "read_chars 0 b got s = (False, got, 0, s)"
| "read_chars (Suc nr) b got s =
     (let c = fst (GETCH (secondary (con_tty s)));
          s = upd_tty (\<lambda>t. t\<lparr>secondary := snd (GETCH (secondary t))\<rparr>) s;
          s = (if is_EOF (con_tty s) c \<or> c = 10
               then upd_tty (\<lambda>t. t\<lparr>secondary := (secondary t)\<lparr>q_data := q_data (secondary t) - 1\<rparr>\<rparr>) s else s)
      in if is_EOF (con_tty s) c \<and> L_CANON (con_tty s) then (True, got, Suc nr, s)
         else let s = put_fs_byte c b s in
           if nr = 0 \<or> EMPTY (secondary (con_tty s)) then (False, got + 1, nr, s)
           else read_chars nr (b + 1) (got + 1) s)"

text \<open>The outer loop: \<open>Inl\<close> is the return in the middle of the loop, \<open>Inr\<close> its end.\<close>

fun tty_read_loop ::
  "'a tty_state_scheme kernel_env \<Rightarrow> nat \<Rightarrow> u32 \<Rightarrow> s32 \<Rightarrow> s32 \<Rightarrow> int \<Rightarrow> bool \<Rightarrow> nat \<Rightarrow> nat \<Rightarrow> 'a tty_state_scheme \<Rightarrow>
     ('a tty_state_scheme, nat + nat) outcome" where
  "tty_read_loop K 0 buf oldalarm time minimum flag got nr s = Hang"
| "tty_read_loop K (Suc n) buf oldalarm time minimum flag got nr s =
     (if nr = 0 then Ret (Inr got) s
      else if flag \<and> signal (cur s) AND ALRMMASK \<noteq> 0 then
        Ret (Inr got) (upd_cur (\<lambda>t. t\<lparr>signal := signal t AND NOT ALRMMASK\<rparr>) s)
      else if signal (cur s) \<noteq> 0 then Ret (Inr got) s
      else if EMPTY (secondary (con_tty s)) \<or>
              L_CANON (con_tty s) \<and> q_data (secondary (con_tty s)) = 0 \<and> 20 < LEFT (secondary (con_tty s)) then
        andThen (sleep_if_empty K (bound K) s)
          (\<lambda>_ s. tty_read_loop K n buf oldalarm time minimum flag got nr s)
      else case read_chars nr (buf + of_nat got) got s of
        (eof, got, nr, s) \<Rightarrow>
          if eof then Ret (Inl got) s
          else
            let set = (time \<noteq> 0 \<and> \<not> L_CANON (con_tty s));
                flag = (if set then oldalarm = 0 \<or> time + jiffies s <s oldalarm else flag);
                s = (if set then upd_cur (\<lambda>t. t\<lparr>alarm := if flag then time + jiffies s else oldalarm\<rparr>) s else s)
            in if L_CANON (con_tty s) \<and> got \<noteq> 0 \<or> \<not> L_CANON (con_tty s) \<and> minimum \<le> int got then Ret (Inr got) s
               else tty_read_loop K n buf oldalarm time minimum flag got nr s)"

definition tty_read ::
  "'a tty_state_scheme kernel_env \<Rightarrow> u32 \<Rightarrow> u32 \<Rightarrow> int \<Rightarrow> 'a tty_state_scheme \<Rightarrow> ('a tty_state_scheme, int) outcome" where
  "tty_read K channel buf nr s =
     (if 2 < channel \<or> nr < 0 then Ret (-1) s
      else if channel \<noteq> 0 then Hang
      else let oldalarm = alarm (cur s);
               time = 10 * ucast (c_cc (termios (con_tty s)) 5) :: s32;
               minimum = uint (c_cc (termios (con_tty s)) 6);
               timed = (time \<noteq> 0 \<and> minimum = 0);
               minimum = (if timed then 1 else minimum);
               flag = (timed \<and> (oldalarm = 0 \<or> time + jiffies s <s oldalarm));
               s = (if flag then upd_cur (\<lambda>t. t\<lparr>alarm := time + jiffies s\<rparr>) s else s);
               minimum = min minimum nr in
        andThen (tty_read_loop K (bound K) buf oldalarm time minimum flag 0 (nat nr) s) (\<lambda>r s.
          case r of
            Inl got \<Rightarrow> Ret (int got) s
          | Inr got \<Rightarrow>
              let s = upd_cur (\<lambda>t. t\<lparr>alarm := oldalarm\<rparr>) s in
              Ret (if signal (cur s) \<noteq> 0 \<and> got = 0 then - EINTR else int got) s))"

section \<open>Writing\<close>

text \<open>The output modes: a carriage return that comes first, or the character that is written.\<close>

definition map_output :: "(nat \<Rightarrow> u8) \<Rightarrow> tty_struct \<Rightarrow> bool \<Rightarrow> u8 \<Rightarrow> u8 option" where
  "map_output before t flag c =
     (if O_POST t then
        let c = (if c = 13 \<and> O_CRNL t then 10 else if c = 10 \<and> O_NLRET t then 13 else c) in
        if c = 10 \<and> \<not> flag \<and> O_NLCR t then None
        else Some (if O_LCUC t then toupper before c else c)
      else Some c)"

lemma map_output_None: "map_output before t flag c = None \<Longrightarrow> \<not> flag"
  by (simp add: map_output_def Let_def split: if_splits)

text \<open>The inner loop of \<open>tty_write\<close>: the write queue is filled.\<close>

function fill_write :: "u32 \<Rightarrow> nat \<Rightarrow> 'a tty_state_scheme \<Rightarrow> u32 \<times> nat \<times> 'a tty_state_scheme" where
  "fill_write b nr s =
     (if 0 < nr \<and> \<not> FULL (write_q (con_tty s)) then
        (case map_output (ctype_before s) (con_tty s) (cr_flag s) (get_fs_byte b s) of
           None \<Rightarrow> fill_write b nr (put_write [13] (s\<lparr>cr_flag := True\<rparr>))
         | Some c \<Rightarrow> fill_write (b + 1) (nr - 1) (put_write [c] (s\<lparr>cr_flag := False\<rparr>)))
      else (b, nr, s))"
  by pat_completeness auto
termination by (relation "measure (\<lambda>(_, nr, s). 2 * nr + (if cr_flag s then 0 else 1))") (auto simp: put_write_def upd_tty_def dest: map_output_None)

declare fill_write.simps [simp del]

fun tty_write_loop ::
  "'a tty_state_scheme kernel_env \<Rightarrow> nat \<Rightarrow> u32 \<Rightarrow> nat \<Rightarrow> 'a tty_state_scheme \<Rightarrow>
     ('a tty_state_scheme, u32) outcome" where
  "tty_write_loop K 0 b nr s = Hang"
| "tty_write_loop K (Suc n) b nr s =
     (if nr = 0 then Ret b s
      else andThen (sleep_if_full K s) (\<lambda>_ s.
        if signal (cur s) \<noteq> 0 then Ret b s
        else case fill_write b nr s of
          (b, nr, s) \<Rightarrow> andThen (con_write (bound K) (bound K) s) (\<lambda>_ s.
            andThen (if 0 < nr then andThen (schedule (bound K) s) (\<lambda>_ s. Ret () (others K s)) else Ret () s)
              (\<lambda>_ s. tty_write_loop K n b nr s))))"

definition tty_write ::
  "'a tty_state_scheme kernel_env \<Rightarrow> u32 \<Rightarrow> u32 \<Rightarrow> int \<Rightarrow> 'a tty_state_scheme \<Rightarrow> ('a tty_state_scheme, int) outcome" where
  "tty_write K channel buf nr s =
     (if 2 < channel \<or> nr < 0 then Ret (-1) s
      else if channel \<noteq> 0 then Hang
      else andThen (tty_write_loop K (bound K) buf (nat nr) s) (\<lambda>b s. Ret (sint (b - buf)) s))"

text \<open>The terminal driver of the character devices.\<close>

definition tty_rw :: "'a tty_state_scheme kernel_env \<Rightarrow> 'a tty_state_scheme tty_driver" where
  "tty_rw K rw minor buf count s =
     (if rw = READ then tty_read K minor buf count s else tty_write K minor buf count s)"

section \<open>Device control (tty_ioctl.c)\<close>

definition quotient :: "u16 list" where
  "quotient = [0, 2304, 1536, 1047, 857, 768, 576, 384, 192, 96, 64, 48, 24, 12, 6, 3]"

definition change_speed :: "'a tty_state_scheme \<Rightarrow> 'a tty_state_scheme" where
  "change_speed s =
     (let port = ucast (q_data (read_q (con_tty s))) :: u16;
          quot = quotient ! unat (c_cflag (termios (con_tty s)) AND 15);
          p = ucast port :: u32 in
      if port = 0 then s
      else outb 0x03 (p + 3) (outb (ucast (drop_bit 8 quot)) (p + 1) (outb (ucast (quot AND 0xff)) p (outb 0x80 (p + 3) s))))"

definition flush_q :: "tty_queue \<Rightarrow> tty_queue" where
  "flush_q q = q\<lparr>q_head := q_tail q\<rparr>"

definition flush_read :: "'a tty_state_scheme \<Rightarrow> 'a tty_state_scheme" where
  "flush_read s = upd_tty (\<lambda>t. t\<lparr>read_q := flush_q (read_q t)\<rparr>) s"

definition flush_write :: "'a tty_state_scheme \<Rightarrow> 'a tty_state_scheme" where
  "flush_write s = upd_tty (\<lambda>t. t\<lparr>write_q := flush_q (write_q t)\<rparr>) s"

text \<open>The structure as bytes, low byte first.\<close>

definition enc_termios :: "termios_struct \<Rightarrow> u8 list" where
  "enc_termios t = enc32 (c_iflag t) @ enc32 (c_oflag t) @ enc32 (c_cflag t) @ enc32 (c_lflag t) @
     [c_line t] @ map (c_cc t) [0..<17] @ map (c_pad t) [0..<2]"

definition dec_termios :: "(nat \<Rightarrow> u8) \<Rightarrow> termios_struct \<Rightarrow> termios_struct" where
  "dec_termios f t = t\<lparr>c_iflag := dec32 f 0, c_oflag := dec32 f 4, c_cflag := dec32 f 8, c_lflag := dec32 f 12,
     c_line := f 16, c_cc := (\<lambda>i. if i < 17 then f (17 + i) else c_cc t i),
     c_pad := (\<lambda>i. if i < 2 then f (34 + i) else c_pad t i)\<rparr>"

definition get_termios :: "u32 \<Rightarrow> 'a tty_state_scheme \<Rightarrow> ('a tty_state_scheme, int) outcome" where
  "get_termios p s =
     andThen (verify_area p 36 s) (\<lambda>_ s. Ret 0 (put_bytes (enc_termios (termios (con_tty s))) p s))"

definition set_termios :: "u32 \<Rightarrow> 'a tty_state_scheme \<Rightarrow> ('a tty_state_scheme, int) outcome" where
  "set_termios p s =
     Ret 0 (change_speed (upd_tty (\<lambda>t. t\<lparr>termios := dec_termios (\<lambda>i. get_fs_byte (p + of_nat i) s) (termios t)\<rparr>) s))"

text \<open>\<open>struct termio\<close> has one byte of padding, on the stack of \<open>get_termio\<close>: the argument \<open>junk\<close>.\<close>

definition enc_termio :: "u8 \<Rightarrow> termios_struct \<Rightarrow> u8 list" where
  "enc_termio junk t = enc16 (ucast (c_iflag t)) @ enc16 (ucast (c_oflag t)) @ enc16 (ucast (c_cflag t)) @
     enc16 (ucast (c_lflag t)) @ [c_line t] @ map (c_cc t) [0..<8] @ [junk]"

text \<open>\<open>*(unsigned short *)&tty->termios.c_iflag = ...\<close>: the low half of a long.\<close>

definition set_low :: "u32 \<Rightarrow> u16 \<Rightarrow> u32" where
  "set_low v w = (v AND 0xffff0000) OR ucast w"

definition dec_termio :: "(nat \<Rightarrow> u8) \<Rightarrow> termios_struct \<Rightarrow> termios_struct" where
  "dec_termio f t = t\<lparr>c_iflag := set_low (c_iflag t) (dec16 f 0), c_oflag := set_low (c_oflag t) (dec16 f 2),
     c_cflag := set_low (c_cflag t) (dec16 f 4), c_lflag := set_low (c_lflag t) (dec16 f 6),
     c_line := f 8, c_cc := (\<lambda>i. if i < 8 then f (9 + i) else c_cc t i)\<rparr>"

definition get_termio :: "u8 \<Rightarrow> u32 \<Rightarrow> 'a tty_state_scheme \<Rightarrow> ('a tty_state_scheme, int) outcome" where
  "get_termio junk p s =
     andThen (verify_area p 18 s) (\<lambda>_ s. Ret 0 (put_bytes (enc_termio junk (termios (con_tty s))) p s))"

definition set_termio :: "u32 \<Rightarrow> 'a tty_state_scheme \<Rightarrow> ('a tty_state_scheme, int) outcome" where
  "set_termio p s =
     Ret 0 (change_speed (upd_tty (\<lambda>t. t\<lparr>termios := dec_termio (\<lambda>i. get_fs_byte (p + of_nat i) s) (termios t)\<rparr>) s))"

text \<open>A long for the caller.\<close>

definition give_long :: "('a tty_state_scheme \<Rightarrow> u32) \<Rightarrow> u32 \<Rightarrow> 'a tty_state_scheme \<Rightarrow> ('a tty_state_scheme, int) outcome" where
  "give_long v arg s = andThen (verify_area arg 4 s) (\<lambda>_ s. Ret 0 (put_fs_long (v s) arg s))"

definition tty_command :: "u8 \<Rightarrow> u32 \<Rightarrow> u32 \<Rightarrow> 'a tty_state_scheme \<Rightarrow> ('a tty_state_scheme, int) outcome" where
  "tty_command junk cmd arg s =
     (if cmd = 0x5401 then get_termios arg s
      else if cmd = 0x5404 then set_termios arg (flush_read s)
      else if cmd = 0x5403 \<or> cmd = 0x5402 then set_termios arg s
      else if cmd = 0x5405 then get_termio junk arg s
      else if cmd = 0x5408 then set_termio arg (flush_read s)
      else if cmd = 0x5407 \<or> cmd = 0x5406 then set_termio arg s
      else if cmd = 0x5409 then Ret 0 s
      else if cmd = 0x540B then
        if arg = 0 then Ret 0 (flush_read s)
        else if arg = 1 then Ret 0 (flush_write s)
        else if arg = 2 then Ret 0 (flush_write (flush_read s))
        else Ret (- EINVAL) s
      else if cmd = 0x540F then give_long (\<lambda>s. tty_pgrp s 0) arg s
      else if cmd = 0x5410 then Ret 0 (s\<lparr>tty_pgrp := (tty_pgrp s)(0 := get_fs_long arg s)\<rparr>)
      else if cmd = 0x5411 then give_long (\<lambda>s. CHARS (write_q (con_tty s))) arg s
      else if cmd = 0x541B then give_long (\<lambda>s. CHARS (secondary (con_tty s))) arg s
      else Ret (- EINVAL) s)"

definition tty_ioctl ::
  "u8 \<Rightarrow> u32 \<Rightarrow> u32 \<Rightarrow> u32 \<Rightarrow> 'a tty_state_scheme \<Rightarrow> ('a tty_state_scheme, int) outcome" where
  "tty_ioctl junk dev cmd arg s =
     (if MAJOR dev = 5 \<and> tty (cur s) <s 0 then Panic ''tty_ioctl: dev<0'' s
      else if (if MAJOR dev = 5 then tty (cur s) else MINOR dev) = 0 then tty_command junk cmd arg s
      else Hang)"

end
