(* ===== verification/Console_Bounds.thy ===== *)
theory Console_Bounds
  imports Console_Properties Tty_Queue Tty Fs_Examples
begin

text \<open>
  Every character that is written to a terminal keeps the invariant of the console, and all that it stores is in the
  video memory.
\<close>

section \<open>Steps of the console\<close>

lemma con_okx_mono: "con_okx m c \<Longrightarrow> m \<le> n \<Longrightarrow> con_okx n c"
  by (auto simp: con_okx_def cursor_ok_def)

lemma video_step_mem:
  assumes "con_okx m (con s)" and "con t = con s" and "\<And>k. k < 4294967296 \<Longrightarrow> \<not> inside (con s) k \<Longrightarrow> kb k t = kb k s"
  shows "video_step m s t"
  using assms by (simp add: video_step_def geometry_def)

lemma video_step_con:
  assumes "con_okx m (f (con s))" and "geometry (con s) (f (con s))"
  shows "video_step m s (upd_con f s)"
  using assms by (simp add: video_step_def)

text \<open>The fields that are not part of the geometry.\<close>

lemma display_ok_fields [simp]:
  "display_ok (c\<lparr>con_x := x\<rparr>) = display_ok c"
  "display_ok (c\<lparr>con_y := y\<rparr>) = display_ok c"
  "display_ok (c\<lparr>pos := p\<rparr>) = display_ok c"
  "display_ok (c\<lparr>con_state := x\<rparr>) = display_ok c"
  "display_ok (c\<lparr>npar := x\<rparr>) = display_ok c"
  "display_ok (c\<lparr>par := f\<rparr>) = display_ok c"
  "display_ok (c\<lparr>ques := b\<rparr>) = display_ok c"
  "display_ok (c\<lparr>attr := v\<rparr>) = display_ok c"
  "display_ok (c\<lparr>saved_x := x\<rparr>) = display_ok c"
  "display_ok (c\<lparr>saved_y := y\<rparr>) = display_ok c"
  "display_ok (c\<lparr>scr_top := x\<rparr>) = display_ok c"
  "display_ok (c\<lparr>scr_bottom := x\<rparr>) = display_ok c"
  by (simp_all add: display_ok_def)

lemma window_ok_fields [simp]:
  "window_ok (c\<lparr>con_x := x\<rparr>) = window_ok c"
  "window_ok (c\<lparr>con_y := y\<rparr>) = window_ok c"
  "window_ok (c\<lparr>pos := p\<rparr>) = window_ok c"
  "window_ok (c\<lparr>con_state := x\<rparr>) = window_ok c"
  "window_ok (c\<lparr>npar := x\<rparr>) = window_ok c"
  "window_ok (c\<lparr>par := f\<rparr>) = window_ok c"
  "window_ok (c\<lparr>ques := b\<rparr>) = window_ok c"
  "window_ok (c\<lparr>attr := v\<rparr>) = window_ok c"
  "window_ok (c\<lparr>saved_x := x\<rparr>) = window_ok c"
  "window_ok (c\<lparr>saved_y := y\<rparr>) = window_ok c"
  by (simp_all add: window_ok_def)

lemma geometry_fields [simp]:
  "geometry d (c\<lparr>con_x := x\<rparr>) = geometry d c"
  "geometry d (c\<lparr>con_y := y\<rparr>) = geometry d c"
  "geometry d (c\<lparr>pos := p\<rparr>) = geometry d c"
  "geometry d (c\<lparr>con_state := x\<rparr>) = geometry d c"
  "geometry d (c\<lparr>npar := x\<rparr>) = geometry d c"
  "geometry d (c\<lparr>par := f\<rparr>) = geometry d c"
  "geometry d (c\<lparr>ques := b\<rparr>) = geometry d c"
  "geometry d (c\<lparr>attr := v\<rparr>) = geometry d c"
  "geometry d (c\<lparr>saved_x := x\<rparr>) = geometry d c"
  "geometry d (c\<lparr>saved_y := y\<rparr>) = geometry d c"
  "geometry d (c\<lparr>scr_top := x\<rparr>) = geometry d c"
  "geometry d (c\<lparr>scr_bottom := x\<rparr>) = geometry d c"
  by (simp_all add: geometry_def)

lemma geometry_refl [simp]: "geometry c c"
  by (simp add: geometry_def)

lemma con_okx_display:
  assumes "con_okx m c"
  shows "8 \<le> cols c" "cols c \<le> 1000" "rowsize c = 2 * cols c" "nlines c \<le> 100" "unat (con_y c) < nlines c" "unat (con_x c) \<le> m"
  using assms by (simp_all add: con_okx_def display_ok_def cursor_ok_def)

text \<open>The cell of the cursor.\<close>

lemma pos_nat:
  assumes "cursor_ok m c"
  shows "pos c = of_nat (org c + (rowsize c * unat (con_y c) + 2 * unat (con_x c)))"
  using assms by (simp add: cursor_ok_def push_bit_eq_mult mult.commute)

lemma line_inside:
  assumes "con_okx m c" and "k < rowsize c"
  shows "inside c (org c + (rowsize c * unat (con_y c) + k))"
proof -
  have "unat (con_y c) < nlines c" and w: "window_ok c" using assms(1) by (simp_all add: con_okx_def cursor_ok_def)
  then have "rowsize c * unat (con_y c) + k < rowsize c * nlines c" using line_end assms(2) by (meson add_less_cancel_left less_le_trans)
  then show ?thesis using window_inside [OF w] by blast
qed

lemma small_inside: "con_okx m c \<Longrightarrow> inside c k \<Longrightarrow> k < 16777216"
  by (auto simp: con_okx_def display_ok_def inside_def)

text \<open>Memory that is written in the line of the cursor, from the byte \<open>a\<close> of the line to the byte \<open>b\<close>.\<close>

lemma in_line:
  assumes ok: "con_okx m c" and b: "b \<le> rowsize c" and k: "\<not> inside c k" and "a < b"
  defines "l \<equiv> org c + rowsize c * unat (con_y c)"
  shows "k < l + a \<or> l + b \<le> k" and "l + b < 4294967296"
proof -
  have i: "inside c (l + n)" if "n < rowsize c" for n
    using line_inside [OF ok that] by (simp add: l_def add.assoc)
  show "k < l + a \<or> l + b \<le> k"
  proof (rule ccontr)
    assume "\<not> ?thesis"
    then have "l + a \<le> k" "k - l < rowsize c" "k = l + (k - l)" using b by auto
    then show False using i [of "k - l"] k by simp
  qed
  have "l + (b - 1) < 16777216" using small_inside [OF ok i [of "b - 1"]] b \<open>a < b\<close> by simp
  then show "l + b < 4294967296" by simp
qed

section \<open>Scrolling\<close>

lemma no_range:
  fixes k n :: nat
  assumes "k < n \<or> n + m \<le> k"
  shows "b \<le> m \<Longrightarrow> \<not> (n + a \<le> k \<and> k < n + b)" "b + c \<le> m \<Longrightarrow> \<not> (n + a \<le> k \<and> k < n + b + c)"
    "b \<le> m \<Longrightarrow> \<not> (n + a + c \<le> k \<and> k < n + b)"
  using assms by auto

lemma scrup_step:
  assumes "con_okx m (con s)"
  shows "video_step m s (scrup s)"
proof -
  let ?c = "con s"
  have d: "display_ok ?c" and w: "window_ok ?c" and cu: "cursor_ok m ?c" using assms by (simp_all add: con_okx_def)
  obtain x where x: "con (scrup s) = slide x ?c" "window_ok (slide x ?c)" using scrup_con [OF d w] by blast
  have win: "unat (video_mem_start ?c) \<le> org ?c" "org ?c + rowsize ?c * nlines ?c = unat (scr_end ?c)"
    "unat (scr_end ?c) \<le> unat (video_mem_end ?c)" "unat (scr_top ?c) < unat (scr_bottom ?c)" "unat (scr_bottom ?c) \<le> nlines ?c"
    using w by (simp_all add: window_ok_def)
  have rows: "rowsize ?c * unat (scr_bottom ?c) \<le> rowsize ?c * nlines ?c" "rowsize ?c * (nlines ?c - 1) \<le> rowsize ?c * nlines ?c"
    "rowsize ?c * (unat (scr_bottom ?c) - 1) \<le> rowsize ?c * nlines ?c"
    using win by (simp_all only: mult_le_mono2)
  have "kb k (scrup s) = kb k s" if k: "k < 4294967296" "\<not> inside ?c k" for k
  proof -
    have "k < org ?c \<or> org ?c + rowsize ?c * nlines ?c \<le> k" using k(2) win by (auto simp: inside_def)
    note nr = no_range [OF this]
    show ?thesis
      using d w
    proof (cases rule: scrup_cases)
      case up
      then show ?thesis using kb_move_up [OF d w k(1)] nr(1) [OF rows(1)] nr(1) [OF rows(3)] by (simp only: if_False)
    next
      case slide
      have "unat (video_mem_start ?c) \<le> unat (scr_end ?c)" using win by linarith
      then show ?thesis using scrup_slide(2) [OF d w slide k(1)] k(2) slide by (auto simp: inside_def)
    next
      case wrap
      have "k < unat (video_mem_start ?c) \<or> unat (video_mem_start ?c) + rowsize ?c * nlines ?c \<le> k"
        using k(2) win by (auto simp: inside_def)
      note nr = no_range [OF this, of _ 0, unfolded add_0_right] no_range [OF this]
      show ?thesis using scrup_back(2) [OF d w wrap k(1)] nr(1) [OF rows(2)] nr(4) [OF order_refl] by (simp only: if_False)
    qed
  qed
  then show ?thesis using x d cu by (simp add: video_step_def con_okx_def)
qed

lemma scrdown_step:
  assumes "con_okx m (con s)"
  shows "video_step m s (scrdown s)"
proof -
  let ?c = "con s"
  have d: "display_ok ?c" and w: "window_ok ?c" using assms by (simp_all add: con_okx_def)
  have win: "unat (video_mem_start ?c) \<le> org ?c" "org ?c + rowsize ?c * nlines ?c = unat (scr_end ?c)"
    "unat (scr_end ?c) \<le> unat (video_mem_end ?c)" "unat (scr_top ?c) < unat (scr_bottom ?c)" "unat (scr_bottom ?c) \<le> nlines ?c"
    using w by (simp_all add: window_ok_def)
  have rows: "rowsize ?c * unat (scr_bottom ?c) \<le> rowsize ?c * nlines ?c"
    "rowsize ?c * unat (scr_top ?c) + rowsize ?c \<le> rowsize ?c * nlines ?c"
    using win line_end [of "unat (scr_top ?c)" ?c] by (simp_all only: mult_le_mono2 less_le_trans)
  have "kb k (scrdown s) = kb k s" if k: "k < 4294967296" "\<not> inside ?c k" for k
  proof -
    have "k < org ?c \<or> org ?c + rowsize ?c * nlines ?c \<le> k" using k(2) win by (auto simp: inside_def)
    note nr = no_range [OF this]
    show ?thesis using kb_scrdown [OF d w k(1)] nr(2) [OF rows(2)] nr(3) [OF rows(1)] by (simp only: if_False)
  qed
  then show ?thesis using assms by (intro video_step_mem) simp_all
qed

lemma lf_step:
  assumes "con_okx m (con s)"
  shows "video_step m s (lf s)"
proof (cases "con_y (con s) + 1 < scr_bottom (con s)")
  case True
  have "unat (con_y (con s)) < 100" using assms by (simp add: con_okx_def cursor_ok_def display_ok_def)
  then have y: "unat (con_y (con s) + 1) = unat (con_y (con s)) + 1" using unat_add_small [of "con_y (con s)" 1] by simp
  then have "unat (con_y (con s)) + 1 < nlines (con s)"
    using True assms by (simp add: con_okx_def window_ok_def word_less_nat_alt)
  then show ?thesis using True y assms unfolding lf_def
    by (auto intro!: video_step_con simp: con_okx_def display_ok_def window_ok_def cursor_ok_def geometry_def algebra_simps)
next
  case False
  then show ?thesis using scrup_step [OF assms] by (simp add: lf_def)
qed

lemma ri_step:
  assumes "con_okx m (con s)"
  shows "video_step m s (ri s)"
proof (cases "scr_top (con s) < con_y (con s)")
  case True
  then have "unat (con_y (con s) - 1) = unat (con_y (con s)) - 1" by (intro unat_minus_one) auto
  then show ?thesis using True assms unfolding ri_def
    by (auto intro!: video_step_con simp: con_okx_def display_ok_def window_ok_def cursor_ok_def geometry_def algebra_simps)
next
  case False
  then show ?thesis using scrdown_step [OF assms] by (simp add: ri_def)
qed

section \<open>The cursor\<close>

lemma push1: "push_bit 1 (x::u32) = 2 * x"
  by (simp add: push_bit_eq_mult)

lemma row_word: "display_ok c \<Longrightarrow> video_size_row c = 2 * video_num_columns c"
  by (simp add: display_ok_def word_unat_eq_iff unat_word_ariths)

lemma cursor_move:
  assumes "con_okx m c" and "unat (x::u32) \<le> n"
  shows "con_okx n (c\<lparr>con_x := x, pos := origin c + con_y c * video_size_row c + push_bit 1 x\<rparr>)"
  using assms by (simp add: con_okx_def cursor_ok_def)

lemma cr_step: "con_okx m (con s) \<Longrightarrow> video_step m s (upd_con cr s)"
  by (intro video_step_con) (simp_all add: cr_def con_okx_def cursor_ok_def)

lemma back_move:
  assumes "con_okx m c" and "con_x c \<noteq> 0"
  shows "con_okx (m - 1) (c\<lparr>pos := pos c - 2, con_x := con_x c - 1\<rparr>)"
proof -
  have "unat (con_x c - 1) = unat (con_x c) - 1" using assms(2) by (rule unat_minus_one)
  moreover have "pos c - 2 = origin c + con_y c * video_size_row c + push_bit 1 (con_x c - 1)"
    using assms(1) by (simp only: con_okx_def cursor_ok_def push1) (simp add: algebra_simps)
  ultimately show ?thesis using assms(1) by (auto simp: con_okx_def cursor_ok_def)
qed

text \<open>A cell written at the cursor.\<close>

lemma put_cell_step:
  assumes ok: "con_okx m (con s)" and x: "unat (con_x (con s)) < cols (con s)"
  shows "video_step m s (put_short (pos (con s)) v s)"
proof (rule video_step_mem [OF ok])
  let ?c = "con s" and ?l = "org (con s) + rowsize (con s) * unat (con_y (con s))"
  have R: "2 * unat (con_x ?c) + 2 \<le> rowsize ?c" using ok x by (simp add: con_okx_def display_ok_def)
  have p: "pos ?c = of_nat (?l + 2 * unat (con_x ?c))" using ok pos_nat [of m ?c] by (simp add: con_okx_def add.assoc)
  show "kb k (put_short (pos ?c) v s) = kb k s" if k: "k < 4294967296" "\<not> inside ?c k" for k
    using in_line [OF ok R k(2), of "2 * unat (con_x ?c)"] kb_put_short [of "?l + 2 * unat (con_x ?c)" k v s] k(1)
    unfolding p by auto
qed simp

lemma del_step:
  assumes ok: "con_ok (con s)"
  shows "video_step (cols (con s)) s (del s)"
proof (cases "con_x (con s) = 0")
  case True
  then show ?thesis using ok by (simp add: del_def con_ok_def video_step_refl)
next
  case False
  let ?f = "\<lambda>c. c\<lparr>pos := pos c - 2, con_x := con_x c - 1\<rparr>"
  have m: "con_okx (cols (con s) - 1) (?f (con s))" using back_move ok False by (simp only: con_ok_def)
  then have 1: "video_step (cols (con s) - 1) s (upd_con ?f s)" by (intro video_step_con) simp_all
  have "unat (con_x (con (upd_con ?f s))) < cols (con (upd_con ?f s))"
    using con_okx_display(1,6) [OF m] by simp
  then have "video_step (cols (con s)) (upd_con ?f s) (del s)"
    using put_cell_step [of "cols (con s)" "upd_con ?f s"] con_okx_mono [OF m, of "cols (con s)"] False
    by (simp add: del_def Let_def)
  then show ?thesis using video_step_trans [OF 1] by blast
qed

lemma gotoxy_ok:
  assumes "con_ok c"
  shows "con_ok (gotoxy x y c)" and "geometry c (gotoxy x y c)"
  using assms by (auto simp: gotoxy_def con_ok_def con_okx_def cursor_ok_def
      not_less not_le word_le_nat_alt word_less_nat_alt)

section \<open>Printing\<close>

lemma wrap_step:
  assumes ok: "con_okx m (con s)" and x: "cols (con s) \<le> unat (con_x (con s))"
  shows "video_step (m - cols (con s)) s (wrap_line s)"
proof -
  let ?c = "con s" and ?f = "\<lambda>c. c\<lparr>con_x := con_x c - video_num_columns c, pos := pos c - video_size_row c\<rparr>"
  have d: "unat (con_x ?c - video_num_columns ?c) = unat (con_x ?c) - cols ?c" using x by (simp add: sub_word_nat)
  have "pos ?c - video_size_row ?c = origin ?c + con_y ?c * video_size_row ?c + push_bit 1 (con_x ?c - video_num_columns ?c)"
    using ok row_word [of ?c] by (simp only: con_okx_def cursor_ok_def push1) (simp add: algebra_simps)
  moreover have "unat (con_x ?c - video_num_columns ?c) \<le> m - cols ?c" using d con_okx_display(6) [OF ok] by simp
  ultimately have "con_okx (m - cols ?c) (?f ?c)"
    using ok by (simp add: con_okx_def cursor_ok_def)
  then have 1: "video_step (m - cols ?c) s (upd_con ?f s)" by (intro video_step_con) simp_all
  then have "video_step (m - cols ?c) (upd_con ?f s) (wrap_line s)" unfolding wrap_line_def
    by (intro lf_step) (simp add: video_step_def)
  then show ?thesis using video_step_trans [OF 1] by blast
qed

lemma print_step:
  assumes ok: "con_ok (con s)"
  shows "video_step (cols (con s)) s (con_print c s)"
proof -
  define t where "t = (if video_num_columns (con s) \<le> con_x (con s) then wrap_line s else s)"
  let ?C = "cols (con s)"
  have C: "8 \<le> ?C" using ok by (simp add: con_ok_def con_okx_def display_ok_def)
  have "video_step (?C - 1) s t"
  proof (cases "video_num_columns (con s) \<le> con_x (con s)")
    case True
    then have "video_step (?C - ?C) s t" using wrap_step [of ?C s] ok by (simp add: t_def con_ok_def word_le_nat_alt)
    then show ?thesis using con_okx_mono by (auto simp: video_step_def)
  next
    case False
    then have "con_okx (?C - 1) (con s)" using ok by (auto simp: con_ok_def con_okx_def cursor_ok_def word_le_nat_alt)
    then show ?thesis using False by (simp add: t_def video_step_refl)
  qed
  note 1 = this
  then have g: "geometry (con s) (con t)" and ok1: "con_okx (?C - 1) (con t)" by (simp_all add: video_step_def)
  have cg: "cols (con t) = ?C" using g by (simp add: geometry_def)
  let ?u = "put_short (pos (con t)) (push_bit 8 (ucast (attr (con t))) OR ucast c) t"
  have x: "unat (con_x (con t)) < cols (con t)" using con_okx_display(6) [OF ok1] C cg by simp
  have 2: "video_step (?C - 1) t ?u" by (rule put_cell_step [OF ok1 x])
  have "unat (con_x (con t) + 1) = unat (con_x (con t)) + 1"
    using x con_okx_display(2) [OF ok1] unat_add_small [of "con_x (con t)" 1] by simp
  moreover have "pos (con t) + 2 = origin (con t) + con_y (con t) * video_size_row (con t) + push_bit 1 (con_x (con t) + 1)"
    using ok1 by (simp only: con_okx_def cursor_ok_def push1) (simp add: algebra_simps)
  ultimately have "con_okx ?C ((con t)\<lparr>pos := pos (con t) + 2, con_x := con_x (con t) + 1\<rparr>)"
    using ok1 C by (auto simp: con_okx_def cursor_ok_def)
  then have "video_step ?C ?u (upd_con (\<lambda>c. c\<lparr>pos := pos c + 2, con_x := con_x c + 1\<rparr>) ?u)"
    by (intro video_step_con) (simp_all add: geometry_def)
  then have "video_step ?C ?u (con_print c s)" by (simp add: con_print_def t_def [symmetric] Let_def)
  then show ?thesis using video_step_trans [OF 1 video_step_trans [OF 2]] by blast
qed

lemma con_ok_cols: "video_step m s t \<Longrightarrow> m \<le> cols (con s) \<Longrightarrow> video_step (cols (con s)) s t \<and> con_ok (con t)"
  using con_okx_mono by (auto simp: video_step_def con_ok_def geometry_def)

lemma tab_step:
  assumes ok: "con_ok (con s)"
  shows "video_step (cols (con s)) s (con_tab s)"
proof -
  let ?c = "con s" and ?C = "cols (con s)"
  define n where "n = 8 - (con_x ?c AND 7)"
  have okx: "con_okx ?C ?c" using ok by (simp add: con_ok_def)
  note C = con_okx_display [OF okx]
  have "unat (con_x ?c AND 7) \<le> 7" using word_and_le1 [of "con_x ?c" 7] by (simp add: word_le_nat_alt)
  then have n: "unat n \<le> 8" unfolding n_def by (simp add: sub_word_nat)
  then have x: "unat (con_x ?c + n) = unat (con_x ?c) + unat n"
    using C(2,6) unat_add_small [of "con_x ?c" "unat n"] by simp
  let ?f = "\<lambda>c. c\<lparr>con_x := con_x c + n, pos := pos c + push_bit 1 n\<rparr>"
  have "pos ?c + push_bit 1 n = origin ?c + con_y ?c * video_size_row ?c + push_bit 1 (con_x ?c + n)"
    using okx by (simp only: con_okx_def cursor_ok_def push1) (simp add: algebra_simps)
  moreover have "unat (con_x ?c + n) \<le> ?C + 8" using x n C(6) by linarith
  ultimately have f: "con_okx (?C + 8) (?f ?c)" using okx by (simp add: con_okx_def cursor_ok_def)
  then have 1: "video_step (?C + 8) s (upd_con ?f s)" by (intro video_step_con) simp_all
  show ?thesis
  proof (cases "video_num_columns ?c < con_x ?c + n")
    case True
    have "video_step (?C + 8 - ?C) (upd_con ?f s) (wrap_line (upd_con ?f s))"
      using wrap_step [of "?C + 8" "upd_con ?f s"] f True by (simp add: word_less_nat_alt)
    then have "video_step 8 s (con_tab s)"
      using video_step_trans [OF 1] True by (simp add: con_tab_def n_def [symmetric] Let_def)
    then show ?thesis using con_ok_cols C(1) by blast
  next
    case False
    then have "con_okx ?C (?f ?c)" using f by (simp add: con_okx_def cursor_ok_def word_less_nat_alt not_less)
    then show ?thesis using False 1 by (simp add: con_tab_def n_def [symmetric] Let_def video_step_def)
  qed
qed

section \<open>Erasing, inserting and deleting\<close>

text \<open>A run of cells in the line of the cursor.\<close>

lemma stosw_line_step:
  assumes ok: "con_okx m (con s)" and n: "a + 2 * n \<le> rowsize (con s)"
    and p: "p = of_nat (org (con s) + rowsize (con s) * unat (con_y (con s)) + a)"
  shows "video_step m s (stosw 2 n v p s)"
proof (cases "n = 0")
  case False
  let ?l = "org (con s) + rowsize (con s) * unat (con_y (con s))"
  have "kb k (stosw 2 n v p s) = kb k s" if k: "k < 4294967296" "\<not> inside (con s) k" for k
    using in_line [OF ok n k(2), of a] kb_stosw [of "?l + a" n k v s] k(1) False unfolding p by auto
  then show ?thesis by (intro video_step_mem [OF ok]) simp_all
qed (use ok in \<open>simp add: video_step_refl\<close>)

lemma cursor_word:
  assumes "con_okx m c"
  shows "pos c = of_nat (org c + rowsize c * unat (con_y c) + 2 * unat (con_x c))"
    and "pos c - push_bit 1 (con_x c) = of_nat (org c + rowsize c * unat (con_y c) + 0)"
  using pos_nat [of m c] assms by (simp_all add: con_okx_def add.assoc push1)

lemma csi_K_step:
  assumes ok: "con_ok (con s)"
  shows "video_step (cols (con s)) s (csi_K p s)"
proof -
  let ?c = "con s"
  have okx: "con_okx (cols ?c) ?c" using ok by (simp add: con_ok_def)
  note C = con_okx_display [OF okx] and w = cursor_word [OF okx]
  have "unat (video_num_columns ?c - con_x ?c) = cols ?c - unat (con_x ?c)" using C(6) by (simp add: sub_word_nat)
  then have n: "2 * unat (con_x ?c) + 2 * unat (video_num_columns ?c - con_x ?c) \<le> rowsize ?c"
    "0 + 2 * unat (if con_x ?c < video_num_columns ?c then con_x ?c else video_num_columns ?c) \<le> rowsize ?c"
    "0 + 2 * cols ?c \<le> rowsize ?c"
    using C by (simp_all add: word_less_nat_alt)
  show ?thesis
    using stosw_line_step [OF okx n(1) w(1)] stosw_line_step [OF okx n(2) w(2)] stosw_line_step [OF okx n(3) w(2)]
      video_step_refl [OF okx]
    unfolding csi_K_def Let_def by (simp only: split: if_split) simp
qed

lemma insert_char_step:
  assumes ok: "con_ok (con s)"
  shows "video_step (cols (con s)) s (insert_char s)"
proof -
  let ?c = "con s" and ?l = "org (con s) + rowsize (con s) * unat (con_y (con s))"
  have okx: "con_okx (cols ?c) ?c" using ok by (simp add: con_ok_def)
  note C = con_okx_display [OF okx] and w = cursor_word [OF okx]
  define n where "n = cols ?c - unat (con_x ?c)"
  have R: "2 * unat (con_x ?c) + 2 * n \<le> rowsize ?c" using C by (simp add: n_def)
  show ?thesis
  proof (cases "n = 0")
    case False
    have "kb k (shift_right n v (pos ?c) s) = kb k s" if k: "k < 4294967296" "\<not> inside ?c k" for k v
      using in_line [OF okx R k(2), of "2 * unat (con_x ?c)"] kb_shift_right_frame [of "?l + 2 * unat (con_x ?c)" n k v s] k(1) False
      unfolding w(1) by auto
    then show ?thesis unfolding insert_char_def Let_def n_def [symmetric] by (intro video_step_mem [OF okx]) simp_all
  qed (use okx in \<open>simp add: insert_char_def Let_def n_def [symmetric] video_step_refl\<close>)
qed

lemma delete_char_step:
  assumes ok: "con_ok (con s)"
  shows "video_step (cols (con s)) s (delete_char s)"
proof (cases "video_num_columns (con s) \<le> con_x (con s)")
  case True
  then show ?thesis using ok by (simp add: delete_char_def con_ok_def video_step_refl)
next
  case False
  let ?c = "con s" and ?l = "org (con s) + rowsize (con s) * unat (con_y (con s))"
  have okx: "con_okx (cols ?c) ?c" using ok by (simp add: con_ok_def)
  note C = con_okx_display [OF okx] and w = cursor_word [OF okx]
  define n where "n = cols ?c - unat (con_x ?c) - 1"
  have R: "2 * unat (con_x ?c) + 2 * n + 2 \<le> rowsize ?c" using C False by (auto simp: n_def word_le_nat_alt)
  have "kb k (shift_left n v (pos ?c) s) = kb k s" if k: "k < 4294967296" "\<not> inside ?c k" for k v
    using in_line [OF okx R k(2), of "2 * unat (con_x ?c)"] kb_shift_left_frame [of "?l + 2 * unat (con_x ?c)" n k v s] k(1)
    unfolding w(1) by auto
  then show ?thesis using False unfolding delete_char_def Let_def n_def [symmetric]
    by (simp add: video_step_mem [OF okx])
qed

lemma pow_step:
  assumes f: "\<And>s. con_ok (con s) \<Longrightarrow> video_step (cols (con s)) s (f s)" and ok: "con_ok (con s)"
  shows "video_step (cols (con s)) s ((f ^^ n) s)"
proof (induction n)
  case 0
  then show ?case using ok by (simp add: con_ok_def video_step_refl)
next
  case (Suc n)
  then have "con_ok (con ((f ^^ n) s))" "cols (con ((f ^^ n) s)) = cols (con s)"
    by (auto simp: video_step_def con_ok_def geometry_def)
  then show ?case using video_step_trans [OF Suc.IH f] by simp
qed

text \<open>A run of cells of the screen.\<close>

lemma stosw_screen_step:
  assumes ok: "con_okx m (con s)" and n: "a + 2 * n \<le> rowsize (con s) * nlines (con s)" and p: "p = of_nat (org (con s) + a)"
  shows "video_step m s (stosw 2 n v p s)"
proof (rule video_step_mem [OF ok])
  have w: "window_ok (con s)" and d: "display_ok (con s)" using ok by (simp_all add: con_okx_def)
  have "org (con s) + (a + 2 * n) < 4294967296" using w d n by (simp add: window_ok_def display_ok_def)
  moreover have "k < org (con s) \<or> org (con s) + rowsize (con s) * nlines (con s) \<le> k" if "\<not> inside (con s) k" for k
    using that w by (auto simp: window_ok_def inside_def)
  ultimately show "kb k (stosw 2 n v p s) = kb k s" if "k < 4294967296" "\<not> inside (con s) k" for k
    using kb_stosw [of "org (con s) + a" n k v s] n that unfolding p by fastforce
qed simp

lemma csi_J_step:
  assumes ok: "con_ok (con s)"
  shows "video_step (cols (con s)) s (csi_J p s)"
proof -
  let ?c = "con s" and ?q = "rowsize (con s) * unat (con_y (con s)) + 2 * unat (con_x (con s))"
  have okx: "con_okx (cols ?c) ?c" and w: "window_ok ?c" and d: "display_ok ?c" using ok by (simp_all add: con_ok_def con_okx_def)
  note C = con_okx_display [OF okx]
  have q: "?q \<le> rowsize ?c * nlines ?c" using line_end [OF C(5)] C by simp
  have lim: "org ?c + rowsize ?c * nlines ?c < 16777216" using w d by (simp add: window_ok_def display_ok_def)
  have pos: "unat (pos ?c) = org ?c + ?q" "pos ?c = of_nat (org ?c + ?q)"
  proof -
    show "pos ?c = of_nat (org ?c + ?q)" using cursor_word(1) [OF okx] by (simp only: add.assoc)
    moreover have "unat (of_nat (org ?c + ?q) :: u32) = org ?c + ?q" using q lim by (intro unat_of_nat_u32) linarith
    ultimately show "unat (pos ?c) = org ?c + ?q" by (simp only:)
  qed
  have e: "unat (scr_end ?c) = org ?c + rowsize ?c * nlines ?c" using w by (simp add: window_ok_def)
  have half: "2 * unat (drop_bit 1 (w::u32)) \<le> unat w" for w
    using unat_half [of "unat w"] unsigned_less [of w, where 'a = nat] by simp
  have "unat (scr_end ?c - pos ?c) = rowsize ?c * nlines ?c - ?q" "unat (pos ?c - origin ?c) = ?q"
    using q pos(1) e by (simp_all add: sub_word_nat)
  then have n: "?q + 2 * unat (drop_bit 1 (scr_end ?c - pos ?c)) \<le> rowsize ?c * nlines ?c"
    "0 + 2 * unat (drop_bit 1 (pos ?c - origin ?c)) \<le> rowsize ?c * nlines ?c"
    using half [of "scr_end ?c - pos ?c"] half [of "pos ?c - origin ?c"] q by linarith+
  have "cols ?c * nlines ?c \<le> 1000 * 100" using C by (intro mult_le_mono) simp_all
  then have "unat (video_num_columns ?c * video_num_lines ?c) = cols ?c * nlines ?c" by (simp add: unat_word_ariths)
  then have n3: "0 + 2 * unat (video_num_columns ?c * video_num_lines ?c) \<le> rowsize ?c * nlines ?c" using C(3) by simp
  have o: "origin ?c = of_nat (org ?c + 0)" by simp
  show ?thesis
    using stosw_screen_step [OF okx n(1) pos(2)] stosw_screen_step [OF okx n(2) o] stosw_screen_step [OF okx n3 o]
      video_step_refl [OF okx]
    unfolding csi_J_def Let_def by (simp only: split: if_split) simp
qed

text \<open>Scrolling from the line of the cursor down.\<close>

lemma region_ok:
  assumes "con_okx m c"
  shows "con_okx m (c\<lparr>scr_top := con_y c, scr_bottom := video_num_lines c\<rparr>)"
  using assms by (simp add: con_okx_def window_ok_def cursor_ok_def)

lemma region_back:
  assumes "con_okx m d" and "window_ok c" and "geometry c d"
  shows "con_okx m (d\<lparr>scr_top := scr_top c, scr_bottom := scr_bottom c\<rparr>)"
  using assms by (auto simp: con_okx_def window_ok_def cursor_ok_def geometry_def)

lemma with_region_step:
  assumes f: "\<And>t. con_okx (cols (con s)) (con t) \<Longrightarrow> video_step (cols (con s)) t (f t)" and ok: "con_ok (con s)"
  shows "video_step (cols (con s)) s (with_region f s)"
proof -
  let ?c = "con s" and ?g = "\<lambda>c. c\<lparr>scr_top := con_y c, scr_bottom := video_num_lines c\<rparr>"
  have okx: "con_okx (cols ?c) ?c" and w: "window_ok ?c" using ok by (simp_all add: con_ok_def con_okx_def)
  have 1: "video_step (cols ?c) s (upd_con ?g s)" by (intro video_step_con region_ok [OF okx]) simp
  have 2: "video_step (cols ?c) (upd_con ?g s) (f (upd_con ?g s))" by (rule f) (simp add: region_ok [OF okx])
  have 3: "video_step (cols ?c) s (f (upd_con ?g s))" by (rule video_step_trans [OF 1 2])
  then have "video_step (cols ?c) (f (upd_con ?g s)) (with_region f s)" unfolding with_region_def
    by (intro video_step_con region_back [OF _ w]) (simp_all add: video_step_def)
  then show ?thesis using video_step_trans [OF 3] by blast
qed

lemmas line_steps = with_region_step [OF scrdown_step, folded insert_line_def] with_region_step [OF scrup_step, folded delete_line_def]

text \<open>The state of the escape sequence.\<close>

lemma con_ok_upd:
  assumes "con_ok (con s)" and "con_ok (f (con s))" and "geometry (con s) (f (con s))"
  shows "video_step (cols (con s)) s (upd_con f s)"
  using assms by (intro video_step_con) (simp_all add: con_ok_def geometry_def)

lemma con_ok_fields [simp]:
  "con_ok (c\<lparr>con_state := x\<rparr>) = con_ok c" "con_ok (c\<lparr>par := f\<rparr>) = con_ok c" "con_ok (c\<lparr>ques := b\<rparr>) = con_ok c"
  "con_ok (c\<lparr>attr := v\<rparr>) = con_ok c" "con_ok (save_cur c) = con_ok c" "con_ok (set_par i w c) = con_ok c"
  "con_ok (atleast1 c) = con_ok c" "con_ok (lower i c) = con_ok c"
  by (simp_all add: con_ok_def con_okx_def cursor_ok_def save_cur_def set_par_def atleast1_def lower_def)

lemma geometry_par [simp]: "geometry d (set_par i w c) = geometry d c" "geometry d (atleast1 c) = geometry d c"
  "geometry d (lower i c) = geometry d c" "geometry d (save_cur c) = geometry d c"
  by (simp_all add: save_cur_def set_par_def atleast1_def lower_def)

lemma csi_m_ok: "con_ok c \<Longrightarrow> con_ok (csi_m c) \<and> geometry c (csi_m c)"
  unfolding csi_m_def by (rule fold_invariant [where Q = "\<lambda>_. True"]) simp_all

lemma set_region_ok:
  assumes "con_ok c"
  shows "con_ok (set_region c) \<and> geometry c (set_region c)"
proof -
  define d where "d = (if par (lower 0 c) 1 = 0 then set_par 1 (video_num_lines (lower 0 c)) (lower 0 c) else lower 0 c)"
  have d: "con_ok d" "geometry c d" using assms by (simp_all add: d_def)
  have "con_ok (if par d 0 < par d 1 \<and> par d 1 \<le> video_num_lines d then d\<lparr>scr_top := par d 0, scr_bottom := par d 1\<rparr> else d)"
    using d by (simp add: con_ok_def con_okx_def window_ok_def cursor_ok_def word_less_nat_alt word_le_nat_alt)
  then show ?thesis using d unfolding set_region_def Let_def d_def [symmetric] by simp
qed

section \<open>The characters\<close>

lemma gotoxy_step:
  assumes "con_ok (con s)" and "con_ok (g (con s))" and "geometry (con s) (g (con s))"
  shows "video_step (cols (con s)) s (upd_con (\<lambda>c. let c = g c in gotoxy (x c) (y c) c) s)"
  using assms gotoxy_ok [OF assms(2)] by (intro con_ok_upd) (auto simp: Let_def intro: geometry_trans)

lemma state_step: "con_ok (con s) \<Longrightarrow> video_step (cols (con s)) s (upd_con (\<lambda>c. c\<lparr>con_state := x\<rparr>) s)"
  by (intro con_ok_upd) simp_all

lemma seq_step:
  assumes "video_step (cols (con s)) s t" and "con_ok (con t) \<Longrightarrow> video_step (cols (con t)) t u"
  shows "video_step (cols (con s)) s u"
proof -
  have c: "cols (con t) = cols (con s)" "con_ok (con t)" using assms(1) by (auto simp: video_step_def con_ok_def geometry_def)
  then show ?thesis using video_step_trans [OF assms(1)] assms(2) by simp
qed

lemma csi_m_step: "con_ok (con s) \<Longrightarrow> video_step (cols (con s)) s (upd_con csi_m s)"
  using csi_m_ok [of "con s"] by (intro con_ok_upd) simp_all

lemma set_region_step: "con_ok (con s) \<Longrightarrow> video_step (cols (con s)) s (upd_con set_region s)"
  using set_region_ok [of "con s"] by (intro con_ok_upd) simp_all

lemma restore_step: "con_ok (con s) \<Longrightarrow> video_step (cols (con s)) s (upd_con restore_cur s)"
  using gotoxy_ok [of "con s"] unfolding restore_cur_def [abs_def] by (intro con_ok_upd) simp_all

lemma save_step: "con_ok (con s) \<Longrightarrow> video_step (cols (con s)) s (upd_con save_cur s)"
  by (intro con_ok_upd) simp_all

lemma stay_step: "con_ok (con s) \<Longrightarrow> video_step (cols (con s)) s s"
  by (simp add: con_ok_def video_step_refl)

lemma step_if: "video_step m s t \<Longrightarrow> video_step m s u \<Longrightarrow> video_step m s (if b then t else u)"
  by simp

lemma con_csi_step:
  assumes ok: "con_ok (con s)"
  shows "video_step (cols (con s)) s (con_csi c s)"
proof -
  let ?t = "upd_con (\<lambda>c. c\<lparr>con_state := 0\<rparr>) s"
  have t: "con_ok (con ?t)" using ok by simp
  note ops = csi_J_step [OF t] csi_K_step [OF t] pow_step [OF line_steps(1) t] pow_step [OF line_steps(2) t]
    pow_step [OF delete_char_step t] pow_step [OF insert_char_step t] csi_m_step [OF t] set_region_step [OF t]
    restore_step [OF t] save_step [OF t] stay_step [OF t]
  have moves: "video_step (cols (con ?t)) ?t (upd_con (\<lambda>c. let c = lower 0 c in gotoxy (x c) (y c) c) ?t)"
    "video_step (cols (con ?t)) ?t (upd_con (\<lambda>c. let c = atleast1 c in gotoxy (x c) (y c) c) ?t)"
    "video_step (cols (con ?t)) ?t (upd_con (\<lambda>c. let c = lower 1 (lower 0 c) in gotoxy (x c) (y c) c) ?t)" for x y
    using t by (intro gotoxy_step; simp)+
  have "video_step (cols (con ?t)) ?t (con_csi c s)"
    unfolding con_csi_def Let_def [of ?t] Let_def [of "par (con ?t) 0"] csi_L_def csi_M_def csi_P_def csi_at_def
    by (intro step_if ops moves)
  then show ?thesis using seq_step [OF state_step [OF ok]] by blast
qed

lemma back_step:
  assumes ok: "con_ok (con s)" and x: "con_x (con s) \<noteq> 0"
  shows "video_step (cols (con s)) s (upd_con (\<lambda>c. c\<lparr>con_x := con_x c - 1, pos := pos c - 2\<rparr>) s)"
proof -
  have "con_okx (cols (con s) - 1) ((con s)\<lparr>pos := pos (con s) - 2, con_x := con_x (con s) - 1\<rparr>)"
    using back_move ok x by (simp only: con_ok_def)
  then have "con_okx (cols (con s)) ((con s)\<lparr>pos := pos (con s) - 2, con_x := con_x (con s) - 1\<rparr>)"
    by (rule con_okx_mono) simp
  then have "con_okx (cols (con s)) ((con s)\<lparr>con_x := con_x (con s) - 1, pos := pos (con s) - 2\<rparr>)"
    by (simp add: con_okx_def cursor_ok_def)
  then show ?thesis by (intro video_step_con) simp_all
qed

lemma beep_step: "con_ok (con s) \<Longrightarrow> video_step (cols (con s)) s (sysbeep s)"
  by (simp add: con_ok_def video_step_def)

lemma con_okI: "con_ok (con s) \<Longrightarrow> con_okx (cols (con s)) (con s)"
  by (simp add: con_ok_def)

lemma con_normal_step:
  assumes ok: "con_ok (con s)"
  shows "video_step (cols (con s)) s (con_normal c s)"
proof -
  have bs: "video_step (cols (con s)) s
      (if con_x (con s) \<noteq> 0 then upd_con (\<lambda>c. c\<lparr>con_x := con_x c - 1, pos := pos c - 2\<rparr>) s else s)"
    using back_step [OF ok] stay_step [OF ok] by simp
  show ?thesis unfolding con_normal_def
    by (intro bs step_if print_step [OF ok] state_step [OF ok] lf_step cr_step del_step [OF ok] tab_step [OF ok]
        beep_step [OF ok] stay_step [OF ok] con_okI [OF ok])
qed

lemma con_param_step:
  assumes ok: "con_ok (con s)"
  shows "video_step (cols (con s)) s (con_param c s)"
proof -
  have "video_step (cols (con s)) s (upd_con (\<lambda>k. k\<lparr>npar := npar k + 1\<rparr>) s)" if "npar (con s) < 15"
  proof -
    have "unat (npar (con s) + 1) = unat (npar (con s)) + 1" "unat (npar (con s)) < 15"
      using that unat_add_small [of "npar (con s)" 1] by (simp_all add: word_less_nat_alt)
    then show ?thesis using ok by (intro con_ok_upd) (simp_all add: con_ok_def con_okx_def cursor_ok_def)
  qed
  moreover have "video_step (cols (con s)) s (upd_con (\<lambda>k. set_par (unat (npar k)) (10 * par k (unat (npar k)) + ucast c - 48) k) s)"
    using ok by (intro con_ok_upd) simp_all
  moreover have "video_step (cols (con s)) s (con_csi c (upd_con (\<lambda>k. k\<lparr>con_state := 4\<rparr>) s))"
    using seq_step [OF state_step [OF ok, of 4]] con_csi_step by blast
  ultimately show ?thesis unfolding con_param_def by simp
qed

text \<open>The answer to ESC Z is the only character that needs the line discipline.\<close>

definition screen_fun :: "('a tty_state_scheme \<Rightarrow> ('a tty_state_scheme, unit) outcome) \<Rightarrow> bool" where
  "screen_fun f \<longleftrightarrow> (\<forall>s. con_ok (con s) \<longrightarrow> lets (f s) (\<lambda>_. video_step (cols (con s)) s))"

lemma returns_if: "(b \<Longrightarrow> returns m P) \<Longrightarrow> (\<not> b \<Longrightarrow> returns n P) \<Longrightarrow> returns (if b then m else n) P"
  by simp

lemma returns_Ret: "P a s \<Longrightarrow> returns (Ret a s) P"
  by simp

lemma con_escape_step:
  assumes ok: "con_ok (con s)" and Z: "c \<noteq> ch CHR ''Z''"
  shows "returns (con_escape cooked c s) (\<lambda>_. video_step (cols (con s)) s)"
proof -
  let ?t = "upd_con (\<lambda>c. c\<lparr>con_state := 0\<rparr>) s"
  have t: "con_ok (con ?t)" using ok by simp
  have "video_step (cols (con ?t)) ?t (upd_con (\<lambda>c. gotoxy 0 (con_y c + 1) c) ?t)"
    using gotoxy_ok [OF t] by (intro con_ok_upd t) simp_all
  then have "returns (con_escape cooked c s) (\<lambda>_. video_step (cols (con ?t)) ?t)"
    unfolding con_escape_def Let_def if_not_P [OF Z]
    by (intro returns_if returns_Ret state_step [OF t] ri_step [OF con_okI [OF t]] lf_step [OF con_okI [OF t]]
        save_step [OF t] restore_step [OF t] stay_step [OF t])
  then show ?thesis by (rule returns_mono) (rule seq_step [OF state_step [OF ok]])
qed

lemma con_char_step:
  assumes ok: "con_ok (con s)" and Z: "con_state (con s) = 1 \<Longrightarrow> c \<noteq> ch CHR ''Z''"
  shows "returns (con_char cooked c s) (\<lambda>_. video_step (cols (con s)) s)"
proof -
  let ?g = "\<lambda>k. k\<lparr>par := (\<lambda>i. if i < 16 then 0 else par k i), npar := 0, con_state := 3, ques := (c = ch CHR ''?'')\<rparr>"
  have g: "video_step (cols (con s)) s (upd_con ?g s)"
    using ok by (intro con_ok_upd) (simp_all add: con_ok_def con_okx_def cursor_ok_def)
  have "video_step (cols (con s)) s (if c = ch CHR ''?'' then upd_con ?g s else con_param c (upd_con ?g s))"
    by (intro step_if g seq_step [OF g con_param_step])
  then show ?thesis unfolding con_char_def Let_def
    by (intro returns_if returns_Ret con_normal_step [OF ok] con_escape_step [OF ok] Z con_param_step [OF ok]
        con_csi_step [OF ok] stay_step [OF ok])
qed

lemma getch_step: "con_ok (con s) \<Longrightarrow> video_step (cols (con s)) s (upd_tty f s)"
  by (simp add: video_step_def con_ok_def)

text \<open>What the characters leave alone of the terminal.\<close>

lemma tty_frame [simp]:
  "con_tty (set_origin s) = con_tty s" "con_tty (scrup s) = con_tty s" "con_tty (lf s) = con_tty s" "con_tty (ri s) = con_tty s"
  by (simp_all add: set_origin_def scrup_def lf_def ri_def Let_def)

lemma tty_frame_ops [simp]:
  "con_tty (del s) = con_tty s" "con_tty (csi_J p s) = con_tty s" "con_tty (csi_K p s) = con_tty s"
  "con_tty (insert_char s) = con_tty s" "con_tty (insert_line s) = con_tty s" "con_tty (delete_char s) = con_tty s"
  "con_tty (delete_line s) = con_tty s" "con_tty (wrap_line s) = con_tty s" "con_tty (con_print c s) = con_tty s"
  "con_tty (con_tab s) = con_tty s"
  by (simp_all add: del_def csi_J_def csi_K_def insert_char_def insert_line_def delete_char_def delete_line_def with_region_def
      wrap_line_def con_print_def con_tab_def Let_def)

lemma tty_frame_pow:
  fixes f :: "'a tty_state_scheme \<Rightarrow> 'a tty_state_scheme"
  shows "(\<And>s. con_tty (f s) = con_tty s) \<Longrightarrow> con_tty ((f ^^ n) s) = con_tty s"
  by (induction n) simp_all

lemma tty_frame_csi [simp]: "con_tty (con_csi c s) = con_tty s"
  unfolding con_csi_def Let_def csi_L_def csi_M_def csi_P_def csi_at_def by (simp add: tty_frame_pow)

lemma tty_frame_char [simp]: "con_tty (con_normal c s) = con_tty s" "con_tty (con_param c s) = con_tty s"
  by (simp_all add: con_normal_def con_param_def)

lemma con_char_tty:
  assumes "c \<noteq> ch CHR ''Z''"
  shows "lets (con_char cooked c s) (\<lambda>_ t. con_tty t = con_tty s)"
  using assms by (simp add: con_char_def con_escape_def Let_def)

lemma con_loop_step:
  assumes "con_ok (con s)" and "q_ok (write_q (con_tty s))" and "n \<le> q_len (write_q (con_tty s))"
    and "\<forall>c \<in> set (take n (q_list (write_q (con_tty s)))). c \<noteq> ch CHR ''Z''"
  shows "returns (con_loop cooked n s) (\<lambda>_. video_step (cols (con s)) s)"
  using assms
proof (induction n arbitrary: s)
  case 0
  then show ?case by (simp add: stay_step)
next
  case (Suc n)
  let ?q = "write_q (con_tty s)"
  let ?t = "upd_tty (\<lambda>t. t\<lparr>write_q := snd (GETCH (write_q t))\<rparr>) s"
  have q: "q_list ?q = fst (GETCH ?q) # q_list (snd (GETCH ?q))" "q_ok (snd (GETCH ?q))"
    using GETCH_list [of ?q] Suc.prems by simp_all
  then have l: "q_len ?q = Suc (q_len (snd (GETCH ?q)))" by (metis length_Cons length_q_list)
  have Z: "fst (GETCH ?q) \<noteq> ch CHR ''Z''" using Suc.prems(4) q by simp
  have t: "con_ok (con ?t)" using Suc.prems by simp
  obtain u where u: "con_char cooked (fst (GETCH ?q)) ?t = Ret () u" "video_step (cols (con s)) ?t u"
    using con_char_step [OF t Z, of cooked] by (auto elim!: returnsE)
  have tty: "con_tty u = con_tty ?t" using con_char_tty [OF Z, of cooked ?t] u(1) by simp
  have "con_ok (con u)" using u(2) by (auto simp: video_step_def con_ok_def geometry_def)
  then have "returns (con_loop cooked n u) (\<lambda>_. video_step (cols (con u)) u)"
    using q l Suc.prems by (intro Suc.IH) (auto simp: tty)
  moreover have "video_step (cols (con s)) s u"
    using seq_step [OF getch_step [OF Suc.prems(1)]] u(2) by simp
  ultimately have "returns (con_loop cooked n u) (\<lambda>_. video_step (cols (con s)) s)"
    by (rule returns_mono [OF _ seq_step])
  then show ?case using u(1) by simp
qed

section \<open>The line discipline\<close>

lemma tty_intr_con: "con (tty_intr m s) = con s \<and> (\<forall>k. kb k (tty_intr m s) = kb k s)"
proof (cases "tty_pgrp s 0 \<le>s 0")
  case False
  then show ?thesis unfolding tty_intr_def
    by (simp only: if_False) (rule fold_invariant [where Q = "\<lambda>_. True"], auto simp: kb_def upd_task_def get_kbyte_def)
qed (simp add: tty_intr_def)

lemma wake_up_con: "con (wake_up g s) = con s \<and> (\<forall>k. kb k (wake_up g s) = kb k s)"
  by (simp add: wake_up_def kb_def upd_task_def get_kbyte_def)

text \<open>What \<open>con_write\<close> and \<open>copy_to_cooked\<close> promise each other.\<close>

locale screen_client =
  fixes f :: "'a tty_state_scheme \<Rightarrow> ('a tty_state_scheme, unit) outcome"
  assumes keeps: "con_ok (con s) \<Longrightarrow> lets (f s) (\<lambda>_. video_step (cols (con s)) s)"
begin

lemma then_keeps: "video_step (cols (con s)) s t \<Longrightarrow> con_ok (con t) \<Longrightarrow> lets (f t) (\<lambda>_. video_step (cols (con s)) s)"
  by (rule lets_mono [OF keeps]) (auto intro: seq_step)

lemma char_keeps:
  assumes ok: "con_ok (con s)"
  shows "lets (con_char f c s) (\<lambda>_. video_step (cols (con s)) s)"
proof (cases "c = ch CHR ''Z'' \<and> con_state (con s) = 1")
  case True
  have [simp]: "ch CHR ''Z'' \<noteq> ch CHR ''[''" "ch CHR ''Z'' \<noteq> ch CHR ''E''" "ch CHR ''Z'' \<noteq> ch CHR ''M''" "ch CHR ''Z'' \<noteq> ch CHR ''D''"
    by (simp_all add: ch_def)
  have "video_step (cols (con s)) s (upd_tty g (upd_con (\<lambda>c. c\<lparr>con_state := 0\<rparr>) s))" for g
    using state_step [OF ok, of 0] by (simp add: video_step_def)
  then show ?thesis using True ok by (simp add: con_char_def con_escape_def respond_def Let_def then_keeps)
next
  case False
  then show ?thesis using con_char_step [OF ok, of c f] by (intro returns_lets) blast
qed

lemma loop_keeps: "con_ok (con s) \<Longrightarrow> lets (con_loop f n s) (\<lambda>_. video_step (cols (con s)) s)"
proof (induction n arbitrary: s)
  case 0
  then show ?case by (simp add: stay_step)
next
  case (Suc n)
  let ?t = "upd_tty (\<lambda>t. t\<lparr>write_q := snd (GETCH (write_q t))\<rparr>) s"
  have "con_ok (con ?t)" using Suc.prems by simp
  from char_keeps [OF this] have 1: "lets (con_char f (fst (GETCH (write_q (con_tty s)))) ?t) (\<lambda>_. video_step (cols (con s)) ?t)" by simp
  have "lets (con_loop f n u) (\<lambda>_. video_step (cols (con s)) s)" if u: "video_step (cols (con s)) ?t u" for u
  proof -
    have su: "video_step (cols (con s)) s u" using seq_step [OF getch_step [OF Suc.prems]] u by simp
    then have "con_ok (con u)" by (auto simp: video_step_def con_ok_def geometry_def)
    then show ?thesis by (rule lets_mono [OF Suc.IH seq_step [OF su]])
  qed
  then show ?case using 1 by (auto elim!: lets_mono)
qed

lemma write_keeps: "con_ok (con s) \<Longrightarrow> lets (con_write_with f s) (\<lambda>_. video_step (cols (con s)) s)"
  unfolding con_write_with_def lets_andThen
  by (rule lets_mono [OF loop_keeps]) (simp_all add: set_cursor_def video_step_def)

lemma quiet_keeps: "con_ok (con s) \<Longrightarrow> lets (Ret () s) (\<lambda>_. video_step (cols (con s)) s)"
  by (simp add: stay_step)

lemma bind_keeps:
  assumes m: "lets m (\<lambda>_. video_step (cols (con s)) s)"
    and g: "\<And>a t. con_ok (con t) \<Longrightarrow> lets (g a t) (\<lambda>_. video_step (cols (con t)) t)"
  shows "lets (andThen m g) (\<lambda>_. video_step (cols (con s)) s)"
proof -
  have "lets (g a t) (\<lambda>_. video_step (cols (con s)) s)" if "video_step (cols (con s)) s t" for a t
    by (rule lets_mono [OF g seq_step [OF that]]) (use that in \<open>auto simp: video_step_def con_ok_def geometry_def\<close>)
  then show ?thesis using m by (auto elim!: lets_mono)
qed

lemma upd_keeps: "con_ok (con s) \<Longrightarrow> lets (Ret () (upd_tty g s)) (\<lambda>_. video_step (cols (con s)) s)"
  by (simp add: getch_step)

lemma echo_keeps: "con_ok (con s) \<Longrightarrow> lets (if b then f (put_write cs s) else Ret () s) (\<lambda>_. video_step (cols (con s)) s)"
  unfolding put_write_def using then_keeps [OF getch_step] stay_step [of s] by (cases b) simp_all

lemma rub_out_keeps: "con_ok (con s) \<Longrightarrow> lets (rub_out f s) (\<lambda>_. video_step (cols (con s)) s)"
  unfolding rub_out_def by (intro bind_keeps echo_keeps upd_keeps)

lemma kill_line_keeps: "con_ok (con s) \<Longrightarrow> lets (kill_line f n s) (\<lambda>_. video_step (cols (con s)) s)"
proof (induction n arbitrary: s)
  case (Suc n)
  have "lets (andThen (rub_out f s) (\<lambda>_ s. kill_line f n s)) (\<lambda>_. video_step (cols (con s)) s)"
    by (intro bind_keeps rub_out_keeps Suc.IH Suc.prems)
  then show ?case using quiet_keeps [OF Suc.prems] by simp
qed simp

lemma cook_char_keeps: "con_ok (con s) \<Longrightarrow> lets (cook_char f c s) (\<lambda>_. video_step (cols (con s)) s)"
proof -
  assume ok: "con_ok (con s)"
  define u where "u = (if c = 10 \<or> is_EOF (con_tty s) c
               then upd_tty (\<lambda>t. t\<lparr>secondary := (secondary t)\<lparr>q_data := q_data (secondary t) + 1\<rparr>\<rparr>) s else s)"
  have u: "video_step (cols (con s)) s u" "con_ok (con u)" using getch_step [OF ok] stay_step [OF ok] ok by (auto simp: u_def)
  have "lets (cook_char f c s) (\<lambda>_. video_step (cols (con u)) u)"
    unfolding cook_char_def Let_def u_def [symmetric] by (intro bind_keeps echo_keeps upd_keeps u)
  then show ?thesis by (rule lets_mono) (use u(1) in \<open>auto intro: seq_step\<close>)
qed

lemma cook_step_keeps: "con_ok (con s) \<Longrightarrow> lets (cook_step f n c s) (\<lambda>_. video_step (cols (con s)) s)"
proof -
  assume ok: "con_ok (con s)"
  have "video_step (cols (con s)) s (tty_intr m s)" for m
    using tty_intr_con [of m s] ok by (simp add: video_step_def con_ok_def)
  then have "lets (Ret () (tty_intr m s)) (\<lambda>_. video_step (cols (con s)) s)" for m by simp
  then show ?thesis unfolding cook_step_def Let_def
    by (simp only: kill_line_keeps [OF ok] rub_out_keeps [OF ok] cook_char_keeps [OF ok] quiet_keeps [OF ok] upd_keeps [OF ok]
        split: if_split) blast
qed

lemma cook_loop_keeps: "con_ok (con s) \<Longrightarrow> lets (cook_loop f m n s) (\<lambda>_. video_step (cols (con s)) s)"
proof (induction n arbitrary: s)
  case (Suc n)
  let ?t = "upd_tty (\<lambda>t. t\<lparr>read_q := snd (GETCH (read_q t))\<rparr>) s"
  have t: "video_step (cols (con s)) s ?t" "con_ok (con ?t)" using getch_step Suc.prems by simp_all
  have more: "lets (cook_loop f m n ?t) (\<lambda>_. video_step (cols (con s)) s)"
    by (rule lets_mono [OF Suc.IH [OF t(2)]]) (use t(1) in \<open>auto intro: seq_step\<close>)
  have "lets (andThen (cook_step f m c ?t) (\<lambda>_ s. cook_loop f m n s)) (\<lambda>_. video_step (cols (con s)) s)" for c
    by (rule lets_mono [OF bind_keeps [OF cook_step_keeps [OF t(2)] Suc.IH]]) (use t(1) in \<open>auto intro: seq_step\<close>)
  then show ?case using more quiet_keeps [OF Suc.prems] by (simp add: Let_def del: lets_andThen split: option.split)
qed simp

lemma cooked_keeps: "con_ok (con s) \<Longrightarrow> lets (copy_to_cooked_with f n s) (\<lambda>_. video_step (cols (con s)) s)"
  unfolding copy_to_cooked_with_def
  by (rule bind_keeps [OF cook_loop_keeps]) (simp_all add: wake_up_con video_step_def con_ok_def)

end

text \<open>The two functions of the kernel keep the promise, at every depth of their nesting.\<close>

lemma con_write_screen: "screen_client (con_write d n :: 'a tty_state_scheme \<Rightarrow> _)"
proof (induction d)
  case (Suc d)
  have "screen_client (copy_to_cooked_with (con_write d n) n :: 'a tty_state_scheme \<Rightarrow> _)"
    using screen_client.cooked_keeps [OF Suc] by (simp add: screen_client_def)
  from screen_client.write_keeps [OF this] show ?case by (simp add: screen_client_def)
qed (simp add: screen_client_def)

interpretation screen: screen_client "con_write d n" for d n
  by (rule con_write_screen)

interpretation cooked: screen_client "copy_to_cooked d n" for d n
  unfolding copy_to_cooked_def [abs_def] by unfold_locales (rule screen.cooked_keeps)

text \<open>C32: whatever a process writes to the terminal, the variables of the console stay consistent (the cursor on the
  screen or just behind its line, the window in the video memory, a scrolling region of at least one line, at most 16
  parameters), and no byte outside the video memory is changed; the nested calls for an answer to ESC Z and its echo
  included. Without a Z in the queue there is no nesting, and \<open>con_write\<close> returns.\<close>

theorem con_write_bounds:
  assumes ok: "con_ok (con s)"
  shows "lets (con_write d n s) (\<lambda>_ t. con_ok (con t) \<and> (\<forall>k < 4294967296. \<not> inside (con s) k \<longrightarrow> kb k t = kb k s)) \<and>
    (q_ok (write_q (con_tty s)) \<and> ch CHR ''Z'' \<notin> set (q_list (write_q (con_tty s))) \<and> 0 < d \<longrightarrow>
      returns (con_write d n s) (\<lambda>_ t. con_ok (con t) \<and> (\<forall>k < 4294967296. \<not> inside (con s) k \<longrightarrow> kb k t = kb k s)))"
proof -
  have step: "con_ok (con t) \<and> (\<forall>k < 4294967296. \<not> inside (con s) k \<longrightarrow> kb k t = kb k s)" if "video_step (cols (con s)) s t" for t
    using that by (auto simp: video_step_def con_ok_def geometry_def)
  have "returns (con_write d n s) (\<lambda>_. video_step (cols (con s)) s)"
    if q: "q_ok (write_q (con_tty s))" and Z: "ch CHR ''Z'' \<notin> set (q_list (write_q (con_tty s)))" and "0 < d"
  proof -
    obtain e where d: "d = Suc e" using \<open>0 < d\<close> gr0_implies_Suc by blast
    have "returns (con_loop (copy_to_cooked_with (con_write e n) n) (q_len (write_q (con_tty s))) s) (\<lambda>_. video_step (cols (con s)) s)"
      using Z by (intro con_loop_step [OF ok q]) auto
    then show ?thesis unfolding d con_write.simps con_write_with_def CHARS_len [OF q] returns_andThen
      by (rule returns_mono) (simp add: set_cursor_def video_step_def)
  qed
  then show ?thesis using step by (auto intro: lets_mono [OF screen.keeps [OF ok]] elim!: returns_mono)
qed

section \<open>An example\<close>

text \<open>A colour display of 25 lines of 80 characters with the cursor in the last line, and a letter and a newline to write.\<close>

definition vga :: console where
  "vga = \<lparr>video_type = 0x21, video_num_columns = 80, video_size_row = 160, video_num_lines = 25, video_page = 0,
     video_mem_start = 0xb8000, video_mem_end = 0xbc000, video_port_reg = 0x3d4, video_port_val = 0x3d5,
     video_erase_char = 0x0720, origin = 0xb8000, scr_end = 0xb8fa0, pos = 0xb8f00, con_x = 0, con_y = 24,
     scr_top = 0, scr_bottom = 25, con_state = 0, npar = 0, par = (\<lambda>_. 0), ques = False, attr = 7,
     saved_x = 0, saved_y = 0\<rparr>"

definition empty_queue :: tty_queue where
  "empty_queue = \<lparr>q_data = 0, q_head = 0, q_tail = 0, q_wait = 0, q_buf = (\<lambda>_. 0)\<rparr>"

definition cooked_modes :: termios_struct where
  "cooked_modes = \<lparr>c_iflag = 0x100, c_oflag = 5, c_cflag = 0, c_lflag = 0xA0B, c_line = 0,
     c_cc = (\<lambda>i. [3, 28, 127, 21, 4, 0, 1, 0, 17, 19, 26, 0, 18, 15, 23, 22, 0] ! i), c_pad = (\<lambda>_. 0)\<rparr>"

definition vga_tty :: tty_state where
  "vga_tty = fs_state.extend empty_fs
     \<lparr>con = vga, con_tty = \<lparr>termios = cooked_modes, stopped = 0, read_q = empty_queue,
        write_q = empty_queue\<lparr>q_head := 2, q_buf := (\<lambda>_. 10)(0 := 65)\<rparr>, secondary = empty_queue\<rparr>,
      cr_flag = False, ctype_before = (\<lambda>_. 0)\<rparr>"

lemma vga_tty_simps [simp]:
  "con vga_tty = vga" "write_q (con_tty vga_tty) = empty_queue\<lparr>q_head := 2, q_buf := (\<lambda>_. 10)(0 := 65)\<rparr>"
  "read_q (con_tty vga_tty) = empty_queue" "secondary (con_tty vga_tty) = empty_queue"
  "termios (con_tty vga_tty) = cooked_modes" "cr_flag vga_tty = False"
  by (simp_all add: vga_tty_def fs_state.defs)

lemma vga_ok: "display_ok vga" "window_ok vga" "con_ok vga"
  by (simp_all add: con_ok_def con_okx_def display_ok_def window_ok_def cursor_ok_def vga_def)

theorem scrolling_picture_witness: "picture (scrup vga_tty) ! 24 = replicate 80 0x0720"
proof -
  have "picture (scrup vga_tty) = scroll_up 0 25 (replicate 80 0x0720) (picture vga_tty)"
    using scrolling_picture [of vga_tty] vga_ok(1,2) by (simp add: blank_line_def vga_def)
  moreover have "length (picture vga_tty) = 25" by (simp add: picture_def vga_def)
  ultimately show ?thesis by (simp add: scroll_up_nth)
qed

theorem con_write_bounds_witness: "\<exists>t. con_write 1 1 vga_tty = Ret () t \<and> con_ok (con t)"
proof -
  have q: "q_ok (write_q (con_tty vga_tty))" "q_len (write_q (con_tty vga_tty)) = 2"
    by (simp_all add: q_ok_def q_len_def empty_queue_def)
  have "q_list (write_q (con_tty vga_tty)) = [65, 10]"
    unfolding q_list_def q(2) by (simp add: upt_rec empty_queue_def)
  then have "ch CHR ''Z'' \<notin> set (q_list (write_q (con_tty vga_tty)))" by (simp add: ch_def)
  then show ?thesis using con_write_bounds [of vga_tty 1 1] vga_ok(3) q(1) by (auto elim!: returnsE)
qed

end
