(* ===== verification/Tty_Properties.thy ===== *)
theory Tty_Properties
  imports Console_Bounds
begin

text \<open>
  The line discipline: what \<open>copy_to_cooked\<close> makes of the characters in the read queue, against editing a line as a list,
  and what \<open>tty_write\<close> puts into the write queue.
\<close>

section \<open>What the console leaves alone\<close>

lemma tty_intr_frame:
  "con (tty_intr m s) = con s \<and> con_tty (tty_intr m s) = con_tty s \<and> ctype_before (tty_intr m s) = ctype_before s"
proof -
  let ?f = "\<lambda>i s. if task s i \<noteq> 0 \<and> pgrp (tasks s (task s i)) = tty_pgrp s 0
      then upd_task (task s i) (\<lambda>t. t\<lparr>signal := signal t OR m\<rparr>) s else s"
  have "con (fold ?f is s) = con s \<and> con_tty (fold ?f is s) = con_tty s \<and> ctype_before (fold ?f is s) = ctype_before s" for "is"
    by (induction "is" arbitrary: s) (simp_all add: upd_task_def)
  then show ?thesis by (simp add: tty_intr_def)
qed

lemma put_kbytes_before [simp]: "ctype_before (put_kbytes a vs s) = ctype_before s"
  by (induction vs arbitrary: a s) (simp_all add: put_kbyte_def Let_def)

lemma put_short_before [simp]: "ctype_before (put_short a v s) = ctype_before s"
  by (simp add: put_short_def put_kbyte_def Let_def)

lemma stosw_before [simp]: "ctype_before (stosw d n v a s) = ctype_before s"
  by (induction n arbitrary: a s) simp_all

lemma movsl_before [simp]: "ctype_before (movsl d n i j s) = ctype_before s"
  by (induction n arbitrary: i j s) simp_all

lemma upd_before [simp]: "ctype_before (upd_con f s) = ctype_before s" "ctype_before (upd_tty g s) = ctype_before s"
  "ctype_before (out_video r d s) = ctype_before s" "ctype_before (sysbeep s) = ctype_before s"
  by (simp_all add: upd_con_def upd_tty_def out_video_def outb_def sysbeep_def Let_def)

lemma scroll_before [simp]: "ctype_before (scrup s) = ctype_before s" "ctype_before (lf s) = ctype_before s"
  by (simp_all add: scrup_def move_up_def set_origin_def lf_def Let_def)

lemma scroll_state [simp]: "con_state (con (scrup s)) = con_state (con s)" "con_state (con (lf s)) = con_state (con s)"
  by (simp_all add: scrup_def set_origin_def lf_def slide_def Let_def)

text \<open>A character in state 0 other than ESC.\<close>

lemma con_normal_frame:
  assumes "c \<noteq> 27"
  shows "con_state (con (con_normal c s)) = con_state (con s)" and "ctype_before (con_normal c s) = ctype_before s"
  using assms by (simp_all add: con_normal_def con_print_def con_tab_def wrap_line_def del_def cr_def Let_def)

lemma wake_up_frame: "con (wake_up g s) = con s" "con_tty (wake_up g s) = con_tty s"
  by (simp_all add: wake_up_def upd_task_def)

section \<open>Editing a line as a list\<close>

definition line_break :: "tty_struct \<Rightarrow> u8 \<Rightarrow> bool" where
  "line_break t c \<longleftrightarrow> c = 10 \<or> is_EOF t c"

definition kill :: "tty_struct \<Rightarrow> u8 list \<Rightarrow> u8 list" where
  "kill t cs = rev (dropWhile (\<lambda>c. \<not> line_break t c) (rev cs))"

text \<open>The line after one more character was typed.\<close>

definition edit :: "tty_struct \<Rightarrow> u8 list \<Rightarrow> u8 \<Rightarrow> u8 list" where
  "edit t cs c =
     (if L_CANON t \<and> is_KILL t c then kill t cs
      else if L_CANON t \<and> is_ERASE t c then (if cs = [] \<or> line_break t (last cs) then cs else butlast cs)
      else if L_CANON t \<and> (is_STOP t c \<or> is_START t c) then cs
      else if L_ISIG t \<and> (is_INTR t c \<or> is_QUIT t c) then cs
      else cs @ [c])"

definition breaks :: "tty_struct \<Rightarrow> u8 list \<Rightarrow> u32" where
  "breaks t cs = of_nat (length (filter (line_break t) cs))"

lemma is_cc_cong: "termios t = termios u \<Longrightarrow> is_cc i t = is_cc i u" "termios t = termios u \<Longrightarrow> L_FLAG t = L_FLAG u"
    "termios t = termios u \<Longrightarrow> I_FLAG t = I_FLAG u"
  by (simp_all add: is_cc_def L_FLAG_def I_FLAG_def fun_eq_iff)

lemma line_break_cong: "termios t = termios u \<Longrightarrow> line_break t = line_break u"
  by (simp add: line_break_def is_cc_cong(1) [of t u] fun_eq_iff)

lemma edit_cong:
  assumes "termios t = termios u"
  shows "edit t = edit u" and "breaks t = breaks u" and "map_input b t = map_input b u" and "kill t = kill u"
    and "line_break t = line_break u"
proof -
  have k: "kill t = kill u" using line_break_cong [OF assms] by (simp add: kill_def fun_eq_iff)
  show "edit t = edit u"
    by (intro ext) (simp only: edit_def k line_break_cong [OF assms] is_cc_cong [OF assms])
  show "breaks t = breaks u" by (intro ext) (simp only: breaks_def line_break_cong [OF assms])
  show "map_input b t = map_input b u" by (intro ext) (simp only: map_input_def is_cc_cong [OF assms])
  show "kill t = kill u" by (rule k)
  show "line_break t = line_break u" by (rule line_break_cong [OF assms])
qed

lemma kill_snoc: "kill t (cs @ [c]) = (if line_break t c then cs @ [c] else kill t cs)"
  by (simp add: kill_def)

lemma breaks_snoc: "breaks t (cs @ [c]) = breaks t cs + (if line_break t c then 1 else 0)"
  by (simp add: breaks_def)

lemma breaks_kill: "breaks t (kill t cs) = breaks t cs"
  by (induction cs rule: rev_induct) (simp_all add: kill_snoc breaks_snoc, simp add: kill_def)

lemma length_edit: "length (edit t cs c) \<le> length cs + 1"
proof -
  have "length (kill t cs) \<le> length cs" by (metis kill_def length_dropWhile_le length_rev)
  then show ?thesis by (simp add: edit_def le_SucI)
qed

text \<open>A whole read queue.\<close>

definition typed :: "(nat \<Rightarrow> u8) \<Rightarrow> tty_struct \<Rightarrow> u8 list \<Rightarrow> u8 list \<Rightarrow> u8 list" where
  "typed before t = foldl (\<lambda>cs c. case map_input before t c of None \<Rightarrow> cs | Some d \<Rightarrow> edit t cs d)"

lemma typed_simps [simp]:
  "typed before t cs [] = cs"
  "typed before t cs (c # R) = typed before t (case map_input before t c of None \<Rightarrow> cs | Some d \<Rightarrow> edit t cs d) R"
  by (simp_all add: typed_def)

lemma typed_cong: "termios t = termios u \<Longrightarrow> typed before t = typed before u"
  by (simp only: typed_def edit_cong(1,3) [of t u])

text \<open>With seven-bit characters, no echo begins an escape sequence.\<close>

lemma no_upper: "\<forall>i\<in>set [0..<128]. ctype_table ! i AND 1 \<noteq> 0 \<longrightarrow> i < 96"
  by code_simp

lemma seven_bit: "(c::u8) < 128 \<Longrightarrow> sint c = int (unat c)"
proof -
  assume "(c::u8) < 128"
  then have "uint c < 128" by (simp add: word_less_alt)
  moreover have "- 128 \<le> uint c" using uint_ge_0 [of c] by linarith
  ultimately have "signed_take_bit 7 (uint c) = uint c" by (intro signed_take_bit_int_eq_self) simp_all
  then show "sint c = int (unat c)" by (simp add: sint_uint)
qed

lemma tolower_seven: "c < 128 \<Longrightarrow> tolower before c < 128"
proof -
  assume c: "c < 128"
  show ?thesis
  proof (cases "isupper before c")
    case True
    have n: "unat c \<in> set [0..<128]" using c by (simp add: word_less_nat_alt)
    then have "unat c < 96" using True no_upper seven_bit [OF c] by (simp add: isupper_def ctype_def del: of_nat_unat)
    then show ?thesis using True by (simp add: tolower_def word_less_nat_alt unat_word_ariths)
  qed (use c in \<open>simp add: tolower_def\<close>)
qed

lemma map_input_seven: "c < 128 \<Longrightarrow> map_input before t c = Some d \<Longrightarrow> d < 128"
  using tolower_seven [of 10 before] tolower_seven [of 13 before] tolower_seven [of c before]
  by (auto simp: map_input_def Let_def split: if_splits)

lemma echo_seven: "c < 128 \<Longrightarrow> 27 \<notin> set (echo_chars t c)"
proof -
  assume c: "c < 128"
  then have "unat (c + 64) = unat c + 64" by (simp add: unat_word_ariths word_less_nat_alt)
  then have "c + 64 \<noteq> 27" using arg_cong [of "c + 64" 27 unat] by auto
  moreover have "(27::u8) <s 32" by (simp add: word_sless_alt)
  ultimately show ?thesis by (auto simp: echo_chars_def)
qed

section \<open>Echo\<close>

text \<open>The contract of the function that writes the echo: in a state with its invariant, it takes printed characters from
  the write queue and changes nothing else of the terminal.\<close>

definition ready :: "'a tty_state_scheme \<Rightarrow> bool" where
  "ready s \<longleftrightarrow> con_state (con s) = 0 \<and> q_ok (write_q (con_tty s)) \<and> q_list (write_q (con_tty s)) = []"

definition same_input :: "'a tty_state_scheme \<Rightarrow> 'a tty_state_scheme \<Rightarrow> bool" where
  "same_input s t \<longleftrightarrow> ctype_before t = ctype_before s \<and> termios (con_tty t) = termios (con_tty s) \<and>
     read_q (con_tty t) = read_q (con_tty s) \<and> secondary (con_tty t) = secondary (con_tty s)"

locale echo_writer =
  fixes wr :: "'a tty_state_scheme \<Rightarrow> ('a tty_state_scheme, unit) outcome" and idle :: "'a tty_state_scheme \<Rightarrow> bool"
  assumes echo: "idle s \<Longrightarrow> 27 \<notin> set cs \<Longrightarrow> length cs \<le> 2 \<Longrightarrow> returns (wr (put_write cs s)) (\<lambda>_ t. idle t \<and> same_input s t)"
    and idle: "idle s \<Longrightarrow> con t = con s \<Longrightarrow> write_q (con_tty t) = write_q (con_tty s) \<Longrightarrow> idle t"

begin

definition cooked_to :: "'a tty_state_scheme \<Rightarrow> 'a tty_state_scheme \<Rightarrow> u8 list \<Rightarrow> bool" where
  "cooked_to s t cs \<longleftrightarrow> idle t \<and> ctype_before t = ctype_before s \<and> termios (con_tty t) = termios (con_tty s) \<and>
     read_q (con_tty t) = read_q (con_tty s) \<and> q_ok (secondary (con_tty t)) \<and> q_list (secondary (con_tty t)) = cs \<and>
     q_data (secondary (con_tty t)) = breaks (con_tty t) cs"

lemma cooked_trans: "cooked_to s t cs \<Longrightarrow> cooked_to t u ds \<Longrightarrow> cooked_to s u ds"
  by (simp add: cooked_to_def)

text \<open>Echoing, when the terminal echoes at all.\<close>

lemma echo_returns:
  assumes "cooked_to s s cs" and "27 \<notin> set xs" and "length xs \<le> 2"
  shows "returns (if b then wr (put_write xs s) else Ret () s) (\<lambda>_ t. idle t \<and> same_input s t)"
  using echo [of s xs] assms by (simp add: cooked_to_def same_input_def)

lemma rub_out_returns:
  assumes ok: "cooked_to s s (cs @ [c])" and c: "\<not> line_break (con_tty s) c"
  shows "returns (rub_out wr s) (\<lambda>_ t. cooked_to s t cs)"
proof -
  have "cooked_to s (upd_tty (\<lambda>t. t\<lparr>secondary := DEC_head (secondary t)\<rparr>) t) cs" if t: "idle t" "same_input s t" for t
  proof -
    have q: "q_ok (secondary (con_tty t))" "q_list (secondary (con_tty t)) = cs @ [c]" "q_data (secondary (con_tty t)) = breaks (con_tty s) (cs @ [c])"
      using ok t by (simp_all add: cooked_to_def same_input_def)
    have m: "termios (con_tty t) = termios (con_tty s)" using t by (simp add: same_input_def)
    have "breaks (con_tty t\<lparr>secondary := x\<rparr>) = breaks (con_tty s)" for x using m by (intro edit_cong) simp
    then show ?thesis
      using tq.undo [of "secondary (con_tty t)"] q c t(2) idle [OF t(1), of "upd_tty (\<lambda>t. t\<lparr>secondary := DEC_head (secondary t)\<rparr>) t"]
      by (simp add: cooked_to_def same_input_def breaks_snoc DEC_head_def)
  qed
  then show ?thesis unfolding rub_out_def returns_andThen
    by (intro returns_mono [OF echo_returns [OF ok]]) auto
qed

lemma line_start_list:
  assumes "cooked_to s s cs"
  shows "line_start (con_tty s) \<longleftrightarrow> cs = [] \<or> line_break (con_tty s) (last cs)"
proof (cases "cs = []")
  case True
  then show ?thesis using assms q_list_Nil [of "secondary (con_tty s)"] by (simp add: cooked_to_def line_start_def EMPTY_len)
next
  case False
  let ?q = "secondary (con_tty s)"
  have q: "q_ok ?q" "q_list ?q = cs" using assms by (simp_all add: cooked_to_def)
  then have "q_len ?q \<noteq> 0" using False q_list_Nil [of ?q] by simp
  then have "last cs = LAST ?q" using DEC_head_list(1) [of ?q] q by simp
  then show ?thesis using False q(1) \<open>q_len ?q \<noteq> 0\<close> by (simp add: line_start_def line_break_def EMPTY_len)
qed

lemma kill_line_returns:
  "cooked_to s s cs \<Longrightarrow> length cs < n \<Longrightarrow> returns (kill_line wr n s) (\<lambda>_ t. cooked_to s t (kill (con_tty s) cs))"
proof (induction cs arbitrary: s n rule: rev_induct)
  case Nil
  then obtain m where "n = Suc m" by (cases n) auto
  then show ?case using Nil line_start_list [of s "[]"] by (simp add: kill_def)
next
  case (snoc c cs)
  then obtain m where n: "n = Suc m" by (cases n) auto
  note ls = line_start_list [OF snoc.prems(1)]
  show ?case
  proof (cases "line_break (con_tty s) c")
    case True
    then show ?thesis using snoc.prems ls n by (simp add: kill_snoc)
  next
    case False
    have "returns (kill_line wr m t) (\<lambda>_ u. cooked_to s u (kill (con_tty s) cs))" if t: "cooked_to s t cs" for t
    proof -
      have "cooked_to t t cs" "termios (con_tty t) = termios (con_tty s)" using t by (simp_all add: cooked_to_def)
      then show ?thesis using snoc.IH [of t m] snoc.prems(2) n edit_cong(4) [of "con_tty t" "con_tty s"] cooked_trans [OF t]
        by (auto elim!: returns_mono)
    qed
    then have "returns (andThen (rub_out wr s) (\<lambda>_ s. kill_line wr m s)) (\<lambda>_ t. cooked_to s t (kill (con_tty s) cs))"
      unfolding returns_andThen by (intro returns_mono [OF rub_out_returns [OF snoc.prems(1) False]])
    then show ?thesis using False ls n by (simp add: kill_snoc)
  qed
qed

lemma cook_char_returns:
  assumes ok: "cooked_to s s cs" and room: "length cs < 1023" and esc: "27 \<notin> set (echo_chars (con_tty s) c)"
  shows "returns (cook_char wr c s) (\<lambda>_ t. cooked_to s t (cs @ [c]))"
proof -
  define u where "u = (if line_break (con_tty s) c
      then upd_tty (\<lambda>t. t\<lparr>secondary := (secondary t)\<lparr>q_data := q_data (secondary t) + 1\<rparr>\<rparr>) s else s)"
  have m: "termios (con_tty u) = termios (con_tty s)" "L_FLAG (con_tty u) = L_FLAG (con_tty s)" by (simp_all add: u_def L_FLAG_def fun_eq_iff)
  have u: "idle u" using ok idle [of s u] by (simp add: cooked_to_def u_def)
  have e: "echo_chars (con_tty u) c = echo_chars (con_tty s) c" using m by (simp add: echo_chars_def)
  have "length (echo_chars (con_tty u) c) \<le> 2" by (simp add: echo_chars_def)
  then have w: "returns (if L_ECHO (con_tty u) then wr (put_write (echo_chars (con_tty u) c) u) else Ret () u) (\<lambda>_ t. idle t \<and> same_input u t)"
    using echo [OF u, of "echo_chars (con_tty u) c"] esc u e by (simp add: same_input_def)
  have "cooked_to s (upd_tty (\<lambda>t. t\<lparr>secondary := PUTCH c (secondary t)\<rparr>) t) (cs @ [c])" if t: "idle t" "same_input u t" for t
  proof -
    let ?x = "upd_tty (\<lambda>t. t\<lparr>secondary := PUTCH c (secondary t)\<rparr>) t" and ?q = "secondary (con_tty t)"
    have q: "q_ok ?q" "q_list ?q = cs" "q_data ?q = breaks (con_tty s) cs + (if line_break (con_tty s) c then 1 else 0)"
      using ok t(2) by (auto simp: cooked_to_def same_input_def u_def q_ok_def q_list_def q_len_def)
    have b: "breaks (con_tty ?x) = breaks (con_tty s)" using t(2) m by (intro edit_cong) (simp add: same_input_def)
    have "q_ok (PUTCH c ?q) \<and> q_list (PUTCH c ?q) = cs @ [c]" using tq.put [of ?q c] q room by (auto simp flip: length_q_list)
    moreover have "read_q (con_tty u) = read_q (con_tty s)" "ctype_before u = ctype_before s" by (simp_all add: u_def)
    ultimately show ?thesis
      using q(3) t m b idle [OF t(1), of ?x] unfolding cooked_to_def
      by (simp add: same_input_def breaks_snoc PUTCH_def)
  qed
  then show ?thesis using w unfolding cook_char_def Let_def u_def [symmetric] line_break_def [symmetric] returns_andThen
    by (elim returns_mono) simp
qed

lemma keep_returns: "cooked_to s s cs \<Longrightarrow> con t = con s \<Longrightarrow> ctype_before t = ctype_before s \<Longrightarrow>
    (\<exists>x. con_tty t = (con_tty s)\<lparr>stopped := x\<rparr>) \<or> con_tty t = con_tty s \<Longrightarrow> cooked_to s t cs"
  using idle [of s t] edit_cong(2) [of "con_tty t" "con_tty s"] by (auto simp: cooked_to_def)

lemma cook_step_returns:
  assumes ok: "cooked_to s s cs" and room: "length cs < 1023" and n: "1023 \<le> n" and c: "c < 128"
  shows "returns (cook_step wr n c s) (\<lambda>_ t. cooked_to s t (edit (con_tty s) cs c))"
proof -
  let ?t = "con_tty s"
  consider (kill) "L_CANON ?t \<and> is_KILL ?t c" | (erase) "\<not> (L_CANON ?t \<and> is_KILL ?t c)" "L_CANON ?t \<and> is_ERASE ?t c"
    | (other) "\<not> (L_CANON ?t \<and> is_KILL ?t c)" "\<not> (L_CANON ?t \<and> is_ERASE ?t c)" by blast
  then show ?thesis
  proof cases
    case kill
    then show ?thesis using kill_line_returns [OF ok, of n] room n by (simp add: cook_step_def edit_def)
  next
    case erase
    show ?thesis
    proof (cases "cs = [] \<or> line_break ?t (last cs)")
      case True
      then show ?thesis using erase ok line_start_list [OF ok] by (auto simp: cook_step_def edit_def)
    next
      case False
      then have "cooked_to s s (butlast cs @ [last cs])" using ok by simp
      then show ?thesis using False erase rub_out_returns [of s "butlast cs" "last cs"] line_start_list [OF ok]
        by (auto simp: cook_step_def edit_def)
    qed
  next
    case other
    have k: "cooked_to s (upd_tty (\<lambda>t. t\<lparr>stopped := x\<rparr>) s) cs" "cooked_to s (tty_intr m s) cs" for x m
      by (rule keep_returns [OF ok]; simp add: tty_intr_frame; blast)+
    have "returns (cook_step wr n c s) (\<lambda>_ t. cooked_to s t
        (if L_CANON ?t \<and> is_STOP ?t c \<or> L_CANON ?t \<and> is_START ?t c \<or> L_ISIG ?t \<and> is_INTR ?t c \<or> L_ISIG ?t \<and> is_QUIT ?t c
         then cs else cs @ [c]))"
      unfolding cook_step_def Let_def if_not_P [OF other(1)] if_not_P [OF other(2)]
      using k cook_char_returns [OF ok room echo_seven [OF c]] by (intro returns_if returns_Ret) auto
    then show ?thesis unfolding edit_def if_not_P [OF other(1)] if_not_P [OF other(2)]
      by (elim returns_mono) (auto split: if_splits)
  qed
qed

lemma cook_loop_returns:
  assumes "cooked_to s s cs" and "q_ok (read_q (con_tty s))" and "q_list (read_q (con_tty s)) = R"
    and "length cs + length R \<le> 1023" and "length R < n" and "1023 \<le> m" and "\<forall>c\<in>set R. c < 128"
  shows "returns (cook_loop wr m n s) (\<lambda>_ t. cooked_to t t (typed (ctype_before s) (con_tty s) cs R) \<and>
           termios (con_tty t) = termios (con_tty s) \<and> q_list (read_q (con_tty t)) = [])"
  using assms
proof (induction R arbitrary: s cs n)
  case Nil
  then show ?case using q_list_Nil [of "read_q (con_tty s)"] by (cases n) (simp_all add: EMPTY_len)
next
  case (Cons c R)
  then obtain k where n: "n = Suc k" by (cases n) auto
  let ?r = "read_q (con_tty s)"
  let ?before = "ctype_before s" and ?t = "con_tty s"
  define u where "u = upd_tty (\<lambda>t. t\<lparr>read_q := snd (GETCH (read_q t))\<rparr>) s"
  have g: "fst (GETCH ?r) = c" "q_list (snd (GETCH ?r)) = R" "q_ok (snd (GETCH ?r))"
    using tq.get_Cons [of ?r c R] Cons.prems by simp_all
  have tm: "termios (con_tty u) = termios ?t" by (simp add: u_def)
  have u: "cooked_to u u cs" "ctype_before u = ?before" "q_list (read_q (con_tty u)) = R" "q_ok (read_q (con_tty u))"
    using Cons.prems(1) g idle [of s u] edit_cong(2) [OF tm] by (simp_all add: cooked_to_def u_def)
  have enter: "\<not> EMPTY ?r" "\<not> FULL (secondary (con_tty s))"
    using Cons.prems(1-4) q_list_Nil [of ?r] length_q_list [of "secondary (con_tty s)"]
    by (auto simp: EMPTY_len FULL_len cooked_to_def)
  have go: "returns (cook_loop wr m k v) (\<lambda>_ t. cooked_to t t (typed ?before ?t ds R) \<and>
        termios (con_tty t) = termios ?t \<and> q_list (read_q (con_tty t)) = [])"
    if v: "cooked_to u v ds" and l: "length ds \<le> length cs + 1" for v ds
  proof -
    have "cooked_to v v ds" "ctype_before v = ?before" "termios (con_tty v) = termios ?t" "read_q (con_tty v) = read_q (con_tty u)"
      using v u tm by (simp_all add: cooked_to_def)
    then show ?thesis using Cons.IH [of v ds k] Cons.prems u l n typed_cong [of "con_tty v" ?t ?before] by simp
  qed
  show ?case
  proof (cases "map_input ?before ?t c")
    case None
    then show ?thesis using go [of u cs] u edit_cong(3) [OF tm] enter n g(1) by (simp add: u_def [symmetric])
  next
    case (Some d)
    have "returns (cook_step wr m d u) (\<lambda>_ v. cooked_to u v (edit ?t cs d))"
      using cook_step_returns [OF u(1), of m d] Cons.prems map_input_seven [OF _ Some] edit_cong(1) [OF tm] by simp
    then have "returns (andThen (cook_step wr m d u) (\<lambda>_ s. cook_loop wr m k s)) (\<lambda>_ t. cooked_to t t (typed ?before ?t (edit ?t cs d) R) \<and>
        termios (con_tty t) = termios ?t \<and> q_list (read_q (con_tty t)) = [])"
      unfolding returns_andThen using go length_edit by (elim returns_mono) blast
    then show ?thesis using Some u(2) edit_cong(3) [OF tm] enter n g(1) by (simp add: u_def [symmetric])
  qed
qed

end

lemma con_loop_plain:
  assumes "con_state (con s) = 0" and "q_ok (write_q (con_tty s))" and "27 \<notin> set (q_list (write_q (con_tty s)))"
  shows "returns (con_loop cooked (q_len (write_q (con_tty s))) s) (\<lambda>_ t. ready t \<and> same_input s t)"
  using assms
proof (induction "q_len (write_q (con_tty s))" arbitrary: s)
  case 0
  then show ?case using q_list_Nil [of "write_q (con_tty s)"] by (simp add: ready_def same_input_def)
next
  case (Suc n)
  let ?q = "write_q (con_tty s)"
  have "q_len ?q \<noteq> 0" using Suc(2) by simp
  note g = GETCH_list [OF Suc.prems(2) this]
  define u where "u = con_normal (fst (GETCH ?q)) (upd_tty (\<lambda>t. t\<lparr>write_q := snd (GETCH (write_q t))\<rparr>) s)"
  have c: "fst (GETCH ?q) \<noteq> 27" "27 \<notin> set (q_list (snd (GETCH ?q)))" using Suc.prems(3) g(1) by auto
  have u: "con_state (con u) = 0" "ctype_before u = ctype_before s" "con_tty u = (con_tty s)\<lparr>write_q := snd (GETCH ?q)\<rparr>"
    using Suc.prems(1) c(1) by (simp_all add: u_def con_normal_frame)
  have n: "n = q_len (write_q (con_tty u))" using Suc(2) g(1) by (simp add: u(3)) (metis length_Cons length_q_list nat.inject)
  have "returns (con_loop cooked (q_len (write_q (con_tty u))) u) (\<lambda>_ t. ready t \<and> same_input u t)"
    using u g c by (intro Suc.hyps(1) [OF n]) simp_all
  then have "returns (con_loop cooked n u) (\<lambda>_ t. ready t \<and> same_input s t)"
    unfolding n by (rule returns_mono) (simp add: same_input_def u)
  moreover have "con_char cooked (fst (GETCH ?q)) (upd_tty (\<lambda>t. t\<lparr>write_q := snd (GETCH (write_q t))\<rparr>) s) = Ret () u"
    using Suc.prems(1) by (simp add: con_char_def u_def)
  ultimately show ?case using Suc(2) by (simp flip: Suc(2))
qed

interpretation console_echo: echo_writer "con_write (Suc d) n" ready for d n
proof
  fix s :: "'a tty_state_scheme" and cs :: "u8 list"
  assume s: "ready s" and cs: "27 \<notin> set cs" "length cs \<le> 2"
  let ?t = "put_write cs s"
  have q: "q_ok (write_q (con_tty ?t)) \<and> q_list (write_q (con_tty ?t)) = [] @ cs"
    using tq.put_all [of "write_q (con_tty s)" cs] s cs q_list_Nil [of "write_q (con_tty s)"]
    by (simp add: ready_def put_write_def)
  have "con_state (con ?t) = 0" using s by (simp add: ready_def put_write_def)
  then have "returns (con_loop (copy_to_cooked_with (con_write d n) n) (q_len (write_q (con_tty ?t))) ?t) (\<lambda>_ t. ready t \<and> same_input ?t t)"
    using q cs by (intro con_loop_plain) simp_all
  then show "returns (con_write (Suc d) n ?t) (\<lambda>_ t. ready t \<and> same_input s t)"
    using q unfolding con_write.simps con_write_with_def returns_andThen
    by (simp add: CHARS_len) (erule returns_mono, simp add: set_cursor_def ready_def same_input_def put_write_def)
qed (simp add: ready_def)

text \<open>C33: Line editing. With the characters of the read queue a seven-bit input that fits in the secondary queue, \<open>copy_to_cooked\<close>
  returns, whatever the modes are; it empties the read queue, echoes everything it puts into the write queue, and leaves in the secondary
  queue the line that the characters make one after the other: each is mapped by the input modes (or dropped), the kill
  character erases back to the last line break, the erase character erases one character of the line, the stop, start,
  interrupt and quit characters add nothing, and any other character is appended. The count of complete lines is the number of line breaks
  in the secondary queue, as it was before.\<close>

theorem line_editing:
  assumes "ready s" and "q_ok (read_q (con_tty s))" and "q_ok (secondary (con_tty s))"
    and "q_data (secondary (con_tty s)) = breaks (con_tty s) (q_list (secondary (con_tty s)))"
    and "q_len (secondary (con_tty s)) + q_len (read_q (con_tty s)) \<le> 1023" and "\<forall>c\<in>set (q_list (read_q (con_tty s))). c < 128"
    and "1024 \<le> n"
  shows "returns (copy_to_cooked (Suc d) n s) (\<lambda>_ t. ready t \<and> q_list (read_q (con_tty t)) = [] \<and> q_ok (secondary (con_tty t)) \<and>
    q_list (secondary (con_tty t)) =
      typed (ctype_before s) (con_tty s) (q_list (secondary (con_tty s))) (q_list (read_q (con_tty s))) \<and>
    q_data (secondary (con_tty t)) = breaks (con_tty s) (q_list (secondary (con_tty t))))"
proof -
  let ?cs = "q_list (secondary (con_tty s))" and ?R = "q_list (read_q (con_tty s))"
  have c: "console_echo.cooked_to s s ?cs" using assms by (simp add: console_echo.cooked_to_def)
  have "returns (cook_loop (con_write (Suc d) n) n n s) (\<lambda>_ t.
      console_echo.cooked_to t t (typed (ctype_before s) (con_tty s) ?cs ?R) \<and>
      termios (con_tty t) = termios (con_tty s) \<and> q_list (read_q (con_tty t)) = [])"
    using assms(2,5,6,7) q_len_less [of "read_q (con_tty s)"] by (intro console_echo.cook_loop_returns [OF c]) simp_all
  then show ?thesis
    unfolding copy_to_cooked_def copy_to_cooked_with_def returns_andThen
    by (elim returns_mono) (auto simp: console_echo.cooked_to_def wake_up_frame ready_def dest: edit_cong(2))
qed

text \<open>\<open>ab<DEL>c<CR>\<close> is typed.\<close>

definition typing :: tty_state where
  "typing = upd_tty (\<lambda>t. t\<lparr>write_q := empty_queue, read_q := fold PUTCH [97, 98, 127, 99, 13] empty_queue\<rparr>) vga_tty"

lemma empty_queue_list: "q_ok empty_queue \<and> q_list empty_queue = []"
  by (simp add: q_ok_def q_list_Nil q_len_def empty_queue_def)

lemma typing_simps:
  "con typing = vga" "write_q (con_tty typing) = empty_queue" "secondary (con_tty typing) = empty_queue"
  "termios (con_tty typing) = cooked_modes" "q_ok (read_q (con_tty typing)) \<and> q_list (read_q (con_tty typing)) = [97, 98, 127, 99, 13]"
  "q_list (read_q (con_tty typing)) = [97, 98, 127, 99, 13]"
  using tq.put_all [of empty_queue "[97, 98, 127, 99, 13]"] empty_queue_list by (simp_all add: typing_def upd_tty_def)

theorem line_editing_witness: "\<exists>t. copy_to_cooked 1 1024 typing = Ret () t \<and> q_list (secondary (con_tty t)) = [97, 99, 10]"
proof -
  have "typed (ctype_before typing) (con_tty typing) [] [97, 98, 127, 99, 13] = [97, 99, 10]"
    by (simp add: map_input_def edit_def line_break_def L_FLAG_def I_FLAG_def is_cc_def typing_simps cooked_modes_def)
  moreover have "ready typing" using empty_queue_list by (simp add: ready_def typing_simps vga_def)
  moreover have "q_len (read_q (con_tty typing)) = 5"
    unfolding length_q_list [symmetric] by (simp only: typing_simps) simp
  ultimately show ?thesis
    using line_editing [of typing 1024 0] empty_queue_list q_list_Nil [of empty_queue]
    by (auto simp: typing_simps breaks_def empty_queue_def simp del: typed_simps elim!: returnsE)
qed

section \<open>Output\<close>

text \<open>The console does not look at the queues of the terminal.\<close>

abbreviation (input) with_tty :: "tty_struct \<Rightarrow> 'a tty_state_scheme \<Rightarrow> 'a tty_state_scheme" where
  "with_tty T s \<equiv> s\<lparr>con_tty := T\<rparr>"

lemma put_kbyte_tty [simp]: "put_kbyte a v (with_tty T s) = with_tty T (put_kbyte a v s)"
  by (simp add: put_kbyte_def Let_def)

lemma put_kbytes_tty [simp]: "put_kbytes a vs (with_tty T s) = with_tty T (put_kbytes a vs s)"
  by (induction vs arbitrary: a s) simp_all

lemma get_kbytes_tty [simp]: "get_kbytes a n (with_tty T s) = get_kbytes a n s"
  by (simp add: get_kbytes_def get_kbyte_def)

lemma put_short_tty [simp]: "put_short a v (with_tty T s) = with_tty T (put_short a v s)"
  by (simp add: put_short_def Let_def)

lemma stosw_tty [simp]: "stosw d n v a (with_tty T s) = with_tty T (stosw d n v a s)"
  by (induction n arbitrary: a s) simp_all

lemma movsl_tty [simp]: "movsl d n i j (with_tty T s) = with_tty T (movsl d n i j s)"
  by (induction n arbitrary: i j s) simp_all

lemma con_tty_updates [simp]:
  "upd_con f (with_tty T s) = with_tty T (upd_con f s)" "out_video r d (with_tty T s) = with_tty T (out_video r d s)"
  "sysbeep (with_tty T s) = with_tty T (sysbeep s)"
  by (simp_all add: upd_con_def out_video_def outb_def sysbeep_def Let_def)

lemma scrup_tty [simp]: "scrup (with_tty T s) = with_tty T (scrup s)"
  by (simp add: scrup_def move_up_def set_origin_def Let_def if_distrib [of "\<lambda>s. s\<lparr>con_tty := T\<rparr>"] cong: if_cong split del: if_split)

lemma lf_tty [simp]: "lf (with_tty T s) = with_tty T (lf s)" "wrap_line (with_tty T s) = with_tty T (wrap_line s)"
  by (simp_all add: lf_def wrap_line_def Let_def)

lemma print_tty [simp]: "con_print c (with_tty T s) = with_tty T (con_print c s)"
  by (simp add: con_print_def Let_def)

lemma tab_tty [simp]: "con_tab (with_tty T s) = with_tty T (con_tab s)"
  by (simp add: con_tab_def Let_def)

lemma del_tty [simp]: "del (with_tty T s) = with_tty T (del s)"
  by (simp add: del_def Let_def)

lemma con_normal_tty: "termios T = termios (con_tty s) \<Longrightarrow> con_normal c (with_tty T s) = with_tty T (con_normal c s)"
  unfolding con_normal_def if_distrib [of "\<lambda>s. s\<lparr>con_tty := T\<rparr>"] by (intro if_cong refl) simp_all

lemma wrap_termios [simp]: "con_tty (lf s) = con_tty s" "con_tty (wrap_line s) = con_tty s"
  by (simp_all add: wrap_line_def lf_def)

lemma con_normal_termios [simp]: "con_tty (con_normal c s) = con_tty s"
  unfolding con_normal_def if_distrib [of con_tty]
  by (simp add: con_print_def con_tab_def del_def if_distrib [of con_tty] Let_def cong: if_cong split del: if_split)

lemma fold_con_normal_tty: "termios T = termios (con_tty s) \<Longrightarrow> fold con_normal cs (with_tty T s) = with_tty T (fold con_normal cs s)"
  by (induction cs arbitrary: s) (simp_all add: con_normal_tty)

lemma con_loop_shows:
  assumes "con_state (con s) = 0" and "q_ok (write_q (con_tty s))" and "q_list (write_q (con_tty s)) = cs" and "27 \<notin> set cs"
  shows "\<exists>T. con_loop cooked (length cs) s = Ret () (with_tty T (fold con_normal cs s)) \<and> termios T = termios (con_tty s) \<and>
           q_ok (write_q T) \<and> q_list (write_q T) = [] \<and> con_state (con (fold con_normal cs s)) = 0"
  using assms
proof (induction cs arbitrary: s)
  case Nil
  then show ?case by (intro exI [of _ "con_tty s"]) simp
next
  case (Cons c cs)
  note g = tq.get_Cons [OF Cons.prems(2,3)]
  let ?T = "(con_tty s)\<lparr>write_q := snd (GETCH (write_q (con_tty s)))\<rparr>"
  define u where "u = con_normal c s"
  have "con_state (con u) = 0" "con_state (con (with_tty ?T u)) = 0"
    using Cons.prems(1,4) by (simp_all add: u_def con_normal_frame)
  then obtain T where T: "con_loop cooked (length cs) (with_tty ?T u) = Ret () (with_tty T (fold con_normal cs (with_tty ?T u)))"
      "termios T = termios ?T" "q_ok (write_q T)" "q_list (write_q T) = []" "con_state (con (fold con_normal cs (with_tty ?T u))) = 0"
    using Cons.IH [of "with_tty ?T u"] g Cons.prems(4) by auto
  have t: "termios ?T = termios (con_tty u)" by (simp add: u_def con_normal_termios)
  have "con_char cooked c (upd_tty (\<lambda>t. t\<lparr>write_q := snd (GETCH (write_q t))\<rparr>) s) = Ret () (with_tty ?T u)"
    using Cons.prems(1) con_normal_tty [of ?T s c] by (simp add: con_char_def upd_tty_def u_def)
  then show ?case using g T fold_con_normal_tty [OF t, of cs] by (intro exI [of _ T]) (simp add: u_def [symmetric])
qed

text \<open>What a character becomes.\<close>

definition out_chars :: "(nat \<Rightarrow> u8) \<Rightarrow> tty_struct \<Rightarrow> u8 \<Rightarrow> u8 list" where
  "out_chars before t c = (case map_output before t False c of
     None \<Rightarrow> 13 # (case map_output before t True c of None \<Rightarrow> [] | Some d \<Rightarrow> [d]) | Some d \<Rightarrow> [d])"


definition out_text :: "'a tty_state_scheme \<Rightarrow> u32 \<Rightarrow> nat \<Rightarrow> u8 list" where
  "out_text s b n = concat (map (\<lambda>i. out_chars (ctype_before s) (con_tty s) (get_fs_byte (b + of_nat i) s)) [0..<n])"

lemma map_output_cong: "termios t = termios u \<Longrightarrow> map_output before t = map_output before u"
  by (intro ext) (simp add: map_output_def O_FLAG_def)

lemma out_chars_cong: "termios t = termios u \<Longrightarrow> out_chars before t = out_chars before u"
  by (intro ext) (simp only: out_chars_def map_output_cong [of t u])

lemma put_write_put: "put_write ys (put_write xs s) = put_write (xs @ ys) s"
  by (simp add: put_write_def upd_tty_def)

lemma put_write_frame [simp]:
  "termios (con_tty (put_write xs s)) = termios (con_tty s)" "ctype_before (put_write xs s) = ctype_before s"
  "get_fs_byte b (put_write xs s) = get_fs_byte b s" "cr_flag (put_write xs s) = cr_flag s"
  "con (put_write xs s) = con s" "write_q (con_tty (put_write xs s)) = fold PUTCH xs (write_q (con_tty s))"
  by (simp_all add: put_write_def upd_tty_def get_fs_byte_def get_kbyte_def)

lemma put_write_flag: "put_write xs (s\<lparr>cr_flag := f\<rparr>) = (put_write xs s)\<lparr>cr_flag := f\<rparr>"
  by (simp add: put_write_def upd_tty_def)

lemma flag_frame [simp]: "get_fs_byte b (s\<lparr>cr_flag := f\<rparr>) = get_fs_byte b s"
  by (simp add: get_fs_byte_def get_kbyte_def)

lemma out_text_cong:
  assumes "termios (con_tty t) = termios (con_tty s)" and "ctype_before t = ctype_before s" and "\<And>b. get_fs_byte b t = get_fs_byte b s"
  shows "out_text t b n = out_text s b n"
  using assms out_chars_cong [OF assms(1)] by (simp add: out_text_def)

lemma out_text_Suc: "out_text s b (Suc n) = out_chars (ctype_before s) (con_tty s) (get_fs_byte b s) @ out_text s (b + 1) n"
proof -
  have "[0..<Suc n] = 0 # map Suc [0..<n]" by (simp add: map_Suc_upt upt_conv_Cons)
  then show ?thesis by (simp add: out_text_def comp_def algebra_simps)
qed

lemma out_chars_length: "length (out_chars before t c) \<le> 2"
  by (simp add: out_chars_def split: option.splits)

text \<open>The inner loop of \<open>tty_write\<close>, with room for every character twice.\<close>

lemma fill_write_text:
  fixes s :: "'a tty_state_scheme"
  assumes "\<not> cr_flag s" and "q_ok (write_q (con_tty s))" and "q_len (write_q (con_tty s)) + 2 * n \<le> 1023"
  shows "fill_write b n s = (b + of_nat n, 0, put_write (out_text s b n) s)"
  using assms
proof (induction n arbitrary: b s)
  case 0
  then show ?case by (simp add: fill_write.simps out_text_def put_write_def upd_tty_def)
next
  case (Suc n)
  let ?q = "write_q (con_tty s)" and ?m = "map_output (ctype_before s) (con_tty s)" and ?c = "get_fs_byte b s"
  let ?x = "out_chars (ctype_before s) (con_tty s) ?c"
  have room: "\<not> FULL ?q" using Suc.prems by (simp add: FULL_len)
  have q: "q_ok (fold PUTCH xs ?q) \<and> q_len (fold PUTCH xs ?q) = q_len ?q + length xs" if "length xs \<le> 2" for xs
    using tq.put_all [of ?q xs] Suc.prems(2,3) that by (auto simp flip: length_q_list)
  have f: "s\<lparr>cr_flag := False\<rparr> = s" using Suc.prems(1) by simp
  have g: "(put_write xs s)\<lparr>cr_flag := False\<rparr> = put_write xs s" for xs
    using f put_write_flag [of xs False s] by simp
  have rest: "fill_write (b + 1) n (put_write ?x s) = (b + of_nat (Suc n), 0, put_write (out_text s b (Suc n)) s)"
  proof -
    have "fill_write (b + 1) n (put_write ?x s) = (b + 1 + of_nat n, 0, put_write (out_text (put_write ?x s) (b + 1) n) (put_write ?x s))"
      using Suc.IH [of "put_write ?x s" "b + 1"] Suc.prems q [OF out_chars_length] out_chars_length [of "ctype_before s" "con_tty s" ?c] by simp
    moreover have "out_text (put_write ?x s) (b + 1) n = out_text s (b + 1) n" by (rule out_text_cong) simp_all
    ultimately show ?thesis by (simp add: put_write_put out_text_Suc add.assoc)
  qed
  show ?case
  proof (cases "?m False ?c")
    case (Some d)
    then have x: "?x = [d]" by (simp add: out_chars_def)
    show ?thesis using rest Some room Suc.prems(1)
      by (subst fill_write.simps) (simp add: x put_write_flag f)
  next
    case None
    obtain d where d: "?m True ?c = Some d" using map_output_None [of "ctype_before s" "con_tty s" True ?c] by (cases "?m True ?c") auto
    have x: "?x = [13, d]" using None d by (simp add: out_chars_def)
    have "map_output (ctype_before s) (con_tty (put_write [13] s)) = ?m" by (rule map_output_cong) simp
    moreover have "\<not> FULL (fold PUTCH [13] ?q)" using q [of "[13]"] Suc.prems(3) by (simp add: FULL_len)
    ultimately have "fill_write b (Suc n) (put_write [13] (s\<lparr>cr_flag := True\<rparr>)) = fill_write (b + 1) n (put_write ?x s)"
      using d by (subst fill_write.simps) (simp add: x put_write_put put_write_flag f g)
    then show ?thesis using rest None room Suc.prems(1) by (subst fill_write.simps) (simp add: x)
  qed
qed

lemma con_write_shows:
  assumes "ready s" and "length cs \<le> 1023" and "27 \<notin> set cs"
  shows "\<exists>T. con_write (Suc d) n (put_write cs s) = Ret () (with_tty T (set_cursor (fold con_normal cs s))) \<and>
           termios T = termios (con_tty s) \<and> ready (with_tty T (set_cursor (fold con_normal cs s)))"
proof -
  let ?s = "put_write cs s"
  have q: "q_ok (write_q (con_tty ?s))" "q_list (write_q (con_tty ?s)) = cs"
    using tq.put_all [of "write_q (con_tty s)" cs] assms q_list_Nil [of "write_q (con_tty s)"] by (simp_all add: ready_def)
  have s: "?s = with_tty (con_tty ?s) s" by (simp add: put_write_def upd_tty_def)
  have f: "fold con_normal cs ?s = with_tty (con_tty ?s) (fold con_normal cs s)"
    using fold_con_normal_tty [of "con_tty ?s" s cs] s by simp
  obtain T where "con_loop (copy_to_cooked_with (con_write d n) n) (length cs) ?s = Ret () (with_tty T (fold con_normal cs ?s))"
      "termios T = termios (con_tty s)" "q_ok (write_q T)" "q_list (write_q T) = []" "con_state (con (fold con_normal cs ?s)) = 0"
    using con_loop_shows [OF _ q assms(3), of "copy_to_cooked_with (con_write d n) n"] assms(1) by (auto simp: ready_def)
  moreover have "unat (CHARS (write_q (con_tty ?s))) = length cs" using q CHARS_len [of "write_q (con_tty ?s)"] length_q_list by metis
  ultimately show ?thesis
    by (intro exI [of _ T]) (simp add: con_write_with_def f ready_def set_cursor_def)
qed

lemma out_text_length: "length (out_text s b n) \<le> 2 * n"
proof (induction n arbitrary: b)
  case (Suc n)
  show ?case using out_chars_length [of "ctype_before s" "con_tty s" "get_fs_byte b s"] Suc.IH [of "b + 1"]
    unfolding out_text_Suc length_append mult_Suc_right by linarith
qed (simp add: out_text_def)

text \<open>C34: Output. When the write queue is empty and the console is in its initial state, \<open>tty_write\<close> of \<open>n\<close> bytes, \<open>0 < 2n \<le> 1023\<close>, by
  a process with no signal pending writes all of them in one round and returns \<open>n\<close>. What reaches the console is the text of
  the caller's buffer under the output modes, a newline preceded by a carriage return where they say so; provided there is no
  ESC in it, the state after the call is that of the console printing these characters one after the other, with the
  cursor set, except for the terminal's own structure, whose write queue is empty again.\<close>

theorem tty_write_shows:
  assumes "ready s" and "signal (cur s) = 0" and "\<not> cr_flag s" and "0 < n" and "2 * n \<le> 1023" and "27 \<notin> set (out_text s buf n)"
    and "2 \<le> bound K"
  shows "\<exists>T. tty_write K 0 buf (int n) s = Ret (int n) (with_tty T (set_cursor (fold con_normal (out_text s buf n) s))) \<and>
    termios T = termios (con_tty s) \<and> q_list (write_q T) = []"
proof -
  let ?cs = "out_text s buf n"
  obtain d where d: "bound K = Suc (Suc d)" using assms(7) by (metis le_Suc_ex add_2_eq_Suc)
  have q: "q_ok (write_q (con_tty s))" "q_len (write_q (con_tty s)) = 0" using assms(1) q_list_Nil by (auto simp: ready_def)
  have fill: "fill_write buf n s = (buf + of_nat n, 0, put_write ?cs s)"
    using q assms(3,5) by (intro fill_write_text) simp_all
  have "length ?cs \<le> 2 * n" by (rule out_text_length)
  then obtain T where T: "con_write (Suc (Suc d)) (Suc (Suc d)) (put_write ?cs s) = Ret () (with_tty T (set_cursor (fold con_normal ?cs s)))"
      "termios T = termios (con_tty s)" "ready (with_tty T (set_cursor (fold con_normal ?cs s)))"
    using con_write_shows [OF assms(1), of ?cs "Suc d" "Suc (Suc d)"] assms(5,6) by auto
  have "sint (of_nat n :: u32) = int n"
    using assms(5) by (simp add: signed_of_nat) (simp add: signed_take_bit_int_eq_self)
  moreover have "\<not> FULL (write_q (con_tty s))" using q by (simp add: FULL_len)
  ultimately have "tty_write K 0 buf (int n) s = Ret (int n) (with_tty T (set_cursor (fold con_normal ?cs s)))"
    using fill T(1) assms(2,4) d by (simp add: tty_write_def sleep_if_full_def)
  then show ?thesis using T by (auto simp: ready_def)
qed

definition two_bytes :: tty_state where
  "two_bytes = put_fs_byte 10 1 (put_fs_byte 65 0 typing)"

lemma two_bytes_simps [simp]:
  "con two_bytes = vga" "write_q (con_tty two_bytes) = empty_queue" "termios (con_tty two_bytes) = cooked_modes"
  "get_fs_byte 0 two_bytes = 65" "get_fs_byte 1 two_bytes = 10" "cr_flag two_bytes = False"
  by (simp_all add: two_bytes_def put_fs_byte_def get_fs_byte_def typing_def upd_tty_def)

lemma two_bytes_signal: "signal (cur two_bytes) = 0"
  by (simp add: two_bytes_def put_fs_byte_def typing_def upd_tty_def vga_tty_def fs_state.defs empty_fs_def
      two_procs_def two_tasks_def INIT_TASK_def sched_state.defs proc_state.defs)

theorem tty_write_shows_witness: "\<exists>t. tty_write quiet 0 0 2 two_bytes = Ret 2 t \<and> q_list (write_q (con_tty t)) = []"
proof -
  have "[0..<2] = [0, 1::nat]" by code_simp
  then have "out_text two_bytes 0 2 = [65, 13, 10]"
    by (simp add: out_text_def out_chars_def map_output_def O_FLAG_def cooked_modes_def Let_def)
  moreover have "ready two_bytes" using empty_queue_list by (simp add: ready_def vga_def)
  ultimately show ?thesis
    using tty_write_shows [of two_bytes 2 0 quiet] two_bytes_signal by (auto simp: quiet_def)
qed

end
