(* ===== verification/Lifecycle.thy ===== *)
theory Lifecycle
  imports Files Sys
begin

text \<open>
  The life of a process: \<open>copy_process\<close> (\<^verbatim>\<open>kernel/fork.c\<close>), \<open>do_exit\<close> and \<open>sys_exit\<close> (\<^verbatim>\<open>kernel/exit.c\<close>), the page
  faults that load it (\<open>share_page\<close>, \<open>do_no_page\<close> of \<^verbatim>\<open>mm/memory.c\<close>), and the descriptor tables: the gates of
  \<^verbatim>\<open>include/asm/system.h\<close>, \<open>sched_init\<close> (\<^verbatim>\<open>kernel/sched.c\<close>) and \<open>trap_init\<close> (\<^verbatim>\<open>kernel/traps.c\<close>).
\<close>

section \<open>Descriptor tables\<close>

record gdt_state = fs_state +
  gdt :: "nat \<Rightarrow> desc_struct"
  idt :: "nat \<Rightarrow> desc_struct"

text \<open>\<open>_set_tssldt_desc\<close>: a segment of 104 bytes at \<open>addr\<close>.\<close>

definition tssldt_desc :: "u32 \<Rightarrow> u32 \<Rightarrow> desc_struct" where
  "tssldt_desc addr ty =
     \<lparr>desc_a = 104 OR push_bit 16 (addr AND 0xffff),
      desc_b = (drop_bit 16 addr AND 0xff) OR push_bit 8 ty OR (addr AND 0xff000000)\<rparr>"

definition set_tss_desc :: "nat \<Rightarrow> u32 \<Rightarrow> 'a gdt_state_scheme \<Rightarrow> 'a gdt_state_scheme" where
  "set_tss_desc n addr s = s\<lparr>gdt := (gdt s)(n := tssldt_desc addr 0x89)\<rparr>"

definition set_ldt_desc :: "nat \<Rightarrow> u32 \<Rightarrow> 'a gdt_state_scheme \<Rightarrow> 'a gdt_state_scheme" where
  "set_ldt_desc n addr s = s\<lparr>gdt := (gdt s)(n := tssldt_desc addr 0x82)\<rparr>"

abbreviation (input) FIRST_TSS_ENTRY :: nat where "FIRST_TSS_ENTRY \<equiv> 4"
abbreviation (input) FIRST_LDT_ENTRY :: nat where "FIRST_LDT_ENTRY \<equiv> 5"

text \<open>The places of \<open>ldt\<close> and \<open>tss\<close> in a task structure.\<close>

definition ldt_offset :: u32 where "ldt_offset = 720"
definition tss_offset :: u32 where "tss_offset = 744"

text \<open>\<open>_set_gate\<close>: \<open>addr\<close> in the kernel's code segment, selector 8.\<close>

definition gate_desc :: "u32 \<Rightarrow> u32 \<Rightarrow> u32 \<Rightarrow> desc_struct" where
  "gate_desc ty dpl addr =
     \<lparr>desc_a = 0x00080000 OR (addr AND 0xffff),
      desc_b = (addr AND 0xffff0000) OR (0x8000 + push_bit 13 dpl + push_bit 8 ty)\<rparr>"

definition set_gate :: "nat \<Rightarrow> desc_struct \<Rightarrow> 'a gdt_state_scheme \<Rightarrow> 'a gdt_state_scheme" where
  "set_gate n d s = s\<lparr>idt := (idt s)(n := d)\<rparr>"

definition set_intr_gate :: "nat \<Rightarrow> u32 \<Rightarrow> 'a gdt_state_scheme \<Rightarrow> 'a gdt_state_scheme" where
  "set_intr_gate n addr = set_gate n (gate_desc 14 0 addr)"

definition set_trap_gate :: "nat \<Rightarrow> u32 \<Rightarrow> 'a gdt_state_scheme \<Rightarrow> 'a gdt_state_scheme" where
  "set_trap_gate n addr = set_gate n (gate_desc 15 0 addr)"

definition set_system_gate :: "nat \<Rightarrow> u32 \<Rightarrow> 'a gdt_state_scheme \<Rightarrow> 'a gdt_state_scheme" where
  "set_system_gate n addr = set_gate n (gate_desc 15 3 addr)"

text \<open>The entry points are assembly code: their addresses are the argument \<open>entry\<close>.\<close>

definition trap_init :: "(nat \<Rightarrow> u32) \<Rightarrow> 'a gdt_state_scheme \<Rightarrow> 'a gdt_state_scheme" where
  "trap_init entry s =
     fold (\<lambda>n. if n \<in> {3, 4, 5} then set_system_gate n (entry n) else set_trap_gate n (entry n)) [0..<15] s"

text \<open>The counter chip, at 1193180 Hz, gets the low 16 bits of \<open>LATCH\<close> as its divisor.\<close>

definition LATCH :: u32 where
  "LATCH = 11931800 div 100"

definition sched_init :: "u32 \<Rightarrow> u32 \<Rightarrow> 'a gdt_state_scheme \<Rightarrow> 'a gdt_state_scheme" where
  "sched_init timer_interrupt system_call s =
     (let s = set_tss_desc FIRST_TSS_ENTRY (init_task s + tss_offset) s;
          s = set_ldt_desc FIRST_LDT_ENTRY (init_task s + ldt_offset) s;
          s = fold (\<lambda>i s. let z = \<lparr>desc_a = 0, desc_b = 0\<rparr>; p = 2 * i + FIRST_TSS_ENTRY in
                s\<lparr>task := (task s)(i := 0), gdt := (gdt s)(p := z, p + 1 := z)\<rparr>) [1..<NR_TASKS] s;
          s = outb 0x36 0x43 s;
          s = outb (ucast (LATCH AND 0xff)) 0x40 s;
          s = outb (ucast (drop_bit 8 LATCH)) 0x40 s;
          s = set_intr_gate 0x20 timer_interrupt s;
          s = outb (ports s 0x21 AND NOT 1) 0x21 s
      in set_system_gate 0x80 system_call s)"

section \<open>fork\<close>

text \<open>The registers that \<open>int 0x80\<close>, \<open>system_call\<close> and \<open>sys_fork\<close> push.\<close>

record fork_regs =
  r_ebp :: u32
  r_edi :: u32
  r_esi :: u32
  r_gs :: u32
  r_ebx :: u32
  r_ecx :: u32
  r_edx :: u32
  r_fs :: u32
  r_es :: u32
  r_ds :: u32
  r_eip :: u32
  r_cs :: u32
  r_eflags :: u32
  r_esp :: u32
  r_ss :: u32

text \<open>The child's structure, from the parent's.\<close>

definition child_tss :: "nat \<Rightarrow> u32 \<Rightarrow> fork_regs \<Rightarrow> tss_struct \<Rightarrow> tss_struct" where
  "child_tss nr p r t = t\<lparr>tss_back_link := 0, tss_esp0 := 4096 + p, tss_ss0 := 0x10, tss_eip := r_eip r, tss_eflags := r_eflags r,
     tss_eax := 0, tss_ecx := r_ecx r, tss_edx := r_edx r, tss_ebx := r_ebx r, tss_esp := r_esp r, tss_ebp := r_ebp r,
     tss_esi := r_esi r, tss_edi := r_edi r, tss_es := r_es r AND 0xffff, tss_cs := r_cs r AND 0xffff, tss_ss := r_ss r AND 0xffff,
     tss_ds := r_ds r AND 0xffff, tss_fs := r_fs r AND 0xffff, tss_gs := r_gs r AND 0xffff, tss_ldt := LDT_sel nr,
     tss_trace_bitmap := 0x80000000\<rparr>"

definition child_task :: "nat \<Rightarrow> u32 \<Rightarrow> fork_regs \<Rightarrow> 'a proc_state_scheme \<Rightarrow> task_struct" where
  "child_task nr p r s =
     (let c = cur s in
      c\<lparr>state := TASK_UNINTERRUPTIBLE, pid := last_pid s, father := pid c, counter := priority c, signal := 0, alarm := 0,
        leader := 0, utime := 0, stime := 0, cutime := 0, cstime := 0, start_time := jiffies s, tss := child_tss nr p r (tss c)\<rparr>)"

text \<open>\<open>f->f_count++\<close> for the open files, \<open>i_count++\<close> for the directories and the executable.\<close>

definition add_file_ref :: "nat option \<Rightarrow> 'a fs_state_scheme \<Rightarrow> 'a fs_state_scheme" where
  "add_file_ref f s = (case f of None \<Rightarrow> s | Some i \<Rightarrow> upd_file i (\<lambda>x. x\<lparr>f_count := f_count x + 1\<rparr>) s)"

definition add_inode_ref :: "nat option \<Rightarrow> 'a fs_state_scheme \<Rightarrow> 'a fs_state_scheme" where
  "add_inode_ref i s = (case i of None \<Rightarrow> s | Some i \<Rightarrow> upd_inode i (\<lambda>n. n\<lparr>i_count := i_count n + 1\<rparr>) s)"

definition share_files :: "u32 \<Rightarrow> 'a fs_state_scheme \<Rightarrow> 'a fs_state_scheme" where
  "share_files p s =
     (let s = fold (\<lambda>i s. add_file_ref (filp (tasks s p) i) s) [0..<NR_OPEN] s;
          s = add_inode_ref (pwd (cur s)) s;
          s = add_inode_ref (root (cur s)) s
      in add_inode_ref (executable (cur s)) s)"

text \<open>\<open>fnsave\<close> stores the coprocessor's contents and initialises it: they are \<open>fninit\<close> then.\<close>

definition copy_process :: "i387_struct \<Rightarrow> nat \<Rightarrow> fork_regs \<Rightarrow> 'a gdt_state_scheme \<Rightarrow> ('a gdt_state_scheme, int) outcome" where
  "copy_process fninit nr r s =
     (let (p, s) = get_free_page s in
      if p = 0 then Ret (- EAGAIN) s
      else let s = s\<lparr>task := (task s)(nr := p)\<rparr>;
               s = upd_task p (\<lambda>_. child_task nr p r s) s;
               s = (if last_task_used_math s = current s
                    then (upd_task p (\<lambda>t. t\<lparr>tss := (tss t)\<lparr>i387 := fpu s\<rparr>\<rparr>) s)\<lparr>fpu := fninit\<rparr> else s) in
        andThen (copy_mem nr p s) (\<lambda>e s.
          if e \<noteq> 0 then andThen (free_page p (s\<lparr>task := (task s)(nr := 0)\<rparr>)) (\<lambda>_ s. Ret (- EAGAIN) s)
          else let s = share_files p s;
                   s = set_tss_desc (2 * nr + FIRST_TSS_ENTRY) (p + tss_offset) s;
                   s = set_ldt_desc (2 * nr + FIRST_LDT_ENTRY) (p + ldt_offset) s
               in Ret (sint (last_pid s)) (upd_task p (\<lambda>t. t\<lparr>state := TASK_RUNNING\<rparr>) s)))"

section \<open>exit\<close>

text \<open>The children of the process go to process 1.\<close>

definition orphan :: "nat \<Rightarrow> 'a proc_state_scheme \<Rightarrow> 'a proc_state_scheme" where
  "orphan i s =
     (if task s i \<noteq> 0 \<and> father (tasks s (task s i)) = pid (cur s) then
        let s = upd_task (task s i) (\<lambda>t. t\<lparr>father := 1\<rparr>) s in
        if state (tasks s (task s i)) = TASK_ZOMBIE then snd (send_sig SIGCHLD (task s 1) True s) else s
      else s)"

definition close_all :: "'a fs_state_scheme kernel_env \<Rightarrow> 'a fs_state_scheme \<Rightarrow> ('a fs_state_scheme, unit) outcome" where
  "close_all K s =
     each (\<lambda>i s. if filp (cur s) i \<noteq> None then andThen (sys_close K (of_nat i) s) (\<lambda>_ s. Ret () s) else Ret () s) [0..<NR_OPEN] s"

definition drop_inodes :: "'a fs_state_scheme kernel_env \<Rightarrow> 'a fs_state_scheme \<Rightarrow> ('a fs_state_scheme, unit) outcome" where
  "drop_inodes K s =
     andThen (iput K (pwd (cur s)) s) (\<lambda>_ s.
     let s = upd_cur (\<lambda>t. t\<lparr>pwd := None\<rparr>) s in
     andThen (iput K (root (cur s)) s) (\<lambda>_ s.
     let s = upd_cur (\<lambda>t. t\<lparr>root := None\<rparr>) s in
     andThen (iput K (executable (cur s)) s) (\<lambda>_ s. Ret () (upd_cur (\<lambda>t. t\<lparr>executable := None\<rparr>) s))))"

text \<open>It returns -1 when the process, a zombie by then, is made to run again.\<close>

definition do_exit :: "'a fs_state_scheme kernel_env \<Rightarrow> s32 \<Rightarrow> 'a fs_state_scheme \<Rightarrow> ('a fs_state_scheme, int) outcome" where
  "do_exit K code s =
     andThen (free_page_tables (get_base (ldt (cur s) 1)) (get_limit (ldt (cur s) 1)) s) (\<lambda>_ s.
     andThen (free_page_tables (get_base (ldt (cur s) 2)) (get_limit (ldt (cur s) 2)) s) (\<lambda>_ s.
     andThen (close_all K (fold orphan [0..<NR_TASKS] s)) (\<lambda>_ s.
     andThen (drop_inodes K s) (\<lambda>_ s.
     let s = (if leader (cur s) \<noteq> 0 \<and> 0 \<le>s tty (cur s)
              then s\<lparr>tty_pgrp := (tty_pgrp s)(unat (tty (cur s)) := 0)\<rparr> else s);
         s = (if last_task_used_math s = current s then s\<lparr>last_task_used_math := 0\<rparr> else s);
         s = (if leader (cur s) \<noteq> 0 then kill_session s else s);
         s = upd_cur (\<lambda>t. t\<lparr>state := TASK_ZOMBIE, exit_code := code\<rparr>) s in
     andThen (tell_father (bound K) (others K) (father (cur s)) s) (\<lambda>_ s.
     andThen (schedule (bound K) s) (\<lambda>_ s. Ret (-1) (others K s)))))))"

definition sys_exit :: "'a fs_state_scheme kernel_env \<Rightarrow> s32 \<Rightarrow> 'a fs_state_scheme \<Rightarrow> ('a fs_state_scheme, int) outcome" where
  "sys_exit K error_code s = do_exit K (push_bit 8 (error_code AND 0xff)) s"

section \<open>Page faults\<close>

text \<open>From the last slot to slot 1.\<close>

fun share_scan :: "nat \<Rightarrow> u32 \<Rightarrow> 'a sched_state_scheme \<Rightarrow> ('a sched_state_scheme, int) outcome" where
  "share_scan 0 address s = Ret 0 s"
| "share_scan (Suc i) address s =
     (let p = task s (Suc i) in
      if p = 0 \<or> p = current s \<or> executable (tasks s p) \<noteq> executable (cur s) then share_scan i address s
      else andThen (try_to_share address (start_code (tasks s p)) (start_code (cur s)) s) (\<lambda>r s.
        if r \<noteq> 0 then Ret 1 s else share_scan i address s))"

definition share_page :: "u32 \<Rightarrow> 'a fs_state_scheme \<Rightarrow> ('a fs_state_scheme, int) outcome" where
  "share_page address s =
     (case executable (cur s) of
        None \<Rightarrow> Ret 0 s
      | Some i \<Rightarrow> if i_count (inode_table s i) < 2 then Ret 0 s else share_scan (NR_TASKS - 1) address s)"

text \<open>The block numbers of the four blocks of a page.\<close>

fun bmap_blocks :: "'a fs_state_scheme kernel_env \<Rightarrow> nat \<Rightarrow> s32 \<Rightarrow> nat \<Rightarrow> 'a fs_state_scheme \<Rightarrow> ('a fs_state_scheme, u32 list) outcome" where
  "bmap_blocks K 0 block i s = Ret [] s"
| "bmap_blocks K (Suc n) block i s =
     andThen (bmap K i block s) (\<lambda>nr s. andThen (bmap_blocks K n (block + 1) i s) (\<lambda>nrs s. Ret (nr # nrs) s))"

text \<open>The end of the page, beyond \<open>end_data\<close>: \<open>n\<close> bytes below \<open>e\<close>.\<close>

fun clear_tail :: "nat \<Rightarrow> u32 \<Rightarrow> 'a mm_state_scheme \<Rightarrow> 'a mm_state_scheme" where
  "clear_tail 0 e s = s"
| "clear_tail (Suc n) e s = clear_tail n (e - 1) (put_kbyte 0 (e - 1) s)"

definition do_no_page :: "'a fs_state_scheme kernel_env \<Rightarrow> u32 \<Rightarrow> 'a fs_state_scheme \<Rightarrow> ('a fs_state_scheme, unit) outcome" where
  "do_no_page K address s =
     (let address = address AND 0xfffff000; tmp = address - start_code (cur s) in
      case executable (cur s) of
        None \<Rightarrow> get_empty_page address s
      | Some i \<Rightarrow>
          if end_data (cur s) \<le> tmp then get_empty_page address s
          else andThen (share_page tmp s) (\<lambda>r s.
            if r \<noteq> 0 then Ret () s
            else let (page, s) = get_free_page s in
            andThen (if page = 0 then oom s else Ret () s) (\<lambda>_ s.
            andThen (bmap_blocks K 4 (1 + tmp div 1024) i s) (\<lambda>nr s.
            andThen (bread_page K page (ucast (i_dev (inode_table s i))) nr s) (\<lambda>_ s.
            let n = nat (sint (tmp + 4096 - end_data (cur s))); s = clear_tail n (page + 4096) s;
                (r, s) = put_page page address s in
            if r \<noteq> 0 then Ret () s else andThen (free_page page s) (\<lambda>_ s. oom s))))))"

end
