(* ===== verification/Lifecycle_Properties.thy ===== *)
theory Lifecycle_Properties
  imports Lifecycle Memory_Properties Process_Properties Fs_Lemmas Fs_Examples
begin

text \<open>
  What \<open>copy_process\<close> makes: the child's structure and page tables, the counts of the files it shares, and, when
  memory runs out on the way, the state before.
\<close>

section \<open>Page table operations change frames and memory only\<close>

lemma mm_only_swap [simp]: "mm_only s (s\<lparr>pmem := pm, mem_map := mm\<rparr>)"
  unfolding mm_only_def by (intro exI [of _ mm] exI [of _ pm]) simp

lemma returns_conj_lets: "returns m P \<Longrightarrow> lets m Q \<Longrightarrow> returns m (\<lambda>a s. P a s \<and> Q a s)"
  by (cases m) auto

lemma copy_ptes_mm_only: "mm_only s (copy_ptes n f t s)"
proof (induction n arbitrary: f t s)
  case (Suc n)
  let ?u = "let this_page = pmem s f in
      if \<not> present this_page then s
      else let this_page = this_page AND NOT 2; s = set_pmem t this_page s in
        if LOW_MEM < this_page then
          let s = set_pmem f this_page s; i = MAP_NR this_page in s\<lparr>mem_map := (mem_map s)(i := mem_map s i + 1)\<rparr>
        else s"
  have "mm_only s ?u" by (simp add: Let_def)
  then show ?case using mm_only_trans [OF _ Suc.IH] by (simp only: copy_ptes.simps)
qed simp

lemma get_free_page_mm_only: "mm_only s (snd (get_free_page s))"
  by (cases rule: get_free_page_cases [of s]) simp_all

lemma copy_dirs_mm_only: "lets (copy_dirs nr n f t s) (\<lambda>_ u. mm_only s u)"
proof (induction n arbitrary: f t s)
  case (Suc n)
  show ?case
  proof (cases "present (pmem s t) \<or> \<not> present (pmem s f)")
    case True
    then show ?thesis using Suc.IH by auto
  next
    case False
    obtain p u where p: "get_free_page s = (p, u)" by fastforce
    let ?v = "copy_ptes nr (page_of (pmem s f)) p (set_pmem t (p OR 7) u)"
    have "mm_only s u" using get_free_page_mm_only [of s] p by simp
    then have "mm_only s ?v" using mm_only_trans copy_ptes_mm_only mm_only_upd(2) by blast
    then have "lets (copy_dirs nr n (f + 4) (t + 4) ?v) (\<lambda>_ w. mm_only s w)"
      using mm_only_trans by (blast intro: lets_mono [OF Suc.IH])
    then show ?thesis using False p \<open>mm_only s u\<close> by (simp add: Let_def)
  qed
qed simp

lemma free_page_mm_only: "lets (free_page p s) (\<lambda>_ u. mm_only s u)"
  by (simp add: free_page_def Let_def)

lemma free_ptes_mm_only: "lets (free_ptes n p s) (\<lambda>_ u. mm_only s u)"
proof (induction n arbitrary: p s)
  case (Suc n)
  have "lets (if present (pmem s p) then free_page (page_of (pmem s p)) s else Ret () s) (\<lambda>_ u. mm_only s u)"
    using free_page_mm_only by auto
  moreover have "lets (free_ptes n (p + 4) (set_pmem p 0 u)) (\<lambda>_ v. mm_only s v)" if "mm_only s u" for u
    using mm_only_trans [OF that mm_only_trans [OF mm_only_upd(2)]] by (blast intro: lets_mono [OF Suc.IH])
  ultimately show ?case unfolding free_ptes.simps lets_andThen by (blast intro: lets_mono)
qed simp

lemma free_dirs_mm_only: "lets (free_dirs n d s) (\<lambda>_ u. mm_only s u)"
proof (induction n arbitrary: d s)
  case (Suc n)
  show ?case
  proof (cases "present (pmem s d)")
    case True
    have "lets (andThen (free_page p u) (\<lambda>_ s. free_dirs n (d + 4) (set_pmem d 0 s))) (\<lambda>_ v. mm_only s v)" if u: "mm_only s u" for u p
      unfolding lets_andThen
    proof (rule lets_mono [OF free_page_mm_only])
      fix a v assume "mm_only u v"
      then have "mm_only s (set_pmem d 0 v)" using u mm_only_trans mm_only_upd(2) by blast
      then show "lets (free_dirs n (d + 4) (set_pmem d 0 v)) (\<lambda>_ v. mm_only s v)"
        using mm_only_trans by (blast intro: lets_mono [OF Suc.IH])
    qed
    then have "lets (andThen (free_ptes 1024 (page_of (pmem s d)) s) (\<lambda>_ u.
        andThen (free_page (page_of (pmem u d)) u) (\<lambda>_ s. free_dirs n (d + 4) (set_pmem d 0 s)))) (\<lambda>_ v. mm_only s v)"
      unfolding lets_andThen [of "free_ptes 1024 (page_of (pmem s d)) s"] by (blast intro: lets_mono [OF free_ptes_mm_only])
    then show ?thesis using True by simp
  qed (use Suc.IH in simp)
qed simp

section \<open>The memory of the child\<close>

lemma mm_inv_fields:
  assumes "pmem t = pmem s" and "mem_map t = mem_map s" and "high_memory t = high_memory s"
  shows "mm_inv ext t = mm_inv ext s"
  using assms by (simp add: mm_inv_def user_table_def)

text \<open>\<open>copy_mem\<close> between two slots of 64MB.\<close>

definition slot_base :: "nat \<Rightarrow> u32" where
  "slot_base n = of_nat n * 0x4000000"

lemma slot_base_dirs:
  assumes "n < 64"
  shows "unat (slot_base n) div 4194304 = 16 * n" and "slot_base n AND 0x3fffff = 0" and "0 < n \<Longrightarrow> slot_base n \<noteq> 0"
proof -
  have u: "unat (slot_base n) = n * 67108864" using assms by (simp add: slot_base_def unat_word_ariths unsigned_of_nat take_bit_nat_eq_self)
  then show "unat (slot_base n) div 4194304 = 16 * n" by simp
  show "0 < n \<Longrightarrow> slot_base n \<noteq> 0" using u by auto
  have "unat (slot_base n AND 0x3fffff) = unat (slot_base n) mod 4194304"
    using unat_and_mask [of 22 "slot_base n"] by (simp add: mask_eq_exp_minus_1)
  then show "slot_base n AND 0x3fffff = 0" using u by (simp add: word_unat_eq_iff)
qed

definition slot_dirs :: "u32 \<Rightarrow> nat" where
  "slot_dirs limit = unat (drop_bit 22 (limit + 0x3fffff))"

lemma slot_dirs_le: "unat limit \<le> 0x4000000 \<Longrightarrow> slot_dirs limit \<le> 16"
  by (simp add: slot_dirs_def unat_drop_bit_eq drop_bit_eq_div unat_word_ariths)

definition child_space :: "nat \<Rightarrow> task_struct \<Rightarrow> task_struct" where
  "child_space nr t = t\<lparr>start_code := slot_base nr,
     ldt := (ldt t)(1 := set_base (ldt t 1) (slot_base nr), 2 := set_base (ldt t 2) (slot_base nr))\<rparr>"

lemma copy_mem_ok:
  fixes s :: "'a proc_state_scheme"
  assumes inv: "mm_inv ext s"
    and base: "get_base (ldt (cur s) 1) = slot_base c" "get_base (ldt (cur s) 2) = slot_base c" "0 < c" "c < 64"
    and lim: "get_limit (ldt (cur s) 1) \<le> get_limit (ldt (cur s) 2)" "unat (get_limit (ldt (cur s) 2)) \<le> 0x4000000"
    and nr: "0 < nr" "nr < 64" "nr \<noteq> c"
    and fresh: "\<forall>j<16. \<not> present (pmem s (pde (16 * nr + j)))"
    and cnt: "\<forall>i<PAGING_PAGES. unat (mem_map s i) < 128"
  shows "returns (copy_mem nr p s) (\<lambda>e t. mm_inv ext t \<and> mm_only (upd_task p (child_space nr) s) t \<and>
    (e = 0 \<and> dirs_copied (16 * c) (16 * nr) (slot_dirs (get_limit (ldt (cur s) 2))) s t \<or>
     e = - ENOMEM \<and> free_frames s < tables_in (pmem s) (16 * c) (slot_dirs (get_limit (ldt (cur s) 2)))))"
proof -
  define u where "u = upd_task p (child_space nr) s"
  let ?n = "slot_dirs (get_limit (ldt (cur s) 2))" and ?L = "get_limit (ldt (cur s) 2)"
  have n: "?n \<le> 16" using lim(2) by (rule slot_dirs_le)
  have inv_u: "mm_inv ext u" using mm_inv_fields [of u s ext] inv by (simp add: u_def)
  have lt: "unat (mem_map u i) + named_in_dirs (pmem u) (16 * c) ?n i < 256" if "i < PAGING_PAGES" for i
    using named_in_dirs_le [of "16 * c" ?n "pmem u" i] mm_inv_count [OF inv_u that] cnt that n base(3,4) by (fastforce simp: u_def)
  have disj: "16 * c + ?n \<le> 16 * nr \<or> 16 * nr + ?n \<le> 16 * c" using n nr(3) by linarith
  have "returns (copy_dirs 1024 ?n (pde (16 * c)) (pde (16 * nr)) u) (\<lambda>r t. mm_inv ext t \<and> copy_post (16 * c) (16 * nr) ?n u r t)"
    using lt fresh n nr base(3,4) disj inv_u by (intro copy_dirs_ok) (simp_all add: u_def)
  then have "returns (copy_dirs 1024 ?n (pde (16 * c)) (pde (16 * nr)) u)
      (\<lambda>r t. (mm_inv ext t \<and> copy_post (16 * c) (16 * nr) ?n u r t) \<and> mm_only u t)"
    by (rule returns_conj_lets [OF _ copy_dirs_mm_only])
  then have copied: "returns (copy_page_tables (slot_base c) (slot_base nr) ?L u)
      (\<lambda>r t. (mm_inv ext t \<and> copy_post (16 * c) (16 * nr) ?n u r t) \<and> mm_only u t)"
    using slot_base_dirs [OF base(4)] slot_base_dirs [OF nr(2)] base(3)
    by (simp only: copy_page_tables_def dir_entry_addr_pde slot_dirs_def) simp
  have freed: "returns (free_page_tables (slot_base nr) ?L t) (\<lambda>_ v. mm_inv ext v \<and> mm_only t v)" if "mm_inv ext t" for t :: "'a proc_state_scheme"
  proof -
    have "returns (free_dirs ?n (pde (16 * nr)) t) (\<lambda>_ v. mm_inv ext v \<and> frees_dirs (16 * nr) ?n t v)"
      using free_dirs_ok [OF that, of "16 * nr" ?n] n nr by simp
    then have "returns (free_dirs ?n (pde (16 * nr)) t) (\<lambda>_ v. (mm_inv ext v \<and> frees_dirs (16 * nr) ?n t v) \<and> mm_only t v)"
      by (rule returns_conj_lets [OF _ free_dirs_mm_only])
    then show ?thesis using slot_base_dirs [OF nr(2)] nr(1)
      by (simp only: free_page_tables_def dir_entry_addr_pde slot_dirs_def) (auto elim: returns_mono)
  qed
  have "returns (copy_mem nr p s) (\<lambda>e t. mm_inv ext t \<and> mm_only u t \<and>
    (e = 0 \<and> dirs_copied (16 * c) (16 * nr) ?n u t \<or> e = - ENOMEM \<and> free_frames u < tables_in (pmem u) (16 * c) ?n))"
  proof -
    have v: "upd_task p (\<lambda>t. t\<lparr>ldt := (ldt t)(2 := set_base (ldt t 2) (slot_base nr))\<rparr>)
        (upd_task p (\<lambda>t. t\<lparr>ldt := (ldt t)(1 := set_base (ldt t 1) (slot_base nr))\<rparr>)
          (upd_task p (\<lambda>t. t\<lparr>start_code := slot_base nr\<rparr>) s)) = u"
      by (simp add: u_def upd_task_def child_space_def)
    have "copy_mem nr p s = andThen (copy_page_tables (slot_base c) (slot_base nr) ?L u) (\<lambda>r t.
        if r \<noteq> 0 then andThen (free_page_tables (slot_base nr) ?L t) (\<lambda>_ t. Ret (- ENOMEM) t) else Ret 0 t)"
      unfolding copy_mem_def Let_def slot_base_def [symmetric, of nr] v using base leD [OF lim(1)] by simp
    then show ?thesis using mm_only_trans
      by (auto simp: copy_post_def intro!: returns_mono [OF copied] returns_mono [OF freed])
  qed
  then show ?thesis by (elim returns_mono) (simp add: u_def dirs_copied_def free_frames_def)
qed

section \<open>Descriptors\<close>

lemma bit_f: "bit (0xffff::u32) n \<longleftrightarrow> n < 16" "bit (0xff::u32) n \<longleftrightarrow> n < 8" "bit (0xff000000::u32) n \<longleftrightarrow> 24 \<le> n \<and> n < 32"
    "bit (0x00ffff00::u32) n \<longleftrightarrow> 8 \<le> n \<and> n < 24" "bit (0x000f0000::u32) n \<longleftrightarrow> 16 \<le> n \<and> n < 20"
proof -
  have 1: "(0xffff::u32) = mask 16" "(0xff::u32) = mask 8" "(0xff000000::u32) = push_bit 24 (mask 8)"
    "(0x00ffff00::u32) = push_bit 8 (mask 16)" "(0x000f0000::u32) = push_bit 16 (mask 4)"
    by (simp_all add: mask_eq_exp_minus_1)
  show "bit (0xffff::u32) n \<longleftrightarrow> n < 16" "bit (0xff::u32) n \<longleftrightarrow> n < 8" "bit (0xff000000::u32) n \<longleftrightarrow> 24 \<le> n \<and> n < 32"
    "bit (0x00ffff00::u32) n \<longleftrightarrow> 8 \<le> n \<and> n < 24" "bit (0x000f0000::u32) n \<longleftrightarrow> 16 \<le> n \<and> n < 20"
    unfolding 1 by (auto simp: bit_mask_iff bit_push_bit_iff)
qed

lemma bit_u32: "bit (x::u32) n \<Longrightarrow> n < 32"
  by (auto dest: bit_imp_le_length)

lemmas desc_bits = bit_f bit_or_iff bit_and_iff bit_push_bit_iff bit_drop_bit_eq o_apply desc_struct.select_convs

lemma base_set_base [simp]: "get_base (set_base d b) = b"
proof (rule bit_word_eqI)
  fix n assume "n < LENGTH(32)"
  then have n: "n < 32" by simp
  consider "n < 8" | "8 \<le> n \<and> n < 16" | "16 \<le> n \<and> n < 24" | "24 \<le> n" by linarith
  then show "bit (get_base (set_base d b)) n \<longleftrightarrow> bit b n"
    using n unfolding get_base_def set_base_def desc_bits by cases auto
qed

lemma limit_set_base [simp]: "get_limit (set_base d b) = get_limit d"
proof -
  let ?e = "set_base d b"
  have a: "desc_a ?e AND 0xffff = desc_a d AND 0xffff"
    by (rule bit_word_eqI, unfold set_base_def desc_bits) auto
  have b: "desc_b ?e AND 0x000f0000 = desc_b d AND 0x000f0000"
    by (rule bit_word_eqI, unfold set_base_def desc_bits) (auto dest: bit_u32)
  have "bit (desc_b ?e) 23 = bit (desc_b d) 23"
    unfolding set_base_def desc_bits by simp
  then show ?thesis using a b by (simp add: get_limit_def)
qed

lemma no_bit: "unat (x::u32) < 2 ^ m \<Longrightarrow> m \<le> k \<Longrightarrow> \<not> bit x k"
proof -
  assume x: "unat x < 2 ^ m" and "m \<le> k"
  then have "(2::nat) ^ m \<le> 2 ^ k" by (intro power_increasing) simp_all
  then have "unat x div 2 ^ k = 0" by (intro div_less less_le_trans [OF x])
  then show "\<not> bit x k" by (metis bit_iff_odd bit_unsigned_iff even_zero possible_bit_nat)
qed

lemma base_tssldt [simp]: "ty < 0x100 \<Longrightarrow> get_base (tssldt_desc a ty) = a"
proof (rule bit_word_eqI)
  fix n assume ty: "ty < 0x100" and "n < LENGTH(32)"
  then have n: "n < 32" by simp
  have t: "\<not> bit ty k" if "8 \<le> k" for k
    using ty that no_bit [of ty 8 k] by (simp add: word_less_nat_alt)
  have c: "\<not> bit (104::u32) k" if "16 \<le> k" for k
    using that no_bit [of 104 16 k] by simp
  consider "n < 8" | "8 \<le> n \<and> n < 16" | "16 \<le> n \<and> n < 24" | "24 \<le> n" by linarith
  then show "bit (get_base (tssldt_desc a ty)) n \<longleftrightarrow> bit a n"
    using n t c unfolding get_base_def tssldt_desc_def desc_bits by cases auto
qed

section \<open>What parent and child share\<close>

definition uses :: "'b option list \<Rightarrow> 'b \<Rightarrow> nat" where
  "uses xs x = length (filter ((=) (Some x)) xs)"

definition open_files :: "task_struct \<Rightarrow> nat option list" where
  "open_files t = map (filp t) [0..<20]"

lemma fold_file_ref:
  "fold (\<lambda>i s. add_file_ref (filp (tasks s p) i) s) is s =
     s\<lparr>file_table := (\<lambda>f. (file_table s f)\<lparr>f_count := f_count (file_table s f) + of_nat (uses (map (filp (tasks s p)) is) f)\<rparr>)\<rparr>"
proof (induction "is" arbitrary: s)
  case (Cons i "is")
  then show ?case
    by (cases "filp (tasks s p) i") (auto simp: add_file_ref_def upd_file_def uses_def fun_eq_iff algebra_simps)
qed (simp add: uses_def)

lemma fold_inode_ref:
  "fold add_inode_ref rs s =
     s\<lparr>inode_table := (\<lambda>i. (inode_table s i)\<lparr>i_count := i_count (inode_table s i) + of_nat (uses rs i)\<rparr>)\<rparr>"
proof (induction rs arbitrary: s)
  case (Cons r rs)
  then show ?case by (cases r) (auto simp: add_inode_ref_def upd_inode_def uses_def fun_eq_iff algebra_simps)
qed (simp add: uses_def)

lemma share_files_eq:
  "share_files p s = s\<lparr>
     inode_table := (\<lambda>i. (inode_table s i)\<lparr>i_count := i_count (inode_table s i) +
       of_nat (uses [pwd (cur s), root (cur s), executable (cur s)] i)\<rparr>),
     file_table := (\<lambda>f. (file_table s f)\<lparr>f_count := f_count (file_table s f) + of_nat (uses (open_files (tasks s p)) f)\<rparr>)\<rparr>"
proof -
  let ?t = "fold (\<lambda>i s. add_file_ref (filp (tasks s p) i) s) [0..<NR_OPEN] s"
  have t: "tasks ?t = tasks s" "current ?t = current s" "inode_table ?t = inode_table s" unfolding fold_file_ref by simp_all
  have c: "cur (add_inode_ref i u) = cur u" for i and u :: "'b fs_state_scheme" by (simp add: add_inode_ref_def split: option.split)
  have "share_files p s = fold add_inode_ref [pwd (cur s), root (cur s), executable (cur s)] ?t"
    using t by (simp add: share_files_def Let_def c)
  then show ?thesis unfolding fold_inode_ref using t by (simp add: fold_file_ref open_files_def)
qed

section \<open>fork\<close>

text \<open>What the child has afresh, what it inherits, and its task state segment, whose coprocessor part is \<open>f\<close>, when it is made runnable.\<close>

definition fresh_fields :: "nat \<Rightarrow> s32 \<Rightarrow> s32 \<Rightarrow> task_struct \<Rightarrow> task_struct \<Rightarrow> bool" where
  "fresh_fields nr new_pid now parent c \<longleftrightarrow>
     state c = TASK_RUNNING \<and> pid c = new_pid \<and> father c = pid parent \<and> counter c = priority parent \<and> signal c = 0 \<and>
     alarm c = 0 \<and> leader c = 0 \<and> utime c = 0 \<and> stime c = 0 \<and> cutime c = 0 \<and> cstime c = 0 \<and> start_time c = now \<and>
     start_code c = slot_base nr \<and> get_base (ldt c 1) = slot_base nr \<and> get_base (ldt c 2) = slot_base nr \<and>
     get_limit (ldt c 1) = get_limit (ldt parent 1) \<and> get_limit (ldt c 2) = get_limit (ldt parent 2) \<and>
     ldt c = (ldt parent)(1 := set_base (ldt parent 1) (slot_base nr), 2 := set_base (ldt parent 2) (slot_base nr))"

definition inherited_fields :: "task_struct \<Rightarrow> task_struct \<Rightarrow> bool" where
  "inherited_fields parent c \<longleftrightarrow>
     priority c = priority parent \<and> sigaction c = sigaction parent \<and> blocked c = blocked parent \<and> exit_code c = exit_code parent \<and>
     end_code c = end_code parent \<and> end_data c = end_data parent \<and> brk c = brk parent \<and> start_stack c = start_stack parent \<and>
     pgrp c = pgrp parent \<and> session c = session parent \<and> uid c = uid parent \<and> euid c = euid parent \<and> suid c = suid parent \<and>
     gid c = gid parent \<and> egid c = egid parent \<and> sgid c = sgid parent \<and> used_math c = used_math parent \<and> tty c = tty parent \<and>
     umask c = umask parent \<and> pwd c = pwd parent \<and> root c = root parent \<and> executable c = executable parent \<and>
     close_on_exec c = close_on_exec parent \<and> filp c = filp parent"

definition child_registers :: "nat \<Rightarrow> u32 \<Rightarrow> fork_regs \<Rightarrow> i387_struct \<Rightarrow> tss_struct \<Rightarrow> bool" where
  "child_registers nr p r f t \<longleftrightarrow>
     tss_eax t = 0 \<and> tss_ebx t = r_ebx r \<and> tss_ecx t = r_ecx r \<and> tss_edx t = r_edx r \<and> tss_esi t = r_esi r \<and> tss_edi t = r_edi r \<and>
     tss_ebp t = r_ebp r \<and> tss_esp t = r_esp r \<and> tss_eip t = r_eip r \<and> tss_eflags t = r_eflags r \<and>
     tss_cs t = r_cs r AND 0xffff \<and> tss_ds t = r_ds r AND 0xffff \<and> tss_es t = r_es r AND 0xffff \<and>
     tss_fs t = r_fs r AND 0xffff \<and> tss_gs t = r_gs r AND 0xffff \<and> tss_ss t = r_ss r AND 0xffff \<and>
     tss_esp0 t = p + 4096 \<and> tss_ss0 t = 0x10 \<and> tss_ldt t = 16 * of_nat nr + 0x28 \<and> tss_back_link t = 0 \<and> tss_trace_bitmap t = 0x80000000 \<and> i387 t = f"

definition is_child :: "nat \<Rightarrow> u32 \<Rightarrow> fork_regs \<Rightarrow> 'a fs_state_scheme \<Rightarrow> task_struct \<Rightarrow> bool" where
  "is_child nr p r s c \<longleftrightarrow>
     fresh_fields nr (last_pid s) (jiffies s) (cur s) c \<and> inherited_fields (cur s) c \<and>
     child_registers nr p r (if last_task_used_math s = current s then fpu s else i387 (tss (cur s))) (tss c)"

text \<open>What \<open>copy_process\<close> does to the memory, and to the tables of files and i-nodes, when it succeeds; nothing else of the state changes.
  The coprocessor has been initialised when its contents were the parent's.\<close>

definition forked :: "i387_struct \<Rightarrow> nat \<Rightarrow> fork_regs \<Rightarrow> nat \<Rightarrow> 'a gdt_state_scheme \<Rightarrow> u32 \<Rightarrow> 'a gdt_state_scheme \<Rightarrow> bool" where
  "forked fninit nr r c s p t \<longleftrightarrow>
     t = s\<lparr>task := (task s)(nr := p), tasks := (tasks s)(p := tasks t p), mem_map := mem_map t, pmem := pmem t,
       fpu := (if last_task_used_math s = current s then fninit else fpu s),
       file_table := (\<lambda>f. (file_table s f)\<lparr>f_count := f_count (file_table s f) + of_nat (uses (open_files (cur s)) f)\<rparr>),
       inode_table := (\<lambda>i. (inode_table s i)\<lparr>i_count := i_count (inode_table s i) +
         of_nat (uses [pwd (cur s), root (cur s), executable (cur s)] i)\<rparr>),
       gdt := (gdt s)(2 * nr + 4 := gdt t (2 * nr + 4), 2 * nr + 5 := gdt t (2 * nr + 5))\<rparr> \<and>
     is_child nr p r s (tasks t p) \<and>
     (\<forall>j < slot_dirs (get_limit (ldt (cur s) 2)). \<forall>k<1024.
        entry_at (pmem t) (16 * nr + j) k = map_option read_only (entry_at (pmem s) (16 * c + j) k) \<and>
        entry_at (pmem t) (16 * c + j) k = map_option read_only_main (entry_at (pmem s) (16 * c + j) k)) \<and>
     get_base (gdt t (2 * nr + 4)) = p + tss_offset \<and> get_base (gdt t (2 * nr + 5)) = p + ldt_offset"

text \<open>A fork that fails: only frames and memory, structures in frames that were free, and the coprocessor's contents may differ.\<close>

definition not_forked :: "i387_struct \<Rightarrow> 'a gdt_state_scheme \<Rightarrow> 'a gdt_state_scheme \<Rightarrow> bool" where
  "not_forked fninit s t \<longleftrightarrow>
     t = s\<lparr>tasks := tasks t, mem_map := mem_map t, pmem := pmem t, fpu := fpu t\<rparr> \<and>
     (\<forall>q. (\<forall>i<PAGING_PAGES. mem_map s i = 0 \<longrightarrow> q \<noteq> frame_addr i) \<longrightarrow> tasks t q = tasks s q) \<and>
     (fpu t = fpu s \<or> last_task_used_math s = current s \<and> fpu t = fninit)"

lemma entry_at_clear:
  assumes inv: "mm_inv ext s" and i: "i < PAGING_PAGES" "mem_map s i = 0" and d: "d \<in> udirs" "k < 1024"
  shows "entry_at (clear_page (frame_addr i) (pmem s)) d k = entry_at (pmem s) d k"
proof -
  have 1: "clear_page (frame_addr i) (pmem s) (pde d) = pmem s (pde d)"
    using d i by (intro clear_page_other) auto
  have "clear_page (frame_addr i) (pmem s) (page_of (pmem s (pde d)) + pde k) = pmem s (page_of (pmem s (pde d)) + pde k)"
    if "present (pmem s (pde d))"
  proof -
    have "user_table s (page_of (pmem s (pde d)))" using that d(1) by (auto simp: user_table_def)
    then show ?thesis using i d(2) mm_inv_free_frame(4) [OF inv i] by (intro clear_page_other) auto
  qed
  then show ?thesis using 1 by (auto simp: entry_at_def)
qed

lemma mm_inv_give_back:
  assumes inv: "mm_inv (ext(i := 1)) s" and i: "i < PAGING_PAGES" "ext i = 0" "frame_addr i < high_memory s"
  shows "\<exists>mm. free_page (frame_addr i) s = Ret () (s\<lparr>mem_map := mm\<rparr>) \<and> mm_inv ext (s\<lparr>mem_map := mm\<rparr>)"
proof -
  have c: "unat (mem_map s i) = refs (pmem s) i + 1" using mm_inv_count [OF inv i(1)] by simp
  then have nz: "mem_map s i \<noteq> 0" by auto
  let ?mm = "(mem_map s)(i := mem_map s i - 1)"
  have f: "free_page (frame_addr i) s = Ret () (s\<lparr>mem_map := ?mm\<rparr>)"
    using free_page_ok [of "frame_addr i" s] i nz by simp
  have "mm_inv ext (s\<lparr>mem_map := ?mm, pmem := pmem s\<rparr>)"
  proof (rule mm_inv_cong [OF inv])
    show "ext (MAP_NR t) = 0" if "user_table s t" for t
      using mm_inv_ext_unchanged(1) [OF inv that] i(2) by (cases "MAP_NR t = i") simp_all
    show "0 < ext j" if "j < PAGING_PAGES" "high_memory s \<le> frame_addr j" for j
      using mm_inv_ext_unchanged(2) [OF inv that] that(2) i(3) by (cases "j = i") (simp_all add: not_less [symmetric])
    show "unat (?mm j) + (ext(i := 1)) j = unat (mem_map s j) + ext j" if "j < PAGING_PAGES" for j
      using c i(2) unat_minus_1 [OF nz] by simp
  qed simp_all
  then show ?thesis using f by auto
qed

lemma gdt_upd_task [simp]: "gdt (upd_task p f s) = gdt s"
  by (simp add: upd_task_def)

text \<open>The state in which \<open>copy_process\<close> calls \<open>copy_mem\<close>, with the new page \<open>p\<close>.\<close>

definition new_child :: "i387_struct \<Rightarrow> nat \<Rightarrow> fork_regs \<Rightarrow> u32 \<Rightarrow> 'a gdt_state_scheme \<Rightarrow> 'a gdt_state_scheme" where
  "new_child fninit nr r p s =
     (let s = upd_task p (\<lambda>_. child_task nr p r s) (s\<lparr>task := (task s)(nr := p)\<rparr>) in
      if last_task_used_math s = current s then (upd_task p (\<lambda>t. t\<lparr>tss := (tss t)\<lparr>i387 := fpu s\<rparr>\<rparr>) s)\<lparr>fpu := fninit\<rparr> else s)"

lemma copy_process_eq:
  "copy_process fninit nr r s =
     (let (p, s) = get_free_page s in
      if p = 0 then Ret (- EAGAIN) s
      else andThen (copy_mem nr p (new_child fninit nr r p s)) (\<lambda>e s.
          if e \<noteq> 0 then andThen (free_page p (s\<lparr>task := (task s)(nr := 0)\<rparr>)) (\<lambda>_ s. Ret (- EAGAIN) s)
          else let s = share_files p s;
                   s = set_tss_desc (2 * nr + FIRST_TSS_ENTRY) (p + tss_offset) s;
                   s = set_ldt_desc (2 * nr + FIRST_LDT_ENTRY) (p + ldt_offset) s
               in Ret (sint (last_pid s)) (upd_task p (\<lambda>t. t\<lparr>state := TASK_RUNNING\<rparr>) s)))"
  by (simp add: copy_process_def new_child_def child_task_def Let_def split: prod.split)

lemma new_child_simps:
  assumes "p \<noteq> current s"
  shows "pmem (new_child fninit nr r p s) = pmem s" "mem_map (new_child fninit nr r p s) = mem_map s"
    "high_memory (new_child fninit nr r p s) = high_memory s" "current (new_child fninit nr r p s) = current s"
    "task (new_child fninit nr r p s) = (task s)(nr := p)" "q \<noteq> p \<Longrightarrow> tasks (new_child fninit nr r p s) q = tasks s q"
    "file_table (new_child fninit nr r p s) = file_table s" "inode_table (new_child fninit nr r p s) = inode_table s"
    "gdt (new_child fninit nr r p s) = gdt s" "last_pid (new_child fninit nr r p s) = last_pid s"
    "filp (tasks (new_child fninit nr r p s) p) = filp (cur s)"
    "fpu (new_child fninit nr r p s) = (if last_task_used_math s = current s then fninit else fpu s)"
    "is_child nr p r s ((child_space nr (tasks (new_child fninit nr r p s) p))\<lparr>state := TASK_RUNNING\<rparr>)"
proof -
  have f: "fresh_fields nr (last_pid s) (jiffies s) (cur s) ((child_space nr (tasks (new_child fninit nr r p s) p))\<lparr>state := TASK_RUNNING\<rparr>)"
    using assms by (simp add: fresh_fields_def child_space_def new_child_def Let_def upd_task_def child_task_def)
  have i: "inherited_fields (cur s) ((child_space nr (tasks (new_child fninit nr r p s) p))\<lparr>state := TASK_RUNNING\<rparr>)"
    using assms by (simp add: inherited_fields_def child_space_def new_child_def Let_def upd_task_def child_task_def)
  have ldt: "LDT_sel nr = 16 * of_nat nr + 0x28"
    by (simp add: LDT_sel_def push_bit_eq_mult)
  have r: "child_registers nr p r (if last_task_used_math s = current s then fpu s else i387 (tss (cur s)))
      (tss ((child_space nr (tasks (new_child fninit nr r p s) p))\<lparr>state := TASK_RUNNING\<rparr>))"
    using assms by (simp add: child_registers_def child_space_def new_child_def Let_def upd_task_def child_task_def child_tss_def ldt)
  show "is_child nr p r s ((child_space nr (tasks (new_child fninit nr r p s) p))\<lparr>state := TASK_RUNNING\<rparr>)"
    using f i r by (simp add: is_child_def)
qed (use assms in \<open>auto simp: new_child_def Let_def upd_task_def child_task_def\<close>)

text \<open>The rest of the state.\<close>

lemma new_child_frame:
  "new_child fninit nr r p s = s\<lparr>task := (task s)(nr := p), tasks := (tasks s)(p := tasks (new_child fninit nr r p s) p),
     fpu := fpu (new_child fninit nr r p s)\<rparr>"
  by (rule gdt_state.equality) (simp_all add: new_child_def Let_def upd_task_def)

lemma forked_child:
  fixes s :: "'a gdt_state_scheme"
  assumes p: "p \<noteq> current s" and nr: "nr < 64"
    and t: "mm_only (upd_task p (child_space nr) (new_child fninit nr r p s)) t"
    and e: "\<And>j k. j < slot_dirs (get_limit (ldt (cur s) 2)) \<Longrightarrow> k < 1024 \<Longrightarrow>
        entry_at (pmem t) (16 * nr + j) k = map_option read_only (entry_at (pmem s) (16 * c + j) k) \<and>
        entry_at (pmem t) (16 * c + j) k = map_option read_only_main (entry_at (pmem s) (16 * c + j) k)"
  shows "forked fninit nr r c s p (upd_task p (\<lambda>t. t\<lparr>state := TASK_RUNNING\<rparr>)
    (set_ldt_desc (2 * nr + 5) (p + ldt_offset) (set_tss_desc (2 * nr + 4) (p + tss_offset) (share_files p t))))"
proof -
  note n = new_child_simps [OF p]
  obtain mm pm where t_eq: "t = (upd_task p (child_space nr) (new_child fninit nr r p s))\<lparr>mem_map := mm, pmem := pm\<rparr>"
    using t by (auto simp: mm_only_def)
  have f: "open_files (tasks t p) = open_files (cur s)" by (simp add: t_eq n open_files_def child_space_def)
  have c: "cur t = cur s" using p by (simp add: t_eq n)
  let ?N = "new_child fninit nr r p s"
  have "upd_task p (\<lambda>t. t\<lparr>state := TASK_RUNNING\<rparr>) (set_ldt_desc (2 * nr + 5) (p + ldt_offset) (set_tss_desc (2 * nr + 4) (p + tss_offset) (share_files p t))) =
    s\<lparr>task := (task s)(nr := p), tasks := (tasks s)(p := (child_space nr (tasks ?N p))\<lparr>state := TASK_RUNNING\<rparr>), mem_map := mm, pmem := pm,
       fpu := fpu ?N,
       file_table := (\<lambda>f. (file_table s f)\<lparr>f_count := f_count (file_table s f) + of_nat (uses (open_files (cur s)) f)\<rparr>),
       inode_table := (\<lambda>i. (inode_table s i)\<lparr>i_count := i_count (inode_table s i) +
         of_nat (uses [pwd (cur s), root (cur s), executable (cur s)] i)\<rparr>),
       gdt := (gdt s)(2 * nr + 4 := tssldt_desc (p + tss_offset) 0x89, 2 * nr + 5 := tssldt_desc (p + ldt_offset) 0x82)\<rparr>"
    unfolding share_files_eq f c set_ldt_desc_def set_tss_desc_def
    by (rule gdt_state.equality) (simp_all add: t_eq n new_child_def Let_def upd_task_def fun_eq_iff)
  then show ?thesis unfolding forked_def using n e p by (simp add: t_eq)
qed

lemma fork_failed:
  fixes s :: "'a gdt_state_scheme"
  assumes inv: "mm_inv ext s" and i: "i < PAGING_PAGES" "mem_map s i = 0" and nr: "task s nr = 0"
    and w: "w = s\<lparr>mem_map := (mem_map s)(i := 1), pmem := m\<rparr>" and p: "frame_addr i \<noteq> current w"
    and t: "mm_inv (ext(i := 1)) t" "mm_only (upd_task (frame_addr i) f (new_child fninit nr r (frame_addr i) w)) t"
  shows "returns (andThen (free_page (frame_addr i) (t\<lparr>task := (task t)(nr := 0)\<rparr>)) (\<lambda>_ s. Ret (- EAGAIN) s))
    (\<lambda>e t. e = - EAGAIN \<and> mm_inv ext t \<and> not_forked fninit s t)"
proof -
  let ?t = "t\<lparr>task := (task t)(nr := 0)\<rparr>" and ?w = "new_child fninit nr r (frame_addr i) w"
  note n = new_child_simps [OF p] and free = mm_inv_free_frame [OF inv i]
  obtain mm pm where t_eq: "t = (upd_task (frame_addr i) f ?w)\<lparr>mem_map := mm, pmem := pm\<rparr>"
    using t(2) by (auto simp: mm_only_def)
  have "mm_inv (ext(i := 1)) ?t" using t(1) mm_inv_fields [of ?t t "ext(i := 1)"] by simp
  then obtain mm' where m: "free_page (frame_addr i) ?t = Ret () (?t\<lparr>mem_map := mm'\<rparr>)" "mm_inv ext (?t\<lparr>mem_map := mm'\<rparr>)"
    using mm_inv_give_back [of ext i ?t] i(1) free(2,3) n(3) by (auto simp: t_eq w)
  have "not_forked fninit s (?t\<lparr>mem_map := mm'\<rparr>)"
    unfolding not_forked_def
  proof (intro conjI)
    show "?t\<lparr>mem_map := mm'\<rparr> = s\<lparr>tasks := tasks (?t\<lparr>mem_map := mm'\<rparr>), mem_map := mem_map (?t\<lparr>mem_map := mm'\<rparr>),
        pmem := pmem (?t\<lparr>mem_map := mm'\<rparr>), fpu := fpu (?t\<lparr>mem_map := mm'\<rparr>)\<rparr>"
      using nr by (intro gdt_state.equality) (simp_all add: t_eq w new_child_def Let_def upd_task_def fun_eq_iff)
  qed (use n i in \<open>auto simp: t_eq w\<close>)
  then show ?thesis using m by simp
qed

lemma fork_copy_mem:
  fixes s :: "'a gdt_state_scheme"
  assumes inv: "mm_inv ext s" and i: "i < PAGING_PAGES" "mem_map s i = 0"
    and w: "w = s\<lparr>mem_map := (mem_map s)(i := 1), pmem := clear_page (frame_addr i) (pmem s)\<rparr>" and p: "frame_addr i \<noteq> current w"
    and base: "get_base (ldt (cur s) 1) = slot_base c" "get_base (ldt (cur s) 2) = slot_base c" "0 < c" "c < 64"
    and lim: "get_limit (ldt (cur s) 1) \<le> get_limit (ldt (cur s) 2)" "unat (get_limit (ldt (cur s) 2)) \<le> 0x4000000"
    and nr: "0 < nr" "nr < 64" "nr \<noteq> c"
    and fresh: "\<forall>j<16. \<not> present (pmem s (pde (16 * nr + j)))" and cnt: "\<forall>i<PAGING_PAGES. unat (mem_map s i) < 128"
  shows "returns (copy_mem nr (frame_addr i) (new_child fninit nr r (frame_addr i) w)) (\<lambda>e t. mm_inv (ext(i := 1)) t \<and>
    mm_only (upd_task (frame_addr i) (child_space nr) (new_child fninit nr r (frame_addr i) w)) t \<and>
    (e = 0 \<and> dirs_copied (16 * c) (16 * nr) (slot_dirs (get_limit (ldt (cur s) 2))) (new_child fninit nr r (frame_addr i) w) t \<or>
     e = - ENOMEM \<and> free_frames s \<le> tables_in (pmem s) (16 * c) (slot_dirs (get_limit (ldt (cur s) 2)))))"
proof -
  let ?p = "frame_addr i" and ?w = "new_child fninit nr r (frame_addr i) w"
  note n = new_child_simps [OF p]
  have cur: "cur ?w = cur s" using n p by (simp add: w)
  have inv_w: "mm_inv (ext(i := 1)) ?w"
    using mm_inv_get_free_page [OF inv i] n(1-3) mm_inv_fields [of ?w w "ext(i := 1)"] by (simp add: w)
  have dir: "clear_page ?p (pmem s) (pde d) = pmem s (pde d)" if "d \<in> udirs" for d
    using that i(1) by (intro clear_page_other) auto
  have fresh_w: "\<forall>j<16. \<not> present (pmem ?w (pde (16 * nr + j)))"
  proof (intro allI impI)
    fix j :: nat assume j: "j < 16"
    from dir [of "16 * nr + j"] show "\<not> present (pmem ?w (pde (16 * nr + j)))" using fresh j n(1) nr(1,2) by (simp add: w)
  qed
  have cnt_w: "\<forall>i<PAGING_PAGES. unat (mem_map ?w i) < 128" using cnt n(2) by (simp add: w)
  have few: "free_frames s \<le> tables_in (pmem s) (16 * c) m" if "free_frames ?w < tables_in (pmem ?w) (16 * c) m" "m \<le> 16" for m
  proof -
    have "free_frames s \<le> free_frames ?w + 1" by (rule free_frames_le [of s i]) (simp add: n(2), simp add: w)
    moreover have "tables_in (pmem ?w) (16 * c) m = tables_in (pmem s) (16 * c) m"
      unfolding n(1) using dir base(3,4) that(2) by (intro tables_in_cong) (simp add: w)
    ultimately show ?thesis using that(1) by simp
  qed
  show ?thesis
    using few [OF _ slot_dirs_le [OF lim(2)]] copy_mem_ok [OF inv_w _ _ base(3,4) _ _ nr fresh_w cnt_w, of ?p] base(1,2) lim unfolding cur by (auto elim!: returns_mono)
qed

lemma fork_done:
  fixes s :: "'a gdt_state_scheme"
  assumes inv: "mm_inv ext s" and i: "i < PAGING_PAGES" "mem_map s i = 0"
    and w: "w = s\<lparr>mem_map := (mem_map s)(i := 1), pmem := clear_page (frame_addr i) (pmem s)\<rparr>" and p: "frame_addr i \<noteq> current w"
    and c: "0 < c" "c < 64" and lim: "unat (get_limit (ldt (cur s) 2)) \<le> 0x4000000" and nr: "0 < nr" "nr < 64"
    and t: "mm_inv (ext(i := 1)) t" "mm_only (upd_task (frame_addr i) (child_space nr) (new_child fninit nr r (frame_addr i) w)) t"
      "dirs_copied (16 * c) (16 * nr) (slot_dirs (get_limit (ldt (cur s) 2))) (new_child fninit nr r (frame_addr i) w) t"
    and u: "u = upd_task (frame_addr i) (\<lambda>t. t\<lparr>state := TASK_RUNNING\<rparr>)
      (set_ldt_desc (2 * nr + 5) (frame_addr i + ldt_offset) (set_tss_desc (2 * nr + 4) (frame_addr i + tss_offset) (share_files (frame_addr i) t)))"
  shows "mm_inv (ext(i := 1)) u \<and> forked fninit nr r c s (frame_addr i) u \<and> last_pid t = last_pid s"
proof -
  let ?p = "frame_addr i" and ?w = "new_child fninit nr r (frame_addr i) w" and ?L = "get_limit (ldt (cur s) 2)"
  note n = new_child_simps [OF p]
  have N: "slot_dirs ?L \<le> 16" using lim by (rule slot_dirs_le)
  have cw: "cur w = cur s" by (simp add: w)
  have pm: "pmem w = pmem ?w" using n(1) by simp
  have f: "forked fninit nr r c w ?p u" unfolding u
    using t(3) by (intro forked_child [OF p nr(2) t(2)]) (simp add: cw pm dirs_copied_def)
  have "entry_at (pmem w) (16 * c + j) k = entry_at (pmem s) (16 * c + j) k" if "j < slot_dirs ?L" "k < 1024" for j k
    using entry_at_clear [OF inv i, of "16 * c + j" k] that N c by (simp add: w)
  note entries = this
  have wf: "task w = task s" "tasks w = tasks s" "current w = current s" "fpu w = fpu s" "last_task_used_math w = last_task_used_math s"
    "file_table w = file_table s" "inode_table w = inode_table s" "gdt w = gdt s" by (simp_all add: w)
  have child: "is_child nr ?p r w (tasks u ?p) = is_child nr ?p r s (tasks u ?p)" by (simp add: is_child_def w)
  have rest: "w\<lparr>task := T, tasks := S, mem_map := mm, pmem := pm, fpu := F, file_table := A, inode_table := B, gdt := G\<rparr> =
    s\<lparr>task := T, tasks := S, mem_map := mm, pmem := pm, fpu := F, file_table := A, inode_table := B, gdt := G\<rparr>" for T S F A B G mm pm
    by (simp add: w)
  have "forked fninit nr r c s ?p u" using f entries unfolding forked_def cw wf child rest by (intro conjI) simp_all
  moreover have "pmem u = pmem t" "mem_map u = mem_map t" "high_memory u = high_memory t"
    by (simp_all add: u set_ldt_desc_def set_tss_desc_def share_files_eq upd_task_def)
  then have "mm_inv (ext(i := 1)) u" using t(1) mm_inv_fields [of u t "ext(i := 1)"] by simp
  moreover have "last_pid t = last_pid s" using t(2) n(10) by (auto simp: mm_only_def upd_task_def w)
  ultimately show ?thesis by blast
qed

text \<open>C35: Fork. The memory accounting invariant holds, the running task has its 64MB slot \<open>c\<close> with a data limit of at most 64MB and not below the
  code limit, and a page that is in use; slot \<open>nr\<close> is free with no page tables, and no frame has 128 users or more. Then \<open>copy_process\<close>
  returns. Either the result is the new process number and the child's page
  \<open>p\<close> is in slot \<open>nr\<close>: each field of its structure is reset, inherited from the parent or, in the task state segment, set from the registers
  of the system call (it will return 0 at the parent's instruction, with its kernel stack at the end of \<open>p\<close>), with the parent's coprocessor
  contents, which the coprocessor itself has lost when they were in it; each
  open file, directory and executable has one reference more for each use of it, every page of the parent is shared read-only, the
  descriptors name the child's structure, the frames are accounted for with the child's page as the only one beside the
  page tables, and nothing else of the state changes. Or there were not enough free frames for the child's page and the page tables of the parent's
  data, the result is \<open>-EAGAIN\<close>, and every frame taken on the way was given back: the
  invariant holds with the same pages outside the page tables as before, and nothing but frames, memory and the coprocessor changes.\<close>

theorem fork_correct:
  fixes s :: "'a gdt_state_scheme"
  assumes inv: "mm_inv ext s"
    and base: "get_base (ldt (cur s) 1) = slot_base c" "get_base (ldt (cur s) 2) = slot_base c" "0 < c" "c < 64"
    and lim: "get_limit (ldt (cur s) 1) \<le> get_limit (ldt (cur s) 2)" "unat (get_limit (ldt (cur s) 2)) \<le> 0x4000000"
    and nr: "0 < nr" "nr < 64" "nr \<noteq> c" "task s nr = 0"
    and fresh: "\<forall>j<16. \<not> present (pmem s (4 * of_nat (16 * nr + j)))"
    and cnt: "\<forall>i<PAGING_PAGES. unat (mem_map s i) < 128"
    and used: "\<forall>i<PAGING_PAGES. mem_map s i = 0 \<longrightarrow> current s \<noteq> frame_addr i"
  shows "returns (copy_process fninit nr r s) (\<lambda>e t.
    (\<exists>i<PAGING_PAGES. mem_map s i = 0 \<and> e = sint (last_pid s) \<and> mm_inv (ext(i := 1)) t \<and> forked fninit nr r c s (frame_addr i) t) \<or>
    e = - EAGAIN \<and> mm_inv ext t \<and> not_forked fninit s t \<and>
      free_frames s \<le> tables_in (pmem s) (16 * c) (slot_dirs (get_limit (ldt (cur s) 2))))"
proof (cases rule: get_free_page_cases [of s])
  case none
  then show ?thesis using inv by (simp add: copy_process_eq not_forked_def free_frames_zero)
next
  case (page i)
  let ?p = "frame_addr i"
  define w where "w = s\<lparr>mem_map := (mem_map s)(i := 1), pmem := clear_page ?p (pmem s)\<rparr>"
  have p: "?p \<noteq> current w" using used page(1,2) by (auto simp: w_def)
  note cm = fork_copy_mem [OF inv page(1,2) w_def p base lim nr(1-3) fresh cnt, of fninit r]
  show ?thesis
    unfolding copy_process_eq page(4) w_def [symmetric] Let_def prod.case if_not_P [OF frame_addr_simps(3) [OF page(1)]] returns_andThen
  proof (rule returns_mono [OF cm])
    fix e t
    assume t: "mm_inv (ext(i := 1)) t \<and> mm_only (upd_task ?p (child_space nr) (new_child fninit nr r ?p w)) t \<and>
      (e = 0 \<and> dirs_copied (16 * c) (16 * nr) (slot_dirs (get_limit (ldt (cur s) 2))) (new_child fninit nr r ?p w) t \<or>
       e = - ENOMEM \<and> free_frames s \<le> tables_in (pmem s) (16 * c) (slot_dirs (get_limit (ldt (cur s) 2))))"
    let ?t = "upd_task ?p (\<lambda>t. t\<lparr>state := TASK_RUNNING\<rparr>)
        (set_ldt_desc (2 * nr + 5) (?p + ldt_offset) (set_tss_desc (2 * nr + 4) (?p + tss_offset) (share_files ?p t)))"
    show "returns (if e \<noteq> 0 then andThen (free_page ?p (t\<lparr>task := (task t)(nr := 0)\<rparr>)) (\<lambda>_ s. Ret (- EAGAIN) s)
        else Ret (sint (last_pid (set_ldt_desc (2 * nr + 5) (?p + ldt_offset) (set_tss_desc (2 * nr + 4) (?p + tss_offset) (share_files ?p t))))) ?t)
      (\<lambda>e t. (\<exists>i<PAGING_PAGES. mem_map s i = 0 \<and> e = sint (last_pid s) \<and> mm_inv (ext(i := 1)) t \<and> forked fninit nr r c s (frame_addr i) t) \<or>
        e = - EAGAIN \<and> mm_inv ext t \<and> not_forked fninit s t \<and>
          free_frames s \<le> tables_in (pmem s) (16 * c) (slot_dirs (get_limit (ldt (cur s) 2))))"
    proof (cases "e = 0")
      case True
      have "mm_inv (ext(i := 1)) ?t \<and> forked fninit nr r c s ?p ?t \<and> last_pid t = last_pid s"
        using t True by (intro fork_done [OF inv page(1,2) w_def p base(3,4) lim(2) nr(1,2)]) auto
      then show ?thesis using True page(1,2) by (auto simp: set_ldt_desc_def set_tss_desc_def share_files_eq intro!: exI [of _ i])
    next
      case False
      have "returns (andThen (free_page ?p (t\<lparr>task := (task t)(nr := 0)\<rparr>)) (\<lambda>_ s. Ret (- EAGAIN) s))
          (\<lambda>e t. e = - EAGAIN \<and> mm_inv ext t \<and> not_forked fninit s t)"
        using t by (intro fork_failed [OF inv page(1,2) nr(4) w_def p]) auto
      then show ?thesis using t False unfolding if_P [OF False] by (auto elim!: returns_mono)
    qed
  qed
qed

definition fork_example :: gdt_state where
  "fork_example = (fs_state.extend empty_fs \<lparr>gdt = (\<lambda>_. \<lparr>desc_a = 0, desc_b = 0\<rparr>), idt = (\<lambda>_. \<lparr>desc_a = 0, desc_b = 0\<rparr>)\<rparr>)
     \<lparr>mem_map := mem_map one_page_mm, pmem := pmem one_page_mm, high_memory := high_memory one_page_mm,
      tasks := (tasks two_tasks)(0x2000 := (INIT_TASK 0x2000)\<lparr>ldt := (\<lambda>i. set_base (ldt (INIT_TASK 0x2000) i) (slot_base 1))\<rparr>)\<rparr>"

lemma fork_example_simps:
  "mem_map fork_example = mem_map one_page_mm" "pmem fork_example = pmem one_page_mm" "high_memory fork_example = high_memory one_page_mm"
  "current fork_example = 0x2000" "task fork_example = task two_tasks" "last_pid fork_example = 1"
  "tasks fork_example 0x2000 = (INIT_TASK 0x2000)\<lparr>ldt := (\<lambda>i. set_base (ldt (INIT_TASK 0x2000) i) (slot_base 1))\<rparr>"
  by (simp_all add: fork_example_def empty_fs_def two_procs_def two_tasks_def fs_state.defs proc_state.defs sched_state.defs)

definition zero_regs :: fork_regs where
  "zero_regs = \<lparr>r_ebp = 0, r_edi = 0, r_esi = 0, r_gs = 0, r_ebx = 0, r_ecx = 0, r_edx = 0, r_fs = 0, r_es = 0, r_ds = 0,
     r_eip = 0, r_cs = 0, r_eflags = 0, r_esp = 0, r_ss = 0\<rparr>"

lemma fork_example_room: "\<not> free_frames fork_example \<le> tables_in (pmem fork_example) (16 * 1) (slot_dirs (get_limit (ldt (cur fork_example) 2)))"
proof -
  have lim: "get_limit (ldt (INIT_TASK 0x2000) 2) = 0xa0000" by (simp add: INIT_TASK_def get_limit_def)
  have "slot_dirs (get_limit (ldt (cur fork_example) 2)) = 1"
    by (simp add: fork_example_simps lim slot_dirs_def drop_bit_eq_div)
  then have "tables_in (pmem fork_example) (16 * 1) (slot_dirs (get_limit (ldt (cur fork_example) 2))) \<le> card {16::nat..<17}"
    unfolding tables_in_def by (intro card_mono) auto
  moreover have "{0, 1} \<subseteq> {j. j < PAGING_PAGES \<and> mem_map fork_example j = 0}"
    by (simp add: fork_example_simps one_page_mm_eq PAGING_PAGES_def)
  then have "card {0::nat, 1} \<le> free_frames fork_example" unfolding free_frames_def by (intro card_mono) auto
  ultimately show ?thesis by simp
qed

theorem fork_correct_witness:
  "returns (copy_process (\<lambda>_. 0) 2 zero_regs fork_example) (\<lambda>e t. e = 1 \<and>
     (\<exists>i<PAGING_PAGES. mem_map fork_example i = 0 \<and> mm_inv ((\<lambda>_. 0)(i := 1)) t \<and> forked (\<lambda>_. 0) 2 zero_regs 1 fork_example (frame_addr i) t))"
proof -
  have inv: "mm_inv (\<lambda>_. 0) fork_example"
    using mm_inv_one_page(1) mm_inv_fields [of fork_example one_page_mm] by (simp add: fork_example_simps)
  have fresh: "\<not> present (pmem fork_example (4 * of_nat (16 * 2 + j)))" if "j < 16" for j
  proof -
    have "pde (16 * 2 + j) \<noteq> pde 16" by (subst pde_inj) (use that in simp_all)
    moreover have "page_of (pde (16 * 2 + j)) \<noteq> page_of (frame_addr 3838)"
      using that page_of_pde [of "16 * 2 + j"] frame_addr_simps [of 3838] by (simp add: PAGING_PAGES_def)
    ultimately show ?thesis by (auto simp: fork_example_simps one_page_mm_eq)
  qed
  have lim: "get_limit (ldt (INIT_TASK 0x2000) 1) = 0xa0000" "get_limit (ldt (INIT_TASK 0x2000) 2) = 0xa0000"
    by (simp_all add: INIT_TASK_def get_limit_def)
  have nf: "frame_addr i \<noteq> 0x2000" if "i < PAGING_PAGES" for i
    using frame_addr_simps(2) [OF that] by auto
  have "returns (copy_process (\<lambda>_. 0) 2 zero_regs fork_example) (\<lambda>e t.
    (\<exists>i<PAGING_PAGES. mem_map fork_example i = 0 \<and> e = sint (last_pid fork_example) \<and> mm_inv ((\<lambda>_. 0)(i := 1)) t \<and>
       forked (\<lambda>_. 0) 2 zero_regs 1 fork_example (frame_addr i) t) \<or> e = - EAGAIN \<and> mm_inv (\<lambda>_. 0) t \<and> not_forked (\<lambda>_. 0) fork_example t \<and>
     free_frames fork_example \<le> tables_in (pmem fork_example) (16 * 1) (slot_dirs (get_limit (ldt (cur fork_example) 2))))"
    using fresh lim one_page_counts nf
    by (intro fork_correct inv) (auto simp: fork_example_simps)
  then show ?thesis using fork_example_room by (elim returns_mono) (auto simp: fork_example_simps)
qed

end
