(* ===== verification/Harddisk.thy ===== *)
theory Harddisk
  imports Super Lifecycle
begin

text \<open>
  The hard disk driver (\<^verbatim>\<open>kernel/blk_drv/hd.c\<close>), with the entry of its interrupt (\<^verbatim>\<open>kernel/system_call.s\<close>) and the
  loading of the RAM disk (\<open>rd_load\<close> of \<^verbatim>\<open>kernel/blk_drv/ramdisk.c\<close>), which \<open>sys_setup\<close> calls.

  What the controller answers is input: \<open>status_in\<close> are the values that the next reads of its status register give,
  \<open>data_in\<close> the sector that the next \<open>port_read\<close> finds and \<open>data_out\<close> the sectors sent by \<open>port_write\<close>, the
  last one first. The registers written are \<open>ports\<close>. The error register is read to be printed only.
\<close>

section \<open>Data\<close>

record hd_i_struct =
  hd_head :: s32
  hd_sect :: s32
  hd_cyl :: s32
  hd_wpcom :: s32
  hd_lzone :: s32
  hd_ctl :: s32

record hd_struct =
  start_sect :: s32
  nr_sects :: s32

text \<open>The handlers that \<open>do_hd\<close> can point to.\<close>

datatype hd_handler = Read_intr | Write_intr | Recal_intr

record hd_state = gdt_state +
  hd_info :: "nat \<Rightarrow> hd_i_struct"
  NR_HD :: nat
  hd :: "nat \<Rightarrow> hd_struct"
  recalibrate :: bool
  hd_reset :: bool
  do_hd :: "hd_handler option"
  callable :: bool
  cmos :: "u8 \<Rightarrow> u8"
  status_in :: "nat \<Rightarrow> u8"
  data_in :: "u8 list"
  data_out :: "u8 list list"

abbreviation (input) HD_DATA :: u32 where "HD_DATA \<equiv> 0x1f0"
abbreviation (input) HD_CMD :: u32 where "HD_CMD \<equiv> 0x3f6"
abbreviation (input) ERR_STAT :: u8 where "ERR_STAT \<equiv> 0x01"
abbreviation (input) DRQ_STAT :: u8 where "DRQ_STAT \<equiv> 0x08"
abbreviation (input) SEEK_STAT :: u8 where "SEEK_STAT \<equiv> 0x10"
abbreviation (input) WRERR_STAT :: u8 where "WRERR_STAT \<equiv> 0x20"
abbreviation (input) READY_STAT :: u8 where "READY_STAT \<equiv> 0x40"
abbreviation (input) BUSY_STAT :: u8 where "BUSY_STAT \<equiv> 0x80"
abbreviation (input) WIN_RESTORE :: u32 where "WIN_RESTORE \<equiv> 0x10"
abbreviation (input) WIN_READ :: u32 where "WIN_READ \<equiv> 0x20"
abbreviation (input) WIN_WRITE :: u32 where "WIN_WRITE \<equiv> 0x30"
abbreviation (input) WIN_SPECIFY :: u32 where "WIN_SPECIFY \<equiv> 0x91"
abbreviation (input) MAX_ERRORS :: int where "MAX_ERRORS \<equiv> 7"

section \<open>The controller's registers\<close>

text \<open>\<open>inb(HD_STATUS)\<close>\<close>

definition in_status :: "'a hd_state_scheme \<Rightarrow> u8 \<times> 'a hd_state_scheme" where
  "in_status s = (status_in s 0, s\<lparr>status_in := (\<lambda>k. status_in s (k + 1))\<rparr>)"

text \<open>The loop of \<open>controller_ready\<close>: \<open>retries\<close> as the condition finds it after the decrement.\<close>

fun ready_loop :: "nat \<Rightarrow> 'a hd_state_scheme \<Rightarrow> nat \<times> 'a hd_state_scheme" where
  "ready_loop 0 s = (0, s)"
| "ready_loop (Suc r) s = (let (v, s) = in_status s in if v AND 0x80 \<noteq> 0 then ready_loop r s else (Suc r, s))"

definition controller_ready :: "'a hd_state_scheme \<Rightarrow> nat \<times> 'a hd_state_scheme" where
  "controller_ready s = ready_loop 99999 s"

text \<open>True for the result 1.\<close>

definition status_ok :: "u8 \<Rightarrow> bool" where
  "status_ok i \<longleftrightarrow> i AND (BUSY_STAT OR READY_STAT OR WRERR_STAT OR SEEK_STAT OR ERR_STAT) = READY_STAT OR SEEK_STAT"

definition win_result :: "'a hd_state_scheme \<Rightarrow> bool \<times> 'a hd_state_scheme" where
  "win_result s = (let (i, s) = in_status s in (\<not> status_ok i, s))"

text \<open>The command block: the control register, then the seven registers from \<open>HD_PRECOMP\<close> to \<open>HD_COMMAND\<close>.\<close>

definition hd_out ::
  "u32 \<Rightarrow> u32 \<Rightarrow> u32 \<Rightarrow> u32 \<Rightarrow> u32 \<Rightarrow> u32 \<Rightarrow> hd_handler \<Rightarrow> 'a hd_state_scheme \<Rightarrow> ('a hd_state_scheme, unit) outcome" where
  "hd_out drive nsect sect head cyl cmd intr_addr s =
     (if 1 < drive \<or> 15 < head then Panic ''Trying to write bad sector'' s
      else let (r, s) = controller_ready s in
        if r = 0 then Panic ''HD controller not ready'' s
        else let i = hd_info s (unat drive);
               s = s\<lparr>do_hd := Some intr_addr\<rparr>;
               s = outb (ucast (hd_ctl i)) HD_CMD s;
               s = outb (ucast (signed_drop_bit 2 (hd_wpcom i))) (HD_DATA + 1) s;
               s = outb (ucast nsect) (HD_DATA + 2) s;
               s = outb (ucast sect) (HD_DATA + 3) s;
               s = outb (ucast cyl) (HD_DATA + 4) s;
               s = outb (ucast (drop_bit 8 cyl)) (HD_DATA + 5) s;
               s = outb (ucast (0xA0 OR push_bit 4 drive OR head)) (HD_DATA + 6) s
          in Ret () (outb (ucast cmd) (HD_DATA + 7) s))"

fun busy_loop :: "nat \<Rightarrow> 'a hd_state_scheme \<Rightarrow> 'a hd_state_scheme" where
  "busy_loop 0 s = s"
| "busy_loop (Suc n) s =
     (let (v, s) = in_status s in if v AND (BUSY_STAT OR READY_STAT) = READY_STAT then s else busy_loop n s)"

definition drive_busy :: "'a hd_state_scheme \<Rightarrow> bool \<times> 'a hd_state_scheme" where
  "drive_busy s =
     (let (i, s) = in_status (busy_loop 10000 s)
      in (i AND (BUSY_STAT OR READY_STAT OR SEEK_STAT) \<noteq> READY_STAT OR SEEK_STAT, s))"

text \<open>A controller that stays busy, or whose error register is not 1, is only reported.\<close>

definition reset_controller :: "'a hd_state_scheme \<Rightarrow> 'a hd_state_scheme" where
  "reset_controller s =
     (let s = outb 4 HD_CMD s; s = outb (ucast (hd_ctl (hd_info s 0) AND 0x0f)) HD_CMD s in snd (drive_busy s))"

definition reset_hd :: "u32 \<Rightarrow> 'a hd_state_scheme \<Rightarrow> ('a hd_state_scheme, unit) outcome" where
  "reset_hd nr s =
     (let s = reset_controller s; i = hd_info s (unat nr) in
      hd_out nr (hd_sect i) (hd_sect i) (hd_head i - 1) (hd_cyl i) WIN_SPECIFY Recal_intr s)"

section \<open>The interrupt handlers\<close>

text \<open>\<open>end_request\<close> moves \<open>CURRENT\<close> on; the second test reads the errors of the request that follows then.\<close>

definition bad_rw_intr :: "'a hd_state_scheme \<Rightarrow> ('a hd_state_scheme, unit) outcome" where
  "bad_rw_intr s =
     (case current_request s 3 of
        None \<Rightarrow> Hang
      | Some req \<Rightarrow>
          let s = upd_req req (\<lambda>r. r\<lparr>r_errors := r_errors r + 1\<rparr>) s;
              s = (if MAX_ERRORS \<le> r_errors (request s req) then end_request 3 (\<lambda>_ s. s) 0 req s else s) in
          case current_request s 3 of
            None \<Rightarrow> Hang
          | Some req \<Rightarrow> Ret () (if 3 < r_errors (request s req) then s\<lparr>hd_reset := True\<rparr> else s))"

text \<open>\<open>for (i=0; i<3000 && !(r=inb_p(HD_STATUS)&DRQ_STAT); i++)\<close>: the result is \<open>r\<close>.\<close>

fun drq_loop :: "nat \<Rightarrow> 'a hd_state_scheme \<Rightarrow> bool \<times> 'a hd_state_scheme" where
  "drq_loop 0 s = (False, s)"
| "drq_loop (Suc n) s = (let (v, s) = in_status s in if v AND DRQ_STAT \<noteq> 0 then (True, s) else drq_loop n s)"

text \<open>\<open>port_write(HD_DATA,CURRENT->buffer,256)\<close> and \<open>port_read\<close>: 256 words.\<close>

definition port_write :: "nat \<Rightarrow> 'a hd_state_scheme \<Rightarrow> ('a hd_state_scheme, unit) outcome" where
  "port_write req s =
     (case r_buffer (request s req) of
        None \<Rightarrow> Hang
      | Some b \<Rightarrow> Ret () (s\<lparr>data_out := read_block_at b (r_boff (request s req)) 512 s # data_out s\<rparr>))"

definition port_read :: "nat \<Rightarrow> 'a hd_state_scheme \<Rightarrow> ('a hd_state_scheme, unit) outcome" where
  "port_read req s =
     (case r_buffer (request s req) of
        None \<Rightarrow> Hang
      | Some b \<Rightarrow> Ret () (write_block_at b (r_boff (request s req)) (take 512 (data_in s)) s))"

text \<open>The command for the current request \<open>req\<close>; the result is true for \<open>goto repeat\<close>. A drive with no sectors or no
  heads is a divide error.\<close>

definition start_request :: "nat \<Rightarrow> 'a hd_state_scheme \<Rightarrow> ('a hd_state_scheme, bool) outcome" where
  "start_request req s =
     (let r = request s req; dev = MINOR (r_dev r); block = r_sector r; p = hd s (unat dev) in
      if 5 * NR_HD s \<le> unat dev \<or> nr_sects p < block + 2
      then Ret True (end_request 3 (\<lambda>_ s. s) 0 req s)
      else let block = block + start_sect p; dev = dev div 5; i = hd_info s (unat dev) in
        if hd_sect i = 0 \<or> hd_head i = 0 then Hang
        else let sec = block mod hd_sect i + 1; block = block div hd_sect i;
                 head = block mod hd_head i; cyl = block div hd_head i; nsect = r_nr_sectors r in
          if hd_reset s then andThen (reset_hd dev (s\<lparr>hd_reset := False, recalibrate := True\<rparr>)) (\<lambda>_ s. Ret False s)
          else if recalibrate s then
            andThen (hd_out dev (hd_sect i) 0 0 0 WIN_RESTORE Recal_intr (s\<lparr>recalibrate := False\<rparr>)) (\<lambda>_ s. Ret False s)
          else if r_cmd r = WRITE then
            andThen (hd_out dev nsect sec head cyl WIN_WRITE Write_intr s) (\<lambda>_ s.
              let (r, s) = drq_loop 3000 s in
              if \<not> r then andThen (bad_rw_intr s) (\<lambda>_ s. Ret True s)
              else andThen (port_write req s) (\<lambda>_ s. Ret False s))
          else if r_cmd r = READ then
            andThen (hd_out dev nsect sec head cyl WIN_READ Read_intr s) (\<lambda>_ s. Ret False s)
          else Panic ''unknown hd-command'' s)"

text \<open>\<open>INIT_REQUEST\<close> and the rest; at most \<open>n\<close> rounds.\<close>

fun do_hd_request :: "nat \<Rightarrow> 'a hd_state_scheme \<Rightarrow> ('a hd_state_scheme, unit) outcome" where
  "do_hd_request 0 s = Hang"
| "do_hd_request (Suc n) s =
     (case current_request s 3 of
        None \<Rightarrow> Ret () s
      | Some req \<Rightarrow>
          if MAJOR (r_dev (request s req)) \<noteq> 3 then Panic ''harddisk: request list destroyed'' s
          else if (case r_bh (request s req) of Some b \<Rightarrow> \<not> buf_locked b s | None \<Rightarrow> False)
            then Panic ''harddisk: block not locked'' s
          else andThen (start_request req s) (\<lambda>again s. if again then do_hd_request n s else Ret () s))"

text \<open>\<open>CURRENT->sector++\<close> and \<open>CURRENT->buffer += 512\<close>\<close>

definition next_sector :: "nat \<Rightarrow> 'a hd_state_scheme \<Rightarrow> 'a hd_state_scheme" where
  "next_sector req s = upd_req req (\<lambda>r. r\<lparr>r_boff := r_boff r + 512, r_sector := r_sector r + 1\<rparr>) s"

definition read_intr :: "nat \<Rightarrow> 'a hd_state_scheme \<Rightarrow> ('a hd_state_scheme, unit) outcome" where
  "read_intr n s =
     (let (bad, s) = win_result s in
      if bad then andThen (bad_rw_intr s) (\<lambda>_ s. do_hd_request n s)
      else case current_request s 3 of
        None \<Rightarrow> Hang
      | Some req \<Rightarrow>
          andThen (port_read req s) (\<lambda>_ s.
            let s = next_sector req (upd_req req (\<lambda>r. r\<lparr>r_errors := 0\<rparr>) s);
                s = upd_req req (\<lambda>r. r\<lparr>r_nr_sectors := r_nr_sectors r - 1\<rparr>) s in
            if r_nr_sectors (request s req) \<noteq> 0 then Ret () (s\<lparr>do_hd := Some Read_intr\<rparr>)
            else do_hd_request n (end_request 3 (\<lambda>_ s. s) 1 req s)))"

definition write_intr :: "nat \<Rightarrow> 'a hd_state_scheme \<Rightarrow> ('a hd_state_scheme, unit) outcome" where
  "write_intr n s =
     (let (bad, s) = win_result s in
      if bad then andThen (bad_rw_intr s) (\<lambda>_ s. do_hd_request n s)
      else case current_request s 3 of
        None \<Rightarrow> Hang
      | Some req \<Rightarrow>
          let s = upd_req req (\<lambda>r. r\<lparr>r_nr_sectors := r_nr_sectors r - 1\<rparr>) s in
          if r_nr_sectors (request s req) \<noteq> 0
          then port_write req ((next_sector req s)\<lparr>do_hd := Some Write_intr\<rparr>)
          else do_hd_request n (end_request 3 (\<lambda>_ s. s) 1 req s))"

definition recal_intr :: "nat \<Rightarrow> 'a hd_state_scheme \<Rightarrow> ('a hd_state_scheme, unit) outcome" where
  "recal_intr n s =
     (let (bad, s) = win_result s in
      andThen (if bad then bad_rw_intr s else Ret () s) (\<lambda>_ s. do_hd_request n s))"

text \<open>\<open>hd_interrupt\<close>: the handler is taken out of \<open>do_hd\<close>; an interrupt without one is only reported.\<close>

definition hd_interrupt :: "nat \<Rightarrow> 'a hd_state_scheme \<Rightarrow> ('a hd_state_scheme, unit) outcome" where
  "hd_interrupt n s =
     (let h = do_hd s; s = outb 0x20 0x20 ((outb 0x20 0xA0 s)\<lparr>do_hd := None\<rparr>) in
      case h of
        None \<Rightarrow> Ret () s
      | Some Read_intr \<Rightarrow> read_intr n s
      | Some Write_intr \<Rightarrow> write_intr n s
      | Some Recal_intr \<Rightarrow> recal_intr n s)"

section \<open>Set-up\<close>

text \<open>The gate of vector 0x2E and the masks of the two interrupt controllers; \<open>addr\<close> is the address of \<open>hd_interrupt\<close>.
  The entry of \<open>blk_dev\<close> is \<open>request_fn\<close> of the environment.\<close>

definition hd_init :: "u32 \<Rightarrow> 'a hd_state_scheme \<Rightarrow> 'a hd_state_scheme" where
  "hd_init addr s =
     (let s = set_intr_gate 0x2E addr s; s = outb (ports s 0x21 AND 0xfb) 0x21 s
      in outb (ports s 0xA1 AND 0xbf) 0xA1 s)"

text \<open>The drive tables of the BIOS, 16 bytes for each drive.\<close>

definition bios16 :: "u32 \<Rightarrow> 'a mm_state_scheme \<Rightarrow> s32" where
  "bios16 a s = ucast (get_kbyte a s) OR push_bit 8 (ucast (get_kbyte (a + 1) s))"

definition bios_drive :: "u32 \<Rightarrow> 'a mm_state_scheme \<Rightarrow> hd_i_struct" where
  "bios_drive a s = \<lparr>hd_head = ucast (get_kbyte (a + 2) s), hd_sect = ucast (get_kbyte (a + 14) s), hd_cyl = bios16 a s,
     hd_wpcom = bios16 (a + 5) s, hd_lzone = bios16 (a + 12) s, hd_ctl = ucast (get_kbyte (a + 8) s)\<rparr>"

definition upd_hd :: "nat \<Rightarrow> s32 \<Rightarrow> s32 \<Rightarrow> 'a hd_state_scheme \<Rightarrow> 'a hd_state_scheme" where
  "upd_hd i st n s = s\<lparr>hd := (hd s)(i := \<lparr>start_sect = st, nr_sects = n\<rparr>)\<rparr>"

text \<open>The four entries of the partition table, 16 bytes each from offset 0x1BE.\<close>

definition read_partitions :: "nat \<Rightarrow> (nat \<Rightarrow> u8) \<Rightarrow> 'a hd_state_scheme \<Rightarrow> 'a hd_state_scheme" where
  "read_partitions drive d s =
     fold (\<lambda>i. upd_hd (i + 5 * drive) (dec32 d (0x1BE + 16 * (i - 1) + 8)) (dec32 d (0x1BE + 16 * (i - 1) + 12))) [1..<5] s"

fun partition_loop ::
  "'a hd_state_scheme kernel_env \<Rightarrow> nat list \<Rightarrow> 'a hd_state_scheme \<Rightarrow> ('a hd_state_scheme, unit) outcome" where
  "partition_loop K [] s = Ret () s"
| "partition_loop K (drive # ds) s =
     andThen (bread K (0x300 + of_nat drive * 5) 0 s) (\<lambda>r s.
       case r of
         None \<Rightarrow> Panic [] s
       | Some bh \<Rightarrow>
           if b_data (bufs s bh) 510 \<noteq> 0x55 \<or> b_data (bufs s bh) 511 \<noteq> 0xAA then Panic [] s
           else andThen (brelse K (Some bh) (read_partitions drive (b_data (bufs s bh)) s)) (\<lambda>_ s. partition_loop K ds s))"

section \<open>The RAM disk image\<close>

text \<open>The loop of \<open>rd_load\<close> over \<open>n\<close> blocks; the result is false when a block cannot be read.\<close>

fun load_blocks ::
  "'a fs_state_scheme kernel_env \<Rightarrow> nat \<Rightarrow> u32 \<Rightarrow> u32 \<Rightarrow> 'a fs_state_scheme \<Rightarrow> ('a fs_state_scheme, bool) outcome" where
  "load_blocks K 0 block cp s = Ret True s"
| "load_blocks K (Suc n) block cp s =
     andThen (if 2 <s (of_nat (Suc n) :: s32) then breada K (ROOT_DEV s) block [block + 1, block + 2] s
              else bread K (ROOT_DEV s) block s) (\<lambda>r s.
       case r of
         None \<Rightarrow> Ret False s
       | Some bh \<Rightarrow>
           andThen (brelse K (Some bh) (put_kbytes cp (read_block bh BLOCK_SIZE s) s)) (\<lambda>_ s.
             load_blocks K n (block + 1) (cp + 1024) s))"

definition rd_load :: "'a fs_state_scheme kernel_env \<Rightarrow> 'a fs_state_scheme \<Rightarrow> ('a fs_state_scheme, unit) outcome" where
  "rd_load K s =
     (if rd_length s = 0 \<or> MAJOR (ROOT_DEV s) \<noteq> 2 then Ret () s
      else andThen (breada K (ROOT_DEV s) 257 [256, 258] s) (\<lambda>r s.
        case r of
          None \<Rightarrow> Ret () s
        | Some bh \<Rightarrow>
            let d = b_data (bufs s bh) in
            andThen (brelse K (Some bh) s) (\<lambda>_ s.
              let nblocks = push_bit (unat (dec16 d 10)) (ucast (dec16 d 2)) :: s32 in
              if dec16 d 16 \<noteq> SUPER_MAGIC \<or> signed_drop_bit 10 (rd_length s) <s nblocks then Ret () s
              else andThen (load_blocks K (unat nblocks) 256 (rd_start s) s) (\<lambda>ok s.
                Ret () (if ok then s\<lparr>ROOT_DEV := 0x0101\<rparr> else s)))))"

section \<open>The system call\<close>

definition sys_setup ::
  "'a hd_state_scheme kernel_env \<Rightarrow> ('a hd_state_scheme \<Rightarrow> ('a hd_state_scheme, unit) outcome) \<Rightarrow> u32 \<Rightarrow>
     'a hd_state_scheme \<Rightarrow> ('a hd_state_scheme, int) outcome" where
  "sys_setup K keypress BIOS s =
     (if \<not> callable s then Ret (- 1) s
      else
        let s = s\<lparr>callable := False\<rparr>;
            s = s\<lparr>hd_info := (hd_info s)(0 := bios_drive BIOS s, 1 := bios_drive (BIOS + 16) s)\<rparr>;
            s = s\<lparr>NR_HD := (if hd_cyl (hd_info s 1) \<noteq> 0 then 2 else 1)\<rparr>;
            s = fold (\<lambda>i s. let x = hd_info s i in upd_hd (i * 5) 0 (hd_head x * hd_sect x * hd_cyl x) s) [0..<NR_HD s] s;
            s = outb 0x92 0x70 s;
            c = cmos s 0x12;
            s = s\<lparr>NR_HD := (if c AND 0xf0 \<noteq> 0 then if c AND 0x0f \<noteq> 0 then 2 else 1 else 0)\<rparr>;
            s = fold (\<lambda>i. upd_hd (i * 5) 0 0) [NR_HD s..<2] s
        in andThen (partition_loop K [0..<NR_HD s] s) (\<lambda>_ s.
             andThen (rd_load K s) (\<lambda>_ s.
               andThen (mount_root K keypress s) (\<lambda>_ s. Ret 0 s))))"

end
