(* ===== verification/Harddisk_Properties.thy ===== *)
theory Harddisk_Properties
  imports Harddisk Chains Fs_Lemmas Fs_Examples
begin

text \<open>
  The hard disk driver as a state machine: each interrupt brings the request list nearer to its end, also when the
  controller reports errors, as long as they are fewer than \<open>MAX_ERRORS\<close>.
\<close>

section \<open>A controller that answers\<close>

text \<open>Not busy, and ready for data when it is asked.\<close>

definition answers :: "(nat \<Rightarrow> u8) \<Rightarrow> bool" where
  "answers q \<longleftrightarrow> (\<forall>k. q k AND 0x80 = 0 \<and> q k AND 0x08 \<noteq> 0)"

lemma answers_shift: "answers q \<Longrightarrow> answers (\<lambda>k. q (k + 1))"
  by (simp add: answers_def)

lemma controller_ready_answers:
  "answers (status_in s) \<Longrightarrow> controller_ready s = (99999, s\<lparr>status_in := (\<lambda>k. status_in s (k + 1))\<rparr>)"
proof -
  assume "answers (status_in s)"
  then have "ready_loop (Suc r) s = (Suc r, s\<lparr>status_in := (\<lambda>k. status_in s (k + 1))\<rparr>)" for r
    by (simp add: in_status_def answers_def)
  from this [of 99998] show ?thesis by (simp add: controller_ready_def)
qed

lemma drq_loop_answers:
  "answers (status_in s) \<Longrightarrow> drq_loop 3000 s = (True, s\<lparr>status_in := (\<lambda>k. status_in s (k + 1))\<rparr>)"
proof -
  assume "answers (status_in s)"
  then have "drq_loop (Suc r) s = (True, s\<lparr>status_in := (\<lambda>k. status_in s (k + 1))\<rparr>)" for r
    by (simp add: in_status_def answers_def)
  from this [of 2999] show ?thesis by simp
qed

lemma busy_loop_answers:
  "answers (status_in s) \<Longrightarrow> \<exists>q. busy_loop n s = s\<lparr>status_in := q\<rparr> \<and> answers q"
proof (induction n arbitrary: s)
  case 0
  then show ?case by (intro exI [of _ "status_in s"]) simp
next
  case (Suc n)
  let ?s = "s\<lparr>status_in := (\<lambda>k. status_in s (k + 1))\<rparr>"
  have "answers (status_in ?s)" using answers_shift [OF Suc.prems] by simp
  moreover from Suc.IH [OF this] obtain q where "busy_loop n ?s = s\<lparr>status_in := q\<rparr>" "answers q" by auto
  ultimately show ?case by (auto simp: in_status_def Let_def)
qed

text \<open>Only the variables of the driver and what goes to and from the controller change.\<close>

definition driver_only :: "'a hd_state_scheme \<Rightarrow> 'a hd_state_scheme \<Rightarrow> bool" where
  "driver_only s t \<longleftrightarrow>
     (\<exists>p q d h a b. t = s\<lparr>ports := p, status_in := q, data_out := d, do_hd := h, recalibrate := a, hd_reset := b\<rparr>)"

lemma driver_onlyI:
  "t = s\<lparr>ports := ports t, status_in := status_in t, data_out := data_out t, do_hd := do_hd t,
     recalibrate := recalibrate t, hd_reset := hd_reset t\<rparr> \<Longrightarrow> driver_only s t"
  unfolding driver_only_def by (intro exI)

lemma driver_only_fields:
  assumes "driver_only s t"
  shows "request t = request s" "current_request t = current_request s" "bufs t = bufs s" "hd t = hd s" "hd_info t = hd_info s"
    "NR_HD t = NR_HD s" "data_in t = data_in s"
  using assms by (auto simp: driver_only_def)

lemma driver_only_trans: "driver_only s t \<Longrightarrow> driver_only t u \<Longrightarrow> driver_only s u"
  unfolding driver_only_def by (elim exE, hypsubst, simp) (intro exI, rule refl)

lemma hd_out_answers:
  assumes "answers (status_in s)" and "\<not> 1 < drive" and "\<not> 15 < head"
  shows "\<exists>t. hd_out drive nsect sect head cyl cmd h s = Ret () t \<and> driver_only s t \<and> answers (status_in t) \<and>
    do_hd t = Some h \<and> recalibrate t = recalibrate s \<and> hd_reset t = hd_reset s"
proof -
  obtain t where t: "hd_out drive nsect sect head cyl cmd h s = Ret () t" "t = s\<lparr>status_in := (\<lambda>k. status_in s (k + 1)), do_hd := Some h, ports := ports t\<rparr>"
    using assms(2,3) by (simp add: hd_out_def controller_ready_answers [OF assms(1)] Let_def outb_def)
  have "driver_only s t" by (subst t(2), rule driver_onlyI, rule hd_state.equality) simp_all
  moreover have "answers (status_in t)" by (subst t(2)) (simp add: answers_shift [OF assms(1), simplified])
  moreover have "do_hd t = Some h" "recalibrate t = recalibrate s" "hd_reset t = hd_reset s" by (subst t(2); simp)+
  ultimately show ?thesis using t(1) by blast
qed

lemma reset_controller_answers:
  assumes "answers (status_in s)"
  shows "driver_only s (reset_controller s) \<and> answers (status_in (reset_controller s)) \<and>
    recalibrate (reset_controller s) = recalibrate s \<and> hd_reset (reset_controller s) = hd_reset s"
proof -
  let ?s = "outb (ucast (hd_ctl (hd_info s 0) AND 0x0f)) HD_CMD (outb 4 HD_CMD s)"
  have "answers (status_in ?s)" using assms by (simp add: outb_def)
  from busy_loop_answers [OF this, of 10000] obtain q where q: "busy_loop 10000 ?s = ?s\<lparr>status_in := q\<rparr>" "answers q" by auto
  moreover have "hd_info (outb 4 HD_CMD s) = hd_info s" by (simp add: outb_def)
  ultimately have r: "reset_controller s = (?s\<lparr>status_in := q\<rparr>)\<lparr>status_in := (\<lambda>k. q (k + 1))\<rparr>"
    by (simp add: reset_controller_def drive_busy_def in_status_def Let_def)
  have "driver_only s (reset_controller s)"
    unfolding r outb_def by (rule driver_onlyI, rule hd_state.equality) simp_all
  then show ?thesis using answers_shift [OF q(2)] by (simp add: r outb_def)
qed

section \<open>The request list\<close>

text \<open>A request for sectors of its partition, but not up to the last one, on a drive with at most 16 heads.\<close>

definition hd_fits :: "'a hd_state_scheme \<Rightarrow> request_struct \<Rightarrow> bool" where
  "hd_fits s r \<longleftrightarrow>
     (let d = MINOR (r_dev r); i = hd_info s (unat (d div 5)) in
      MAJOR (r_dev r) = 3 \<and> unat d < 5 * NR_HD s \<and> NR_HD s \<le> 2 \<and>
      unat (r_sector r) + unat (r_nr_sectors r) < unat (nr_sects (hd s (unat d))) \<and> r_nr_sectors r \<noteq> 0 \<and>
      (r_cmd r = READ \<or> r_cmd r = WRITE) \<and> hd_sect i \<noteq> 0 \<and> hd_head i \<noteq> 0 \<and> hd_head i \<le> 16)"

lemma hd_fits_facts:
  assumes "hd_fits s r"
  defines "d \<equiv> MINOR (r_dev r)"
  shows "\<not> 5 * NR_HD s \<le> unat d" and "\<not> nr_sects (hd s (unat d)) < r_sector r + 2" and "\<not> 1 < d div 5"
    and "hd_sect (hd_info s (unat (d div 5))) \<noteq> 0" and "hd_head (hd_info s (unat (d div 5))) \<noteq> 0"
    and "\<not> 15 < hd_head (hd_info s (unat (d div 5))) - 1" and "\<not> 15 < x mod hd_head (hd_info s (unat (d div 5)))"
    and "MAJOR (r_dev r) = 3" and "r_cmd r = READ \<or> r_cmd r = WRITE"
proof -
  let ?h = "hd_head (hd_info s (unat (d div 5)))"
  have f: "unat d < 5 * NR_HD s" "NR_HD s \<le> 2" "unat (r_sector r) + unat (r_nr_sectors r) < unat (nr_sects (hd s (unat d)))"
    "r_nr_sectors r \<noteq> 0" "?h \<noteq> 0" "?h \<le> 16"
    using assms(1) by (simp_all add: hd_fits_def d_def Let_def)
  show "hd_sect (hd_info s (unat (d div 5))) \<noteq> 0" "?h \<noteq> 0" "MAJOR (r_dev r) = 3" "r_cmd r = READ \<or> r_cmd r = WRITE"
    using assms(1) by (simp_all add: hd_fits_def d_def Let_def)
  show "\<not> 5 * NR_HD s \<le> unat d" using f(1) by simp
  have "unat (r_nr_sectors r) \<noteq> 0" using f(4) unat_eq_zero by blast
  then have "unat (r_sector r) + 2 \<le> unat (nr_sects (hd s (unat d)))" using f(3) by simp
  moreover from this have "unat (r_sector r + 2) = unat (r_sector r) + 2"
    using unsigned_less [of "nr_sects (hd s (unat d))", where ?'a = nat] by (subst unat_add_lem [THEN iffD1]) simp_all
  ultimately show "\<not> nr_sects (hd s (unat d)) < r_sector r + 2" by (simp add: word_less_nat_alt)
  have "unat (d div 5) = unat d div 5" by (simp add: unat_div)
  then show "\<not> 1 < d div 5" using f(1,2) by (simp add: word_less_nat_alt)
  have h: "0 < unat ?h" "unat ?h \<le> 16" using f(5,6) by (simp_all add: word_le_nat_alt unat_gt_0)
  then show "\<not> 15 < ?h - 1" using unat_minus_one [OF f(5)] by (simp add: word_less_nat_alt)
  have "unat (x mod ?h) < unat ?h" using h(1) by (simp add: unat_mod)
  then show "\<not> 15 < x mod ?h" using h(2) by (simp add: word_less_nat_alt)
qed

text \<open>What the driver sends out next.\<close>

definition next_handler :: "'a hd_state_scheme \<Rightarrow> request_struct \<Rightarrow> hd_handler" where
  "next_handler s r = (if hd_reset s \<or> recalibrate s then Recal_intr else if r_cmd r = WRITE then Write_intr else Read_intr)"

lemma start_request_answers:
  assumes f: "hd_fits s (request s i)" and a: "answers (status_in s)" and b: "r_buffer (request s i) \<noteq> None"
  shows "\<exists>t. start_request i s = Ret False t \<and> driver_only s t \<and> do_hd t = Some (next_handler s (request s i)) \<and>
    recalibrate t = hd_reset s \<and> \<not> hd_reset t"
proof -
  note f = hd_fits_facts [OF f]
  let ?d = "MINOR (r_dev (request s i)) div 5"
  consider "hd_reset s" | "\<not> hd_reset s" "recalibrate s" | "\<not> hd_reset s" "\<not> recalibrate s" "r_cmd (request s i) = WRITE"
    | "\<not> hd_reset s" "\<not> recalibrate s" "r_cmd (request s i) = READ" using f(9) by blast
  then show ?thesis
  proof cases
    case 1
    let ?s = "s\<lparr>hd_reset := False, recalibrate := True\<rparr>"
    note r = reset_controller_answers [of ?s]
    obtain t where t: "reset_hd ?d ?s = Ret () t" "driver_only (reset_controller ?s) t" "do_hd t = Some Recal_intr"
        "recalibrate t" "\<not> hd_reset t"
      using hd_out_answers [of "reset_controller ?s" ?d "hd_head (hd_info s (unat ?d)) - 1"
          "hd_sect (hd_info s (unat ?d))" "hd_sect (hd_info s (unat ?d))" "hd_cyl (hd_info s (unat ?d))" WIN_SPECIFY Recal_intr] r a f(3,6)
        driver_only_fields(5) [of ?s "reset_controller ?s"] by (auto simp: reset_hd_def Let_def)
    have "driver_only s ?s" by (rule driver_onlyI, rule hd_state.equality) simp_all
    moreover have "driver_only ?s (reset_controller ?s)" using r a by simp
    ultimately have "driver_only s t" using driver_only_trans t(2) by blast
    then show ?thesis using f 1 t by (simp add: start_request_def next_handler_def Let_def)
  next
    case 2
    let ?s = "s\<lparr>recalibrate := False\<rparr>"
    obtain t where t: "hd_out ?d (hd_sect (hd_info s (unat ?d))) 0 0 0 WIN_RESTORE Recal_intr ?s = Ret () t" "driver_only ?s t"
        "do_hd t = Some Recal_intr" "recalibrate t = recalibrate ?s" "hd_reset t = hd_reset ?s"
      using hd_out_answers [of ?s ?d 0 "hd_sect (hd_info s (unat ?d))" 0 0 WIN_RESTORE Recal_intr] a f(3) by auto
    have "driver_only s ?s" by (rule driver_onlyI, rule hd_state.equality) simp_all
    then have "driver_only s t" using driver_only_trans t(2) by blast
    then show ?thesis using f 2 t by (simp add: start_request_def next_handler_def Let_def)
  next
    case 3
    let ?r = "request s i" and ?h = "hd_info s (unat ?d)"
    let ?b = "r_sector ?r + start_sect (hd s (unat (MINOR (r_dev ?r))))"
    obtain t where t: "hd_out ?d (r_nr_sectors ?r) (?b mod hd_sect ?h + 1) (?b div hd_sect ?h mod hd_head ?h)
          (?b div hd_sect ?h div hd_head ?h) WIN_WRITE Write_intr s = Ret () t"
        "driver_only s t" "answers (status_in t)" "do_hd t = Some Write_intr" "recalibrate t = recalibrate s" "hd_reset t = hd_reset s"
      using hd_out_answers [OF a f(3,7)] by blast
    let ?t = "t\<lparr>status_in := (\<lambda>k. status_in t (k + 1))\<rparr>"
    obtain bf where bf: "r_buffer (request s i) = Some bf" using b by auto
    define u where "u = ?t\<lparr>data_out := read_block_at bf (r_boff (request s i)) 512 ?t # data_out ?t\<rparr>"
    have "start_request i s = Ret False u"
      using f 3 t bf driver_only_fields(1) [OF t(2)]
      by (simp add: start_request_def next_handler_def Let_def drq_loop_answers port_write_def u_def)
    moreover have "driver_only t u" unfolding u_def by (rule driver_onlyI, rule hd_state.equality) simp_all
    then have "driver_only s u" using driver_only_trans [OF t(2)] by blast
    moreover have "do_hd u = Some Write_intr" "recalibrate u = recalibrate s" "hd_reset u = hd_reset s" using t by (simp_all add: u_def)
    ultimately show ?thesis using 3 by (auto simp: next_handler_def)
  next
    case 4
    let ?r = "request s i" and ?h = "hd_info s (unat ?d)"
    let ?b = "r_sector ?r + start_sect (hd s (unat (MINOR (r_dev ?r))))"
    obtain t where t: "hd_out ?d (r_nr_sectors ?r) (?b mod hd_sect ?h + 1) (?b div hd_sect ?h mod hd_head ?h)
          (?b div hd_sect ?h div hd_head ?h) WIN_READ Read_intr s = Ret () t"
        "driver_only s t" "do_hd t = Some Read_intr" "recalibrate t = recalibrate s" "hd_reset t = hd_reset s"
      using hd_out_answers [OF a f(3,7)] by blast
    then show ?thesis using f 4 by (simp add: start_request_def next_handler_def Let_def)
  qed
qed

section \<open>The list while it is served\<close>

text \<open>The requests \<open>rs\<close>, each for a locked buffer of its own, of which the current ones stand \<open>E\<close> more errors.\<close>

definition hd_queue :: "'a hd_state_scheme \<Rightarrow> nat list \<Rightarrow> nat \<Rightarrow> bool" where
  "hd_queue s rs E \<longleftrightarrow>
     E < 7 \<and> linked (\<lambda>i. r_next (request s i)) (current_request s 3) rs \<and> inj_on (\<lambda>i. r_bh (request s i)) (set rs) \<and>
     (\<forall>i\<in>set rs. hd_fits s (request s i) \<and> r_errors (request s i) + int E < MAX_ERRORS \<and>
        (\<exists>b. r_bh (request s i) = Some b \<and> r_buffer (request s i) = Some b \<and> b_lock (bufs s b) \<noteq> 0))"

text \<open>A command is under way as long as there are requests.\<close>

definition hd_serving :: "'a hd_state_scheme \<Rightarrow> nat list \<Rightarrow> bool" where
  "hd_serving s rs \<longleftrightarrow> \<not> hd_reset s \<and> (do_hd s = None \<longleftrightarrow> rs = []) \<and> (recalibrate s \<longrightarrow> rs \<noteq> [] \<longrightarrow> do_hd s = Some Recal_intr)"

definition phase :: "'a hd_state_scheme \<Rightarrow> nat" where
  "phase s = (if do_hd s = Some Recal_intr then if recalibrate s then 2 else 1 else 0)"

definition sectors_left :: "'a hd_state_scheme \<Rightarrow> nat list \<Rightarrow> nat" where
  "sectors_left s rs = (\<Sum>i\<leftarrow>rs. unat (r_nr_sectors (request s i)))"

lemma hd_fits_driver: "driver_only s t \<Longrightarrow> hd_fits t r = hd_fits s r"
  by (simp add: hd_fits_def driver_only_fields)

lemma hd_queue_driver:
  assumes "driver_only s t"
  shows "hd_queue t rs E = hd_queue s rs E" and "sectors_left t rs = sectors_left s rs"
  using driver_only_fields [OF assms] hd_fits_driver [OF assms] by (simp_all add: hd_queue_def sectors_left_def)

lemma do_hd_request_ok:
  assumes q: "hd_queue s rs E" and a: "answers (status_in s)" and d: "do_hd s = None" and e: "rs = [] \<Longrightarrow> \<not> hd_reset s"
  shows "\<exists>t. do_hd_request (Suc n) s = Ret () t \<and> driver_only s t \<and> hd_serving t rs \<and>
    phase t \<le> (if hd_reset s then 2 else if recalibrate s then 1 else 0)"
proof (cases rs)
  case Nil
  then have "current_request s 3 = None" using q by (simp add: hd_queue_def)
  moreover have "driver_only s s" by (rule driver_onlyI) simp
  ultimately show ?thesis using Nil d e by (simp add: hd_serving_def phase_def)
next
  case (Cons i js)
  then have c: "current_request s 3 = Some i" and f: "hd_fits s (request s i)"
    and b: "\<exists>b. r_bh (request s i) = Some b \<and> r_buffer (request s i) = Some b \<and> b_lock (bufs s b) \<noteq> 0"
    using q by (simp_all add: hd_queue_def)
  obtain t where t: "start_request i s = Ret False t" "driver_only s t" "do_hd t = Some (next_handler s (request s i))"
      "recalibrate t = hd_reset s" "\<not> hd_reset t"
    using start_request_answers [OF f a] b by auto
  have "do_hd_request (Suc n) s = Ret () t" using c hd_fits_facts(8) [OF f] b t(1) by (auto simp: buf_locked_def)
  moreover have "hd_serving t rs" using t Cons by (simp add: hd_serving_def next_handler_def)
  moreover have "phase t \<le> (if hd_reset s then 2 else if recalibrate s then 1 else 0)"
    using t by (simp add: phase_def next_handler_def)
  ultimately show ?thesis using t(2) by blast
qed

text \<open>The end of the current request, with success.\<close>

lemma end_request_fields:
  assumes "r_bh (request s i) = Some b"
  shows "request (end_request 3 (\<lambda>_ s. s) v i s) = (request s)(i := (request s i)\<lparr>r_dev := -1\<rparr>)"
    "current_request (end_request 3 (\<lambda>_ s. s) v i s) = (current_request s)(3 := r_next (request s i))"
    "bufs (end_request 3 (\<lambda>_ s. s) v i s) = (bufs s)(b := (bufs s b)\<lparr>b_uptodate := v, b_lock := 0\<rparr>)"
  using assms by (simp_all add: end_request_def unlock_buffer_def)

lemma end_request_hd [simp]:
  fixes s :: "'a hd_state_scheme"
  shows "hd (end_request m (\<lambda>_ s. s) v i s) = hd s" "hd_info (end_request m (\<lambda>_ s. s) v i s) = hd_info s"
    "NR_HD (end_request m (\<lambda>_ s. s) v i s) = NR_HD s" "hd_reset (end_request m (\<lambda>_ s. s) v i s) = hd_reset s"
    "recalibrate (end_request m (\<lambda>_ s. s) v i s) = recalibrate s" "do_hd (end_request m (\<lambda>_ s. s) v i s) = do_hd s"
    "status_in (end_request m (\<lambda>_ s. s) v i s) = status_in s"
  by (simp_all add: end_request_def unlock_buffer_def wake_up_def upd_req_def upd_buf_def upd_task_def split: option.split)

declare do_hd_request.simps [simp del]

text \<open>The current request and its buffer change, and nothing else in the list.\<close>

definition same_list :: "nat \<Rightarrow> 'a hd_state_scheme \<Rightarrow> 'a hd_state_scheme \<Rightarrow> bool" where
  "same_list i s v \<longleftrightarrow> (\<forall>j. j \<noteq> i \<longrightarrow> request v j = request s j) \<and> r_next (request v i) = r_next (request s i) \<and>
     r_bh (request v i) = r_bh (request s i) \<and> r_buffer (request v i) = r_buffer (request s i) \<and>
     r_dev (request v i) = r_dev (request s i) \<and> r_cmd (request v i) = r_cmd (request s i) \<and>
     current_request v 3 = current_request s 3 \<and> (\<forall>c. b_lock (bufs v c) = b_lock (bufs s c)) \<and>
     (\<forall>c. r_bh (request s i) \<noteq> Some c \<longrightarrow> bufs v c = bufs s c) \<and>
     hd v = hd s \<and> hd_info v = hd_info s \<and> NR_HD v = NR_HD s"

lemma same_listD:
  assumes "same_list i s v"
  shows "j \<noteq> i \<Longrightarrow> request v j = request s j" "r_next (request v j) = r_next (request s j)" "r_bh (request v j) = r_bh (request s j)"
    "r_buffer (request v j) = r_buffer (request s j)" "current_request v 3 = current_request s 3" "b_lock (bufs v c) = b_lock (bufs s c)"
    "r_bh (request s i) \<noteq> Some c \<Longrightarrow> bufs v c = bufs s c" "hd v = hd s" "hd_info v = hd_info s" "NR_HD v = NR_HD s"
    "r_dev (request v i) = r_dev (request s i)" "r_cmd (request v i) = r_cmd (request s i)"
proof -
  have j: "j = i \<or> request v j = request s j" for j using assms unfolding same_list_def by blast
  show "r_next (request v j) = r_next (request s j)" "r_bh (request v j) = r_bh (request s j)"
    "r_buffer (request v j) = r_buffer (request s j)" using j [of j] assms unfolding same_list_def by metis+
qed (use assms in \<open>simp_all add: same_list_def\<close>)

lemma hd_queue_current:
  assumes q: "hd_queue s (i # js) E" and v: "same_list i s v" and f: "hd_fits s (request v i)"
    and e: "r_errors (request v i) + int E' < MAX_ERRORS" and E: "E' \<le> E"
  shows "hd_queue v (i # js) E'"
proof -
  note m = same_listD [OF v]
  have "hd_fits v (request v j) \<and> r_errors (request v j) + int E' < MAX_ERRORS" if "j \<in> set (i # js)" for j
  proof (cases "j = i")
    case True
    then show ?thesis using f e m(8-10) by (simp add: hd_fits_def)
  next
    case False
    have "hd_fits s (request s j) \<and> r_errors (request s j) + int E < MAX_ERRORS" using q that by (auto simp: hd_queue_def)
    then show ?thesis using m(1) [OF False] m(8-10) E by (simp add: hd_fits_def)
  qed
  moreover have "E' < 7" using q E by (simp add: hd_queue_def)
  ultimately show ?thesis using q unfolding hd_queue_def m(2-6) by blast
qed

lemma hd_queue_end:
  assumes q: "hd_queue s (i # js) E" and b: "r_bh (request s i) = Some b" and v: "same_list i s v"
  defines "u \<equiv> end_request 3 (\<lambda>_ s. s) 1 i v"
  shows "hd_queue u js E" and "b_lock (bufs u b) = 0 \<and> b_uptodate (bufs u b) = 1" and "c \<noteq> b \<Longrightarrow> bufs u c = bufs s c"
    and "sectors_left s (i # js) = unat (r_nr_sectors (request s i)) + sectors_left u js"
    and "r_bh (request u j) = r_bh (request s j)"
proof -
  note m = same_listD [OF v]
  have bv: "r_bh (request v i) = Some b" using m(3) b by simp
  note f = end_request_fields [OF bv, of 1, folded u_def]
  have ni: "i \<notin> set js" using q linked_tl_distinct by (fastforce simp: hd_queue_def)
  have h: "hd u = hd s" "hd_info u = hd_info s" "NR_HD u = NR_HD s" using m(8-10) by (simp_all add: u_def)
  have n: "r_next (request u j) = r_next (request s j)" "r_bh (request u j) = r_bh (request s j)" for j using m(2,3) by (simp_all add: f(1))
  have same: "request u j = request s j" if "j \<noteq> i" for j using that m(1) [OF that] by (simp add: f(1))
  have inj: "inj_on (\<lambda>i. r_bh (request s i)) (set (i # js))" using q by (simp add: hd_queue_def)
  have "current_request u 3 = r_next (request s i)" using m(2) by (simp add: f(2))
  then have "linked (\<lambda>j. r_next (request u j)) (current_request u 3) js" using q by (simp add: hd_queue_def n)
  moreover have "inj_on (\<lambda>j. r_bh (request u j)) (set js)" unfolding n using inj by simp
  moreover have "hd_fits u (request u j) \<and> r_errors (request u j) + int E < MAX_ERRORS \<and>
      (\<exists>b. r_bh (request u j) = Some b \<and> r_buffer (request u j) = Some b \<and> b_lock (bufs u b) \<noteq> 0)" if j: "j \<in> set js" for j
  proof -
    have ji: "j \<noteq> i" using ni j by blast
    have "r_bh (request s j) \<noteq> Some b" using inj_onD [OF inj, of j i] b j ji by auto
    moreover have "b_lock (bufs u c) = b_lock (bufs s c)" if "c \<noteq> b" for c using that m(6) by (simp add: f(3))
    ultimately show ?thesis using q j h same [OF ji] by (auto simp: hd_queue_def hd_fits_def)
  qed
  moreover have "E < 7" using q by (simp add: hd_queue_def)
  ultimately show "hd_queue u js E" by (simp add: hd_queue_def)
  show "b_lock (bufs u b) = 0 \<and> b_uptodate (bufs u b) = 1" by (simp add: f(3))
  show "c \<noteq> b \<Longrightarrow> bufs u c = bufs s c" using m(7) [of c] b by (simp add: f(3))
  show "r_bh (request u j) = r_bh (request s j)" by (rule n)
  have "sectors_left s js = sectors_left u js" unfolding sectors_left_def
    by (intro arg_cong [of _ _ sum_list] map_cong refl) (metis ni same)
  then show "sectors_left s (i # js) = unat (r_nr_sectors (request s i)) + sectors_left u js" by (simp add: sectors_left_def)
qed

section \<open>One interrupt\<close>

text \<open>The state of the driver when an interrupt has been taken, and what becomes of the list.\<close>

definition taken :: "'a hd_state_scheme \<Rightarrow> nat list \<Rightarrow> nat \<Rightarrow> bool" where
  "taken s rs E \<longleftrightarrow> hd_queue s rs E \<and> answers (status_in s) \<and> do_hd s = None \<and> \<not> hd_reset s"

definition served :: "'a hd_state_scheme \<Rightarrow> nat list \<Rightarrow> 'a hd_state_scheme \<Rightarrow> nat list \<Rightarrow> nat \<Rightarrow> bool" where
  "served s rs t rs' E \<longleftrightarrow> hd_queue t rs' E \<and> hd_serving t rs' \<and> set rs' \<subseteq> set rs \<and>
     (\<forall>j. r_bh (request t j) = r_bh (request s j)) \<and>
     (\<forall>j\<in>set rs - set rs'. \<forall>b. r_bh (request s j) = Some b \<longrightarrow> b_lock (bufs t b) = 0 \<and> b_uptodate (bufs t b) = 1) \<and>
     (\<forall>c. (\<forall>j\<in>set rs. r_bh (request s j) \<noteq> Some c) \<longrightarrow> bufs t c = bufs s c)"

lemma bad_rw_intr_ok:
  assumes "current_request s 3 = Some i" and "r_errors (request s i) + 1 < MAX_ERRORS"
  shows "bad_rw_intr s = Ret () (let u = upd_req i (\<lambda>r. r\<lparr>r_errors := r_errors r + 1\<rparr>) s in
    if 3 < r_errors (request s i) + 1 then u\<lparr>hd_reset := True\<rparr> else u)"
  using assms by (simp add: bad_rw_intr_def Let_def)

lemma upd_req_hd [simp]:
  fixes s :: "'a hd_state_scheme"
  shows "hd (upd_req i f s) = hd s" "hd_info (upd_req i f s) = hd_info s" "NR_HD (upd_req i f s) = NR_HD s"
    "hd_reset (upd_req i f s) = hd_reset s" "recalibrate (upd_req i f s) = recalibrate s" "do_hd (upd_req i f s) = do_hd s"
    "status_in (upd_req i f s) = status_in s" "data_in (upd_req i f s) = data_in s"
  by (simp_all add: upd_req_def)

lemma error_step:
  assumes t: "taken s (i # js) (Suc E)"
  shows "\<exists>t. andThen (bad_rw_intr s) (\<lambda>_ s. do_hd_request (Suc n) s) = Ret () t \<and> served s (i # js) t (i # js) E \<and>
    phase t \<le> 2 \<and> sectors_left t (i # js) = sectors_left s (i # js)"
proof -
  have q: "hd_queue s (i # js) (Suc E)" "answers (status_in s)" "do_hd s = None" using t by (simp_all add: taken_def)
  have c: "current_request s 3 = Some i" "r_errors (request s i) + 1 + int E < MAX_ERRORS" "hd_fits s (request s i)"
    using q(1) by (simp_all add: hd_queue_def)
  define u where "u = (let u = upd_req i (\<lambda>r. r\<lparr>r_errors := r_errors r + 1\<rparr>) s in
    if 3 < r_errors (request s i) + 1 then u\<lparr>hd_reset := True\<rparr> else u)"
  have b: "bad_rw_intr s = Ret () u" unfolding u_def by (rule bad_rw_intr_ok) (use c in simp_all)
  have sl: "same_list i s u" "hd_fits s (request u i)" "r_errors (request u i) + int E < MAX_ERRORS"
    "bufs u = bufs s" "status_in u = status_in s" "do_hd u = do_hd s"
    using c by (simp_all add: u_def same_list_def Let_def hd_fits_def)
  have qu: "hd_queue u (i # js) E" by (rule hd_queue_current [OF q(1) sl(1-3)]) simp
  obtain v where v: "do_hd_request (Suc n) u = Ret () v" "driver_only u v" "hd_serving v (i # js)" "phase v \<le> 2"
    using do_hd_request_ok [OF qu, of n] q(2,3) sl(5,6) by (auto split: if_splits)
  have "unat (r_nr_sectors (request u j)) = unat (r_nr_sectors (request s j))" for j by (simp add: u_def Let_def)
  then have "sectors_left u (i # js) = sectors_left s (i # js)" by (simp add: sectors_left_def)
  then have "sectors_left v (i # js) = sectors_left s (i # js)" using hd_queue_driver(2) [OF v(2)] by simp
  moreover have "served s (i # js) v (i # js) E"
    unfolding served_def using v(3) hd_queue_driver(1) [OF v(2)] qu driver_only_fields [OF v(2)] same_listD(3) [OF sl(1)] sl(4) by simp
  ultimately show ?thesis using b v(1,4) by auto
qed

text \<open>A sector is done: the driver goes on with the next one, or ends the request and starts the next.\<close>

lemma sector_step:
  assumes t: "taken s (i # js) E" and rc: "\<not> recalibrate s" and v: "same_list i s v"
    and nr: "r_nr_sectors (request v i) = r_nr_sectors (request s i) - 1"
    and e: "r_errors (request v i) + int E < MAX_ERRORS"
    and d: "do_hd v = None" "\<not> hd_reset v" "\<not> recalibrate v" "answers (status_in v)"
  shows "r_nr_sectors (request v i) \<noteq> 0 \<Longrightarrow> r_sector (request v i) = r_sector (request s i) + 1 \<Longrightarrow> h \<noteq> Recal_intr \<Longrightarrow>
      driver_only v w \<Longrightarrow> do_hd w = Some h \<Longrightarrow> recalibrate w = recalibrate v \<Longrightarrow> hd_reset w = hd_reset v \<Longrightarrow>
      served s (i # js) w (i # js) E \<and> phase w = 0 \<and> sectors_left w (i # js) < sectors_left s (i # js)"
    and "r_nr_sectors (request v i) = 0 \<Longrightarrow> \<exists>t. do_hd_request (Suc n) (end_request 3 (\<lambda>_ s. s) 1 i v) = Ret () t \<and>
      served s (i # js) t js E \<and> phase t = 0 \<and> sectors_left t js < sectors_left s (i # js)"
proof -
  note m = same_listD [OF v]
  have q: "hd_queue s (i # js) E" using t by (simp add: taken_def)
  have ni: "i \<notin> set js" using q linked_tl_distinct by (fastforce simp: hd_queue_def)
  have f: "hd_fits s (request s i)" "r_nr_sectors (request s i) \<noteq> 0" using q by (simp_all add: hd_queue_def hd_fits_def Let_def)
  obtain b where b: "r_bh (request s i) = Some b" using q by (auto simp: hd_queue_def)
  have nr': "unat (r_nr_sectors (request s i)) = Suc (unat (r_nr_sectors (request v i)))"
    using unat_minus_one [OF f(2)] nr f(2) unat_gt_0 [of "r_nr_sectors (request s i)"] by simp
  show "served s (i # js) w (i # js) E \<and> phase w = 0 \<and> sectors_left w (i # js) < sectors_left s (i # js)"
    if w: "r_nr_sectors (request v i) \<noteq> 0" "r_sector (request v i) = r_sector (request s i) + 1" "h \<noteq> Recal_intr"
      "driver_only v w" "do_hd w = Some h" "recalibrate w = recalibrate v" "hd_reset w = hd_reset v"
  proof -
    have lt: "unat (r_sector (request s i)) + unat (r_nr_sectors (request s i)) < unat (nr_sects (hd s (unat (MINOR (r_dev (request s i))))))"
      using f(1) by (simp add: hd_fits_def Let_def)
    then have "unat (r_sector (request v i)) = unat (r_sector (request s i)) + 1"
      using w(2) nr' unsigned_less [of "nr_sects (hd s (unat (MINOR (r_dev (request s i)))))", where ?'a = nat]
      by (subst w(2), subst unat_add_lem [THEN iffD1]) simp_all
    then have "hd_fits s (request v i)" using f(1) lt nr' w(1) m(11,12) by (simp add: hd_fits_def Let_def)
    then have "hd_queue v (i # js) E" by (rule hd_queue_current [OF q v _ e]) simp
    then have "hd_queue w (i # js) E" using hd_queue_driver(1) [OF w(4)] by simp
    moreover have "hd_serving w (i # js)" using w d by (simp add: hd_serving_def)
    moreover have "phase w = 0" using w by (simp add: phase_def)
    moreover have "bufs w c = bufs s c" if "\<forall>j\<in>set (i # js). r_bh (request s j) \<noteq> Some c" for c
      using m(7) that driver_only_fields(3) [OF w(4)] by simp
    moreover have "(\<Sum>j\<leftarrow>js. unat (r_nr_sectors (request v j))) = (\<Sum>j\<leftarrow>js. unat (r_nr_sectors (request s j)))"
      by (intro arg_cong [of _ _ sum_list] map_cong refl) (metis ni m(1))
    then have "sectors_left v (i # js) < sectors_left s (i # js)" using nr' by (simp add: sectors_left_def)
    then have "sectors_left w (i # js) < sectors_left s (i # js)" using hd_queue_driver(2) [OF w(4)] by simp
    ultimately show ?thesis using m(3) driver_only_fields(1) [OF w(4)] by (simp add: served_def)
  qed
  show "\<exists>t. do_hd_request (Suc n) (end_request 3 (\<lambda>_ s. s) 1 i v) = Ret () t \<and> served s (i # js) t js E \<and> phase t = 0 \<and>
      sectors_left t js < sectors_left s (i # js)"
  proof -
    let ?u = "end_request 3 (\<lambda>_ s. s) 1 i v"
    note u = hd_queue_end [OF q b v]
    obtain w where w: "do_hd_request (Suc n) ?u = Ret () w" "driver_only ?u w" "hd_serving w js" "phase w \<le> 0"
      using do_hd_request_ok [OF u(1), of n] d by auto
    have "served s (i # js) w js E"
      unfolding served_def using u(1,2,3,5) hd_queue_driver(1) [OF w(2)] driver_only_fields [OF w(2)] w(3) b ni by auto
    moreover have "sectors_left w js < sectors_left s (i # js)" using u(4) hd_queue_driver(2) [OF w(2)] nr' by simp
    ultimately show ?thesis using w(1,4) by blast
  qed
qed

text \<open>An interrupt, with what the controller answers: the values of its status register and the sector it has.\<close>

type_synonym hd_event = "(nat \<Rightarrow> u8) \<times> u8 list"

definition hd_deliver :: "nat \<Rightarrow> hd_event \<Rightarrow> 'a hd_state_scheme \<Rightarrow> ('a hd_state_scheme, unit) outcome" where
  "hd_deliver n e s = hd_interrupt n (s\<lparr>status_in := fst e, data_in := snd e\<rparr>)"

definition hd_error :: "hd_event \<Rightarrow> bool" where
  "hd_error e \<longleftrightarrow> \<not> status_ok (fst e 0)"

definition hd_answers :: "hd_event \<Rightarrow> bool" where
  "hd_answers e \<longleftrightarrow> answers (\<lambda>k. fst e (k + 1))"

text \<open>The state in which the handler starts after it has read the status.\<close>

definition entered :: "hd_event \<Rightarrow> 'a hd_state_scheme \<Rightarrow> 'a hd_state_scheme" where
  "entered e s = (outb 0x20 0x20 (outb 0x20 0xA0 (s\<lparr>data_in := snd e\<rparr>)))\<lparr>do_hd := None, status_in := (\<lambda>k. fst e (k + 1))\<rparr>"

lemma entered_simps [simp]:
  "request (entered e s) = request s" "current_request (entered e s) = current_request s" "bufs (entered e s) = bufs s"
  "hd (entered e s) = hd s" "hd_info (entered e s) = hd_info s" "NR_HD (entered e s) = NR_HD s"
  "do_hd (entered e s) = None" "recalibrate (entered e s) = recalibrate s" "hd_reset (entered e s) = hd_reset s"
  "status_in (entered e s) = (\<lambda>k. fst e (k + 1))"
  by (simp_all add: entered_def outb_def)

lemma entered_same:
  "hd_queue (entered e s) rs E = hd_queue s rs E" "sectors_left (entered e s) rs = sectors_left s rs"
  "served (entered e s) rs t rs' E = served s rs t rs' E"
  by (simp_all add: hd_queue_def hd_fits_def sectors_left_def served_def)

lemma win_result_entered:
  "win_result (outb 0x20 0x20 ((outb 0x20 0xA0 (s\<lparr>status_in := fst e, data_in := snd e\<rparr>))\<lparr>do_hd := None\<rparr>)) = (hd_error e, entered e s)"
  unfolding win_result_def in_status_def Let_def hd_error_def entered_def
  by (simp add: outb_def)

lemma hd_deliver_some:
  assumes "do_hd s = Some h" and "current_request s 3 = Some i"
  shows "hd_deliver n e s =
    (if h = Recal_intr \<or> hd_error e then
       andThen (if hd_error e then bad_rw_intr (entered e s) else Ret () (entered e s)) (\<lambda>_ s. do_hd_request n s)
     else if h = Read_intr then
       andThen (port_read i (entered e s)) (\<lambda>_ s.
         let s = next_sector i (upd_req i (\<lambda>r. r\<lparr>r_errors := 0\<rparr>) s);
             s = upd_req i (\<lambda>r. r\<lparr>r_nr_sectors := r_nr_sectors r - 1\<rparr>) s in
         if r_nr_sectors (request s i) \<noteq> 0 then Ret () (s\<lparr>do_hd := Some Read_intr\<rparr>)
         else do_hd_request n (end_request 3 (\<lambda>_ s. s) 1 i s))
     else let s = upd_req i (\<lambda>r. r\<lparr>r_nr_sectors := r_nr_sectors r - 1\<rparr>) (entered e s) in
       if r_nr_sectors (request s i) \<noteq> 0 then port_write i ((next_sector i s)\<lparr>do_hd := Some Write_intr\<rparr>)
       else do_hd_request n (end_request 3 (\<lambda>_ s. s) 1 i s))"
proof -
  have "do_hd (outb 0x20 0xA0 (s\<lparr>status_in := fst e, data_in := snd e\<rparr>)) = Some h" using assms(1) by (simp add: outb_def)
  then show ?thesis using assms(2)
    by (cases h) (simp_all add: hd_deliver_def hd_interrupt_def read_intr_def write_intr_def recal_intr_def win_result_entered
        assms(1) Let_def)
qed

lemma interrupt_step:
  assumes q: "hd_queue s (i # js) E" and sv: "hd_serving s (i # js)" and a: "hd_answers e" and E: "hd_error e \<Longrightarrow> 0 < E"
  defines "E' \<equiv> if hd_error e then E - 1 else E"
  shows "\<exists>t rs'. hd_deliver (Suc n) e s = Ret () t \<and> served s (i # js) t rs' E' \<and>
    sectors_left t rs' + phase t + 3 * E' < sectors_left s (i # js) + phase s + 3 * E"
proof -
  let ?s = "entered e s"
  obtain h where h: "do_hd s = Some h" using sv by (auto simp: hd_serving_def)
  have c: "current_request s 3 = Some i" using q by (simp add: hd_queue_def)
  have tk: "taken ?s (i # js) E" using q sv a by (simp add: taken_def entered_same hd_answers_def hd_serving_def)
  note dl = hd_deliver_some [OF h c, of "Suc n" e]
  have rc: "h = Recal_intr" if "recalibrate s" using sv that h by (simp add: hd_serving_def)
  obtain b where b: "r_buffer (request s i) = Some b" "r_bh (request s i) = Some b" using q by (auto simp: hd_queue_def)
  have er: "r_errors (request s i) + int E < MAX_ERRORS" using q by (simp add: hd_queue_def)
  consider "hd_error e" | "\<not> hd_error e" "h = Recal_intr" | "\<not> hd_error e" "h = Read_intr" | "\<not> hd_error e" "h = Write_intr"
    by (cases h) auto
  then show ?thesis
  proof cases
    case 1
    then obtain k where k: "E = Suc k" "E' = k" using E by (cases E) (auto simp: E'_def)
    obtain t where "andThen (bad_rw_intr ?s) (\<lambda>_ s. do_hd_request (Suc n) s) = Ret () t" "served ?s (i # js) t (i # js) k"
        "phase t \<le> 2" "sectors_left t (i # js) = sectors_left ?s (i # js)"
      using error_step [of ?s i js k n] tk k(1) by blast
    then show ?thesis using dl 1 k by (intro exI [of _ t] exI [of _ "i # js"]) (simp add: entered_same)
  next
    case 2
    have qs: "hd_queue ?s (i # js) E" using q by (simp add: entered_same)
    obtain t where t: "do_hd_request (Suc n) ?s = Ret () t" "driver_only ?s t" "hd_serving t (i # js)"
        "phase t \<le> (if recalibrate s then 1 else 0)"
      using do_hd_request_ok [OF qs, of n] a sv by (auto simp: hd_answers_def hd_serving_def)
    have "served s (i # js) t (i # js) E"
      unfolding served_def using t(3) hd_queue_driver(1) [OF t(2)] qs driver_only_fields [OF t(2)] by simp
    moreover have "phase t < phase s" using t(4) h 2 by (auto simp: phase_def split: if_splits)
    moreover have "sectors_left t (i # js) = sectors_left s (i # js)" using hd_queue_driver(2) [OF t(2)] by (simp add: entered_same)
    ultimately show ?thesis using dl 2 t(1) by (intro exI [of _ t] exI [of _ "i # js"]) (simp add: E'_def)
  next
    case 3
    have nrc: "\<not> recalibrate ?s" using rc 3(2) by auto
    define p where "p = write_block_at b (r_boff (request s i)) (take 512 (snd e)) ?s"
    define v where "v = upd_req i (\<lambda>r. r\<lparr>r_nr_sectors := r_nr_sectors r - 1\<rparr>) (next_sector i (upd_req i (\<lambda>r. r\<lparr>r_errors := 0\<rparr>) p))"
    have pr: "port_read i ?s = Ret () p" using b(1) by (simp add: port_read_def p_def entered_def outb_def)
    have p: "request p = request s" "current_request p = current_request s" "hd p = hd s" "hd_info p = hd_info s" "NR_HD p = NR_HD s"
      "do_hd p = None" "hd_reset p = hd_reset s" "recalibrate p = recalibrate s" "status_in p = (\<lambda>k. fst e (k + 1))"
      "\<And>c. b_lock (bufs p c) = b_lock (bufs s c)" "\<And>c. c \<noteq> b \<Longrightarrow> bufs p c = bufs s c"
      using entered_simps [of e s] by (simp_all add: p_def write_block_at_def del: entered_simps) (simp_all add: upd_buf_def)
    have v: "same_list i ?s v" "r_nr_sectors (request v i) = r_nr_sectors (request ?s i) - 1" "r_sector (request v i) = r_sector (request ?s i) + 1"
      "r_errors (request v i) = 0" "do_hd v = None" "\<not> hd_reset v" "\<not> recalibrate v" "answers (status_in v)"
      using p b a sv nrc by (simp_all add: v_def next_sector_def same_list_def hd_answers_def hd_serving_def)
    have ev: "r_errors (request v i) + int E < MAX_ERRORS" using v(4) q by (simp add: hd_queue_def)
    have dl': "hd_deliver (Suc n) e s = (if r_nr_sectors (request v i) \<noteq> 0 then Ret () (v\<lparr>do_hd := Some Read_intr\<rparr>)
        else do_hd_request (Suc n) (end_request 3 (\<lambda>_ s. s) 1 i v))"
      using dl 3 pr by (simp add: v_def Let_def)
    note st = sector_step [OF tk nrc v(1,2) ev v(5-8), unfolded entered_same]
    show ?thesis
    proof (cases "r_nr_sectors (request v i) = 0")
      case True
      then show ?thesis using st(2) [of n] dl' 3 by (fastforce simp: E'_def)
    next
      case False
      let ?w = "v\<lparr>do_hd := Some Read_intr\<rparr>"
      have "driver_only v ?w" by (rule driver_onlyI, rule hd_state.equality) simp_all
      then show ?thesis using st(1) [of Read_intr ?w] False v(3) dl' 3 by (intro exI [of _ ?w] exI [of _ "i # js"]) (simp add: E'_def)
    qed
  next
    case 4
    have nrc: "\<not> recalibrate ?s" using rc 4(2) by auto
    define v where "v = upd_req i (\<lambda>r. r\<lparr>r_nr_sectors := r_nr_sectors r - 1\<rparr>) ?s"
    define v' where "v' = next_sector i v"
    define w where "w = v'\<lparr>do_hd := Some Write_intr, data_out := read_block_at b (r_boff (request v' i)) 512 v' # data_out v'\<rparr>"
    have v: "same_list i ?s v" "same_list i ?s v'" "r_nr_sectors (request v i) = r_nr_sectors (request ?s i) - 1"
      "r_nr_sectors (request v' i) = r_nr_sectors (request ?s i) - 1" "r_sector (request v' i) = r_sector (request ?s i) + 1"
      "r_errors (request v i) = r_errors (request s i)" "r_errors (request v' i) = r_errors (request s i)"
      "do_hd v = None" "\<not> hd_reset v" "\<not> recalibrate v" "answers (status_in v)"
      "do_hd v' = None" "\<not> hd_reset v'" "\<not> recalibrate v'" "answers (status_in v')"
      using a sv nrc by (simp_all add: v'_def v_def next_sector_def same_list_def hd_answers_def hd_serving_def)
    have ev: "r_errors (request v i) + int E < MAX_ERRORS" "r_errors (request v' i) + int E < MAX_ERRORS" using v(6,7) er by simp_all
    have bw: "r_buffer (request v' i) = Some b" using b(1) by (simp add: v'_def v_def next_sector_def)
    have "port_write i (v'\<lparr>do_hd := Some Write_intr\<rparr>) = Ret () w" using bw by (simp add: port_write_def w_def read_block_at_def)
    then have dl': "hd_deliver (Suc n) e s = (if r_nr_sectors (request v i) \<noteq> 0 then Ret () w
        else do_hd_request (Suc n) (end_request 3 (\<lambda>_ s. s) 1 i v))"
      using dl 4 by (simp add: v'_def v_def Let_def)
    show ?thesis
    proof (cases "r_nr_sectors (request v i) = 0")
      case True
      then show ?thesis using sector_step(2) [OF tk nrc v(1,3) ev(1) v(8-11), of n] dl' 4 by (fastforce simp: E'_def entered_same)
    next
      case False
      have "driver_only v' w" unfolding w_def by (rule driver_onlyI, rule hd_state.equality) simp_all
      then show ?thesis using sector_step(1) [OF tk nrc v(2,4) ev(2) v(12-15), of Write_intr w] False v dl' 4
        by (intro exI [of _ w] exI [of _ "i # js"]) (simp add: E'_def entered_same w_def)
    qed
  qed
qed

section \<open>The list comes to its end\<close>

fun hd_run :: "nat \<Rightarrow> hd_event list \<Rightarrow> 'a hd_state_scheme \<Rightarrow> ('a hd_state_scheme, unit) outcome" where
  "hd_run n [] s = Ret () s"
| "hd_run n (e # es) s = andThen (hd_deliver n e s) (\<lambda>_ s. hd_run n es s)"

lemma hd_run_idle:
  "do_hd s = None \<Longrightarrow> \<exists>t. hd_run n es s = Ret () t \<and> current_request t = current_request s \<and> bufs t = bufs s \<and> do_hd t = None"
proof (induction es arbitrary: s)
  case (Cons e es)
  let ?t = "outb 0x20 0x20 ((outb 0x20 0xA0 (s\<lparr>status_in := fst e, data_in := snd e\<rparr>))\<lparr>do_hd := None\<rparr>)"
  have "hd_deliver n e s = Ret () ?t" using Cons.prems by (simp add: hd_deliver_def hd_interrupt_def Let_def outb_def)
  moreover have "do_hd ?t = None" "current_request ?t = current_request s" "bufs ?t = bufs s" by (simp_all add: outb_def)
  ultimately show ?case using Cons.IH [of ?t] by auto
qed simp

lemma hd_run_done:
  assumes "hd_queue s rs E" and "hd_serving s rs" and "\<forall>e\<in>set es. hd_answers e" and "length (filter hd_error es) \<le> E"
    and "sectors_left s rs + phase s + 3 * E \<le> length es"
  shows "\<exists>t. hd_run (Suc n) es s = Ret () t \<and> current_request t 3 = None \<and> do_hd t = None \<and>
    (\<forall>i\<in>set rs. \<forall>b. r_bh (request s i) = Some b \<longrightarrow> b_lock (bufs t b) = 0 \<and> b_uptodate (bufs t b) = 1) \<and>
    (\<forall>c. (\<forall>i\<in>set rs. r_bh (request s i) \<noteq> Some c) \<longrightarrow> bufs t c = bufs s c)"
  using assms
proof (induction es arbitrary: s rs E)
  case Nil
  then have "sectors_left s rs = 0" by simp
  have nz: "r_nr_sectors (request s i) \<noteq> 0" if "i \<in> set rs" for i
    using Nil.prems(1) that by (auto simp: hd_queue_def hd_fits_def Let_def)
  have "rs = []"
  proof (rule ccontr)
    assume "rs \<noteq> []"
    then obtain i js where rs: "rs = i # js" by (cases rs) auto
    then have "unat (r_nr_sectors (request s i)) = 0" using \<open>sectors_left s rs = 0\<close> by (simp add: sectors_left_def)
    then have "r_nr_sectors (request s i) = 0" by (simp only: unat_eq_zero)
    then show False using nz [of i] rs by simp
  qed
  then show ?case using Nil.prems by (simp add: hd_queue_def hd_serving_def)
next
  case (Cons e es)
  show ?case
  proof (cases rs)
    case Nil
    then have "do_hd s = None" "current_request s 3 = None" using Cons.prems by (simp_all add: hd_serving_def hd_queue_def)
    then show ?thesis using hd_run_idle [of s "Suc n" "e # es"] Nil by auto
  next
    case (Cons i js)
    define E' where "E' = (if hd_error e then E - 1 else E)"
    obtain t rs' where t: "hd_deliver (Suc n) e s = Ret () t" "served s rs t rs' E'"
        "sectors_left t rs' + phase t + 3 * E' < sectors_left s rs + phase s + 3 * E"
      using interrupt_step [of s i js E e n] Cons.prems Cons unfolding E'_def by (auto split: if_splits)
    have sv: "hd_queue t rs' E'" "hd_serving t rs'" "set rs' \<subseteq> set rs" "\<And>j. r_bh (request t j) = r_bh (request s j)"
      "\<And>j b. j \<in> set rs - set rs' \<Longrightarrow> r_bh (request s j) = Some b \<Longrightarrow> b_lock (bufs t b) = 0 \<and> b_uptodate (bufs t b) = 1"
      "\<And>c. \<forall>j\<in>set rs. r_bh (request s j) \<noteq> Some c \<Longrightarrow> bufs t c = bufs s c"
      using t(2) unfolding served_def by blast+
    have "length (filter hd_error es) \<le> E'" using Cons.prems(4) by (auto simp: E'_def split: if_splits)
    moreover have "sectors_left t rs' + phase t + 3 * E' \<le> length es" using t(3) Cons.prems(5) by simp
    ultimately obtain u where u: "hd_run (Suc n) es t = Ret () u" "current_request u 3 = None" "do_hd u = None"
        "\<And>i b. i \<in> set rs' \<Longrightarrow> r_bh (request s i) = Some b \<Longrightarrow> b_lock (bufs u b) = 0 \<and> b_uptodate (bufs u b) = 1"
        "\<And>c. \<forall>i\<in>set rs'. r_bh (request s i) \<noteq> Some c \<Longrightarrow> bufs u c = bufs t c"
      using Cons.IH [OF sv(1,2)] Cons.prems(3) unfolding sv(4) by auto
    have inj: "inj_on (\<lambda>i. r_bh (request s i)) (set rs)" using Cons.prems(1) by (simp add: hd_queue_def)
    have "b_lock (bufs u b) = 0 \<and> b_uptodate (bufs u b) = 1" if "j \<in> set rs" "r_bh (request s j) = Some b" for j b
    proof (cases "j \<in> set rs'")
      case True
      then show ?thesis using u(4) that(2) by blast
    next
      case False
      then have "\<forall>i\<in>set rs'. r_bh (request s i) \<noteq> Some b" using inj_onD [OF inj] sv(3) that by (metis subsetD)
      then show ?thesis using u(5) sv(5) that False by simp
    qed
    moreover have "bufs u c = bufs s c" if "\<forall>j\<in>set rs. r_bh (request s j) \<noteq> Some c" for c
    proof -
      have "\<forall>j\<in>set rs'. r_bh (request s j) \<noteq> Some c" using sv(3) that by blast
      then show ?thesis using u(5) sv(6) that by simp
    qed
    ultimately show ?thesis using t(1) u(1-3) by auto
  qed
qed

text \<open>C38: the driver is started on a list of requests \<open>rs\<close>, each for a locked buffer of its own and for sectors of its
  partition but the last, and interrupts follow; the controller is never busy when it is asked, and reports at most \<open>E\<close>
  errors, fewer than \<open>MAX_ERRORS\<close>. Then one interrupt for each sector and three for each error, and one when the drive
  has to be recalibrated first, are enough: no step panics or hangs, the list is empty, no handler is left, every buffer
  of the list is unlocked and up to date, and no other buffer has changed.\<close>

theorem hd_requests_complete:
  assumes q: "hd_queue s rs E" and a: "answers (status_in s)" and d: "do_hd s = None" "\<not> hd_reset s"
    and es: "\<forall>e\<in>set es. hd_answers e" "length (filter hd_error es) \<le> E" "sectors_left s rs + 3 * E < length es"
  shows "\<exists>t. andThen (do_hd_request (Suc n) s) (\<lambda>_ s. hd_run (Suc n) es s) = Ret () t \<and> current_request t 3 = None \<and> do_hd t = None \<and>
    (\<forall>i\<in>set rs. \<forall>b. r_bh (request s i) = Some b \<longrightarrow> b_lock (bufs t b) = 0 \<and> b_uptodate (bufs t b) = 1) \<and>
    (\<forall>c. (\<forall>i\<in>set rs. r_bh (request s i) \<noteq> Some c) \<longrightarrow> bufs t c = bufs s c)"
proof -
  obtain u where u: "do_hd_request (Suc n) s = Ret () u" "driver_only s u" "hd_serving u rs" "phase u \<le> 1"
    using do_hd_request_ok [OF q a d(1), of n] d(2) by (auto split: if_splits)
  note f = driver_only_fields [OF u(2)] hd_queue_driver [OF u(2)]
  have "hd_queue u rs E" using q f by simp
  moreover have "sectors_left u rs + phase u + 3 * E \<le> length es" using es(3) u(4) f by simp
  ultimately show ?thesis using hd_run_done [OF _ u(3) es(1,2), of n] u(1) f by simp
qed

text \<open>Two requests on the first partition, a read of sectors 10 and 11 and a write of sectors 20 and 21; the controller
  reports an error once.\<close>

definition hd_request :: "int \<Rightarrow> u32 \<Rightarrow> nat \<Rightarrow> nat option \<Rightarrow> request_struct" where
  "hd_request rw sec b nx = \<lparr>r_dev = 0x301, r_cmd = rw, r_errors = 0, r_sector = sec, r_nr_sectors = 2, r_buffer = Some b,
     r_boff = 0, r_waiting = 0, r_bh = Some b, r_next = nx\<rparr>"

definition hd_example :: hd_state where
  "hd_example = fs_state.extend
     (empty_fs\<lparr>bufs := (\<lambda>b. (free_buf b)\<lparr>b_lock := 1\<rparr>), current_request := (\<lambda>m. if m = 3 then Some 0 else None),
        request := (\<lambda>i. if i = 0 then hd_request READ 10 0 (Some 1) else hd_request WRITE 20 1 None)\<rparr>)
     \<lparr>gdt = (\<lambda>_. \<lparr>desc_a = 0, desc_b = 0\<rparr>), idt = (\<lambda>_. \<lparr>desc_a = 0, desc_b = 0\<rparr>),
      hd_info = (\<lambda>_. \<lparr>hd_head = 4, hd_sect = 17, hd_cyl = 615, hd_wpcom = 300, hd_lzone = 615, hd_ctl = 0\<rparr>), NR_HD = 1,
      hd = (\<lambda>_. \<lparr>start_sect = 17, nr_sects = 41820\<rparr>), recalibrate = False, hd_reset = False, do_hd = None, callable = False,
      cmos = (\<lambda>_. 0x10), status_in = (\<lambda>_. 0x58), data_in = [], data_out = []\<rparr>"

definition ok_event :: hd_event where
  "ok_event = (\<lambda>_. 0x58, replicate 512 7)"

definition error_event :: hd_event where
  "error_event = ((\<lambda>_. 0x58)(0 := 0x59), [])"

lemma hd_example_simps:
  "current_request hd_example = (\<lambda>m. if m = 3 then Some 0 else None)" "bufs hd_example = (\<lambda>b. (free_buf b)\<lparr>b_lock := 1\<rparr>)"
  "request hd_example = (\<lambda>i. if i = 0 then hd_request READ 10 0 (Some 1) else hd_request WRITE 20 1 None)"
  "hd_info hd_example = (\<lambda>_. \<lparr>hd_head = 4, hd_sect = 17, hd_cyl = 615, hd_wpcom = 300, hd_lzone = 615, hd_ctl = 0\<rparr>)"
  "NR_HD hd_example = 1" "hd hd_example = (\<lambda>_. \<lparr>start_sect = 17, nr_sects = 41820\<rparr>)" "\<not> hd_reset hd_example"
  "\<not> recalibrate hd_example" "do_hd hd_example = None" "status_in hd_example = (\<lambda>_. 0x58)"
  by (simp_all add: hd_example_def empty_fs_def two_procs_def two_tasks_def fs_state.defs proc_state.defs sched_state.defs)

lemma hd_example_queue: "hd_queue hd_example [0, 1] 1" "sectors_left hd_example [0, 1] = 4"
  by (simp_all add: hd_queue_def hd_fits_def hd_example_simps hd_request_def sectors_left_def MINOR_def MAJOR_def inj_on_def free_buf_def)

lemma hd_example_events: "answers (\<lambda>_. 0x58)" "hd_answers ok_event" "hd_answers error_event" "hd_error error_event" "\<not> hd_error ok_event"
  by (simp_all add: answers_def hd_answers_def ok_event_def error_event_def hd_error_def status_ok_def)

theorem hd_requests_complete_witness:
  "\<exists>t. andThen (do_hd_request (Suc 0) hd_example) (\<lambda>_ s. hd_run (Suc 0) (error_event # replicate 7 ok_event) s) = Ret () t \<and>
     current_request t 3 = None \<and> b_lock (bufs t 0) = 0 \<and> b_uptodate (bufs t 0) = 1 \<and> b_lock (bufs t 1) = 0 \<and> b_uptodate (bufs t 1) = 1"
  using hd_requests_complete [OF hd_example_queue(1), of "error_event # replicate 7 ok_event" 0] hd_example_events hd_example_queue(2)
  by (simp add: hd_example_simps hd_request_def) blast

section \<open>The command block\<close>

text \<open>The sector that the registers name, counted from the start of the drive they select.\<close>

definition command_drive :: "'a hd_state_scheme \<Rightarrow> nat" where
  "command_drive s = (if bit (ports s 0x1f6) 4 then 1 else 0)"

definition command_lba :: "'a hd_state_scheme \<Rightarrow> nat" where
  "command_lba s =
     (let i = hd_info s (command_drive s);
          cyl = unat (ports s 0x1f4) + 256 * unat (ports s 0x1f5);
          head = unat (ports s 0x1f6 AND 0x0f)
      in (cyl * unat (hd_head i) + head) * unat (hd_sect i) + unat (ports s 0x1f3) - 1)"

lemma hd_out_ports:
  assumes "answers (status_in s)" and "\<not> 1 < drive" and "\<not> 15 < head"
  shows "\<exists>t. hd_out drive nsect sect head cyl cmd h s = Ret () t \<and> answers (status_in t) \<and> hd_info t = hd_info s \<and>
    request t = request s \<and>
    ports t 0x1f2 = ucast nsect \<and> ports t 0x1f3 = ucast sect \<and> ports t 0x1f4 = ucast cyl \<and> ports t 0x1f5 = ucast (drop_bit 8 cyl) \<and>
    ports t 0x1f6 = ucast (0xA0 OR push_bit 4 drive OR head) \<and> ports t 0x1f7 = ucast cmd"
  using assms(2,3) answers_shift [OF assms(1)]
  by (simp add: hd_out_def controller_ready_answers [OF assms(1)] Let_def outb_def)

lemma drive_head_register:
  assumes "\<not> 1 < (drive :: u32)" and "\<not> 15 < (head :: u32)"
  defines "v \<equiv> ucast (0xA0 OR push_bit 4 drive OR head) :: u8"
  shows "bit v 4 \<longleftrightarrow> drive = 1" and "unat (v AND 0x0f) = unat head"
proof -
  have "unat drive < 2" "unat head < 16" using assms(1,2) by (simp_all add: word_less_nat_alt not_less)
  moreover have "drive = of_nat (unat drive)" "head = of_nat (unat head)" by simp_all
  ultimately obtain i j where i: "i < 2" "drive = of_nat i" and j: "j < 16" "head = of_nat j" by metis
  have "i \<in> {0, 1}" "j \<in> {0, 1, 2, 3, 4, 5, 6, 7, 8, 9, 10, 11, 12, 13, 14, 15}"
    unfolding insert_iff empty_iff using i(1) j(1) by presburger+
  then show "bit v 4 \<longleftrightarrow> drive = 1" "unat (v AND 0x0f) = unat head"
    unfolding v_def i(2) j(2) by (elim insertE; simp)+
qed

lemma chs_decode:
  assumes "0 < h" and "0 < (n::nat)"
  shows "(b div n div h * h + b div n mod h) * n + b mod n = b"
  by (metis div_mult_mod_eq)

lemma unat_low_byte: "unat (ucast (x :: u32) :: u8) = unat x mod 256"
  by (simp add: unsigned_ucast_eq take_bit_eq_mod)

lemma cylinder_bytes: "unat c < 65536 \<Longrightarrow> unat (ucast (c :: u32) :: u8) + 256 * unat (ucast (drop_bit 8 c) :: u8) = unat c"
proof -
  assume c: "unat c < 65536"
  have "unat (ucast c :: u8) = unat c mod 256" by (simp add: unat_low_byte)
  moreover have "unat (drop_bit 8 c) = unat c div 256" by (simp add: drop_bit_eq_div unat_div)
  then have "unat (ucast (drop_bit 8 c) :: u8) = unat c div 256 mod 256" by (simp add: unat_low_byte)
  moreover have "unat c div 256 < 256" using c by simp
  ultimately show ?thesis by simp
qed

text \<open>C16: the command that the driver sends for a request names the right sector: on a drive of at most 255 sectors a
  track and 65536 cylinders, the cylinder, head and sector in the registers of the controller stand for the sector of the
  request, counted from the start of its partition; with the drive of the partition, the number of sectors and the
  command.\<close>

theorem hd_command_names_sector:
  assumes f: "hd_fits s (request s i)" and a: "answers (status_in s)" and r: "\<not> hd_reset s" "\<not> recalibrate s" "r_buffer (request s i) \<noteq> None"
    and dev: "d = MINOR (r_dev (request s i))" and g: "G = hd_info s (unat d div 5)" "unat (hd_sect G) \<le> 255"
    and lba: "lba = unat (r_sector (request s i)) + unat (start_sect (hd s (unat d)))"
      "lba < 65536 * unat (hd_head G) * unat (hd_sect G)"
  shows "\<exists>t. start_request i s = Ret False t \<and> command_lba t = lba \<and> command_drive t = unat d div 5 \<and>
    ports t 0x1f2 = ucast (r_nr_sectors (request s i)) \<and> ports t 0x1f7 = (if r_cmd (request s i) = WRITE then 0x30 else 0x20)"
proof -
  note ff = hd_fits_facts [OF f, folded dev]
  let ?r = "request s i" and ?D = "d div 5"
  have D: "unat ?D = unat d div 5" by (simp add: unat_div)
  have G: "hd_info s (unat ?D) = G" using g(1) D by simp
  let ?b = "r_sector ?r + start_sect (hd s (unat d))"
  let ?sec = "?b mod hd_sect G + 1" and ?head = "?b div hd_sect G mod hd_head G" and ?cyl = "?b div hd_sect G div hd_head G"
  let ?rw = "if r_cmd ?r = WRITE then WIN_WRITE else WIN_READ" and ?h = "if r_cmd ?r = WRITE then Write_intr else Read_intr"
  have n: "0 < unat (hd_sect G)" "0 < unat (hd_head G)" "unat (hd_head G) \<le> 16"
    using f ff(4,5) by (simp_all add: G unat_gt_0 hd_fits_def Let_def word_le_nat_alt flip: dev)
  obtain t where t: "hd_out ?D (r_nr_sectors ?r) ?sec ?head ?cyl ?rw ?h s = Ret () t" "answers (status_in t)" "hd_info t = hd_info s"
      "request t = request s" "ports t 0x1f2 = ucast (r_nr_sectors ?r)" "ports t 0x1f3 = ucast ?sec" "ports t 0x1f4 = ucast ?cyl"
      "ports t 0x1f5 = ucast (drop_bit 8 ?cyl)" "ports t 0x1f6 = ucast (0xA0 OR push_bit 4 ?D OR ?head)" "ports t 0x1f7 = ucast ?rw"
    using hd_out_ports [OF a ff(3), of ?head] ff(7) G by metis
  obtain u where u: "start_request i s = Ret False u" "ports u = ports t" "hd_info u = hd_info t"
  proof (cases "r_cmd ?r = WRITE")
    case True
    obtain b where b: "r_buffer ?r = Some b" using r(3) by auto
    show ?thesis
      by (rule that [of "(t\<lparr>status_in := (\<lambda>k. status_in t (k + 1))\<rparr>)\<lparr>data_out := read_block_at b (r_boff ?r) 512 t # data_out t\<rparr>"])
        (use ff(1,2,4,5) r t(1,2,4) True b in \<open>simp_all add: start_request_def Let_def G drq_loop_answers port_write_def read_block_at_def flip: dev\<close>)
  next
    case False
    then have "r_cmd ?r = READ" using ff(9) by blast
    then show ?thesis using that [of t] ff(1,2,4,5) r t(1) by (simp add: start_request_def Let_def G flip: dev)
  qed
  have dh: "bit (ports t 0x1f6) 4 \<longleftrightarrow> ?D = 1" "unat (ports t 0x1f6 AND 0x0f) = unat ?head"
    using drive_head_register [OF ff(3,7)] unfolding t(9) G by blast+
  have "unat ?D < 2" using ff(3) by (simp add: word_less_nat_alt not_less)
  then have "?D = 1 \<longleftrightarrow> unat ?D = 1" "unat ?D = 0 \<or> unat ?D = 1" by (auto simp: word_unat_eq_iff)
  then have cd: "command_drive u = unat d div 5" using dh(1) D by (auto simp: command_drive_def u(2))
  have "lba < 2 ^ 32" using lba(2) n(3) g(2) mult_le_mono [OF n(3) g(2)] by simp
  then have ub: "unat ?b = lba" using lba(1) by (subst unat_add_lem [THEN iffD1]) simp_all
  have us: "unat ?sec = lba mod unat (hd_sect G) + 1" "lba mod unat (hd_sect G) < 255"
  proof -
    have l: "lba mod unat (hd_sect G) < unat (hd_sect G)" using n(1) by simp
    then show "lba mod unat (hd_sect G) < 255" using g(2) by linarith
    then show "unat ?sec = lba mod unat (hd_sect G) + 1" using ub by (subst unat_add_lem [THEN iffD1]) (simp_all add: unat_mod)
  qed
  have uc: "unat ?cyl = lba div unat (hd_sect G) div unat (hd_head G)" using ub by (simp add: unat_div)
  have "lba div unat (hd_sect G) div unat (hd_head G) < 65536"
    using lba(2) n by (simp add: div_less_iff_less_mult flip: div_mult2_eq) (simp add: ac_simps)
  then have cyl: "unat (ports t 0x1f4) + 256 * unat (ports t 0x1f5) = lba div unat (hd_sect G) div unat (hd_head G)"
    using cylinder_bytes [of ?cyl] uc unfolding t(7,8) by simp
  have sec: "unat (ports t 0x1f3) = lba mod unat (hd_sect G) + 1" using us unfolding t(6) by (simp add: unat_low_byte)
  have "unat ?head = lba div unat (hd_sect G) mod unat (hd_head G)" using ub by (simp add: unat_div unat_mod)
  then have "command_lba u = lba"
    using chs_decode [OF n(2,1), of lba] cyl sec dh(2) g(1) t(3)
    by (simp add: command_lba_def cd u(2,3) Let_def)
  then show ?thesis using u(1,2) cd t(5,10) by auto
qed

theorem hd_command_names_sector_witness:
  "\<exists>t. start_request 0 hd_example = Ret False t \<and> command_lba t = 27 \<and> command_drive t = 0 \<and> ports t 0x1f2 = 2 \<and> ports t 0x1f7 = 0x20"
proof -
  have "hd_fits hd_example (request hd_example 0)" "r_buffer (request hd_example 0) \<noteq> None"
    "answers (status_in hd_example)" using hd_example_queue(1) hd_example_events(1) by (auto simp: hd_queue_def hd_example_simps)
  from hd_command_names_sector [OF this(1,3) _ _ this(2) refl refl _ refl]
  show ?thesis by (simp add: hd_example_simps hd_request_def MINOR_def)
qed

end
