(* ===== verification/Exec.thy ===== *)
theory Exec
  imports Lifecycle
begin

text \<open>
  \<open>execve\<close> (\<^verbatim>\<open>fs/exec.c\<close>, \<^verbatim>\<open>include/a.out.h\<close>): the arguments are copied to pages of their own, which become the top of
  the new user space, where the tables of pointers to them are built.

  \<open>img\<close> is what the new space holds where no page is mapped, the pages that faults will load (\<open>do_no_page\<close>); \<open>fuel\<close> bounds the
  length of a string and of a table in user memory, whose ends the code searches for.
\<close>

abbreviation (input) MAX_ARG_PAGES :: nat where "MAX_ARG_PAGES \<equiv> 32"
abbreviation (input) ENOEXEC :: int where "ENOEXEC \<equiv> 8"

section \<open>Strings in user memory\<close>

text \<open>The string at \<open>a\<close> with its terminating zero.\<close>

fun string_at :: "nat \<Rightarrow> u32 \<Rightarrow> 'a proc_state_scheme \<Rightarrow> u8 list option" where
  "string_at 0 a s = None"
| "string_at (Suc n) a s =
     (let c = get_fs_byte a s in if c = 0 then Some [0] else map_option (Cons c) (string_at n (a + 1) s))"

text \<open>\<open>count\<close>: the loop from the table at \<open>tmp\<close>.\<close>

fun count_loop :: "nat \<Rightarrow> u32 \<Rightarrow> 'a proc_state_scheme \<Rightarrow> nat option" where
  "count_loop 0 tmp s = None"
| "count_loop (Suc n) tmp s = (if get_fs_long tmp s = 0 then Some 0 else map_option Suc (count_loop n (tmp + 4) s))"

definition count :: "nat \<Rightarrow> u32 \<Rightarrow> 'a proc_state_scheme \<Rightarrow> nat option" where
  "count fuel argv s = (if argv = 0 then Some 0 else count_loop fuel argv s)"

section \<open>create_tables\<close>

text \<open>A table of \<open>n\<close> pointers at \<open>tab\<close> to the strings from \<open>p\<close> on; the result is the end of the strings.\<close>

fun pointer_table ::
  "nat \<Rightarrow> nat \<Rightarrow> u32 \<Rightarrow> u32 \<Rightarrow> 'a proc_state_scheme \<Rightarrow> ('a proc_state_scheme, u32) outcome" where
  "pointer_table fuel 0 p tab s = Ret p (put_fs_long 0 tab s)"
| "pointer_table fuel (Suc n) p tab s =
     (let s = put_fs_long p tab s in
      case string_at fuel p s of
        None \<Rightarrow> Hang
      | Some bs \<Rightarrow> pointer_table fuel n (p + of_nat (length bs)) (tab + 4) s)"

definition create_tables ::
  "nat \<Rightarrow> u32 \<Rightarrow> nat \<Rightarrow> nat \<Rightarrow> 'a proc_state_scheme \<Rightarrow> ('a proc_state_scheme, u32) outcome" where
  "create_tables fuel p argc envc s =
     (let sp = 0xfffffffc AND p;
          envp = sp - 4 * of_nat (envc + 1);
          argv = envp - 4 * of_nat (argc + 1);
          s = put_fs_long envp (argv - 4) s;
          s = put_fs_long argv (argv - 8) s;
          s = put_fs_long (of_nat argc) (argv - 12) s in
      andThen (pointer_table fuel argc p argv s) (\<lambda>p s.
        andThen (pointer_table fuel envc p envp s) (\<lambda>_ s. Ret (argv - 12) s)))"

section \<open>copy_strings\<close>

text \<open>The place in the argument pages: \<open>p\<close>, \<open>offset\<close>, \<open>pag\<close> and the array \<open>page\<close>.\<close>

record arg_pos =
  arg_p :: u32
  arg_off :: int
  arg_pag :: u32
  arg_page :: "nat \<Rightarrow> u32"

text \<open>A string in user memory (\<open>from_kmem\<close> 0 and 1) or in the kernel's (2).\<close>

datatype arg_string = User_string u32 | Kernel_string "u8 list"

definition arg_bytes :: "nat \<Rightarrow> arg_string \<Rightarrow> 'a proc_state_scheme \<Rightarrow> u8 list option" where
  "arg_bytes fuel a s =
     (case a of User_string p \<Rightarrow> string_at fuel p s | Kernel_string bs \<Rightarrow> Some (takeWhile (\<lambda>c. c \<noteq> 0) bs @ [0]))"

text \<open>One byte down; a page is taken when the first byte of it is needed. The result is false when there is none.
  \<open>page\<close> has \<open>MAX_ARG_PAGES\<close> entries.\<close>

definition copy_byte :: "u8 \<Rightarrow> arg_pos \<Rightarrow> 'a mm_state_scheme \<Rightarrow> ('a mm_state_scheme, bool \<times> arg_pos) outcome" where
  "copy_byte v a s =
     (let p = arg_p a - 1; offset = arg_off a - 1 in
      if offset < 0 then
        let offset = p mod 4096; k = unat (p div 4096) in
        if MAX_ARG_PAGES \<le> k then Hang
        else let (pag, s) = (if arg_page a k \<noteq> 0 then (arg_page a k, s) else get_free_page s);
                 a = \<lparr>arg_p = p, arg_off = uint offset, arg_pag = pag, arg_page = (arg_page a)(k := pag)\<rparr> in
          if pag = 0 then Ret (False, a) s else Ret (True, a) (put_kbyte v (pag + offset) s)
      else Ret (True, a\<lparr>arg_p := p, arg_off := offset\<rparr>) (put_kbyte v (arg_pag a + of_int offset) s))"

text \<open>The bytes of a string, last one first.\<close>

fun copy_rev :: "u8 list \<Rightarrow> arg_pos \<Rightarrow> 'a mm_state_scheme \<Rightarrow> ('a mm_state_scheme, bool \<times> arg_pos) outcome" where
  "copy_rev [] a s = Ret (True, a) s"
| "copy_rev (v # vs) a s = andThen (copy_byte v a s) (\<lambda>(ok, a) s. if ok then copy_rev vs a s else Ret (False, a) s)"

text \<open>The strings, last one first; \<open>src k\<close> is the string that \<open>argv[k]\<close> points to. The test for \<open>p-len < 0\<close> is made on
  unsigned numbers and never true. The result is \<open>p\<close>, or 0 when memory runs out, and the array \<open>page\<close>.\<close>

fun string_loop ::
  "nat \<Rightarrow> (nat \<Rightarrow> 'a proc_state_scheme \<Rightarrow> arg_string) \<Rightarrow> nat \<Rightarrow> arg_pos \<Rightarrow> 'a proc_state_scheme \<Rightarrow>
     ('a proc_state_scheme, u32 \<times> (nat \<Rightarrow> u32)) outcome" where
  "string_loop fuel src 0 a s = Ret (arg_p a, arg_page a) s"
| "string_loop fuel src (Suc argc) a s =
     (if src argc s = User_string 0 then Panic ''argc is wrong'' s
      else case arg_bytes fuel (src argc s) s of
        None \<Rightarrow> Hang
      | Some bs \<Rightarrow> andThen (copy_rev (rev bs) a s) (\<lambda>(ok, a) s.
          if ok then string_loop fuel src argc a s else Ret (0, arg_page a) s))"

definition copy_strings ::
  "nat \<Rightarrow> nat \<Rightarrow> (nat \<Rightarrow> 'a proc_state_scheme \<Rightarrow> arg_string) \<Rightarrow> (nat \<Rightarrow> u32) \<Rightarrow> u32 \<Rightarrow> 'a proc_state_scheme \<Rightarrow>
     ('a proc_state_scheme, u32 \<times> (nat \<Rightarrow> u32)) outcome" where
  "copy_strings fuel argc src page p s =
     (if p = 0 then Ret (0, page) s
      else string_loop fuel src argc \<lparr>arg_p = p, arg_off = 0, arg_pag = 0, arg_page = page\<rparr> s)"

text \<open>The table of pointers \<open>argv\<close> in user memory.\<close>

definition user_args :: "u32 \<Rightarrow> nat \<Rightarrow> 'a proc_state_scheme \<Rightarrow> arg_string" where
  "user_args argv k s = User_string (get_fs_long (argv + 4 * of_nat k) s)"

section \<open>change_ldt\<close>

text \<open>The loop over the pages from \<open>i - 1\<close> down; the result of \<open>put_page\<close> is ignored.\<close>

fun put_arg_pages :: "nat \<Rightarrow> (nat \<Rightarrow> u32) \<Rightarrow> u32 \<Rightarrow> 'a mm_state_scheme \<Rightarrow> 'a mm_state_scheme" where
  "put_arg_pages 0 page data_base s = s"
| "put_arg_pages (Suc i) page data_base s =
     (let data_base = data_base - 4096 in
      put_arg_pages i page data_base (if page i \<noteq> 0 then snd (put_page (page i) data_base s) else s))"

text \<open>What a task with the segment base \<open>base\<close> finds at \<open>a\<close>, by the walk of the processor through the page tables: the byte
  of the page that is mapped there, and \<open>img a\<close>, what a fault will load, where none is.\<close>

definition user_view :: "u32 \<Rightarrow> (u32 \<Rightarrow> u8) \<Rightarrow> 'a mm_state_scheme \<Rightarrow> u32 \<Rightarrow> u8" where
  "user_view base img s a =
     (let la = base + a in
      if present (pmem s (dir_entry_addr la)) \<and> present (pmem s (pte_addr la s))
      then get_kbyte (page_of (pmem s (pte_addr la s)) + (la AND 0xfff)) s else img a)"

text \<open>\<open>fs\<close> is loaded with the new data segment: from here on user memory is what is mapped there.\<close>

definition change_ldt :: "u32 \<Rightarrow> (nat \<Rightarrow> u32) \<Rightarrow> (u32 \<Rightarrow> u8) \<Rightarrow> 'a proc_state_scheme \<Rightarrow> u32 \<times> 'a proc_state_scheme" where
  "change_ldt text_size page img s =
     (let code_limit = (text_size + 4095) AND 0xFFFFF000; data_limit = 0x4000000;
          code_base = get_base (ldt (cur s) 1); data_base = code_base;
          s = upd_cur (\<lambda>t. t\<lparr>ldt := (ldt t)(1 := set_limit (set_base (ldt t 1) code_base) code_limit,
                                            2 := set_limit (set_base (ldt t 2) data_base) data_limit)\<rparr>) s;
          s = put_arg_pages MAX_ARG_PAGES page (data_base + data_limit) s
      in (data_limit, s\<lparr>umem := user_view (get_base (ldt (cur s) 2)) img s\<rparr>))"

section \<open>The header of an executable\<close>

record exec =
  a_magic :: u32
  a_text :: u32
  a_data :: u32
  a_bss :: u32
  a_syms :: u32
  a_entry :: u32
  a_trsize :: u32
  a_drsize :: u32

definition dec_exec :: "(nat \<Rightarrow> u8) \<Rightarrow> exec" where
  "dec_exec d = \<lparr>a_magic = dec32 d 0, a_text = dec32 d 4, a_data = dec32 d 8, a_bss = dec32 d 12, a_syms = dec32 d 16,
     a_entry = dec32 d 20, a_trsize = dec32 d 24, a_drsize = dec32 d 28\<rparr>"

abbreviation (input) ZMAGIC :: u32 where "ZMAGIC \<equiv> 0x10B"
abbreviation (input) SEGMENT_SIZE :: u32 where "SEGMENT_SIZE \<equiv> 1024"

definition N_TXTOFF :: "exec \<Rightarrow> u32" where
  "N_TXTOFF x = (if a_magic x = ZMAGIC then SEGMENT_SIZE - 32 + 32 else 32)"

definition bad_exec :: "exec \<Rightarrow> u32 \<Rightarrow> bool" where
  "bad_exec ex sz \<longleftrightarrow> a_magic ex \<noteq> ZMAGIC \<or> a_trsize ex \<noteq> 0 \<or> a_drsize ex \<noteq> 0 \<or> 0x3000000 < a_text ex + a_data ex + a_bss ex \<or>
     sz < a_text ex + a_data ex + a_syms ex + N_TXTOFF ex"

section \<open>Scripts\<close>

text \<open>The line after \<open>#!\<close>: the interpreter, its name after the last slash, and the argument if there is one.\<close>

definition parse_interp :: "(nat \<Rightarrow> u8) \<Rightarrow> (u8 list \<times> u8 list \<times> u8 list option) option" where
  "parse_interp d =
     (let buf = takeWhile (\<lambda>c. c \<noteq> 0) (map d [2..<1024]);
          cp = dropWhile (\<lambda>c. c = 32 \<or> c = 9) (takeWhile (\<lambda>c. c \<noteq> 10) buf) in
      if 10 \<notin> set buf \<or> cp = [] then None
      else let interp = takeWhile (\<lambda>c. c \<noteq> 32 \<and> c \<noteq> 9) cp; rest = drop (length interp) cp
        in Some (interp, rev (takeWhile (\<lambda>c. c \<noteq> 47) (rev interp)), if rest = [] then None else Some (tl rest)))"

text \<open>\<open>namei\<close> of a string in the kernel, after \<open>set_fs(get_ds())\<close>.\<close>

definition namei_kernel ::
  "'a fs_state_scheme kernel_env \<Rightarrow> u8 list \<Rightarrow> 'a fs_state_scheme \<Rightarrow> ('a fs_state_scheme, nat option) outcome" where
  "namei_kernel K bs s =
     andThen (namei K 0 (s\<lparr>umem := (\<lambda>a. if unat a < length bs then bs ! unat a else 0)\<rparr>)) (\<lambda>r t. Ret r (t\<lparr>umem := umem s\<rparr>))"

section \<open>do_execve\<close>

text \<open>The environment, then the arguments.\<close>

definition copy_args ::
  "nat \<Rightarrow> nat \<Rightarrow> u32 \<Rightarrow> int \<Rightarrow> u32 \<Rightarrow> (nat \<Rightarrow> u32) \<Rightarrow> u32 \<Rightarrow> 'a proc_state_scheme \<Rightarrow>
     ('a proc_state_scheme, u32 \<times> (nat \<Rightarrow> u32)) outcome" where
  "copy_args fuel envc envp argc argv page p s =
     andThen (copy_strings fuel envc (user_args envp) page p s) (\<lambda>(p, page) s.
       copy_strings fuel (nat argc) (user_args argv) page p s)"

text \<open>\<open>p += change_ldt(\<dots>)-MAX_ARG_PAGES*PAGE_SIZE\<close> and \<open>create_tables\<close>\<close>

definition new_stack ::
  "nat \<Rightarrow> u32 \<Rightarrow> (u32 \<Rightarrow> u8) \<Rightarrow> nat \<Rightarrow> nat \<Rightarrow> u32 \<Rightarrow> (nat \<Rightarrow> u32) \<Rightarrow> 'a proc_state_scheme \<Rightarrow> ('a proc_state_scheme, u32) outcome" where
  "new_stack fuel text_size img argc envc p page s =
     (let (limit, s) = change_ldt text_size page img s in create_tables fuel (p + (limit - 0x20000)) argc envc s)"

definition exec_error1 :: "(nat \<Rightarrow> u32) \<Rightarrow> int \<Rightarrow> 'a fs_state_scheme \<Rightarrow> ('a fs_state_scheme, int) outcome" where
  "exec_error1 page retval s = andThen (each (\<lambda>i. free_page (page i)) [0..<MAX_ARG_PAGES] s) (\<lambda>_ s. Ret retval s)"

definition exec_error2 ::
  "'a fs_state_scheme kernel_env \<Rightarrow> nat \<Rightarrow> (nat \<Rightarrow> u32) \<Rightarrow> int \<Rightarrow> 'a fs_state_scheme \<Rightarrow> ('a fs_state_scheme, int) outcome" where
  "exec_error2 K inode page retval s = andThen (iput K (Some inode) s) (\<lambda>_ s. exec_error1 page retval s)"

text \<open>\<open>while (i&0xfff) put_fs_byte(0,(char *) (i++))\<close>, at most 4095 times.\<close>

fun zero_bss :: "nat \<Rightarrow> u32 \<Rightarrow> 'a proc_state_scheme \<Rightarrow> 'a proc_state_scheme" where
  "zero_bss 0 i s = s"
| "zero_bss (Suc n) i s = (if i AND 0xfff \<noteq> 0 then zero_bss n (i + 1) (put_fs_byte 0 i s) else s)"

text \<open>The mode bits that apply to the caller.\<close>

definition exec_bits :: "m_inode \<Rightarrow> task_struct \<Rightarrow> u16" where
  "exec_bits n t = (if euid t = i_uid n then drop_bit 6 (i_mode n) else if egid t = ucast (i_gid n) then drop_bit 3 (i_mode n) else i_mode n)"

text \<open>From the point of no return: the words 0 and 3 at \<open>eip\<close> are replaced.\<close>

definition exec_commit ::
  "'a fs_state_scheme kernel_env \<Rightarrow> nat \<Rightarrow> (u32 \<Rightarrow> u8) \<Rightarrow> exec \<Rightarrow> nat \<Rightarrow> nat \<Rightarrow> nat \<Rightarrow> u32 \<Rightarrow> (nat \<Rightarrow> u32) \<Rightarrow> u16 \<Rightarrow> u16 \<Rightarrow>
     (nat \<Rightarrow> u32) \<Rightarrow> 'a fs_state_scheme \<Rightarrow> ('a fs_state_scheme, int \<times> (nat \<Rightarrow> u32)) outcome" where
  "exec_commit K fuel img ex inode argc envc p page e_uid e_gid eip s =
     andThen (iput K (executable (cur s)) s) (\<lambda>_ s.
     let s = upd_cur (\<lambda>t. t\<lparr>executable := Some inode,
               sigaction := (\<lambda>i. if i < 32 then (sigaction t i)\<lparr>sa_handler := 0\<rparr> else sigaction t i)\<rparr>) s in
     andThen (each (\<lambda>i s. if bit (close_on_exec (cur s)) i then andThen (sys_close K (of_nat i) s) (\<lambda>_ s. Ret () s) else Ret () s)
                [0..<NR_OPEN] s) (\<lambda>_ s.
     let s = upd_cur (\<lambda>t. t\<lparr>close_on_exec := 0\<rparr>) s in
     andThen (free_page_tables (get_base (ldt (cur s) 1)) (get_limit (ldt (cur s) 1)) s) (\<lambda>_ s.
     andThen (free_page_tables (get_base (ldt (cur s) 2)) (get_limit (ldt (cur s) 2)) s) (\<lambda>_ s.
     let s = (if last_task_used_math s = current s then s\<lparr>last_task_used_math := 0\<rparr> else s);
         s = upd_cur (\<lambda>t. t\<lparr>used_math := 0\<rparr>) s in
     andThen (new_stack fuel (a_text ex) img argc envc p page s) (\<lambda>p s.
     let s = upd_cur (\<lambda>t. t\<lparr>end_code := a_text ex, end_data := a_data ex + a_text ex, brk := a_bss ex + (a_data ex + a_text ex),
               start_stack := p AND 0xfffff000, euid := e_uid, egid := e_gid\<rparr>) s;
         s = zero_bss 4096 (a_text ex + a_data ex) s
     in Ret (0, eip(0 := a_entry ex, 3 := p)) s)))))"

text \<open>The part from \<open>restart_interp\<close> on. It is entered at most twice, the second time with \<open>sh_bang\<close>.\<close>

fun exec_inode ::
  "'a fs_state_scheme kernel_env \<Rightarrow> nat \<Rightarrow> (u32 \<Rightarrow> u8) \<Rightarrow> nat \<Rightarrow> bool \<Rightarrow> nat \<Rightarrow> u32 \<Rightarrow> u32 \<Rightarrow> u32 \<Rightarrow> int \<Rightarrow> nat \<Rightarrow> u32 \<Rightarrow> (nat \<Rightarrow> u32) \<Rightarrow>
     (nat \<Rightarrow> u32) \<Rightarrow> 'a fs_state_scheme \<Rightarrow> ('a fs_state_scheme, int \<times> (nat \<Rightarrow> u32)) outcome" where
  "exec_inode K fuel img 0 sh_bang inode filename argv envp argc envc p page eip s = Hang"
| "exec_inode K fuel img (Suc rounds) sh_bang inode filename argv envp argc envc p page eip s =
     (let n = inode_table s inode;
          fail = (\<lambda>e s. andThen (exec_error2 K inode page (- e) s) (\<lambda>r s. Ret (r, eip) s));
          fail1 = (\<lambda>page e s. andThen (exec_error1 page (- e) s) (\<lambda>r s. Ret (r, eip) s)) in
      if \<not> S_ISREG (i_mode n) then fail EACCES s
      else let e_uid = (if i_mode n AND 0x800 \<noteq> 0 then i_uid n else euid (cur s));
               e_gid = (if i_mode n AND 0x400 \<noteq> 0 then ucast (i_gid n) else egid (cur s)) in
      if \<not> bit (exec_bits n (cur s)) 0 \<and> \<not> (i_mode n AND 0x49 \<noteq> 0 \<and> suser s) then fail ENOEXEC s
      else andThen (bread K (ucast (i_dev n)) (ucast (i_zone n 0)) s) (\<lambda>r s.
        case r of
          None \<Rightarrow> fail EACCES s
        | Some bh \<Rightarrow>
            let d = b_data (bufs s bh); ex = dec_exec d in
            if d 0 = 35 \<and> d 1 = 33 \<and> \<not> sh_bang then
              andThen (brelse K (Some bh) s) (\<lambda>_ s. andThen (iput K (Some inode) s) (\<lambda>_ s.
              case parse_interp d of
                None \<Rightarrow> fail1 page ENOEXEC s
              | Some (interp, i_name, i_arg) \<Rightarrow>
                  andThen (copy_args fuel envc envp (argc - 1) (argv + 4) page p s) (\<lambda>(p, page) s.
                  andThen (copy_strings fuel 1 (\<lambda>_ _. User_string filename) page p s) (\<lambda>(p, page) s.
                  andThen (case i_arg of Some a \<Rightarrow> copy_strings fuel 1 (\<lambda>_ _. Kernel_string a) page p s
                           | None \<Rightarrow> Ret (p, page) s) (\<lambda>(p, page) s.
                  andThen (copy_strings fuel 1 (\<lambda>_ _. Kernel_string i_name) page p s) (\<lambda>(p, page) s.
                  let argc = argc + (if i_arg = None then 1 else 2) in
                  if p = 0 then fail1 page ENOMEM s
                  else andThen (namei_kernel K interp s) (\<lambda>r s.
                    case r of
                      None \<Rightarrow> fail1 page ENOENT s
                    | Some inode \<Rightarrow> exec_inode K fuel img rounds True inode filename argv envp argc envc p page eip s)))))))
            else
              andThen (brelse K (Some bh) s) (\<lambda>_ s.
              if bad_exec ex (i_size (inode_table s inode)) \<or> N_TXTOFF ex \<noteq> 1024 then fail ENOEXEC s
              else andThen (if sh_bang then Ret (p, page) s
                            else copy_args fuel envc envp argc argv page p s) (\<lambda>(p, page) s.
                if \<not> sh_bang \<and> p = 0 then andThen (exec_error2 K inode page (- ENOMEM) s) (\<lambda>r s. Ret (r, eip) s)
                else exec_commit K fuel img ex inode (nat argc) envc p page e_uid e_gid eip s))))"

definition do_execve ::
  "'a fs_state_scheme kernel_env \<Rightarrow> nat \<Rightarrow> (u32 \<Rightarrow> u8) \<Rightarrow> (nat \<Rightarrow> u32) \<Rightarrow> u32 \<Rightarrow> u32 \<Rightarrow> u32 \<Rightarrow>
     'a fs_state_scheme \<Rightarrow> ('a fs_state_scheme, int \<times> (nat \<Rightarrow> u32)) outcome" where
  "do_execve K fuel img eip filename argv envp s =
     (if 0xffff AND eip 1 \<noteq> 0x000f then Panic ''execve called from supervisor mode'' s
      else andThen (namei K filename s) (\<lambda>r s.
        case r of
          None \<Rightarrow> Ret (- ENOENT, eip) s
        | Some inode \<Rightarrow>
            (case (count fuel argv s, count fuel envp s) of
               (Some argc, Some envc) \<Rightarrow>
                 exec_inode K fuel img 2 False inode filename argv envp (int argc) envc (0x20000 - 4) (\<lambda>_. 0) eip s
             | _ \<Rightarrow> Hang)))"

end
