(* ===== verification/Exec_Copy.thy ===== *)
theory Exec_Copy
  imports Exec Process_Properties Console_Memory
begin

text \<open>
  The two ends of what \<open>execve\<close> does with the arguments and the environment: the copying into pages, and the tables that are
  built where those pages lie in user memory.
\<close>

section \<open>Bytes and longs in user memory\<close>

definition ubytes :: "nat \<Rightarrow> u8 list \<Rightarrow> 'a proc_state_scheme \<Rightarrow> bool" where
  "ubytes x bs s \<longleftrightarrow> (\<forall>i<length bs. umem s (of_nat (x + i)) = bs ! i)"

lemma ubytes_append: "ubytes x (bs @ cs) s \<longleftrightarrow> ubytes x bs s \<and> ubytes (x + length bs) cs s"
proof
  assume u: "ubytes x (bs @ cs) s"
  have "umem s (of_nat (x + i)) = bs ! i" if "i < length bs" for i
    using u that unfolding ubytes_def by (metis length_append nth_append trans_less_add1)
  moreover have "umem s (of_nat (x + length bs + i)) = cs ! i" if "i < length cs" for i
    using u that unfolding ubytes_def
    by (metis add.assoc length_append nat_add_left_cancel_less nth_append_length_plus)
  ultimately show "ubytes x bs s \<and> ubytes (x + length bs) cs s" by (simp add: ubytes_def)
next
  assume u: "ubytes x bs s \<and> ubytes (x + length bs) cs s"
  show "ubytes x (bs @ cs) s" unfolding ubytes_def
  proof (intro allI impI)
    fix i assume i: "i < length (bs @ cs)"
    show "umem s (of_nat (x + i)) = (bs @ cs) ! i"
    proof (cases "i < length bs")
      case True
      then show ?thesis using u by (simp add: ubytes_def nth_append)
    next
      case False
      then show ?thesis using u i unfolding ubytes_def by (auto simp: nth_append dest!: spec [of _ "i - length bs"])
    qed
  qed
qed

lemma ubytes_mono:
  assumes "ubytes x bs s" "\<And>y. x \<le> y \<Longrightarrow> y < x + length bs \<Longrightarrow> umem s' (of_nat y) = umem s (of_nat y)"
  shows "ubytes x bs s'"
  using assms(1) assms(2) [of "x + _"] by (simp add: ubytes_def del: of_nat_add)

lemma ubytes_Cons: "ubytes x (b # bs) s \<longleftrightarrow> umem s (of_nat x) = b \<and> ubytes (Suc x) bs s"
  using ubytes_append [of x "[b]" bs s] by (simp add: ubytes_def)

text \<open>A string in user memory is what \<open>string_at\<close> reads.\<close>

lemma string_at_ubytes:
  assumes "ubytes x (us @ [0]) s" and "0 \<notin> set us" and "length us < fuel"
  shows "string_at fuel (of_nat x) s = Some (us @ [0])"
  using assms
proof (induction us arbitrary: x fuel)
  case Nil
  then show ?case by (cases fuel) (simp_all add: ubytes_Cons get_fs_byte_def Let_def)
next
  case (Cons u us)
  obtain n where n: "fuel = Suc n" "length us < n" using Cons.prems(3) by (cases fuel) auto
  have "string_at n (of_nat (Suc x)) s = Some (us @ [0])"
    using Cons.prems n by (intro Cons.IH) (simp_all add: ubytes_Cons)
  then show ?case using Cons.prems n by (simp add: ubytes_Cons get_fs_byte_def Let_def add.commute)
qed

lemma string_at_SomeD:
  "string_at fuel a s = Some bs \<Longrightarrow> \<exists>us. bs = us @ [0] \<and> 0 \<notin> set us \<and> length us < fuel"
proof (induction fuel arbitrary: a bs)
  case (Suc n)
  show ?case
  proof (cases "get_fs_byte a s = 0")
    case True
    then show ?thesis using Suc.prems by simp
  next
    case False
    then obtain cs where cs: "string_at n (a + 1) s = Some cs" "bs = get_fs_byte a s # cs"
      using Suc.prems by (auto simp: Let_def)
    obtain us where "cs = us @ [0]" "0 \<notin> set us" "length us < n" using Suc.IH [OF cs(1)] by blast
    then show ?thesis using cs False by (intro exI [of _ "get_fs_byte a s # us"]) simp
  qed
qed simp

text \<open>A long written at one place leaves the bytes and longs elsewhere.\<close>

lemma put_fs_long_apart:
  assumes "x < 4294967296" "y + 4 \<le> 4294967296" "x < y \<or> y + 4 \<le> x"
  shows "umem (put_fs_long v (of_nat y) s) (of_nat x) = umem s (of_nat x)"
proof -
  have "unat (of_nat x - (of_nat y :: u32)) = (if y \<le> x then x - y else x + 4294967296 - y)"
    using assms by (simp add: sub_word_nat unat_of_nat_u32)
  then have "\<not> unat (of_nat x - (of_nat y :: u32)) < 4" using assms by (auto split: if_splits)
  then show ?thesis by (simp add: put_fs_long_umem)
qed

lemma ubytes_put_fs_long:
  assumes "y + 4 \<le> x" "x + length bs < 4294967296" "ubytes x bs s"
  shows "ubytes x bs (put_fs_long v (of_nat y) s)"
  using assms by (simp add: ubytes_def put_fs_long_apart del: of_nat_add)

lemma get_fs_long_of_nat:
  "get_fs_long (of_nat x) s = push_bit 24 (ucast (umem s (of_nat (x + 3)))) OR push_bit 16 (ucast (umem s (of_nat (x + 2)))) OR
     push_bit 8 (ucast (umem s (of_nat (x + 1)))) OR ucast (umem s (of_nat x))"
  by (simp add: get_fs_long_def add.commute)

lemma get_fs_long_cong:
  assumes "\<And>i. i < 4 \<Longrightarrow> umem t (of_nat (x + i)) = umem s (of_nat (x + i))"
  shows "get_fs_long (of_nat x) t = get_fs_long (of_nat x) s"
  using assms [of 0] assms [of 1] assms [of 2] assms [of 3] by (simp add: get_fs_long_of_nat)

lemma get_put_fs_long_apart:
  assumes "x + 4 \<le> 4294967296" "y + 4 \<le> 4294967296" "x + 4 \<le> y \<or> y + 4 \<le> x"
  shows "get_fs_long (of_nat x) (put_fs_long v (of_nat y) s) = get_fs_long (of_nat x) s"
  using assms by (intro get_fs_long_cong put_fs_long_apart) auto

section \<open>Tables of pointers\<close>

text \<open>The bytes of strings with their zeros.\<close>

definition zbytes :: "u8 list list \<Rightarrow> u8 list" where
  "zbytes ss = concat (map (\<lambda>u. u @ [0]) ss)"

lemma zbytes_simps [simp]: "zbytes [] = []" "zbytes (u # ss) = (u @ [0]) @ zbytes ss"
  by (simp_all add: zbytes_def)

definition strings_ok :: "nat \<Rightarrow> u8 list list \<Rightarrow> bool" where
  "strings_ok fuel ss \<longleftrightarrow> (\<forall>u\<in>set ss. 0 \<notin> set u \<and> length u < fuel)"

text \<open>A table at \<open>t\<close> of pointers to the strings \<open>ss\<close> from \<open>x\<close> on, ended by a zero.\<close>

fun table_of :: "nat \<Rightarrow> nat \<Rightarrow> u8 list list \<Rightarrow> 'a proc_state_scheme \<Rightarrow> bool" where
  "table_of t x [] s \<longleftrightarrow> get_fs_long (of_nat t) s = 0"
| "table_of t x (u # ss) s \<longleftrightarrow> get_fs_long (of_nat t) s = of_nat x \<and> table_of (t + 4) (x + length u + 1) ss s"

lemma table_of_cong:
  "(\<And>i. i < 4 * length ss + 4 \<Longrightarrow> umem s' (of_nat (t + i)) = umem s (of_nat (t + i))) \<Longrightarrow> table_of t x ss s' = table_of t x ss s"
proof (induction ss arbitrary: t x)
  case Nil
  then show ?case using get_fs_long_cong [of s' t s] by simp
next
  case (Cons u ss)
  have "table_of (t + 4) (x + length u + 1) ss s' = table_of (t + 4) (x + length u + 1) ss s"
    using Cons.prems [of "4 + _"] by (intro Cons.IH) (simp add: add.assoc)
  then show ?case using Cons.prems get_fs_long_cong [of s' t s] by simp
qed

lemma pointer_table_ok:
  assumes "ubytes x (zbytes ss) s" and "strings_ok fuel ss" and "t + 4 * length ss + 4 \<le> x" and "x + length (zbytes ss) < 4294967296"
  shows "\<exists>s'. pointer_table fuel (length ss) (of_nat x) (of_nat t) s = Ret (of_nat (x + length (zbytes ss))) s' \<and> table_of t x ss s' \<and>
    (\<forall>y<4294967296. y < t \<or> t + 4 * length ss + 4 \<le> y \<longrightarrow> umem s' (of_nat y) = umem s (of_nat y))"
  using assms
proof (induction ss arbitrary: x t s)
  case Nil
  then show ?case by (auto simp: put_fs_long_apart)
next
  case (Cons u ss)
  let ?s = "put_fs_long (of_nat x) (of_nat t) s" and ?x = "x + length u + 1"
  have ub: "ubytes x (zbytes (u # ss)) ?s"
    using Cons.prems by (intro ubytes_put_fs_long) simp_all
  have st: "string_at fuel (of_nat x) ?s = Some (u @ [0])"
    using ub Cons.prems(2) unfolding zbytes_simps ubytes_append [of x "u @ [0]"]
    by (intro string_at_ubytes) (simp_all add: strings_ok_def)
  obtain s' where s': "pointer_table fuel (length ss) (of_nat ?x) (of_nat (t + 4)) ?s = Ret (of_nat (?x + length (zbytes ss))) s'"
      "table_of (t + 4) ?x ss s'"
      "\<forall>y<4294967296. y < t + 4 \<or> t + 4 + 4 * length ss + 4 \<le> y \<longrightarrow> umem s' (of_nat y) = umem ?s (of_nat y)"
    using Cons.IH [of ?x ?s "t + 4"] ub Cons.prems(2-4) unfolding zbytes_simps ubytes_append [of x "u @ [0]"]
    by (auto simp: strings_ok_def)
  have "get_fs_long (of_nat t) s' = get_fs_long (of_nat t) ?s"
    using Cons.prems(3,4) by (intro get_fs_long_cong s'(3) [rule_format]) auto
  then have g: "get_fs_long (of_nat t) s' = of_nat x" by simp
  have "pointer_table fuel (length (u # ss)) (of_nat x) (of_nat t) s = Ret (of_nat (x + length (zbytes (u # ss)))) s'"
    using s'(1) st by (simp add: Let_def add_ac)
  moreover have "umem s' (of_nat y) = umem s (of_nat y)"
    if "y < 4294967296" "y < t \<or> t + 4 * length (u # ss) + 4 \<le> y" for y
    using s'(3) that Cons.prems(3,4) put_fs_long_apart [of y t "of_nat x" s] by auto
  ultimately show ?case using g s'(2) by auto
qed

text \<open>The strings of a table that starts at \<open>argv\<close>, the way a program reads it.\<close>

definition args_in :: "nat \<Rightarrow> u32 \<Rightarrow> u8 list list \<Rightarrow> 'a proc_state_scheme \<Rightarrow> bool" where
  "args_in fuel argv ss s \<longleftrightarrow> count fuel argv s = Some (length ss) \<and>
     (\<forall>k<length ss. string_at fuel (get_fs_long (argv + 4 * of_nat k) s) s = Some (ss ! k @ [0]))"

lemma table_of_count:
  assumes "table_of t x ss s" and "0 < x" and "x + length (zbytes ss) < 4294967296" and "length ss < fuel"
  shows "count_loop fuel (of_nat t) s = Some (length ss)"
  using assms
proof (induction ss arbitrary: t x fuel)
  case Nil
  then show ?case by (cases fuel) simp_all
next
  case (Cons u ss)
  obtain n where n: "fuel = Suc n" "length ss < n" using Cons.prems(4) by (cases fuel) auto
  have "count_loop n (of_nat (t + 4)) s = Some (length ss)"
    using Cons.prems n by (intro Cons.IH [of "t + 4" "x + length u + 1"]) simp_all
  moreover have "(of_nat x :: u32) \<noteq> 0" using Cons.prems(2,3) unat_of_nat_u32 [of x] by auto
  ultimately show ?case using Cons.prems(1) n by simp
qed

lemma table_of_strings:
  assumes "table_of t x ss s" and "ubytes x (zbytes ss) s" and "strings_ok fuel ss" and "k < length ss"
  shows "string_at fuel (get_fs_long (of_nat (t + 4 * k)) s) s = Some (ss ! k @ [0])"
  using assms
proof (induction ss arbitrary: t x k)
  case (Cons u ss)
  note ub = Cons.prems(2) [unfolded zbytes_simps ubytes_append [of x "u @ [0]"]]
  show ?case
  proof (cases k)
    case 0
    then show ?thesis using ub Cons.prems(1,3) string_at_ubytes [of x u s fuel] by (simp add: strings_ok_def)
  next
    case (Suc j)
    have "string_at fuel (get_fs_long (of_nat (t + 4 + 4 * j)) s) s = Some (ss ! j @ [0])"
      using ub Cons.prems Suc by (intro Cons.IH [of "t + 4" "x + length u + 1"]) (simp_all add: strings_ok_def)
    then show ?thesis using Suc by (simp add: add_ac)
  qed
qed simp

lemma table_of_args:
  assumes "table_of t x ss s" "ubytes x (zbytes ss) s" "strings_ok fuel ss" "0 < x" "x + length (zbytes ss) < 4294967296"
    and "length ss < fuel" "0 < t" "t < 4294967296"
  shows "args_in fuel (of_nat t) ss s"
proof -
  have "(of_nat t :: u32) \<noteq> 0" using assms(7,8) unat_of_nat_u32 [of t] by auto
  then show ?thesis
    using table_of_count [OF assms(1,4,5,6)] table_of_strings [OF assms(1-3)] by (simp add: args_in_def count_def)
qed

section \<open>create_tables\<close>

lemma and_align: "x < 4294967296 \<Longrightarrow> 0xfffffffc AND of_nat x = (of_nat (x div 4 * 4) :: u32)"
proof -
  assume x: "x < 4294967296"
  have m: "(0xfffffffc :: u32) = NOT (mask 2)" by (simp add: mask_eq_exp_minus_1)
  have "0xfffffffc AND w = push_bit 2 (drop_bit 2 w)" for w :: u32
    unfolding m by (rule bit_word_eqI) (auto simp: bit_simps not_less dest!: le_Suc_ex)
  then have "0xfffffffc AND of_nat x = push_bit 2 (drop_bit 2 (of_nat x :: u32))" .
  also have "\<dots> = of_nat (x div 4 * 4)"
    using x by (simp add: push_bit_eq_mult drop_bit_eq_div word_unat_eq_iff unat_word_ariths unat_of_nat_u32 unat_div)
  finally show ?thesis .
qed

text \<open>What a program finds on its stack.\<close>

definition main_args :: "nat \<Rightarrow> u8 list list \<Rightarrow> u8 list list \<Rightarrow> u32 \<Rightarrow> 'a proc_state_scheme \<Rightarrow> bool" where
  "main_args fuel as es sp s \<longleftrightarrow> get_fs_long sp s = of_nat (length as) \<and> args_in fuel (get_fs_long (sp + 4) s) as s \<and>
     args_in fuel (get_fs_long (sp + 8) s) es s"

lemma length_zbytes: "length ss \<le> length (zbytes ss)"
  by (induction ss) simp_all

lemma zbytes_append [simp]: "zbytes (as @ es) = zbytes as @ zbytes es"
  by (simp add: zbytes_def)

text \<open>The table of the arguments, that of the environment above it, and the three longs below.\<close>

lemma tables_ok:
  assumes ub: "ubytes x (zbytes as @ zbytes es) s" and ok: "strings_ok fuel as" "strings_ok fuel es"
    and e: "e = x' - 4 * (length es + 1)" and a: "a = e - 4 * (length as + 1)" and x': "x' \<le> x"
    and room: "4 * length as + 4 * length es + 20 < x'" and lim: "x + length (zbytes as @ zbytes es) < 4294967296"
  shows "\<exists>s'. andThen (pointer_table fuel (length as) (of_nat x) (of_nat a) s) (\<lambda>p. pointer_table fuel (length es) p (of_nat e)) =
      Ret (of_nat (x + length (zbytes as @ zbytes es))) s' \<and>
    table_of a x as s' \<and> table_of e (x + length (zbytes as)) es s' \<and> ubytes x (zbytes as @ zbytes es) s' \<and>
    (\<forall>y. y < a \<longrightarrow> umem s' (of_nat y) = umem s (of_nat y))"
proof -
  have ea: "a + 4 * length as + 4 = e" "e + 4 * length es + 4 = x'" "0 < a" using e a room by simp_all
  note ub' = ub [unfolded ubytes_append]
  obtain t where t: "pointer_table fuel (length as) (of_nat x) (of_nat a) s = Ret (of_nat (x + length (zbytes as))) t" "table_of a x as t"
      "\<forall>y<4294967296. y < a \<or> a + 4 * length as + 4 \<le> y \<longrightarrow> umem t (of_nat y) = umem s (of_nat y)"
    using pointer_table_ok [of x as s fuel a] ub' ok(1) ea x' lim by auto
  have ubt: "ubytes x (zbytes as @ zbytes es) t"
    by (rule ubytes_mono [OF ub], rule t(3) [rule_format]) (use lim ea x' in \<open>linarith+\<close>)
  obtain s' where s': "pointer_table fuel (length es) (of_nat (x + length (zbytes as))) (of_nat e) t =
        Ret (of_nat (x + length (zbytes as) + length (zbytes es))) s'" "table_of e (x + length (zbytes as)) es s'"
      "\<forall>y<4294967296. y < e \<or> e + 4 * length es + 4 \<le> y \<longrightarrow> umem s' (of_nat y) = umem t (of_nat y)"
    using pointer_table_ok [of "x + length (zbytes as)" es t fuel e] ubt [unfolded ubytes_append] ok(2) ea x' lim by auto
  have "table_of a x as s'"
    by (subst table_of_cong [of as s' a t x], rule s'(3) [rule_format]) (use t(2) ea x' lim in \<open>simp_all\<close>)
  moreover have "ubytes x (zbytes as @ zbytes es) s'"
    by (rule ubytes_mono [OF ubt], rule s'(3) [rule_format]) (use lim ea x' in \<open>linarith+\<close>)
  moreover have "umem s' (of_nat y) = umem s (of_nat y)" if "y < a" for y
    using t(3) [rule_format, of y] s'(3) [rule_format, of y] that ea x' lim by simp
  ultimately show ?thesis using t(1) s'(1,2) by (simp add: add.assoc del: of_nat_add)
qed

lemma put_three:
  fixes s :: "'a proc_state_scheme" and u v w :: u32
  assumes "b + 16 \<le> 4294967296"
  defines "t \<equiv> put_fs_long w (of_nat b) (put_fs_long v (of_nat (b + 4)) (put_fs_long u (of_nat (b + 8)) s))"
  shows "get_fs_long (of_nat (b + 8)) t = u" "get_fs_long (of_nat (b + 4)) t = v" "get_fs_long (of_nat b) t = w"
    and "b + 12 \<le> x \<Longrightarrow> x + length bs < 4294967296 \<Longrightarrow> ubytes x bs s \<Longrightarrow> ubytes x bs t"
  using assms(1) unfolding t_def by (simp_all add: get_put_fs_long_apart ubytes_put_fs_long del: of_nat_add)

lemma create_tables_ok:
  assumes ub: "ubytes x (zbytes as @ zbytes es) s" and ok: "strings_ok fuel as" "strings_ok fuel es"
    and len: "length as < fuel" "length es < fuel"
    and room: "4 * length as + 4 * length es + 40 < x" and lim: "x + length (zbytes as @ zbytes es) < 4294967296"
  shows "returns (create_tables fuel (of_nat x) (length as) (length es) s) (main_args fuel as es)"
proof -
  define x' e a b where "x' = x div 4 * 4" and "e = x' - 4 * (length es + 1)" and "a = e - 4 * (length as + 1)" and "b = a - 12"
  have le: "x' \<le> x" "x < x' + 4" unfolding x'_def by arith+
  have ea: "0 < b" "b + 12 = a" "a + 4 * length as + 4 = e" "e + 4 * length es + 4 = x'"
    using le room by (simp_all add: e_def a_def b_def)
  have al: "0xfffffffc AND of_nat x = (of_nat (e + 4 * length es + 4) :: u32)"
    using lim and_align [of x] ea(4) by (simp add: x'_def)
  have w: "(0xfffffffc AND of_nat x) - 4 * of_nat (length es + 1) = (of_nat e :: u32)"
      "of_nat e - 4 * of_nat (length as + 1) = (of_nat a :: u32)"
      "of_nat a - 4 = (of_nat (b + 8) :: u32)" "of_nat a - 8 = (of_nat (b + 4) :: u32)" "of_nat a - 12 = (of_nat b :: u32)"
    unfolding al ea(3) [symmetric] ea(2) [symmetric] by simp_all
  let ?t = "put_fs_long (of_nat (length as)) (of_nat b) (put_fs_long (of_nat a) (of_nat (b + 4))
    (put_fs_long (of_nat e) (of_nat (b + 8)) s))"
  note three = put_three [where b = b and w = "of_nat (length as)" and v = "of_nat a" and u = "of_nat e" and s = s]
  have ubt: "ubytes x (zbytes as @ zbytes es) ?t" using ea le lim ub by (intro three(4)) simp_all
  obtain s' where s': "andThen (pointer_table fuel (length as) (of_nat x) (of_nat a) ?t) (\<lambda>p. pointer_table fuel (length es) p (of_nat e)) =
      Ret (of_nat (x + length (zbytes as @ zbytes es))) s'"
      "table_of a x as s'" "table_of e (x + length (zbytes as)) es s'" "ubytes x (zbytes as @ zbytes es) s'"
      "\<forall>y. y < a \<longrightarrow> umem s' (of_nat y) = umem ?t (of_nat y)"
    using tables_ok [OF ubt ok e_def a_def le(1)] room le lim by auto
  have g: "get_fs_long (of_nat y) s' = get_fs_long (of_nat y) ?t" if "y + 4 \<le> a" for y
    using that by (intro get_fs_long_cong s'(5) [rule_format]) simp
  have longs: "get_fs_long (of_nat b) s' = of_nat (length as)" "get_fs_long (of_nat (b + 4)) s' = of_nat a"
      "get_fs_long (of_nat (b + 8)) s' = of_nat e"
    using ea le lim three(1-3) g [of b] g [of "b + 4"] g [of "b + 8"] by (simp_all del: of_nat_add)
  have "args_in fuel (of_nat a) as s'"
    using s'(2,4) ok len ea le lim unfolding ubytes_append by (intro table_of_args [of a x]) simp_all
  moreover have "args_in fuel (of_nat e) es s'"
    using s'(3,4) ok len ea le lim unfolding ubytes_append by (intro table_of_args [of e "x + length (zbytes as)"]) simp_all
  moreover have "create_tables fuel (of_nat x) (length as) (length es) s = Ret (of_nat b) s'"
    using s'(1) unfolding create_tables_def w Let_def andThen_assoc [symmetric] by simp
  moreover have "of_nat b + 4 = (of_nat (b + 4) :: u32)" "of_nat b + 8 = (of_nat (b + 8) :: u32)" by simp_all
  ultimately show ?thesis using longs by (simp add: main_args_def returns_def del: of_nat_add)
qed

section \<open>Bytes in the argument pages\<close>

definition arg_byte :: "(nat \<Rightarrow> u32) \<Rightarrow> 'a mm_state_scheme \<Rightarrow> nat \<Rightarrow> u8" where
  "arg_byte page s n = get_kbyte (page (n div 4096) + of_nat (n mod 4096)) s"

definition page_holds :: "(nat \<Rightarrow> u32) \<Rightarrow> 'a mm_state_scheme \<Rightarrow> nat \<Rightarrow> u8 list \<Rightarrow> bool" where
  "page_holds page s n bs \<longleftrightarrow> (\<forall>i<length bs. page ((n + i) div 4096) \<noteq> 0 \<and> arg_byte page s (n + i) = bs ! i)"

lemma page_holds_Cons:
  "page_holds page s n (b # bs) \<longleftrightarrow> page (n div 4096) \<noteq> 0 \<and> arg_byte page s n = b \<and> page_holds page s (Suc n) bs"
  by (simp add: page_holds_def All_less_Suc2)

text \<open>The pages are different frames in use.\<close>

definition frames_ok :: "(nat \<Rightarrow> u32) \<Rightarrow> 'a mm_state_scheme \<Rightarrow> bool" where
  "frames_ok page s \<longleftrightarrow> (\<forall>k<32. page k \<noteq> 0 \<longrightarrow> (\<exists>j<PAGING_PAGES. page k = frame_addr j \<and> mem_map s j \<noteq> 0)) \<and>
     (\<forall>k<32. \<forall>l<32. page k \<noteq> 0 \<and> page k = page l \<longrightarrow> k = l)"

text \<open>There is memory for the pages still to be taken, and for a page table.\<close>

definition enough :: "(nat \<Rightarrow> u32) \<Rightarrow> 'a mm_state_scheme \<Rightarrow> bool" where
  "enough page s \<longleftrightarrow> card {k. k < 32 \<and> page k = 0} < free_frames s"

lemma page_of_frame_offset: "j < PAGING_PAGES \<Longrightarrow> o' < 4096 \<Longrightarrow> page_of (frame_addr j + of_nat o') = frame_addr j"
proof -
  assume a: "j < PAGING_PAGES" "o' < 4096"
  have "unat (frame_addr j + of_nat o') = unat (frame_addr j) + o'"
    using a unat_frame_addr [OF a(1)] unat_add_lem [of "frame_addr j" "of_nat o'"] unat_of_nat_u32 [of o'] by (simp add: PAGING_PAGES_def)
  then have "unat (page_of (frame_addr j + of_nat o')) = unat (frame_addr j)"
    using a(2) unat_frame_addr [OF a(1)] div_nat_eqI [of 4096 "j + 256" "j * 4096 + 1048576 + o'"] by (simp add: unat_page_of)
  then show ?thesis by (simp add: word_unat_eq_iff)
qed

lemma frame_offset_inj:
  assumes "j < PAGING_PAGES" "o1 < 4096" "o2 < 4096" "frame_addr j + of_nat o1 = frame_addr j + of_nat o2"
  shows "o1 = o2"
proof -
  have "(of_nat o1 :: u32) = of_nat o2" using assms(4) by (rule add_left_imp_eq)
  then have "unat (of_nat o1 :: u32) = unat (of_nat o2 :: u32)" by (rule arg_cong)
  then show ?thesis using unat_of_nat_u32 [of o1] unat_of_nat_u32 [of o2] assms(2,3) by linarith
qed

lemma page_of_low_bits: "page_of (a AND NOT 3) = page_of a"
proof -
  have m: "(3 :: u32) = mask 2" "(0xfffff000 :: u32) = NOT (mask 12)" by (simp_all add: mask_eq_exp_minus_1)
  show ?thesis unfolding page_of_def m by (rule bit_word_eqI) (auto simp: bit_simps)
qed

lemma get_kbyte_clear:
  assumes "page_of p = p" "page_of a \<noteq> p"
  shows "get_kbyte a (s\<lparr>mem_map := mm, pmem := clear_page p (pmem s)\<rparr>) = get_kbyte a s"
  unfolding get_kbyte_def using clear_page_other [OF assms(1), of "a AND NOT 3" "pmem s"] assms(2) page_of_low_bits [of a]
  by (simp only: mm_state.simps) simp

lemma arg_addr:
  assumes "frames_ok page s" "n < 131072" "page (n div 4096) \<noteq> 0"
  obtains j where "j < PAGING_PAGES" "page (n div 4096) = frame_addr j" "mem_map s j \<noteq> 0"
    and "page_of (page (n div 4096) + of_nat (n mod 4096)) = frame_addr j"
proof -
  have "n div 4096 < 32" using assms(2) by auto
  then obtain j where "j < PAGING_PAGES" "page (n div 4096) = frame_addr j" "mem_map s j \<noteq> 0"
    using assms(1,3) by (auto simp: frames_ok_def)
  then show thesis using that page_of_frame_offset [of j "n mod 4096"] by simp
qed

lemma arg_addr_high:
  assumes "frames_ok page s" "n < 131072" "page (n div 4096) \<noteq> 0"
  shows "page_of (page (n div 4096) + of_nat (n mod 4096)) \<noteq> 0"
  using arg_addr [OF assms] frame_addr_simps(3) by metis

lemma arg_addr_inj:
  assumes "frames_ok page s" "n < 131072" "m < 131072" "page (n div 4096) \<noteq> 0" "page (m div 4096) \<noteq> 0"
    and "page (n div 4096) + of_nat (n mod 4096) = page (m div 4096) + of_nat (m mod 4096)"
  shows "n = m"
proof -
  obtain i where i: "i < PAGING_PAGES" "page (n div 4096) = frame_addr i" "page_of (page (n div 4096) + of_nat (n mod 4096)) = frame_addr i"
    using arg_addr [OF assms(1,2,4)] by blast
  obtain j where j: "page (m div 4096) = frame_addr j" "page_of (page (m div 4096) + of_nat (m mod 4096)) = frame_addr j"
    using arg_addr [OF assms(1,3,5)] by blast
  have p: "page (n div 4096) = page (m div 4096)" using i(2,3) j assms(6) by simp
  moreover have "n div 4096 < 32" "m div 4096 < 32" using assms(2,3) by auto
  ultimately have q: "n div 4096 = m div 4096" using assms(1,4) unfolding frames_ok_def by blast
  have "n mod 4096 = m mod 4096"
    using frame_offset_inj [OF i(1), of "n mod 4096" "m mod 4096"] assms(6) p i(2) by simp
  then show ?thesis using q by (metis div_mult_mod_eq)
qed

lemma arg_byte_put:
  assumes "frames_ok page s" "n < 131072" "m < 131072" "page (n div 4096) \<noteq> 0" "page (m div 4096) \<noteq> 0"
  shows "arg_byte page (put_kbyte v (page (m div 4096) + of_nat (m mod 4096)) s) n = (if n = m then v else arg_byte page s n)"
  using arg_addr_inj [OF assms(1,3,2,5,4)] by (auto simp: arg_byte_def)

lemma frames_ok_put_kbyte [simp]: "frames_ok page (put_kbyte v a s) \<longleftrightarrow> frames_ok page s"
  by (simp add: frames_ok_def)

lemma enough_put_kbyte [simp]: "enough page (put_kbyte v a s) \<longleftrightarrow> enough page s"
  by (simp add: enough_def free_frames_def)

lemma page_holds_put:
  assumes "frames_ok page s" "page_holds page s (Suc m) bs" "Suc m + length bs \<le> 131072" "page (m div 4096) \<noteq> 0"
  shows "page_holds page (put_kbyte v (page (m div 4096) + of_nat (m mod 4096)) s) m (v # bs)"
proof -
  have "arg_byte page (put_kbyte v (page (m div 4096) + of_nat (m mod 4096)) s) (Suc m + i) = bs ! i" if "i < length bs" for i
  proof -
    have "page ((Suc m + i) div 4096) \<noteq> 0" "arg_byte page s (Suc m + i) = bs ! i"
      using assms(2) that by (simp_all add: page_holds_def)
    then show ?thesis using arg_byte_put [OF assms(1), of "Suc m + i" m v] assms(3,4) that by simp
  qed
  moreover have "arg_byte page (put_kbyte v (page (m div 4096) + of_nat (m mod 4096)) s) m = v"
    using arg_byte_put [OF assms(1), of m m v] assms(3,4) by simp
  ultimately show ?thesis using assms(2,4) unfolding page_holds_Cons by (simp add: page_holds_def)
qed

lemma frames_ok_inj: "frames_ok page s \<Longrightarrow> k < 32 \<Longrightarrow> l < 32 \<Longrightarrow> page k \<noteq> 0 \<Longrightarrow> page k = page l \<Longrightarrow> k = l"
  unfolding frames_ok_def by blast

lemma frames_ok_insert:
  assumes ok: "frames_ok page s" and i: "i < PAGING_PAGES" and other: "\<And>l. l < 32 \<Longrightarrow> page l \<noteq> frame_addr i"
  shows "frames_ok (page(k := frame_addr i)) (s\<lparr>mem_map := (mem_map s)(i := 1), pmem := m\<rparr>)"
  unfolding frames_ok_def
proof (intro conjI allI impI)
  fix l assume l: "l < 32" "(page(k := frame_addr i)) l \<noteq> 0"
  show "\<exists>j<PAGING_PAGES. (page(k := frame_addr i)) l = frame_addr j \<and> mem_map (s\<lparr>mem_map := (mem_map s)(i := 1), pmem := m\<rparr>) j \<noteq> 0"
  proof (cases "l = k")
    case True
    then show ?thesis using i by (intro exI [of _ i]) simp
  next
    case False
    then obtain j where "j < PAGING_PAGES" "page l = frame_addr j" "mem_map s j \<noteq> 0" using ok l by (auto simp: frames_ok_def)
    then show ?thesis using False by (intro exI [of _ j]) simp
  qed
next
  fix l1 l2 assume l: "l1 < 32" "l2 < 32" "(page(k := frame_addr i)) l1 \<noteq> 0 \<and> (page(k := frame_addr i)) l1 = (page(k := frame_addr i)) l2"
  show "l1 = l2"
  proof (cases "l1 = k \<or> l2 = k")
    case True
    then show ?thesis using l other [OF l(1)] other [OF l(2)] by (auto split: if_splits)
  next
    case False
    then have "page l1 \<noteq> 0" "page l1 = page l2" using l(3) by auto
    then show ?thesis by (rule frames_ok_inj [OF ok l(1,2)])
  qed
qed

text \<open>Two states that differ in memory only, and there not in the page directory.\<close>

definition same_but_memory :: "'a mm_state_scheme \<Rightarrow> 'a mm_state_scheme \<Rightarrow> bool" where
  "same_but_memory s s' \<longleftrightarrow> (\<exists>mm m. s' = s\<lparr>mem_map := mm, pmem := m\<rparr>) \<and> (\<forall>d<1024. pmem s' (pde d) = pmem s (pde d))"

lemma same_but_memoryI: "s' = s\<lparr>mem_map := mm, pmem := m\<rparr> \<Longrightarrow> (\<And>d. d < 1024 \<Longrightarrow> m (pde d) = pmem s (pde d)) \<Longrightarrow> same_but_memory s s'"
  unfolding same_but_memory_def by auto

lemma same_but_memory_refl [simp]: "same_but_memory s s"
  by (rule same_but_memoryI [where mm = "mem_map s" and m = "pmem s"]) simp_all

lemma same_but_memory_trans: "same_but_memory s t \<Longrightarrow> same_but_memory t u \<Longrightarrow> same_but_memory s u"
proof -
  assume st: "same_but_memory s t" and tu: "same_but_memory t u"
  then obtain mm m mm' m' where "t = s\<lparr>mem_map := mm, pmem := m\<rparr>" "u = t\<lparr>mem_map := mm', pmem := m'\<rparr>"
    unfolding same_but_memory_def by blast
  then have u: "u = s\<lparr>mem_map := mm', pmem := pmem u\<rparr>" by simp
  show ?thesis by (rule same_but_memoryI [OF u]) (use st tu in \<open>simp add: same_but_memory_def\<close>)
qed

lemma same_but_memory_put_kbyte:
  assumes "same_but_memory s t" "page_of a \<noteq> 0"
  shows "same_but_memory s (put_kbyte v a t)"
proof (rule same_but_memory_trans [OF assms(1)])
  have "put_kbyte v a t = t\<lparr>mem_map := mem_map t, pmem := pmem (put_kbyte v a t)\<rparr>" by (simp add: put_kbyte_def Let_def)
  moreover have "pmem (put_kbyte v a t) (pde d) = pmem t (pde d)" if "d < 1024" for d
  proof -
    have "pde d \<noteq> a AND NOT 3" using assms(2) page_of_pde [OF that] page_of_low_bits [of a] by auto
    then show ?thesis by (simp add: put_kbyte_def Let_def)
  qed
  ultimately show "same_but_memory t (put_kbyte v a t)" by (rule same_but_memoryI)
qed

lemma get_free_page_arg:
  assumes ok: "frames_ok page s" and k: "k < 32" "page k = 0" and en: "enough page s"
  obtains f s' where "get_free_page s = (f, s')" "f \<noteq> 0" "frames_ok (page(k := f)) s'" "enough (page(k := f)) s'"
    and "\<And>n bs. n + length bs \<le> 131072 \<Longrightarrow> page_holds page s n bs \<Longrightarrow> page_holds (page(k := f)) s' n bs"
    and "same_but_memory s s'"
proof (cases rule: get_free_page_cases [of s])
  case none
  have "card {k. k < 32 \<and> page k = 0} \<noteq> 0" using k by auto
  moreover have "{j. j < PAGING_PAGES \<and> mem_map s j = 0} = {}" using none(2) by auto
  ultimately show thesis using en by (simp only: enough_def free_frames_def card.empty)
next
  case (page i)
  let ?s = "s\<lparr>mem_map := (mem_map s)(i := 1), pmem := clear_page (frame_addr i) (pmem s)\<rparr>"
  have other: "page l \<noteq> frame_addr i" if l: "l < 32" for l
  proof
    assume eq: "page l = frame_addr i"
    then have "page l \<noteq> 0" using page(1) by simp
    then obtain j where j: "j < PAGING_PAGES" "page l = frame_addr j" "mem_map s j \<noteq> 0"
      using ok l by (auto simp: frames_ok_def)
    have "frame_addr i = frame_addr j" using eq j(2) by (rule trans [OF sym])
    then have "MAP_NR (frame_addr i) = MAP_NR (frame_addr j)" by (rule arg_cong)
    then have "i = j" unfolding frame_addr_simps(4) [OF page(1)] frame_addr_simps(4) [OF j(1)] .
    then show False using j(3) page(2) by simp
  qed
  show thesis
  proof (rule that [OF page(4)])
    show "frame_addr i \<noteq> 0" using page(1) by simp
    show "frames_ok (page(k := frame_addr i)) ?s"
      by (rule frames_ok_insert [OF ok page(1) other])
    have "{l. l < 32 \<and> (page(k := frame_addr i)) l = 0} = {l. l < 32 \<and> page l = 0} - {k}"
      using page(1) by auto
    moreover have "{j. j < PAGING_PAGES \<and> mem_map ?s j = 0} = {j. j < PAGING_PAGES \<and> mem_map s j = 0} - {i}" by auto
    ultimately show "enough (page(k := frame_addr i)) ?s"
      using en k page(1,2) diff_less_mono [of "card {k. k < 32 \<and> page k = 0}" "free_frames s" 1] card_gt_0_iff [of "{k. k < 32 \<and> page k = 0}"]
      by (auto simp: enough_def free_frames_def card_Diff_singleton Suc_le_eq)
    show "page_holds (page(k := frame_addr i)) ?s n bs" if lim: "n + length bs \<le> 131072" and h: "page_holds page s n bs" for n bs
      unfolding page_holds_def
    proof (intro allI impI)
      fix j assume j: "j < length bs"
      have h': "page ((n + j) div 4096) \<noteq> 0" "arg_byte page s (n + j) = bs ! j" using h j by (simp_all add: page_holds_def)
      have n: "n + j < 131072" "(n + j) div 4096 < 32" "(n + j) div 4096 \<noteq> k" using h'(1) k(2) lim j by auto
      have "page_of (page ((n + j) div 4096) + of_nat ((n + j) mod 4096)) \<noteq> frame_addr i"
        using arg_addr [OF ok n(1) h'(1)] other [OF n(2)] by metis
      then show "(page(k := frame_addr i)) ((n + j) div 4096) \<noteq> 0 \<and> arg_byte (page(k := frame_addr i)) ?s (n + j) = bs ! j"
        using h' n(3) by (simp add: arg_byte_def get_kbyte_clear [OF frame_addr_simps(1) [OF page(1)]])
    qed
    show "same_but_memory s ?s"
      by (rule same_but_memoryI [OF refl]) (use page(1) in \<open>simp add: clear_page_other\<close>)
  qed
qed

section \<open>copy_strings\<close>

text \<open>Where the copying stands when it has reached \<open>n\<close>: above lie the bytes \<open>bs\<close>.\<close>

definition arg_inv :: "arg_pos \<Rightarrow> nat \<Rightarrow> u8 list \<Rightarrow> 'a mm_state_scheme \<Rightarrow> bool" where
  "arg_inv a n bs s \<longleftrightarrow> arg_p a = of_nat n \<and> n + length bs \<le> 131072 \<and>
     (arg_off a = 0 \<or> arg_off a = int (n mod 4096) \<and> arg_pag a = arg_page a (n div 4096) \<and> arg_pag a \<noteq> 0) \<and>
     frames_ok (arg_page a) s \<and> enough (arg_page a) s \<and> page_holds (arg_page a) s n bs"

lemma copy_byte_ok:
  assumes inv: "arg_inv a (Suc m) bs s"
  shows "\<exists>a' s'. copy_byte v a s = Ret (True, a') s' \<and> arg_inv a' m (v # bs) s' \<and> same_but_memory s s'"
proof -
  let ?k = "m div 4096"
  have p: "arg_p a - 1 = (of_nat m :: u32)" and lim: "Suc m + length bs \<le> 131072"
    and ok: "frames_ok (arg_page a) s" "enough (arg_page a) s" "page_holds (arg_page a) s (Suc m) bs"
    using inv by (simp_all add: arg_inv_def)
  have k: "?k < 32" using lim by auto
  have w: "unat (of_nat m div (4096 :: u32)) = ?k" "of_nat m mod (4096 :: u32) = of_nat (m mod 4096)" "uint (of_nat m mod (4096 :: u32)) = int (m mod 4096)"
  proof -
    have u: "unat (of_nat m :: u32) = m" "unat (of_nat (m mod 4096) :: u32) = m mod 4096"
      using lim by (auto intro!: unat_of_nat_u32)
    show "unat (of_nat m div (4096 :: u32)) = ?k" unfolding unat_div u by simp
    show e: "of_nat m mod (4096 :: u32) = of_nat (m mod 4096)" unfolding word_unat_eq_iff unat_mod u by simp
    show "uint (of_nat m mod (4096 :: u32)) = int (m mod 4096)" unfolding e uint_nat u ..
  qed
  show ?thesis
  proof (cases "arg_off a - 1 < 0")
    case True
    show ?thesis
    proof (cases "arg_page a ?k = 0")
      case False
      have "copy_byte v a s = Ret (True, \<lparr>arg_p = of_nat m, arg_off = int (m mod 4096), arg_pag = arg_page a ?k, arg_page = arg_page a\<rparr>)
          (put_kbyte v (arg_page a ?k + of_nat (m mod 4096)) s)"
        using True False k w p by (simp add: copy_byte_def Let_def fun_upd_idem)
      then show ?thesis
        using page_holds_put [OF ok(1,3) lim False, of v] arg_addr_high [OF ok(1) _ False] ok lim False by (simp add: arg_inv_def same_but_memory_put_kbyte)
    next
      case fresh: True
      obtain f s' where f: "get_free_page s = (f, s')" "f \<noteq> 0" "frames_ok ((arg_page a)(?k := f)) s'" "enough ((arg_page a)(?k := f)) s'"
          "page_holds ((arg_page a)(?k := f)) s' (Suc m) bs" "same_but_memory s s'"
        using get_free_page_arg [OF ok(1) k fresh ok(2)] lim ok(3) by metis
      have "copy_byte v a s = Ret (True, \<lparr>arg_p = of_nat m, arg_off = int (m mod 4096), arg_pag = f, arg_page = (arg_page a)(?k := f)\<rparr>)
          (put_kbyte v (f + of_nat (m mod 4096)) s')"
        using True fresh k w p f(1,2) by (simp add: copy_byte_def Let_def)
      then show ?thesis
        using page_holds_put [OF f(3,5) lim, of v] arg_addr_high [OF f(3), of m] f lim by (simp add: arg_inv_def same_but_memory_put_kbyte)
    qed
  next
    case False
    then have o: "arg_off a = int (Suc m mod 4096)" "arg_pag a = arg_page a (Suc m div 4096)" "arg_pag a \<noteq> 0" "Suc m mod 4096 \<noteq> 0"
      using inv by (auto simp: arg_inv_def)
    have d: "Suc m mod 4096 = Suc (m mod 4096)" "Suc m div 4096 = ?k" using o(4) by (simp_all add: mod_Suc div_Suc split: if_splits)
    have "copy_byte v a s = Ret (True, a\<lparr>arg_p := of_nat m, arg_off := int (m mod 4096)\<rparr>)
        (put_kbyte v (arg_page a ?k + of_nat (m mod 4096)) s)"
      using False p o d by (simp add: copy_byte_def Let_def)
    then show ?thesis
      using page_holds_put [OF ok(1,3) lim, of v] arg_addr_high [OF ok(1), of m] ok lim o d by (simp add: arg_inv_def same_but_memory_put_kbyte)
  qed
qed

lemma copy_rev_ok:
  "arg_inv a (m + length vs) bs s \<Longrightarrow>
   \<exists>a' s'. copy_rev vs a s = Ret (True, a') s' \<and> arg_inv a' m (rev vs @ bs) s' \<and> same_but_memory s s'"
proof (induction vs arbitrary: a bs s)
  case (Cons v vs)
  obtain a1 s1 where 1: "copy_byte v a s = Ret (True, a1) s1" "arg_inv a1 (m + length vs) (v # bs) s1" "same_but_memory s s1"
    using copy_byte_ok [of a "m + length vs" bs s v] Cons.prems by auto
  then show ?case using Cons.IH [OF 1(2)] same_but_memory_trans [OF 1(3)] by fastforce
qed auto

lemma same_but_memory_umem: "same_but_memory s s' \<Longrightarrow> umem s' = umem s"
  unfolding same_but_memory_def by auto

lemma string_at_cong: "umem s' = umem s \<Longrightarrow> string_at fuel a s' = string_at fuel a s"
  by (induction fuel arbitrary: a) (simp_all add: get_fs_byte_def Let_def)

lemma same_but_memory_args:
  assumes "same_but_memory s s'"
  shows "string_at fuel a s' = string_at fuel a s" "get_fs_long a s' = get_fs_long a s" "args_in fuel argv ss s' = args_in fuel argv ss s"
proof -
  note u = same_but_memory_umem [OF assms]
  show s: "string_at fuel a s' = string_at fuel a s" and g: "get_fs_long a s' = get_fs_long a s" for a
    by (rule string_at_cong [OF u], simp add: get_fs_long_def u)
  have "count_loop fuel t s' = count_loop fuel t s" for t
    by (induction fuel arbitrary: t) (simp_all add: g)
  then show "args_in fuel argv ss s' = args_in fuel argv ss s" by (simp add: args_in_def count_def s g)
qed

text \<open>The strings from the last to the first.\<close>

definition readable :: "nat \<Rightarrow> u32 \<Rightarrow> u8 list list \<Rightarrow> 'a proc_state_scheme \<Rightarrow> bool" where
  "readable fuel argv ss s \<longleftrightarrow> (\<forall>k<length ss. get_fs_long (argv + 4 * of_nat k) s \<noteq> 0 \<and>
     string_at fuel (get_fs_long (argv + 4 * of_nat k) s) s = Some (ss ! k @ [0]))"

lemma readable_append: "readable fuel argv (ss @ [u]) s \<longleftrightarrow> readable fuel argv ss s \<and>
    get_fs_long (argv + 4 * of_nat (length ss)) s \<noteq> 0 \<and> string_at fuel (get_fs_long (argv + 4 * of_nat (length ss)) s) s = Some (u @ [0])"
  by (auto simp: readable_def nth_append less_Suc_eq)

lemma string_loop_ok:
  assumes "readable fuel argv ss s" and "arg_inv a (m + length (zbytes ss)) bs s"
  shows "\<exists>page s'. string_loop fuel (user_args argv) (length ss) a s = Ret (of_nat m, page) s' \<and>
    arg_inv \<lparr>arg_p = of_nat m, arg_off = 0, arg_pag = 0, arg_page = page\<rparr> m (zbytes ss @ bs) s' \<and> same_but_memory s s'"
  using assms
proof (induction ss arbitrary: a bs s rule: rev_induct)
  case Nil
  then show ?case by (intro exI [of _ "arg_page a"] exI [of _ s]) (simp add: arg_inv_def)
next
  case (snoc u ss)
  note r = snoc.prems(1) [unfolded readable_append]
  have "arg_inv a (m + length (zbytes ss) + length (rev (u @ [0]))) bs s" using snoc.prems(2) by (simp add: add_ac)
  then obtain a1 s1 where 1: "copy_rev (rev (u @ [0])) a s = Ret (True, a1) s1" "arg_inv a1 (m + length (zbytes ss)) ((u @ [0]) @ bs) s1"
      "same_but_memory s s1"
    using copy_rev_ok [of a "m + length (zbytes ss)" "rev (u @ [0])" bs s] by auto
  have "readable fuel argv ss s1" using r by (simp add: readable_def same_but_memory_args [OF 1(3)])
  then obtain page s' where 2: "string_loop fuel (user_args argv) (length ss) a1 s1 = Ret (of_nat m, page) s'"
      "arg_inv \<lparr>arg_p = of_nat m, arg_off = 0, arg_pag = 0, arg_page = page\<rparr> m (zbytes ss @ ((u @ [0]) @ bs)) s'" "same_but_memory s1 s'"
    using snoc.IH 1(2) by blast
  have "string_loop fuel (user_args argv) (length (ss @ [u])) a s = Ret (of_nat m, page) s'"
    using 1(1) 2(1) r by (simp add: user_args_def arg_bytes_def)
  then show ?case using 2(2) same_but_memory_trans [OF 1(3) 2(3)] by auto
qed

lemma args_in_readable: "args_in fuel argv ss s \<Longrightarrow> readable fuel argv ss s"
proof -
  have "count_loop fuel t s = Some n \<Longrightarrow> k < n \<Longrightarrow> get_fs_long (t + 4 * of_nat k) s \<noteq> 0" for t n k
  proof (induction fuel arbitrary: t n k)
    case (Suc fuel)
    then show ?case using Suc.IH [of "t + 4" "n - 1" "k - 1"] by (cases k) (auto simp: add.assoc split: if_splits)
  qed simp
  then show "args_in fuel argv ss s \<Longrightarrow> readable fuel argv ss s"
    by (auto simp: args_in_def readable_def count_def split: if_splits)
qed

lemma args_in_strings_ok: "args_in fuel argv ss s \<Longrightarrow> strings_ok fuel ss"
  unfolding args_in_def strings_ok_def using string_at_SomeD by (auto simp: in_set_conv_nth) blast+

lemma args_in_length: "args_in fuel argv ss s \<Longrightarrow> 0 < fuel \<Longrightarrow> length ss < fuel"
proof -
  have "count_loop fuel t s = Some n \<Longrightarrow> n < fuel" for t n
    by (induction fuel arbitrary: t n) (auto split: if_splits)
  then show "args_in fuel argv ss s \<Longrightarrow> 0 < fuel \<Longrightarrow> length ss < fuel" by (auto simp: args_in_def count_def split: if_splits)
qed

lemma copy_strings_ok:
  assumes "args_in fuel argv ss s" and "arg_inv \<lparr>arg_p = of_nat n, arg_off = 0, arg_pag = 0, arg_page = page\<rparr> n bs s"
    and "length (zbytes ss) < n"
  shows "\<exists>page' s'. copy_strings fuel (length ss) (user_args argv) page (of_nat n) s = Ret (of_nat (n - length (zbytes ss)), page') s' \<and>
    arg_inv \<lparr>arg_p = of_nat (n - length (zbytes ss)), arg_off = 0, arg_pag = 0, arg_page = page'\<rparr> (n - length (zbytes ss)) (zbytes ss @ bs) s' \<and>
    same_but_memory s s'"
proof -
  have "n < 4294967296" using assms(2) by (simp add: arg_inv_def)
  then have "(of_nat n :: u32) \<noteq> 0" using unat_of_nat_u32 [of n] assms(3) by auto
  then show ?thesis
    using string_loop_ok [OF args_in_readable [OF assms(1)], of _ "n - length (zbytes ss)" bs] assms(2,3)
    by (simp add: copy_strings_def)
qed

lemma copy_args_ok:
  assumes "args_in fuel argv as s" "args_in fuel envp es s" and "length (zbytes as) + length (zbytes es) < 131068" and "32 < free_frames s"
  shows "\<exists>n page s'. copy_args fuel (length es) envp (int (length as)) argv (\<lambda>_. 0) 0x1fffc s = Ret (of_nat n, page) s' \<and> 0 < n \<and>
    arg_inv \<lparr>arg_p = of_nat n, arg_off = 0, arg_pag = 0, arg_page = page\<rparr> n (zbytes as @ zbytes es) s' \<and> same_but_memory s s'"
proof -
  let ?n = "131068 - length (zbytes es)"
  have "card {k. k < (32::nat)} = 32" by simp
  then have 0: "arg_inv \<lparr>arg_p = of_nat 131068, arg_off = 0, arg_pag = 0, arg_page = (\<lambda>_. 0)\<rparr> 131068 [] s"
    using assms(4) by (simp add: arg_inv_def frames_ok_def enough_def page_holds_def)
  obtain page1 s1 where 1: "copy_strings fuel (length es) (user_args envp) (\<lambda>_. 0) (of_nat 131068) s = Ret (of_nat ?n, page1) s1"
      "arg_inv \<lparr>arg_p = of_nat ?n, arg_off = 0, arg_pag = 0, arg_page = page1\<rparr> ?n (zbytes es @ []) s1" "same_but_memory s s1"
    using copy_strings_ok [OF assms(2) 0] assms(3) by auto
  have a1: "args_in fuel argv as s1" using assms(1) same_but_memory_args(3) [OF 1(3)] by blast
  have lt: "length (zbytes as) < ?n" using assms(3) by linarith
  obtain page2 s2 where 2: "copy_strings fuel (length as) (user_args argv) page1 (of_nat ?n) s1 = Ret (of_nat (?n - length (zbytes as)), page2) s2"
      "arg_inv \<lparr>arg_p = of_nat (?n - length (zbytes as)), arg_off = 0, arg_pag = 0, arg_page = page2\<rparr> (?n - length (zbytes as)) (zbytes as @ zbytes es @ []) s2"
      "same_but_memory s1 s2"
    using copy_strings_ok [OF a1 1(2) lt] by blast
  have "copy_args fuel (length es) envp (int (length as)) argv (\<lambda>_. 0) 0x1fffc s = Ret (of_nat (?n - length (zbytes as)), page2) s2"
    using 1(1) 2(1) by (simp add: copy_args_def del: of_nat_diff)
  then show ?thesis
    using 2(2) same_but_memory_trans [OF 1(3) 2(3)] assms(3)
    by (intro exI [of _ "?n - length (zbytes as)"] exI [of _ page2] exI [of _ s2]) simp
qed

end
