(* ===== verification/Exec_Properties.thy ===== *)
theory Exec_Properties
  imports Exec_Copy Lifecycle_Properties
begin

text \<open>
  The arguments and the environment that \<open>execve\<close> is called with are the ones that the new program finds on its stack:
  the argument pages are mapped at the top of the new user space, and read there through the page tables.
\<close>

section \<open>The linear addresses of the argument pages\<close>

text \<open>All of them lie in the last directory entry of the user space, from entry 992 of its table on.\<close>

definition arg_dir :: "u32 \<Rightarrow> nat" where
  "arg_dir base = unat (base + 0x3fe0000) div 4194304"

lemma arg_linear:
  assumes "base AND 0x3fffff = 0" "m < 131072"
  shows "unat (base + 0x3fe0000 + of_nat m) = arg_dir base * 4194304 + 4063232 + m" "arg_dir base < 1024"
proof -
  have "unat (base AND mask 22) = unat base mod 2 ^ 22" by (rule unat_and_mask) simp
  then have "unat base mod 4194304 = 0" using assms(1) by (simp add: mask_eq_exp_minus_1)
  then obtain q where q: "unat base = q * 4194304" by (metis div_mult_mod_eq add_0_right)
  have q1: "q < 1024" using q unat_lt32 [of base] by simp
  obtain r where r: "unat (base + 0x3fe0000) = r * 4194304 + 4063232" "r < 1024"
  proof (cases "q + 15 < 1024")
    case True
    then show thesis using q by (intro that [of "q + 15"]) (simp_all add: unat_word_ariths)
  next
    case False
    then have "unat base + 66977792 = (q - 1009) * 4194304 + 4063232 + 4294967296" using q by simp
    then show thesis using q1 False by (intro that [of "q - 1009"]) (simp_all add: unat_word_ariths le_mod_geq del: diff_mult_distrib)
  qed
  have d: "arg_dir base = r" unfolding arg_dir_def r(1) by (simp add: div_nat_eqI)
  show "arg_dir base < 1024" using r(2) d by simp
  show "unat (base + 0x3fe0000 + of_nat m) = arg_dir base * 4194304 + 4063232 + m"
    using r assms(2) unat_of_nat_u32 [of m] unat_add_lem [of "base + 0x3fe0000" "of_nat m"] d by simp
qed

lemma arg_indices:
  assumes "base AND 0x3fffff = 0" "m < 131072"
  defines "la \<equiv> base + 0x3fe0000 + of_nat m"
  shows "unat la div 4194304 = arg_dir base" "unat la div 4096 mod 1024 = 992 + m div 4096" "la AND 0xfff = of_nat (m mod 4096)"
proof -
  have u: "unat la = arg_dir base * 4194304 + 4063232 + m" unfolding la_def by (rule arg_linear [OF assms(1,2)])
  show "unat la div 4194304 = arg_dir base" unfolding u using assms(2) by (intro div_nat_eqI) simp_all
  have "arg_dir base * 4194304 + 4063232 + m = m + (arg_dir base * 1024 + 992) * 4096" by simp
  then have "unat la div 4096 = arg_dir base * 1024 + 992 + m div 4096" unfolding u by (simp only: div_mult_self1)
  moreover have "992 + m div 4096 < 1024" using assms(2) by auto
  ultimately show "unat la div 4096 mod 1024 = 992 + m div 4096" by (simp only: add.assoc mod_mult_self3 mod_less)
  have "arg_dir base * 4194304 + 4063232 + m = m + (arg_dir base * 1024 + 992) * 4096" by simp
  then have "unat (la AND 0xfff) = m mod 4096" unfolding and_fff u by (simp only: mod_mult_self1)
  then show "la AND 0xfff = of_nat (m mod 4096)" using unat_of_nat_u32 [of "m mod 4096"] by (simp add: word_unat_eq_iff)
qed

section \<open>Placing the pages\<close>

text \<open>The pages are frames in use.\<close>

definition arg_frames :: "(nat \<Rightarrow> u32) \<Rightarrow> 'a mm_state_scheme \<Rightarrow> bool" where
  "arg_frames page s \<longleftrightarrow> (\<forall>k<32. page k \<noteq> 0 \<longrightarrow> (\<exists>j<PAGING_PAGES. page k = frame_addr j \<and> mem_map s j \<noteq> 0))"

text \<open>They hold the same bytes in two states.\<close>

definition same_args :: "(nat \<Rightarrow> u32) \<Rightarrow> 'a mm_state_scheme \<Rightarrow> 'a mm_state_scheme \<Rightarrow> bool" where
  "same_args page s t \<longleftrightarrow> (\<forall>k x. k < 32 \<and> page k \<noteq> 0 \<and> x < 4096 \<longrightarrow> get_kbyte (page k + of_nat x) t = get_kbyte (page k + of_nat x) s)"

text \<open>The directory entry \<open>d\<close> has a page table apart from them, or there is memory for one.\<close>

definition arg_table :: "(nat \<Rightarrow> u32) \<Rightarrow> nat \<Rightarrow> 'a mm_state_scheme \<Rightarrow> bool" where
  "arg_table page d s \<longleftrightarrow>
     (if present (pmem s (pde d)) then page_of (pmem s (pde d)) \<noteq> 0 \<and> (\<forall>k<32. page k \<noteq> 0 \<longrightarrow> page k \<noteq> page_of (pmem s (pde d)))
      else \<exists>j<PAGING_PAGES. mem_map s j = 0)"

text \<open>The pages from \<open>i\<close> on are mapped.\<close>

definition arg_mapped :: "(nat \<Rightarrow> u32) \<Rightarrow> nat \<Rightarrow> nat \<Rightarrow> 'a mm_state_scheme \<Rightarrow> bool" where
  "arg_mapped page d i s \<longleftrightarrow> (\<forall>k. i \<le> k \<and> k < 32 \<and> page k \<noteq> 0 \<longrightarrow>
     present (pmem s (pde d)) \<and> pmem s (page_of (pmem s (pde d)) + pde (992 + k)) = page k OR 7)"

lemma same_args_trans: "same_args page s t \<Longrightarrow> same_args page t u \<Longrightarrow> same_args page s u"
  by (simp add: same_args_def)

lemma entry_not_directory: "page_of p = p \<Longrightarrow> p \<noteq> 0 \<Longrightarrow> d < 1024 \<Longrightarrow> k < 1024 \<Longrightarrow> p + pde k \<noteq> pde d"
  by (metis page_of_pde page_of_pte_addr)

text \<open>A change of memory outside the argument pages.\<close>

lemma same_argsI:
  assumes "arg_frames page s" and "\<And>a k. k < 32 \<Longrightarrow> page k \<noteq> 0 \<Longrightarrow> page_of a = page k \<Longrightarrow> pmem t a = pmem s a"
  shows "same_args page s t"
  unfolding same_args_def
proof (intro allI impI)
  fix k x :: nat assume k: "k < 32 \<and> page k \<noteq> 0 \<and> x < 4096"
  then obtain j where "j < PAGING_PAGES" "page k = frame_addr j" using assms(1) unfolding arg_frames_def by blast
  then have "page_of ((page k + of_nat x) AND NOT 3) = page k" using k page_of_frame_offset [of j x] page_of_low_bits by metis
  then show "get_kbyte (page k + of_nat x) t = get_kbyte (page k + of_nat x) s"
    using assms(2) k unfolding get_kbyte_def by metis
qed

lemma put_entry:
  assumes t: "present (pmem s (pde d))" "arg_table page d s" and f: "arg_frames page s" and i: "i < 32" "d < 1024"
    and m: "arg_mapped page d (Suc i) s"
  defines "s' \<equiv> set_pmem (page_of (pmem s (pde d)) + pde (992 + i)) (page i OR 7) s"
  shows "arg_table page d s' \<and> arg_frames page s' \<and> arg_mapped page d i s' \<and> same_args page s s'"
proof -
  let ?T = "page_of (pmem s (pde d))"
  have T: "?T \<noteq> 0" "\<And>k. k < 32 \<Longrightarrow> page k \<noteq> 0 \<Longrightarrow> page k \<noteq> ?T" using t unfolding arg_table_def by auto
  have e: "?T + pde (992 + i) \<noteq> pde d" using T(1) i by (intro entry_not_directory) simp_all
  have d: "pmem s' (pde d) = pmem s (pde d)" unfolding s'_def using e by simp
  have "arg_table page d s'" using t d unfolding arg_table_def by auto
  moreover have "arg_frames page s'" using f by (simp add: s'_def arg_frames_def)
  moreover have "arg_mapped page d i s'"
    unfolding arg_mapped_def d
  proof (intro allI impI)
    fix k assume k: "i \<le> k \<and> k < 32 \<and> page k \<noteq> 0"
    show "present (pmem s (pde d)) \<and> pmem s' (?T + pde (992 + k)) = page k OR 7"
    proof (cases "k = i")
      case True
      then show ?thesis using t(1) by (simp add: s'_def)
    next
      case False
      then have "?T + pde (992 + k) \<noteq> ?T + pde (992 + i)" using k i pde_inj [of "992 + k" "992 + i"] by simp
      then have "pmem s' (?T + pde (992 + k)) = pmem s (?T + pde (992 + k))" unfolding s'_def by simp
      then show ?thesis using m k False t(1) unfolding arg_mapped_def by simp
    qed
  qed
  moreover have "same_args page s s'"
  proof (rule same_argsI [OF f])
    fix a k assume k: "k < 32" "page k \<noteq> 0" "page_of a = page k"
    have "page_of (?T + pde (992 + i)) = ?T" using i by (intro page_of_pte_addr) simp_all
    then have "a \<noteq> ?T + pde (992 + i)" using T(2) [OF k(1,2)] k(3) by auto
    then show "pmem s' a = pmem s a" unfolding s'_def by simp
  qed
  ultimately show ?thesis by blast
qed

lemma new_table_args:
  assumes n: "\<not> present (pmem s (pde d))" and j: "j < PAGING_PAGES" "mem_map s j = 0" and f: "arg_frames page s" and d: "d < 1024"
    and m: "arg_mapped page d i s"
  defines "s' \<equiv> with_new_table d j s"
  shows "present (pmem s' (pde d)) \<and> page_of (pmem s' (pde d)) = frame_addr j \<and> arg_table page d s' \<and> arg_frames page s' \<and>
    arg_mapped page d i s' \<and> same_args page s s'"
proof -
  have ne: "page k \<noteq> frame_addr j" if k: "k < 32" "page k \<noteq> 0" for k
  proof
    assume eq: "page k = frame_addr j"
    obtain l where l: "l < PAGING_PAGES" "page k = frame_addr l" "mem_map s l \<noteq> 0" using f k unfolding arg_frames_def by blast
    have "MAP_NR (frame_addr l) = MAP_NR (frame_addr j)" using eq l(2) by simp
    then show False using l(1,3) j by simp
  qed
  have pd: "pmem s' (pde d) = frame_addr j OR 7" unfolding s'_def with_new_table_def by simp
  have tb: "present (pmem s' (pde d))" "page_of (pmem s' (pde d)) = frame_addr j" using j(1) by (simp_all add: pd)
  have "arg_table page d s'" using tb ne j(1) unfolding arg_table_def by auto
  moreover have "arg_frames page s'"
    unfolding arg_frames_def
  proof (intro allI impI)
    fix k assume k: "k < 32" "page k \<noteq> 0"
    then obtain l where "l < PAGING_PAGES" "page k = frame_addr l" "mem_map s l \<noteq> 0" using f unfolding arg_frames_def by blast
    then show "\<exists>l<PAGING_PAGES. page k = frame_addr l \<and> mem_map s' l \<noteq> 0" by (intro exI [of _ l]) (simp add: s'_def)
  qed
  moreover have "arg_mapped page d i s'" using m n unfolding arg_mapped_def by blast
  moreover have "same_args page s s'"
  proof (rule same_argsI [OF f])
    fix a k assume k: "k < 32" "page k \<noteq> 0" "page_of a = page k"
    obtain l where "l < PAGING_PAGES" "page k = frame_addr l" using f k(1,2) unfolding arg_frames_def by blast
    then have "page_of a \<noteq> 0" using k(3) by simp
    then have "a \<noteq> pde d" using page_of_pde [OF d] by auto
    moreover have "page_of a \<noteq> frame_addr j" using ne [OF k(1,2)] k(3) by simp
    ultimately show "pmem s' a = pmem s a" unfolding s'_def with_new_table_def using j(1) by (simp add: clear_page_other)
  qed
  ultimately show ?thesis using tb by blast
qed

text \<open>\<open>put_page\<close> at the address of page \<open>i\<close>.\<close>

lemma put_arg_page:
  assumes b: "base AND 0x3fffff = 0" and i: "i < 32" "page i \<noteq> 0"
    and s: "arg_table page (arg_dir base) s" "arg_frames page s" "arg_mapped page (arg_dir base) (Suc i) s"
  defines "s' \<equiv> snd (put_page (page i) (base + 0x3fe0000 + 4096 * of_nat i) s)"
  shows "arg_table page (arg_dir base) s' \<and> arg_frames page s' \<and> arg_mapped page (arg_dir base) i s' \<and> same_args page s s'"
proof -
  let ?d = "arg_dir base" and ?a = "base + 0x3fe0000 + 4096 * of_nat i"
  have m: "4096 * i < 131072" using i(1) by simp
  have a: "unat ?a div 4194304 = ?d" "unat ?a div 4096 mod 1024 = 992 + i" using arg_indices [OF b m] by simp_all
  have d: "?d < 1024" by (rule arg_linear(2) [OF b m])
  show ?thesis
  proof (cases "present (pmem s (pde ?d))")
    case True
    have "s' = set_pmem (page_of (pmem s (pde ?d)) + pde (992 + i)) (page i OR 7) s"
      unfolding s'_def put_page_eq Let_def a using True by simp
    then show ?thesis using put_entry [OF True s(1,2) i(1) d s(3)] by simp
  next
    case False
    then obtain j where j: "scan_free (mem_map s) PAGING_PAGES = Some j"
      using s(1) scan_free_None [of "mem_map s" PAGING_PAGES] unfolding arg_table_def by fastforce
    then have j': "j < PAGING_PAGES" "mem_map s j = 0" using scan_free_Some by blast+
    let ?u = "with_new_table ?d j s"
    have u: "present (pmem ?u (pde ?d))" "page_of (pmem ?u (pde ?d)) = frame_addr j" "arg_table page ?d ?u" "arg_frames page ?u"
        "arg_mapped page ?d (Suc i) ?u" "same_args page s ?u"
      using new_table_args [OF False j' s(2) d s(3)] by blast+
    have "s' = set_pmem (page_of (pmem ?u (pde ?d)) + pde (992 + i)) (page i OR 7) ?u"
      unfolding s'_def put_page_eq Let_def a u(2) using False j by simp
    then show ?thesis using put_entry [OF u(1,3,4) i(1) d u(5)] same_args_trans [OF u(6)] by simp
  qed
qed

lemma put_arg_pages_ok:
  assumes b: "base AND 0x3fffff = 0" and "i \<le> 32" and "arg_table page (arg_dir base) s" "arg_frames page s"
    "arg_mapped page (arg_dir base) i s"
  defines "s' \<equiv> put_arg_pages i page (base + 0x3fe0000 + 4096 * of_nat i) s"
  shows "arg_mapped page (arg_dir base) 0 s' \<and> same_args page s s'"
  using assms(2-5) unfolding s'_def
proof (induction i arbitrary: s)
  case 0
  then show ?case by (simp add: same_args_def)
next
  case (Suc i)
  let ?a = "base + 0x3fe0000 + 4096 * of_nat i"
  have a: "base + 0x3fe0000 + 4096 * of_nat (Suc i) - 4096 = ?a" by (simp add: algebra_simps)
  have i: "i < 32" "i \<le> 32" using Suc.prems(1) by simp_all
  let ?u = "if page i \<noteq> 0 then snd (put_page (page i) ?a s) else s"
  have u: "arg_table page (arg_dir base) ?u \<and> arg_frames page ?u \<and> arg_mapped page (arg_dir base) i ?u \<and> same_args page s ?u"
  proof (cases "page i = 0")
    case True
    then have "arg_mapped page (arg_dir base) i s" using Suc.prems(4) unfolding arg_mapped_def by (metis Suc_leI le_neq_implies_less)
    then show ?thesis using True Suc.prems(2,3) by (simp add: same_args_def)
  next
    case False
    then show ?thesis using put_arg_page [OF b i(1) False Suc.prems(2-4)] by simp
  qed
  have eq: "put_arg_pages (Suc i) page (base + 0x3fe0000 + 4096 * of_nat (Suc i)) s = put_arg_pages i page ?a ?u"
    by (simp only: put_arg_pages.simps a Let_def)
  show ?case unfolding eq using Suc.IH [OF i(2), of ?u] u same_args_trans [of page s ?u] by blast
qed

section \<open>The view through the page tables\<close>

lemma user_view_arg:
  assumes b: "base AND 0x3fffff = 0" and m: "m < 131072" "page (m div 4096) \<noteq> 0"
    and s: "arg_mapped page (arg_dir base) 0 s" and p: "page_of (page (m div 4096)) = page (m div 4096)"
  shows "user_view base img s (of_nat (66977792 + m)) = arg_byte page s m"
proof -
  let ?k = "m div 4096" and ?d = "arg_dir base" and ?la = "base + of_nat (66977792 + m)"
  have la: "?la = base + 0x3fe0000 + of_nat m" by simp
  note ix = arg_indices [OF b m(1), folded la]
  have k: "?k < 32" using m(1) by auto
  have pr: "present (pmem s (pde ?d))" "pmem s (page_of (pmem s (pde ?d)) + pde (992 + ?k)) = page ?k OR 7"
    using s k m(2) unfolding arg_mapped_def by blast+
  have d: "dir_entry_addr ?la = pde ?d" unfolding dir_entry_addr_pde ix(1) ..
  have e: "pmem s (pte_addr ?la s) = page ?k OR 7"
    unfolding pte_addr_def d table_offset_pde ix(2) using pr(2) by (simp add: add.commute)
  show ?thesis
    unfolding user_view_def Let_def d e ix(3) arg_byte_def using pr(1) p by simp
qed

lemma bit_limit_masks: "bit (0xffff0000::u32) n \<longleftrightarrow> 16 \<le> n \<and> n < 32" "bit (0xff00ffff::u32) n \<longleftrightarrow> n < 16 \<or> 24 \<le> n \<and> n < 32"
  "bit (0xf0::u32) n \<longleftrightarrow> 4 \<le> n \<and> n < 8"
proof -
  have 1: "(0xffff0000::u32) = push_bit 16 (mask 16)" "(0xff00ffff::u32) = push_bit 24 (mask 8) OR mask 16" "(0xf0::u32) = push_bit 4 (mask 4)"
    by (simp_all add: mask_eq_exp_minus_1)
  show "bit (0xffff0000::u32) n \<longleftrightarrow> 16 \<le> n \<and> n < 32" "bit (0xff00ffff::u32) n \<longleftrightarrow> n < 16 \<or> 24 \<le> n \<and> n < 32"
    "bit (0xf0::u32) n \<longleftrightarrow> 4 \<le> n \<and> n < 8"
    unfolding 1 by (auto simp: bit_mask_iff bit_push_bit_iff bit_or_iff)
qed

lemma base_limit [simp]: "get_base (set_limit d l) = get_base d"
proof (rule bit_word_eqI)
  fix n assume "n < LENGTH(32)"
  then have n: "n < 32" by simp
  consider "n < 8" | "8 \<le> n \<and> n < 16" | "16 \<le> n \<and> n < 24" | "24 \<le> n" by linarith
  then show "bit (get_base (set_limit d l)) n \<longleftrightarrow> bit (get_base d) n"
    using n unfolding get_base_def set_limit_def Let_def desc_bits bit_limit_masks by cases (auto dest: bit_u32)
qed

lemma same_args_holds:
  assumes "same_args page s t" "page_holds page s n bs" "n + length bs \<le> 131072"
  shows "page_holds page t n bs"
proof -
  have "arg_byte page t (n + i) = arg_byte page s (n + i)" if "i < length bs" for i
  proof -
    have "page ((n + i) div 4096) \<noteq> 0" "(n + i) div 4096 < 32" using assms(2,3) that by (auto simp: page_holds_def)
    then show ?thesis using assms(1) by (simp add: same_args_def arg_byte_def)
  qed
  then show ?thesis using assms(2) by (simp add: page_holds_def)
qed

lemma placed_args:
  assumes b: "base AND 0x3fffff = 0" and u: "arg_table page (arg_dir base) u" "arg_frames page u"
    and h: "page_holds page u n bs" "n + length bs \<le> 131072" and i: "i < length bs"
  shows "user_view base img (put_arg_pages 32 page (base + 0x4000000) u) (of_nat (66977792 + n + i)) = bs ! i"
proof -
  let ?t = "put_arg_pages 32 page (base + 0x4000000) u"
  have a: "base + 0x4000000 = base + 0x3fe0000 + 4096 * of_nat 32" by simp
  have "arg_mapped page (arg_dir base) 32 u" unfolding arg_mapped_def by auto
  then have t: "arg_mapped page (arg_dir base) 0 ?t" "same_args page u ?t"
    unfolding a using put_arg_pages_ok [OF b le_refl u] by blast+
  have "page_holds page ?t n bs" by (rule same_args_holds [OF t(2) h])
  then have p: "page ((n + i) div 4096) \<noteq> 0" "arg_byte page ?t (n + i) = bs ! i" using i by (simp_all add: page_holds_def)
  have lim: "n + i < 131072" using h(2) i by simp
  then have "(n + i) div 4096 < 32" by auto
  then have "page_of (page ((n + i) div 4096)) = page ((n + i) div 4096)"
    using u(2) p(1) unfolding arg_frames_def by (metis frame_addr_simps(1))
  then have "user_view base img ?t (of_nat (66977792 + (n + i))) = bs ! i"
    using user_view_arg [OF b lim p(1) t(1)] p(2) by simp
  then show ?thesis by (simp only: add.assoc)
qed

lemma put_arg_pages_mm_only: "mm_only s (put_arg_pages i page a s)"
proof (induction i arbitrary: a s)
  case (Suc i)
  have "mm_only s (snd (put_page p x s))" for p x
    unfolding put_page_eq Let_def with_new_table_def by (simp split: option.split)
  then have "mm_only s (if page i \<noteq> 0 then snd (put_page (page i) (a - 4096) s) else s)" by simp
  then show ?case using mm_only_trans [OF _ Suc.IH] by (simp only: put_arg_pages.simps Let_def)
qed simp

lemma change_ldt_ok:
  fixes s :: "'a proc_state_scheme"
  assumes b: "get_base (ldt (cur s) 1) AND 0x3fffff = 0"
    and s: "arg_table page (arg_dir (get_base (ldt (cur s) 1))) s" "arg_frames page s"
    and h: "page_holds page s n bs" "n + length bs \<le> 131072"
  shows "\<exists>s'. change_ldt text_size page img s = (0x4000000, s') \<and> ubytes (66977792 + n) bs s'"
proof -
  define base where "base = get_base (ldt (cur s) 1)"
  define u where "u = upd_cur (\<lambda>t. t\<lparr>ldt := (ldt t)(1 := set_limit (set_base (ldt t 1) base) ((text_size + 4095) AND 0xFFFFF000),
    2 := set_limit (set_base (ldt t 2) base) 0x4000000)\<rparr>) s"
  define t where "t = put_arg_pages 32 page (base + 0x4000000) u"
  have m: "pmem u = pmem s" "mem_map u = mem_map s" "get_base (ldt (cur u) 2) = base" by (simp_all add: u_def upd_task_def)
  have "cur t = cur u" using put_arg_pages_mm_only [of u 32 page "base + 0x4000000"] unfolding t_def mm_only_def by auto
  then have "change_ldt text_size page img s = (0x4000000, t\<lparr>umem := user_view base img t\<rparr>)"
    unfolding change_ldt_def Let_def base_def [symmetric] u_def [symmetric] t_def [symmetric] using m(3) by simp
  moreover have "page_holds page u n bs" using h(1) by (simp add: page_holds_def arg_byte_def get_kbyte_def m)
  then have "user_view base img t (of_nat (66977792 + n + i)) = bs ! i" if "i < length bs" for i
    unfolding t_def using s b h(2) that
    by (intro placed_args) (simp_all add: arg_table_def arg_frames_def m base_def)
  then have "ubytes (66977792 + n) bs (t\<lparr>umem := user_view base img t\<rparr>)"
    by (simp add: ubytes_def del: of_nat_add)
  ultimately show ?thesis by blast
qed

section \<open>The arguments of the new program\<close>

lemma new_stack_ok:
  assumes "get_base (ldt (cur t) 1) AND 0x3fffff = 0" "arg_table page (arg_dir (get_base (ldt (cur t) 1))) t" "arg_frames page t"
    and "page_holds page t n (zbytes as @ zbytes es)" "n + length (zbytes as @ zbytes es) \<le> 131072"
    and "strings_ok fuel as" "strings_ok fuel es" "length as < fuel" "length es < fuel"
  shows "returns (new_stack fuel text_size img (length as) (length es) (of_nat n) page t) (main_args fuel as es)"
proof -
  obtain t' where t': "change_ldt text_size page img t = (0x4000000, t')" "ubytes (66977792 + n) (zbytes as @ zbytes es) t'"
    using change_ldt_ok [OF assms(1-5)] by blast
  have p: "of_nat n + (0x4000000 - 0x20000) = (of_nat (66977792 + n) :: u32)" by simp
  have "4 * length as + 4 * length es + 40 < 66977792 + n"
    using assms(5) length_zbytes [of as] length_zbytes [of es] by simp
  then show ?thesis
    using create_tables_ok [OF t'(2) assms(6-9)] assms(5) unfolding new_stack_def t'(1) p [symmetric] by (simp add: p)
qed

text \<open>C39: A program is given arguments and an environment of fewer than 128 kB, in tables that are read with the
  given fuel, while more than 32 frames are free. \<open>execve\<close> copies them without an error, changing nothing but memory outside the page
  directory; the argument pages are frames in use and a frame is left. Let \<open>t\<close> be any later state (files closed, the old pages given back)
  in which the argument pages are still in use with the same bytes, the code segment starts at a multiple of 4 MB, and
  the directory entry of its last pages has a page table apart from the argument pages or a frame is free for one. Then, when the
  pages have been mapped one by one, the new program finds on its stack, through the page tables, the number of its
  arguments and tables of the same arguments and the same environment, in the same order.\<close>

theorem execve_arguments:
  fixes s :: "'a proc_state_scheme"
  assumes "0 < fuel" and "args_in fuel argv as s" and "args_in fuel envp es s"
    and "length (zbytes as) + length (zbytes es) < 0x20000 - 4" and "32 < free_frames s"
  shows "returns (copy_args fuel (length es) envp (int (length as)) argv (\<lambda>_. 0) (0x20000 - 4) s) (\<lambda>(p, page) s'.
    p \<noteq> 0 \<and> same_but_memory s s' \<and> arg_frames page s' \<and> 0 < free_frames s' \<and>
    (\<forall>t base. same_args page s' t \<and> arg_frames page t \<and> base = get_base (ldt (cur t) 1) \<and> base AND 0x3fffff = 0 \<and>
         arg_table page (arg_dir base) t \<longrightarrow>
       returns (new_stack fuel text_size img (length as) (length es) p page t) (main_args fuel as es)))"
proof -
  obtain n page s' where c: "copy_args fuel (length es) envp (int (length as)) argv (\<lambda>_. 0) 0x1fffc s = Ret (of_nat n, page) s'" "0 < n"
      "arg_inv \<lparr>arg_p = of_nat n, arg_off = 0, arg_pag = 0, arg_page = page\<rparr> n (zbytes as @ zbytes es) s'" "same_but_memory s s'"
    using copy_args_ok [OF assms(2,3) _ assms(5)] assms(4) by auto
  have h: "page_holds page s' n (zbytes as @ zbytes es)" "n + length (zbytes as @ zbytes es) \<le> 131072" "frames_ok page s'" "enough page s'"
    using c(3) by (simp_all add: arg_inv_def)
  have "returns (new_stack fuel text_size img (length as) (length es) (of_nat n) page t) (main_args fuel as es)"
    if "same_args page s' t" "arg_frames page t" "get_base (ldt (cur t) 1) AND 0x3fffff = 0"
      "arg_table page (arg_dir (get_base (ldt (cur t) 1))) t" for t
    using new_stack_ok [OF that(3,4,2) same_args_holds [OF that(1) h(1,2)] h(2)]
      args_in_strings_ok [OF assms(2)] args_in_strings_ok [OF assms(3)]
      args_in_length [OF assms(2,1)] args_in_length [OF assms(3,1)] by blast
  moreover have "(of_nat n :: u32) \<noteq> 0" using c(2) h(2) unat_of_nat_u32 [of n] by auto
  moreover have "arg_frames page s'" using h(3) unfolding frames_ok_def arg_frames_def by blast
  moreover have "0 < free_frames s'" using h(4) unfolding enough_def by simp
  ultimately show ?thesis using c(1,4) by auto
qed

text \<open>A process with the argument "a" and no environment, and all frames free.\<close>

definition arg_state :: proc_state where
  "arg_state = two_procs\<lparr>umem := (\<lambda>_. 0)(16 := 24, 24 := 97)\<rparr>"

lemma arg_state_table: "same_but_memory arg_state s' \<Longrightarrow> 0 < free_frames s' \<Longrightarrow> arg_table page (arg_dir 0) s'"
proof -
  assume s: "same_but_memory arg_state s'" "0 < free_frames s'"
  have "arg_dir 0 < 1024" by (simp add: arg_dir_def)
  then have "pmem s' (pde (arg_dir 0)) = pmem arg_state (pde (arg_dir 0))" using s(1) unfolding same_but_memory_def by blast
  then have "\<not> present (pmem s' (pde (arg_dir 0)))"
    by (simp add: present_def arg_state_def two_procs_def two_tasks_def sched_state.defs proc_state.defs)
  moreover have "\<exists>j<PAGING_PAGES. mem_map s' j = 0" using s(2) unfolding free_frames_def card_gt_0_iff by blast
  ultimately show ?thesis by (simp add: arg_table_def)
qed

theorem execve_arguments_witness:
  "returns (copy_args 3 0 0 1 16 (\<lambda>_. 0) (0x20000 - 4) arg_state) (\<lambda>(p, page) s'.
     p \<noteq> 0 \<and> returns (new_stack 3 0 (\<lambda>_. 0) 1 0 p page s') (main_args 3 [[97]] []))"
proof -
  have a: "args_in 3 16 [[97]] arg_state" "args_in 3 0 [] arg_state"
    by (simp_all add: args_in_def count_def arg_state_def get_fs_long_def get_fs_byte_def numeral_3_eq_3 Let_def)
  have f: "32 < free_frames arg_state"
    by (simp add: free_frames_def arg_state_def two_procs_def two_tasks_def sched_state.defs proc_state.defs PAGING_PAGES_def)
  have b: "get_base (ldt (cur s') 1) = 0" if "same_but_memory arg_state s'" for s'
    using that by (auto simp: same_but_memory_def arg_state_def get_base_def INIT_TASK_def)
  let ?argc = "length [[97::u8]]" and ?envc = "length ([] :: u8 list list)"
  let ?P = "\<lambda>(p, page) (s' :: proc_state). p \<noteq> 0 \<and> same_but_memory arg_state s' \<and> arg_frames page s' \<and> 0 < free_frames s' \<and>
      (\<forall>t base. same_args page s' t \<and> arg_frames page t \<and> base = get_base (ldt (cur t) 1) \<and> base AND 0x3fffff = 0 \<and>
         arg_table page (arg_dir base) t \<longrightarrow>
        returns (new_stack 3 0 (\<lambda>_. 0) ?argc ?envc p page t) (main_args 3 [[97]] []))"
  let ?Q = "\<lambda>(p, page) (s' :: proc_state). p \<noteq> 0 \<and>
      returns (new_stack 3 0 (\<lambda>_. 0) ?argc ?envc p page s') (main_args 3 [[97]] [])"
  have "returns (copy_args 3 ?envc 0 (int ?argc) 16 (\<lambda>_. 0) (0x20000 - 4) arg_state) ?P"
    by (rule execve_arguments [OF _ a _ f]) simp_all
  then have "returns (copy_args 3 ?envc 0 (int ?argc) 16 (\<lambda>_. 0) (0x20000 - 4) arg_state) ?Q"
  proof (rule returns_mono)
    fix r s' assume "?P r s'"
    moreover have "same_args page s' s'" for page by (simp add: same_args_def)
    ultimately show "?Q r s'" using b arg_state_table by (cases r) simp
  qed
  then show ?thesis by simp
qed

end
