(* ===== verification/File_Table.thy ===== *)
theory File_Table
  imports Lifecycle_Properties
begin

text \<open>
  The file table and the descriptors: every descriptor names an entry of the table, and the count of an entry is the
  number of descriptors, over all tasks, that name it.
\<close>

section \<open>Counting descriptors\<close>

definition file_refs :: "'a sched_state_scheme \<Rightarrow> nat \<Rightarrow> nat" where
  "file_refs s f = (\<Sum>i | i < NR_TASKS \<and> task s i \<noteq> 0. uses (open_files (tasks s (task s i))) f)"

definition files_wf :: "'a fs_state_scheme \<Rightarrow> bool" where
  "files_wf s \<longleftrightarrow>
     (\<forall>i<NR_TASKS. \<forall>j<NR_TASKS. task s i \<noteq> 0 \<longrightarrow> task s i = task s j \<longrightarrow> i = j) \<and>
     (\<exists>i<NR_TASKS. task s i = current s \<and> current s \<noteq> 0) \<and>
     (\<forall>i<NR_TASKS. task s i \<noteq> 0 \<longrightarrow> (\<forall>fd<NR_OPEN. \<forall>f. filp (tasks s (task s i)) fd = Some f \<longrightarrow> f < NR_FILE)) \<and>
     (\<forall>f<NR_FILE. unat (f_count (file_table s f)) = file_refs s f)"

lemma uses_sum: "uses (map g [0..<n]) f = (\<Sum>i<n. of_bool (g i = Some f))"
  by (induction n) (auto simp: uses_def)

lemma open_files_sum: "uses (open_files t) f = (\<Sum>i<20. of_bool (filp t i = Some f))"
  unfolding open_files_def by (rule uses_sum)

lemma uses_le: "uses (open_files t) f \<le> 20"
  unfolding uses_def open_files_def by (rule order_trans [OF length_filter_le]) simp

lemma uses_upd:
  assumes "fd < 20" "filp t' = (filp t)(fd := v)"
  shows "uses (open_files t') f + of_bool (filp t fd = Some f) = uses (open_files t) f + of_bool (v = Some f)"
proof -
  have "(\<Sum>i\<in>{..<20} - {fd}. of_bool (filp t' i = Some f)) = (\<Sum>i\<in>{..<20} - {fd}. of_bool (filp t i = Some f) :: nat)"
    using assms(2) by (intro sum.cong) auto
  then show ?thesis
    using assms sum.remove [of "{..<20}" fd "\<lambda>i. of_bool (filp t' i = Some f) :: nat"]
      sum.remove [of "{..<20}" fd "\<lambda>i. of_bool (filp t i = Some f) :: nat"]
    unfolding open_files_sum by simp
qed

lemma file_refs_le: "file_refs s f \<le> 1280"
proof -
  have "file_refs s f \<le> card {i. i < NR_TASKS \<and> task s i \<noteq> 0} * 20"
    unfolding file_refs_def using sum_bounded_above [of "{i. i < NR_TASKS \<and> task s i \<noteq> 0}" "\<lambda>i. uses (open_files (tasks s (task s i))) f" 20] uses_le by simp
  also have "\<dots> \<le> card {..<64::nat} * 20" by (intro mult_right_mono card_mono) (auto simp: NR_TASKS_def)
  finally show ?thesis by simp
qed

lemma files_wf_same:
  assumes "files_wf s" "task t = task s" "current t = current s" "\<And>p. filp (tasks t p) = filp (tasks s p)"
    "\<And>f. f_count (file_table t f) = f_count (file_table s f)"
  shows "files_wf t"
proof -
  have "open_files (tasks t p) = open_files (tasks s p)" for p by (simp add: open_files_def assms(4))
  then have "file_refs t f = file_refs s f" for f by (simp add: file_refs_def assms(2))
  then show ?thesis using assms(1) unfolding files_wf_def assms(2-5) by simp
qed

text \<open>The current task among the others.\<close>

lemma file_refs_current:
  assumes "c < NR_TASKS" "task s c = current s" "current s \<noteq> 0"
  shows "file_refs s f = uses (open_files (cur s)) f + (\<Sum>i | i < NR_TASKS \<and> task s i \<noteq> 0 \<and> i \<noteq> c. uses (open_files (tasks s (task s i))) f)"
proof -
  have "{i. i < NR_TASKS \<and> task s i \<noteq> 0} - {c} = {i. i < NR_TASKS \<and> task s i \<noteq> 0 \<and> i \<noteq> c}" by auto
  then show ?thesis
    unfolding file_refs_def using assms sum.remove [of "{i. i < NR_TASKS \<and> task s i \<noteq> 0}" c "\<lambda>i. uses (open_files (tasks s (task s i))) f"] by simp
qed

lemma files_wfE:
  assumes "files_wf s"
  obtains c where "c < NR_TASKS" "task s c = current s" "current s \<noteq> 0" "\<And>i. i < NR_TASKS \<Longrightarrow> task s i \<noteq> 0 \<Longrightarrow> i \<noteq> c \<Longrightarrow> task s i \<noteq> current s"
  using assms unfolding files_wf_def by metis

text \<open>One descriptor of the current task changes, and the counts with it.\<close>

lemma files_wf_step:
  assumes wf: "files_wf s" and fd: "fd < 20" and v: "\<And>f. v = Some f \<Longrightarrow> f < NR_FILE"
    and t: "task t = task s" "current t = current s" "\<And>p. p \<noteq> current s \<Longrightarrow> tasks t p = tasks s p" "filp (cur t) = (filp (cur s))(fd := v)"
    and cnt: "\<And>f. f < NR_FILE \<Longrightarrow> unat (f_count (file_table t f)) + of_bool (filp (cur s) fd = Some f) = unat (f_count (file_table s f)) + of_bool (v = Some f)"
  shows "files_wf t"
proof -
  obtain c where c: "c < NR_TASKS" "task s c = current s" "current s \<noteq> 0" "\<And>i. i < NR_TASKS \<Longrightarrow> task s i \<noteq> 0 \<Longrightarrow> i \<noteq> c \<Longrightarrow> task s i \<noteq> current s"
    using files_wfE [OF wf] by blast
  have "(\<Sum>i | i < NR_TASKS \<and> task t i \<noteq> 0 \<and> i \<noteq> c. uses (open_files (tasks t (task t i))) f) =
      (\<Sum>i | i < NR_TASKS \<and> task s i \<noteq> 0 \<and> i \<noteq> c. uses (open_files (tasks s (task s i))) f)" for f
    unfolding t(1) by (intro sum.cong refl) (use c(4) t(3) in auto)
  then have "file_refs t f + of_bool (filp (cur s) fd = Some f) = file_refs s f + of_bool (v = Some f)" for f
    using file_refs_current [of c s f] file_refs_current [of c t f] c t(1,2) uses_upd [OF fd t(4), of f] by simp
  then have "unat (f_count (file_table t f)) = file_refs t f" if "f < NR_FILE" for f
    using cnt [OF that] wf that unfolding files_wf_def by (metis add_right_cancel)
  moreover have "f < NR_FILE" if "i < NR_TASKS" "task t i \<noteq> 0" "k < NR_OPEN" "filp (tasks t (task t i)) k = Some f" for i k f
  proof -
    have "filp (tasks s (task s i)) k = Some f \<or> v = Some f"
      using that(4) t by (cases "task s i = current s"; cases "k = fd") auto
    then show ?thesis using v wf that unfolding files_wf_def t(1) by blast
  qed
  ultimately show ?thesis using wf unfolding files_wf_def t(1,2) by blast
qed

section \<open>Descriptors\<close>

lemma table_simps [simp]:
  "task (upd_file f g s) = task s" "current (upd_file f g s) = current s" "tasks (upd_file f g s) = tasks s"
  "task (set_fd fd v s) = task s" "current (set_fd fd v s) = current s"
  "task (clear_cloexec fd s) = task s" "current (clear_cloexec fd s) = current s"
  "file_table (set_fd fd v s) = file_table s" "file_table (clear_cloexec fd s) = file_table s"
  "filp (tasks (clear_cloexec fd s) p) = filp (tasks s p)"
  "filp (tasks (set_fd fd v s) p) = (if p = current s then (filp (cur s))(fd := v) else filp (tasks s p))"
  "p \<noteq> current s \<Longrightarrow> tasks (set_fd fd v s) p = tasks s p" "p \<noteq> current s \<Longrightarrow> tasks (clear_cloexec fd s) p = tasks s p"
  by (simp_all add: upd_file_def set_fd_def clear_cloexec_def upd_task_def)

lemma f_count_upd [simp]: "file_table (upd_file f g s) i = (if i = f then g (file_table s f) else file_table s i)"
  by (simp add: upd_file_def)

lemma files_wf_cloexec: "files_wf s \<Longrightarrow> files_wf (clear_cloexec fd s)"
  by (rule files_wf_same) simp_all

text \<open>An entry that the current task names has a count above 0 that is far from its limit.\<close>

lemma files_wf_named:
  assumes "files_wf s" "fd < 20" "filp (cur s) fd = Some f"
  shows "f < NR_FILE" "f_count (file_table s f) \<noteq> 0" "unat (f_count (file_table s f)) \<le> 1280"
proof -
  obtain c where c: "c < NR_TASKS" "task s c = current s" "current s \<noteq> 0" using files_wfE [OF assms(1)] by blast
  show f: "f < NR_FILE" using assms c unfolding files_wf_def by metis
  have cnt: "unat (f_count (file_table s f)) = file_refs s f" using assms(1) f unfolding files_wf_def by blast
  show "unat (f_count (file_table s f)) \<le> 1280" unfolding cnt by (rule file_refs_le)
  have "0 < uses (open_files (cur s)) f" using uses_upd [OF assms(2), of "cur s\<lparr>filp := (filp (cur s))(fd := None)\<rparr>" "cur s" None f] assms(3) by simp
  then have "0 < file_refs s f" using file_refs_current [OF c] by simp
  then show "f_count (file_table s f) \<noteq> 0" using cnt by auto
qed

lemma dupfd_wf:
  assumes wf: "files_wf s"
  shows "\<exists>r t. dupfd fd arg s = (r, t) \<and> files_wf t \<and> (0 \<le> r \<longrightarrow> nat r < NR_OPEN \<and> unat arg \<le> nat r \<and> file_of fd s \<noteq> None \<and>
    filp (cur s) (nat r) = None \<and> (\<forall>j. unat arg \<le> j \<and> j < nat r \<longrightarrow> filp (cur s) j \<noteq> None) \<and>
       filp (cur t) = (filp (cur s))(nat r := file_of fd s))"
proof (cases "file_of fd s")
  case None
  then show ?thesis using wf by (simp add: dupfd_def)
next
  case (Some f)
  then have fd: "unat fd < 20" "filp (cur s) (unat fd) = Some f"
    unfolding file_of_def by (auto simp: word_le_nat_alt split: if_splits)
  note named = files_wf_named [OF wf fd]
  show ?thesis
  proof (cases "20 \<le> arg \<or> find (\<lambda>k. filp (cur s) k = None) [unat arg..<NR_OPEN] = None")
    case True
    then show ?thesis using Some wf by (auto simp: dupfd_def)
  next
    case False
    then obtain k where k: "find (\<lambda>k. filp (cur s) k = None) [unat arg..<NR_OPEN] = Some k" by blast
    then obtain i where i: "i < 20 - unat arg" "filp (cur s) (unat arg + i) = None" "k = unat arg + i" "\<forall>j<i. filp (cur s) (unat arg + j) \<noteq> None"
      by (auto simp: find_Some_iff)
    then have kn: "filp (cur s) k = None" "k < 20" "unat arg \<le> k" by simp_all
    have first: "filp (cur s) j \<noteq> None" if "unat arg \<le> j" "j < k" for j
      using i(3,4) that by (metis add_diff_inverse_nat nat_add_left_cancel_less not_le)
    let ?t = "upd_file f (\<lambda>x. x\<lparr>f_count := f_count x + 1\<rparr>) (set_fd k (Some f) (clear_cloexec k s))"
    have "files_wf ?t"
    proof (rule files_wf_step [OF wf kn(2)])
      show "unat (f_count (file_table ?t g)) + of_bool (filp (cur s) k = Some g) = unat (f_count (file_table s g)) + of_bool (Some f = Some g)" for g
        using kn(1) named(3) by (auto simp: unat_word_ariths)
    qed (use named(1) in simp_all)
    moreover have "filp (cur ?t) = (filp (cur s))(k := Some f)" by simp
    ultimately show ?thesis using Some False k kn first by (auto simp: dupfd_def)
  qed
qed

lemma sys_fcntl_wf:
  assumes wf: "files_wf s"
  shows "files_wf (snd (sys_fcntl fd cmd arg s))"
proof -
  have a: "files_wf (upd_cur (\<lambda>t. t\<lparr>close_on_exec := c t\<rparr>) s)" for c
    by (rule files_wf_same [OF wf]) (simp_all add: upd_task_def)
  have b: "files_wf (upd_file f (\<lambda>x. x\<lparr>f_flags := h x\<rparr>) s)" for f h
    by (rule files_wf_same [OF wf]) simp_all
  have d: "files_wf (snd (dupfd fd arg s))" using dupfd_wf [OF wf, of fd arg] by auto
  show ?thesis using wf a b d files_wf_cloexec [OF wf] by (simp add: sys_fcntl_def split: option.split)
qed

lemma sys_close_wf:
  assumes wf: "files_wf s"
  shows "\<exists>t. files_wf t \<and>
    (sys_close K fd s = Ret (- EINVAL) t \<and> file_of fd s = None \<and> filp (cur t) = filp (cur s) \<or>
     filp (cur t) = (filp (cur s))(unat fd := None) \<and>
      (\<exists>f. file_of fd s = Some f \<and>
        (file_refs t f \<noteq> 0 \<and> sys_close K fd s = Ret 0 t \<or>
         file_refs t f = 0 \<and> sys_close K fd s = andThen (iput K (f_inode (file_table s f)) t) (\<lambda>_ u. Ret 0 u))))"
proof (cases "file_of fd s")
  case None
  show ?thesis
  proof (cases "20 \<le> fd")
    case True
    then show ?thesis using None wf by (intro exI [of _ s]) (simp add: sys_close_def)
  next
    case False
    then show ?thesis
      using None files_wf_cloexec [OF wf] by (intro exI [of _ "clear_cloexec (unat fd) s"]) (simp add: sys_close_def file_of_def)
  qed
next
  case (Some f)
  then have fd: "\<not> 20 \<le> fd" "unat fd < 20" "filp (cur s) (unat fd) = Some f"
    unfolding file_of_def by (auto simp: word_le_nat_alt split: if_splits)
  note named = files_wf_named [OF wf fd(2,3)]
  let ?t = "upd_file f (\<lambda>x. x\<lparr>f_count := f_count x - 1\<rparr>) (set_fd (unat fd) None (clear_cloexec (unat fd) s))"
  have t: "files_wf ?t"
  proof (rule files_wf_step [OF wf fd(2)])
    show "unat (f_count (file_table ?t g)) + of_bool (filp (cur s) (unat fd) = Some g) = unat (f_count (file_table s g)) + of_bool (None = Some g)" for g
      using fd(3) unat_minus_one [OF named(2)] unat_gt_0 [of "f_count (file_table s f)"] named(2) by auto
  qed simp_all
  have "sys_close K fd s = (if f_count (file_table ?t f) \<noteq> 0 then Ret 0 ?t
      else andThen (iput K (f_inode (file_table s f)) ?t) (\<lambda>_ u. Ret 0 u))"
    using fd named(2) by (simp add: sys_close_def Let_def)
  moreover have "f_count (file_table ?t f) \<noteq> 0 \<longleftrightarrow> file_refs ?t f \<noteq> 0"
  proof -
    have "unat (f_count (file_table ?t f)) = file_refs ?t f" using t named(1) unfolding files_wf_def by blast
    then show ?thesis by (simp only: unat_eq_zero flip: \<open>unat (f_count (file_table ?t f)) = file_refs ?t f\<close>)
  qed
  moreover have "filp (cur ?t) = (filp (cur s))(unat fd := None)" by simp
  ultimately show ?thesis using t Some by (intro exI [of _ ?t]) (simp split: if_splits)
qed

text \<open>A new task that has the descriptors of the current one, when the counts grow by one for each.\<close>

lemma share_files_wf:
  assumes wf: "files_wf s" and nr: "nr < NR_TASKS" "task s nr = 0" and p: "p \<noteq> 0" "\<And>i. i < NR_TASKS \<Longrightarrow> task s i \<noteq> p"
  shows "files_wf (share_files p (upd_task p (\<lambda>_. child_task nr p r s) (s\<lparr>task := (task s)(nr := p)\<rparr>)))"
proof -
  define t where "t = share_files p (upd_task p (\<lambda>_. child_task nr p r s) (s\<lparr>task := (task s)(nr := p)\<rparr>))"
  obtain c where c: "c < NR_TASKS" "task s c = current s" "current s \<noteq> 0" using files_wfE [OF wf] by blast
  have pc: "p \<noteq> current s" using p(2) c(1,2) by metis
  have ch: "filp (child_task nr p r s) = filp (cur s)" by (simp add: child_task_def Let_def)
  have t: "task t = (task s)(nr := p)" "current t = current s" "tasks t = (tasks s)(p := child_task nr p r s)"
    "file_table t = (\<lambda>f. (file_table s f)\<lparr>f_count := f_count (file_table s f) + of_nat (uses (open_files (cur s)) f)\<rparr>)"
    unfolding t_def share_files_eq by (simp_all add: upd_task_def open_files_def ch)
  have set: "{i. i < NR_TASKS \<and> task t i \<noteq> 0} = insert nr {i. i < NR_TASKS \<and> task s i \<noteq> 0}"
    using nr p(1) by (auto simp: t)
  have "(\<Sum>i | i < NR_TASKS \<and> task s i \<noteq> 0. uses (open_files (tasks t (task t i))) f) = file_refs s f" for f
    unfolding file_refs_def using nr(2) p(2) by (intro sum.cong) (auto simp: t)
  moreover have "open_files (tasks t (task t nr)) = open_files (cur s)" by (simp add: t open_files_def ch)
  ultimately have refs: "file_refs t f = uses (open_files (cur s)) f + file_refs s f" for f
    unfolding file_refs_def [of t] set using nr(2) by simp
  have "unat (f_count (file_table t f)) = file_refs t f" if "f < NR_FILE" for f
  proof -
    have "unat (f_count (file_table s f)) = file_refs s f" using wf that unfolding files_wf_def by blast
    moreover have "uses (open_files (cur s)) f + file_refs s f < 65536" using file_refs_le [of s f] uses_le [of "cur s" f] by simp
    ultimately show ?thesis by (simp add: t(4) refs unat_word_ariths unat_of_nat)
  qed
  moreover have "\<forall>i<NR_TASKS. \<forall>j<NR_TASKS. task t i \<noteq> 0 \<longrightarrow> task t i = task t j \<longrightarrow> i = j"
    using wf p(2) unfolding files_wf_def t(1) by (auto split: if_splits)
  moreover have "\<exists>i<NR_TASKS. task t i = current t \<and> current t \<noteq> 0" using c nr(2) by (intro exI [of _ c]) (auto simp: t)
  moreover have "f < NR_FILE" if "i < NR_TASKS" "task t i \<noteq> 0" "k < NR_OPEN" "filp (tasks t (task t i)) k = Some f" for i k f
  proof (cases "i = nr")
    case True
    then show ?thesis using that(3,4) c wf ch unfolding files_wf_def by (simp add: t)
  next
    case False
    then have "task s i \<noteq> 0" "filp (tasks s (task s i)) k = Some f" using that p(2) by (simp_all add: t)
    then show ?thesis using that(1,3) wf unfolding files_wf_def by blast
  qed
  ultimately show ?thesis unfolding files_wf_def t_def [symmetric] by blast
qed

section \<open>The table stays well-formed\<close>

text \<open>C40: In a well-formed state the slots hold different tasks, the current one among them, every descriptor of
  every task names an entry of the file table, and each entry counts the descriptors that name it. \<open>dup\<close> (also through
  \<open>fcntl\<close>), \<open>fcntl\<close> and fork's sharing of the files leave a well-formed state, whatever their arguments; a descriptor that
  \<open>dup\<close> returns was free, is the first from \<open>arg\<close> on and names the file of \<open>fd\<close>. So does \<open>close\<close>, up to the release of the i-node: it never
  finds a count of 0 (there is no panic), it clears that descriptor and no other, and it releases the i-node exactly
  when no descriptor of any task names the file any more.\<close>

theorem file_table_typed:
  assumes "files_wf s"
  shows "(\<exists>r t. dupfd fd arg s = (r, t) \<and> files_wf t \<and> (0 \<le> r \<longrightarrow> nat r < NR_OPEN \<and> unat arg \<le> nat r \<and> file_of fd s \<noteq> None \<and>
       filp (cur s) (nat r) = None \<and> (\<forall>j. unat arg \<le> j \<and> j < nat r \<longrightarrow> filp (cur s) j \<noteq> None) \<and>
       filp (cur t) = (filp (cur s))(nat r := file_of fd s))) \<and>
    files_wf (snd (sys_fcntl fd cmd arg s)) \<and>
    (\<exists>t. files_wf t \<and>
      (sys_close K fd s = Ret (- EINVAL) t \<and> file_of fd s = None \<and> filp (cur t) = filp (cur s) \<or>
       filp (cur t) = (filp (cur s))(unat fd := None) \<and>
        (\<exists>f. file_of fd s = Some f \<and>
          (file_refs t f \<noteq> 0 \<and> sys_close K fd s = Ret 0 t \<or>
           file_refs t f = 0 \<and> sys_close K fd s = andThen (iput K (f_inode (file_table s f)) t) (\<lambda>_ u. Ret 0 u))))) \<and>
    (nr < NR_TASKS \<and> task s nr = 0 \<and> p \<noteq> 0 \<and> (\<forall>i<NR_TASKS. task s i \<noteq> p) \<longrightarrow>
       files_wf (share_files p (upd_task p (\<lambda>_. child_task nr p r s) (s\<lparr>task := (task s)(nr := p)\<rparr>))))"
proof (intro conjI impI)
  show "files_wf (share_files p (upd_task p (\<lambda>_. child_task nr p r s) (s\<lparr>task := (task s)(nr := p)\<rparr>)))"
    if "nr < NR_TASKS \<and> task s nr = 0 \<and> p \<noteq> 0 \<and> (\<forall>i<NR_TASKS. task s i \<noteq> p)"
    using that by (intro share_files_wf [OF assms]) auto
qed (rule dupfd_wf [OF assms] sys_fcntl_wf [OF assms] sys_close_wf [OF assms])+

text \<open>A process with file 3 open as descriptor 0: it is duplicated, closed and inherited.\<close>

definition one_file :: fs_state where
  "one_file = empty_fs\<lparr>tasks := (\<lambda>q. (INIT_TASK q)\<lparr>filp := (\<lambda>_. None)(0 := if q = 0x2000 then Some 3 else None)\<rparr>),
     file_table := (\<lambda>f. no_file\<lparr>f_count := if f = 3 then 1 else 0\<rparr>)\<rparr>"

lemma one_file_simps:
  "task one_file = task two_tasks" "current one_file = 0x2000" "tasks one_file q = (INIT_TASK q)\<lparr>filp := (\<lambda>_. None)(0 := if q = 0x2000 then Some 3 else None)\<rparr>"
  "file_table one_file f = no_file\<lparr>f_count := if f = 3 then 1 else 0\<rparr>"
  by (simp_all add: one_file_def empty_fs_def two_procs_def two_tasks_def fs_state.defs proc_state.defs sched_state.defs)

lemma one_file_wf: "files_wf one_file"
proof -
  have tk: "task two_tasks i = (if i = 0 then 0x1000 else if i = 1 then 0x2000 else 0)" for i by (simp add: two_tasks_def)
  have set: "{i. i < NR_TASKS \<and> task one_file i \<noteq> 0} = {0, 1}" by (auto simp: one_file_simps tk NR_TASKS_def)
  have "uses (open_files (tasks one_file q)) f = of_bool (q = 0x2000 \<and> f = 3)" for q f
  proof -
    have "(\<Sum>i<20. of_bool (filp (tasks one_file q) i = Some f)) = (\<Sum>i<20::nat. if i = 0 then of_bool (q = 0x2000 \<and> f = 3) else 0 :: nat)"
      by (intro sum.cong) (auto simp: one_file_simps)
    then show ?thesis unfolding open_files_sum by simp
  qed
  then have "file_refs one_file f = of_bool (f = 3)" for f
    unfolding file_refs_def set by (simp add: one_file_simps)
  then show ?thesis unfolding files_wf_def
    by (auto simp: one_file_simps tk NR_TASKS_def split: if_splits)
qed

theorem file_table_typed_witness:
  "(\<exists>r t. dupfd 0 5 one_file = (r, t) \<and> files_wf t) \<and> (\<exists>t :: fs_state. files_wf t \<and> filp (cur t) 0 = None) \<and>
   files_wf (share_files 0x3000 (upd_task 0x3000 (\<lambda>_. child_task 2 0x3000 zero_regs one_file) (one_file\<lparr>task := (task one_file)(2 := 0x3000)\<rparr>)))"
proof -
  note th = file_table_typed [OF one_file_wf, where fd = 0 and arg = 5 and cmd = 0 and K = quiet and nr = 2 and p = "0x3000" and r = zero_regs]
  have f: "file_of 0 one_file = Some 3" by (simp add: file_of_def one_file_simps)
  have n: "task one_file 2 = 0" "\<forall>i<NR_TASKS. task one_file i \<noteq> 0x3000" by (auto simp: one_file_simps two_tasks_def)
  obtain t :: fs_state where "files_wf t" "filp (cur t) = (filp (cur one_file))(unat (0 :: u32) := None)"
    using th [THEN conjunct2, THEN conjunct2, THEN conjunct1] unfolding f by auto
  then have "\<exists>t :: fs_state. files_wf t \<and> filp (cur t) 0 = None" by (intro exI [of _ t]) simp
  moreover have "\<exists>r t. dupfd 0 5 one_file = (r, t) \<and> files_wf t" using th [THEN conjunct1] by blast
  ultimately show ?thesis using th [THEN conjunct2, THEN conjunct2, THEN conjunct2] n by (simp add: NR_TASKS_def)
qed

end
