(* ===== verification/Spec2Isabelle.thy ===== *)
theory Spec2Isabelle
  imports Memory_Properties Malloc_Properties Sched_Properties Process_Properties Sys Mktime Who Vsprintf Pipe_Properties
    Super Files Ramdisk_Properties Getblk_Properties Bitmap_Properties Tty_Properties Lifecycle_Properties
    Harddisk_Properties Exec_Properties File_Table
begin

text \<open>
  A verification library for the kernel of this repository, Linux 0.11 (C sources under \<^verbatim>\<open>src/\<close>): memory management,
  processes and the scheduler, the buffer cache and the block layer, the file system calls, pipes, the console and
  the terminals. The definitions are executable translations of the C functions, one per function, under the names
  of the code; a longer function is split into parts named after what they do, each part next to its caller.

  \<^bold>\<open>The shape of the model.\<close>
  A kernel function takes the machine state and ends in an \<open>outcome\<close> (theory \<open>Kernel_Prelude\<close>): \<open>Ret\<close> with its value and the
  new state, \<open>Panic\<close> with the message of \<open>panic()\<close>, \<open>Exit\<close> with the code when the function ends the calling process
  (\<open>do_exit\<close>), or \<open>Hang\<close> when it never comes back: a C undefined access (NULL, an index outside a table) and a loop that does not
  end. \<open>andThen\<close> composes; \<open>returns m P\<close> says that \<open>m\<close> ends in \<open>Ret\<close> and that \<open>P\<close> holds of value and state, so it
  excludes the three other endings. Error numbers are the negative
  integers that the functions return. Machine integers keep their width (\<open>u8\<close>, \<open>u16\<close>, \<open>u32\<close>, \<open>s32\<close> are words, the
  comparisons are the signed ones where the C type is signed).

  The state is one record extended by each component in turn, so that a function of a lower component applies to the
  state of a higher one: \<open>mm_state\<close> (memory map, physical memory as longs by address), \<open>sched_state\<close> (tasks, timers,
  queues), \<open>proc_state\<close> (process numbers), \<open>fs_state\<close> (buffers, requests, inodes, super blocks, file table), \<open>tty_state\<close>
  (console and terminal), \<open>gdt_state\<close> (descriptor tables), and \<open>malloc_state\<close> beside them on \<open>mm_state\<close>.

  \<^bold>\<open>Sleeping.\<close> A function that sleeps hands over to other tasks and interrupt handlers. What they do is not code of the function:
  it is the argument \<open>K\<close> (\<open>kernel_env\<close> in \<open>Fs\<close>) of the file system functions: \<open>others K\<close> is what the rest of the
  machine does to the state before the sleeper runs again, \<open>bound K\<close> the number of rounds a loop may take before it counts as
  endless, \<open>request_fn K\<close> the request function of a major device, \<open>floppy_change K\<close> the test for a changed disk.
  The properties name what they need of \<open>K\<close> (a bound at least the length of a list, a driver that is the RAM disk).

  \<^bold>\<open>Theories and sources.\<close>
  \<^item> \<open>Kernel_Prelude\<close>, \<open>Words\<close>, \<open>Chains\<close>: outcomes and their proof rules, word arithmetic, lists reached through pointers.
  \<^item> \<open>Memory\<close> (\<^verbatim>\<open>mm/memory.c\<close>); \<open>Memory_Tables\<close>, \<open>Memory_Accounting\<close>, \<open>Memory_Sharing\<close> and \<open>Memory_Properties\<close> on it: the accounting invariant
    \<open>mm_inv\<close> (each frame's use count is the number of page table entries that name it plus the references held elsewhere), kept by
    every operation; copying shares and write protects, a write fault unshares, freeing unmaps.
  \<^item> \<open>Malloc\<close> (\<^verbatim>\<open>lib/malloc.c\<close>), \<open>Malloc_Properties\<close>: buckets of blocks with their free lists stored in the blocks.
  \<^item> \<open>Task\<close>, \<open>Sched\<close> (\<^verbatim>\<open>include/linux/sched.h\<close>, \<^verbatim>\<open>kernel/sched.c\<close>), \<open>Sched_Properties\<close>: the choice of the next task, timers, floppy motors and the clock that turns them off, the coprocessor.
  \<^item> \<open>Process\<close>, \<open>Sys\<close> (\<^verbatim>\<open>kernel/signal.c\<close>, \<^verbatim>\<open>exit.c\<close>, \<^verbatim>\<open>fork.c\<close>, \<^verbatim>\<open>sys.c\<close>, \<^verbatim>\<open>include/asm/segment.h\<close>), \<open>Process_Properties\<close>: process
    numbers, signals, ids; \<open>Lifecycle\<close>, \<open>Lifecycle_Properties\<close>: \<open>copy_process\<close>, \<open>do_exit\<close>, descriptors and gates, \<open>do_no_page\<close>;
    \<open>Exec\<close>, \<open>Exec_Copy\<close>, \<open>Exec_Properties\<close> (\<^verbatim>\<open>fs/exec.c\<close>, \<^verbatim>\<open>include/a.out.h\<close>): \<open>execve\<close>, the copying of arguments and the tables on the new stack.
  \<^item> \<open>Mktime\<close>, \<open>Who\<close>, \<open>Vsprintf\<close>: the files of the same names under \<^verbatim>\<open>kernel/\<close>.
  \<^item> \<open>Fs\<close> (\<^verbatim>\<open>include/linux/fs.h\<close>), \<open>Fs_Lemmas\<close>, \<open>Fs_Examples\<close>: the tables of the file system; \<open>Block\<close> (\<^verbatim>\<open>kernel/blk_drv/ll_rw_blk.c\<close>,
    \<^verbatim>\<open>blk.h\<close>, \<^verbatim>\<open>ramdisk.c\<close>) with \<open>Elevator\<close> and \<open>Ramdisk_Properties\<close>; \<open>Harddisk\<close> (\<^verbatim>\<open>kernel/blk_drv/hd.c\<close>, the
    entry \<open>hd_interrupt\<close> of \<^verbatim>\<open>system_call.s\<close>, \<open>rd_load\<close>), \<open>Harddisk_Properties\<close>: what the controller answers (\<open>status_in\<close>, \<open>data_in\<close>) is input
    of the model, the commands and data that the driver sends are recorded in the order it sends them.
  \<^item> \<open>Buffer\<close>, \<open>Sync\<close> (\<^verbatim>\<open>fs/buffer.c\<close>), \<open>Cache_Properties\<close>, \<open>Getblk_Properties\<close>: the cache with the pointers of its hash queues and
    of its ring of free buffers, and the table from blocks to buffers that it implements.
  \<^item> \<open>Bitmap\<close> (\<^verbatim>\<open>fs/bitmap.c\<close>, \<^verbatim>\<open>fs/truncate.c\<close>), \<open>Bitmap_Properties\<close>; \<open>Inode\<close> (\<^verbatim>\<open>fs/inode.c\<close>); \<open>Namei\<close>, \<open>Namei_Calls\<close> (\<^verbatim>\<open>fs/namei.c\<close>); \<open>Super\<close>
    (\<^verbatim>\<open>fs/super.c\<close>); \<open>Pipe\<close>, \<open>Pipe_Properties\<close> (\<^verbatim>\<open>fs/pipe.c\<close>); \<open>File_IO\<close>, \<open>Files\<close> (\<^verbatim>\<open>fs/file_dev.c\<close>, \<^verbatim>\<open>block_dev.c\<close>, \<^verbatim>\<open>char_dev.c\<close>,
    \<^verbatim>\<open>read_write.c\<close>, \<^verbatim>\<open>open.c\<close>, \<^verbatim>\<open>fcntl.c\<close>, \<^verbatim>\<open>stat.c\<close>, \<^verbatim>\<open>ioctl.c\<close>), \<open>File_Table\<close>: descriptors and the counts of the file table.
  \<^item> \<open>Console\<close> (\<^verbatim>\<open>kernel/chr_drv/console.c\<close>, \<^verbatim>\<open>include/linux/tty.h\<close>), \<open>Console_Memory\<close>, \<open>Console_Properties\<close>, \<open>Console_Bounds\<close>; \<open>Tty\<close>
    (\<^verbatim>\<open>kernel/chr_drv/tty_io.c\<close>, \<^verbatim>\<open>tty_ioctl.c\<close>, \<^verbatim>\<open>lib/ctype.c\<close>), \<open>Tty_Queue\<close>, \<open>Tty_Properties\<close>.

  \<^bold>\<open>What the properties show.\<close>
  \<^item> Memory, C1 to C4: what each operation does to the mapping and to the pages, with the accounting invariant, and how many frames were free when
    one fails. C36, C37: the allocator of \<^verbatim>\<open>lib/malloc.c\<close>
    hands out disjoint blocks, takes back the right one, and returns a page none of whose blocks is in use.
  \<^item> Scheduling, C5 to C9: \<open>schedule\<close> ends and picks the runnable task with the largest counter; the timer list fires too late
    (a defect); the wait for a floppy motor ends, with the motor on, as long as the clock ticks; the coprocessor is switched once per use; \<open>wake_up\<close> can revive a zombie (a defect).
  \<^item> Processes, C10 to C13 and C35: a free process number is found; who gets a signal; which ids can be set; the frame a handler finds;
    what \<open>copy_process\<close> makes, field by field, and undoes when memory runs out. C39: the arguments and the environment
    that a program was given are the ones it finds on its stack, read through the page tables that \<open>put_page\<close> has filled. C40: the count of an
    open file is the number of descriptors that name it.
  \<^item> C14, C15: the clock conversion is the calendar's; \<open>iam\<close> and \<open>whoami\<close>.
  \<^item> Hard disk, C16 and C38: the command names the sector that was asked for; every request is ended, however the
    controller answers, within one interrupt per sector and three per error.
  \<^item> Pipes, C17 to C19: a pipe is a first-in first-out queue, from a \<open>locale\<close> of queues interpreted on the code.
  \<^item> Block layer, C20 to C23: the request list is an elevator; the RAM disk reads back what was written; writes never fill the
    request table. Cache, C24 to C26: the pointers implement a table, the least recently released clean buffer is reused, one buffer per block.
  \<^item> Bitmaps, C27 to C30: the bit search, allocation of the first free zone of the whole map, release, and a leak (a defect).
  \<^item> Console and terminal, C31 to C34: both ways of scrolling show the same picture, all writes stay in video memory, the
    erase and kill characters edit the line they should, and what is written is shown.

  \<^bold>\<open>Bounds and fuel.\<close>
  A loop over a table is a recursion over its indices. Loops over linked structures carry a number of rounds, \<open>bound K\<close> or an
  argument; reaching 0 is \<open>Hang\<close>, so a theorem that says \<open>returns\<close> or \<open>Ret\<close> shows that the number suffices; the
  hypotheses ask for at most the length of the list plus one. The page allocator has 3840 frames of 4096 bytes above 1 MB, as in the code.

  \<^bold>\<open>Interfaces.\<close> Locales state the contract between a component and its clients, and each is interpreted on the code's
  definitions: \<open>wait_queue\<close> (sleeping until a condition), \<open>block_map\<close> (a cache of blocks, on the buffer cache),
  \<open>byte_queue\<close> (on pipes), \<open>bounded_queue\<close> (on the terminal queues), \<open>screen_client\<close> and \<open>echo_writer\<close> (on \<open>con_write\<close>).

  \<^bold>\<open>Not modelled.\<close>
  The assembly files (\<^verbatim>\<open>boot/\<close>, \<^verbatim>\<open>kernel/system_call.s\<close> apart from \<open>hd_interrupt\<close>, \<^verbatim>\<open>asm.s\<close>, \<^verbatim>\<open>mm/page.s\<close>, the keyboard) are not C; the C functions that they call are the
  operations of the model. Printing (\<open>printk\<close>, \<open>show_task\<close>) has no effect on the state and is left out, the text of \<open>panic\<close>
  apart. The driver of the floppy is a controller protocol. \<^verbatim>\<open>init/main.c\<close> calls initialisation
  functions and starts the shell; \<^verbatim>\<open>lib/\<close> otherwise holds system call stubs in inline assembly for user programs;
  \<^verbatim>\<open>math_emulate.c\<close> is a stub; \<^verbatim>\<open>tools/build.c\<close> is a host tool.
  Segment registers are not part of the state: user memory is one space, reached through the segment of the current task.
\<close>

end
